(* ===== verification/Stroem_Prelude.thy ===== *)
theory Stroem_Prelude
  imports Main "HOL-Library.Word" "HOL-Library.Char_ord" "HOL-Library.List_Lexorder"
    "HOL-Library.Sublist" "HOL-Library.Multiset"
begin

text \<open>
  Shared vocabulary of the development.

  A Rust \<^verbatim>\<open>String\<close> is the list of its UTF-8 bytes, so \<open>length\<close> is \<^verbatim>\<open>str::len\<close> and the order of
  strings (byte-wise, lexicographic) is the one of \<^verbatim>\<open>Ord for str\<close>. A \<^verbatim>\<open>HashMap<String, V>\<close> is an
  association list with distinct keys; its order is the (unspecified) iteration order, and
  theorems hold for every such order. \<^verbatim>\<open>Result<A, E>\<close> is the sum \<open>'e + 'a\<close> with \<open>Inl\<close> the error.

  The theory holds the string primitives of the Rust standard library that the modelled code
  uses (decimal printing and parsing, \<^verbatim>\<open>trim\<close>, \<^verbatim>\<open>find\<close>, \<^verbatim>\<open>split\<close>, \<^verbatim>\<open>strip_prefix\<close>), the saturating and
  checked 64-bit arithmetic, and the list lemmas the components share.
\<close>

section \<open>Collections of facts\<close>

named_theorems row_simps \<open>projections of updated rows\<close>
named_theorems gate_simps \<open>evaluation of the dependency gate\<close>
named_theorems cascade_simps \<open>evaluation of the step cascade\<close>

section \<open>Types\<close>

type_synonym 'v hashmap = "(string \<times> 'v) list"
type_synonym uuid = nat
type_synonym time = int \<comment> \<open>a \<^verbatim>\<open>DateTime<Utc>\<close>, in microseconds since the epoch\<close>

abbreviation keys :: "'v hashmap \<Rightarrow> string list" where
  "keys m \<equiv> map fst m"

abbreviation vals :: "'v hashmap \<Rightarrow> 'v list" where
  "vals m \<equiv> map snd m"

abbreviation contains_key :: "'v hashmap \<Rightarrow> string \<Rightarrow> bool" where
  "contains_key m k \<equiv> map_of m k \<noteq> None"

section \<open>Bytes and decimal numbers\<close>

definition byte :: "char \<Rightarrow> nat" where
  "byte c = of_char c"

definition is_digit :: "char \<Rightarrow> bool" where
  "is_digit c \<longleftrightarrow> 48 \<le> byte c \<and> byte c \<le> 57"

definition digit_char :: "nat \<Rightarrow> char" where
  "digit_char d = char_of (48 + d)"

definition digit_val :: "char \<Rightarrow> nat" where
  "digit_val c = byte c - 48"

fun show_nat :: "nat \<Rightarrow> string" where
  "show_nat n = (if n < 10 then [digit_char n] else show_nat (n div 10) @ [digit_char (n mod 10)])"

declare show_nat.simps [simp del]

definition show_int :: "int \<Rightarrow> string" where
  "show_int i = (if i < 0 then CHR ''-'' # show_nat (nat (- i)) else show_nat (nat i))"

definition nat_of_digits :: "string \<Rightarrow> nat" where
  "nat_of_digits s = foldl (\<lambda>a c. a * 10 + digit_val c) 0 s"

lemma byte_digit_char [simp]: "d < 10 \<Longrightarrow> byte (digit_char d) = 48 + d"
  by (simp add: byte_def digit_char_def)

lemma is_digit_digit_char [simp]: "d < 10 \<Longrightarrow> is_digit (digit_char d)"
  by (simp add: is_digit_def)

lemma digit_val_digit_char [simp]: "d < 10 \<Longrightarrow> digit_val (digit_char d) = d"
  by (simp add: digit_val_def)

lemma show_nat_not_Nil [simp]: "show_nat n \<noteq> []"
  by (subst show_nat.simps) simp

lemma show_nat_digits: "c \<in> set (show_nat n) \<Longrightarrow> is_digit c"
proof (induction n rule: show_nat.induct)
  case (1 n)
  show ?case
  proof (cases "n < 10")
    case True
    with "1.prems" show ?thesis by (simp add: show_nat.simps [of n])
  next
    case False
    with "1.prems" have "c \<in> set (show_nat (n div 10)) \<or> c = digit_char (n mod 10)"
      by (auto simp: show_nat.simps [of n])
    with "1.IH" False show ?thesis by auto
  qed
qed

lemma nat_of_digits_snoc [simp]: "nat_of_digits (s @ [c]) = nat_of_digits s * 10 + digit_val c"
  by (simp add: nat_of_digits_def)

lemma nat_of_digits_Nil [simp]: "nat_of_digits [] = 0"
  by (simp add: nat_of_digits_def)

lemma nat_of_digits_show_nat [simp]: "nat_of_digits (show_nat n) = n"
proof (induction n rule: show_nat.induct)
  case (1 n)
  show ?case
  proof (cases "n < 10")
    case True
    then show ?thesis by (simp add: show_nat.simps [of n] nat_of_digits_def)
  next
    case False
    with "1" have "nat_of_digits (show_nat (n div 10)) = n div 10" by simp
    with False show ?thesis by (simp add: show_nat.simps [of n])
  qed
qed

lemma show_nat_inj: "show_nat m = show_nat n \<Longrightarrow> m = n"
  by (metis nat_of_digits_show_nat)

text \<open>\<^verbatim>\<open>str::parse::<u64>\<close>: an optional plus sign, then at least one digit, and no overflow.\<close>

definition parse_u64 :: "string \<Rightarrow> nat option" where
  "parse_u64 s =
     (let d = (case s of [] \<Rightarrow> [] | c # cs \<Rightarrow> if c = CHR ''+'' then cs else s)
      in if d \<noteq> [] \<and> list_all is_digit d \<and> nat_of_digits d < 2 ^ 64
         then Some (nat_of_digits d) else None)"

lemma plus_not_digit [simp]: "\<not> is_digit (CHR ''+'')"
  by (simp add: is_digit_def byte_def)

lemma parse_u64_digits:
  assumes "d \<noteq> []" and "list_all is_digit d"
  shows "parse_u64 d = (if nat_of_digits d < 2 ^ 64 then Some (nat_of_digits d) else None)"
  using assms by (cases d) (auto simp: parse_u64_def)

lemma parse_u64_show_nat [simp]: "n < 2 ^ 64 \<Longrightarrow> parse_u64 (show_nat n) = Some n"
  by (subst parse_u64_digits) (auto simp: list_all_iff show_nat_digits)

lemma parse_u64_bound: "parse_u64 s = Some n \<Longrightarrow> n < 2 ^ 64"
  by (auto simp: parse_u64_def Let_def split: if_splits)

section \<open>64-bit arithmetic\<close>

definition u64_max :: nat where
  "u64_max = 2 ^ 64 - 1"

definition saturating_add :: "nat \<Rightarrow> nat \<Rightarrow> nat" where
  "saturating_add a b = min (a + b) u64_max"

definition saturating_mul :: "nat \<Rightarrow> nat \<Rightarrow> nat" where
  "saturating_mul a b = min (a * b) u64_max"

definition checked_mul :: "nat \<Rightarrow> nat \<Rightarrow> nat option" where
  "checked_mul a b = (if a * b \<le> u64_max then Some (a * b) else None)"

text \<open>\<^verbatim>\<open>x as u64\<close> of an \<^verbatim>\<open>i32\<close>: sign extension, that is the value modulo \<open>2 ^ 64\<close>.\<close>

definition i32_as_u64 :: "int \<Rightarrow> nat" where
  "i32_as_u64 i = nat (i mod 2 ^ 64)"

lemma saturating_add_bound [simp]: "saturating_add a b \<le> u64_max"
  by (simp add: saturating_add_def)

lemma saturating_mul_bound [simp]: "saturating_mul a b \<le> u64_max"
  by (simp add: saturating_mul_def)

lemma i32_as_u64_nonneg: "0 \<le> i \<Longrightarrow> i < 2 ^ 31 \<Longrightarrow> i32_as_u64 i = nat i"
  by (simp add: i32_as_u64_def)

section \<open>Searching and splitting strings\<close>

text \<open>\<^verbatim>\<open>str::find(char)\<close>: the byte offset of the first occurrence.\<close>

fun str_find :: "char \<Rightarrow> string \<Rightarrow> nat option" where
  "str_find c [] = None"
| "str_find c (x # xs) = (if x = c then Some 0 else map_option Suc (str_find c xs))"

lemma str_find_None [simp]: "str_find c s = None \<longleftrightarrow> c \<notin> set s"
  by (induction s) auto

lemma str_find_Some: "str_find c s = Some i \<Longrightarrow> i < length s \<and> s ! i = c \<and> c \<notin> set (take i s)"
proof (induction s arbitrary: i)
  case (Cons x xs)
  then show ?case by (cases i) (auto split: if_splits)
qed simp

lemma str_find_append: "c \<notin> set a \<Longrightarrow> str_find c (a @ c # b) = Some (length a)"
  by (induction a) auto

text \<open>\<^verbatim>\<open>str::strip_prefix\<close>.\<close>

fun strip_prefix :: "string \<Rightarrow> string \<Rightarrow> string option" where
  "strip_prefix [] s = Some s"
| "strip_prefix (p # ps) [] = None"
| "strip_prefix (p # ps) (c # cs) = (if p = c then strip_prefix ps cs else None)"

lemma strip_prefix_Some: "strip_prefix p s = Some r \<longleftrightarrow> s = p @ r"
  by (induction p s rule: strip_prefix.induct) auto

lemma strip_prefix_append [simp]: "strip_prefix p (p @ r) = Some r"
  by (simp add: strip_prefix_Some)

lemma strip_prefix_None: "strip_prefix p s = None \<longleftrightarrow> \<not> prefix p s"
  by (metis not_None_eq prefixE prefixI strip_prefix_Some)

text \<open>\<^verbatim>\<open>str::split(char)\<close>: the pieces between the separators, at least one.\<close>

fun split_on :: "char \<Rightarrow> string \<Rightarrow> string list" where
  "split_on c [] = [[]]"
| "split_on c (x # xs) =
     (if x = c then [] # split_on c xs
      else (case split_on c xs of [] \<Rightarrow> [[x]] | p # ps \<Rightarrow> (x # p) # ps))"

lemma split_on_not_Nil [simp]: "split_on c s \<noteq> []"
  by (induction s) (auto split: list.splits)

lemma split_on_no_sep: "p \<in> set (split_on c s) \<Longrightarrow> c \<notin> set p"
proof (induction s arbitrary: p)
  case (Cons x xs)
  then show ?case by (cases "split_on c xs") (auto split: if_splits)
qed simp

text \<open>\<^verbatim>\<open>str::contains(&str)\<close>.\<close>

definition contains :: "string \<Rightarrow> string \<Rightarrow> bool" where
  "contains s needle \<longleftrightarrow> sublist needle s"

section \<open>White space\<close>

text \<open>
  \<^verbatim>\<open>str::trim\<close> removes leading and trailing characters with the Unicode \<^verbatim>\<open>White_Space\<close> property. Here
  are their UTF-8 encodings: the ASCII ones, U+0085, U+00A0, U+1680, U+2000 to U+200A, U+2028,
  U+2029, U+202F, U+205F and U+3000.
\<close>

definition bytes :: "nat list \<Rightarrow> string" where
  "bytes ns = map char_of ns"

definition whitespace_seqs :: "string list" where
  "whitespace_seqs =
     map bytes ([[9], [10], [11], [12], [13], [32], [0xC2, 0x85], [0xC2, 0xA0],
       [0xE1, 0x9A, 0x80]] @ map (\<lambda>n. [0xE2, 0x80, n]) ([0x80..<0x8B] @ [0xA8, 0xA9, 0xAF])
       @ [[0xE2, 0x81, 0x9F], [0xE3, 0x80, 0x80]])"

fun strip_any :: "string list \<Rightarrow> string \<Rightarrow> string option" where
  "strip_any [] s = None"
| "strip_any (w # ws) s = (case strip_prefix w s of Some r \<Rightarrow> Some r | None \<Rightarrow> strip_any ws s)"

lemma strip_any_shorter:
  "strip_any ws s = Some r \<Longrightarrow> [] \<notin> set ws \<Longrightarrow> length r < length s"
  by (induction ws) (auto simp: strip_prefix_Some split: option.splits)

lemma whitespace_seqs_nonempty [simp]: "[] \<notin> set whitespace_seqs"
  by (auto simp: whitespace_seqs_def bytes_def)

lemma whitespace_seqs_rev_nonempty [simp]: "[] \<notin> set (map rev whitespace_seqs)"
  by (auto simp: whitespace_seqs_def bytes_def)

function strip_all :: "string list \<Rightarrow> string \<Rightarrow> string" where
  "strip_all ws s =
     (if [] \<in> set ws then s
      else case strip_any ws s of None \<Rightarrow> s | Some r \<Rightarrow> strip_all ws r)"
  by pat_completeness auto
termination
  by (relation "measure (\<lambda>(ws, s). length s)") (auto dest: strip_any_shorter)

declare strip_all.simps [simp del]

definition trim_start :: "string \<Rightarrow> string" where
  "trim_start s = strip_all whitespace_seqs s"

definition trim_end :: "string \<Rightarrow> string" where
  "trim_end s = rev (strip_all (map rev whitespace_seqs) (rev s))"

definition trim :: "string \<Rightarrow> string" where
  "trim s = trim_end (trim_start s)"

lemma strip_any_None: "strip_any ws s = None \<longleftrightarrow> (\<forall>w \<in> set ws. \<not> prefix w s)"
  by (induction ws) (auto simp: strip_prefix_None strip_prefix_Some split: option.splits)

lemma strip_all_fixed:
  "(\<forall>w \<in> set ws. \<not> prefix w s) \<Longrightarrow> strip_all ws s = s"
  by (simp add: strip_all.simps strip_any_None [THEN iffD2])

lemma strip_all_stable: "[] \<notin> set ws \<Longrightarrow> w \<in> set ws \<Longrightarrow> \<not> prefix w (strip_all ws s)"
proof (induction ws s rule: strip_all.induct)
  case (1 ws s)
  show ?case
  proof (cases "strip_any ws s")
    case None
    then have "strip_all ws s = s" by (simp add: strip_all.simps [of ws s])
    with None "1.prems" show ?thesis by (simp add: strip_any_None)
  next
    case (Some r)
    with "1" show ?thesis by (simp add: strip_all.simps [of ws s])
  qed
qed

lemma strip_all_idem [simp]: "strip_all ws (strip_all ws s) = strip_all ws s"
proof (cases "[] \<in> set ws")
  case True
  then show ?thesis by (simp add: strip_all.simps)
next
  case False
  then show ?thesis by (auto intro: strip_all_fixed dest: strip_all_stable)
qed

lemma strip_any_Some_suffix: "strip_any ws s = Some r \<Longrightarrow> suffix r s"
  by (induction ws) (auto simp: strip_prefix_Some suffix_def split: option.splits)

lemma strip_all_suffix: "suffix (strip_all ws s) s"
proof (induction ws s rule: strip_all.induct)
  case (1 ws s)
  show ?case
  proof (cases "[] \<in> set ws \<or> strip_any ws s = None")
    case True
    then show ?thesis by (auto simp: strip_all.simps [of ws s])
  next
    case False
    then obtain r where r: "strip_any ws s = Some r" by auto
    with False "1.IH" have "suffix (strip_all ws r) r" by simp
    with r False show ?thesis
      by (auto simp: strip_all.simps [of ws s] dest: strip_any_Some_suffix intro: suffix_order.trans)
  qed
qed

text \<open>A string whose first and last bytes are not those of a white space sequence is its own trim.\<close>

definition is_graphic :: "char \<Rightarrow> bool" where
  "is_graphic c \<longleftrightarrow> 33 \<le> byte c \<and> byte c \<le> 126"

lemma show_nat_all_digits [simp]: "list_all is_digit (show_nat n)"
  by (simp add: list_all_iff show_nat_digits)

lemma digit_graphic: "is_digit c \<Longrightarrow> is_graphic c"
  by (simp add: is_digit_def is_graphic_def)

lemma whitespace_ends_not_graphic:
  "w \<in> set whitespace_seqs \<Longrightarrow> \<not> is_graphic (hd w) \<and> \<not> is_graphic (last w)"
  by (auto simp: whitespace_seqs_def bytes_def is_graphic_def byte_def)

lemma trim_graphic:
  assumes "s \<noteq> []" and "is_graphic (hd s)" and "is_graphic (last s)"
  shows "trim s = s"
proof -
  have "\<not> prefix w s" if "w \<in> set whitespace_seqs" for w
  proof
    assume "prefix w s"
    moreover from that have "w \<noteq> []" by (metis whitespace_seqs_nonempty)
    ultimately have "hd w = hd s" by (metis hd_append prefixE)
    with that assms(2) show False using whitespace_ends_not_graphic by metis
  qed
  then have 1: "trim_start s = s" by (simp add: trim_start_def strip_all_fixed)
  have "\<not> prefix w (rev s)" if "w \<in> set (map rev whitespace_seqs)" for w
  proof
    assume p: "prefix w (rev s)"
    from that obtain v where v: "v \<in> set whitespace_seqs" "w = rev v" by auto
    then have "v \<noteq> []" by (metis whitespace_seqs_nonempty)
    with v p have "last v = last s"
      by (metis hd_append hd_rev prefixE rev_is_Nil_conv)
    with v assms(3) show False using whitespace_ends_not_graphic by metis
  qed
  then have "trim_end s = s" by (simp add: trim_end_def strip_all_fixed)
  with 1 show ?thesis by (simp add: trim_def)
qed

section \<open>Characters in a UTF-8 string\<close>

text \<open>\<^verbatim>\<open>char::len_utf8\<close> of the character a lead byte starts.\<close>

definition len_utf8 :: "char \<Rightarrow> nat" where
  "len_utf8 c = (if byte c < 0xC0 then 1 else if byte c < 0xE0 then 2 else if byte c < 0xF0 then 3 else 4)"

text \<open>
  The byte sequence of a \<^verbatim>\<open>str\<close>: every lead byte is followed by its continuation bytes, and there are
  no others.
\<close>

definition continuation :: "char \<Rightarrow> bool" where
  "continuation c \<longleftrightarrow> 0x80 \<le> byte c \<and> byte c < 0xC0"

definition utf8 :: "string \<Rightarrow> bool" where
  "utf8 s \<longleftrightarrow> list_all (\<lambda>i.
     if continuation (s ! i)
     then list_ex (\<lambda>j. \<not> continuation (s ! j) \<and> i < j + len_utf8 (s ! j)) [0..<i]
     else i + len_utf8 (s ! i) \<le> length s \<and>
       list_all (\<lambda>j. continuation (s ! j)) [Suc i..<i + len_utf8 (s ! i)]) [0..<length s]"

lemma utf8_lead:
  assumes "utf8 s" "i < length s" "\<not> continuation (s ! i)" "i < q" "q < i + len_utf8 (s ! i)"
  shows "continuation (s ! q)"
proof -
  have "i \<in> set [0..<length s]" using assms(2) by simp
  then have "list_all (\<lambda>j. continuation (s ! j)) [Suc i..<i + len_utf8 (s ! i)]"
    using assms(1,3) unfolding utf8_def list_all_iff [where xs = "[0..<length s]"] by meson
  then show ?thesis using assms(4,5) by (simp add: list_all_iff)
qed

lemma utf8_continuation:
  assumes "utf8 s" "i < length s" "continuation (s ! i)"
  obtains j where "j < i" "\<not> continuation (s ! j)" "i < j + len_utf8 (s ! j)"
proof -
  have "i \<in> set [0..<length s]" using assms(2) by simp
  then have "list_ex (\<lambda>j. \<not> continuation (s ! j) \<and> i < j + len_utf8 (s ! j)) [0..<i]"
    using assms(1,3) unfolding utf8_def list_all_iff [where xs = "[0..<length s]"] by meson
  then show ?thesis using that by (auto simp: list_ex_iff)
qed

lemma len_utf8_pos [simp]: "0 < len_utf8 c"
  by (simp add: len_utf8_def)

section \<open>Lists\<close>

lemma filter_map_fst_distinct: "distinct (map f xs) \<Longrightarrow> distinct (map f (filter P xs))"
  by (induction xs) auto

lemma distinct_map_eqD:
  "distinct (map f xs) \<Longrightarrow> x \<in> set xs \<Longrightarrow> y \<in> set xs \<Longrightarrow> f x = f y \<Longrightarrow> x = y"
  by (meson distinct_map inj_onD)

lemma map_of_map_key: "map_of (map (\<lambda>x. (f x, g x)) xs) k = map_option g (find (\<lambda>x. f x = k) xs)"
  by (induction xs) auto

lemma length_filter_disj_le:
  "length (filter (\<lambda>x. P x \<or> Q x) xs) \<le> length (filter P xs) + length (filter Q xs)"
  by (induction xs) auto

lemma sum_list_map_le: "(\<And>x. x \<in> set xs \<Longrightarrow> f x \<le> g x) \<Longrightarrow> sum_list (map f xs) \<le> sum_list (map g xs)"
  for f g :: "'a \<Rightarrow> nat"
  by (induction xs) (auto intro: add_mono)

lemma sum_list_map_less:
  fixes f g :: "'a \<Rightarrow> nat"
  assumes le: "\<And>x. x \<in> set xs \<Longrightarrow> f x \<le> g x" and less: "y \<in> set xs" "f y < g y"
  shows "sum_list (map f xs) < sum_list (map g xs)"
  using assms
proof (induction xs)
  case (Cons x xs)
  have x: "f x \<le> g x" and rest: "sum_list (map f xs) \<le> sum_list (map g xs)"
    using Cons.prems(1) by (auto intro: sum_list_map_le)
  show ?case
  proof (cases "y = x")
    case True
    with Cons.prems(3) rest show ?thesis by simp
  next
    case False
    with Cons have "sum_list (map f xs) < sum_list (map g xs)" by simp
    with x show ?thesis by simp
  qed
qed simp

lemma list_all2_setD1: "list_all2 P xs ys \<Longrightarrow> x \<in> set xs \<Longrightarrow> \<exists>y \<in> set ys. P x y"
  by (induction rule: list_all2_induct) auto

lemma list_all2_setD2: "list_all2 P xs ys \<Longrightarrow> y \<in> set ys \<Longrightarrow> \<exists>x \<in> set xs. P x y"
  by (induction rule: list_all2_induct) auto

end
