(* ===== verification/Json_Value.thy ===== *)
theory Json_Value
  imports Stroem_Prelude
begin

text \<open>
  The JSON values the server stores and renders (\<^verbatim>\<open>serde_json::Value\<close>, built without
  \<^verbatim>\<open>preserve_order\<close>, so an object is a map sorted by key) and the two traversals of them that
  the repository defines: \<^verbatim>\<open>json_type_name\<close> and \<^verbatim>\<open>collect_strings\<close>.
\<close>

datatype number = PosInt nat | NegInt int | Float "64 word"

datatype json =
    Null
  | Bool bool
  | Number number
  | String string
  | Array "json list"
  | Object "(string \<times> json) list"

text \<open>\<^verbatim>\<open>Map::insert\<close> and \<^verbatim>\<open>BTreeMap::insert\<close>: the entries stay sorted by key, an equal key is overwritten.\<close>

fun obj_insert :: "string \<Rightarrow> 'v \<Rightarrow> 'v hashmap \<Rightarrow> 'v hashmap" where
  "obj_insert k v [] = [(k, v)]"
| "obj_insert k v ((a, b) # m) =
     (if k < a then (k, v) # (a, b) # m
      else if k = a then (k, v) # m
      else (a, b) # obj_insert k v m)"

text \<open>\<^verbatim>\<open>iter.collect::<Map<_, _>>()\<close>: later entries overwrite earlier ones.\<close>

definition obj_collect :: "(string \<times> json) list \<Rightarrow> (string \<times> json) list" where
  "obj_collect es = foldl (\<lambda>m (k, v). obj_insert k v m) [] es"

abbreviation json_obj :: "(string \<times> json) list \<Rightarrow> json" where
  "json_obj es \<equiv> Object (obj_collect es)"

definition as_str :: "json \<Rightarrow> string option" where
  "as_str v = (case v of String s \<Rightarrow> Some s | _ \<Rightarrow> None)"

definition as_object :: "json \<Rightarrow> (string \<times> json) list option" where
  "as_object v = (case v of Object m \<Rightarrow> Some m | _ \<Rightarrow> None)"

definition json_type_name :: "json \<Rightarrow> string" where
  "json_type_name v =
     (case v of
        Null \<Rightarrow> ''null''
      | Bool _ \<Rightarrow> ''boolean''
      | Number _ \<Rightarrow> ''number''
      | String _ \<Rightarrow> ''string''
      | Array _ \<Rightarrow> ''array''
      | Object _ \<Rightarrow> ''object'')"

text \<open>\<^verbatim>\<open>collect_strings\<close>: every string value inside, depth first (object keys are not values).\<close>

fun collect_strings :: "json \<Rightarrow> string list" where
  "collect_strings (String s) = [s]"
| "collect_strings (Object m) = concat (map (\<lambda>e. collect_strings (snd e)) m)"
| "collect_strings (Array xs) = concat (map collect_strings xs)"
| "collect_strings _ = []"

section \<open>Lemmas\<close>

lemma map_of_obj_insert [simp]: "map_of (obj_insert k v m) = (map_of m)(k \<mapsto> v)"
  by (induction m) auto

lemma set_fst_obj_insert: "fst ` set (obj_insert k v m) = insert k (fst ` set m)"
  by (induction k v m rule: obj_insert.induct) (simp_all add: insert_commute)

lemma sorted_obj_insert:
  "sorted_wrt (<) (map fst m) \<Longrightarrow> sorted_wrt (<) (map fst (obj_insert k v m))"
proof (induction m)
  case (Cons e m)
  obtain a b where e: "e = (a, b)" by (cases e) auto
  have "a < k \<Longrightarrow> \<forall>x \<in> fst ` set m. a < x \<Longrightarrow> \<forall>x \<in> fst ` set (obj_insert k v m). a < x"
    by (simp add: set_fst_obj_insert)
  with Cons e show ?case by (auto simp: not_less le_less)
qed simp

lemma obj_insert_not_Nil [simp]: "obj_insert k v m \<noteq> []"
  by (induction k v m rule: obj_insert.induct) simp_all

end
