(* ===== verification/Depends_On.thy ===== *)
theory Depends_On
  imports Json_Value
begin

text \<open>
  The \<^verbatim>\<open>depends_on\<close> tree of a flow step (\<^verbatim>\<open>stroem-common/src/depends_on.rs\<close>): outcomes, accept
  sets, the four kinds of entries, their JSON form as \<^verbatim>\<open>serde\<close> reads and writes it, the names a
  tree mentions, and the structural validation.
\<close>

section \<open>Definitions\<close>

datatype outcome = OCompleted | OFailed | OCancelled | OSkipped | OOmitted

definition all_outcomes :: "outcome list" where
  "all_outcomes = [OCompleted, OFailed, OCancelled, OSkipped, OOmitted]"

fun outcome_str :: "outcome \<Rightarrow> string" where
  "outcome_str OCompleted = ''completed''"
| "outcome_str OFailed = ''failed''"
| "outcome_str OCancelled = ''cancelled''"
| "outcome_str OSkipped = ''skipped''"
| "outcome_str OOmitted = ''omitted''"

datatype accept_set = AnyKeyword | Outcomes "outcome list"

fun accept_contains :: "accept_set \<Rightarrow> outcome \<Rightarrow> bool" where
  "accept_contains AnyKeyword o' = True"
| "accept_contains (Outcomes v) o' = (o' \<in> set v)"

definition default_completed_only :: accept_set where
  "default_completed_only = Outcomes [OCompleted]"

datatype depends_on_entry =
    Name string
  | Step string accept_set
  | AllOf "depends_on_entry list"
  | AnyOf "depends_on_entry list"

fun leaf_name :: "depends_on_entry \<Rightarrow> string option" where
  "leaf_name (Name n) = Some n"
| "leaf_name (Step s _) = Some s"
| "leaf_name (AllOf _) = None"
| "leaf_name (AnyOf _) = None"

fun children :: "depends_on_entry \<Rightarrow> depends_on_entry list option" where
  "children (AllOf es) = Some es"
| "children (AnyOf es) = Some es"
| "children (Name _) = None"
| "children (Step _ _) = None"

lemma size_children: "children e = Some cs \<Longrightarrow> size_list size cs < size e"
  by (cases e) auto

text \<open>\<^verbatim>\<open>collect_names\<close> pushes onto an output vector; here the pushed names are returned.\<close>

function collect_names :: "depends_on_entry list \<Rightarrow> string list" where
  "collect_names [] = []"
| "collect_names (e # es) =
     (case leaf_name e of Some n \<Rightarrow> [n] | None \<Rightarrow> [])
     @ (case children e of Some cs \<Rightarrow> collect_names cs | None \<Rightarrow> [])
     @ collect_names es"
  by pat_completeness auto
termination
  by (relation "measure (size_list size)") (auto dest: size_children)

fun sibling_errors :: "string list \<Rightarrow> depends_on_entry list \<Rightarrow> string list" where
  "sibling_errors seen [] = []"
| "sibling_errors seen (c # cs) =
     (case leaf_name c of
        Some n \<Rightarrow>
          (if n \<in> set seen
           then (''duplicate dependency '' @ [CHR 0x27] @ n @ [CHR 0x27]
                 @ '' in the same depends_on group'') # sibling_errors seen cs
           else sibling_errors (n # seen) cs)
      | None \<Rightarrow> sibling_errors seen cs)"

definition check_siblings :: "depends_on_entry list \<Rightarrow> string list" where
  "check_siblings cs = sibling_errors [] cs"

fun outcome_errors :: "string \<Rightarrow> outcome list \<Rightarrow> outcome list \<Rightarrow> string list" where
  "outcome_errors step seen [] = []"
| "outcome_errors step seen (o' # os) =
     (if o' \<in> set seen
      then ([CHR 0x27] @ step @ [CHR 0x27] @ '' has a duplicate outcome '' @ [CHR 0x27]
            @ outcome_str o' @ [CHR 0x27] @ '' in its accept list'') # outcome_errors step seen os
      else outcome_errors step (o' # seen) os)"

fun check_nested :: "depends_on_entry \<Rightarrow> string list" where
  "check_nested (Step s a) =
     (case a of
        Outcomes v \<Rightarrow>
          (if v = [] then [[CHR 0x27] @ s @ [CHR 0x27] @ '' has an empty accept list''] else [])
          @ outcome_errors s [] v
      | AnyKeyword \<Rightarrow> [])"
| "check_nested (AllOf es) =
     (if es = [] then [''an '' @ [CHR 0x27] @ ''all'' @ [CHR 0x27] @ '' group must not be empty''] else [])
     @ check_siblings es @ concat (map check_nested es)"
| "check_nested (AnyOf es) =
     (if es = [] then [''an '' @ [CHR 0x27] @ ''any'' @ [CHR 0x27] @ '' group must not be empty''] else [])
     @ check_siblings es @ concat (map check_nested es)"
| "check_nested (Name _) = []"

definition validate_tree :: "depends_on_entry list \<Rightarrow> string list + unit" where
  "validate_tree entries =
     (let errors = check_siblings entries @ concat (map check_nested entries)
      in if errors = [] then Inr () else Inl errors)"

subsection \<open>The JSON form\<close>

text \<open>
  \<^verbatim>\<open>AcceptSet\<close> and \<^verbatim>\<open>DependsOnEntry\<close> are \<^verbatim>\<open>untagged\<close>: a reader tries the variants in order. The
  structs of the entries carry \<^verbatim>\<open>deny_unknown_fields\<close>, so an object is read as an entry only when
  its keys are exactly those of the struct; \<^verbatim>\<open>accept\<close> has a default.
\<close>

definition any_keyword_of_json :: "json \<Rightarrow> unit option" where
  "any_keyword_of_json v = (if v = String ''any'' then Some () else None)"

definition outcome_of_json :: "json \<Rightarrow> outcome option" where
  "outcome_of_json v =
     (case v of String s \<Rightarrow> find (\<lambda>o'. outcome_str o' = s) all_outcomes | _ \<Rightarrow> None)"

definition accept_of_json :: "json \<Rightarrow> accept_set option" where
  "accept_of_json v =
     (case any_keyword_of_json v of
        Some _ \<Rightarrow> Some AnyKeyword
      | None \<Rightarrow> (case v of
            Array xs \<Rightarrow> map_option Outcomes (those (map outcome_of_json xs))
          | _ \<Rightarrow> None))"

fun accept_to_json :: "accept_set \<Rightarrow> json" where
  "accept_to_json AnyKeyword = String ''any''"
| "accept_to_json (Outcomes v) = Array (map (\<lambda>o'. String (outcome_str o')) v)"

fun entry_of_json :: "json \<Rightarrow> depends_on_entry option" where
  "entry_of_json (String s) = Some (Name s)"
| "entry_of_json (Object [(k, v)]) =
     (if k = ''step'' then map_option (\<lambda>s. Step s default_completed_only) (as_str v)
      else case v of
        Array xs \<Rightarrow>
          (if k = ''all'' then map_option AllOf (those (map entry_of_json xs))
           else if k = ''any'' then map_option AnyOf (those (map entry_of_json xs))
           else None)
      | _ \<Rightarrow> None)"
| "entry_of_json (Object [(k1, v1), (k2, v2)]) =
     (if k1 = ''accept'' \<and> k2 = ''step''
      then (case (accept_of_json v1, as_str v2) of (Some a, Some s) \<Rightarrow> Some (Step s a) | _ \<Rightarrow> None)
      else None)"
| "entry_of_json _ = None"

fun entry_to_json :: "depends_on_entry \<Rightarrow> json" where
  "entry_to_json (Name n) = String n"
| "entry_to_json (Step s a) = Object [(''accept'', accept_to_json a), (''step'', String s)]"
| "entry_to_json (AllOf es) = Object [(''all'', Array (map entry_to_json es))]"
| "entry_to_json (AnyOf es) = Object [(''any'', Array (map entry_to_json es))]"

subsection \<open>Specification of a well-formed tree\<close>

definition leaf_names :: "depends_on_entry list \<Rightarrow> string list" where
  "leaf_names es = List.map_filter leaf_name es"

fun wf_entry :: "depends_on_entry \<Rightarrow> bool" where
  "wf_entry (Name _) = True"
| "wf_entry (Step s AnyKeyword) = True"
| "wf_entry (Step s (Outcomes v)) = (v \<noteq> [] \<and> distinct v)"
| "wf_entry (AllOf es) = (es \<noteq> [] \<and> distinct (leaf_names es) \<and> list_all wf_entry es)"
| "wf_entry (AnyOf es) = (es \<noteq> [] \<and> distinct (leaf_names es) \<and> list_all wf_entry es)"

definition wf_tree :: "depends_on_entry list \<Rightarrow> bool" where
  "wf_tree es \<longleftrightarrow> distinct (leaf_names es) \<and> list_all wf_entry es"

section \<open>Lemmas\<close>

lemma outcome_str_inj: "outcome_str a = outcome_str b \<Longrightarrow> a = b"
  by (cases a; cases b) simp_all

lemma collect_names_append: "collect_names (xs @ ys) = collect_names xs @ collect_names ys"
  by (induction xs) auto

lemma collect_names_children:
  "e \<in> set es \<Longrightarrow> children e = Some cs \<Longrightarrow> set (collect_names cs) \<subseteq> set (collect_names es)"
  by (induction es) auto

lemma collect_names_leaf: "e \<in> set es \<Longrightarrow> leaf_name e = Some n \<Longrightarrow> n \<in> set (collect_names es)"
  by (induction es) auto

text \<open>The names of a tree, entry by entry.\<close>

lemma set_collect_names: "set (collect_names es) = (\<Union>e \<in> set es. set (collect_names [e]))"
  by (induction es) auto

lemma collect_names_single [simp]:
  "collect_names [Name n] = [n]" "collect_names [Step n a] = [n]"
  "collect_names [AllOf es] = collect_names es" "collect_names [AnyOf es] = collect_names es"
  by simp_all

lemma leaf_names_Cons [simp]:
  "leaf_names (e # es) = (case leaf_name e of Some n \<Rightarrow> [n] | None \<Rightarrow> []) @ leaf_names es"
  by (simp add: leaf_names_def List.map_filter_def split: option.splits)

lemma leaf_names_Nil [simp]: "leaf_names [] = []"
  by (simp add: leaf_names_def List.map_filter_def)

lemma sibling_errors_Nil_iff:
  "sibling_errors seen cs = [] \<longleftrightarrow> distinct (leaf_names cs) \<and> set (leaf_names cs) \<inter> set seen = {}"
  by (induction seen cs rule: sibling_errors.induct) (auto split: option.splits)

lemma outcome_errors_Nil_iff:
  "outcome_errors step seen os = [] \<longleftrightarrow> distinct os \<and> set os \<inter> set seen = {}"
  by (induction step seen os rule: outcome_errors.induct) auto

lemma check_siblings_Nil_iff: "check_siblings cs = [] \<longleftrightarrow> distinct (leaf_names cs)"
  by (simp add: check_siblings_def sibling_errors_Nil_iff)

lemma check_nested_Nil_iff: "check_nested e = [] \<longleftrightarrow> wf_entry e"
proof (induction e)
  case (Step s a)
  then show ?case by (cases a) (auto simp: outcome_errors_Nil_iff)
qed (auto simp: check_siblings_Nil_iff list_all_iff)

lemma those_map_Some: "(\<And>x. x \<in> set xs \<Longrightarrow> f x = Some (g x)) \<Longrightarrow> those (map f xs) = Some (map g xs)"
  by (induction xs) auto

lemma accept_of_json_to_json [simp]: "accept_of_json (accept_to_json a) = Some a"
proof (cases a)
  case (Outcomes v)
  have "outcome_of_json (String (outcome_str o')) = Some o'" for o'
    by (cases o') (simp_all add: outcome_of_json_def all_outcomes_def)
  then have "those (map outcome_of_json (map (\<lambda>o'. String (outcome_str o')) v)) = Some v"
    using those_map_Some [of v "\<lambda>o'. outcome_of_json (String (outcome_str o'))" id] by (simp add: comp_def)
  with Outcomes show ?thesis by (simp add: accept_of_json_def any_keyword_of_json_def)
qed (simp add: accept_of_json_def any_keyword_of_json_def)

section \<open>Properties\<close>

text \<open>
  \<^verbatim>\<open>validate_tree\<close> accepts a tree exactly when it is well formed: no two sibling leaves of a
  group name the same step, no nested group is empty, and every explicit accept list is non-empty
  and free of duplicates, at every depth.
\<close>

theorem validate_tree_iff: "validate_tree es = Inr () \<longleftrightarrow> wf_tree es"
  by (auto simp: validate_tree_def wf_tree_def check_siblings_Nil_iff list_all_iff
      check_nested_Nil_iff Let_def)

text \<open>
  Writing a \<^verbatim>\<open>depends_on\<close> entry as JSON and reading it back gives the same entry, for trees of
  any depth; in particular no variant is mistaken for another by the untagged reader.
\<close>

theorem entry_json_roundtrip: "entry_of_json (entry_to_json e) = Some e"
proof (induction e)
  case (AllOf es)
  then have "those (map entry_of_json (map entry_to_json es)) = Some es"
    using those_map_Some [of es "entry_of_json \<circ> entry_to_json" id] by (simp add: comp_def)
  then show ?case by simp
next
  case (AnyOf es)
  then have "those (map entry_of_json (map entry_to_json es)) = Some es"
    using those_map_Some [of es "entry_of_json \<circ> entry_to_json" id] by (simp add: comp_def)
  then show ?case by simp
qed (simp_all add: as_str_def)

end
