(* ===== verification/Workflow_Model.thy ===== *)
theory Workflow_Model
  imports Depends_On
begin

text \<open>
  The part of \<^verbatim>\<open>stroem-common/src/models/workflow.rs\<close> that the execution engine reads: flow steps,
  actions, tasks, triggers, connections and the configuration of a workspace. A \<^verbatim>\<open>HumanDuration\<close> is
  its number of seconds. The fields that only the web UI, the runners or the YAML loader read
  (descriptions, scripts and containers, inline actions) are left out.
\<close>

datatype backoff_strategy = Fixed | Exponential

record retry_config =
  rc_max_attempts :: nat
  rc_delay :: nat
  rc_backoff :: backoff_strategy
  rc_jitter :: bool

definition default_max_attempts :: nat where
  "default_max_attempts = 3"

definition default_retry_delay :: nat where
  "default_retry_delay = 30"

record input_field_def =
  if_field_type :: string
  if_required :: bool
  if_secret :: bool
  if_default :: "json option"

type_synonym input_schema = "input_field_def hashmap"

record flow_step =
  fs_action :: string
  fs_name :: "string option"
  fs_description :: "string option"
  fs_depends_on :: "depends_on_entry list"
  fs_input :: "json hashmap"
  fs_continue_on_failure :: bool
  fs_legacy_continue_when_skipped :: "bool option"
  fs_timeout :: "nat option"
  fs_when :: "string option"
  fs_for_each :: "json option"
  fs_sequential :: bool
  fs_retry :: "retry_config option"
  fs_git_ref :: "string option"

type_synonym flow = "flow_step hashmap"

record hook_def =
  hd_action :: string
  hd_input :: "json hashmap"
  hd_git_ref :: "string option"

record task_def =
  td_name :: "string option"
  td_mode :: string
  td_folder :: "string option"
  td_input :: input_schema
  td_flow :: flow
  td_timeout :: "nat option"
  td_retry :: "retry_config option"
  td_on_success :: "hook_def list"
  td_on_error :: "hook_def list"
  td_on_suspended :: "hook_def list"
  td_on_cancel :: "hook_def list"

record action_def =
  ad_action_type :: string
  ad_task :: "string option"
  ad_git_ref :: "string option"
  ad_runner :: "string option"
  ad_tags :: "string list"
  ad_image :: "string option"
  ad_input :: input_schema
  ad_message :: "string option"
  ad_retry :: "retry_config option"

definition resolve_step_retry_config :: "flow_step \<Rightarrow> action_def \<Rightarrow> retry_config option" where
  "resolve_step_retry_config fs a = (case fs_retry fs of Some r \<Rightarrow> Some r | None \<Rightarrow> ad_retry a)"

record connection_property_def =
  cp_property_type :: string
  cp_required :: bool
  cp_default :: "json option"
  cp_secret :: bool

type_synonym connection_type_def = "connection_property_def hashmap"

record connection_def =
  cd_connection_type :: "string option"
  cd_shared :: bool
  cd_values :: "json hashmap"

definition values_with_type_defaults :: "connection_def \<Rightarrow> connection_type_def \<Rightarrow> json hashmap" where
  "values_with_type_defaults c properties =
     foldl (\<lambda>out (prop_name, prop_def).
       if contains_key out prop_name then out
       else case cp_default prop_def of Some v \<Rightarrow> (prop_name, v) # out | None \<Rightarrow> out) (cd_values c) properties"

datatype concurrency_policy = AllowRuns | SkipRun | CancelPrevious

record scheduler_def =
  sd_cron :: string
  sd_task :: string
  sd_input :: "json hashmap"
  sd_enabled :: bool
  sd_concurrency :: concurrency_policy
  sd_timezone :: "string option"
  sd_force_refresh :: bool
  sd_git_ref :: "string option"

record webhook_def =
  wd_name :: string
  wd_task :: string
  wd_secret :: "string option"
  wd_input :: "json hashmap"
  wd_enabled :: bool
  wd_mode :: "string option"
  wd_timeout_secs :: "nat option"
  wd_force_refresh :: bool
  wd_git_ref :: "string option"

datatype restart_policy = RestartAlways | RestartOnFailure | RestartNever

record event_source_def =
  ed_task :: string
  ed_target_task :: string
  ed_enabled :: bool
  ed_input :: "json hashmap"
  ed_env :: "string hashmap"
  ed_restart_policy :: restart_policy
  ed_backoff_secs :: nat
  ed_max_in_flight :: "nat option"
  ed_git_ref :: "string option"

datatype trigger_def = Scheduler scheduler_def | Webhook webhook_def | EventSource event_source_def

definition trigger_enabled :: "trigger_def \<Rightarrow> bool" where
  "trigger_enabled t =
     (case t of Scheduler s \<Rightarrow> sd_enabled s | Webhook w \<Rightarrow> wd_enabled w | EventSource e \<Rightarrow> ed_enabled e)"

definition trigger_type_str :: "trigger_def \<Rightarrow> string" where
  "trigger_type_str t =
     (case t of Scheduler _ \<Rightarrow> ''scheduler'' | Webhook _ \<Rightarrow> ''webhook'' | EventSource _ \<Rightarrow> ''event_source'')"

record workspace_config =
  wc_secrets :: "json hashmap"
  wc_connection_types :: "connection_type_def hashmap"
  wc_connections :: "connection_def hashmap"
  wc_actions :: "action_def hashmap"
  wc_tasks :: "task_def hashmap"
  wc_triggers :: "trigger_def hashmap"
  wc_on_success :: "hook_def list"
  wc_on_error :: "hook_def list"
  wc_on_suspended :: "hook_def list"
  wc_on_cancel :: "hook_def list"

text \<open>\<^verbatim>\<open>WorkspaceConfig::default\<close>.\<close>

definition empty_config :: workspace_config where
  "empty_config =
     \<lparr>wc_secrets = [], wc_connection_types = [], wc_connections = [], wc_actions = [], wc_tasks = [],
      wc_triggers = [], wc_on_success = [], wc_on_error = [], wc_on_suspended = [], wc_on_cancel = []\<rparr>"

lemma empty_config_simps [simp]:
  "wc_secrets empty_config = []" "wc_connection_types empty_config = []" "wc_connections empty_config = []"
  "wc_actions empty_config = []" "wc_tasks empty_config = []" "wc_triggers empty_config = []"
  "wc_on_success empty_config = []" "wc_on_error empty_config = []" "wc_on_suspended empty_config = []"
  "wc_on_cancel empty_config = []"
  by (simp_all add: empty_config_def)

text \<open>A step with the serde defaults of every optional field, for concrete examples.\<close>

definition plain_step :: "depends_on_entry list \<Rightarrow> flow_step" where
  "plain_step deps =
     \<lparr>fs_action = ''noop'', fs_name = None, fs_description = None, fs_depends_on = deps,
      fs_input = [], fs_continue_on_failure = False,
      fs_legacy_continue_when_skipped = None, fs_timeout = None, fs_when = None,
      fs_for_each = None, fs_sequential = False, fs_retry = None, fs_git_ref = None\<rparr>"

definition plain_task :: "flow \<Rightarrow> task_def" where
  "plain_task fl =
     \<lparr>td_name = None, td_mode = ''distributed'', td_folder = None, td_input = [], td_flow = fl,
      td_timeout = None, td_retry = None, td_on_success = [], td_on_error = [], td_on_suspended = [], td_on_cancel = []\<rparr>"

text \<open>The names a flow step depends on, duplicates kept, and the dependency relation of a flow.\<close>

definition dep_names :: "flow_step \<Rightarrow> string list" where
  "dep_names fs = collect_names (fs_depends_on fs)"

definition dep_rel :: "flow \<Rightarrow> (string \<times> string) set" where
  "dep_rel fl = {(d, s). \<exists>fs. map_of fl s = Some fs \<and> d \<in> set (dep_names fs)}"

definition closed_flow :: "flow \<Rightarrow> bool" where
  "closed_flow fl \<longleftrightarrow> list_all (\<lambda>e. list_all (\<lambda>d. contains_key fl d) (dep_names (snd e))) fl"

lemma dep_rel_finite: "finite (dep_rel fl)"
proof -
  have "dep_rel fl \<subseteq> (\<Union>e \<in> set fl. set (dep_names (snd e)) \<times> {fst e})"
  proof
    fix x assume "x \<in> dep_rel fl"
    then obtain d s fs where x: "x = (d, s)" "map_of fl s = Some fs" "d \<in> set (dep_names fs)"
      by (auto simp: dep_rel_def)
    then have "(s, fs) \<in> set fl" by (simp add: map_of_SomeD)
    with x show "x \<in> (\<Union>e \<in> set fl. set (dep_names (snd e)) \<times> {fst e})" by force
  qed
  then show ?thesis by (rule finite_subset) simp
qed

end
