(* ===== verification/Dag.thy ===== *)
theory Dag
  imports Workflow_Model
begin

text \<open>
  The flow graph (\<^verbatim>\<open>stroem-common/src/dag.rs\<close>): \<^verbatim>\<open>ready_steps\<close> and \<^verbatim>\<open>validate_dag\<close>, Kahn's topological
  sort over hash maps. The two hash maps of \<^verbatim>\<open>validate_dag\<close> are finite maps; the iteration order
  of \<^verbatim>\<open>in_degree\<close>, which decides in which order the sources are queued, is the argument \<open>order\<close>.
\<close>

section \<open>Definitions\<close>

definition ready_steps :: "flow \<Rightarrow> string list \<Rightarrow> string list" where
  "ready_steps fl completed =
     List.map_filter (\<lambda>(step_name, step).
       if step_name \<in> set completed then None
       else if list_all (\<lambda>d. d \<in> set completed) (dep_names step) then Some step_name
       else None) fl"

type_synonym graph = "(string \<Rightarrow> nat option) \<times> (string \<Rightarrow> string list option)"

definition init_graph :: "flow \<Rightarrow> graph" where
  "init_graph fl = (map_of (map (\<lambda>(k, _). (k, 0)) fl), map_of (map (\<lambda>(k, _). (k, [])) fl))"

text \<open>One edge from \<open>dep\<close> to \<open>step\<close>; the lookups are the \<^verbatim>\<open>expect\<close>s of the code (\<open>Inl\<close> a panic).\<close>

definition add_edge :: "string \<Rightarrow> string \<Rightarrow> graph \<Rightarrow> string + graph" where
  "add_edge dep step g =
     (case (snd g dep, fst g step) of
        (Some outs, Some d) \<Rightarrow> Inr ((fst g)(step \<mapsto> d + 1), (snd g)(dep \<mapsto> outs @ [step]))
      | _ \<Rightarrow> Inl ''dep key was inserted during initialization'')"

fun add_deps :: "flow \<Rightarrow> string \<Rightarrow> string list \<Rightarrow> graph \<Rightarrow> string + graph" where
  "add_deps fl step [] g = Inr g"
| "add_deps fl step (d # ds) g =
     (if \<not> contains_key fl d
      then Inl (''Step '' @ step @ '' depends on non-existent step '' @ d)
      else case add_edge d step g of Inl e \<Rightarrow> Inl e | Inr g' \<Rightarrow> add_deps fl step ds g')"

fun build_graph :: "flow \<Rightarrow> flow \<Rightarrow> graph \<Rightarrow> string + graph" where
  "build_graph fl [] g = Inr g"
| "build_graph fl ((step, fs) # rest) g =
     (case add_deps fl step (dep_names fs) g of
        Inl e \<Rightarrow> Inl e
      | Inr g' \<Rightarrow> build_graph fl rest g')"

text \<open>
  The inner loop over the dependents of a popped step. \<open>None\<close> is the panic of the code: a missing
  key or a subtraction below zero.
\<close>

fun release_dependents ::
  "string list \<Rightarrow> (string \<Rightarrow> nat option) \<Rightarrow> string list \<Rightarrow> ((string \<Rightarrow> nat option) \<times> string list) option"
where
  "release_dependents [] deg queue = Some (deg, queue)"
| "release_dependents (w # ws) deg queue =
     (case deg w of
        None \<Rightarrow> None
      | Some 0 \<Rightarrow> None
      | Some (Suc d) \<Rightarrow>
          release_dependents ws (deg(w \<mapsto> d)) (if d = 0 then queue @ [w] else queue))"

partial_function (option) kahn ::
  "(string \<Rightarrow> string list option) \<Rightarrow> (string \<Rightarrow> nat option) \<Rightarrow> string list \<Rightarrow> string list \<Rightarrow> string list option"
where
  "kahn adj deg queue result =
     (case queue of
        [] \<Rightarrow> Some result
      | u # q \<Rightarrow>
          (case adj u of
             None \<Rightarrow> kahn adj deg q (result @ [u])
           | Some ws \<Rightarrow>
               Option.bind (release_dependents ws deg q)
                 (\<lambda>dq. kahn adj (fst dq) (snd dq) (result @ [u]))))"

definition validate_dag :: "string list \<Rightarrow> flow \<Rightarrow> (string + string list) option" where
  "validate_dag order fl =
     (case build_graph fl fl (init_graph fl) of
        Inl e \<Rightarrow> Some (Inl e)
      | Inr (deg, adj) \<Rightarrow>
          map_option (\<lambda>result.
            if length result \<noteq> length fl then Inl ''Cycle detected in workflow DAG'' else Inr result)
            (kahn adj deg (filter (\<lambda>k. deg k = Some 0) order) []))"

section \<open>Specification\<close>

text \<open>Every step comes after all the steps it depends on.\<close>

definition topological :: "flow \<Rightarrow> string list \<Rightarrow> bool" where
  "topological fl xs \<longleftrightarrow>
     (\<forall>i < length xs. \<forall>d. (d, xs ! i) \<in> dep_rel fl \<longrightarrow> d \<in> set (take i xs))"

section \<open>The graph\<close>

abbreviation flow_deps :: "flow \<Rightarrow> string \<Rightarrow> string list" where
  "flow_deps fl s \<equiv> (case map_of fl s of Some fs \<Rightarrow> dep_names fs | None \<Rightarrow> [])"

text \<open>
  What a graph records for the edges already added: the degree of a step is the number of its
  dependency names and the list of a step counts, per dependent, how often it is named.
\<close>

definition graph_of :: "string list \<Rightarrow> (string \<Rightarrow> string list) \<Rightarrow> graph \<Rightarrow> bool" where
  "graph_of ks deps g \<longleftrightarrow>
     (\<forall>k \<in> set ks. fst g k = Some (length (deps k)) \<and>
        (\<exists>outs. snd g k = Some outs \<and> (\<forall>v \<in> set ks. count_list outs v = count_list (deps v) k) \<and>
           set outs \<subseteq> set ks))"

lemma graph_of_deg: "graph_of ks deps g \<Longrightarrow> k \<in> set ks \<Longrightarrow> fst g k = Some (length (deps k))"
  by (simp add: graph_of_def)

lemma graph_of_adj:
  assumes "graph_of ks deps g" and "k \<in> set ks"
  obtains outs where "snd g k = Some outs" and "\<And>v. v \<in> set ks \<Longrightarrow> count_list outs v = count_list (deps v) k"
    and "set outs \<subseteq> set ks"
  using assms by (auto simp: graph_of_def)

lemma add_edge_graph_of:
  assumes "graph_of ks deps g" and "dep \<in> set ks" and "step \<in> set ks"
  shows "\<exists>g'. add_edge dep step g = Inr g' \<and> graph_of ks (deps(step := deps step @ [dep])) g'"
proof -
  obtain outs where o: "snd g dep = Some outs"
      "\<And>v. v \<in> set ks \<Longrightarrow> count_list outs v = count_list (deps v) dep" "set outs \<subseteq> set ks"
    by (rule graph_of_adj [OF assms(1,2)]) (rule that)
  from assms have d: "fst g step = Some (length (deps step))" by (simp add: graph_of_deg)
  with o have "add_edge dep step g =
      Inr ((fst g)(step \<mapsto> length (deps step) + 1), (snd g)(dep \<mapsto> outs @ [step]))"
    by (simp add: add_edge_def)
  moreover have "graph_of ks (deps(step := deps step @ [dep]))
      ((fst g)(step \<mapsto> length (deps step) + 1), (snd g)(dep \<mapsto> outs @ [step]))"
    unfolding graph_of_def
  proof
    fix k assume k: "k \<in> set ks"
    obtain outs' where o': "snd g k = Some outs'"
        "\<And>v. v \<in> set ks \<Longrightarrow> count_list outs' v = count_list (deps v) k" "set outs' \<subseteq> set ks"
      by (rule graph_of_adj [OF assms(1) k]) (rule that)
    show "fst ((fst g)(step \<mapsto> length (deps step) + 1), (snd g)(dep \<mapsto> outs @ [step])) k =
          Some (length ((deps(step := deps step @ [dep])) k)) \<and>
        (\<exists>outs''. snd ((fst g)(step \<mapsto> length (deps step) + 1), (snd g)(dep \<mapsto> outs @ [step])) k = Some outs'' \<and>
          (\<forall>v \<in> set ks. count_list outs'' v = count_list ((deps(step := deps step @ [dep])) v) k) \<and>
          set outs'' \<subseteq> set ks)"
      using k assms o o' by (cases "k = dep") (auto simp: graph_of_deg)
  qed
  ultimately show ?thesis by blast
qed

lemma add_deps_graph_of:
  assumes "graph_of (keys fl) deps g" and "step \<in> set (keys fl)"
    and "list_all (\<lambda>d. contains_key fl d) ds"
  shows "\<exists>g'. add_deps fl step ds g = Inr g' \<and> graph_of (keys fl) (deps(step := deps step @ ds)) g'"
  using assms
proof (induction ds arbitrary: g deps)
  case (Cons d ds)
  then have "d \<in> set (keys fl)" by (simp add: map_of_eq_None_iff)
  with Cons.prems obtain g1 where g1: "add_edge d step g = Inr g1"
    "graph_of (keys fl) (deps(step := deps step @ [d])) g1"
    using add_edge_graph_of by blast
  have eq: "(deps(step := deps step @ [d]))(step := (deps(step := deps step @ [d])) step @ ds)
      = deps(step := deps step @ d # ds)" by (simp add: fun_eq_iff)
  have "list_all (\<lambda>d. contains_key fl d) ds" using Cons.prems(3) by simp
  from Cons.IH [OF g1(2) Cons.prems(2) this]
  have "\<exists>g'. add_deps fl step ds g1 = Inr g' \<and>
      graph_of (keys fl) (deps(step := deps step @ d # ds)) g'"
    by (simp only: eq)
  moreover have "add_deps fl step (d # ds) g = add_deps fl step ds g1"
    using g1(1) Cons.prems(3) by auto
  ultimately show ?case by (simp only:)
qed simp

lemma add_deps_missing:
  assumes "\<not> list_all (\<lambda>d. contains_key fl d) ds"
  shows "\<exists>e. add_deps fl step ds g = Inl e"
  using assms by (induction ds arbitrary: g) (auto split: sum.splits)

lemma build_graph_of:
  assumes "graph_of (keys fl) deps g" and "set rest \<subseteq> set fl"
    and "list_all (\<lambda>e. list_all (\<lambda>d. contains_key fl d) (dep_names (snd e))) rest"
    and "distinct (keys rest)" and "\<forall>k \<in> set (keys rest). deps k = []"
  shows "\<exists>g'. build_graph fl rest g = Inr g' \<and>
    graph_of (keys fl) (\<lambda>k. if k \<in> set (keys rest) then flow_deps rest k else deps k) g'"
  using assms
proof (induction rest arbitrary: g deps)
  case Nil
  then show ?case by simp
next
  case (Cons e rest)
  obtain s fs where e: "e = (s, fs)" by (cases e)
  with Cons.prems have "s \<in> set (keys fl)" by force
  with Cons.prems e obtain g1 where g1: "add_deps fl s (dep_names fs) g = Inr g1"
    "graph_of (keys fl) (deps(s := deps s @ dep_names fs)) g1"
    using add_deps_graph_of [of fl deps g s "dep_names fs"] by auto
  have "\<forall>k \<in> set (keys rest). (deps(s := deps s @ dep_names fs)) k = []"
    using Cons.prems e by auto
  with Cons.IH [OF g1(2)] Cons.prems e obtain g' where g': "build_graph fl rest g1 = Inr g'"
    "graph_of (keys fl) (\<lambda>k. if k \<in> set (keys rest) then flow_deps rest k
        else (deps(s := deps s @ dep_names fs)) k) g'"
    by auto
  moreover have "(\<lambda>k. if k \<in> set (keys rest) then flow_deps rest k
        else (deps(s := deps s @ dep_names fs)) k) =
      (\<lambda>k. if k \<in> set (keys (e # rest)) then flow_deps (e # rest) k else deps k)"
    using Cons.prems e by (auto simp: fun_eq_iff)
  ultimately show ?case using g1 e by auto
qed

lemma build_graph_missing:
  assumes "\<not> list_all (\<lambda>e. list_all (\<lambda>d. contains_key fl d) (dep_names (snd e))) rest"
  shows "\<exists>e. build_graph fl rest g = Inl e"
  using assms
proof (induction rest arbitrary: g)
  case (Cons e rest)
  obtain s fs where e: "e = (s, fs)" by (cases e)
  show ?case
  proof (cases "list_all (\<lambda>d. contains_key fl d) (dep_names fs)")
    case True
    with Cons.prems e have "\<not> list_all (\<lambda>e. list_all (\<lambda>d. contains_key fl d) (dep_names (snd e))) rest"
      by simp
    then show ?thesis using Cons.IH e by (auto split: sum.splits)
  next
    case False
    then obtain err where "add_deps fl s (dep_names fs) g = Inl err" using add_deps_missing by blast
    with e show ?thesis by simp
  qed
qed simp

lemma map_of_const: "k \<in> set (keys fl) \<Longrightarrow> map_of (map (\<lambda>(k, _). (k, c)) fl) k = Some c"
  by (induction fl) auto

lemma not_closed_flow_error: "\<not> closed_flow fl \<Longrightarrow> \<exists>e. build_graph fl fl g = Inl e"
  unfolding closed_flow_def by (rule build_graph_missing)

lemma init_graph_of: "graph_of (keys fl) (\<lambda>_. []) (init_graph fl)"
  by (simp add: graph_of_def init_graph_def map_of_const)

lemma build_graph_correct:
  assumes "distinct (keys fl)" and "closed_flow fl"
  shows "\<exists>g. build_graph fl fl (init_graph fl) = Inr g \<and> graph_of (keys fl) (flow_deps fl) g"
proof -
  from build_graph_of [OF init_graph_of, of fl fl] assms
  obtain g where g: "build_graph fl fl (init_graph fl) = Inr g"
    "graph_of (keys fl) (\<lambda>k. if k \<in> set (keys fl) then flow_deps fl k else []) g"
    by (auto simp: closed_flow_def)
  moreover have "(\<lambda>k. if k \<in> set (keys fl) then flow_deps fl k else []) = flow_deps fl"
    by (auto simp: fun_eq_iff map_of_eq_None_iff [THEN iffD2] split: option.splits)
  ultimately show ?thesis by auto
qed

section \<open>The sort\<close>

abbreviation open_deps :: "flow \<Rightarrow> string set \<Rightarrow> string \<Rightarrow> nat" where
  "open_deps fl P v \<equiv> length (filter (\<lambda>d. d \<notin> P) (flow_deps fl v))"

lemma open_deps_insert:
  "u \<notin> P \<Longrightarrow> open_deps fl P v = open_deps fl (insert u P) v + count_list (flow_deps fl v) u"
proof -
  assume "u \<notin> P"
  then have "length (filter (\<lambda>d. d \<notin> P) ds) = length (filter (\<lambda>d. d \<notin> insert u P) ds) + count_list ds u" for ds
    by (induction ds) auto
  then show ?thesis by simp
qed

text \<open>
  The state between two pops. \<open>P\<close> is the set of popped steps, \<open>xs\<close> the popped steps followed by the
  queue, \<open>c v\<close> the number of edges into \<open>v\<close> that the current inner loop has still to remove.
\<close>

definition kahn_inv ::
  "flow \<Rightarrow> string set \<Rightarrow> string list \<Rightarrow> (string \<Rightarrow> nat) \<Rightarrow> (string \<Rightarrow> nat option) \<Rightarrow> bool"
where
  "kahn_inv fl P xs c deg \<longleftrightarrow>
     distinct xs \<and> set xs \<subseteq> set (keys fl) \<and> P \<subseteq> set xs \<and> topological fl xs \<and>
     (\<forall>v \<in> set (keys fl). deg v = Some (open_deps fl P v + c v) \<and>
        (v \<in> set xs \<longleftrightarrow> open_deps fl P v + c v = 0))"

lemma topological_snoc:
  "topological fl xs \<Longrightarrow> (\<And>d. (d, v) \<in> dep_rel fl \<Longrightarrow> d \<in> set xs) \<Longrightarrow> topological fl (xs @ [v])"
  by (auto simp: topological_def nth_append less_Suc_eq)

lemma dep_rel_flow_deps: "(d, v) \<in> dep_rel fl \<longleftrightarrow> d \<in> set (flow_deps fl v)"
  by (cases "map_of fl v") (simp_all add: dep_rel_def)

lemma dep_rel_keys: "(d, v) \<in> dep_rel fl \<Longrightarrow> v \<in> set (keys fl)"
  by (force simp: dep_rel_def dest: map_of_SomeD)

lemma release_dependents_inv:
  assumes "kahn_inv fl P (R @ q) (\<lambda>v. count_list ws v) deg" and "set ws \<subseteq> set (keys fl)"
  shows "\<exists>deg' q'. release_dependents ws deg q = Some (deg', q') \<and>
    kahn_inv fl P (R @ q') (\<lambda>v. 0) deg'"
  using assms
proof (induction ws arbitrary: deg q)
  case Nil
  then show ?case by simp
next
  case (Cons w ws)
  let ?d = "open_deps fl P w + count_list ws w"
  have w: "w \<in> set (keys fl)" "deg w = Some (Suc ?d)" "w \<notin> set (R @ q)"
    using Cons.prems by (auto simp: kahn_inv_def)
  let ?q = "if ?d = 0 then q @ [w] else q"
  have top: "topological fl (R @ ?q)"
  proof (cases "?d = 0")
    case True
    then have "\<And>x. (x, w) \<in> dep_rel fl \<Longrightarrow> x \<in> P"
      by (auto simp: dep_rel_flow_deps filter_empty_conv)
    moreover have "P \<subseteq> set (R @ q)" using Cons.prems(1) by (simp add: kahn_inv_def)
    moreover have "topological fl (R @ q)" using Cons.prems(1) by (simp add: kahn_inv_def)
    ultimately show ?thesis using True topological_snoc [of fl "R @ q" w] by fastforce
  next
    case False
    then have "?q = q" by auto
    with Cons.prems(1) show ?thesis by (simp only: kahn_inv_def)
  qed
  have "kahn_inv fl P (R @ ?q) (\<lambda>v. count_list ws v) (deg(w \<mapsto> ?d))"
    using Cons.prems w top unfolding kahn_inv_def by (auto split: if_splits)
  moreover have "set ws \<subseteq> set (keys fl)" using Cons.prems(2) by simp
  ultimately have "\<exists>deg' q'. release_dependents ws (deg(w \<mapsto> ?d)) ?q = Some (deg', q') \<and>
      kahn_inv fl P (R @ q') (\<lambda>v. 0) deg'"
    by (rule Cons.IH)
  moreover have "release_dependents (w # ws) deg q = release_dependents ws (deg(w \<mapsto> ?d)) ?q"
    using w(2) by simp
  ultimately show ?case by (simp only:)
qed

lemma kahn_correct:
  assumes adj: "\<And>u. u \<in> set (keys fl) \<Longrightarrow> \<exists>ws. adj u = Some ws \<and> set ws \<subseteq> set (keys fl) \<and>
      (\<forall>v \<in> set (keys fl). count_list ws v = count_list (flow_deps fl v) u)"
    and inv: "kahn_inv fl (set R) (R @ q) (\<lambda>_. 0) deg"
  shows "\<exists>xs deg'. kahn adj deg q R = Some xs \<and> kahn_inv fl (set xs) xs (\<lambda>_. 0) deg'"
  using inv
proof (induction "length fl - length R" arbitrary: R q deg rule: less_induct)
  case less
  show ?case
  proof (cases q)
    case Nil
    with less.prems show ?thesis by (subst kahn.simps) auto
  next
    case (Cons u q')
    have u: "u \<in> set (keys fl)" "u \<notin> set R" "distinct (R @ [u])" "set (R @ [u]) \<subseteq> set (keys fl)"
      using less.prems Cons by (auto simp: kahn_inv_def)
    have "length (R @ [u]) \<le> length fl"
      using card_mono [OF _ u(4)] distinct_card [OF u(3)] card_length [of "keys fl"] by simp
    then have dec: "length fl - length (R @ [u]) < length fl - length R" by simp
    from adj [OF u(1)] obtain ws where ws: "adj u = Some ws" "set ws \<subseteq> set (keys fl)"
      "\<And>v. v \<in> set (keys fl) \<Longrightarrow> count_list ws v = count_list (flow_deps fl v) u" by auto
    have "kahn_inv fl (insert u (set R)) ((R @ [u]) @ q') (\<lambda>v. count_list ws v) deg"
      using less.prems Cons u ws(3) open_deps_insert [of u "set R" fl]
      by (auto simp: kahn_inv_def)
    from release_dependents_inv [OF this ws(2)] obtain deg' q'' where
      r: "release_dependents ws deg q' = Some (deg', q'')"
      "kahn_inv fl (set (R @ [u])) ((R @ [u]) @ q'') (\<lambda>_. 0) deg'" by auto
    from less.hyps [OF dec r(2)] show ?thesis
      using Cons ws(1) r(1) by (subst kahn.simps) simp
  qed
qed

lemma validate_dag_run:
  assumes d: "distinct (keys fl)" and o: "mset order = mset (keys fl)" and c: "closed_flow fl"
  shows "\<exists>xs deg. kahn_inv fl (set xs) xs (\<lambda>_. 0) deg \<and>
    validate_dag order fl =
      Some (if set xs = set (keys fl) then Inr xs else Inl ''Cycle detected in workflow DAG'')"
proof -
  obtain g where g: "build_graph fl fl (init_graph fl) = Inr g" "graph_of (keys fl) (flow_deps fl) g"
    using build_graph_correct [OF d c] by blast
  have order: "distinct order" "set order = set (keys fl)"
    using d o by (metis distinct_count_atmost_1 set_mset_mset, metis o set_mset_mset)
  let ?q = "filter (\<lambda>k. fst g k = Some 0) order"
  have "flow_deps fl v = []" if "v \<in> set ?q" for v
    using that order graph_of_deg [OF g(2), of v] by auto
  then have "topological fl ?q"
    unfolding topological_def dep_rel_flow_deps by (metis empty_iff list.set(1) nth_mem)
  then have "kahn_inv fl (set []) ([] @ ?q) (\<lambda>_. 0) (fst g)"
    using order graph_of_deg [OF g(2)] by (auto simp: kahn_inv_def)
  moreover have "\<exists>ws. snd g u = Some ws \<and> set ws \<subseteq> set (keys fl) \<and>
      (\<forall>v \<in> set (keys fl). count_list ws v = count_list (flow_deps fl v) u)" if "u \<in> set (keys fl)" for u
    using graph_of_adj [OF g(2) that] by metis
  ultimately obtain xs deg where k: "kahn (snd g) (fst g) ?q [] = Some xs"
    "kahn_inv fl (set xs) xs (\<lambda>_. 0) deg"
    using kahn_correct [of fl "snd g" "[]" ?q "fst g"] by auto
  then have xs: "distinct xs" "set xs \<subseteq> set (keys fl)" by (auto simp: kahn_inv_def)
  have "length xs = length fl \<longleftrightarrow> set xs = set (keys fl)"
    using xs d by (metis card_subset_eq distinct_card finite_set length_map)
  then have "validate_dag order fl =
      Some (if set xs = set (keys fl) then Inr xs else Inl ''Cycle detected in workflow DAG'')"
    using g(1) k(1) by (cases g) (simp add: validate_dag_def)
  with k(2) show ?thesis by blast
qed

lemma topological_acyclic:
  assumes top: "topological fl xs" and all: "set xs = set (keys fl)"
  shows "acyclic (dep_rel fl)"
proof -
  let ?pos = "\<lambda>v. length (takeWhile (\<lambda>x. x \<noteq> v) xs)"
  have "?pos d < ?pos v" if "(d, v) \<in> dep_rel fl" for d v
  proof -
    from that have v: "v \<in> set xs" using all dep_rel_keys by metis
    then have i: "?pos v < length xs" "xs ! ?pos v = v"
      by (induction xs) auto
    with top that have "d \<in> set (take (?pos v) xs)" unfolding topological_def by metis
    then obtain j where j: "j < ?pos v" "xs ! j = d" by (auto simp: in_set_conv_nth)
    have "?pos d \<le> j"
    proof (rule ccontr)
      assume "\<not> ?pos d \<le> j"
      then have "d \<in> set (takeWhile (\<lambda>x. x \<noteq> d) xs)"
        using j by (metis not_le nth_mem takeWhile_nth)
      then show False by (auto dest: set_takeWhileD)
    qed
    with j show ?thesis by simp
  qed
  then have "dep_rel fl \<subseteq> measure ?pos" by auto
  then show ?thesis by (rule acyclic_subset [OF wf_acyclic [OF wf_measure]])
qed

lemma kahn_inv_complete:
  assumes inv: "kahn_inv fl (set xs) xs (\<lambda>_. 0) deg" and c: "closed_flow fl"
    and ac: "acyclic (dep_rel fl)"
  shows "set xs = set (keys fl)"
proof (rule ccontr)
  assume "set xs \<noteq> set (keys fl)"
  then obtain v0 where "v0 \<in> set (keys fl) - set xs" using inv by (auto simp: kahn_inv_def)
  then obtain v where v: "v \<in> set (keys fl) - set xs"
    and min: "\<And>u. (u, v) \<in> dep_rel fl \<Longrightarrow> u \<notin> set (keys fl) - set xs"
    using finite_acyclic_wf [OF dep_rel_finite ac] by (metis wfE_min)
  have "d \<in> set (keys fl)" if "(d, v) \<in> dep_rel fl" for d
    using that c by (auto simp: dep_rel_def closed_flow_def list_all_iff map_of_eq_None_iff
        dest!: map_of_SomeD)
  with min have "open_deps fl (set xs) v = 0"
    by (auto simp: filter_empty_conv dep_rel_flow_deps)
  with inv v show False by (auto simp: kahn_inv_def)
qed

section \<open>Properties\<close>

text \<open>
  C33. \<^verbatim>\<open>validate_dag\<close> always returns (it neither panics nor loops) and it accepts a flow exactly when
  every dependency names a step of the flow and the dependencies have no cycle, whatever the
  iteration order of its hash maps.
\<close>

theorem validate_dag_accepts_iff:
  assumes "distinct (keys fl)" and "mset order = mset (keys fl)"
  shows "\<exists>r. validate_dag order fl = Some r \<and>
    ((\<exists>xs. r = Inr xs) \<longleftrightarrow> closed_flow fl \<and> acyclic (dep_rel fl))"
proof (cases "closed_flow fl")
  case True
  obtain xs deg where xs: "kahn_inv fl (set xs) xs (\<lambda>_. 0) deg"
    "validate_dag order fl =
      Some (if set xs = set (keys fl) then Inr xs else Inl ''Cycle detected in workflow DAG'')"
    using validate_dag_run [OF assms True] by blast
  have "set xs = set (keys fl) \<longleftrightarrow> acyclic (dep_rel fl)"
    using kahn_inv_complete [OF xs(1) True] topological_acyclic [of fl xs] xs(1)
    by (auto simp: kahn_inv_def)
  with xs(2) True show ?thesis by auto
next
  case False
  then obtain e where "build_graph fl fl (init_graph fl) = Inl e"
    using not_closed_flow_error by metis
  with False show ?thesis by (simp add: validate_dag_def)
qed

definition diamond_flow :: flow where
  "diamond_flow = [(''a'', plain_step []), (''b'', plain_step [Name ''a'']),
     (''c'', plain_step [Name ''a'']), (''d'', plain_step [Name ''b'', Name ''c''])]"

text \<open>The hypotheses hold for a diamond-shaped flow, iterated in an order of its own.\<close>

lemma validate_dag_accepts_iff_witness:
  "\<exists>r. validate_dag [''d'', ''b'', ''c'', ''a''] diamond_flow = Some r \<and>
    ((\<exists>xs. r = Inr xs) \<longleftrightarrow> closed_flow diamond_flow \<and> acyclic (dep_rel diamond_flow))"
  by (rule validate_dag_accepts_iff) (simp_all add: diamond_flow_def)

text \<open>
  The order \<^verbatim>\<open>validate_dag\<close> returns lists every step of the flow exactly once, each one after all
  the steps it depends on.
\<close>

theorem validate_dag_topological:
  assumes "distinct (keys fl)" and "mset order = mset (keys fl)"
    and "validate_dag order fl = Some (Inr xs)"
  shows "mset xs = mset (keys fl) \<and> topological fl xs"
proof -
  have c: "closed_flow fl"
  proof (rule ccontr)
    assume "\<not> closed_flow fl"
    then obtain e where "build_graph fl fl (init_graph fl) = Inl e" using not_closed_flow_error by metis
    with assms(3) show False by (simp add: validate_dag_def)
  qed
  obtain ys deg where inv: "kahn_inv fl (set ys) ys (\<lambda>_. 0) deg"
    and run: "validate_dag order fl =
      Some (if set ys = set (keys fl) then Inr ys else Inl ''Cycle detected in workflow DAG'')"
    using validate_dag_run [OF assms(1,2) c] by blast
  from run assms(3) have ys: "ys = xs" "set xs = set (keys fl)" by (auto split: if_splits)
  with inv have "distinct xs" "topological fl xs" by (auto simp: kahn_inv_def)
  with ys assms(1) show ?thesis using set_eq_iff_mset_eq_distinct [of xs "keys fl"] by simp
qed

lemma validate_dag_topological_witness:
  "mset [''a'', ''b'', ''c'', ''d''] = mset (keys diamond_flow) \<and>
   topological diamond_flow [''a'', ''b'', ''c'', ''d'']"
  by (rule validate_dag_topological [where order = "[''d'', ''b'', ''c'', ''a'']"])
    (simp_all add: diamond_flow_def validate_dag_def init_graph_def add_edge_def plain_step_def
      dep_names_def kahn.simps)

end
