(* ===== verification/Job_Status.thy ===== *)
theory Job_Status
  imports Stroem_Prelude
begin

text \<open>
  The status vocabulary of \<^verbatim>\<open>stroem-common/src/models/job.rs\<close>: job and step statuses, skip reasons,
  job sources and action types, each with its printed form (\<^verbatim>\<open>AsRef<str>\<close> / \<^verbatim>\<open>as_str\<close>) and its parser
  (\<^verbatim>\<open>FromStr\<close>). The rows of the database hold the printed forms, so every decision of the server
  goes through one of these pairs; the locale \<open>string_codec\<close> states what such a pair promises and
  each pair is an interpretation of it.
\<close>

section \<open>Definitions\<close>

datatype job_status = JPending | JRunning | JCompleted | JFailed | JCancelled | JSkipped

datatype step_status =
  Pending | Ready | Claimed | Running | Completed | Failed | Skipped | Cancelled | Suspended

datatype skip_reason = Condition | Empty | Cascade | Unreachable

datatype source_type =
  Api | User | Trigger | Webhook | Hook | STask | EventSource | SRetry

datatype action_type = Script | Docker | Pod | ATask | Agent | Approval

fun job_status_str :: "job_status \<Rightarrow> string" where
  "job_status_str JPending = ''pending''"
| "job_status_str JRunning = ''running''"
| "job_status_str JCompleted = ''completed''"
| "job_status_str JFailed = ''failed''"
| "job_status_str JCancelled = ''cancelled''"
| "job_status_str JSkipped = ''skipped''"

definition parse_job_status :: "string \<Rightarrow> string + job_status" where
  "parse_job_status s =
     (if s = ''pending'' then Inr JPending
      else if s = ''running'' then Inr JRunning
      else if s = ''completed'' then Inr JCompleted
      else if s = ''failed'' then Inr JFailed
      else if s = ''cancelled'' then Inr JCancelled
      else if s = ''skipped'' then Inr JSkipped
      else Inl (''Unknown job status: '' @ s))"

fun job_status_is_terminal :: "job_status \<Rightarrow> bool" where
  "job_status_is_terminal s = (s \<in> {JCompleted, JFailed, JCancelled, JSkipped})"

definition is_terminal_status :: "string \<Rightarrow> bool" where
  "is_terminal_status s =
     (case parse_job_status s of Inl _ \<Rightarrow> False | Inr st \<Rightarrow> job_status_is_terminal st)"

definition DEFERRED_ACTION_TYPE :: string where
  "DEFERRED_ACTION_TYPE = ''deferred''"

fun step_status_str :: "step_status \<Rightarrow> string" where
  "step_status_str Pending = ''pending''"
| "step_status_str Ready = ''ready''"
| "step_status_str Claimed = ''claimed''"
| "step_status_str Running = ''running''"
| "step_status_str Completed = ''completed''"
| "step_status_str Failed = ''failed''"
| "step_status_str Skipped = ''skipped''"
| "step_status_str Cancelled = ''cancelled''"
| "step_status_str Suspended = ''suspended''"

definition parse_step_status :: "string \<Rightarrow> string + step_status" where
  "parse_step_status s =
     (if s = ''pending'' then Inr Pending
      else if s = ''ready'' then Inr Ready
      else if s = ''claimed'' then Inr Claimed
      else if s = ''running'' then Inr Running
      else if s = ''completed'' then Inr Completed
      else if s = ''failed'' then Inr Failed
      else if s = ''skipped'' then Inr Skipped
      else if s = ''cancelled'' then Inr Cancelled
      else if s = ''suspended'' then Inr Suspended
      else Inl (''Unknown step status: '' @ s))"

fun skip_reason_str :: "skip_reason \<Rightarrow> string" where
  "skip_reason_str Condition = ''condition''"
| "skip_reason_str Empty = ''empty''"
| "skip_reason_str Cascade = ''cascade''"
| "skip_reason_str Unreachable = ''unreachable''"

definition parse_skip_reason :: "string \<Rightarrow> string + skip_reason" where
  "parse_skip_reason s =
     (if s = ''condition'' then Inr Condition
      else if s = ''empty'' then Inr Empty
      else if s = ''cascade'' then Inr Cascade
      else if s = ''unreachable'' then Inr Unreachable
      else Inl (''unknown skip reason '' @ [CHR 0x27] @ s @ [CHR 0x27]))"

fun source_type_str :: "source_type \<Rightarrow> string" where
  "source_type_str Api = ''api''"
| "source_type_str User = ''user''"
| "source_type_str Trigger = ''trigger''"
| "source_type_str Webhook = ''webhook''"
| "source_type_str Hook = ''hook''"
| "source_type_str STask = ''task''"
| "source_type_str EventSource = ''event_source''"
| "source_type_str SRetry = ''retry''"

definition parse_source_type :: "string \<Rightarrow> string + source_type" where
  "parse_source_type s =
     (if s = ''api'' then Inr Api
      else if s = ''user'' then Inr User
      else if s = ''trigger'' then Inr Trigger
      else if s = ''webhook'' then Inr Webhook
      else if s = ''hook'' then Inr Hook
      else if s = ''task'' then Inr STask
      else if s = ''event_source'' then Inr EventSource
      else if s = ''retry'' then Inr SRetry
      else Inl (''Unknown source type: '' @ s))"

fun action_type_str :: "action_type \<Rightarrow> string" where
  "action_type_str Script = ''script''"
| "action_type_str Docker = ''docker''"
| "action_type_str Pod = ''pod''"
| "action_type_str ATask = ''task''"
| "action_type_str Agent = ''agent''"
| "action_type_str Approval = ''approval''"

definition parse_action_type :: "string \<Rightarrow> string + action_type" where
  "parse_action_type s =
     (if s = ''script'' then Inr Script
      else if s = ''docker'' then Inr Docker
      else if s = ''pod'' then Inr Pod
      else if s = ''task'' then Inr ATask
      else if s = ''agent'' then Inr Agent
      else if s = ''approval'' then Inr Approval
      else Inl (''Unknown action type: '' @ s))"

text \<open>The four statuses no step leaves by itself, as the cascade and restart test them.\<close>

definition is_terminal :: "string \<Rightarrow> bool" where
  "is_terminal s \<longleftrightarrow> s \<in> {''completed'', ''failed'', ''skipped'', ''cancelled''}"

section \<open>The contract of a printed enumeration\<close>

locale string_codec =
  fixes print :: "'a \<Rightarrow> string" and parse :: "string \<Rightarrow> string + 'a"
  assumes parse_print: "parse (print x) = Inr x"
    and print_parse: "parse s = Inr x \<Longrightarrow> print x = s"
begin

lemma print_inj: "print x = print y \<longleftrightarrow> x = y"
  by (metis parse_print sum.inject(2))

lemma parse_iff: "parse s = Inr x \<longleftrightarrow> s = print x"
  by (metis parse_print print_parse)

lemma parse_fails_iff: "(\<exists>e. parse s = Inl e) \<longleftrightarrow> s \<notin> range print"
proof
  assume "\<exists>e. parse s = Inl e"
  then show "s \<notin> range print" by (auto simp: parse_print)
next
  assume "s \<notin> range print"
  then show "\<exists>e. parse s = Inl e"
    by (metis print_parse rangeI sum.exhaust)
qed

end

interpretation job_status_codec: string_codec job_status_str parse_job_status
proof
  show "parse_job_status (job_status_str x) = Inr x" for x
    by (cases x) (simp_all add: parse_job_status_def)
  show "parse_job_status s = Inr x \<Longrightarrow> job_status_str x = s" for s x
    by (auto simp: parse_job_status_def split: if_splits)
qed

interpretation step_status_codec: string_codec step_status_str parse_step_status
proof
  show "parse_step_status (step_status_str x) = Inr x" for x
    by (cases x) (simp_all add: parse_step_status_def)
  show "parse_step_status s = Inr x \<Longrightarrow> step_status_str x = s" for s x
    by (auto simp: parse_step_status_def split: if_splits)
qed

interpretation skip_reason_codec: string_codec skip_reason_str parse_skip_reason
proof
  show "parse_skip_reason (skip_reason_str x) = Inr x" for x
    by (cases x) (simp_all add: parse_skip_reason_def)
  show "parse_skip_reason s = Inr x \<Longrightarrow> skip_reason_str x = s" for s x
    by (auto simp: parse_skip_reason_def split: if_splits)
qed

interpretation source_type_codec: string_codec source_type_str parse_source_type
proof
  show "parse_source_type (source_type_str x) = Inr x" for x
    by (cases x) (simp_all add: parse_source_type_def)
  show "parse_source_type s = Inr x \<Longrightarrow> source_type_str x = s" for s x
    by (auto simp: parse_source_type_def split: if_splits)
qed

interpretation action_type_codec: string_codec action_type_str parse_action_type
proof
  show "parse_action_type (action_type_str x) = Inr x" for x
    by (cases x) (simp_all add: parse_action_type_def)
  show "parse_action_type s = Inr x \<Longrightarrow> action_type_str x = s" for s x
    by (auto simp: parse_action_type_def split: if_splits)
qed

section \<open>Lemmas\<close>

lemma is_terminal_simps [simp]:
  "is_terminal ''completed''" "is_terminal ''failed''" "is_terminal ''skipped''"
  "is_terminal ''cancelled''" "\<not> is_terminal ''pending''" "\<not> is_terminal ''ready''"
  "\<not> is_terminal ''claimed''" "\<not> is_terminal ''running''" "\<not> is_terminal ''suspended''"
  by (simp_all add: is_terminal_def)

text \<open>The string test of the cascade agrees with the parsed statuses.\<close>

lemma is_terminal_parse:
  "is_terminal s \<longleftrightarrow> (\<exists>st. parse_step_status s = Inr st \<and> st \<in> {Completed, Failed, Skipped, Cancelled})"
  by (auto simp: is_terminal_def parse_step_status_def)

end
