(* ===== verification/Gate.thy ===== *)
theory Gate
  imports Depends_On Job_Status
begin

text \<open>
  The dependency gate (\<^verbatim>\<open>stroem-common/src/gate.rs\<close>): how a dependency's row is classified, when a
  tree of entries is decided, and what it decides.
\<close>

section \<open>Definitions\<close>

datatype dep_outcome = DPending | DCompleted | DFailed | DCancelled | DSkipped | DOmitted

definition from_row :: "string \<Rightarrow> string option \<Rightarrow> dep_outcome" where
  "from_row status skip_reason =
     (case parse_step_status status of
        Inr Completed \<Rightarrow> DCompleted
      | Inr Failed \<Rightarrow> DFailed
      | Inr Cancelled \<Rightarrow> DCancelled
      | Inr Skipped \<Rightarrow>
          (case skip_reason of
             None \<Rightarrow> DOmitted
           | Some r \<Rightarrow>
               (case parse_skip_reason r of
                  Inr Condition \<Rightarrow> DSkipped
                | Inr Empty \<Rightarrow> DSkipped
                | Inr Cascade \<Rightarrow> DOmitted
                | Inr Unreachable \<Rightarrow> DOmitted
                | Inl _ \<Rightarrow> DOmitted))
      | _ \<Rightarrow> DPending)"

fun as_schema_outcome :: "dep_outcome \<Rightarrow> outcome option" where
  "as_schema_outcome DPending = None"
| "as_schema_outcome DCompleted = Some OCompleted"
| "as_schema_outcome DFailed = Some OFailed"
| "as_schema_outcome DCancelled = Some OCancelled"
| "as_schema_outcome DSkipped = Some OSkipped"
| "as_schema_outcome DOmitted = Some OOmitted"

datatype gate_decision = Open | Wait | Omitted

fun all_terminal :: "(string \<Rightarrow> dep_outcome) \<Rightarrow> depends_on_entry \<Rightarrow> bool" where
  "all_terminal outcome_of (Name n) = (outcome_of n \<noteq> DPending)"
| "all_terminal outcome_of (Step n a) = (outcome_of n \<noteq> DPending)"
| "all_terminal outcome_of (AllOf es) = list_all (all_terminal outcome_of) es"
| "all_terminal outcome_of (AnyOf es) = list_all (all_terminal outcome_of) es"

fun satisfied :: "(string \<Rightarrow> dep_outcome) \<Rightarrow> depends_on_entry \<Rightarrow> bool" where
  "satisfied outcome_of (Name n) = (outcome_of n = DCompleted)"
| "satisfied outcome_of (Step n a) =
     (case as_schema_outcome (outcome_of n) of Some o' \<Rightarrow> accept_contains a o' | None \<Rightarrow> False)"
| "satisfied outcome_of (AllOf es) = list_all (satisfied outcome_of) es"
| "satisfied outcome_of (AnyOf es) = list_ex (satisfied outcome_of) es"

definition gate :: "depends_on_entry list \<Rightarrow> (string \<Rightarrow> dep_outcome) \<Rightarrow> gate_decision" where
  "gate depends_on outcome_of =
     (if \<not> list_all (all_terminal outcome_of) depends_on then Wait
      else if list_all (satisfied outcome_of) depends_on then Open
      else Omitted)"

definition flow_step_name :: "string \<Rightarrow> string option \<Rightarrow> string" where
  "flow_step_name step_name loop_source =
     (case loop_source of
        Some src \<Rightarrow> src
      | None \<Rightarrow> (case str_find (CHR ''['') step_name of
            Some i \<Rightarrow> take i step_name
          | None \<Rightarrow> step_name))"

section \<open>Lemmas\<close>

lemma from_row_pending_iff: "from_row s r = DPending \<longleftrightarrow> \<not> is_terminal s"
proof (cases "parse_step_status s")
  case (Inl e)
  then show ?thesis by (auto simp: from_row_def is_terminal_parse)
next
  case (Inr st)
  then show ?thesis
    by (cases st) (auto simp: from_row_def is_terminal_parse split: option.splits sum.splits skip_reason.splits)
qed

lemma as_schema_outcome_None: "as_schema_outcome d = None \<longleftrightarrow> d = DPending"
  by (cases d) auto

text \<open>The readiness barrier looks at exactly the names the tree mentions.\<close>

lemma all_terminal_iff:
  "all_terminal f e \<longleftrightarrow> (\<forall>n \<in> set (collect_names [e]). f n \<noteq> DPending)"
proof (induction e)
  case (AllOf es)
  then show ?case by (simp add: set_collect_names [of es] list_all_iff del: collect_names.simps)
next
  case (AnyOf es)
  then show ?case by (simp add: set_collect_names [of es] list_all_iff del: collect_names.simps)
qed simp_all

lemma barrier_iff:
  "list_all (all_terminal f) es \<longleftrightarrow> (\<forall>n \<in> set (collect_names es). f n \<noteq> DPending)"
  by (simp add: set_collect_names [of es] list_all_iff all_terminal_iff)

lemma satisfied_cong:
  "(\<And>n. n \<in> set (collect_names [e]) \<Longrightarrow> f n = g n) \<Longrightarrow> satisfied f e = satisfied g e"
proof (induction e)
  case (AllOf es)
  have "satisfied f e = satisfied g e" if "e \<in> set es" for e
    using that AllOf.prems by (intro AllOf.IH) (auto simp: set_collect_names [of es] simp del: collect_names.simps)
  then show ?case by (auto simp: list_all_iff)
next
  case (AnyOf es)
  have "satisfied f e = satisfied g e" if "e \<in> set es" for e
    using that AnyOf.prems by (intro AnyOf.IH) (auto simp: set_collect_names [of es] simp del: collect_names.simps)
  then show ?case by (auto simp: list_ex_iff)
qed simp_all

lemma satisfied_list_cong:
  assumes "\<And>n. n \<in> set (collect_names es) \<Longrightarrow> f n = g n"
  shows "list_all (satisfied f) es = list_all (satisfied g) es"
proof -
  have "satisfied f e = satisfied g e" if "e \<in> set es" for e
    using that assms by (intro satisfied_cong) (auto simp: set_collect_names [of es])
  then show ?thesis by (auto simp: list_all_iff)
qed

lemma gate_Nil [gate_simps, simp]: "gate [] f = Open"
  by (simp add: gate_def)

text \<open>A decided gate stays decided: only dependencies that were still running could change it.\<close>

lemma gate_stable:
  assumes dec: "gate es f \<noteq> Wait" and same: "\<And>n. f n \<noteq> DPending \<Longrightarrow> g n = f n"
  shows "gate es g = gate es f"
proof -
  from dec have t: "\<And>n. n \<in> set (collect_names es) \<Longrightarrow> f n \<noteq> DPending"
    by (auto simp: gate_def barrier_iff split: if_splits)
  with same have eq: "\<And>n. n \<in> set (collect_names es) \<Longrightarrow> f n = g n" by simp
  then have "list_all (satisfied f) es = list_all (satisfied g) es"
    by (rule satisfied_list_cong)
  moreover have "list_all (all_terminal f) es = list_all (all_terminal g) es"
    using eq by (auto simp: barrier_iff)
  ultimately show ?thesis by (simp add: gate_def)
qed

section \<open>Properties\<close>

text \<open>
  The gate of a step waits exactly as long as some step named anywhere in its \<^verbatim>\<open>depends_on\<close>
  tree is not terminal. Once all are, it decides: it opens exactly when every top-level entry is
  satisfied, and otherwise the step is omitted. There is no short circuit in either direction.
\<close>

theorem gate_decision:
  "(gate es f = Wait \<longleftrightarrow> list_ex (\<lambda>n. f n = DPending) (collect_names es)) \<and>
   (gate es f = Open \<longleftrightarrow>
      list_all (\<lambda>n. f n \<noteq> DPending) (collect_names es) \<and> list_all (satisfied f) es) \<and>
   (gate es f = Omitted \<longleftrightarrow>
      list_all (\<lambda>n. f n \<noteq> DPending) (collect_names es) \<and> \<not> list_all (satisfied f) es)"
  by (auto simp: gate_def barrier_iff list_ex_iff list_all_iff [where xs = "collect_names es"])

end
