(* ===== verification/Db_Rows.thy ===== *)
theory Db_Rows
  imports Json_Value Job_Status
begin

text \<open>
  The rows of the tables \<^verbatim>\<open>job\<close> and \<^verbatim>\<open>job_step\<close> (\<^verbatim>\<open>stroem-db/src/repos/job.rs\<close>, \<^verbatim>\<open>job_step.rs\<close>) and the
  fragment of SQL the repositories use on them. A table is the list of its rows, an \<^verbatim>\<open>UPDATE\<close> maps
  over it and returns the number of rows it matched, a comparison with \<^verbatim>\<open>NULL\<close> does not match.
  \<^verbatim>\<open>NOW()\<close> is an argument. A 32-bit column is an \<^typ>\<open>int\<close>: no modelled write can leave its range,
  since the only arithmetic on them is an increment below a 32-bit bound.

  The locale \<open>live_write\<close> is the contract the engine relies on: a guarded write keeps every primary
  key, never touches a finished row and only moves a live row along an edge of the step's life
  cycle. Every guarded operation of the repositories is an interpretation of it.
\<close>

section \<open>Definitions\<close>

record job_row =
  j_job_id :: uuid
  j_workspace :: string
  j_task_name :: string
  j_mode :: string
  j_input :: "json option"
  j_output :: "json option"
  j_status :: string
  j_source_type :: string
  j_source_id :: "string option"
  j_worker_id :: "uuid option"
  j_revision :: "string option"
  j_created_at :: time
  j_started_at :: "time option"
  j_completed_at :: "time option"
  j_log_path :: "string option"
  j_parent_job_id :: "uuid option"
  j_parent_step_name :: "string option"
  j_timeout_secs :: "int option"
  j_retry_of_job_id :: "uuid option"
  j_retry_job_id :: "uuid option"
  j_retry_attempt :: int
  j_max_retries :: "int option"
  j_raw_input :: "json option"
  j_source_job_id :: "uuid option"
  j_restart_from_step :: "string option"
  j_restart_from_steps :: "string list option"
  j_git_ref :: "string option"
  j_task_folder :: "string option"

record job_step_row =
  js_job_id :: uuid
  js_step_name :: string
  js_action_name :: string
  js_action_type :: string
  js_action_image :: "string option"
  js_action_spec :: "json option"
  js_input :: "json option"
  js_output :: "json option"
  js_status :: string
  js_worker_id :: "uuid option"
  js_started_at :: "time option"
  js_completed_at :: "time option"
  js_error_message :: "string option"
  js_required_ability :: string
  js_required_tags :: json
  js_runner :: string
  js_timeout_secs :: "int option"
  js_when_condition :: "string option"
  js_for_each_expr :: "string option"
  js_loop_source :: "string option"
  js_loop_index :: "int option"
  js_loop_total :: "int option"
  js_loop_item :: "json option"
  js_agent_state :: "json option"
  js_suspended_at :: "time option"
  js_retry_attempt :: int
  js_max_retries :: "int option"
  js_retry_backoff_secs :: "int option"
  js_retry_strategy :: "string option"
  js_retry_jitter :: bool
  js_retry_history :: json
  js_retry_at :: "time option"
  js_action_workspace :: "string option"
  js_action_revision :: "string option"
  js_carried_over :: bool
  js_skip_reason :: "string option"
  js_action_ref :: "string option"
  js_task_workspace :: "string option"
  js_task_ref :: "string option"
  js_task_revision :: "string option"
  js_pin_releases :: int
  js_ref_template :: "string option"

record new_job_step =
  ns_job_id :: uuid
  ns_step_name :: string
  ns_action_name :: string
  ns_action_type :: string
  ns_action_image :: "string option"
  ns_action_spec :: "json option"
  ns_input :: "json option"
  ns_status :: string
  ns_required_ability :: string
  ns_required_tags :: "string list"
  ns_runner :: string
  ns_timeout_secs :: "int option"
  ns_when_condition :: "string option"
  ns_for_each_expr :: "string option"
  ns_loop_source :: "string option"
  ns_loop_index :: "int option"
  ns_loop_total :: "int option"
  ns_loop_item :: "json option"
  ns_max_retries :: "int option"
  ns_retry_backoff_secs :: "int option"
  ns_retry_strategy :: "string option"
  ns_retry_jitter :: bool
  ns_action_workspace :: "string option"
  ns_action_revision :: "string option"
  ns_action_ref :: "string option"
  ns_task_workspace :: "string option"
  ns_task_ref :: "string option"
  ns_task_revision :: "string option"
  ns_ref_template :: "string option"

record seed =
  sd_step_name :: string
  sd_status :: string
  sd_output :: "json option"
  sd_error_message :: "string option"
  sd_skip_reason :: "string option"

text \<open>The columns of \<^verbatim>\<open>job_step\<close> that no query selects into a \<^verbatim>\<open>JobStepRow\<close>.\<close>

record step_record = job_step_row +
  js_ready_at :: "time option"
  js_resolve_lease_owner :: "uuid option"
  js_resolve_lease_until :: "time option"

record db =
  jobs :: "job_row list"
  steps :: "step_record list"

abbreviation step_key :: "('a job_step_row_scheme) \<Rightarrow> uuid \<times> string" where
  "step_key r \<equiv> (js_job_id r, js_step_name r)"

abbreviation step_row :: "step_record \<Rightarrow> job_step_row" where
  "step_row r \<equiv> job_step_row.truncate r"

definition test_default_job :: "uuid \<Rightarrow> time \<Rightarrow> job_row" where
  "test_default_job new_id now =
     \<lparr>j_job_id = new_id, j_workspace = ''default'', j_task_name = ''test'',
      j_mode = ''distributed'', j_input = None, j_output = None, j_status = ''pending'',
      j_source_type = ''api'', j_source_id = None, j_worker_id = None, j_revision = None,
      j_created_at = now, j_started_at = None, j_completed_at = None, j_log_path = None,
      j_parent_job_id = None, j_parent_step_name = None, j_timeout_secs = None,
      j_retry_of_job_id = None, j_retry_job_id = None, j_retry_attempt = 0,
      j_max_retries = None, j_raw_input = None, j_source_job_id = None,
      j_restart_from_step = None, j_restart_from_steps = None, j_git_ref = None,
      j_task_folder = None\<rparr>"

definition test_default :: "uuid \<Rightarrow> string \<Rightarrow> job_step_row" where
  "test_default job_id step_name =
     \<lparr>js_job_id = job_id, js_step_name = step_name, js_action_name = ''noop'',
      js_action_type = ''script'', js_action_image = None, js_action_spec = None,
      js_input = None, js_output = None, js_status = ''pending'', js_worker_id = None,
      js_started_at = None, js_completed_at = None, js_error_message = None,
      js_required_ability = [], js_required_tags = Null, js_runner = [],
      js_timeout_secs = None, js_when_condition = None, js_for_each_expr = None,
      js_loop_source = None, js_loop_index = None, js_loop_total = None,
      js_loop_item = None, js_agent_state = None, js_suspended_at = None,
      js_retry_attempt = 0, js_max_retries = None, js_retry_backoff_secs = None,
      js_retry_strategy = None, js_retry_jitter = False, js_retry_history = Null,
      js_retry_at = None, js_action_workspace = None, js_action_revision = None,
      js_carried_over = False, js_skip_reason = None, js_action_ref = None,
      js_task_workspace = None, js_task_ref = None, js_task_revision = None,
      js_pin_releases = 0, js_ref_template = None\<rparr>"

section \<open>The SQL fragment\<close>

definition seconds :: "int \<Rightarrow> int" where
  "seconds n = n * 1000000"

definition sql_update :: "('r \<Rightarrow> bool) \<Rightarrow> ('r \<Rightarrow> 'r) \<Rightarrow> 'r list \<Rightarrow> 'r list \<times> nat" where
  "sql_update wh set_clause tbl =
     (map (\<lambda>r. if wh r then set_clause r else r) tbl, length (filter wh tbl))"

definition update_steps ::
  "(step_record \<Rightarrow> bool) \<Rightarrow> (step_record \<Rightarrow> step_record) \<Rightarrow> db \<Rightarrow> db \<times> nat" where
  "update_steps wh set_clause d =
     (let (tbl, n) = sql_update wh set_clause (steps d) in (d\<lparr>steps := tbl\<rparr>, n))"

definition update_jobs ::
  "(job_row \<Rightarrow> bool) \<Rightarrow> (job_row \<Rightarrow> job_row) \<Rightarrow> db \<Rightarrow> db \<times> nat" where
  "update_jobs wh set_clause d =
     (let (tbl, n) = sql_update wh set_clause (jobs d) in (d\<lparr>jobs := tbl\<rparr>, n))"

definition select_one :: "('r \<Rightarrow> bool) \<Rightarrow> 'r list \<Rightarrow> 'r option" where
  "select_one wh tbl = find wh tbl"

text \<open>
  \<^verbatim>\<open>col = $n\<close>, \<^verbatim>\<open>col IS NOT DISTINCT FROM $n\<close>, \<^verbatim>\<open>a || b\<close> and \<^verbatim>\<open>a <@ b\<close> on \<^verbatim>\<open>jsonb\<close>. Containment is needed
  on arrays of scalars only: tags and capabilities are stored from a \<^verbatim>\<open>Vec<String>\<close>.
\<close>

definition sql_eq :: "'a option \<Rightarrow> 'a \<Rightarrow> bool" where
  "sql_eq col v \<longleftrightarrow> col = Some v"

definition sql_lt :: "time option \<Rightarrow> time \<Rightarrow> bool" where
  "sql_lt col v = (case col of None \<Rightarrow> False | Some c \<Rightarrow> c < v)"

fun jsonb_concat :: "json \<Rightarrow> json list \<Rightarrow> json" where
  "jsonb_concat (Array xs) ys = Array (xs @ ys)"
| "jsonb_concat v ys = Array (v # ys)"

definition jsonb_contained :: "json \<Rightarrow> json \<Rightarrow> bool" where
  "jsonb_contained a b =
     (case (a, b) of
        (Array xs, Array ys) \<Rightarrow> list_all (\<lambda>x. x \<in> set ys) xs
      | _ \<Rightarrow> a = b)"

definition tags_json :: "string list \<Rightarrow> json" where
  "tags_json ts = Array (map String ts)"

section \<open>The life cycle of a step\<close>

text \<open>The status changes the guarded writes make. \<^verbatim>\<open>claimed\<close> is only ever left.\<close>

definition step_edge :: "string \<Rightarrow> string \<Rightarrow> bool" where
  "step_edge s t \<longleftrightarrow>
     (s = ''pending'' \<and> t \<in> {''ready'', ''running'', ''skipped'', ''failed'', ''cancelled''}) \<or>
     (s = ''ready'' \<and> t \<in> {''running'', ''suspended'', ''failed'', ''cancelled''}) \<or>
     (s = ''running'' \<and> t \<in> {''ready'', ''completed'', ''failed'', ''cancelled''}) \<or>
     (s = ''suspended'' \<and> t \<in> {''ready'', ''completed'', ''failed'', ''cancelled''}) \<or>
     (s = ''claimed'' \<and> t \<in> {''failed''})"

definition moves :: "step_record \<Rightarrow> step_record \<Rightarrow> bool" where
  "moves r r' \<longleftrightarrow> step_key r' = step_key r \<and>
     (is_terminal (js_status r) \<longrightarrow> r' = r) \<and>
     (js_status r' = js_status r \<or> step_edge (js_status r) (js_status r'))"

locale live_write =
  fixes run :: "db \<Rightarrow> db"
  assumes jobs_kept: "jobs (run d) = jobs d"
    and rows_move: "list_all2 moves (steps d) (steps (run d))"
begin

lemma keys_kept: "map step_key (steps (run d)) = map step_key (steps d)"
  using rows_move [of d]
  by (intro nth_equalityI) (auto simp: list_all2_conv_all_nth moves_def)

lemma count_kept: "length (steps (run d)) = length (steps d)"
  using rows_move [of d] by (simp add: list_all2_lengthD)

lemma row_succ:
  assumes "r \<in> set (steps d)"
  obtains r' where "r' \<in> set (steps (run d))" "moves r r'"
  using assms rows_move [of d] by (metis in_set_conv_nth list_all2_conv_all_nth)

lemma row_pred:
  assumes "r' \<in> set (steps (run d))"
  obtains r where "r \<in> set (steps d)" "moves r r'"
  using assms rows_move [of d] by (metis in_set_conv_nth list_all2_conv_all_nth)

lemma terminal_frozen:
  assumes "r \<in> set (steps d)" "is_terminal (js_status r)"
  shows "r \<in> set (steps (run d))"
  using assms by (metis row_succ moves_def)

end

section \<open>Lemmas\<close>

lemma sql_update_count [row_simps]: "snd (sql_update w f t) = length (filter w t)"
  by (simp add: sql_update_def)

lemma sql_update_rows [row_simps]: "fst (sql_update w f t) = map (\<lambda>r. if w r then f r else r) t"
  by (simp add: sql_update_def)

lemma update_steps_fst [row_simps]:
  "steps (fst (update_steps w f d)) = map (\<lambda>r. if w r then f r else r) (steps d)"
  by (simp add: update_steps_def sql_update_def)

lemma update_steps_jobs [row_simps]: "jobs (fst (update_steps w f d)) = jobs d"
  by (simp add: update_steps_def sql_update_def)

lemma update_steps_count [row_simps]:
  "snd (update_steps w f d) = length (filter w (steps d))"
  by (simp add: update_steps_def sql_update_def)

lemma update_jobs_fst [row_simps]:
  "jobs (fst (update_jobs w f d)) = map (\<lambda>r. if w r then f r else r) (jobs d)"
  by (simp add: update_jobs_def sql_update_def)

lemma update_jobs_steps [row_simps]: "steps (fst (update_jobs w f d)) = steps d"
  by (simp add: update_jobs_def sql_update_def)

lemma update_jobs_count [row_simps]:
  "snd (update_jobs w f d) = length (filter w (jobs d))"
  by (simp add: update_jobs_def sql_update_def)

lemma moves_refl [simp]: "moves r r"
  by (simp add: moves_def)

lemma list_all2_map_moves:
  "(\<And>r. r \<in> set rs \<Longrightarrow> moves r (f r)) \<Longrightarrow> list_all2 moves rs (map f rs)"
  by (simp add: list_all2_conv_all_nth)

text \<open>What an operation that is one \<^verbatim>\<open>UPDATE\<close> has to show to be a \<open>live_write\<close>.\<close>

lemma live_write_update:
  assumes "\<And>r. w r \<Longrightarrow> step_key (f r) = step_key r \<and> \<not> is_terminal (js_status r) \<and>
      (js_status (f r) = js_status r \<or> step_edge (js_status r) (js_status (f r)))"
  shows "live_write (\<lambda>d. fst (update_steps w f d))"
proof
  show "jobs (fst (update_steps w f d)) = jobs d" for d by (simp add: row_simps)
  show "list_all2 moves (steps d) (steps (fst (update_steps w f d)))" for d
    unfolding update_steps_fst using assms by (intro list_all2_map_moves) (auto simp: moves_def)
qed

lemma live_write_id: "live_write (\<lambda>d. d)"
  by unfold_locales (simp_all add: list_all2_refl)

lemma find_unique_key:
  assumes "distinct (map k t)" "r \<in> set t" "\<And>r'. w r' \<Longrightarrow> k r' = k r" "w r"
  shows "find w t = Some r"
proof -
  obtain r' where r': "find w t = Some r'"
    using assms(2,4) by (metis find_None_iff option.exhaust)
  then have "r' \<in> set t" "w r'" by (auto simp: find_Some_iff)
  with assms have "r' = r" by (metis distinct_map inj_onD)
  with r' show ?thesis by simp
qed

lemma find_SomeD: "find w t = Some r \<Longrightarrow> r \<in> set t \<and> w r"
  by (induction t) (auto split: if_splits)

lemma step_row_sel [simp]:
  "js_job_id (step_row r) = js_job_id r" "js_step_name (step_row r) = js_step_name r"
  "js_status (step_row r) = js_status r" "js_output (step_row r) = js_output r"
  "js_skip_reason (step_row r) = js_skip_reason r"
  "js_loop_source (step_row r) = js_loop_source r"
  "js_worker_id (step_row r) = js_worker_id r" "js_started_at (step_row r) = js_started_at r"
  "js_max_retries (step_row r) = js_max_retries r"
  "js_retry_attempt (step_row r) = js_retry_attempt r"
  by (simp_all add: job_step_row.truncate_def)

end
