(* ===== verification/Step_Store.thy ===== *)
theory Step_Store
  imports Db_Rows
begin

text \<open>
  The step half of the store (\<^verbatim>\<open>JobStepRepo\<close>, \<^verbatim>\<open>stroem-db/src/repos/job_step.rs\<close>): one definition per
  query or transaction. A transaction that locks its rows is one atomic step of the model. Where the
  code reads two clocks, \<open>now\<close> is the database's \<^verbatim>\<open>NOW()\<close> and \<open>utc_now\<close> the host's \<^verbatim>\<open>Utc::now()\<close>.
  Intervals are given in microseconds. Failures of the connection itself are outside the model; an
  \<^verbatim>\<open>Err\<close> that depends on the data (a constraint of the schema, a row count) is a value \<^term>\<open>Inl e\<close>.
\<close>

section \<open>Creation and the cascade's primitives\<close>

text \<open>The \<^verbatim>\<open>CHECK\<close> constraints of the table, as the migrations leave them.\<close>

definition step_check :: "string \<Rightarrow> string \<Rightarrow> string \<Rightarrow> int option \<Rightarrow> bool" where
  "step_check status action_type runner timeout \<longleftrightarrow>
     status \<in> {''pending'', ''ready'', ''claimed'', ''running'', ''completed'', ''failed'',
               ''skipped'', ''cancelled'', ''suspended''} \<and>
     action_type \<in> {''script'', ''shell'', ''docker'', ''pod'', ''task'', ''agent'', ''approval'',
               ''event_source'', ''deferred''} \<and>
     runner \<in> {''local'', ''docker'', ''pod'', ''none''} \<and>
     (case timeout of None \<Rightarrow> True | Some t \<Rightarrow> 0 < t)"

definition step_insert_row :: "time \<Rightarrow> new_job_step \<Rightarrow> step_record" where
  "step_insert_row utc_now s =
     \<lparr>js_job_id = ns_job_id s, js_step_name = ns_step_name s, js_action_name = ns_action_name s,
      js_action_type = ns_action_type s, js_action_image = ns_action_image s,
      js_action_spec = ns_action_spec s, js_input = ns_input s, js_output = None,
      js_status = ns_status s, js_worker_id = None, js_started_at = None,
      js_completed_at = None, js_error_message = None,
      js_required_ability = ns_required_ability s,
      js_required_tags = tags_json (ns_required_tags s), js_runner = ns_runner s,
      js_timeout_secs = ns_timeout_secs s, js_when_condition = ns_when_condition s,
      js_for_each_expr = ns_for_each_expr s, js_loop_source = ns_loop_source s,
      js_loop_index = ns_loop_index s, js_loop_total = ns_loop_total s,
      js_loop_item = ns_loop_item s, js_agent_state = None, js_suspended_at = None,
      js_retry_attempt = 0, js_max_retries = ns_max_retries s,
      js_retry_backoff_secs = ns_retry_backoff_secs s, js_retry_strategy = ns_retry_strategy s,
      js_retry_jitter = ns_retry_jitter s, js_retry_history = Array [], js_retry_at = None,
      js_action_workspace = ns_action_workspace s, js_action_revision = ns_action_revision s,
      js_carried_over = False, js_skip_reason = None, js_action_ref = ns_action_ref s,
      js_task_workspace = ns_task_workspace s, js_task_ref = ns_task_ref s,
      js_task_revision = ns_task_revision s, js_pin_releases = 0,
      js_ref_template = ns_ref_template s,
      js_ready_at = (if ns_status s = ''ready'' then Some utc_now else None),
      js_resolve_lease_owner = None, js_resolve_lease_until = None\<rparr>"

text \<open>
  The batch insert binds \<open>cols_per_row\<close> parameters per row; \<open>max_params\<close> is the largest number of
  parameters the wire protocol carries in one statement (65535 for PostgreSQL).
\<close>

definition cols_per_row :: nat where
  "cols_per_row = 30"

definition create_steps_tx :: "nat \<Rightarrow> time \<Rightarrow> new_job_step list \<Rightarrow> db \<Rightarrow> string + db" where
  "create_steps_tx max_params utc_now new_steps d =
     (if new_steps = [] then Inr d
      else let rows = map (step_insert_row utc_now) new_steps in
        if cols_per_row * length new_steps \<le> max_params \<and>
           distinct (map step_key (steps d @ rows)) \<and>
           list_all (\<lambda>r. step_check (js_status r) (js_action_type r) (js_runner r) (js_timeout_secs r)) rows \<and>
           list_all (\<lambda>r. list_ex (\<lambda>j. j_job_id j = js_job_id r) (jobs d)) rows
        then Inr (d\<lparr>steps := steps d @ rows\<rparr>)
        else Inl ''Failed to create job steps'')"

abbreviation at_step :: "uuid \<Rightarrow> string \<Rightarrow> step_record \<Rightarrow> bool" where
  "at_step job_id step_name r \<equiv> js_job_id r = job_id \<and> js_step_name r = step_name"

definition promote_steps_tx :: "time \<Rightarrow> uuid \<Rightarrow> string list \<Rightarrow> db \<Rightarrow> db \<times> nat" where
  "promote_steps_tx now job_id names d =
     update_steps
       (\<lambda>r. js_job_id r = job_id \<and> js_step_name r \<in> set names \<and> js_status r = ''pending'')
       (\<lambda>r. r\<lparr>js_status := ''ready'', js_ready_at := Some now\<rparr>) d"

definition skip_steps_tx :: "time \<Rightarrow> uuid \<Rightarrow> string list \<Rightarrow> string \<Rightarrow> db \<Rightarrow> db \<times> nat" where
  "skip_steps_tx now job_id names reason d =
     update_steps
       (\<lambda>r. js_job_id r = job_id \<and> js_step_name r \<in> set names \<and> js_status r = ''pending'')
       (\<lambda>r. r\<lparr>js_status := ''skipped'', js_skip_reason := Some reason, js_completed_at := Some now\<rparr>) d"

definition fail_pending_step_tx :: "time \<Rightarrow> uuid \<Rightarrow> string \<Rightarrow> string \<Rightarrow> db \<Rightarrow> db \<times> nat" where
  "fail_pending_step_tx now job_id name err d =
     update_steps (\<lambda>r. at_step job_id name r \<and> js_status r = ''pending'')
       (\<lambda>r. r\<lparr>js_status := ''failed'', js_error_message := Some err, js_completed_at := Some now\<rparr>) d"

definition start_placeholder_tx :: "time \<Rightarrow> uuid \<Rightarrow> string \<Rightarrow> db \<Rightarrow> db \<times> nat" where
  "start_placeholder_tx now job_id name d =
     update_steps (\<lambda>r. at_step job_id name r \<and> js_status r = ''pending'')
       (\<lambda>r. r\<lparr>js_status := ''running'', js_started_at := Some now\<rparr>) d"

definition complete_placeholder_tx :: "time \<Rightarrow> uuid \<Rightarrow> string \<Rightarrow> json \<Rightarrow> db \<Rightarrow> db \<times> nat" where
  "complete_placeholder_tx now job_id name out d =
     update_steps (\<lambda>r. at_step job_id name r \<and> js_status r = ''running'')
       (\<lambda>r. r\<lparr>js_status := ''completed'', js_output := Some out, js_completed_at := Some now\<rparr>) d"

definition fail_placeholder_tx :: "time \<Rightarrow> uuid \<Rightarrow> string \<Rightarrow> string \<Rightarrow> json \<Rightarrow> db \<Rightarrow> db \<times> nat" where
  "fail_placeholder_tx now job_id name err out d =
     update_steps (\<lambda>r. at_step job_id name r \<and> js_status r = ''running'')
       (\<lambda>r. r\<lparr>js_status := ''failed'', js_error_message := Some err, js_output := Some out,
              js_completed_at := Some now\<rparr>) d"

definition seed_write :: "time \<Rightarrow> seed \<Rightarrow> step_record \<Rightarrow> step_record" where
  "seed_write now s r =
     r\<lparr>js_status := sd_status s, js_output := sd_output s, js_error_message := sd_error_message s,
       js_skip_reason := sd_skip_reason s, js_completed_at := Some now, js_carried_over := True,
       js_ready_at := None, js_retry_at := None, js_started_at := None, js_worker_id := None,
       js_agent_state := None, js_suspended_at := None\<rparr>"

fun seed_steps_tx :: "time \<Rightarrow> uuid \<Rightarrow> seed list \<Rightarrow> db \<Rightarrow> string + db" where
  "seed_steps_tx now job_id [] d = Inr d"
| "seed_steps_tx now job_id (s # seeds) d =
     (let (d', n) = update_steps (at_step job_id (sd_step_name s)) (seed_write now s) d in
      if n > 0 \<and> \<not> step_check (sd_status s) ''script'' ''none'' None
      then Inl (''seed step '' @ [CHR 0x27] @ sd_step_name s @ [CHR 0x27])
      else if n \<noteq> 1
      then Inl (''seed step '' @ [CHR 0x27] @ sd_step_name s @ [CHR 0x27] @ '' matched '' @ show_nat n @
                '' rows (expected 1)'')
      else seed_steps_tx now job_id seeds d')"

section \<open>Claims\<close>

text \<open>
  \<^verbatim>\<open>claim_ready_step\<close>. \<open>locked\<close> are the rows other transactions hold (\<^verbatim>\<open>SKIP LOCKED\<close>) and \<open>rnd\<close> stands
  for \<^verbatim>\<open>ORDER BY random() LIMIT 1\<close>: it picks any candidate.
\<close>

definition server_dispatched :: "string list" where
  "server_dispatched = [''task'', ''approval'', ''event_source'']"

definition worker_matches :: "string list \<Rightarrow> string list \<Rightarrow> bool \<Rightarrow> step_record \<Rightarrow> bool" where
  "worker_matches capabilities tags exclusive r \<longleftrightarrow>
     js_required_ability r \<in> set capabilities \<and>
     jsonb_contained (js_required_tags r) (tags_json tags) \<and>
     (\<not> exclusive \<or> jsonb_contained (tags_json tags) (js_required_tags r))"

definition claimable :: "time \<Rightarrow> string list \<Rightarrow> string list \<Rightarrow> bool \<Rightarrow> step_record \<Rightarrow> bool" where
  "claimable now capabilities tags exclusive r \<longleftrightarrow>
     js_status r = ''ready'' \<and> worker_matches capabilities tags exclusive r \<and>
     js_action_type r \<notin> set server_dispatched \<and>
     (case js_retry_at r of None \<Rightarrow> True | Some t \<Rightarrow> t \<le> now)"

definition claim_write :: "time \<Rightarrow> uuid \<Rightarrow> step_record \<Rightarrow> step_record" where
  "claim_write now worker_id r =
     r\<lparr>js_status := ''running'', js_worker_id := Some worker_id, js_started_at := Some now\<rparr>"

definition claim_ready_step ::
  "time \<Rightarrow> nat \<Rightarrow> (uuid \<times> string) list \<Rightarrow> string list \<Rightarrow> string list \<Rightarrow> bool \<Rightarrow> uuid \<Rightarrow> db
    \<Rightarrow> db \<times> job_step_row option" where
  "claim_ready_step now rnd locked capabilities tags exclusive worker_id d =
     (let cands = filter (\<lambda>r. claimable now capabilities tags exclusive r \<and> step_key r \<notin> set locked)
            (steps d)
      in if cands = [] then (d, None)
         else let c = cands ! (rnd mod length cands) in
           (fst (update_steps (\<lambda>r. step_key r = step_key c) (claim_write now worker_id) d),
            Some (step_row (claim_write now worker_id c))))"

definition mark_running :: "time \<Rightarrow> uuid \<Rightarrow> string \<Rightarrow> uuid \<Rightarrow> db \<Rightarrow> db" where
  "mark_running now job_id step_name worker_id d =
     fst (update_steps (at_step job_id step_name) (claim_write now worker_id) d)"

definition mark_running_server :: "time \<Rightarrow> uuid \<Rightarrow> string \<Rightarrow> db \<Rightarrow> db" where
  "mark_running_server now job_id step_name d =
     fst (update_steps (\<lambda>r. at_step job_id step_name r \<and> js_status r \<in> {''pending'', ''ready''})
       (\<lambda>r. r\<lparr>js_status := ''running'', js_started_at := Some now\<rparr>) d)"

text \<open>The task stamp of a step, against the pin the dispatcher resolved (\<^verbatim>\<open>IS NOT DISTINCT FROM\<close>).\<close>

definition has_task_pin :: "(string \<times> string \<times> string) option \<Rightarrow> step_record \<Rightarrow> bool" where
  "has_task_pin task_pin r \<longleftrightarrow>
     (js_task_workspace r, js_task_ref r, js_task_revision r) =
     (case task_pin of Some (w, g, c) \<Rightarrow> (Some w, Some g, Some c) | None \<Rightarrow> (None, None, None))"

definition claim_task_dispatch ::
  "time \<Rightarrow> uuid \<Rightarrow> string \<Rightarrow> (string \<times> string \<times> string) option \<Rightarrow> db \<Rightarrow> db \<times> bool" where
  "claim_task_dispatch now job_id step_name task_pin d =
     (let (d', n) = update_steps
            (\<lambda>r. at_step job_id step_name r \<and> js_status r = ''ready'' \<and> has_task_pin task_pin r)
            (\<lambda>r. r\<lparr>js_status := ''running'', js_started_at := Some now\<rparr>) d
      in (d', n = 1))"

definition cancel_server_managed_steps :: "time \<Rightarrow> uuid \<Rightarrow> db \<Rightarrow> db \<times> nat" where
  "cancel_server_managed_steps now job_id d =
     update_steps (\<lambda>r. js_job_id r = job_id \<and> js_status r = ''running'' \<and> js_worker_id r = None)
       (\<lambda>r. r\<lparr>js_status := ''cancelled'', js_error_message := Some ''Job cancelled'',
              js_completed_at := Some now\<rparr>) d"

definition mark_completed :: "time \<Rightarrow> uuid \<Rightarrow> string \<Rightarrow> json option \<Rightarrow> db \<Rightarrow> db" where
  "mark_completed now job_id step_name out d =
     fst (update_steps (at_step job_id step_name)
       (\<lambda>r. r\<lparr>js_status := ''completed'', js_output := out, js_completed_at := Some now\<rparr>) d)"

definition mark_failed :: "time \<Rightarrow> uuid \<Rightarrow> string \<Rightarrow> string \<Rightarrow> db \<Rightarrow> db" where
  "mark_failed now job_id step_name err d =
     fst (update_steps (at_step job_id step_name)
       (\<lambda>r. r\<lparr>js_status := ''failed'', js_error_message := Some err, js_completed_at := Some now\<rparr>) d)"

definition fail_task_dispatch ::
  "time \<Rightarrow> uuid \<Rightarrow> string \<Rightarrow> string \<Rightarrow> step_status \<Rightarrow> (string \<times> string \<times> string) option \<Rightarrow> db
    \<Rightarrow> db \<times> bool" where
  "fail_task_dispatch now job_id step_name err expected task_pin d =
     (let (d', n) = update_steps
            (\<lambda>r. at_step job_id step_name r \<and> js_status r = step_status_str expected \<and>
                 has_task_pin task_pin r)
            (\<lambda>r. r\<lparr>js_status := ''failed'', js_error_message := Some err, js_completed_at := Some now\<rparr>) d
      in (d', n = 1))"

section \<open>Failure, retry and release\<close>

record claim_identity =
  ci_worker_id :: uuid
  ci_started_at :: time

datatype fail_outcome =
  FNotApplied
| FFailed int "int option"
| FRetryScheduled int int nat

datatype deferred_write = Applied | JobTerminal | NotApplied

datatype release_outcome = RReleased | RCancelled | RCapReached | RNotApplied

text \<open>\<open>ts_json\<close> is the database's rendering of a timestamp inside \<^verbatim>\<open>jsonb_build_object\<close>.\<close>

definition history_entry :: "(time \<Rightarrow> json) \<Rightarrow> time \<Rightarrow> string \<Rightarrow> step_record \<Rightarrow> json" where
  "history_entry ts_json now err r =
     json_obj [(''attempt'', Number (if js_retry_attempt r < 0 then NegInt (js_retry_attempt r)
                                     else PosInt (nat (js_retry_attempt r)))),
               (''error'', String err),
               (''started_at'', case js_started_at r of None \<Rightarrow> Null | Some t \<Rightarrow> ts_json t),
               (''failed_at'', ts_json now)]"

definition retry_write ::
  "(time \<Rightarrow> json) \<Rightarrow> time \<Rightarrow> string \<Rightarrow> time \<Rightarrow> step_record \<Rightarrow> step_record" where
  "retry_write ts_json now err retry_at r =
     r\<lparr>js_retry_history := jsonb_concat (js_retry_history r) [history_entry ts_json now err r],
       js_retry_attempt := js_retry_attempt r + 1, js_status := ''ready'',
       js_ready_at := Some now, js_retry_at := Some retry_at, js_worker_id := None,
       js_started_at := None, js_completed_at := None, js_error_message := None,
       js_output := None, js_agent_state := None, js_suspended_at := None\<rparr>"

definition fail_write :: "time \<Rightarrow> string \<Rightarrow> step_record \<Rightarrow> step_record" where
  "fail_write now err r =
     r\<lparr>js_status := ''failed'', js_error_message := Some err, js_completed_at := Some now\<rparr>"

definition fail_or_retry ::
  "(time \<Rightarrow> json) \<Rightarrow> time \<Rightarrow> time \<Rightarrow> uuid \<Rightarrow> string \<Rightarrow> string \<Rightarrow> step_status list
    \<Rightarrow> (job_step_row \<Rightarrow> nat) \<Rightarrow> claim_identity option \<Rightarrow> db \<Rightarrow> db \<times> fail_outcome" where
  "fail_or_retry ts_json now utc_now job_id step_name err expected delay_for expected_claim d =
     (case select_one (at_step job_id step_name) (steps d) of
        None \<Rightarrow> (d, FNotApplied)
      | Some row \<Rightarrow>
          if expected \<noteq> [] \<and> \<not> list_ex (\<lambda>s. step_status_str s = js_status row) expected
          then (d, FNotApplied)
          else if (case expected_claim of
                     None \<Rightarrow> False
                   | Some c \<Rightarrow> js_worker_id row \<noteq> Some (ci_worker_id c) \<or>
                       js_started_at row \<noteq> Some (ci_started_at c))
          then (d, FNotApplied)
          else case js_max_retries row of
            Some mx \<Rightarrow>
              if js_retry_attempt row < mx
              then let delay_secs = delay_for (step_row row);
                       retry_at = utc_now + seconds (int delay_secs)
                   in (fst (update_steps (at_step job_id step_name) (retry_write ts_json now err retry_at) d),
                       FRetryScheduled (js_retry_attempt row + 1) mx delay_secs)
              else (fst (update_steps (at_step job_id step_name) (fail_write now err) d),
                    FFailed (js_retry_attempt row) (js_max_retries row))
          | None \<Rightarrow> (fst (update_steps (at_step job_id step_name) (fail_write now err) d),
                    FFailed (js_retry_attempt row) (js_max_retries row)))"

definition cancel_pending_steps_tx :: "time \<Rightarrow> uuid \<Rightarrow> db \<Rightarrow> db \<times> nat" where
  "cancel_pending_steps_tx now job_id d =
     update_steps (\<lambda>r. js_job_id r = job_id \<and> js_status r \<in> {''pending'', ''ready'', ''suspended''})
       (\<lambda>r. r\<lparr>js_status := ''cancelled'', js_completed_at := Some now\<rparr>) d"

definition is_claim :: "uuid \<Rightarrow> string \<Rightarrow> claim_identity \<Rightarrow> step_record \<Rightarrow> bool" where
  "is_claim job_id step_name claim r \<longleftrightarrow>
     at_step job_id step_name r \<and> js_status r = ''running'' \<and>
     sql_eq (js_worker_id r) (ci_worker_id claim) \<and> sql_eq (js_started_at r) (ci_started_at claim)"

definition release_write :: "time \<Rightarrow> int \<Rightarrow> step_record \<Rightarrow> step_record" where
  "release_write now retry_after r =
     r\<lparr>js_status := ''ready'', js_worker_id := None, js_started_at := None, js_ready_at := Some now,
       js_retry_at := Some (now + retry_after), js_pin_releases := js_pin_releases r + 1\<rparr>"

definition release_claim ::
  "time \<Rightarrow> uuid \<Rightarrow> string \<Rightarrow> claim_identity \<Rightarrow> int \<Rightarrow> int \<Rightarrow> db \<Rightarrow> db \<times> release_outcome" where
  "release_claim now job_id step_name claim retry_after max_releases d =
     (case select_one (\<lambda>j. j_job_id j = job_id) (jobs d) of
        None \<Rightarrow> (d, RNotApplied)
      | Some job \<Rightarrow>
          (case select_one (is_claim job_id step_name claim) (steps d) of
             None \<Rightarrow> (d, RNotApplied)
           | Some row \<Rightarrow>
               if j_status job \<noteq> ''pending'' \<and> j_status job \<noteq> ''running'' then
                 (fst (cancel_pending_steps_tx now job_id
                    (fst (update_steps (at_step job_id step_name)
                       (\<lambda>r. r\<lparr>js_status := ''cancelled'', js_completed_at := Some now\<rparr>) d))),
                  RCancelled)
               else if js_pin_releases row + 1 > max_releases then (d, RCapReached)
               else (fst (update_steps (at_step job_id step_name) (release_write now retry_after) d),
                     RReleased)))"

section \<open>Deferred steps\<close>

definition take_resolve_lease :: "time \<Rightarrow> uuid \<Rightarrow> string \<Rightarrow> uuid \<Rightarrow> int \<Rightarrow> db \<Rightarrow> db \<times> bool" where
  "take_resolve_lease now job_id step_name token lease d =
     (let (d', n) = update_steps
            (\<lambda>r. at_step job_id step_name r \<and> js_status r = ''ready'' \<and> js_action_type r = ''deferred'' \<and>
                 (js_resolve_lease_until r = None \<or> sql_lt (js_resolve_lease_until r) now))
            (\<lambda>r. r\<lparr>js_resolve_lease_owner := Some token, js_resolve_lease_until := Some (now + lease)\<rparr>) d
      in (d', n = 1))"

definition holds_lease :: "uuid \<Rightarrow> string \<Rightarrow> uuid \<Rightarrow> step_record \<Rightarrow> bool" where
  "holds_lease job_id step_name token r \<longleftrightarrow>
     at_step job_id step_name r \<and> js_status r = ''ready'' \<and> js_action_type r = ''deferred'' \<and>
     sql_eq (js_resolve_lease_owner r) token"

definition renew_resolve_lease :: "time \<Rightarrow> uuid \<Rightarrow> string \<Rightarrow> uuid \<Rightarrow> int \<Rightarrow> db \<Rightarrow> db \<times> bool" where
  "renew_resolve_lease now job_id step_name token lease d =
     (let (d', n) = update_steps (holds_lease job_id step_name token)
            (\<lambda>r. r\<lparr>js_resolve_lease_until := Some (now + lease)\<rparr>) d
      in (d', n = 1))"

definition deferred_job_gate :: "uuid \<Rightarrow> db \<Rightarrow> deferred_write option" where
  "deferred_job_gate job_id d =
     (case select_one (\<lambda>j. j_job_id j = job_id) (jobs d) of
        None \<Rightarrow> Some NotApplied
      | Some job \<Rightarrow> if j_status job = ''pending'' \<or> j_status job = ''running'' then None
                    else Some JobTerminal)"

definition resolve_write :: "time \<Rightarrow> new_job_step \<Rightarrow> step_record \<Rightarrow> step_record" where
  "resolve_write now n r =
     r\<lparr>js_action_name := ns_action_name n, js_action_type := ns_action_type n,
       js_action_image := ns_action_image n, js_action_spec := ns_action_spec n,
       js_required_ability := ns_required_ability n,
       js_required_tags := tags_json (ns_required_tags n), js_runner := ns_runner n,
       js_max_retries := ns_max_retries n, js_retry_backoff_secs := ns_retry_backoff_secs n,
       js_retry_strategy := ns_retry_strategy n, js_retry_jitter := ns_retry_jitter n,
       js_action_workspace := ns_action_workspace n, js_action_revision := ns_action_revision n,
       js_action_ref := ns_action_ref n, js_task_workspace := ns_task_workspace n,
       js_task_ref := ns_task_ref n, js_task_revision := ns_task_revision n,
       js_ready_at := Some now, js_resolve_lease_owner := None, js_resolve_lease_until := None\<rparr>"

definition resolve_deferred_tx ::
  "time \<Rightarrow> uuid \<Rightarrow> string \<Rightarrow> uuid \<Rightarrow> new_job_step \<Rightarrow> db \<Rightarrow> string + db \<times> deferred_write" where
  "resolve_deferred_tx now job_id step_name token resolved d =
     (case deferred_job_gate job_id d of
        Some out \<Rightarrow> Inr (d, out)
      | None \<Rightarrow>
          let (d', n) = update_steps (holds_lease job_id step_name token) (resolve_write now resolved) d in
          if n > 0 \<and> \<not> step_check ''ready'' (ns_action_type resolved) (ns_runner resolved) None
          then Inl ''write resolved deferred step''
          else Inr (d', if n = 1 then Applied else NotApplied))"

definition fail_deferred_tx ::
  "time \<Rightarrow> uuid \<Rightarrow> string \<Rightarrow> uuid \<Rightarrow> string \<Rightarrow> db \<Rightarrow> db \<times> deferred_write" where
  "fail_deferred_tx now job_id step_name token err d =
     (case deferred_job_gate job_id d of
        Some out \<Rightarrow> (d, out)
      | None \<Rightarrow>
          let (d', n) = update_steps (holds_lease job_id step_name token)
             (\<lambda>r. r\<lparr>js_status := ''failed'', js_error_message := Some err, js_completed_at := Some now,
                    js_resolve_lease_owner := None, js_resolve_lease_until := None\<rparr>) d
          in (d', if n = 1 then Applied else NotApplied))"

definition stamp_task_pin ::
  "uuid \<Rightarrow> string \<Rightarrow> string \<Rightarrow> string \<Rightarrow> string \<Rightarrow> db \<Rightarrow> db \<times> bool" where
  "stamp_task_pin job_id step_name workspace git_ref commit d =
     (let (d', n) = update_steps
            (\<lambda>r. at_step job_id step_name r \<and> js_status r = ''ready'' \<and> js_task_ref r = None)
            (\<lambda>r. r\<lparr>js_task_workspace := Some workspace, js_task_ref := Some git_ref,
                   js_task_revision := Some commit\<rparr>) d
      in (d', n = 1))"

section \<open>Further writes\<close>

definition update_input :: "uuid \<Rightarrow> string \<Rightarrow> json option \<Rightarrow> db \<Rightarrow> db" where
  "update_input job_id step_name inp d =
     fst (update_steps (at_step job_id step_name) (\<lambda>r. r\<lparr>js_input := inp\<rparr>) d)"

definition mark_skipped :: "time \<Rightarrow> uuid \<Rightarrow> string \<Rightarrow> string \<Rightarrow> db \<Rightarrow> db" where
  "mark_skipped now job_id step_name reason d =
     fst (update_steps (\<lambda>r. at_step job_id step_name r \<and> js_status r = ''pending'')
       (\<lambda>r. r\<lparr>js_status := ''skipped'', js_skip_reason := Some reason, js_completed_at := Some now\<rparr>) d)"

definition fail_non_terminal_steps_tx :: "time \<Rightarrow> uuid \<Rightarrow> string \<Rightarrow> db \<Rightarrow> db \<times> nat" where
  "fail_non_terminal_steps_tx now job_id err d =
     update_steps (\<lambda>r. js_job_id r = job_id \<and>
         js_status r \<in> {''pending'', ''ready'', ''claimed'', ''running'', ''suspended''})
       (fail_write now err) d"

definition mark_cancelled :: "time \<Rightarrow> uuid \<Rightarrow> string \<Rightarrow> db \<Rightarrow> db" where
  "mark_cancelled now job_id step_name d =
     fst (update_steps (\<lambda>r. at_step job_id step_name r \<and> js_status r = ''running'')
       (\<lambda>r. r\<lparr>js_status := ''cancelled'', js_error_message := Some ''Job cancelled'',
              js_completed_at := Some now\<rparr>) d)"

definition approve_step :: "time \<Rightarrow> uuid \<Rightarrow> string \<Rightarrow> json option \<Rightarrow> db \<Rightarrow> db \<times> bool" where
  "approve_step now job_id step_name out d =
     (let (d', n) = update_steps (\<lambda>r. at_step job_id step_name r \<and> js_status r = ''suspended'')
            (\<lambda>r. r\<lparr>js_status := ''completed'', js_output := out, js_completed_at := Some now\<rparr>) d
      in (d', n > 0))"

definition mark_suspended :: "time \<Rightarrow> uuid \<Rightarrow> string \<Rightarrow> db \<Rightarrow> db" where
  "mark_suspended now job_id step_name d =
     fst (update_steps (\<lambda>r. at_step job_id step_name r \<and> js_status r = ''ready'')
       (\<lambda>r. r\<lparr>js_status := ''suspended'', js_suspended_at := Some now\<rparr>) d)"

definition update_agent_state :: "uuid \<Rightarrow> string \<Rightarrow> json \<Rightarrow> db \<Rightarrow> db" where
  "update_agent_state job_id step_name agent_state d =
     fst (update_steps (at_step job_id step_name) (\<lambda>r. r\<lparr>js_agent_state := Some agent_state\<rparr>) d)"

section \<open>Queries\<close>

text \<open>\<open>collate\<close> is the sort key the database's collation gives a text column.\<close>

definition rows_of ::
  "(string \<Rightarrow> nat list) \<Rightarrow> (step_record \<Rightarrow> bool) \<Rightarrow> db \<Rightarrow> job_step_row list" where
  "rows_of collate wh d =
     map step_row (sort_key (\<lambda>r. collate (js_step_name r)) (filter wh (steps d)))"

definition get_steps_for_job :: "(string \<Rightarrow> nat list) \<Rightarrow> uuid \<Rightarrow> db \<Rightarrow> job_step_row list" where
  "get_steps_for_job collate job_id d = rows_of collate (\<lambda>r. js_job_id r = job_id) d"

definition get_ready_deferred_steps :: "(string \<Rightarrow> nat list) \<Rightarrow> uuid \<Rightarrow> db \<Rightarrow> job_step_row list" where
  "get_ready_deferred_steps collate job_id d =
     rows_of collate (\<lambda>r. js_job_id r = job_id \<and> js_status r = ''ready'' \<and> js_action_type r = ''deferred'') d"

definition get_step :: "uuid \<Rightarrow> string \<Rightarrow> db \<Rightarrow> job_step_row option" where
  "get_step job_id step_name d = map_option step_row (select_one (at_step job_id step_name) (steps d))"

definition get_ready_steps :: "(string \<Rightarrow> nat list) \<Rightarrow> uuid \<Rightarrow> db \<Rightarrow> job_step_row list" where
  "get_ready_steps collate job_id d =
     rows_of collate (\<lambda>r. js_job_id r = job_id \<and> js_status r = ''ready'') d"

definition all_steps_terminal :: "uuid \<Rightarrow> db \<Rightarrow> bool" where
  "all_steps_terminal job_id d \<longleftrightarrow>
     length (filter (\<lambda>r. js_job_id r = job_id \<and>
       js_status r \<notin> {''completed'', ''failed'', ''skipped'', ''cancelled''}) (steps d)) = 0"

definition get_failed_step_names :: "uuid \<Rightarrow> db \<Rightarrow> string list" where
  "get_failed_step_names job_id d =
     map js_step_name (filter (\<lambda>r. js_job_id r = job_id \<and> js_status r = ''failed'') (steps d))"

definition any_step_failed :: "uuid \<Rightarrow> db \<Rightarrow> bool" where
  "any_step_failed job_id d \<longleftrightarrow>
     length (filter (\<lambda>r. js_job_id r = job_id \<and> js_status r = ''failed'') (steps d)) > 0"

definition has_live_steps :: "uuid \<Rightarrow> db \<Rightarrow> bool" where
  "has_live_steps job_id d \<longleftrightarrow>
     list_ex (\<lambda>r. js_job_id r = job_id \<and> js_status r \<in> {''running'', ''claimed''}) (steps d)"

definition get_running_steps :: "uuid \<Rightarrow> db \<Rightarrow> job_step_row list" where
  "get_running_steps job_id d =
     map step_row (filter (\<lambda>r. js_job_id r = job_id \<and> js_status r = ''running'') (steps d))"

record stale_step_info =
  si_job_id :: uuid
  si_step_name :: string
  si_worker_id :: "uuid option"
  si_started_at :: "time option"

definition stale_claim :: "stale_step_info \<Rightarrow> claim_identity option" where
  "stale_claim s =
     (case si_worker_id s of
        None \<Rightarrow> None
      | Some w \<Rightarrow> (case si_started_at s of
            None \<Rightarrow> None
          | Some t \<Rightarrow> Some \<lparr>ci_worker_id = w, ci_started_at = t\<rparr>))"

definition stale_row :: "step_record \<Rightarrow> stale_step_info" where
  "stale_row r = \<lparr>si_job_id = js_job_id r, si_step_name = js_step_name r,
     si_worker_id = js_worker_id r, si_started_at = js_started_at r\<rparr>"

definition unclaimed_row :: "step_record \<Rightarrow> stale_step_info" where
  "unclaimed_row r = \<lparr>si_job_id = js_job_id r, si_step_name = js_step_name r,
     si_worker_id = None, si_started_at = None\<rparr>"

definition get_running_steps_for_workers :: "uuid list \<Rightarrow> db \<Rightarrow> stale_step_info list" where
  "get_running_steps_for_workers worker_ids d =
     (if worker_ids = [] then []
      else map stale_row (filter (\<lambda>r. js_status r = ''running'' \<and>
             list_ex (sql_eq (js_worker_id r)) worker_ids) (steps d)))"

definition deadline_passed :: "time \<Rightarrow> time option \<Rightarrow> int option \<Rightarrow> bool" where
  "deadline_passed now start timeout_secs =
     (case (start, timeout_secs) of
        (Some s, Some t) \<Rightarrow> s + seconds t < now
      | _ \<Rightarrow> False)"

definition get_timed_out_steps :: "time \<Rightarrow> db \<Rightarrow> stale_step_info list" where
  "get_timed_out_steps now d =
     map stale_row (filter (\<lambda>r. js_status r = ''running'' \<and>
       deadline_passed now (js_started_at r) (js_timeout_secs r)) (steps d))"

record worker_row =
  w_status :: string
  w_capabilities :: "string list"
  w_tags :: "string list"
  w_exclusive :: bool

definition get_unmatched_ready_steps :: "time \<Rightarrow> int \<Rightarrow> worker_row list \<Rightarrow> db \<Rightarrow> stale_step_info list" where
  "get_unmatched_ready_steps now timeout workers d =
     map unclaimed_row (filter (\<lambda>r. js_status r = ''ready'' \<and>
       js_action_type r \<notin> set server_dispatched \<and> js_action_type r \<noteq> ''deferred'' \<and>
       sql_lt (js_ready_at r) (now - timeout) \<and>
       \<not> list_ex (\<lambda>w. w_status w = ''active'' \<and>
           worker_matches (w_capabilities w) (w_tags w) (w_exclusive w) r) workers) (steps d))"

definition get_timed_out_suspended_steps :: "time \<Rightarrow> db \<Rightarrow> stale_step_info list" where
  "get_timed_out_suspended_steps now d =
     map unclaimed_row (filter (\<lambda>r. js_status r = ''suspended'' \<and>
       deadline_passed now (js_suspended_at r) (js_timeout_secs r)) (steps d))"

definition count_by_worker :: "uuid \<Rightarrow> db \<Rightarrow> nat" where
  "count_by_worker worker_id d = length (filter (\<lambda>r. sql_eq (js_worker_id r) worker_id) (steps d))"

end
