(* ===== verification/Step_Lifecycle.thy ===== *)
theory Step_Lifecycle
  imports Step_Store
begin

text \<open>
  The life cycle of a step under the guarded operations of the store: every one of them is a
  \<open>live_write\<close>, and the relation \<open>guarded_write\<close> (one rule per operation) therefore never touches a
  finished row, never loses or invents a row, and only moves statuses along \<open>step_edge\<close>.
\<close>

section \<open>The operations as guarded writes\<close>

lemma sum_fst_conv: "fst (let (d', n) = p in (d', g n)) = fst p"
  by (simp add: case_prod_beta)

lemmas edge_simps = step_edge_def is_terminal_def

interpretation promote: live_write "\<lambda>d. fst (promote_steps_tx now job_id names d)" for now job_id names
  unfolding promote_steps_tx_def by (rule live_write_update) (auto simp: edge_simps)

interpretation skip: live_write "\<lambda>d. fst (skip_steps_tx now job_id names reason d)"
  for now job_id names reason
  unfolding skip_steps_tx_def by (rule live_write_update) (auto simp: edge_simps)

interpretation fail_pending: live_write "\<lambda>d. fst (fail_pending_step_tx now job_id name err d)"
  for now job_id name err
  unfolding fail_pending_step_tx_def by (rule live_write_update) (auto simp: edge_simps)

interpretation start_placeholder: live_write "\<lambda>d. fst (start_placeholder_tx now job_id name d)"
  for now job_id name
  unfolding start_placeholder_tx_def by (rule live_write_update) (auto simp: edge_simps)

interpretation complete_placeholder: live_write "\<lambda>d. fst (complete_placeholder_tx now job_id name out d)"
  for now job_id name out
  unfolding complete_placeholder_tx_def by (rule live_write_update) (auto simp: edge_simps)

interpretation fail_placeholder: live_write "\<lambda>d. fst (fail_placeholder_tx now job_id name err out d)"
  for now job_id name err out
  unfolding fail_placeholder_tx_def by (rule live_write_update) (auto simp: edge_simps)

interpretation run_server: live_write "mark_running_server now job_id step_name" for now job_id step_name
  unfolding mark_running_server_def by (rule live_write_update) (auto simp: edge_simps)

interpretation task_dispatch: live_write "\<lambda>d. fst (claim_task_dispatch now job_id step_name pin d)"
  for now job_id step_name pin
  unfolding claim_task_dispatch_def sum_fst_conv by (rule live_write_update) (auto simp: edge_simps)

interpretation cancel_server: live_write "\<lambda>d. fst (cancel_server_managed_steps now job_id d)"
  for now job_id
  unfolding cancel_server_managed_steps_def by (rule live_write_update) (auto simp: edge_simps)

lemma fail_dispatch_live:
  assumes "expected \<in> {Ready, Running}"
  shows "live_write (\<lambda>d. fst (fail_task_dispatch now job_id step_name err expected pin d))"
  unfolding fail_task_dispatch_def sum_fst_conv
  by (rule live_write_update) (use assms in \<open>auto simp: edge_simps\<close>)

interpretation cancel_pending: live_write "\<lambda>d. fst (cancel_pending_steps_tx now job_id d)" for now job_id
  unfolding cancel_pending_steps_tx_def by (rule live_write_update) (auto simp: edge_simps)

interpretation take_lease: live_write "\<lambda>d. fst (take_resolve_lease now job_id step_name token lease d)"
  for now job_id step_name token lease
  unfolding take_resolve_lease_def sum_fst_conv by (rule live_write_update) (auto simp: edge_simps)

interpretation renew_lease: live_write "\<lambda>d. fst (renew_resolve_lease now job_id step_name token lease d)"
  for now job_id step_name token lease
  unfolding renew_resolve_lease_def sum_fst_conv
  by (rule live_write_update) (auto simp: edge_simps holds_lease_def)

interpretation stamp_pin: live_write "\<lambda>d. fst (stamp_task_pin job_id step_name w g c d)"
  for job_id step_name w g c
  unfolding stamp_task_pin_def sum_fst_conv by (rule live_write_update) (auto simp: edge_simps)

interpretation skipped: live_write "mark_skipped now job_id step_name reason"
  for now job_id step_name reason
  unfolding mark_skipped_def by (rule live_write_update) (auto simp: edge_simps)

interpretation fail_live: live_write "\<lambda>d. fst (fail_non_terminal_steps_tx now job_id err d)"
  for now job_id err
  unfolding fail_non_terminal_steps_tx_def by (rule live_write_update) (auto simp: edge_simps fail_write_def)

interpretation cancelled: live_write "mark_cancelled now job_id step_name" for now job_id step_name
  unfolding mark_cancelled_def by (rule live_write_update) (auto simp: edge_simps)

interpretation approve: live_write "\<lambda>d. fst (approve_step now job_id step_name out d)"
  for now job_id step_name out
  unfolding approve_step_def sum_fst_conv by (rule live_write_update) (auto simp: edge_simps)

interpretation suspend: live_write "mark_suspended now job_id step_name" for now job_id step_name
  unfolding mark_suspended_def by (rule live_write_update) (auto simp: edge_simps)

text \<open>The transactions: a case that writes nothing, or one guarded write.\<close>

lemma live_write_cases:
  assumes "\<And>d. jobs (run d) = jobs d" "\<And>d. list_all2 moves (steps d) (steps (run d))"
  shows "live_write run"
  using assms by unfold_locales

lemma fail_deferred_moves:
  "jobs (fst (fail_deferred_tx now job_id step_name token err d)) = jobs d \<and>
   list_all2 moves (steps d) (steps (fst (fail_deferred_tx now job_id step_name token err d)))"
  unfolding fail_deferred_tx_def
  by (auto split: option.split simp: row_simps case_prod_beta list_all2_refl holds_lease_def
      moves_def edge_simps intro!: list_all2_map_moves)

interpretation fail_deferred: live_write "\<lambda>d. fst (fail_deferred_tx now job_id step_name token err d)"
  for now job_id step_name token err
  using fail_deferred_moves by (intro live_write_cases) blast+

definition after_resolve :: "time \<Rightarrow> uuid \<Rightarrow> string \<Rightarrow> uuid \<Rightarrow> new_job_step \<Rightarrow> db \<Rightarrow> db" where
  "after_resolve now job_id step_name token resolved d =
     (case resolve_deferred_tx now job_id step_name token resolved d of
        Inl _ \<Rightarrow> d
      | Inr p \<Rightarrow> fst p)"

lemma resolve_deferred_moves:
  "jobs (after_resolve now job_id step_name token resolved d) = jobs d \<and>
   list_all2 moves (steps d) (steps (after_resolve now job_id step_name token resolved d))"
  unfolding after_resolve_def resolve_deferred_tx_def
  by (auto split: option.split simp: row_simps case_prod_beta list_all2_refl holds_lease_def
      moves_def edge_simps resolve_write_def intro!: list_all2_map_moves)

interpretation resolve_deferred: live_write "after_resolve now job_id step_name token resolved"
  for now job_id step_name token resolved
  using resolve_deferred_moves by (intro live_write_cases) blast+

text \<open>The primary key of the table, and what a write at one key does when it holds.\<close>

definition keyed :: "db \<Rightarrow> bool" where
  "keyed d \<longleftrightarrow> distinct (map step_key (steps d))"

lemma keyed_unique:
  "keyed d \<Longrightarrow> r \<in> set (steps d) \<Longrightarrow> r' \<in> set (steps d) \<Longrightarrow> step_key r = step_key r' \<Longrightarrow> r = r'"
  unfolding keyed_def by (rule distinct_map_eqD [where f = step_key])

lemma select_step:
  assumes "keyed d"
  shows "select_one (at_step job_id name) (steps d) = Some r \<longleftrightarrow>
    r \<in> set (steps d) \<and> step_key r = (job_id, name)"
proof
  assume "select_one (at_step job_id name) (steps d) = Some r"
  then have "r \<in> set (steps d) \<and> at_step job_id name r"
    unfolding select_one_def by (rule find_SomeD)
  then show "r \<in> set (steps d) \<and> step_key r = (job_id, name)" by simp
next
  assume "r \<in> set (steps d) \<and> step_key r = (job_id, name)"
  then show "select_one (at_step job_id name) (steps d) = Some r"
    unfolding select_one_def using assms
    by (intro find_unique_key [where k = step_key]) (auto simp: keyed_def)
qed

lemma moves_at_key:
  assumes "keyed d" "r \<in> set (steps d)" "step_key r = (job_id, name)" "moves r (f r)"
  shows "list_all2 moves (steps d) (map (\<lambda>x. if at_step job_id name x then f x else x) (steps d))"
proof (rule list_all2_map_moves)
  fix x assume "x \<in> set (steps d)"
  then show "moves x (if at_step job_id name x then f x else x)"
    using assms keyed_unique [OF assms(1), of x r] by auto
qed

lemma claim_moves:
  assumes "keyed d"
  shows "list_all2 moves (steps d) (steps (fst (claim_ready_step now rnd locked caps tags ex w d)))"
proof -
  let ?P = "\<lambda>r. claimable now caps tags ex r \<and> step_key r \<notin> set locked"
  let ?cands = "filter ?P (steps d)"
  show ?thesis
  proof (cases "?cands = []")
    case True
    then show ?thesis by (simp add: claim_ready_step_def list_all2_refl)
  next
    case False
    let ?c = "?cands ! (rnd mod length ?cands)"
    have "?c \<in> set ?cands" using False by (intro nth_mem mod_less_divisor) blast
    then have c: "?c \<in> set (steps d)" "js_status ?c = ''ready''" by (auto simp: claimable_def)
    have "moves ?c (claim_write now w ?c)" using c(2) by (simp add: moves_def claim_write_def edge_simps)
    then have "list_all2 moves (steps d) (map (\<lambda>x. if at_step (js_job_id ?c) (js_step_name ?c) x
        then claim_write now w x else x) (steps d))"
      by (intro moves_at_key [OF assms c(1), where f = "claim_write now w"]) simp_all
    then show ?thesis using False by (simp add: claim_ready_step_def Let_def row_simps)
  qed
qed

lemma fail_or_retry_moves:
  assumes "keyed d" "expected \<noteq> []" "set expected \<subseteq> {Running, Suspended}"
  shows "list_all2 moves (steps d)
    (steps (fst (fail_or_retry ts now un job_id step_name err expected delay_for claim d)))"
proof (cases "select_one (at_step job_id step_name) (steps d)")
  case None
  then show ?thesis by (simp add: fail_or_retry_def list_all2_refl)
next
  case (Some r)
  then have r: "r \<in> set (steps d)" "step_key r = (job_id, step_name)"
    using select_step [OF assms(1)] by blast+
  show ?thesis
  proof (cases "list_ex (\<lambda>s. step_status_str s = js_status r) expected")
    case False
    then show ?thesis using Some assms(2) by (simp add: fail_or_retry_def list_all2_refl)
  next
    case True
    then have st: "js_status r = ''running'' \<or> js_status r = ''suspended''"
      using assms(3) by (fastforce simp: list_ex_iff)
    have "moves r (retry_write ts now err t r)" "moves r (fail_write now err r)" for t
      using st by (auto simp: moves_def edge_simps retry_write_def fail_write_def)
    then show ?thesis
      using moves_at_key [OF assms(1) r(1) r(2)] Some
      by (auto simp: fail_or_retry_def Let_def row_simps list_all2_refl split: option.splits)
  qed
qed

lemma release_moves:
  assumes "keyed d"
  shows "list_all2 moves (steps d) (steps (fst (release_claim now job_id step_name claim after mx d)))"
proof (cases "select_one (is_claim job_id step_name claim) (steps d)")
  case None
  then show ?thesis by (simp add: release_claim_def list_all2_refl split: option.splits)
next
  case (Some r)
  then have "r \<in> set (steps d) \<and> is_claim job_id step_name claim r"
    unfolding select_one_def by (rule find_SomeD)
  then have r: "r \<in> set (steps d)" "step_key r = (job_id, step_name)" "js_status r = ''running''"
    by (simp_all add: is_claim_def)
  have rel: "moves r (release_write now after r)"
    using r(3) by (simp add: moves_def edge_simps release_write_def)
  have here: "x = r" if "x \<in> set (steps d)" "at_step job_id step_name x" for x
    using keyed_unique [OF assms that(1) r(1)] that(2) r(2) by simp
  have "list_all2 moves (steps d) (steps (fst (cancel_pending_steps_tx now job_id
      (fst (update_steps (at_step job_id step_name)
        (\<lambda>r. r\<lparr>js_status := ''cancelled'', js_completed_at := Some now\<rparr>) d)))))"
    unfolding cancel_pending_steps_tx_def update_steps_fst map_map
    by (rule list_all2_map_moves) (use here r(3) in \<open>auto simp: moves_def edge_simps\<close>)
  then show ?thesis
    using Some moves_at_key [OF assms r(1) r(2), where f = "release_write now after"] rel
    by (auto simp: release_claim_def row_simps list_all2_refl split: option.splits)
qed

section \<open>The step relation\<close>

inductive guarded_write :: "db \<Rightarrow> db \<Rightarrow> bool" where
  gw_promote: "guarded_write d (fst (promote_steps_tx now job_id names d))"
| gw_skip: "guarded_write d (fst (skip_steps_tx now job_id names reason d))"
| gw_fail_pending: "guarded_write d (fst (fail_pending_step_tx now job_id name err d))"
| gw_start: "guarded_write d (fst (start_placeholder_tx now job_id name d))"
| gw_complete: "guarded_write d (fst (complete_placeholder_tx now job_id name out d))"
| gw_fail_placeholder: "guarded_write d (fst (fail_placeholder_tx now job_id name err out d))"
| gw_claim: "guarded_write d (fst (claim_ready_step now rnd locked caps tags ex w d))"
| gw_run_server: "guarded_write d (mark_running_server now job_id name d)"
| gw_task_dispatch: "guarded_write d (fst (claim_task_dispatch now job_id name pin d))"
| gw_cancel_server: "guarded_write d (fst (cancel_server_managed_steps now job_id d))"
| gw_fail_dispatch: "expected \<in> {Ready, Running} \<Longrightarrow>
    guarded_write d (fst (fail_task_dispatch now job_id name err expected pin d))"
| gw_fail_or_retry: "expected \<noteq> [] \<Longrightarrow> set expected \<subseteq> {Running, Suspended} \<Longrightarrow>
    guarded_write d (fst (fail_or_retry ts now un job_id name err expected delay_for claim d))"
| gw_release: "guarded_write d (fst (release_claim now job_id name cl after mx d))"
| gw_take_lease: "guarded_write d (fst (take_resolve_lease now job_id name token lease d))"
| gw_renew_lease: "guarded_write d (fst (renew_resolve_lease now job_id name token lease d))"
| gw_resolve: "guarded_write d (after_resolve now job_id name token resolved d)"
| gw_fail_deferred: "guarded_write d (fst (fail_deferred_tx now job_id name token err d))"
| gw_stamp: "guarded_write d (fst (stamp_task_pin job_id name ws g c d))"
| gw_skipped: "guarded_write d (mark_skipped now job_id name reason d)"
| gw_cancel_pending: "guarded_write d (fst (cancel_pending_steps_tx now job_id d))"
| gw_fail_live: "guarded_write d (fst (fail_non_terminal_steps_tx now job_id err d))"
| gw_cancelled: "guarded_write d (mark_cancelled now job_id name d)"
| gw_approve: "guarded_write d (fst (approve_step now job_id name out d))"
| gw_suspend: "guarded_write d (mark_suspended now job_id name d)"

lemma guarded_write_moves:
  assumes "guarded_write d d'" "keyed d"
  shows "list_all2 moves (steps d) (steps d')"
  using assms
proof (induction rule: guarded_write.induct)
  case (gw_fail_dispatch expected d now job_id name err pin)
  then show ?case using live_write.rows_move [OF fail_dispatch_live] by blast
qed (simp_all add: claim_moves fail_or_retry_moves release_moves promote.rows_move skip.rows_move
  fail_pending.rows_move start_placeholder.rows_move complete_placeholder.rows_move
  fail_placeholder.rows_move run_server.rows_move task_dispatch.rows_move cancel_server.rows_move
  take_lease.rows_move renew_lease.rows_move resolve_deferred.rows_move fail_deferred.rows_move
  stamp_pin.rows_move skipped.rows_move cancel_pending.rows_move fail_live.rows_move
  cancelled.rows_move approve.rows_move suspend.rows_move)

lemma moves_keys: "list_all2 moves rs rs' \<Longrightarrow> map step_key rs' = map step_key rs"
  by (induction rule: list_all2_induct) (simp_all add: moves_def)

definition evolves :: "step_record \<Rightarrow> step_record \<Rightarrow> bool" where
  "evolves r r' \<longleftrightarrow> step_key r' = step_key r \<and> (is_terminal (js_status r) \<longrightarrow> r' = r) \<and>
     (js_status r' = ''pending'' \<longrightarrow> js_status r = ''pending'') \<and>
     (js_status r' = ''skipped'' \<longrightarrow> js_status r \<in> {''pending'', ''skipped''})"

lemma moves_evolves: "moves r r' \<Longrightarrow> evolves r r'"
  by (auto simp: moves_def evolves_def step_edge_def)

lemma evolvesD:
  assumes "evolves r r'"
  shows "step_key r' = step_key r" "is_terminal (js_status r) \<Longrightarrow> r' = r"
    "js_status r' = ''pending'' \<Longrightarrow> js_status r = ''pending''"
    "js_status r' = ''skipped'' \<Longrightarrow> js_status r = ''pending'' \<or> js_status r = ''skipped''"
  using assms unfolding evolves_def by blast+

lemma evolves_trans:
  assumes "evolves r r'" "evolves r' r''"
  shows "evolves r r''"
  unfolding evolves_def
proof (intro conjI impI)
  note e1 = evolvesD [OF assms(1)] and e2 = evolvesD [OF assms(2)]
  show "step_key r'' = step_key r" using e1(1) e2(1) by (rule trans [rotated])
  show "r'' = r" if t: "is_terminal (js_status r)"
    using e1(2) [OF t] e2(2) t by metis
  show "js_status r = ''pending''" if "js_status r'' = ''pending''"
    using e1(3) e2(3) that by blast
  show "js_status r \<in> {''pending'', ''skipped''}" if "js_status r'' = ''skipped''"
    using e2(4) [OF that] e1(3,4) by blast
qed

lemma guarded_writes_evolve:
  assumes "guarded_write\<^sup>*\<^sup>* d d'" "keyed d"
  shows "keyed d' \<and> list_all2 evolves (steps d) (steps d')"
  using assms
proof (induction rule: rtranclp_induct)
  case base
  then show ?case by (simp add: list_all2_refl evolves_def)
next
  case (step y z)
  then have IH: "keyed y" "list_all2 evolves (steps d) (steps y)" by blast+
  have mv: "list_all2 moves (steps y) (steps z)" using guarded_write_moves step.hyps(2) IH(1) .
  then have "keyed z" using IH(1) moves_keys by (auto simp: keyed_def)
  moreover have "list_all2 evolves (steps d) (steps z)"
    using IH(2) list_all2_mono [OF mv, of evolves] moves_evolves
    by (blast intro: list_all2_trans [of evolves evolves] evolves_trans)
  ultimately show ?case ..
qed

section \<open>Properties\<close>


definition step_of :: "uuid \<Rightarrow> string \<Rightarrow> string \<Rightarrow> step_record" where
  "step_of job_id name status =
     job_step_row.extend (test_default job_id name)
       (step_record.fields None None None) \<lparr>js_status := status\<rparr>"

definition two_steps :: db where
  "two_steps = \<lparr>jobs = [], steps = [step_of 1 ''a'' ''completed'', step_of 1 ''b'' ''pending'']\<rparr>"

lemma step_of_sel [simp]:
  "js_job_id (step_of j n s) = j" "js_step_name (step_of j n s) = n" "js_status (step_of j n s) = s"
  by (simp_all add: step_of_def test_default_def job_step_row.extend_def step_record.fields_def)

lemma two_steps_keyed: "keyed two_steps"
  by (simp add: keyed_def two_steps_def)


end
