(* ===== verification/Step_Claims.thy ===== *)
theory Step_Claims
  imports Step_Lifecycle
begin

text \<open>
  Who may write a step: claims of workers, the retry budget of a step, released claims and the
  resolution lease of deferred steps.
\<close>

section \<open>Claims\<close>

definition candidates ::
  "time \<Rightarrow> (uuid \<times> string) list \<Rightarrow> string list \<Rightarrow> string list \<Rightarrow> bool \<Rightarrow> db \<Rightarrow> step_record list" where
  "candidates now locked caps tags ex d =
     filter (\<lambda>r. claimable now caps tags ex r \<and> step_key r \<notin> set locked) (steps d)"

lemma candidates_iff:
  "r \<in> set (candidates now locked caps tags ex d) \<longleftrightarrow>
   r \<in> set (steps d) \<and> claimable now caps tags ex r \<and> step_key r \<notin> set locked"
  by (simp add: candidates_def)

lemma claim_None:
  "candidates now locked caps tags ex d = [] \<Longrightarrow>
   claim_ready_step now rnd locked caps tags ex w d = (d, None)"
  by (simp add: claim_ready_step_def candidates_def Let_def)

lemma claim_Some:
  assumes "candidates now locked caps tags ex d \<noteq> []"
  obtains c where "c \<in> set (candidates now locked caps tags ex d)"
    "c = candidates now locked caps tags ex d ! (rnd mod length (candidates now locked caps tags ex d))"
    "claim_ready_step now rnd locked caps tags ex w d =
      (fst (update_steps (\<lambda>r. step_key r = step_key c) (claim_write now w) d),
       Some (step_row (claim_write now w c)))"
proof (rule that [OF _ refl])
  let ?cs = "candidates now locked caps tags ex d"
  show "?cs ! (rnd mod length ?cs) \<in> set ?cs" using assms by (intro nth_mem mod_less_divisor) blast
  show "claim_ready_step now rnd locked caps tags ex w d =
      (fst (update_steps (\<lambda>r. step_key r = step_key (?cs ! (rnd mod length ?cs))) (claim_write now w) d),
       Some (step_row (claim_write now w (?cs ! (rnd mod length ?cs)))))"
    unfolding claim_ready_step_def candidates_def [symmetric] Let_def using assms by simp
qed

lemma claim_result:
  assumes "claim_ready_step now rnd locked caps tags ex w d = (d', Some row)"
  obtains c where "c \<in> set (candidates now locked caps tags ex d)"
    "d' = fst (update_steps (\<lambda>r. step_key r = step_key c) (claim_write now w) d)"
    "row = step_row (claim_write now w c)"
proof (cases "candidates now locked caps tags ex d = []")
  case True
  then show ?thesis using assms claim_None by (metis Pair_inject option.discI)
next
  case False
  then obtain c where c: "c \<in> set (candidates now locked caps tags ex d)"
    "claim_ready_step now rnd locked caps tags ex w d =
      (fst (update_steps (\<lambda>r. step_key r = step_key c) (claim_write now w) d),
       Some (step_row (claim_write now w c)))"
    by (rule claim_Some)
  show ?thesis
    by (rule that [OF c(1)]) (use trans [OF c(2) [symmetric] assms] in \<open>simp_all only: prod.inject option.inject\<close>)
qed

lemma claim_write_sel [simp]:
  "step_key (claim_write now w r) = step_key r" "js_status (claim_write now w r) = ''running''"
  "js_worker_id (claim_write now w r) = Some w" "js_started_at (claim_write now w r) = Some now"
  by (simp_all add: claim_write_def)

lemma claim_write_simps [simp]:
  "js_job_id (claim_write now w r) = js_job_id r" "js_step_name (claim_write now w r) = js_step_name r"
  by (simp_all add: claim_write_def)

lemma claim_write_not_claimable [simp]: "\<not> claimable t caps tags ex (claim_write now w r)"
  by (simp add: claimable_def)

text \<open>A step that is a candidate can be drawn by some random choice.\<close>

lemma claim_reaches:
  assumes "r \<in> set (candidates now locked caps tags ex d)"
  shows "\<exists>rnd. snd (claim_ready_step now rnd locked caps tags ex w d) =
    Some (step_row (claim_write now w r))"
proof -
  let ?cs = "candidates now locked caps tags ex d"
  obtain i where i: "i < length ?cs" "?cs ! i = r" using assms by (metis in_set_conv_nth)
  have "?cs \<noteq> []" using assms by auto
  then obtain c where c: "c = ?cs ! (i mod length ?cs)"
      "claim_ready_step now i locked caps tags ex w d =
        (fst (update_steps (\<lambda>r. step_key r = step_key c) (claim_write now w) d),
         Some (step_row (claim_write now w c)))"
    by (rule claim_Some)
  with i have "c = r" by simp
  with c(2) show ?thesis by (intro exI [of _ i]) simp
qed

text \<open>
  A claim is exclusive. If one worker claims a step and another claims next, under any random
  choices, clocks and capabilities, they get different steps; the claimed row is running under the
  worker that got it.
\<close>

theorem claim_exclusive:
  assumes "keyed d"
    and "claim_ready_step t1 rnd1 locked1 caps1 tags1 ex1 w1 d = (d1, Some a)"
    and "claim_ready_step t2 rnd2 locked2 caps2 tags2 ex2 w2 d1 = (d2, Some b)"
  shows "step_key a \<noteq> step_key b \<and>
    js_status a = ''running'' \<and> js_worker_id a = Some w1 \<and>
    get_step (js_job_id a) (js_step_name a) d2 = Some a"
proof -
  obtain c where c: "c \<in> set (candidates t1 locked1 caps1 tags1 ex1 d)"
      "d1 = fst (update_steps (\<lambda>r. step_key r = step_key c) (claim_write t1 w1) d)"
      "a = step_row (claim_write t1 w1 c)"
    using assms(2) by (rule claim_result)
  obtain e where e: "e \<in> set (candidates t2 locked2 caps2 tags2 ex2 d1)"
      "d2 = fst (update_steps (\<lambda>r. step_key r = step_key e) (claim_write t2 w2) d1)"
      "b = step_row (claim_write t2 w2 e)"
    using assms(3) by (rule claim_result)
  have k1: "keyed d1"
    using moves_keys [OF claim_moves [OF assms(1)]] assms(1,2) by (metis keyed_def fst_conv)
  then have k2: "keyed d2"
    using moves_keys [OF claim_moves [OF k1]] assms(3) by (metis keyed_def fst_conv)
  have cs: "c \<in> set (steps d)" using c(1) by (simp add: candidates_iff)
  have es: "e \<in> set (steps d1)" "claimable t2 caps2 tags2 ex2 e" using e(1) by (simp_all add: candidates_iff)
  have in1: "claim_write t1 w1 c \<in> set (steps d1)"
    unfolding c(2) update_steps_fst by (rule image_eqI [OF _ cs, unfolded set_map [symmetric]]) simp
  have ne: "step_key c \<noteq> step_key e"
  proof
    assume "step_key c = step_key e"
    then have "claim_write t1 w1 c = e" using keyed_unique [OF k1 in1 es(1)] by simp
    with es(2) show False by (metis claim_write_not_claimable)
  qed
  have in2: "claim_write t1 w1 c \<in> set (steps d2)"
    unfolding e(2) update_steps_fst
    by (rule image_eqI [OF _ in1, unfolded set_map [symmetric]])
      (use ne in \<open>simp only: claim_write_sel if_False\<close>)
  have "select_one (at_step (js_job_id c) (js_step_name c)) (steps d2) = Some (claim_write t1 w1 c)"
    using select_step [OF k2] in2 by simp
  then show ?thesis using ne by (simp add: c(3) e(3) get_step_def)
qed

definition claim_db :: db where
  "claim_db = \<lparr>jobs = [],
     steps = [(step_of 1 ''a'' ''ready'')\<lparr>js_required_tags := Array []\<rparr>,
              (step_of 1 ''b'' ''ready'')\<lparr>js_required_tags := Array []\<rparr>]\<rparr>"

lemma claim_db_keyed: "keyed claim_db"
  by (simp add: keyed_def claim_db_def)

lemmas eval_row = step_of_def test_default_def job_step_row.extend_def step_record.fields_def

theorem claim_exclusive_witness:
  "\<exists>d1 a d2 b. claim_ready_step 5 0 [] [[]] [] False 7 claim_db = (d1, Some a) \<and>
     claim_ready_step 6 0 [] [[]] [] False 8 d1 = (d2, Some b) \<and>
     step_key a \<noteq> step_key b \<and> get_step (js_job_id a) (js_step_name a) d2 = Some a"
proof -
  let ?c1 = "claim_ready_step 5 0 [] [[]] [] False 7 claim_db"
  let ?c2 = "claim_ready_step 6 0 [] [[]] [] False 8 (fst ?c1)"
  have 1: "snd ?c1 = Some (step_row (claim_write 5 7 (hd (steps claim_db))))"
    by (simp add: claim_ready_step_def Let_def claim_db_def claimable_def worker_matches_def server_dispatched_def
        jsonb_contained_def tags_json_def eval_row)
  have 2: "snd ?c2 = Some (step_row (claim_write 6 8 (hd (tl (steps claim_db)))))"
    by (simp add: claim_ready_step_def Let_def claim_db_def claimable_def worker_matches_def server_dispatched_def
        jsonb_contained_def tags_json_def eval_row update_steps_def sql_update_def claim_write_def)
  have c1: "?c1 = (fst ?c1, Some (step_row (claim_write 5 7 (hd (steps claim_db)))))"
    and c2: "?c2 = (fst ?c2, Some (step_row (claim_write 6 8 (hd (tl (steps claim_db))))))"
    using 1 2 by (metis prod.collapse)+
  show ?thesis using claim_exclusive [OF claim_db_keyed c1 c2] c1 c2 by (intro exI conjI) blast+
qed

definition some_match :: "worker_row list \<Rightarrow> step_record \<Rightarrow> bool" where
  "some_match workers r \<longleftrightarrow>
     (\<exists>v \<in> set workers. w_status v = ''active'' \<and> worker_matches (w_capabilities v) (w_tags v) (w_exclusive v) r)"

lemma unmatched_iff_no_match:
  assumes "keyed d" "r \<in> set (steps d)" "js_status r = ''ready''"
    and "js_action_type r \<notin> set server_dispatched" "js_action_type r \<noteq> ''deferred''"
    and "sql_lt (js_ready_at r) (now - timeout)"
  shows "unclaimed_row r \<in> set (get_unmatched_ready_steps now timeout workers d) \<longleftrightarrow> \<not> some_match workers r"
    (is "?L \<longleftrightarrow> ?N")
proof
  assume ?L
  then obtain r' where r': "r' \<in> set (steps d)" "unclaimed_row r = unclaimed_row r'" "\<not> some_match workers r'"
    unfolding get_unmatched_ready_steps_def set_map set_filter list_ex_iff some_match_def by blast
  then have "step_key r' = step_key r" by (simp add: unclaimed_row_def)
  then have "r' = r" using keyed_unique [OF assms(1) r'(1) assms(2)] by simp
  with r'(3) show ?N by simp
next
  assume ?N
  then show ?L
    unfolding get_unmatched_ready_steps_def set_map set_filter list_ex_iff some_match_def
    using assms(2-6) by blast
qed

lemma claimed_matches:
  assumes "keyed d" "r \<in> set (steps d)" "step_key row = step_key r"
    and "snd (claim_ready_step now rnd [] caps tags ex w d) = Some row"
  shows "worker_matches caps tags ex r"
proof -
  from assms(4) obtain c where c: "c \<in> set (candidates now [] caps tags ex d)" "row = step_row (claim_write now w c)"
    using claim_result by (metis prod.collapse)
  then have "c \<in> set (steps d)" "step_key c = step_key r" using assms(3) by (simp_all add: candidates_iff)
  then have "c = r" using keyed_unique [OF assms(1)] assms(2) by blast
  then show ?thesis using c(1) by (simp add: candidates_iff claimable_def)
qed

text \<open>
  The sweep for unmatched steps agrees with the claim query. Take a worker step that is ready,
  due, and has waited longer than the limit: the sweep reports it exactly if no active worker
  could ever draw it, whatever the random order.
\<close>

theorem unmatched_iff_unclaimable:
  assumes "keyed d" "r \<in> set (steps d)" "js_status r = ''ready''"
    and "js_action_type r \<notin> set server_dispatched" "js_action_type r \<noteq> ''deferred''"
    and "sql_lt (js_ready_at r) (now - timeout)"
    and "case js_retry_at r of None \<Rightarrow> True | Some t \<Rightarrow> t \<le> now"
  shows "unclaimed_row r \<in> set (get_unmatched_ready_steps now timeout workers d) \<longleftrightarrow>
    (\<forall>v \<in> set workers. w_status v = ''active'' \<longrightarrow>
      (\<forall>rnd w. \<forall>row. snd (claim_ready_step now rnd [] (w_capabilities v) (w_tags v) (w_exclusive v) w d)
          = Some row \<longrightarrow> step_key row \<noteq> step_key r))"
    (is "?L \<longleftrightarrow> ?R")
proof -
  have L: "?L \<longleftrightarrow> \<not> some_match workers r" by (rule unmatched_iff_no_match [OF assms(1-6)])
  show ?thesis
  proof
    assume ?L
    then show ?R using L claimed_matches [OF assms(1,2)] unfolding some_match_def by blast
  next
    assume R: ?R
    have False if v: "v \<in> set workers" "w_status v = ''active''"
      and m: "worker_matches (w_capabilities v) (w_tags v) (w_exclusive v) r" for v
    proof -
      have "r \<in> set (candidates now [] (w_capabilities v) (w_tags v) (w_exclusive v) d)"
        using m assms(2-4,7) by (simp add: candidates_iff claimable_def)
      then obtain rnd where "snd (claim_ready_step now rnd [] (w_capabilities v) (w_tags v) (w_exclusive v) 0 d)
          = Some (step_row (claim_write now 0 r))"
        using claim_reaches by blast
      with R v show False by fastforce
    qed
    then show ?L using L unfolding some_match_def by blast
  qed
qed

definition docker_step :: step_record where
  "docker_step = (step_of 1 ''a'' ''ready'')\<lparr>js_required_ability := ''docker'',
     js_required_tags := Array [], js_ready_at := Some 0\<rparr>"

definition script_worker :: worker_row where
  "script_worker = \<lparr>w_status = ''active'', w_capabilities = [''script''], w_tags = [], w_exclusive = False\<rparr>"

theorem unmatched_iff_unclaimable_witness:
  "map_option step_key (snd (claim_ready_step 100 3 [] (w_capabilities script_worker) (w_tags script_worker)
      (w_exclusive script_worker) 7 \<lparr>jobs = [], steps = [docker_step]\<rparr>)) \<noteq> Some (step_key docker_step)"
proof -
  let ?d = "\<lparr>jobs = [], steps = [docker_step]\<rparr>"
  have rep: "unclaimed_row docker_step \<in> set (get_unmatched_ready_steps 100 10 [script_worker] ?d)"
    by (simp add: get_unmatched_ready_steps_def docker_step_def script_worker_def eval_row sql_lt_def
        server_dispatched_def worker_matches_def)
  have hyp: "keyed ?d" "docker_step \<in> set (steps ?d)" "js_status docker_step = ''ready''"
    "js_action_type docker_step \<notin> set server_dispatched" "js_action_type docker_step \<noteq> ''deferred''"
    "sql_lt (js_ready_at docker_step) (100 - 10)"
    "case js_retry_at docker_step of None \<Rightarrow> True | Some t \<Rightarrow> t \<le> 100"
    by (simp_all add: keyed_def docker_step_def eval_row sql_lt_def server_dispatched_def)
  have "w_status script_worker = ''active''" by (simp add: script_worker_def)
  then have "\<forall>rnd w row. snd (claim_ready_step 100 rnd [] (w_capabilities script_worker) (w_tags script_worker)
      (w_exclusive script_worker) w ?d) = Some row \<longrightarrow> step_key row \<noteq> step_key docker_step"
    using rep unmatched_iff_unclaimable [OF hyp, of "[script_worker]"] by simp
  then show ?thesis unfolding map_option_eq_Some by blast
qed

section \<open>The retry budget of a step\<close>

text \<open>A sequence of reported failures of one step, with the outcome each report got.\<close>

fun fail_many ::
  "(time \<Rightarrow> json) \<Rightarrow> uuid \<Rightarrow> string \<Rightarrow> (job_step_row \<Rightarrow> nat) \<Rightarrow> (time \<times> time \<times> string) list \<Rightarrow> db
    \<Rightarrow> db \<times> fail_outcome list" where
  "fail_many ts job_id name delay_for [] d = (d, [])"
| "fail_many ts job_id name delay_for ((now, un, err) # rs) d =
     (let (d1, out) = fail_or_retry ts now un job_id name err [] delay_for None d;
          (d2, outs) = fail_many ts job_id name delay_for rs d1
      in (d2, out # outs))"

fun is_retry :: "fail_outcome \<Rightarrow> bool" where
  "is_retry (FRetryScheduled _ _ _) = True"
| "is_retry _ = False"

lemma retry_write_sel [simp]:
  "js_job_id (retry_write ts now err t r) = js_job_id r"
  "js_step_name (retry_write ts now err t r) = js_step_name r"
  "js_status (retry_write ts now err t r) = ''ready''"
  "js_retry_attempt (retry_write ts now err t r) = js_retry_attempt r + 1"
  "js_max_retries (retry_write ts now err t r) = js_max_retries r"
  by (simp_all add: retry_write_def)

lemma fail_write_sel [simp]:
  "js_job_id (fail_write now err r) = js_job_id r" "js_step_name (fail_write now err r) = js_step_name r"
  "js_status (fail_write now err r) = ''failed''"
  "js_retry_attempt (fail_write now err r) = js_retry_attempt r"
  "js_max_retries (fail_write now err r) = js_max_retries r"
  by (simp_all add: fail_write_def)

lemma find_map_key:
  assumes "find P xs = Some r" "\<And>x. P (f x) \<longleftrightarrow> P x"
  shows "find P (map (\<lambda>x. if P x then f x else x) xs) = Some (f r)"
  using assms(1)
proof (induction xs)
  case (Cons x xs)
  show ?case
  proof (cases "P x")
    case True
    then have "x = r" using Cons.prems by simp
    then show ?thesis using True assms(2) by simp
  next
    case False
    then show ?thesis using Cons by simp
  qed
qed simp

lemma select_update_step:
  assumes "select_one (at_step job_id name) (steps d) = Some r" "\<And>x. step_key (f x) = step_key x"
  shows "select_one (at_step job_id name) (steps (fst (update_steps (at_step job_id name) f d))) = Some (f r)"
  unfolding select_one_def update_steps_fst
  by (rule find_map_key) (use assms in \<open>simp_all add: select_one_def\<close>)

lemma fail_retries:
  assumes "select_one (at_step job_id name) (steps d) = Some r" "js_max_retries r = Some mx"
    "js_retry_attempt r < mx"
  shows "\<exists>t n. fail_or_retry ts now un job_id name err [] delay_for None d =
    (fst (update_steps (at_step job_id name) (retry_write ts now err t) d),
     FRetryScheduled (js_retry_attempt r + 1) mx n)"
proof (intro exI)
  show "fail_or_retry ts now un job_id name err [] delay_for None d =
    (fst (update_steps (at_step job_id name)
       (retry_write ts now err (un + seconds (int (delay_for (step_row r))))) d),
     FRetryScheduled (js_retry_attempt r + 1) mx (delay_for (step_row r)))"
    using assms by (simp add: fail_or_retry_def Let_def)
qed

lemma fail_fails:
  assumes "select_one (at_step job_id name) (steps d) = Some r"
    "js_max_retries r = None \<or> (\<exists>mx. js_max_retries r = Some mx \<and> mx \<le> js_retry_attempt r)"
  shows "fail_or_retry ts now un job_id name err [] delay_for None d =
    (fst (update_steps (at_step job_id name) (fail_write now err) d),
     FFailed (js_retry_attempt r) (js_max_retries r))"
  using assms by (auto simp: fail_or_retry_def split: option.splits)

lemma fail_many_count:
  assumes "select_one (at_step job_id name) (steps d) = Some r" "js_max_retries r = Some mx"
  shows "length (filter is_retry (snd (fail_many ts job_id name delay_for rs d))) =
      min (length rs) (nat (mx - js_retry_attempt r)) \<and>
    (\<exists>r'. select_one (at_step job_id name) (steps (fst (fail_many ts job_id name delay_for rs d))) = Some r' \<and>
      js_retry_attempt r' = js_retry_attempt r + int (min (length rs) (nat (mx - js_retry_attempt r))) \<and>
      (rs \<noteq> [] \<longrightarrow> js_status r' = (if int (length rs) \<le> mx - js_retry_attempt r then ''ready'' else ''failed'')))"
  using assms
proof (induction rs arbitrary: d r)
  case Nil
  then show ?case by simp
next
  case (Cons a rs)
  obtain now un err where a: "a = (now, un, err)" by (cases a) auto
  show ?case
  proof (cases "js_retry_attempt r < mx")
    case True
    obtain t n where f: "fail_or_retry ts now un job_id name err [] delay_for None d =
        (fst (update_steps (at_step job_id name) (retry_write ts now err t) d),
         FRetryScheduled (js_retry_attempt r + 1) mx n)"
      using fail_retries [OF Cons.prems True] by blast
    let ?d1 = "fst (update_steps (at_step job_id name) (retry_write ts now err t) d)"
    have s: "select_one (at_step job_id name) (steps ?d1) = Some (retry_write ts now err t r)"
      using Cons.prems(1) by (rule select_update_step) simp
    note IH = Cons.IH [OF s]
    show ?thesis using IH Cons.prems(2) True s by (auto simp: a f case_prod_beta min_def)
  next
    case False
    let ?d1 = "fst (update_steps (at_step job_id name) (fail_write now err) d)"
    have f: "fail_or_retry ts now un job_id name err [] delay_for None d =
        (?d1, FFailed (js_retry_attempt r) (js_max_retries r))"
      using Cons.prems False by (intro fail_fails) auto
    have s: "select_one (at_step job_id name) (steps ?d1) = Some (fail_write now err r)"
      using Cons.prems(1) by (rule select_update_step) simp
    show ?thesis
    proof (cases rs)
      case Nil
      then show ?thesis using Cons.prems(2) False s by (simp add: a f)
    next
      case c: (Cons b bs)
      then have "\<not> int (length rs) \<le> mx - js_retry_attempt r" "rs \<noteq> []" using False by simp_all
      then show ?thesis using Cons.IH [OF s] Cons.prems(2) False by (auto simp: a f case_prod_beta)
    qed
  qed
qed

text \<open>
  C26. The retry budget of a step. Report any number of failures of a step with \<^verbatim>\<open>max_retries = mx\<close>:
  exactly as many retries are scheduled as the budget still holds, never more, the attempt counter
  ends at the number of retries used, and the step ends failed if and only if the reports outnumber
  the retries left.
\<close>

theorem retry_budget:
  assumes "get_step job_id name d = Some row" "js_max_retries row = Some mx" "reports \<noteq> []"
  shows "length (filter is_retry (snd (fail_many ts job_id name delay_for reports d))) =
      min (length reports) (nat (mx - js_retry_attempt row)) \<and>
    (\<exists>row'. get_step job_id name (fst (fail_many ts job_id name delay_for reports d)) = Some row' \<and>
      js_retry_attempt row' = js_retry_attempt row + int (min (length reports) (nat (mx - js_retry_attempt row))) \<and>
      js_status row' = (if int (length reports) \<le> mx - js_retry_attempt row then ''ready'' else ''failed''))"
proof -
  obtain r where r: "select_one (at_step job_id name) (steps d) = Some r" "row = step_row r"
    using assms(1) by (auto simp: get_step_def)
  then have "js_max_retries r = Some mx" using assms(2) by simp
  from fail_many_count [OF r(1) this, of ts delay_for reports]
  show ?thesis using assms(3) by (auto simp: r(2) get_step_def)
qed

definition retry_db :: db where
  "retry_db = \<lparr>jobs = [], steps = [(step_of 1 ''a'' ''running'')\<lparr>js_max_retries := Some 2\<rparr>]\<rparr>"

theorem retry_budget_witness:
  "length (filter is_retry (snd (fail_many (\<lambda>_. Null) 1 ''a'' (\<lambda>_. 30)
     [(1, 1, ''x''), (2, 2, ''y''), (3, 3, ''z'')] retry_db))) = 2"
proof -
  have s: "get_step 1 ''a'' retry_db = Some (step_row ((step_of 1 ''a'' ''running'')\<lparr>js_max_retries := Some 2\<rparr>))"
    by (simp add: get_step_def retry_db_def select_one_def)
  have "js_retry_attempt ((step_of 1 ''a'' ''running'')\<lparr>js_max_retries := Some 2\<rparr>) = 0"
    by (simp add: eval_row)
  then show ?thesis
    using retry_budget [OF s, of 2 "[(1, 1, ''x''), (2, 2, ''y''), (3, 3, ''z'')]" "\<lambda>_. Null" "\<lambda>_. 30"]
    by simp
qed

end
