(* ===== verification/Step_Fencing.thy ===== *)
theory Step_Fencing
  imports Step_Claims
begin

text \<open>
  Fencing: a holder whose claim or lease is gone cannot write. Both mechanisms identify the holder
  by a value stored in the row (the claim's worker and start time, the lease's token) and test it in
  the same statement that writes.
\<close>

section \<open>Lemmas\<close>

lemma step_row_pins [simp]: "js_pin_releases (step_row r) = js_pin_releases r"
  by (simp add: job_step_row.truncate_def)

lemma update_steps_none:
  assumes "\<And>r. r \<in> set (steps d) \<Longrightarrow> \<not> w r"
  shows "update_steps w f d = (d, 0)"
proof -
  have "map (\<lambda>r. if w r then f r else r) (steps d) = steps d" using assms by (intro map_idI) simp
  moreover have "filter w (steps d) = []" using assms by (simp add: filter_empty_conv)
  ultimately show ?thesis by (simp add: update_steps_def sql_update_def)
qed

lemma select_none: "select_one P t = None \<longleftrightarrow> (\<forall>x \<in> set t. \<not> P x)"
  unfolding select_one_def find_None_iff by blast

text \<open>
  A fence: the set of rows one holder may still write. When no row of the table lies in it, every
  write guarded by it is a no-op. The two instances below are claims and leases.
\<close>

locale fence =
  fixes holder :: "'h \<Rightarrow> step_record \<Rightarrow> bool"
    and attempt :: "'h \<Rightarrow> db \<Rightarrow> db"
  assumes attempt_guarded: "(\<And>r. r \<in> set (steps d) \<Longrightarrow> \<not> holder h r) \<Longrightarrow> attempt h d = d"
begin

lemma fenced_off:
  assumes "\<And>r. r \<in> set (steps d) \<Longrightarrow> \<not> holder h r"
  shows "(attempt h ^^ n) d = d"
  by (induction n) (simp_all add: attempt_guarded [OF assms])

end

definition void_claim :: "uuid \<Rightarrow> string \<Rightarrow> claim_identity \<Rightarrow> db \<Rightarrow> bool" where
  "void_claim job_id name claim d \<longleftrightarrow> list_all (\<lambda>r. \<not> is_claim job_id name claim r) (steps d)"

lemma void_release:
  "void_claim job_id name claim d \<Longrightarrow> release_claim now job_id name claim after mx d = (d, RNotApplied)"
proof -
  assume "void_claim job_id name claim d"
  then have "select_one (is_claim job_id name claim) (steps d) = None"
    by (simp add: void_claim_def select_none list_all_iff)
  then show ?thesis by (simp add: release_claim_def split: option.split)
qed

lemma void_fail:
  assumes "void_claim job_id name claim d"
  shows "fail_or_retry ts now un job_id name err [Running] delay_for (Some claim) d = (d, FNotApplied)"
proof (cases "select_one (at_step job_id name) (steps d)")
  case None
  then show ?thesis by (simp add: fail_or_retry_def)
next
  case (Some r)
  then have "r \<in> set (steps d) \<and> at_step job_id name r"
    unfolding select_one_def by (rule find_SomeD)
  then have "\<not> (js_status r = ''running'' \<and> js_worker_id r = Some (ci_worker_id claim) \<and>
      js_started_at r = Some (ci_started_at claim))"
    using assms by (auto simp: void_claim_def list_all_iff is_claim_def sql_eq_def)
  then show ?thesis using Some by (auto simp: fail_or_retry_def)
qed

interpretation claim_fence: fence "\<lambda>(job_id, name, claim). is_claim job_id name claim"
  "\<lambda>(job_id, name, claim) d. fst (release_claim now job_id name claim after mx d)" for now after mx
  by unfold_locales (auto simp: void_claim_def list_all_iff void_release)

interpretation lease_fence: fence "\<lambda>(job_id, name, token). holds_lease job_id name token"
  "\<lambda>(job_id, name, token) d. fst (fail_deferred_tx now job_id name token err d)" for now err
  by unfold_locales (auto simp: fail_deferred_tx_def update_steps_none split: option.split)

lemma release_write_sel [simp]:
  "js_job_id (release_write now a r) = js_job_id r" "js_step_name (release_write now a r) = js_step_name r"
  "js_status (release_write now a r) = ''ready''" "js_worker_id (release_write now a r) = None"
  "js_pin_releases (release_write now a r) = js_pin_releases r + 1"
  "js_retry_attempt (release_write now a r) = js_retry_attempt r"
  "js_retry_history (release_write now a r) = js_retry_history r"
  by (simp_all add: release_write_def)

lemma released_void:
  "void_claim job_id name claim (fst (update_steps (at_step job_id name) (release_write now a) d))"
  unfolding void_claim_def update_steps_fst list.pred_map comp_def
  unfolding list_all_iff is_claim_def by simp blast

lemma cancelled_void:
  "void_claim job_id name claim (fst (cancel_pending_steps_tx t job_id
     (fst (update_steps (at_step job_id name)
        (\<lambda>r. r\<lparr>js_status := ''cancelled'', js_completed_at := Some now\<rparr>) d))))"
  unfolding cancel_pending_steps_tx_def void_claim_def update_steps_fst list.pred_map comp_def
  unfolding list_all_iff is_claim_def by simp blast

lemma cancelled_none_waiting:
  "list_all (\<lambda>r. js_job_id r = job_id \<longrightarrow> js_status r \<notin> {''pending'', ''ready'', ''suspended''})
     (steps (fst (cancel_pending_steps_tx t job_id d)))"
  unfolding cancel_pending_steps_tx_def update_steps_fst list.pred_map comp_def
  unfolding list_all_iff by simp


definition held_db :: db where
  "held_db = \<lparr>jobs = [(test_default_job 1 0)\<lparr>j_status := ''running''\<rparr>],
     steps = [(step_of 1 ''a'' ''running'')\<lparr>js_worker_id := Some 7, js_started_at := Some 5\<rparr>]\<rparr>"


text \<open>
  C29. At most one resolver writes a deferred step. After a resolver has taken the lease, every other
  resolver's renewal, resolution and failure write leave the tables unchanged, and no other
  resolver can take the lease before it expires.
\<close>

theorem lease_exclusive:
  assumes "keyed d" "take_resolve_lease now job_id name t2 lease d = (d', True)" "t1 \<noteq> t2"
    and "now2 \<le> now + lease"
  shows "renew_resolve_lease now2 job_id name t1 lease1 d' = (d', False) \<and>
    (\<exists>o1. resolve_deferred_tx now2 job_id name t1 resolved d' = Inr (d', o1) \<and> o1 \<noteq> Applied) \<and>
    (\<exists>o2. fail_deferred_tx now2 job_id name t1 err d' = (d', o2) \<and> o2 \<noteq> Applied) \<and>
    take_resolve_lease now2 job_id name t1 lease1 d' = (d', False)"
proof -
  let ?w = "\<lambda>r. at_step job_id name r \<and> js_status r = ''ready'' \<and> js_action_type r = ''deferred'' \<and>
    (js_resolve_lease_until r = None \<or> sql_lt (js_resolve_lease_until r) now)"
  let ?f = "\<lambda>r. r\<lparr>js_resolve_lease_owner := Some t2, js_resolve_lease_until := Some (now + lease)\<rparr>"
  from assms(2) have d': "d' = fst (update_steps ?w ?f d)" and n: "length (filter ?w (steps d)) = 1"
    by (simp_all add: take_resolve_lease_def case_prod_beta row_simps prod_eq_iff)
  from n have "filter ?w (steps d) \<noteq> []" by (metis length_0_conv zero_neq_one)
  then obtain r where r: "r \<in> set (steps d)" "?w r" by (auto simp: filter_empty_conv)
  have owned: "js_resolve_lease_owner x = Some t2 \<and> js_resolve_lease_until x = Some (now + lease)"
    if "x \<in> set (steps d')" "at_step job_id name x" for x
  proof -
    from that(1) obtain y where y: "y \<in> set (steps d)" "x = (if ?w y then ?f y else y)"
      unfolding d' update_steps_fst set_map by blast
    then have "step_key y = step_key r" using that(2) r(2) by (auto split: if_splits)
    then have "y = r" using keyed_unique [OF assms(1) y(1) r(1)] by blast
    then show ?thesis using y(2) r(2) by simp
  qed
  have none: "\<not> holds_lease job_id name t1 x" if "x \<in> set (steps d')" for x
    using owned [OF that] assms(3) by (auto simp: holds_lease_def sql_eq_def)
  have "renew_resolve_lease now2 job_id name t1 lease1 d' = (d', False)"
    unfolding renew_resolve_lease_def by (subst update_steps_none) (use none in auto)
  moreover have "\<exists>o1. resolve_deferred_tx now2 job_id name t1 resolved d' = Inr (d', o1) \<and> o1 \<noteq> Applied"
    using update_steps_none [of d' "holds_lease job_id name t1", OF none]
    by (auto simp: resolve_deferred_tx_def deferred_job_gate_def split: option.splits)
  moreover have "\<exists>o2. fail_deferred_tx now2 job_id name t1 err d' = (d', o2) \<and> o2 \<noteq> Applied"
    using update_steps_none [of d' "holds_lease job_id name t1", OF none]
    by (auto simp: fail_deferred_tx_def deferred_job_gate_def split: option.splits)
  moreover have "take_resolve_lease now2 job_id name t1 lease1 d' = (d', False)"
    unfolding take_resolve_lease_def
    by (subst update_steps_none) (use owned assms(4) in \<open>auto simp: sql_lt_def\<close>)
  ultimately show ?thesis by blast
qed

definition deferred_db :: db where
  "deferred_db = \<lparr>jobs = [], steps = [(step_of 1 ''a'' ''ready'')\<lparr>js_action_type := ''deferred''\<rparr>]\<rparr>"

theorem lease_exclusive_witness:
  "snd (take_resolve_lease 5 1 ''a'' 8 100 deferred_db) \<and>
   \<not> snd (take_resolve_lease 50 1 ''a'' 9 100 (fst (take_resolve_lease 5 1 ''a'' 8 100 deferred_db)))"
proof -
  have k: "keyed deferred_db" by (simp add: keyed_def deferred_db_def)
  have s: "snd (take_resolve_lease 5 1 ''a'' 8 100 deferred_db)"
    by (simp add: take_resolve_lease_def deferred_db_def update_steps_def sql_update_def eval_row)
  then have e: "take_resolve_lease 5 1 ''a'' 8 100 deferred_db =
      (fst (take_resolve_lease 5 1 ''a'' 8 100 deferred_db), True)" by (simp add: prod_eq_iff)
  show ?thesis using s lease_exclusive [OF k e, of 9 50 100] by simp
qed

end
