(* ===== verification/File_Field.thy ===== *)
theory File_Field
  imports Workflow_Model
begin

text \<open>
  File inputs (\<^verbatim>\<open>stroem-common/src/file_field.rs\<close>): safe names, file ids, paths and the files attached to
  a job. A \<^verbatim>\<open>BTreeMap\<close> is its sorted association list.
\<close>

section \<open>Definitions\<close>

definition FILE_TYPE :: string where
  "FILE_TYPE = ''file''"

definition CANONICAL_INPUTS_ROOT :: string where
  "CANONICAL_INPUTS_ROOT = ''/inputs''"

definition MAX_SAFE_NAME_BYTES :: nat where
  "MAX_SAFE_NAME_BYTES = 128"

definition MAX_KEPT_EXTENSION_BYTES :: nat where
  "MAX_KEPT_EXTENSION_BYTES = 32"

definition ID_PREFIX :: string where
  "ID_PREFIX = ''file_''"

text \<open>\<^verbatim>\<open>rsplit(['/', '\']).next()\<close>: what follows the last separator.\<close>

definition is_separator :: "char \<Rightarrow> bool" where
  "is_separator c \<longleftrightarrow> c = CHR ''/'' \<or> c = CHR 0x5C"

definition base_name :: "string \<Rightarrow> string" where
  "base_name s = rev (takeWhile (\<lambda>c. \<not> is_separator c) (rev s))"

definition safe_char :: "char \<Rightarrow> bool" where
  "safe_char c \<longleftrightarrow> is_digit c \<or> (65 \<le> byte c \<and> byte c \<le> 90) \<or> (97 \<le> byte c \<and> byte c \<le> 122) \<or>
     c \<in> {CHR ''.'', CHR ''_'', CHR ''-''}"

text \<open>One underscore per unsafe character, however many bytes the character has.\<close>

definition safe_chars :: "string \<Rightarrow> string" where
  "safe_chars s =
     map (\<lambda>c. if safe_char c then c else CHR ''_'') (filter (\<lambda>c. \<not> continuation c) s)"

definition fix_first :: "string \<Rightarrow> string" where
  "fix_first name =
     (case name of
        c # cs \<Rightarrow> if c = CHR ''.'' \<or> c = CHR ''-'' then CHR ''_'' # cs else name
      | [] \<Rightarrow> name)"

definition rfind :: "char \<Rightarrow> string \<Rightarrow> nat option" where
  "rfind c s = map_option (\<lambda>i. length s - Suc i) (str_find c (rev s))"

definition truncate_name :: "string \<Rightarrow> string" where
  "truncate_name name =
     (if length name > MAX_SAFE_NAME_BYTES
      then (case rfind (CHR ''.'') name of
              Some pos \<Rightarrow>
                if pos > 0 \<and> length name - pos \<le> MAX_KEPT_EXTENSION_BYTES
                then let ext = drop pos name in take (MAX_SAFE_NAME_BYTES - length ext) name @ ext
                else take MAX_SAFE_NAME_BYTES name
            | None \<Rightarrow> take MAX_SAFE_NAME_BYTES name)
      else name)"

definition safe_name :: "string \<Rightarrow> string option" where
  "safe_name original =
     (let base = base_name original in
      if base = [] \<or> base = ''.'' \<or> base = ''..'' then None
      else Some (truncate_name (fix_first (safe_chars base))))"

definition is_lower_hex :: "char \<Rightarrow> bool" where
  "is_lower_hex c \<longleftrightarrow> is_digit c \<or> (97 \<le> byte c \<and> byte c \<le> 102)"

definition is_file_id :: "string \<Rightarrow> bool" where
  "is_file_id s =
     (case strip_prefix ID_PREFIX s of
        None \<Rightarrow> False
      | Some hex \<Rightarrow> length hex = 32 \<and> list_all is_lower_hex hex)"

definition file_path :: "string \<Rightarrow> string \<Rightarrow> string \<Rightarrow> string" where
  "file_path root file_id name = root @ ''/'' @ file_id @ ''/'' @ name"

record file_ref =
  fr_file_id :: string
  fr_safe_name :: string

record job_files =
  jf_root :: string
  jf_fields :: "string hashmap"
  jf_files :: "file_ref hashmap"

definition job_files_new :: "string \<Rightarrow> (string \<times> file_ref) list \<Rightarrow> job_files" where
  "job_files_new root attachments =
     \<lparr>jf_root = root,
      jf_fields = foldl (\<lambda>m (field, file). obj_insert field (fr_file_id file) m) [] attachments,
      jf_files = foldl (\<lambda>m (field, file). obj_insert (fr_file_id file) file m) [] attachments\<rparr>"

definition job_files_empty :: job_files where
  "job_files_empty = job_files_new CANONICAL_INPUTS_ROOT []"

definition with_root :: "job_files \<Rightarrow> string \<Rightarrow> job_files" where
  "with_root jf root = jf\<lparr>jf_root := root\<rparr>"

definition files :: "job_files \<Rightarrow> file_ref list" where
  "files jf = vals (jf_files jf)"

definition field_file :: "job_files \<Rightarrow> string \<Rightarrow> file_ref option" where
  "field_file jf field =
     (case map_of (jf_fields jf) field of
        None \<Rightarrow> None
      | Some fid \<Rightarrow> map_of (jf_files jf) fid)"

definition path_of :: "job_files \<Rightarrow> string \<Rightarrow> string option" where
  "path_of jf file_id =
     map_option (\<lambda>f. file_path (jf_root jf) (fr_file_id f) (fr_safe_name f)) (map_of (jf_files jf) file_id)"

definition template_input :: "job_files \<Rightarrow> json \<Rightarrow> json" where
  "template_input jf input =
     (case input of
        Object m \<Rightarrow>
          Object (foldl (\<lambda>out (field, fid).
            if (case map_of out field of Some v \<Rightarrow> as_str v | None \<Rightarrow> None) = Some fid
            then (case path_of jf fid of Some path \<Rightarrow> obj_insert field (String path) out | None \<Rightarrow> out)
            else out) m (jf_fields jf))
      | _ \<Rightarrow> input)"

definition template_prepared :: "job_files \<Rightarrow> json \<Rightarrow> input_field_def hashmap \<Rightarrow> json" where
  "template_prepared jf prepared schema =
     (case prepared of
        Object m \<Rightarrow>
          Object (foldl (\<lambda>out (name, def).
            if if_field_type def \<noteq> FILE_TYPE then out
            else (case (case map_of out name of Some (String fid) \<Rightarrow> path_of jf fid | _ \<Rightarrow> None) of
                    Some path \<Rightarrow> obj_insert name (String path) out
                  | None \<Rightarrow> out)) m schema)
      | _ \<Rightarrow> prepared)"

definition split_once :: "char \<Rightarrow> string \<Rightarrow> (string \<times> string) option" where
  "split_once c s = map_option (\<lambda>i. (take i s, drop (Suc i) s)) (str_find c s)"

text \<open>The attached file whose path under \<open>root\<close> is exactly \<open>value\<close>.\<close>

definition file_under :: "job_files \<Rightarrow> string \<Rightarrow> string \<Rightarrow> file_ref option" where
  "file_under jf root value =
     (case strip_prefix root value of
        None \<Rightarrow> None
      | Some r1 \<Rightarrow> (case strip_prefix ''/'' r1 of
            None \<Rightarrow> None
          | Some rest \<Rightarrow> (case split_once (CHR ''/'') rest of
                None \<Rightarrow> None
              | Some (fid, _) \<Rightarrow> (case map_of (jf_files jf) fid of
                    None \<Rightarrow> None
                  | Some f \<Rightarrow> if file_path root (fr_file_id f) (fr_safe_name f) = value then Some f else None))))"

definition canonical_file :: "job_files \<Rightarrow> string \<Rightarrow> file_ref option" where
  "canonical_file jf value = file_under jf CANONICAL_INPUTS_ROOT value"

fun rebase_canonical :: "job_files \<Rightarrow> json \<Rightarrow> json" where
  "rebase_canonical jf value =
     (if jf_root jf = CANONICAL_INPUTS_ROOT \<or> jf_files jf = [] then value
      else case value of
        String s \<Rightarrow> (case canonical_file jf s of
            Some f \<Rightarrow> String (file_path (jf_root jf) (fr_file_id f) (fr_safe_name f))
          | None \<Rightarrow> value)
      | Array items \<Rightarrow> Array (map (rebase_canonical jf) items)
      | Object m \<Rightarrow> Object (obj_collect (map (\<lambda>e. (fst e, rebase_canonical jf (snd e))) m))
      | _ \<Rightarrow> value)"

declare rebase_canonical.simps [simp del]

definition resolve_target :: "job_files \<Rightarrow> string \<Rightarrow> file_ref option" where
  "resolve_target jf value =
     (case map_of (jf_files jf) value of
        Some f \<Rightarrow> Some f
      | None \<Rightarrow> file_under jf (jf_root jf) value)"

section \<open>Safe names\<close>

lemma base_name_no_separator: "c \<in> set (base_name s) \<Longrightarrow> \<not> is_separator c"
  by (auto simp: base_name_def dest: set_takeWhileD)

lemma safe_char_underscore [simp]: "safe_char (CHR ''_'')"
  by (simp add: safe_char_def)

lemma safe_char_not_continuation: "safe_char c \<Longrightarrow> \<not> continuation c"
  by (auto simp: safe_char_def continuation_def is_digit_def byte_def)

lemma safe_char_not_separator: "safe_char c \<Longrightarrow> \<not> is_separator c"
  by (auto simp: safe_char_def is_separator_def is_digit_def byte_def)

lemma safe_chars_safe: "c \<in> set (safe_chars s) \<Longrightarrow> safe_char c"
  by (auto simp: safe_chars_def)

lemma safe_chars_id: "list_all safe_char s \<Longrightarrow> safe_chars s = s"
proof -
  assume s: "list_all safe_char s"
  then have "filter (\<lambda>c. \<not> continuation c) s = s"
    by (auto simp: filter_id_conv list_all_iff safe_char_not_continuation)
  moreover have "map (\<lambda>c. if safe_char c then c else CHR ''_'') s = s"
    using s by (intro map_idI) (auto simp: list_all_iff)
  ultimately show ?thesis by (simp add: safe_chars_def)
qed

definition safe :: "string \<Rightarrow> bool" where
  "safe s \<longleftrightarrow> s \<noteq> [] \<and> list_all safe_char s \<and> hd s \<noteq> CHR ''.'' \<and> hd s \<noteq> CHR ''-''"

lemma fix_first_safe: "list_all safe_char s \<Longrightarrow> s \<noteq> [] \<Longrightarrow> safe (fix_first s)"
  by (cases s) (auto simp: fix_first_def safe_def)

lemma fix_first_id: "safe s \<Longrightarrow> fix_first s = s"
  by (cases s) (auto simp: fix_first_def safe_def)

lemma rfind_Some:
  assumes "rfind c s = Some pos"
  shows "pos < length s \<and> s ! pos = c \<and> c \<notin> set (drop (Suc pos) s)"
proof -
  obtain i where i: "str_find c (rev s) = Some i" "pos = length s - Suc i"
    using assms by (auto simp: rfind_def)
  have f: "i < length s" "rev s ! i = c" "c \<notin> set (take i (rev s))"
    using str_find_Some [OF i(1)] by simp_all
  have "set (take i (rev s)) = set (drop (length s - i) s)" by (simp add: take_rev)
  moreover have "length s - i = Suc pos" using f(1) i(2) by simp
  ultimately show ?thesis using f i(2) by (auto simp: rev_nth)
qed

lemma base_name_split: "\<exists>p. s = p @ base_name s \<and> (p = [] \<or> is_separator (last p))"
proof -
  let ?P = "\<lambda>c. \<not> is_separator c"
  have "rev s = takeWhile ?P (rev s) @ dropWhile ?P (rev s)" by simp
  then have s: "s = rev (dropWhile ?P (rev s)) @ base_name s"
    unfolding base_name_def by (metis rev_append rev_rev_ident)
  have "rev (dropWhile ?P (rev s)) = [] \<or> is_separator (last (rev (dropWhile ?P (rev s))))"
    using hd_dropWhile [of ?P "rev s"] by (auto simp: last_rev)
  with s show ?thesis by blast
qed

lemma base_name_starts_char:
  assumes "utf8 s" "base_name s \<noteq> []"
  shows "\<not> continuation (hd (base_name s))"
proof
  assume c: "continuation (hd (base_name s))"
  obtain p where p: "s = p @ base_name s" "p = [] \<or> is_separator (last p)" using base_name_split by blast
  let ?k = "length p"
  have k: "?k < length s" "s ! ?k = hd (base_name s)"
    using arg_cong [OF p(1), of length] assms(2) by (auto simp: hd_conv_nth) (metis nth_append_length_plus p(1) add.right_neutral)
  obtain j where j: "j < ?k" "\<not> continuation (s ! j)" "?k < j + len_utf8 (s ! j)"
    using utf8_continuation [OF assms(1) k(1)] c k(2) by auto
  then have "p \<noteq> []" by auto
  then have sep: "is_separator (s ! (?k - 1))"
    using p by (metis last_conv_nth length_greater_0_conv nth_append diff_less zero_less_one)
  show False
  proof (cases "j = ?k - 1")
    case True
    then have "len_utf8 (s ! j) = 1" using sep by (auto simp: is_separator_def len_utf8_def byte_def)
    then show False using j by simp
  next
    case False
    then have "continuation (s ! (?k - 1))"
      using utf8_lead [OF assms(1) _ j(2), of "?k - 1"] j k(1) by simp
    then show False using sep by (auto simp: is_separator_def continuation_def byte_def)
  qed
qed

lemma safe_chars_nonempty:
  "s \<noteq> [] \<Longrightarrow> \<not> continuation (hd s) \<Longrightarrow> safe_chars s \<noteq> []"
  by (cases s) (auto simp: safe_chars_def)

lemma truncate_safe:
  assumes "safe s"
  shows "safe (truncate_name s) \<and> length (truncate_name s) \<le> MAX_SAFE_NAME_BYTES"
proof (cases "length s > MAX_SAFE_NAME_BYTES")
  case False
  then show ?thesis using assms by (simp add: truncate_name_def)
next
  case long: True
  have cut: "safe (take n s)" if "0 < n" for n
    using assms that set_take_subset [of n s] by (auto simp: safe_def list_all_iff)
  have plain: ?thesis if "truncate_name s = take MAX_SAFE_NAME_BYTES s"
    using that cut by (simp add: MAX_SAFE_NAME_BYTES_def)
  show ?thesis
  proof (cases "\<exists>pos. rfind (CHR ''.'') s = Some pos \<and> pos > 0 \<and> length s - pos \<le> MAX_KEPT_EXTENSION_BYTES")
    case True
    then obtain pos where pos: "rfind (CHR ''.'') s = Some pos" "pos > 0"
        "length s - pos \<le> MAX_KEPT_EXTENSION_BYTES" by blast
    let ?n = "MAX_SAFE_NAME_BYTES - (length s - pos)"
    have t: "truncate_name s = take ?n s @ drop pos s"
      using long pos by (simp add: truncate_name_def Let_def)
    have n: "0 < ?n" using pos(3) by (simp add: MAX_SAFE_NAME_BYTES_def MAX_KEPT_EXTENSION_BYTES_def)
    have "safe (take ?n s)" by (rule cut [OF n])
    moreover have "list_all safe_char (drop pos s)"
      using assms set_drop_subset [of pos s] by (auto simp: safe_def list_all_iff)
    ultimately have "safe (truncate_name s)" unfolding t by (auto simp: safe_def list_all_iff)
    moreover have "length (truncate_name s) \<le> MAX_SAFE_NAME_BYTES"
      unfolding t using long pos(3) by (simp add: MAX_SAFE_NAME_BYTES_def MAX_KEPT_EXTENSION_BYTES_def)
    ultimately show ?thesis ..
  next
    case False
    then show ?thesis using long by (intro plain) (auto simp: truncate_name_def split: option.splits)
  qed
qed

lemma base_name_safe: "list_all safe_char s \<Longrightarrow> base_name s = s"
proof -
  assume "list_all safe_char s"
  then have t: "takeWhile (\<lambda>c. \<not> is_separator c) (rev s) = rev s"
    by (intro takeWhile_eq_all_conv [THEN iffD2]) (auto simp: list_all_iff safe_char_not_separator)
  show ?thesis unfolding base_name_def t by simp
qed

section \<open>Paths of attached files\<close>

lemma foldl_insert_files:
  assumes "map_of (foldl (\<lambda>m (field, file). obj_insert (fr_file_id file) file m) m0 atts) fid = Some f"
    and "map_of m0 fid = Some f \<Longrightarrow> P f" "\<And>field file. (field, file) \<in> set atts \<Longrightarrow> fr_file_id file = fid \<Longrightarrow> P file"
  shows "P f"
  using assms
proof (induction atts arbitrary: m0)
  case Nil
  then show ?case by simp
next
  case (Cons a atts)
  obtain field fl where a: "a = (field, fl)" by (cases a) auto
  show ?case
  proof (rule Cons.IH)
    show "map_of (foldl (\<lambda>m (field, file). obj_insert (fr_file_id file) file m)
        (obj_insert (fr_file_id fl) fl m0) atts) fid = Some f"
      using Cons.prems(1) by (simp add: a)
    show "P f" if "map_of (obj_insert (fr_file_id fl) fl m0) fid = Some f"
      using that Cons.prems(2,3) a by (auto split: if_splits)
  qed (use Cons.prems(3) in auto)
qed

lemma attached_ids:
  assumes "map_of (jf_files (job_files_new root atts)) fid = Some f"
    and "list_all (\<lambda>(field, file). is_file_id (fr_file_id file)) atts"
  shows "fr_file_id f = fid \<and> is_file_id fid"
  using assms(1) unfolding job_files_new_def job_files.simps
  by (rule foldl_insert_files [where P = "\<lambda>f. fr_file_id f = fid \<and> is_file_id fid"])
     (use assms(2) in \<open>auto simp: list_all_iff\<close>)

lemma file_id_no_slash: "is_file_id s \<Longrightarrow> CHR ''/'' \<notin> set s"
  by (auto simp: is_file_id_def ID_PREFIX_def strip_prefix_Some list_all_iff is_lower_hex_def is_digit_def
      byte_def split: option.splits)

lemma file_under_path:
  assumes "map_of (jf_files jf) fid = Some f" "fr_file_id f = fid" "is_file_id fid"
  shows "file_under jf root (file_path root fid (fr_safe_name f)) = Some f"
proof -
  have "split_once (CHR ''/'') (fid @ ''/'' @ fr_safe_name f) = Some (fid, fr_safe_name f)"
    using str_find_append [OF file_id_no_slash [OF assms(3)]] by (simp add: split_once_def)
  then show ?thesis using assms(1,2) by (simp add: file_under_def file_path_def)
qed

section \<open>Properties\<close>

text \<open>
  A safe name is a single harmless path component. For every uploaded name that yields one, the
  result is not empty, at most 128 bytes long, made of letters, digits, dots, underscores and hyphens,
  does not start with a dot or a hyphen, and reducing it again gives the same name.
\<close>

theorem safe_name_is_safe:
  assumes "utf8 original" "safe_name original = Some name"
  shows "name \<noteq> [] \<and> length name \<le> MAX_SAFE_NAME_BYTES \<and> list_all safe_char name \<and>
    hd name \<noteq> CHR ''.'' \<and> hd name \<noteq> CHR ''-'' \<and> safe_name name = Some name"
proof -
  let ?b = "base_name original"
  have b: "?b \<noteq> []" and name: "name = truncate_name (fix_first (safe_chars ?b))"
    using assms(2) by (auto simp: safe_name_def Let_def split: if_splits)
  have "safe_chars ?b \<noteq> []"
    using safe_chars_nonempty b base_name_starts_char assms(1) by blast
  then have "safe (fix_first (safe_chars ?b))"
    using safe_chars_safe by (intro fix_first_safe) (auto simp: list_all_iff)
  from truncate_safe [OF this] have s: "safe name" "length name \<le> MAX_SAFE_NAME_BYTES"
    by (simp_all add: name)
  then have "base_name name = name" "safe_chars name = name" "fix_first name = name"
    by (simp_all add: safe_def base_name_safe safe_chars_id fix_first_id)
  moreover have "name \<noteq> ''.''" "name \<noteq> ''..''" using s(1) by (auto simp: safe_def)
  moreover have "truncate_name name = name" using s(2) by (simp add: truncate_name_def)
  ultimately show ?thesis using s by (simp add: safe_name_def safe_def)
qed

theorem safe_name_is_safe_witness:
  "safe_name ''../etc/.pass wd'' = Some ''_pass_wd'' \<and> safe_name ''_pass_wd'' = Some ''_pass_wd''"
proof -
  have u: "utf8 ''../etc/.pass wd''" by code_simp
  have e: "safe_name ''../etc/.pass wd'' = Some ''_pass_wd''" by code_simp
  show ?thesis using e safe_name_is_safe [OF u e] by simp
qed

text \<open>
  Attached files resolve to themselves. In the files of a job, an attached id and the path the
  templates show for it both name that very file, and a stored canonical path moves to the job's
  current root as exactly that path.
\<close>

theorem attached_file_resolves:
  assumes "jf = job_files_new root atts" "list_all (\<lambda>(field, file). is_file_id (fr_file_id file)) atts"
    and "map_of (jf_files jf) fid = Some f"
  shows "\<exists>p. path_of jf fid = Some p \<and> resolve_target jf p = Some f \<and> resolve_target jf fid = Some f \<and>
    rebase_canonical jf (String (file_path CANONICAL_INPUTS_ROOT fid (fr_safe_name f))) = String p"
proof -
  have f: "fr_file_id f = fid" "is_file_id fid" using attached_ids assms by blast+
  let ?p = "file_path (jf_root jf) fid (fr_safe_name f)"
  have p: "path_of jf fid = Some ?p" using assms(3) f by (simp add: path_of_def)
  have "map_of (jf_files jf) ?p = None"
  proof (rule ccontr)
    assume "map_of (jf_files jf) ?p \<noteq> None"
    then obtain g where "map_of (jf_files jf) ?p = Some g" by blast
    then have "is_file_id ?p" using attached_ids assms(1,2) by blast
    then show False using file_id_no_slash by (force simp: file_path_def)
  qed
  then have "resolve_target jf ?p = Some f"
    using file_under_path [OF assms(3) f] by (simp add: resolve_target_def)
  moreover have "resolve_target jf fid = Some f" using assms(3) by (simp add: resolve_target_def)
  moreover have "rebase_canonical jf (String (file_path CANONICAL_INPUTS_ROOT fid (fr_safe_name f))) = String ?p"
  proof -
    have "jf_files jf \<noteq> []" using assms(3) by auto
    then show ?thesis using file_under_path [OF assms(3) f] f
      by (simp add: rebase_canonical.simps [of jf "String s" for s] canonical_file_def)
  qed
  ultimately show ?thesis using p by blast
qed

definition report_file :: file_ref where
  "report_file = \<lparr>fr_file_id = ''file_0123456789abcdef0123456789abcdef'', fr_safe_name = ''report.csv''\<rparr>"

theorem attached_file_resolves_witness:
  "resolve_target (job_files_new ''/work'' [(''data'', report_file)])
     ''/work/file_0123456789abcdef0123456789abcdef/report.csv'' = Some report_file"
proof -
  have i: "list_all (\<lambda>(field, file). is_file_id (fr_file_id file)) [(''data'', report_file)]" by code_simp
  have m: "map_of (jf_files (job_files_new ''/work'' [(''data'', report_file)])) (fr_file_id report_file)
      = Some report_file" by (simp add: job_files_new_def)
  have "path_of (job_files_new ''/work'' [(''data'', report_file)]) (fr_file_id report_file) =
      Some ''/work/file_0123456789abcdef0123456789abcdef/report.csv''" by code_simp
  then show ?thesis using attached_file_resolves [OF refl i m] by auto
qed

end
