(* ===== verification/Render_Context.thy ===== *)
theory Render_Context
  imports File_Field Db_Rows
begin

text \<open>
  The context templates are rendered in (\<^verbatim>\<open>stroem-server/src/render_context.rs\<close>): which variables each
  field may see, in which order they are laid, and what they show of other steps. The lookup of the
  state snapshots (\<^verbatim>\<open>latest_snapshots\<close>) is database access and is not modelled; its result is the
  argument \<open>jc_snapshots\<close>.
\<close>

section \<open>Definitions\<close>

definition FRAMEWORK_KEYS :: "string list" where
  "FRAMEWORK_KEYS = [''input'', ''secret'', ''state'', ''global_state'', ''job'', ''each'']"

definition TERA_KEYWORDS :: "string list" where
  "TERA_KEYWORDS =
     [''none'', ''None'', ''null'', ''self'', ''loop'', ''break'', ''continue'', ''true'', ''True'',
      ''false'', ''False'', ''and'', ''or'', ''not'', ''is'', ''in'', ''if'', ''else'']"

record state_snapshot =
  sn_id :: uuid
  sn_storage_key :: string
  sn_has_json :: bool
  sn_json :: "json option"

record snapshots =
  ss_task :: "state_snapshot option"
  ss_global :: "state_snapshot option"
  ss_files :: job_files

definition default_snapshots :: snapshots where
  "default_snapshots = \<lparr>ss_task = None, ss_global = None, ss_files = job_files_empty\<rparr>"

record step_view =
  sv_step_name :: string
  sv_status :: string
  sv_output :: "json option"
  sv_error_message :: "string option"
  sv_loop_source :: "string option"
  sv_is_placeholder :: bool

definition step_view_of :: "job_step_row \<Rightarrow> step_view" where
  "step_view_of r =
     \<lparr>sv_step_name = js_step_name r, sv_status = js_status r, sv_output = js_output r,
      sv_error_message = js_error_message r, sv_loop_source = js_loop_source r,
      sv_is_placeholder = (js_for_each_expr r \<noteq> None)\<rparr>"

definition views :: "job_step_row list \<Rightarrow> step_view list" where
  "views rows = map step_view_of rows"

record loop_slot =
  ls_item :: json
  ls_index :: int
  ls_total :: "int option"

definition loop_slot_of :: "job_step_row \<Rightarrow> loop_slot option" where
  "loop_slot_of row =
     (case (js_loop_item row, js_loop_index row) of
        (Some item, Some i) \<Rightarrow> Some \<lparr>ls_item = item, ls_index = i, ls_total = js_loop_total row\<rparr>
      | _ \<Rightarrow> None)"

record job_ctx =
  jc_job_id :: uuid
  jc_job_input :: "json option"
  jc_caller_secrets :: "json hashmap"
  jc_owner_secrets :: "json hashmap"
  jc_snapshots :: snapshots
  jc_job_revision :: "string option"
  jc_job_ref :: "string option"

datatype scope =
  StepInput
| ActionBody "json option" "input_field_def hashmap option"
| AgentPrompt
| Condition_scope
| ChildTaskInput
| ApprovalMessage "json option"
| StepRef
| TaskActionRef json

record collision =
  co_step :: string
  co_key :: string

record render_context =
  rx_value :: json
  rx_collisions :: "collision list"

definition quote_str :: "string \<Rightarrow> string" where
  "quote_str s = [CHR 0x27] @ s @ [CHR 0x27]"

definition log_lines :: "render_context \<Rightarrow> string list" where
  "log_lines rx =
     map (\<lambda>c. if co_key c \<in> set TERA_KEYWORDS
              then ''[render] step '' @ quote_str (co_step c) @
                '' is a Tera keyword and cannot be referenced in templates''
              else ''[render] step '' @ quote_str (co_step c) @ '' shadows template variable '' @
                quote_str (co_key c)) (rx_collisions rx)"

definition str_or_null :: "string option \<Rightarrow> json" where
  "str_or_null s = (case s of Some t \<Rightarrow> String t | None \<Rightarrow> Null)"

definition int_json :: "int \<Rightarrow> json" where
  "int_json i = Number (if i < 0 then NegInt i else PosInt (nat i))"

definition job_context :: "string option \<Rightarrow> string option \<Rightarrow> json" where
  "job_context revision git_ref =
     json_obj [(''revision'', str_or_null revision), (''ref'', str_or_null git_ref)]"

fun upsert :: "'v hashmap \<Rightarrow> string \<Rightarrow> 'v \<Rightarrow> 'v hashmap" where
  "upsert [] key value = [(key, value)]"
| "upsert ((k, v) # entries) key value =
     (if k = key then (k, value) # entries else (k, v) # upsert entries key value)"

text \<open>What one step shows: nothing, or its entry.\<close>

definition step_entry :: "step_view \<Rightarrow> json option" where
  "step_entry s =
     (if sv_loop_source s \<noteq> None then None
      else if sv_status s = step_status_str Completed
      then Some (json_obj [(''output'', case sv_output s of Some v \<Rightarrow> v | None \<Rightarrow> Null)])
      else if sv_status s = step_status_str Skipped \<or> sv_status s = step_status_str Suspended
      then Some (json_obj [(''output'', Null)])
      else if sv_status s = step_status_str Failed
      then let out = (if sv_is_placeholder s then (case sv_output s of Some v \<Rightarrow> v | None \<Rightarrow> Null) else Null)
           in Some (json_obj ([(''output'', out)] @
                (case sv_error_message s of Some err \<Rightarrow> [(''error'', String err)] | None \<Rightarrow> [])))
      else None)"

definition sanitize_name :: "string \<Rightarrow> string" where
  "sanitize_name name = map (\<lambda>c. if c = CHR ''-'' then CHR ''_'' else c) name"

definition name_collisions :: "string \<Rightarrow> collision list" where
  "name_collisions step =
     (let name = sanitize_name step in
       (if name \<in> set FRAMEWORK_KEYS then [\<lparr>co_step = step, co_key = name\<rparr>] else []) @
       (if name \<in> set TERA_KEYWORDS then [\<lparr>co_step = step, co_key = name\<rparr>] else []))"

fun add_steps :: "step_view list \<Rightarrow> json hashmap \<times> collision list \<Rightarrow> json hashmap \<times> collision list" where
  "add_steps [] acc = acc"
| "add_steps (s # ss) (ctx, collisions) =
     (case step_entry s of
        None \<Rightarrow> add_steps ss (ctx, collisions)
      | Some entry \<Rightarrow>
          add_steps ss (upsert ctx (sanitize_name (sv_step_name s)) entry,
            collisions @ name_collisions (sv_step_name s)))"

definition scope_input :: "job_ctx \<Rightarrow> scope \<Rightarrow> json option" where
  "scope_input job scope =
     (let fs = ss_files (jc_snapshots job);
          job_input = map_option (template_input fs) (jc_job_input job) in
      case scope of
        ActionBody prepared schema \<Rightarrow>
          map_option (\<lambda>v. case schema of Some sch \<Rightarrow> template_prepared fs v sch | None \<Rightarrow> v) prepared
      | _ \<Rightarrow> job_input)"

definition scope_secrets :: "job_ctx \<Rightarrow> scope \<Rightarrow> json hashmap option" where
  "scope_secrets job scope =
     (case scope of
        ActionBody _ _ \<Rightarrow> Some (jc_owner_secrets job)
      | StepRef \<Rightarrow> None
      | TaskActionRef _ \<Rightarrow> None
      | _ \<Rightarrow> Some (jc_caller_secrets job))"

definition snapshot_json :: "state_snapshot option \<Rightarrow> json" where
  "snapshot_json s = (case Option.bind s sn_json of Some v \<Rightarrow> v | None \<Rightarrow> Null)"

definition build_entries ::
  "job_ctx \<Rightarrow> step_view list \<Rightarrow> loop_slot option \<Rightarrow> scope \<Rightarrow> json hashmap \<times> collision list" where
  "build_entries job svs slot scope =
     (let fs = ss_files (jc_snapshots job); jc = job_context (jc_job_revision job) (jc_job_ref job) in
      case scope of
        TaskActionRef ref_input \<Rightarrow> (upsert (upsert [] ''input'' (template_input fs ref_input)) ''job'' jc, [])
      | _ \<Rightarrow>
        let ctx1 = (case scope_input job scope of Some v \<Rightarrow> upsert [] ''input'' v | None \<Rightarrow> []);
            ctx2 = (case scope_secrets job scope of
                      Some secrets \<Rightarrow> upsert ctx1 ''secret'' (json_obj secrets)
                    | None \<Rightarrow> ctx1);
            ctx3 = upsert ctx2 ''state'' (snapshot_json (ss_task (jc_snapshots job)));
            ctx4 = upsert ctx3 ''global_state'' (snapshot_json (ss_global (jc_snapshots job)));
            ctx5 = upsert ctx4 ''job'' jc;
            (ctx6, collisions) = add_steps svs (ctx5, []);
            ctx7 = (if scope \<noteq> Condition_scope
                    then (case slot of
                            Some sl \<Rightarrow> upsert ctx6 ''each''
                              (json_obj [(''item'', rebase_canonical fs (ls_item sl)),
                                (''index'', int_json (ls_index sl)),
                                (''total'', case ls_total sl of Some t \<Rightarrow> int_json t | None \<Rightarrow> Null)])
                          | None \<Rightarrow> ctx6)
                    else ctx6);
            ctx8 = (case scope of
                      ApprovalMessage (Some v) \<Rightarrow>
                        (case as_object v of
                           Some m \<Rightarrow> if m \<noteq> [] then upsert ctx7 ''input'' v else ctx7
                         | None \<Rightarrow> ctx7)
                    | _ \<Rightarrow> ctx7)
        in (ctx8, collisions))"

definition build :: "job_ctx \<Rightarrow> step_view list \<Rightarrow> loop_slot option \<Rightarrow> scope \<Rightarrow> render_context" where
  "build job svs slot scope =
     (let (entries, collisions) = build_entries job svs slot scope in
      \<lparr>rx_value = json_obj entries, rx_collisions = collisions\<rparr>)"

definition webhook_ref :: "json \<Rightarrow> render_context" where
  "webhook_ref input = \<lparr>rx_value = json_obj [(''input'', input)], rx_collisions = []\<rparr>"

section \<open>Lemmas\<close>

lemma map_of_upsert [simp]: "map_of (upsert m k v) = (map_of m)(k \<mapsto> v)"
  by (induction m k v rule: upsert.induct) auto

lemma map_of_obj_collect: "distinct (map fst es) \<Longrightarrow> map_of (obj_collect es) = map_of es"
proof -
  have "map_of (foldl (\<lambda>m (k, v). obj_insert k v m) m0 es) = map_of m0 ++ map_of es"
    if "distinct (map fst es)" for m0 :: "(string \<times> json) list"
    using that
  proof (induction es arbitrary: m0)
    case (Cons e es)
    obtain k v where e: "e = (k, v)" by (cases e) auto
    have "map_of es k = None" using Cons.prems by (auto simp: e map_of_eq_None_iff)
    then show ?case using Cons by (auto simp: e fun_eq_iff map_add_def split: option.splits)
  qed simp
  from this [of "[]"] show "distinct (map fst es) \<Longrightarrow> map_of (obj_collect es) = map_of es"
    by (simp add: obj_collect_def)
qed

lemma add_steps_cong:
  "map (\<lambda>s. (sv_step_name s, step_entry s)) ss = map (\<lambda>s. (sv_step_name s, step_entry s)) ss' \<Longrightarrow>
   add_steps ss acc = add_steps ss' acc"
proof (induction ss arbitrary: ss' acc)
  case Nil
  then show ?case by simp
next
  case (Cons s ss)
  then obtain s' rest where "ss' = s' # rest" "sv_step_name s' = sv_step_name s" "step_entry s' = step_entry s"
    "map (\<lambda>s. (sv_step_name s, step_entry s)) ss = map (\<lambda>s. (sv_step_name s, step_entry s)) rest"
    by (cases ss') auto
  then show ?case using Cons.IH by (cases acc) (auto split: option.split)
qed

text \<open>A context depends on the step views only through the entries they show.\<close>

lemma build_entries_steps_cong:
  "map (\<lambda>s. (sv_step_name s, step_entry s)) ss = map (\<lambda>s. (sv_step_name s, step_entry s)) ss' \<Longrightarrow>
   build_entries job ss slot scope = build_entries job ss' slot scope"
proof -
  assume "map (\<lambda>s. (sv_step_name s, step_entry s)) ss = map (\<lambda>s. (sv_step_name s, step_entry s)) ss'"
  then have "add_steps ss = add_steps ss'" by (intro ext add_steps_cong)
  then show ?thesis by (simp only: build_entries_def)
qed

lemma add_steps_fresh:
  "k \<notin> (\<lambda>s. sanitize_name (sv_step_name s)) ` set ss \<Longrightarrow> map_of (fst (add_steps ss (ctx, cs))) k = map_of ctx k"
proof (induction ss arbitrary: ctx cs)
  case (Cons s ss)
  then show ?case by (auto split: option.split)
qed simp

section \<open>Properties\<close>

text \<open>
  C32. Secrets reach only the fields that may see them. The contexts of a templated \<^verbatim>\<open>ref:\<close> do not
  depend on any secret; an action body depends on the secrets of the action's owner and not on
  those of the caller; every other field depends on the caller's and not on the owner's.
\<close>

theorem secrets_noninterference:
  "build (job\<lparr>jc_caller_secrets := c, jc_owner_secrets := w\<rparr>) svs slot StepRef = build job svs slot StepRef \<and>
   build (job\<lparr>jc_caller_secrets := c, jc_owner_secrets := w\<rparr>) svs slot (TaskActionRef v) =
     build job svs slot (TaskActionRef v) \<and>
   build (job\<lparr>jc_caller_secrets := c\<rparr>) svs slot (ActionBody p sch) = build job svs slot (ActionBody p sch) \<and>
   build (job\<lparr>jc_owner_secrets := w\<rparr>) svs slot StepInput = build job svs slot StepInput \<and>
   build (job\<lparr>jc_owner_secrets := w\<rparr>) svs slot AgentPrompt = build job svs slot AgentPrompt \<and>
   build (job\<lparr>jc_owner_secrets := w\<rparr>) svs slot Condition_scope = build job svs slot Condition_scope \<and>
   build (job\<lparr>jc_owner_secrets := w\<rparr>) svs slot ChildTaskInput = build job svs slot ChildTaskInput \<and>
   build (job\<lparr>jc_owner_secrets := w\<rparr>) svs slot (ApprovalMessage m) = build job svs slot (ApprovalMessage m)"
  by (simp add: build_def build_entries_def scope_input_def scope_secrets_def Let_def)

text \<open>
  The output of a step that failed on its own is not visible. Replacing the stored output of
  failed steps that are not loop placeholders by anything else changes no context of any field; the
  same holds for skipped, suspended, unfinished and loop-instance rows.
\<close>

definition output_hidden :: "job_step_row \<Rightarrow> bool" where
  "output_hidden r \<longleftrightarrow> js_loop_source r \<noteq> None \<or> js_status r \<noteq> ''completed'' \<and>
     (js_status r = ''failed'' \<longrightarrow> js_for_each_expr r = None)"

lemma hidden_entry:
  "output_hidden r \<Longrightarrow> step_entry (step_view_of (r\<lparr>js_output := out\<rparr>)) = step_entry (step_view_of r)"
  by (auto simp: step_entry_def step_view_of_def output_hidden_def)

theorem failed_output_masked:
  "build job (views (map (\<lambda>r. if output_hidden r then r\<lparr>js_output := other r\<rparr> else r) rows)) slot scope =
   build job (views rows) slot scope"
proof -
  have "map (\<lambda>s. (sv_step_name s, step_entry s)) (views (map (\<lambda>r. if output_hidden r then r\<lparr>js_output := other r\<rparr> else r) rows))
      = map (\<lambda>s. (sv_step_name s, step_entry s)) (views rows)"
    unfolding views_def map_map comp_def
    by (rule map_cong [OF refl]) (simp add: hidden_entry, simp add: step_view_of_def)
  from build_entries_steps_cong [OF this] show ?thesis by (simp add: build_def)
qed

end
