(* ===== verification/Template_Eval.thy ===== *)
theory Template_Eval
  imports Json_Value
begin

text \<open>
  \<^verbatim>\<open>when:\<close> conditions (\<^verbatim>\<open>stroem-common/src/template.rs\<close>). Rendering itself is the Tera engine, a parameter:
  \<open>render template context\<close> gives the rendered text or the error text \<^verbatim>\<open>{:#}\<close> prints. What the code
  makes of the rendered text is modelled exactly, including which decimal numerals parse to a
  floating point zero.
\<close>

type_synonym renderer = "string \<Rightarrow> json \<Rightarrow> string + string"

section \<open>Definitions\<close>

text \<open>
  \<^verbatim>\<open>str::to_lowercase\<close> is only compared with ASCII words made of letters that no other character
  lower-cases to, so lower-casing the ASCII letters decides the same.
\<close>

definition ascii_lower :: "char \<Rightarrow> char" where
  "ascii_lower c = (if 65 \<le> byte c \<and> byte c \<le> 90 then char_of (byte c + 32) else c)"

text \<open>
  \<^verbatim>\<open>s.parse::<f64>()\<close> and \<^verbatim>\<open>== 0.0\<close>: a sign, digits with an optional point and at least one digit, an
  optional exponent. The nearest double is a zero when the value is zero or at most half of the
  smallest positive double, \<open>2 powr -1074\<close> (ties go to even).
\<close>

definition strip_sign :: "string \<Rightarrow> bool \<times> string" where
  "strip_sign s =
     (case s of
        c # cs \<Rightarrow> if c = CHR ''-'' then (True, cs) else if c = CHR ''+'' then (False, cs) else (False, s)
      | [] \<Rightarrow> (False, s))"

definition parse_exponent :: "string \<Rightarrow> int option" where
  "parse_exponent s =
     (case s of
        [] \<Rightarrow> Some 0
      | c # cs \<Rightarrow>
          if c \<noteq> CHR ''e'' \<and> c \<noteq> CHR ''E'' then None
          else let (neg, ds) = strip_sign cs in
            if ds \<noteq> [] \<and> list_all is_digit ds
            then Some (if neg then - int (nat_of_digits ds) else int (nat_of_digits ds))
            else None)"

definition parse_decimal :: "string \<Rightarrow> (nat \<times> int) option" where
  "parse_decimal s =
     (let body = snd (strip_sign s);
          whole = takeWhile is_digit body;
          rest = dropWhile is_digit body;
          frac = (case rest of c # cs \<Rightarrow> if c = CHR ''.'' then takeWhile is_digit cs else [] | [] \<Rightarrow> []);
          tail = (case rest of c # cs \<Rightarrow> if c = CHR ''.'' then dropWhile is_digit cs else rest | [] \<Rightarrow> [])
      in if whole = [] \<and> frac = [] then None
         else map_option (\<lambda>e. (nat_of_digits (whole @ frac), e - int (length frac))) (parse_exponent tail))"

definition is_float_zero :: "string \<Rightarrow> bool" where
  "is_float_zero s =
     (case parse_decimal s of
        None \<Rightarrow> False
      | Some (m, e) \<Rightarrow> m = 0 \<or> (e < 0 \<and> m * 2 ^ 1075 \<le> 10 ^ nat (- e)))"

definition condition_text :: "string \<Rightarrow> bool" where
  "condition_text rendered =
     (let trimmed = trim rendered; lower = map ascii_lower trimmed in
      if lower \<in> {[], ''false'', ''null'', ''none'', ''[]'', ''{}''} then False
      else if is_float_zero trimmed then False
      else True)"

definition evaluate_condition :: "renderer \<Rightarrow> string \<Rightarrow> json \<Rightarrow> string + bool" where
  "evaluate_condition render template context =
     (case render template context of
        Inl e \<Rightarrow> Inl e
      | Inr rendered \<Rightarrow> Inr (condition_text rendered))"

section \<open>Lemmas\<close>

lemma dropWhile_all: "list_all P xs \<Longrightarrow> dropWhile P xs = []" "list_all P xs \<Longrightarrow> takeWhile P xs = xs"
  by (simp_all add: list_all_iff)

text \<open>The printed form of an integer is false exactly when the integer is zero.\<close>

lemma parse_decimal_digits:
  assumes "ds \<noteq> []" "list_all is_digit ds"
  shows "parse_decimal ds = Some (nat_of_digits ds, 0)"
proof -
  obtain c cs where ds: "ds = c # cs" using assms(1) by (cases ds) auto
  then have "is_digit c" using assms(2) by simp
  then have "strip_sign ds = (False, ds)"
    by (auto simp: strip_sign_def ds is_digit_def byte_def)
  then show ?thesis using assms
    by (simp add: parse_decimal_def Let_def parse_exponent_def dropWhile_all)
qed

lemma parse_decimal_neg:
  assumes "ds \<noteq> []" "list_all is_digit ds"
  shows "parse_decimal (CHR ''-'' # ds) = Some (nat_of_digits ds, 0)"
  using assms by (simp add: parse_decimal_def Let_def parse_exponent_def strip_sign_def dropWhile_all)

lemma show_int_trim: "trim (show_int i) = show_int i"
proof (rule trim_graphic)
  have d: "is_graphic (hd (show_nat n))" "is_graphic (last (show_nat n))" for n
    using show_nat_digits [of "hd (show_nat n)" n] show_nat_digits [of "last (show_nat n)" n] digit_graphic
    by simp_all
  show "is_graphic (hd (show_int i))" using d by (simp add: show_int_def is_graphic_def byte_def)
  show "is_graphic (last (show_int i))" using d by (simp add: show_int_def)
qed (simp add: show_int_def)

lemma ascii_lower_digit: "is_digit c \<Longrightarrow> ascii_lower c = c"
  by (simp add: ascii_lower_def is_digit_def)

lemma show_int_not_word:
  "map ascii_lower (show_int i) \<notin> {[], ''false'', ''null'', ''none'', ''[]'', ''{}''}"
proof -
  have hd_digit: "is_digit (hd (show_nat n))" for n
    using show_nat_digits [of "hd (show_nat n)" n] by simp
  have "hd (map ascii_lower (show_int i)) = CHR ''-'' \<or> is_digit (hd (map ascii_lower (show_int i)))"
    using hd_digit by (simp add: show_int_def hd_map ascii_lower_digit) (simp add: ascii_lower_def byte_def)
  moreover have "map ascii_lower (show_int i) \<noteq> []" by (simp add: show_int_def)
  ultimately show ?thesis by (auto simp: is_digit_def byte_def)
qed

section \<open>Properties\<close>

text \<open>
  A condition that renders to an integer is decided by that integer: whatever template and
  context produced it, \<^verbatim>\<open>when:\<close> holds exactly when the integer is not zero, and a rendering error
  is never read as a truth value.
\<close>

theorem condition_integer:
  "evaluate_condition (\<lambda>_ _. Inr (show_int i)) template context = Inr (i \<noteq> 0) \<and>
   evaluate_condition (\<lambda>_ _. Inl err) template context = Inl err"
proof -
  have "parse_decimal (show_int i) = Some (nat \<bar>i\<bar>, 0)"
    by (auto simp: show_int_def parse_decimal_digits parse_decimal_neg show_nat_all_digits)
  then have "is_float_zero (show_int i) \<longleftrightarrow> i = 0" by (simp add: is_float_zero_def)
  then have "condition_text (show_int i) \<longleftrightarrow> i \<noteq> 0"
    using show_int_not_word [of i] by (simp add: condition_text_def show_int_trim Let_def)
  then show ?thesis by (simp add: evaluate_condition_def)
qed

end
