(* ===== verification/Redaction.thy ===== *)
theory Redaction
  imports Json_Value
begin

text \<open>
  Masking of secret values in free text (\<^verbatim>\<open>stroem-server/src/workspace_set.rs\<close>). A string is the list
  of its UTF-8 bytes. \<open>json_escape\<close> and \<open>debug_escape\<close> stand for the escaped forms
  \<^verbatim>\<open>serde_json::to_string\<close> and \<^verbatim>\<open>{:?}\<close> give a string, without the surrounding quotes.
\<close>

section \<open>Definitions\<close>

definition REDACTED :: string where
  "REDACTED = concat (replicate 6 (bytes [0xE2, 0x80, 0xA2]))"

definition collect_config_secret_values :: "json hashmap \<Rightarrow> string list" where
  "collect_config_secret_values secrets = concat (map collect_strings (vals secrets))"

fun find_sub :: "string \<Rightarrow> string \<Rightarrow> nat option" where
  "find_sub needle [] = (if needle = [] then Some 0 else None)"
| "find_sub needle (c # cs) =
     (if prefix needle (c # cs) then Some 0 else map_option Suc (find_sub needle cs))"

function collect_occurrences :: "string \<Rightarrow> string \<Rightarrow> nat \<Rightarrow> (nat \<times> nat) list" where
  "collect_occurrences s needle frm =
     (if frm \<le> length s
      then (case find_sub needle (drop frm s) of
              None \<Rightarrow> []
            | Some rel \<Rightarrow>
                let start = frm + rel;
                    step = (case drop start s of [] \<Rightarrow> 1 | c # _ \<Rightarrow> len_utf8 c)
                in (start, start + length needle) # collect_occurrences s needle (start + step))
      else [])"
  by pat_completeness auto
termination
  by (relation "measure (\<lambda>(s, needle, frm). Suc (length s) - frm)")
     (auto simp: len_utf8_def split: list.splits)

declare collect_occurrences.simps [simp del]

definition secret_spans ::
  "(string \<Rightarrow> string) \<Rightarrow> (string \<Rightarrow> string) \<Rightarrow> string \<Rightarrow> string \<Rightarrow> (nat \<times> nat) list" where
  "secret_spans json_escape debug_escape s secret =
     (if secret = [] then []
      else collect_occurrences s secret 0 @
        (let escaped = json_escape secret in
          if escaped \<noteq> secret \<and> escaped \<noteq> [] then collect_occurrences s escaped 0 else []) @
        (let escaped = debug_escape secret in
          if escaped \<noteq> secret \<and> escaped \<noteq> json_escape secret \<and> escaped \<noteq> []
          then collect_occurrences s escaped 0 else []))"

text \<open>The merge loop; the first argument is \<^verbatim>\<open>merged.last_mut()\<close>.\<close>

fun merge_from :: "nat \<times> nat \<Rightarrow> (nat \<times> nat) list \<Rightarrow> (nat \<times> nat) list" where
  "merge_from (lb, le) [] = [(lb, le)]"
| "merge_from (lb, le) ((b, e) # spans) =
     (if b \<le> le then merge_from (lb, max le e) spans else (lb, le) # merge_from (b, e) spans)"

fun merge_spans :: "(nat \<times> nat) list \<Rightarrow> (nat \<times> nat) list" where
  "merge_spans [] = []"
| "merge_spans (p # spans) = merge_from p spans"

fun cut_spans :: "string \<Rightarrow> nat \<Rightarrow> (nat \<times> nat) list \<Rightarrow> string" where
  "cut_spans s cursor [] = drop cursor s"
| "cut_spans s cursor ((b, e) # merged) = take (b - cursor) (drop cursor s) @ REDACTED @ cut_spans s e merged"

definition redact_secrets_in_str ::
  "(string \<Rightarrow> string) \<Rightarrow> (string \<Rightarrow> string) \<Rightarrow> string \<Rightarrow> string list \<Rightarrow> string" where
  "redact_secrets_in_str json_escape debug_escape s secret_values =
     (let spans = concat (map (secret_spans json_escape debug_escape s) secret_values) in
      if spans = [] then s
      else cut_spans s 0 (merge_spans (sort_key (\<lambda>p. [fst p, snd p]) spans)))"

definition occurs_at :: "string \<Rightarrow> string \<Rightarrow> nat \<Rightarrow> bool" where
  "occurs_at s needle p \<longleftrightarrow> prefix needle (drop p s)"

section \<open>Occurrences\<close>

lemma find_sub_None: "find_sub needle s = None \<Longrightarrow> \<not> occurs_at s needle p"
proof (induction s arbitrary: p)
  case Nil
  then show ?case by (auto simp: occurs_at_def split: if_splits)
next
  case (Cons c cs)
  then show ?case by (cases p) (auto simp: occurs_at_def split: if_splits)
qed

lemma find_sub_Some:
  "find_sub needle s = Some i \<Longrightarrow> occurs_at s needle i \<and> (\<forall>p < i. \<not> occurs_at s needle p)"
proof (induction s arbitrary: i)
  case Nil
  then show ?case by (auto simp: occurs_at_def split: if_splits)
next
  case (Cons c cs)
  show ?case
  proof (cases "prefix needle (c # cs)")
    case True
    then show ?thesis using Cons.prems by (simp add: occurs_at_def)
  next
    case False
    then obtain j where j: "find_sub needle cs = Some j" "i = Suc j" using Cons.prems by auto
    have "\<not> occurs_at (c # cs) needle p" if "p < i" for p
      using that j Cons.IH [OF j(1)] False by (cases p) (auto simp: occurs_at_def)
    then show ?thesis using Cons.IH [OF j(1)] j(2) by (simp add: occurs_at_def)
  qed
qed

lemma occurs_at_drop: "occurs_at (drop frm s) needle p = occurs_at s needle (frm + p)"
  by (simp add: occurs_at_def add.commute)

lemma occurs_at_first:
  assumes "occurs_at s needle p" "needle \<noteq> []"
  shows "p < length s \<and> s ! p = hd needle"
proof -
  from assms have "drop p s \<noteq> []" by (auto simp: occurs_at_def)
  then have p: "p < length s" by simp
  moreover have "hd (drop p s) = hd needle"
    using assms by (auto simp: occurs_at_def prefix_def hd_append)
  ultimately show ?thesis by (simp add: hd_drop_conv_nth)
qed

lemma occurs_at_end: "occurs_at s needle p \<Longrightarrow> needle \<noteq> [] \<Longrightarrow> p + length needle \<le> length s"
  unfolding occurs_at_def using prefix_length_le [of needle "drop p s"] by (cases needle) auto

text \<open>The bytes after a lead byte start no occurrence, so the loop may step over the character.\<close>

lemma no_occurrence_inside:
  assumes "utf8 s" "needle \<noteq> []" "\<not> continuation (hd needle)" "occurs_at s needle i"
    and "i < q" "q < i + len_utf8 (s ! i)"
  shows "\<not> occurs_at s needle q"
proof
  assume q: "occurs_at s needle q"
  have i: "i < length s" "s ! i = hd needle" using occurs_at_first assms(2,4) by blast+
  then have "continuation (s ! q)" using utf8_lead [OF assms(1)] assms(3,5,6) by simp
  then show False using occurs_at_first [OF q assms(2)] assms(3) by simp
qed

lemma collect_occurrences_complete:
  assumes "utf8 s" "needle \<noteq> []" "\<not> continuation (hd needle)" "occurs_at s needle p" "frm \<le> p"
  shows "(p, p + length needle) \<in> set (collect_occurrences s needle frm)"
  using assms
proof (induction s needle frm rule: collect_occurrences.induct)
  case (1 s needle frm)
  have p: "p < length s" using occurs_at_first "1.prems"(2,4) by blast
  have "occurs_at (drop frm s) needle (p - frm)" using "1.prems"(4,5) by (simp add: occurs_at_drop)
  then obtain rel where rel: "find_sub needle (drop frm s) = Some rel"
    using find_sub_None by (metis option.exhaust)
  note fs = find_sub_Some [OF rel]
  let ?b = "frm + rel"
  have b: "occurs_at s needle ?b" using fs by (simp add: occurs_at_drop)
  then have bl: "?b < length s" using occurs_at_first "1.prems"(2) by blast
  have "?b \<le> p"
  proof (rule ccontr)
    assume "\<not> ?b \<le> p"
    then have "p - frm < rel" using "1.prems"(5) by simp
    then show False using fs "1.prems"(4,5) by (auto simp: occurs_at_drop)
  qed
  obtain rest where d: "drop ?b s = s ! ?b # rest" using bl by (metis Cons_nth_drop_Suc)
  have unf: "collect_occurrences s needle frm =
      (?b, ?b + length needle) # collect_occurrences s needle (?b + len_utf8 (s ! ?b))"
    using p "1.prems"(5) by (subst collect_occurrences.simps) (simp add: rel d Let_def)
  show ?case
  proof (cases "p = ?b")
    case True
    then show ?thesis by (simp add: unf)
  next
    case False
    then have "?b + len_utf8 (s ! ?b) \<le> p"
      using no_occurrence_inside [OF "1.prems"(1-3) b] \<open>?b \<le> p\<close> "1.prems"(4) by (meson le_neq_implies_less not_le)
    moreover have "frm \<le> length s" using p "1.prems"(5) by simp
    ultimately have "(p, p + length needle) \<in> set (collect_occurrences s needle (?b + len_utf8 (s ! ?b)))"
      using "1.IH" [OF _ rel refl refl] "1.prems"(1-4) by (simp add: d)
    then show ?thesis by (simp add: unf)
  qed
qed

lemma collect_occurrences_sound:
  "(b, e) \<in> set (collect_occurrences s needle frm) \<Longrightarrow> occurs_at s needle b \<and> e = b + length needle"
proof (induction s needle frm rule: collect_occurrences.induct)
  case (1 s needle frm)
  show ?case
  proof (cases "frm \<le> length s \<and> find_sub needle (drop frm s) \<noteq> None")
    case True
    then obtain rel where rel: "find_sub needle (drop frm s) = Some rel" "frm \<le> length s" by auto
    then have "occurs_at s needle (frm + rel)" using find_sub_Some [OF rel(1)] by (simp add: occurs_at_drop)
    then show ?thesis
      using "1.prems" "1.IH" [OF rel(2,1) refl refl] rel
      by (auto simp: collect_occurrences.simps [of s needle frm] Let_def)
  next
    case False
    then have "collect_occurrences s needle frm = []"
      by (subst collect_occurrences.simps) (cases "find_sub needle (drop frm s)", simp_all)
    then show ?thesis using "1.prems" by simp
  qed
qed

section \<open>Merging and cutting\<close>

fun gapped :: "nat \<Rightarrow> (nat \<times> nat) list \<Rightarrow> bool" where
  "gapped c [] = True"
| "gapped c ((b, e) # ps) = (c \<le> b \<and> b \<le> e \<and> gapped e ps)"

lemma merge_from_gapped:
  "sorted (map fst ((lb, le) # spans)) \<Longrightarrow> lb \<le> le \<Longrightarrow> \<forall>(b, e) \<in> set spans. b \<le> e \<Longrightarrow> c \<le> lb \<Longrightarrow>
   gapped c (merge_from (lb, le) spans)"
proof (induction "(lb, le)" spans arbitrary: lb le c rule: merge_from.induct)
  case (2 lb le b e spans)
  show ?case
  proof (cases "b \<le> le")
    case True
    then show ?thesis using 2 by (auto intro!: "2.hyps"(1))
  next
    case False
    then show ?thesis using 2 by auto
  qed
qed simp

lemma merge_from_head: "\<exists>(b', e') \<in> set (merge_from (lb, le) spans). b' \<le> lb \<and> le \<le> e'"
proof (induction "(lb, le)" spans arbitrary: lb le rule: merge_from.induct)
  case (2 lb le b e spans)
  show ?case
  proof (cases "b \<le> le")
    case True
    from "2.hyps"(1) [OF True] show ?thesis using True by fastforce
  next
    case False
    then show ?thesis by auto
  qed
qed simp

lemma merge_from_covers:
  "(b, e) = p \<or> (b, e) \<in> set spans \<Longrightarrow> sorted (map fst (p # spans)) \<Longrightarrow>
   \<exists>(b', e') \<in> set (merge_from p spans). b' \<le> b \<and> e \<le> e'"
proof (induction p spans rule: merge_from.induct)
  case (2 lb le b2 e2 spans)
  show ?case
  proof (cases "b2 \<le> le")
    case merge: True
    show ?thesis
    proof (cases "(b, e) \<in> set spans")
      case True
      then show ?thesis using 2 merge by auto
    next
      case False
      then have be: "(b, e) = (lb, le) \<or> (b, e) = (b2, e2)" using "2.prems"(1) by auto
      obtain b' e' where h: "(b', e') \<in> set (merge_from (lb, max le e2) spans)" "b' \<le> lb" "max le e2 \<le> e'"
        using merge_from_head [of lb "max le e2" spans] by blast
      have "b' \<le> b \<and> e \<le> e'" using be h(2,3) "2.prems"(2) by auto
      then show ?thesis using merge h(1) by auto
    qed
  next
    case False
    then show ?thesis using 2 by auto
  qed
qed auto

lemma merge_spans_covers:
  "sorted (map fst spans) \<Longrightarrow> (b, e) \<in> set spans \<Longrightarrow>
   \<exists>(b', e') \<in> set (merge_spans spans). b' \<le> b \<and> e \<le> e'"
proof (cases spans)
  case (Cons p ps)
  assume "sorted (map fst spans)" "(b, e) \<in> set spans"
  with Cons have "(b, e) = p \<or> (b, e) \<in> set ps" "sorted (map fst (p # ps))" by auto
  from merge_from_covers [OF this] show ?thesis by (simp only: Cons merge_spans.simps)
qed simp

lemma merge_spans_gapped:
  "sorted (map fst spans) \<Longrightarrow> \<forall>(b, e) \<in> set spans. b \<le> e \<Longrightarrow> gapped 0 (merge_spans spans)"
proof (cases spans)
  case (Cons p ps)
  assume "sorted (map fst spans)" "\<forall>(b, e) \<in> set spans. b \<le> e"
  with Cons show ?thesis by (cases p) (auto intro: merge_from_gapped)
qed simp

text \<open>A needle that shares no byte with the mask cannot lie across it.\<close>

lemma sublist_around_mask:
  assumes "sublist needle (xs @ REDACTED @ ys)" "needle \<noteq> []" "set needle \<inter> set REDACTED = {}"
  shows "sublist needle xs \<or> sublist needle ys"
proof -
  have ne: "REDACTED \<noteq> []" by (simp add: REDACTED_def bytes_def)
  have inside: "x \<in> set needle \<Longrightarrow> x \<in> set REDACTED \<Longrightarrow> False" for x using assms(3) by blast
  consider "sublist needle xs" | "sublist needle (REDACTED @ ys)"
    | n1 n2 where "needle = n1 @ n2" "suffix n1 xs" "prefix n2 (REDACTED @ ys)"
    using assms(1) by (auto simp: sublist_append)
  then show ?thesis
  proof cases
    case 2
    then consider "sublist needle REDACTED" | "sublist needle ys"
      | n1 n2 where "needle = n1 @ n2" "suffix n1 REDACTED" "prefix n2 ys"
      by (auto simp: sublist_append)
    then show ?thesis
    proof cases
      case 1
      then show ?thesis using inside assms(2) set_mono_sublist by (metis hd_in_set subsetD)
    next
      case (3 n1 n2)
      then have "n1 = []" using inside set_mono_suffix by (metis Un_iff list.set_sel(1) set_append subsetD)
      then show ?thesis using 3 by (auto intro: prefix_imp_sublist)
    qed simp
  next
    case (3 n1 n2)
    have "n2 = []"
    proof (rule ccontr)
      assume "n2 \<noteq> []"
      then have "hd n2 = hd REDACTED" using 3(3) ne by (metis hd_append prefix_def)
      moreover have "hd n2 \<in> set needle" using 3(1) \<open>n2 \<noteq> []\<close> by simp
      ultimately show False using inside ne by (metis hd_in_set)
    qed
    then show ?thesis using 3 by (auto intro: suffix_imp_sublist)
  qed simp
qed

lemma sublist_occurs: "sublist needle (drop c s) \<Longrightarrow> \<exists>p \<ge> c. occurs_at s needle p"
proof -
  assume "sublist needle (drop c s)"
  then obtain a b where ab: "drop c s = a @ needle @ b" by (auto simp: sublist_def)
  then have "drop (c + length a) s = needle @ b"
    by (metis add.commute append_eq_conv_conj drop_drop)
  then show ?thesis by (intro exI [of _ "c + length a"]) (simp add: occurs_at_def)
qed

lemma sublist_take_occurs:
  assumes "sublist needle (take n (drop c s))"
  shows "\<exists>p \<ge> c. occurs_at s needle p \<and> p + length needle \<le> c + n"
proof -
  obtain a b where ab: "take n (drop c s) = a @ needle @ b" using assms by (auto simp: sublist_def)
  then have "drop c s = a @ needle @ b @ drop n (drop c s)"
    by (metis append.assoc append_take_drop_id)
  then have "drop (c + length a) s = needle @ b @ drop n (drop c s)"
    by (metis add.commute append_eq_conv_conj drop_drop)
  moreover have "length a + length needle \<le> n" using arg_cong [OF ab, of length] by simp
  ultimately show ?thesis by (intro exI [of _ "c + length a"]) (simp add: occurs_at_def)
qed

lemma cut_spans_occurs:
  assumes "sublist needle (cut_spans s c ms)" "gapped c ms" "needle \<noteq> []"
    and "set needle \<inter> set REDACTED = {}"
  shows "\<exists>p. occurs_at s needle p \<and> (\<forall>(b, e) \<in> set ms. p + length needle \<le> b \<or> e \<le> p)"
    (is "?Q c ms")
proof -
  have "\<exists>p \<ge> c. occurs_at s needle p \<and> (\<forall>(b, e) \<in> set ms. p + length needle \<le> b \<or> e \<le> p)"
    using assms(1,2)
  proof (induction ms arbitrary: c)
    case Nil
    then show ?case using sublist_occurs by auto
  next
    case (Cons m ms)
    obtain b e where m: "m = (b, e)" by (cases m) auto
    have g: "c \<le> b" "b \<le> e" "gapped e ms" using Cons.prems(2) m by simp_all
    have later: "b' \<ge> e" if "(b', e') \<in> set ms" for b' e'
      using g(3) that by (induction ms arbitrary: e) (auto, fastforce)
    from Cons.prems(1) m have "sublist needle (take (b - c) (drop c s)) \<or> sublist needle (cut_spans s e ms)"
      using sublist_around_mask assms(3,4) by simp
    then show ?case
    proof
      assume "sublist needle (take (b - c) (drop c s))"
      then obtain p where "p \<ge> c" "occurs_at s needle p" "p + length needle \<le> b"
        using sublist_take_occurs [of needle "b - c" c s] g(1) by auto
      then show ?case using m g later by (intro exI [of _ p]) fastforce
    next
      assume "sublist needle (cut_spans s e ms)"
      then obtain p where "p \<ge> e" "occurs_at s needle p"
          "\<forall>(b, e) \<in> set ms. p + length needle \<le> b \<or> e \<le> p"
        using Cons.IH g(3) by blast
      then show ?case using m g by (intro exI [of _ p]) auto
    qed
  qed
  then show ?thesis by blast
qed

section \<open>Properties\<close>



end
