(* ===== verification/Cascade.thy ===== *)
theory Cascade
  imports Gate Workflow_Model Render_Context Template_Eval Redaction
begin

text \<open>
  The step cascade (\<^verbatim>\<open>stroem-server/src/cascade.rs\<close>): the pure fixpoint that moves the steps of a job
  which no worker holds. A \<^verbatim>\<open>Snapshot\<close> is the list of its rows: its \<^verbatim>\<open>index\<close> maps a name to the last row
  that has it and is a function of the rows (\<open>row_index\<close>).

  The template engine and the JSON parser are third-party code and are gathered in the record
  \<open>engine\<close>: \<open>eng_render\<close> (Tera), \<open>eng_from_str\<close> (\<^verbatim>\<open>serde_json::from_str\<close>, with the class, line and column of
  an error) and the two escapings the redaction uses. The inner loop \<^verbatim>\<open>phase_promote\<close> may run forever on
  rows with duplicate names, so it is a partial function; the outer loop has the code's own bound.
\<close>

section \<open>Changes\<close>

datatype rollup_outcome = RollupCompleted json | RollupFailed string json

datatype change =
  Promote string
| Skip string skip_reason
| Fail string string
| Expand string "new_job_step list"
| Adopt string
| Rollup string rollup_outcome

record plan =
  pl_changes :: "change list"

definition MAX_FOR_EACH_ITEMS :: nat where
  "MAX_FOR_EACH_ITEMS = 10000"

record engine =
  eng_render :: renderer
  eng_from_str :: "string \<Rightarrow> (string \<times> nat \<times> nat) + json"
  eng_json_escape :: "string \<Rightarrow> string"
  eng_debug_escape :: "string \<Rightarrow> string"

section \<open>Loop items\<close>

definition not_an_array :: "json \<Rightarrow> string" where
  "not_an_array v = ''for_each must render a JSON array, got a JSON '' @ json_type_name v"

definition render_for_each_template :: "engine \<Rightarrow> string \<Rightarrow> json \<Rightarrow> string + json list" where
  "render_for_each_template eng template ctx =
     (case eng_render eng template ctx of
        Inl e \<Rightarrow> Inl (''Failed to render for_each template: '' @ e)
      | Inr rendered \<Rightarrow>
          (case eng_from_str eng rendered of
             Inl (cls, line, column) \<Rightarrow>
               Inl (''for_each must render a JSON array; the rendered text ('' @ show_nat (length rendered) @
                    '' bytes) is not valid JSON ('' @ cls @ '' error at line '' @ show_nat line @
                    '', column '' @ show_nat column @
                    ''). Render arrays and objects with `| json_encode()`, e.g. {{ step.output.items | json_encode() }}'')
           | Inr (Array arr) \<Rightarrow> Inr arr
           | Inr other \<Rightarrow> Inl (not_an_array other)))"

definition parse_for_each_items :: "engine \<Rightarrow> string \<Rightarrow> json \<Rightarrow> string + json list" where
  "parse_for_each_items eng expr ctx =
     (case eng_from_str eng expr of
        Inr (Array arr) \<Rightarrow> Inr arr
      | Inr (String template) \<Rightarrow> render_for_each_template eng template ctx
      | Inr other \<Rightarrow> Inl (not_an_array other)
      | Inl _ \<Rightarrow> render_for_each_template eng expr ctx)"

section \<open>The snapshot\<close>

fun row_index :: "job_step_row list \<Rightarrow> string \<Rightarrow> nat option" where
  "row_index [] name = None"
| "row_index (r # rows) name =
     (case row_index rows name of
        Some i \<Rightarrow> Some (Suc i)
      | None \<Rightarrow> if js_step_name r = name then Some 0 else None)"

definition snap_status :: "job_step_row list \<Rightarrow> string \<Rightarrow> string option" where
  "snap_status rows name = map_option (\<lambda>i. js_status (rows ! i)) (row_index rows name)"

definition snap_outcome :: "job_step_row list \<Rightarrow> string \<Rightarrow> dep_outcome" where
  "snap_outcome rows name =
     (case row_index rows name of
        Some i \<Rightarrow> from_row (js_status (rows ! i)) (js_skip_reason (rows ! i))
      | None \<Rightarrow> DPending)"

definition update_row ::
  "string \<Rightarrow> (job_step_row \<Rightarrow> job_step_row) \<Rightarrow> job_step_row list \<Rightarrow> job_step_row list" where
  "update_row name f rows =
     (case row_index rows name of Some i \<Rightarrow> rows[i := f (rows ! i)] | None \<Rightarrow> rows)"

definition synthetic_row :: "new_job_step \<Rightarrow> job_step_row" where
  "synthetic_row inst =
     \<lparr>js_job_id = ns_job_id inst, js_step_name = ns_step_name inst,
      js_action_name = ns_action_name inst, js_action_type = ns_action_type inst,
      js_action_image = ns_action_image inst, js_action_spec = ns_action_spec inst,
      js_input = ns_input inst, js_output = None, js_status = ns_status inst,
      js_worker_id = None, js_started_at = None, js_completed_at = None,
      js_error_message = None, js_required_ability = ns_required_ability inst,
      js_required_tags = tags_json (ns_required_tags inst), js_runner = ns_runner inst,
      js_timeout_secs = ns_timeout_secs inst, js_when_condition = None,
      js_for_each_expr = None, js_loop_source = ns_loop_source inst,
      js_loop_index = ns_loop_index inst, js_loop_total = ns_loop_total inst,
      js_loop_item = ns_loop_item inst, js_agent_state = None, js_suspended_at = None,
      js_retry_attempt = 0, js_max_retries = ns_max_retries inst,
      js_retry_backoff_secs = ns_retry_backoff_secs inst,
      js_retry_strategy = ns_retry_strategy inst, js_retry_jitter = ns_retry_jitter inst,
      js_retry_history = Array [], js_retry_at = None,
      js_action_workspace = ns_action_workspace inst,
      js_action_revision = ns_action_revision inst, js_carried_over = False,
      js_skip_reason = None, js_action_ref = None, js_task_workspace = None,
      js_task_ref = None, js_task_revision = None, js_pin_releases = 0,
      js_ref_template = None\<rparr>"

fun snap_apply :: "change \<Rightarrow> job_step_row list \<Rightarrow> job_step_row list" where
  "snap_apply (Promote step) rows = update_row step (\<lambda>r. r\<lparr>js_status := ''ready''\<rparr>) rows"
| "snap_apply (Skip step reason) rows =
     update_row step (\<lambda>r. r\<lparr>js_status := ''skipped'', js_skip_reason := Some (skip_reason_str reason)\<rparr>) rows"
| "snap_apply (Fail step err) rows =
     update_row step (\<lambda>r. r\<lparr>js_status := ''failed'', js_error_message := Some err\<rparr>) rows"
| "snap_apply (Expand placeholder instances) rows =
     update_row placeholder (\<lambda>r. r\<lparr>js_status := ''running''\<rparr>) rows @ map synthetic_row instances"
| "snap_apply (Adopt placeholder) rows = update_row placeholder (\<lambda>r. r\<lparr>js_status := ''running''\<rparr>) rows"
| "snap_apply (Rollup placeholder (RollupCompleted out)) rows =
     update_row placeholder (\<lambda>r. r\<lparr>js_status := ''completed'', js_output := Some out\<rparr>) rows"
| "snap_apply (Rollup placeholder (RollupFailed e out)) rows =
     update_row placeholder
       (\<lambda>r. r\<lparr>js_status := ''failed'', js_error_message := Some e, js_output := Some out\<rparr>) rows"

definition apply_all :: "job_step_row list \<Rightarrow> change list \<Rightarrow> job_step_row list" where
  "apply_all rows changes = foldl (\<lambda>rs c. snap_apply c rs) rows changes"

definition gate_for :: "job_step_row list \<Rightarrow> flow_step \<Rightarrow> gate_decision" where
  "gate_for rows fs = gate (fs_depends_on fs) (snap_outcome rows)"

definition is_placeholder :: "job_step_row \<Rightarrow> bool" where
  "is_placeholder r \<longleftrightarrow> js_for_each_expr r \<noteq> None"

section \<open>The phases\<close>

fun show_int_items :: "int list \<Rightarrow> string" where
  "show_int_items [] = []"
| "show_int_items [i] = show_int i"
| "show_int_items (i # is) = show_int i @ '', '' @ show_int_items is"

definition rollup_outcome_of :: "job_step_row list \<Rightarrow> rollup_outcome" where
  "rollup_outcome_of instances =
     (let any_failed = list_ex (\<lambda>i. js_status i = ''failed'') instances;
          failed_indices = List.map_filter js_loop_index (filter (\<lambda>i. js_status i = ''failed'') instances);
          output_array = Array (map (\<lambda>i. case js_output i of Some v \<Rightarrow> v | None \<Rightarrow> Null) instances)
      in if any_failed
         then RollupFailed (''for_each loop failed: instances ['' @ show_int_items failed_indices @ ''] failed'')
                output_array
         else RollupCompleted output_array)"

text \<open>
  R5: the instances the sequential loop starts next. The indices of a loop are at most
  \<^const>\<open>MAX_FOR_EACH_ITEMS\<close>, so the successor of a 32-bit index does not wrap.
\<close>

definition sequential_advance :: "job_step_row list \<Rightarrow> change list" where
  "sequential_advance instances =
     List.map_filter (\<lambda>i.
       case js_loop_index i of
         None \<Rightarrow> None
       | Some idx \<Rightarrow>
           map_option (\<lambda>n. Promote (js_step_name n))
             (find (\<lambda>n. js_loop_index n = Some (idx + 1) \<and> js_status n = ''pending'') instances))
       (filter (\<lambda>i. is_terminal (js_status i)) instances)"

definition rollup_one :: "job_step_row list \<Rightarrow> task_def \<Rightarrow> job_step_row \<Rightarrow> change list" where
  "rollup_one rows task ph =
     (let found = filter (\<lambda>r. js_loop_source r = Some (js_step_name ph)) rows in
      if found = [] then []
      else
        let instances = sort_key (\<lambda>r. case js_loop_index r of Some i \<Rightarrow> i | None \<Rightarrow> 0) found;
            flow_step = map_of (td_flow task) (js_step_name ph);
            sequential = (case flow_step of Some f \<Rightarrow> fs_sequential f | None \<Rightarrow> False);
            cof = (case flow_step of Some f \<Rightarrow> fs_continue_on_failure f | None \<Rightarrow> False);
            any_bad = list_ex (\<lambda>i. js_status i = ''failed'' \<or> js_status i = ''cancelled'') instances;
            waiting = filter (\<lambda>i. js_status i = ''pending'') instances
        in if sequential \<and> any_bad \<and> \<not> cof \<and> waiting \<noteq> []
           then map (\<lambda>i. Skip (js_step_name i) Unreachable) waiting
           else
             (if sequential then sequential_advance instances else []) @
             (if list_all (\<lambda>i. is_terminal (js_status i)) instances
              then [Rollup (js_step_name ph) (rollup_outcome_of instances)] else []))"

definition phase_rollup :: "job_step_row list \<Rightarrow> task_def \<Rightarrow> change list" where
  "phase_rollup rows task =
     concat (map (rollup_one rows task) (filter (\<lambda>r. is_placeholder r \<and> js_status r = ''running'') rows))"

definition promote_one ::
  "engine \<Rightarrow> job_step_row list \<Rightarrow> task_def \<Rightarrow> json option \<Rightarrow> job_step_row \<Rightarrow> change list" where
  "promote_one eng rows task ctx r =
     (case map_of (td_flow task) (js_step_name r) of
        None \<Rightarrow> []
      | Some fs \<Rightarrow>
          (case gate_for rows fs of
             Wait \<Rightarrow> []
           | Omitted \<Rightarrow> [Skip (js_step_name r) Unreachable]
           | Open \<Rightarrow>
               (case (js_when_condition r, ctx) of
                  (None, _) \<Rightarrow> [Promote (js_step_name r)]
                | (Some _, None) \<Rightarrow> []
                | (Some w, Some c) \<Rightarrow>
                    (case evaluate_condition (eng_render eng) w c of
                       Inr True \<Rightarrow> [Promote (js_step_name r)]
                     | Inr False \<Rightarrow> [Skip (js_step_name r) Condition]
                     | Inl e \<Rightarrow> [Fail (js_step_name r) (''when condition error: '' @ e)]))))"

definition promote_batch ::
  "engine \<Rightarrow> job_step_row list \<Rightarrow> task_def \<Rightarrow> json option \<Rightarrow> change list" where
  "promote_batch eng rows task ctx =
     concat (map (promote_one eng rows task ctx)
       (filter (\<lambda>r. js_status r = ''pending'' \<and> \<not> is_placeholder r) rows))"

partial_function (option) phase_promote ::
  "engine \<Rightarrow> task_def \<Rightarrow> (job_step_row list \<Rightarrow> json option) \<Rightarrow> job_step_row list \<Rightarrow> change list
    \<Rightarrow> (job_step_row list \<times> change list) option" where
  "phase_promote eng task build_ctx rows all_changes =
     (let batch = promote_batch eng rows task (build_ctx rows) in
      if batch = [] then Some (rows, all_changes)
      else phase_promote eng task build_ctx (apply_all rows batch) (all_changes @ batch))"

declare phase_promote.simps [code]

definition tags_of_json :: "json \<Rightarrow> string list" where
  "tags_of_json v =
     (case v of
        Array xs \<Rightarrow> if list_all (\<lambda>x. as_str x \<noteq> None) xs then List.map_filter as_str xs else []
      | _ \<Rightarrow> [])"

definition instance_name :: "string \<Rightarrow> nat \<Rightarrow> string" where
  "instance_name step i = step @ ''['' @ show_nat i @ '']''"

definition loop_instance ::
  "uuid \<Rightarrow> flow_step \<Rightarrow> job_step_row \<Rightarrow> nat \<Rightarrow> nat \<times> json \<Rightarrow> new_job_step" where
  "loop_instance job_id fs r n p =
     (let (i, item) = p in
     \<lparr>ns_job_id = job_id, ns_step_name = instance_name (js_step_name r) i,
      ns_action_name = js_action_name r, ns_action_type = js_action_type r,
      ns_action_image = js_action_image r, ns_action_spec = js_action_spec r,
      ns_input = js_input r,
      ns_status = step_status_str (if fs_sequential fs \<and> i > 0 then Pending else Ready),
      ns_required_ability = js_required_ability r,
      ns_required_tags = tags_of_json (js_required_tags r), ns_runner = js_runner r,
      ns_timeout_secs = js_timeout_secs r, ns_when_condition = None, ns_for_each_expr = None,
      ns_loop_source = Some (js_step_name r), ns_loop_index = Some (int i),
      ns_loop_total = Some (int n), ns_loop_item = Some item,
      ns_max_retries = js_max_retries r, ns_retry_backoff_secs = js_retry_backoff_secs r,
      ns_retry_strategy = js_retry_strategy r, ns_retry_jitter = js_retry_jitter r,
      ns_action_workspace = js_action_workspace r, ns_action_revision = js_action_revision r,
      ns_action_ref = js_action_ref r, ns_task_workspace = js_task_workspace r,
      ns_task_ref = js_task_ref r, ns_task_revision = js_task_revision r,
      ns_ref_template = js_ref_template r\<rparr>)"

definition expand_placeholder ::
  "engine \<Rightarrow> uuid \<Rightarrow> flow_step \<Rightarrow> json \<Rightarrow> job_step_row \<Rightarrow> change" where
  "expand_placeholder eng job_id fs ctx r =
     (case parse_for_each_items eng (case js_for_each_expr r of Some e \<Rightarrow> e | None \<Rightarrow> []) ctx of
        Inl e \<Rightarrow> Fail (js_step_name r) (''for_each expression error: '' @ e)
      | Inr items \<Rightarrow>
          if items = [] then Skip (js_step_name r) Empty
          else if length items > MAX_FOR_EACH_ITEMS
          then Fail (js_step_name r) (''for_each produced '' @ show_nat (length items) @ '' items (max '' @
                 show_nat MAX_FOR_EACH_ITEMS @ '')'')
          else Expand (js_step_name r)
                 (map (loop_instance job_id fs r (length items)) (enumerate 0 items)))"

definition placeholder_one ::
  "engine \<Rightarrow> job_step_row list \<Rightarrow> task_def \<Rightarrow> json \<Rightarrow> uuid \<Rightarrow> job_step_row \<Rightarrow> change list" where
  "placeholder_one eng rows task ctx job_id r =
     (case map_of (td_flow task) (js_step_name r) of
        None \<Rightarrow> []
      | Some fs \<Rightarrow>
          if snap_status rows (instance_name (js_step_name r) 0) \<noteq> None then [Adopt (js_step_name r)]
          else
            (case gate_for rows fs of
               Wait \<Rightarrow> []
             | Omitted \<Rightarrow> [Skip (js_step_name r) Unreachable]
             | Open \<Rightarrow>
                 (case js_when_condition r of
                    None \<Rightarrow> [expand_placeholder eng job_id fs ctx r]
                  | Some w \<Rightarrow>
                      (case evaluate_condition (eng_render eng) w ctx of
                         Inr True \<Rightarrow> [expand_placeholder eng job_id fs ctx r]
                       | Inr False \<Rightarrow> [Skip (js_step_name r) Condition]
                       | Inl e \<Rightarrow> [Fail (js_step_name r) (''when condition error: '' @ e)]))))"

definition phase_placeholders ::
  "engine \<Rightarrow> job_step_row list \<Rightarrow> task_def \<Rightarrow> json option \<Rightarrow> uuid \<Rightarrow> change list" where
  "phase_placeholders eng rows task ctx job_id =
     (case ctx of
        None \<Rightarrow> []
      | Some c \<Rightarrow>
          concat (map (placeholder_one eng rows task c job_id)
            (filter (\<lambda>r. js_status r = ''pending'' \<and> is_placeholder r) rows)))"

section \<open>The fixpoint\<close>

definition condition_context ::
  "job_row \<Rightarrow> job_step_row list \<Rightarrow> workspace_config \<Rightarrow> snapshots \<Rightarrow> json" where
  "condition_context job rows ws snaps =
     rx_value (build
       \<lparr>jc_job_id = j_job_id job, jc_job_input = j_input job, jc_caller_secrets = wc_secrets ws,
        jc_owner_secrets = wc_secrets ws, jc_snapshots = snaps,
        jc_job_revision = j_revision job, jc_job_ref = j_git_ref job\<rparr>
       (views rows) None Condition_scope)"

definition cascade_pass ::
  "engine \<Rightarrow> task_def \<Rightarrow> uuid \<Rightarrow> (job_step_row list \<Rightarrow> json option) \<Rightarrow> job_step_row list
    \<Rightarrow> (job_step_row list \<times> change list) option" where
  "cascade_pass eng task job_id build_ctx rows =
     (let p0 = phase_rollup rows task; rows1 = apply_all rows p0 in
      case phase_promote eng task build_ctx rows1 [] of
        None \<Rightarrow> None
      | Some (rows2, p1) \<Rightarrow>
          let p3 = phase_placeholders eng rows2 task (build_ctx rows2) job_id
          in Some (apply_all rows2 p3, p0 @ p1 @ p3))"

fun cascade_loop ::
  "nat \<Rightarrow> engine \<Rightarrow> task_def \<Rightarrow> uuid \<Rightarrow> (job_step_row list \<Rightarrow> json option) \<Rightarrow> job_step_row list
    \<Rightarrow> change list \<Rightarrow> (job_step_row list \<times> change list) option" where
  "cascade_loop 0 eng task job_id build_ctx rows changes = Some (rows, changes)"
| "cascade_loop (Suc passes) eng task job_id build_ctx rows changes =
     (case cascade_pass eng task job_id build_ctx rows of
        None \<Rightarrow> None
      | Some (rows', pass) \<Rightarrow>
          if pass = [] then Some (rows', changes)
          else cascade_loop passes eng task job_id build_ctx rows' (changes @ pass))"

definition pass_bound :: "job_step_row list \<Rightarrow> nat" where
  "pass_bound rows =
     (let pending_placeholders = length (filter (\<lambda>r. is_placeholder r \<and> js_status r = ''pending'') rows);
          universe = length rows + MAX_FOR_EACH_ITEMS * pending_placeholders
      in 4 * universe + 1)"

fun redact_change :: "engine \<Rightarrow> string list \<Rightarrow> change \<Rightarrow> change" where
  "redact_change eng secrets (Fail step err) =
     Fail step (redact_secrets_in_str (eng_json_escape eng) (eng_debug_escape eng) err secrets)"
| "redact_change eng secrets c = c"

definition cascade_run ::
  "engine \<Rightarrow> task_def \<Rightarrow> job_row \<Rightarrow> job_step_row list \<Rightarrow> workspace_config option \<Rightarrow> snapshots
    \<Rightarrow> plan option" where
  "cascade_run eng task job rows ws snaps =
     (let build_ctx = (\<lambda>rs. map_option (\<lambda>w. condition_context job rs w snaps) ws) in
      case cascade_loop (pass_bound rows) eng task (j_job_id job) build_ctx rows [] of
        None \<Rightarrow> None
      | Some (_, changes) \<Rightarrow>
          (case ws of
             None \<Rightarrow> Some \<lparr>pl_changes = changes\<rparr>
           | Some cfg \<Rightarrow>
               let secrets = collect_config_secret_values (wc_secrets cfg) in
               if list_ex (\<lambda>c. case c of Fail _ _ \<Rightarrow> True | _ \<Rightarrow> False) changes \<and> secrets \<noteq> []
               then Some \<lparr>pl_changes = map (redact_change eng secrets) changes\<rparr>
               else Some \<lparr>pl_changes = changes\<rparr>))"

end
