(* ===== verification/Cascade_Rows.thy ===== *)
theory Cascade_Rows
  imports Cascade
begin

text \<open>
  Well-formed snapshots and valid changes. A change is valid when its target is in the status the
  transition starts from and, for an expansion, the instances are new; these are the guards the
  database will check. Valid changes keep a snapshot well formed and use up a measure, on which the
  termination and the pass bound of the cascade rest.
\<close>

section \<open>Rows by name\<close>

definition row_at :: "job_step_row list \<Rightarrow> string \<Rightarrow> job_step_row option" where
  "row_at rows name = map_option (\<lambda>i. rows ! i) (row_index rows name)"

abbreviation names :: "job_step_row list \<Rightarrow> string list" where
  "names rows \<equiv> map js_step_name rows"

lemma row_index_None: "row_index rows n = None \<longleftrightarrow> n \<notin> set (names rows)"
  by (induction rows) (auto split: option.splits)

lemma row_index_Some: "row_index rows n = Some i \<Longrightarrow> i < length rows \<and> js_step_name (rows ! i) = n"
  by (induction rows arbitrary: i) (auto split: option.splits if_splits)

lemma row_index_names_cong: "names rows = names rows' \<Longrightarrow> row_index rows n = row_index rows' n"
proof (induction rows arbitrary: rows')
  case Nil
  then show ?case by simp
next
  case (Cons r rows)
  then obtain r' rest where c: "rows' = r' # rest" "js_step_name r' = js_step_name r" "names rows = names rest"
    by (cases rows') auto
  have "row_index rows n = row_index rest n" by (rule Cons.IH) (rule c(3))
  then show ?case by (simp add: c(1,2))
qed

lemma row_index_append:
  "row_index (a @ b) n =
     (case row_index b n of Some i \<Rightarrow> Some (length a + i) | None \<Rightarrow> row_index a n)"
  by (induction a) (auto split: option.splits)

lemma row_at_None: "row_at rows n = None \<longleftrightarrow> n \<notin> set (names rows)"
  by (simp add: row_at_def row_index_None)

lemma row_at_name: "row_at rows n = Some r \<Longrightarrow> r \<in> set rows \<and> js_step_name r = n"
  by (auto simp: row_at_def dest!: row_index_Some intro: nth_mem)

lemma snap_status_row_at: "snap_status rows n = map_option js_status (row_at rows n)"
  by (simp add: snap_status_def row_at_def option.map_comp comp_def)

lemma snap_outcome_row_at:
  "snap_outcome rows n =
     (case row_at rows n of Some r \<Rightarrow> from_row (js_status r) (js_skip_reason r) | None \<Rightarrow> DPending)"
  by (simp add: snap_outcome_def row_at_def split: option.split)

lemma row_at_append_old: "n \<notin> set (names b) \<Longrightarrow> row_at (a @ b) n = row_at a n"
proof -
  assume "n \<notin> set (names b)"
  then have "row_index b n = None" by (simp only: row_index_None not_False_eq_True)
  then have "row_index (a @ b) n = row_index a n" by (simp add: row_index_append)
  then show ?thesis using row_index_Some [of a n]
    by (cases "row_index a n") (simp_all add: row_at_def nth_append)
qed

lemma names_update_row:
  assumes "\<And>r. js_step_name (f r) = js_step_name r"
  shows "names (update_row n f rows) = names rows"
  using assms by (auto simp: update_row_def map_update split: option.split)
    (metis list_update_id map_update nth_map row_index_Some)

lemma length_update_row [simp]: "length (update_row n f rows) = length rows"
  by (simp add: update_row_def split: option.split)

lemma row_at_update_row:
  assumes "\<And>r. js_step_name (f r) = js_step_name r"
  shows "row_at (update_row m f rows) n = (if n = m then map_option f (row_at rows n) else row_at rows n)"
proof -
  have eq: "row_index (update_row m f rows) n = row_index rows n"
    by (rule row_index_names_cong) (rule names_update_row [OF assms])
  show ?thesis
  proof (cases "row_index rows n")
    case None
    then show ?thesis by (auto simp: row_at_def eq)
  next
    case (Some i)
    note i = row_index_Some [OF Some]
    show ?thesis
    proof (cases "row_index rows m")
      case None
      then show ?thesis using Some by (auto simp: row_at_def eq update_row_def)
    next
      case m: (Some j)
      note j = row_index_Some [OF m]
      have u: "row_at (update_row m f rows) n = Some (rows[j := f (rows ! j)] ! i)"
        using Some m eq by (simp add: row_at_def update_row_def)
      show ?thesis
      proof (cases "n = m")
        case True
        then have "i = j" using Some m by simp
        then show ?thesis using True u i Some by (simp add: row_at_def)
      next
        case False
        then have "i \<noteq> j" using i j by blast
        then show ?thesis using False u Some by (simp add: row_at_def)
      qed
    qed
  qed
qed

lemma row_at_distinct:
  assumes "distinct (names rows)"
  shows "row_at rows (js_step_name r) = Some r \<longleftrightarrow> r \<in> set rows"
proof
  assume "row_at rows (js_step_name r) = Some r"
  then show "r \<in> set rows" by (simp add: row_at_name)
next
  assume r: "r \<in> set rows"
  then have "row_at rows (js_step_name r) \<noteq> None" by (simp add: row_at_None)
  then obtain r' where r': "row_at rows (js_step_name r) = Some r'" by blast
  then have "r' = r"
    using row_at_name [OF r'] r assms distinct_map_eqD [of js_step_name rows r' r] by simp
  with r' show "row_at rows (js_step_name r) = Some r" by simp
qed

section \<open>Well-formed snapshots\<close>

text \<open>
  Flow steps have no bracket in their name (the validator rejects it); a loop instance is called
  \<^verbatim>\<open>src[i]\<close>, carries its index, is no placeholder itself, and instance 0 exists with it (instances are
  inserted together).
\<close>

definition wf_row :: "job_step_row list \<Rightarrow> job_step_row \<Rightarrow> bool" where
  "wf_row rows r =
     (case js_loop_source r of
        None \<Rightarrow> CHR ''['' \<notin> set (js_step_name r)
      | Some src \<Rightarrow>
          CHR ''['' \<notin> set src \<and> js_for_each_expr r = None \<and>
          (case js_loop_index r of
             None \<Rightarrow> False
           | Some i \<Rightarrow> 0 \<le> i \<and> js_step_name r = instance_name src (nat i)) \<and>
          instance_name src 0 \<in> set (names rows))"

definition wf_snap :: "job_step_row list \<Rightarrow> bool" where
  "wf_snap rows \<longleftrightarrow> distinct (names rows) \<and> list_all (wf_row rows) rows"

lemma instance_name_inj:
  assumes "CHR ''['' \<notin> set a" "CHR ''['' \<notin> set b" "instance_name a i = instance_name b j"
  shows "a = b \<and> i = j"
proof -
  have "str_find (CHR ''['') (instance_name a i) = Some (length a)"
    "str_find (CHR ''['') (instance_name b j) = Some (length b)"
    using str_find_append [OF assms(1)] str_find_append [OF assms(2)] by (simp_all add: instance_name_def)
  then have "length a = length b" using assms(3) by simp
  then show ?thesis using assms(3) show_nat_inj by (simp add: instance_name_def)
qed

lemma instance_name_bracket: "CHR ''['' \<in> set (instance_name a i)"
  by (simp add: instance_name_def)

text \<open>Only four columns matter, and no status change touches them.\<close>

definition shape :: "job_step_row \<Rightarrow> string \<times> string option \<times> int option \<times> string option" where
  "shape r = (js_step_name r, js_loop_source r, js_loop_index r, js_for_each_expr r)"

lemma shape_names: "map shape rows = map shape rows' \<Longrightarrow> names rows = names rows'"
  by (metis (no_types, lifting) comp_def fst_conv list.map_comp map_eq_conv shape_def)

lemma wf_row_shape:
  "shape r = shape r' \<Longrightarrow> names rows = names rows' \<Longrightarrow> wf_row rows r = wf_row rows' r'"
  unfolding wf_row_def shape_def prod.inject by metis

lemma wf_snap_shape:
  assumes "map shape rows = map shape rows'"
  shows "wf_snap rows = wf_snap rows'"
proof -
  have n: "names rows = names rows'" using shape_names assms by blast
  have "list_all2 (=) (map shape rows) (map shape rows')" using assms by (simp add: list.rel_eq)
  then have "list_all2 (\<lambda>r r'. shape r = shape r') rows rows'" by (simp add: list.rel_map)
  then have "list_all (wf_row rows) rows = list_all (wf_row rows') rows'"
    using wf_row_shape [OF _ n] by (auto simp: list_all2_conv_all_nth list_all_length)
  then show ?thesis using n by (simp add: wf_snap_def)
qed

lemma shape_update_row:
  assumes "\<And>r. shape (f r) = shape r"
  shows "map shape (update_row n f rows) = map shape rows"
proof (cases "row_index rows n")
  case (Some i)
  then have "shape (f (rows ! i)) = map shape rows ! i" using assms row_index_Some [OF Some] by simp
  then show ?thesis using Some by (simp add: update_row_def map_update)
qed (simp add: update_row_def)

lemma wf_instance:
  assumes "wf_snap rows" "r \<in> set rows" "js_loop_source r = Some src"
  obtains i where "js_loop_index r = Some i" "0 \<le> i" "js_step_name r = instance_name src (nat i)"
    "js_for_each_expr r = None" "CHR ''['' \<notin> set src" "instance_name src 0 \<in> set (names rows)"
proof -
  have "wf_row rows r" using assms(1,2) by (simp add: wf_snap_def list_all_iff)
  then have "CHR ''['' \<notin> set src \<and> js_for_each_expr r = None \<and>
      (case js_loop_index r of None \<Rightarrow> False | Some i \<Rightarrow> 0 \<le> i \<and> js_step_name r = instance_name src (nat i)) \<and>
      instance_name src 0 \<in> set (names rows)"
    unfolding wf_row_def assms(3) option.case .
  then show ?thesis using that by (cases "js_loop_index r") auto
qed

lemma wf_flow_row:
  assumes "wf_snap rows" "r \<in> set rows" "js_loop_source r = None"
  shows "CHR ''['' \<notin> set (js_step_name r)"
proof -
  have "wf_row rows r" using assms(1,2) by (simp add: wf_snap_def list_all_iff)
  then show ?thesis unfolding wf_row_def assms(3) option.case .
qed

lemma wf_placeholder:
  assumes "wf_snap rows" "r \<in> set rows" "is_placeholder r"
  shows "js_loop_source r = None \<and> CHR ''['' \<notin> set (js_step_name r)"
proof (cases "js_loop_source r")
  case None
  then show ?thesis using wf_flow_row assms by blast
next
  case (Some src)
  have "js_for_each_expr r = None" using wf_instance [OF assms(1,2) Some] by blast
  then show ?thesis using assms(3) by (simp add: is_placeholder_def)
qed

section \<open>Valid changes\<close>

fun target :: "change \<Rightarrow> string" where
  "target (Promote n) = n"
| "target (Skip n _) = n"
| "target (Fail n _) = n"
| "target (Expand n _) = n"
| "target (Adopt n) = n"
| "target (Rollup n _) = n"

fun inserted :: "change \<Rightarrow> string list" where
  "inserted (Expand _ insts) = map ns_step_name insts"
| "inserted _ = []"

text \<open>The status a change starts from.\<close>

fun source_status :: "change \<Rightarrow> string" where
  "source_status (Rollup _ _) = ''running''"
| "source_status _ = ''pending''"

definition good_instances :: "string \<Rightarrow> new_job_step list \<Rightarrow> bool" where
  "good_instances n insts \<longleftrightarrow> insts \<noteq> [] \<and> length insts \<le> MAX_FOR_EACH_ITEMS \<and> CHR ''['' \<notin> set n \<and>
     list_all (\<lambda>k. ns_step_name (insts ! k) = instance_name n k \<and> ns_loop_source (insts ! k) = Some n \<and>
       ns_loop_index (insts ! k) = Some (int k)) [0..<length insts]"

definition valid_change :: "job_step_row list \<Rightarrow> change \<Rightarrow> bool" where
  "valid_change rows c \<longleftrightarrow>
     snap_status rows (target c) = Some (source_status c) \<and>
     (case c of
        Expand n insts \<Rightarrow> good_instances n insts \<and> set (inserted c) \<inter> set (names rows) = {} \<and>
          (case row_at rows n of Some r \<Rightarrow> is_placeholder r | None \<Rightarrow> False)
      | Adopt n \<Rightarrow> (case row_at rows n of Some r \<Rightarrow> is_placeholder r | None \<Rightarrow> False)
      | Rollup n _ \<Rightarrow> (case row_at rows n of Some r \<Rightarrow> is_placeholder r | None \<Rightarrow> False)
      | _ \<Rightarrow> True)"

fun valid_seq :: "job_step_row list \<Rightarrow> change list \<Rightarrow> bool" where
  "valid_seq rows [] = True"
| "valid_seq rows (c # cs) = (valid_change rows c \<and> valid_seq (snap_apply c rows) cs)"

lemma apply_all_Nil [simp]: "apply_all rows [] = rows"
  by (simp add: apply_all_def)

lemma apply_all_Cons [simp]: "apply_all rows (c # cs) = apply_all (snap_apply c rows) cs"
  by (simp add: apply_all_def)

lemma apply_all_append: "apply_all rows (a @ b) = apply_all (apply_all rows a) b"
  by (simp add: apply_all_def)

lemma valid_seq_append:
  "valid_seq rows (a @ b) \<longleftrightarrow> valid_seq rows a \<and> valid_seq (apply_all rows a) b"
  by (induction a arbitrary: rows) auto

text \<open>How a change writes its target: the row function of \<^const>\<open>snap_apply\<close>.\<close>

fun row_write :: "change \<Rightarrow> job_step_row \<Rightarrow> job_step_row" where
  "row_write (Promote _) r = r\<lparr>js_status := ''ready''\<rparr>"
| "row_write (Skip _ reason) r =
     r\<lparr>js_status := ''skipped'', js_skip_reason := Some (skip_reason_str reason)\<rparr>"
| "row_write (Fail _ err) r = r\<lparr>js_status := ''failed'', js_error_message := Some err\<rparr>"
| "row_write (Expand _ _) r = r\<lparr>js_status := ''running''\<rparr>"
| "row_write (Adopt _) r = r\<lparr>js_status := ''running''\<rparr>"
| "row_write (Rollup _ (RollupCompleted out)) r = r\<lparr>js_status := ''completed'', js_output := Some out\<rparr>"
| "row_write (Rollup _ (RollupFailed e out)) r =
     r\<lparr>js_status := ''failed'', js_error_message := Some e, js_output := Some out\<rparr>"

fun new_rows :: "change \<Rightarrow> job_step_row list" where
  "new_rows (Expand _ insts) = map synthetic_row insts"
| "new_rows _ = []"

lemma snap_apply_split: "snap_apply c rows = update_row (target c) (row_write c) rows @ new_rows c"
  by (cases "(c, rows)" rule: snap_apply.cases) (simp_all add: update_row_def split: option.split)

lemma row_write_shape [simp]: "shape (row_write c r) = shape r"
  by (cases "(c, r)" rule: row_write.cases) (simp_all add: shape_def)

lemma row_write_name [simp]: "js_step_name (row_write c r) = js_step_name r"
  using row_write_shape [of c r] by (simp add: shape_def)

lemma row_write_placeholder [simp]: "is_placeholder (row_write c r) = is_placeholder r"
  using row_write_shape [of c r] by (simp add: shape_def is_placeholder_def)

lemma synthetic_row_sel [simp]:
  "js_step_name (synthetic_row i) = ns_step_name i" "js_status (synthetic_row i) = ns_status i"
  "js_loop_source (synthetic_row i) = ns_loop_source i" "js_loop_index (synthetic_row i) = ns_loop_index i"
  "js_for_each_expr (synthetic_row i) = None" "js_output (synthetic_row i) = None"
  "js_skip_reason (synthetic_row i) = None"
  by (simp_all add: synthetic_row_def)

lemma names_new_rows [simp]: "names (new_rows c) = inserted c"
  by (cases c) (simp_all add: comp_def)

lemma names_snap_apply: "names (snap_apply c rows) = names rows @ inserted c"
  by (simp add: snap_apply_split names_update_row)

lemma row_at_snap_apply:
  assumes "n \<notin> set (inserted c)"
  shows "row_at (snap_apply c rows) n =
    (if n = target c then map_option (row_write c) (row_at rows n) else row_at rows n)"
  using assms by (simp add: snap_apply_split row_at_append_old row_at_update_row)

lemma status_snap_apply_other:
  "n \<noteq> target c \<Longrightarrow> n \<notin> set (inserted c) \<Longrightarrow> snap_status (snap_apply c rows) n = snap_status rows n"
  by (simp add: snap_status_row_at row_at_snap_apply)

lemma snap_status_in_names: "snap_status rows n = Some s \<Longrightarrow> n \<in> set (names rows)"
  by (auto simp: snap_status_row_at dest!: row_at_name)

text \<open>Independent changes decided on the same snapshot stay valid while the others are applied.\<close>

lemma valid_change_after:
  assumes "valid_change rows c" "valid_change rows c'" "target c' \<noteq> target c"
    and "set (inserted c) \<inter> set (inserted c') = {}"
  shows "valid_change (snap_apply c rows) c'"
proof -
  have "target c' \<in> set (names rows)"
    using assms(2) snap_status_in_names unfolding valid_change_def by blast
  moreover have "set (inserted c) \<inter> set (names rows) = {}"
    using assms(1) by (cases c) (simp_all add: valid_change_def)
  ultimately have fresh: "target c' \<notin> set (inserted c)" by blast
  then have "row_at (snap_apply c rows) (target c') = row_at rows (target c')"
    using assms(3) by (simp add: row_at_snap_apply)
  then show ?thesis
    using assms(2,4) by (cases c') (auto simp: valid_change_def snap_status_row_at names_snap_apply)
qed

fun disjoint_inserts :: "change list \<Rightarrow> bool" where
  "disjoint_inserts [] = True"
| "disjoint_inserts (c # cs) =
     (list_all (\<lambda>c'. set (inserted c) \<inter> set (inserted c') = {}) cs \<and> disjoint_inserts cs)"

lemma valid_seq_batch:
  assumes "distinct (map target cs)" "list_all (valid_change rows) cs" "disjoint_inserts cs"
  shows "valid_seq rows cs"
  using assms
proof (induction cs arbitrary: rows)
  case (Cons c cs)
  have "list_all (valid_change (snap_apply c rows)) cs"
    unfolding list_all_iff
  proof
    fix c' assume c': "c' \<in> set cs"
    then have "target c' \<noteq> target c" using Cons.prems(1) by (metis distinct.simps(2) image_eqI list.simps(9) set_map)
    then show "valid_change (snap_apply c rows) c'"
      using Cons.prems(2,3) c' by (intro valid_change_after) (auto simp: list_all_iff)
  qed
  then show ?case using Cons by simp
qed simp

lemma disjoint_inserts_none: "list_all (\<lambda>c. inserted c = []) cs \<Longrightarrow> disjoint_inserts cs"
  by (induction cs) (auto simp: list_all_iff)

section \<open>The measure\<close>

definition weight :: "job_step_row \<Rightarrow> nat" where
  "weight r =
     (if js_status r = ''pending'' then (if is_placeholder r then MAX_FOR_EACH_ITEMS + 2 else 1)
      else if js_status r = ''running'' \<and> is_placeholder r then 1 else 0)"

definition work :: "job_step_row list \<Rightarrow> nat" where
  "work rows = sum_list (map weight rows)"

lemma work_update_row:
  assumes "row_at rows n = Some r"
  shows "work (update_row n f rows) + weight r = work rows + weight (f r)"
proof -
  obtain i where i: "row_index rows n = Some i" "rows ! i = r" using assms by (auto simp: row_at_def)
  then have l: "i < length rows" using row_index_Some by blast
  have "work (update_row n f rows) = sum_list ((map weight rows)[i := weight (f r)])"
    using i by (simp add: work_def update_row_def map_update)
  also have "\<dots> = sum_list (map weight rows) + weight (f r) - map weight rows ! i"
    using l by (simp add: sum_list_update)
  finally have "work (update_row n f rows) = work rows + weight (f r) - weight r"
    using i l by (simp add: work_def)
  moreover have "weight r \<le> work rows"
    unfolding work_def using i l by (intro member_le_sum_list) (auto intro: nth_mem)
  ultimately show ?thesis by simp
qed

lemma work_new_rows: "valid_change rows c \<Longrightarrow> work (new_rows c) \<le> MAX_FOR_EACH_ITEMS"
proof (cases c)
  case (Expand n insts)
  assume "valid_change rows c"
  then have "length insts \<le> MAX_FOR_EACH_ITEMS" using Expand by (simp add: valid_change_def good_instances_def)
  moreover have "sum_list (map (weight \<circ> synthetic_row) insts) \<le> sum_list (map (\<lambda>_. 1) insts)"
    by (rule sum_list_map_le) (simp add: weight_def is_placeholder_def)
  ultimately show ?thesis using Expand by (simp add: work_def sum_list_triv)
qed (simp_all add: work_def)

lemma valid_change_uses_work:
  assumes "valid_change rows c"
  shows "work (snap_apply c rows) < work rows"
proof -
  obtain r where r: "row_at rows (target c) = Some r" "js_status r = source_status c"
    using assms by (auto simp: valid_change_def snap_status_row_at)
  have u: "work (update_row (target c) (row_write c) rows) + weight r = work rows + weight (row_write c r)"
    using work_update_row r(1) by blast
  have s: "work (snap_apply c rows) = work (update_row (target c) (row_write c) rows) + work (new_rows c)"
    by (simp add: snap_apply_split work_def)
  have "weight (row_write c r) + work (new_rows c) < weight r"
  proof (cases c)
    case (Rollup n out)
    then show ?thesis using r assms
      by (cases out) (auto simp: valid_change_def weight_def work_def is_placeholder_def)
  next
    case (Expand n insts)
    then show ?thesis using r assms work_new_rows [OF assms]
      by (auto simp: valid_change_def weight_def is_placeholder_def split: option.splits)
  qed (use r assms in \<open>auto simp: valid_change_def weight_def work_def is_placeholder_def\<close>)
  then show ?thesis using u s by simp
qed

lemma valid_seq_uses_work: "valid_seq rows cs \<Longrightarrow> work (apply_all rows cs) + length cs \<le> work rows"
proof (induction cs arbitrary: rows)
  case (Cons c cs)
  then have "work (apply_all (snap_apply c rows) cs) + length cs \<le> work (snap_apply c rows)"
    "work (snap_apply c rows) < work rows"
    by (simp_all add: valid_change_uses_work)
  then show ?case by simp
qed simp

section \<open>Valid changes keep the snapshot well formed\<close>

lemma good_instances_nth:
  assumes "good_instances n insts" "i \<in> set insts"
  obtains k where "k < length insts" "ns_step_name i = instance_name n k" "ns_loop_source i = Some n"
    "ns_loop_index i = Some (int k)"
  using assms by (auto simp: good_instances_def list_all_iff in_set_conv_nth)

lemma good_instances_distinct:
  assumes "good_instances n insts"
  shows "distinct (map ns_step_name insts)"
proof (rule distinct_conv_nth [THEN iffD2], intro allI impI)
  fix i j
  assume "i < length (map ns_step_name insts)" "j < length (map ns_step_name insts)" "i \<noteq> j"
  then show "map ns_step_name insts ! i \<noteq> map ns_step_name insts ! j"
    using assms instance_name_inj [of n n i j] by (auto simp: good_instances_def list_all_iff)
qed

lemma wf_row_mono: "wf_row rows r \<Longrightarrow> set (names rows) \<subseteq> set (names rows') \<Longrightarrow> wf_row rows' r"
  unfolding wf_row_def by (cases "js_loop_source r") (simp, simp only: option.case, blast)

lemma wf_snap_apply:
  assumes "wf_snap rows" "valid_change rows c"
  shows "wf_snap (snap_apply c rows)"
proof -
  let ?u = "update_row (target c) (row_write c) rows"
  have "map shape ?u = map shape rows" by (rule shape_update_row) simp
  from wf_snap_shape [OF this] have u: "wf_snap ?u" using assms(1) by (rule iffD2)
  show ?thesis
  proof (cases "\<exists>n insts. c = Expand n insts")
    case False
    then have "new_rows c = []" by (cases c) auto
    then show ?thesis using u by (simp add: snap_apply_split)
  next
    case True
    then obtain n insts where c: "c = Expand n insts" by blast
    have g: "good_instances n insts" "set (map ns_step_name insts) \<inter> set (names rows) = {}"
      using assms(2) by (simp_all add: c valid_change_def)
    have nm: "names (snap_apply c rows) = names rows @ map ns_step_name insts"
      by (simp only: names_snap_apply c inserted.simps)
    have d: "distinct (names (snap_apply c rows))"
      using assms(1) g good_instances_distinct by (auto simp: nm wf_snap_def)
    have zero: "instance_name n 0 \<in> set (map ns_step_name insts)"
      using g(1) by (auto simp: good_instances_def list_all_iff intro!: image_eqI [of _ _ "insts ! 0"])
    have old: "wf_row (snap_apply c rows) r" if "r \<in> set ?u" for r
    proof -
      have "wf_row ?u r" using u that by (simp add: wf_snap_def list_all_iff)
      moreover have "set (names ?u) \<subseteq> set (names (snap_apply c rows))"
        unfolding nm names_update_row [OF row_write_name] by simp
      ultimately show ?thesis by (rule wf_row_mono)
    qed
    have new: "wf_row (snap_apply c rows) (synthetic_row i)" if "i \<in> set insts" for i
      by (rule good_instances_nth [OF g(1) that])
         (use g(1) zero in \<open>auto simp: wf_row_def nm good_instances_def\<close>)
    have "list_all (wf_row (snap_apply c rows)) (?u @ map synthetic_row insts)"
      using old new by (auto simp: list_all_iff)
    moreover have "snap_apply c rows = ?u @ map synthetic_row insts" by (simp add: snap_apply_split c)
    ultimately show ?thesis using d unfolding wf_snap_def by metis
  qed
qed

lemma wf_snap_apply_all: "wf_snap rows \<Longrightarrow> valid_seq rows cs \<Longrightarrow> wf_snap (apply_all rows cs)"
  by (induction cs arbitrary: rows) (simp_all add: wf_snap_apply)

end
