(* ===== verification/Cascade_Fixpoint.thy ===== *)
theory Cascade_Fixpoint
  imports Cascade_Rows
begin

text \<open>
  The cascade terminates, within its own pass bound, in a state it would leave unchanged; every
  change it plans is valid when its turn comes; and what it leaves pending really has to wait.
\<close>

section \<open>Each phase plans valid changes\<close>

lemma distinct_concat_map:
  assumes "distinct xs" "\<And>x. x \<in> set xs \<Longrightarrow> distinct (f x)"
    and "\<And>x y. x \<in> set xs \<Longrightarrow> y \<in> set xs \<Longrightarrow> x \<noteq> y \<Longrightarrow> set (f x) \<inter> set (f y) = {}"
  shows "distinct (concat (map f xs))"
  using assms
proof (induction xs)
  case (Cons x xs)
  have "set (f x) \<inter> set (concat (map f xs)) = {}"
    using Cons.prems(1) Cons.prems(3) [of x] by fastforce
  then show ?case using Cons by simp
qed simp

lemma map_concat_map: "map g (concat (map f xs)) = concat (map (\<lambda>x. map g (f x)) xs)"
  by (induction xs) simp_all

text \<open>A batch with at most one change per row, each aimed at that row.\<close>

lemma single_batch_valid:
  assumes "distinct (names rows)"
    and one: "\<And>r. r \<in> set rows \<Longrightarrow> f r = [] \<or> (\<exists>c. f r = [c] \<and> target c = js_step_name r)"
    and val: "\<And>r c. r \<in> set rows \<Longrightarrow> P r \<Longrightarrow> c \<in> set (f r) \<Longrightarrow> valid_change rows c"
    and dis: "\<And>r r' c c'. r \<in> set rows \<Longrightarrow> r' \<in> set rows \<Longrightarrow> P r \<Longrightarrow> P r' \<Longrightarrow> r \<noteq> r' \<Longrightarrow>
      c \<in> set (f r) \<Longrightarrow> c' \<in> set (f r') \<Longrightarrow> set (inserted c) \<inter> set (inserted c') = {}"
  shows "valid_seq rows (concat (map f (filter P rows)))"
proof (rule valid_seq_batch)
  let ?cs = "concat (map f (filter P rows))"
  have dr: "distinct (filter P rows)" using assms(1) by (simp add: distinct_map)
  have tg: "map target (f r) = [] \<or> map target (f r) = [js_step_name r]" if "r \<in> set rows" for r
    using one [OF that] by auto
  show "distinct (map target ?cs)"
    unfolding map_concat_map
  proof (rule distinct_concat_map [OF dr])
    fix x assume "x \<in> set (filter P rows)"
    then show "distinct (map target (f x))" using tg [of x] by auto
  next
    fix x y assume xy: "x \<in> set (filter P rows)" "y \<in> set (filter P rows)" "x \<noteq> y"
    then have "js_step_name x \<noteq> js_step_name y"
      using assms(1) distinct_map_eqD [of js_step_name rows x y] by auto
    then show "set (map target (f x)) \<inter> set (map target (f y)) = {}"
      using tg [of x] tg [of y] xy by auto
  qed
  show "list_all (valid_change rows) ?cs" using val by (auto simp: list_all_iff)
  have "disjoint_inserts (concat (map f rs))" if "set rs \<subseteq> set (filter P rows)" "distinct rs" for rs
    using that
  proof (induction rs)
    case (Cons r rs)
    have IH: "disjoint_inserts (concat (map f rs))" using Cons by simp
    have r: "r \<in> set rows" "P r" using Cons.prems(1) by auto
    consider "f r = []" | c where "f r = [c]" using one [OF r(1)] by blast
    then show ?case
    proof cases
      case (2 c)
      have "set (inserted c) \<inter> set (inserted c') = {}" if c': "c' \<in> set (concat (map f rs))" for c'
      proof -
        obtain r' where r': "r' \<in> set rs" "c' \<in> set (f r')" using c' by auto
        then have "r' \<in> set rows" "P r'" "r \<noteq> r'" using Cons.prems by auto
        then show ?thesis using dis [OF r(1) _ r(2)] r'(2) 2 by simp
      qed
      then show ?thesis using 2 IH by (simp add: list_all_iff)
    qed (use IH in simp)
  qed simp
  from this [OF subset_refl dr] show "disjoint_inserts ?cs" .
qed

lemma pending_status:
  assumes "distinct (names rows)" "r \<in> set rows"
  shows "snap_status rows (js_step_name r) = Some (js_status r)"
  using row_at_distinct [OF assms(1), of r] assms(2) by (simp add: snap_status_row_at)

lemma promote_one_cases:
  "promote_one eng rows task ctx r = [] \<or>
   (\<exists>c. promote_one eng rows task ctx r = [c] \<and> target c = js_step_name r \<and> inserted c = [] \<and>
     source_status c = ''pending'' \<and> ((\<exists>n. c = Promote n) \<or> (\<exists>n x. c = Skip n x) \<or> (\<exists>n e. c = Fail n e)))"
  by (auto simp: promote_one_def split: option.splits gate_decision.splits sum.splits bool.splits)

lemma promote_batch_valid:
  assumes "distinct (names rows)"
  shows "valid_seq rows (promote_batch eng rows task ctx)"
  unfolding promote_batch_def
proof (rule single_batch_valid [OF assms])
  fix r assume "r \<in> set rows"
  show "promote_one eng rows task ctx r = [] \<or>
      (\<exists>c. promote_one eng rows task ctx r = [c] \<and> target c = js_step_name r)"
    using promote_one_cases by blast
next
  fix r c
  assume r: "r \<in> set rows" "js_status r = ''pending'' \<and> \<not> is_placeholder r" "c \<in> set (promote_one eng rows task ctx r)"
  then have "target c = js_step_name r" "source_status c = ''pending''"
    "(\<exists>n. c = Promote n) \<or> (\<exists>n x. c = Skip n x) \<or> (\<exists>n e. c = Fail n e)"
    using promote_one_cases [of eng rows task ctx r] by auto
  then show "valid_change rows c"
    using pending_status [OF assms r(1)] r(2) by (auto simp: valid_change_def)
next
  fix r r' c c'
  assume "c \<in> set (promote_one eng rows task ctx r)"
  then show "set (inserted c) \<inter> set (inserted c') = {}"
    using promote_one_cases [of eng rows task ctx r] by auto
qed

lemma expand_placeholder_cases:
  "(\<exists>e. expand_placeholder eng job_id fs ctx r = Fail (js_step_name r) e) \<or>
   expand_placeholder eng job_id fs ctx r = Skip (js_step_name r) Empty \<or>
   (\<exists>items. items \<noteq> [] \<and> length items \<le> MAX_FOR_EACH_ITEMS \<and>
     expand_placeholder eng job_id fs ctx r =
       Expand (js_step_name r) (map (loop_instance job_id fs r (length items)) (enumerate 0 items)))"
  by (auto simp: expand_placeholder_def split: sum.splits)

lemma loop_instance_sel [simp]:
  "ns_step_name (loop_instance job_id fs r n (i, item)) = instance_name (js_step_name r) i"
  "ns_loop_source (loop_instance job_id fs r n (i, item)) = Some (js_step_name r)"
  "ns_loop_index (loop_instance job_id fs r n (i, item)) = Some (int i)"
  "ns_job_id (loop_instance job_id fs r n (i, item)) = job_id"
  "ns_action_type (loop_instance job_id fs r n (i, item)) = js_action_type r"
  "ns_runner (loop_instance job_id fs r n (i, item)) = js_runner r"
  "ns_status (loop_instance job_id fs r n (i, item)) =
     step_status_str (if fs_sequential fs \<and> i > 0 then Pending else Ready)"
  by (simp_all add: loop_instance_def)

lemma good_loop_instances:
  assumes "items \<noteq> []" "length items \<le> MAX_FOR_EACH_ITEMS" "CHR ''['' \<notin> set (js_step_name r)"
  shows "good_instances (js_step_name r) (map (loop_instance job_id fs r (length items)) (enumerate 0 items))"
proof -
  have "enumerate 0 items \<noteq> []" using assms(1) by (cases items) simp_all
  then show ?thesis using assms by (simp add: good_instances_def list_all_iff nth_enumerate_eq)
qed

lemma placeholder_one_cases:
  "placeholder_one eng rows task ctx job_id r = [] \<or>
   (\<exists>c. placeholder_one eng rows task ctx job_id r = [c] \<and> target c = js_step_name r \<and>
     ((\<exists>x. c = Skip (js_step_name r) x) \<or> (\<exists>e. c = Fail (js_step_name r) e) \<or> c = Adopt (js_step_name r) \<or>
      (\<exists>fs items. items \<noteq> [] \<and> length items \<le> MAX_FOR_EACH_ITEMS \<and>
         snap_status rows (instance_name (js_step_name r) 0) = None \<and>
         c = Expand (js_step_name r) (map (loop_instance job_id fs r (length items)) (enumerate 0 items)))))"
proof -
  have ex: "(\<exists>c. [expand_placeholder eng job_id fs ctx r] = [c] \<and> target c = js_step_name r \<and>
     ((\<exists>x. c = Skip (js_step_name r) x) \<or> (\<exists>e. c = Fail (js_step_name r) e) \<or> c = Adopt (js_step_name r) \<or>
      (\<exists>fs items. items \<noteq> [] \<and> length items \<le> MAX_FOR_EACH_ITEMS \<and>
         snap_status rows (instance_name (js_step_name r) 0) = None \<and>
         c = Expand (js_step_name r) (map (loop_instance job_id fs r (length items)) (enumerate 0 items)))))"
    if "snap_status rows (instance_name (js_step_name r) 0) = None" for fs
    using expand_placeholder_cases [of eng job_id fs ctx r] that by fastforce
  show ?thesis
    unfolding placeholder_one_def using ex
    by (auto split: option.splits gate_decision.splits sum.splits bool.splits if_splits)
qed

lemma placeholder_one_elem:
  assumes "c \<in> set (placeholder_one eng rows task ctx job_id r)"
  shows "(\<exists>x. c = Skip (js_step_name r) x) \<or> (\<exists>e. c = Fail (js_step_name r) e) \<or> c = Adopt (js_step_name r) \<or>
      (\<exists>fs items. items \<noteq> [] \<and> length items \<le> MAX_FOR_EACH_ITEMS \<and>
         snap_status rows (instance_name (js_step_name r) 0) = None \<and>
         c = Expand (js_step_name r) (map (loop_instance job_id fs r (length items)) (enumerate 0 items)))"
  using placeholder_one_cases [of eng rows task ctx job_id r]
proof
  assume "placeholder_one eng rows task ctx job_id r = []"
  then show ?thesis using assms by simp
next
  assume "\<exists>c. placeholder_one eng rows task ctx job_id r = [c] \<and> target c = js_step_name r \<and>
     ((\<exists>x. c = Skip (js_step_name r) x) \<or> (\<exists>e. c = Fail (js_step_name r) e) \<or> c = Adopt (js_step_name r) \<or>
      (\<exists>fs items. items \<noteq> [] \<and> length items \<le> MAX_FOR_EACH_ITEMS \<and>
         snap_status rows (instance_name (js_step_name r) 0) = None \<and>
         c = Expand (js_step_name r) (map (loop_instance job_id fs r (length items)) (enumerate 0 items))))"
  then show ?thesis using assms by (elim exE conjE) (simp only: set_simps insert_iff empty_iff simp_thms)
qed

lemma set_loop_instance_names:
  "set (inserted (Expand n (map (loop_instance job_id fs r k) (enumerate 0 items)))) =
   instance_name (js_step_name r) ` {0..<length items}"
proof -
  have "map ns_step_name (map (loop_instance job_id fs r k) (enumerate 0 items)) =
      map (\<lambda>p. instance_name (js_step_name r) (fst p)) (enumerate 0 items)"
    by (simp add: loop_instance_def case_prod_beta)
  also have "\<dots> = map (instance_name (js_step_name r)) (map fst (enumerate 0 items))"
    by (simp only: map_map comp_def)
  also have "map fst (enumerate 0 items) = [0..<length items]" by simp
  finally show ?thesis by simp
qed

lemma instances_fresh:
  assumes "wf_snap rows" "CHR ''['' \<notin> set n" "snap_status rows (instance_name n 0) = None"
  shows "instance_name n i \<notin> set (names rows)"
proof
  assume "instance_name n i \<in> set (names rows)"
  then obtain r where r: "r \<in> set rows" "js_step_name r = instance_name n i" by auto
  show False
  proof (cases "js_loop_source r")
    case None
    then show False using wf_flow_row [OF assms(1) r(1)] r(2) instance_name_bracket by metis
  next
    case (Some src)
    then obtain k where k: "js_step_name r = instance_name src (nat k)" "CHR ''['' \<notin> set src"
        "instance_name src 0 \<in> set (names rows)"
      using wf_instance [OF assms(1) r(1) Some] by blast
    then have "src = n" using instance_name_inj [OF k(2) assms(2)] r(2) by metis
    then have "row_at rows (instance_name n 0) \<noteq> None" using k(3) row_at_None by metis
    then show False using assms(3) by (simp add: snap_status_row_at)
  qed
qed

lemma phase_placeholders_valid:
  assumes "wf_snap rows"
  shows "valid_seq rows (phase_placeholders eng rows task ctx job_id)"
proof (cases ctx)
  case None
  then show ?thesis by (simp add: phase_placeholders_def)
next
  case (Some cx)
  have d: "distinct (names rows)" using assms by (simp add: wf_snap_def)
  let ?f = "placeholder_one eng rows task cx job_id"
  have "valid_seq rows (concat (map ?f (filter (\<lambda>r. js_status r = ''pending'' \<and> is_placeholder r) rows)))"
  proof (rule single_batch_valid [OF d])
    fix r assume "r \<in> set rows"
    show "?f r = [] \<or> (\<exists>c. ?f r = [c] \<and> target c = js_step_name r)"
      using placeholder_one_cases by blast
  next
    fix r c
    assume r: "r \<in> set rows" "js_status r = ''pending'' \<and> is_placeholder r" "c \<in> set (?f r)"
    have ra: "row_at rows (js_step_name r) = Some r" using row_at_distinct [OF d] r(1) by blast
    have st: "snap_status rows (js_step_name r) = Some ''pending''" using pending_status [OF d r(1)] r(2) by simp
    have nb: "CHR ''['' \<notin> set (js_step_name r)" using wf_placeholder [OF assms r(1)] r(2) by blast
    from placeholder_one_elem [OF r(3)]
    consider x where "c = Skip (js_step_name r) x" | e where "c = Fail (js_step_name r) e"
      | "c = Adopt (js_step_name r)"
      | fs items where "items \<noteq> []" "length items \<le> MAX_FOR_EACH_ITEMS"
          "snap_status rows (instance_name (js_step_name r) 0) = None"
          "c = Expand (js_step_name r) (map (loop_instance job_id fs r (length items)) (enumerate 0 items))"
      by blast
    then show "valid_change rows c"
    proof cases
      case (4 fs items)
      have "set (inserted c) \<inter> set (names rows) = {}"
        using instances_fresh [OF assms nb 4(3)] unfolding 4(4) set_loop_instance_names by blast
      then show ?thesis
        using good_loop_instances [OF 4(1,2) nb] ra st r(2) by (simp add: valid_change_def 4(4))
    qed (use ra st r(2) in \<open>simp_all add: valid_change_def\<close>)
  next
    fix r r' c c'
    assume r: "r \<in> set rows" "r' \<in> set rows" "js_status r = ''pending'' \<and> is_placeholder r"
      "js_status r' = ''pending'' \<and> is_placeholder r'" "r \<noteq> r'" "c \<in> set (?f r)" "c' \<in> set (?f r')"
    have nb: "CHR ''['' \<notin> set (js_step_name r)" "CHR ''['' \<notin> set (js_step_name r')"
      using wf_placeholder [OF assms] r by blast+
    have ne: "js_step_name r \<noteq> js_step_name r'" using distinct_map_eqD [OF d r(1,2)] r(5) by blast
    have "set (inserted c) \<subseteq> range (instance_name (js_step_name r))"
      using placeholder_one_elem [OF r(6)] set_loop_instance_names by (elim disjE exE conjE) fastforce+
    moreover have "set (inserted c') \<subseteq> range (instance_name (js_step_name r'))"
      using placeholder_one_elem [OF r(7)] set_loop_instance_names by (elim disjE exE conjE) fastforce+
    ultimately show "set (inserted c) \<inter> set (inserted c') = {}"
      using instance_name_inj [OF nb] ne by blast
  qed
  then show ?thesis using Some by (simp add: phase_placeholders_def)
qed

text \<open>The rollup phase: sequential loops advance, finished loops close.\<close>

definition loop_rows :: "job_step_row list \<Rightarrow> job_step_row \<Rightarrow> job_step_row list" where
  "loop_rows rows ph =
     sort_key (\<lambda>r. case js_loop_index r of Some i \<Rightarrow> i | None \<Rightarrow> 0)
       (filter (\<lambda>r. js_loop_source r = Some (js_step_name ph)) rows)"

lemma set_loop_rows: "i \<in> set (loop_rows rows ph) \<longleftrightarrow> i \<in> set rows \<and> js_loop_source i = Some (js_step_name ph)"
  by (simp add: loop_rows_def)

lemma distinct_loop_rows:
  assumes "distinct (names rows)"
  shows "distinct (names (loop_rows rows ph))" "distinct (loop_rows rows ph)"
proof -
  have "mset (names (loop_rows rows ph)) = mset (names (filter (\<lambda>r. js_loop_source r = Some (js_step_name ph)) rows))"
    by (simp add: loop_rows_def)
  then have "distinct (names (loop_rows rows ph)) =
      distinct (names (filter (\<lambda>r. js_loop_source r = Some (js_step_name ph)) rows))"
    using mset_eq_imp_distinct_iff by blast
  then show 1: "distinct (names (loop_rows rows ph))" using assms by (simp add: filter_map_fst_distinct)
  then show "distinct (loop_rows rows ph)" by (simp add: distinct_map)
qed

lemma rollup_one_alt:
  "rollup_one rows task ph =
     (let instances = loop_rows rows ph;
          sequential = (case map_of (td_flow task) (js_step_name ph) of Some f \<Rightarrow> fs_sequential f | None \<Rightarrow> False);
          cof = (case map_of (td_flow task) (js_step_name ph) of Some f \<Rightarrow> fs_continue_on_failure f | None \<Rightarrow> False);
          waiting = filter (\<lambda>i. js_status i = ''pending'') instances
      in if instances = [] then []
         else if sequential \<and> list_ex (\<lambda>i. js_status i = ''failed'' \<or> js_status i = ''cancelled'') instances \<and>
            \<not> cof \<and> waiting \<noteq> []
         then map (\<lambda>i. Skip (js_step_name i) Unreachable) waiting
         else (if sequential then sequential_advance instances else []) @
           (if list_all (\<lambda>i. is_terminal (js_status i)) instances
            then [Rollup (js_step_name ph) (rollup_outcome_of instances)] else []))"
proof -
  have "length (loop_rows rows ph) = length (filter (\<lambda>r. js_loop_source r = Some (js_step_name ph)) rows)"
    by (simp add: loop_rows_def)
  then have e: "loop_rows rows ph = [] \<longleftrightarrow> filter (\<lambda>r. js_loop_source r = Some (js_step_name ph)) rows = []"
    by (metis length_0_conv)
  show ?thesis
  proof (cases "loop_rows rows ph = []")
    case True
    then show ?thesis using e by (simp add: rollup_one_def Let_def)
  next
    case False
    then have "filter (\<lambda>r. js_loop_source r = Some (js_step_name ph)) rows \<noteq> []" using e by blast
    then show ?thesis using False
      unfolding rollup_one_def loop_rows_def [symmetric] Let_def by (simp only: if_False)
  qed
qed

lemma set_map_filter: "c \<in> set (List.map_filter g xs) \<longleftrightarrow> (\<exists>x \<in> set xs. g x = Some c)"
  by (force simp: List.map_filter_def)

lemma sequential_advance_elem:
  "c \<in> set (sequential_advance instances) \<Longrightarrow>
   \<exists>n \<in> set instances. c = Promote (js_step_name n) \<and> js_status n = ''pending''"
  by (auto simp: sequential_advance_def set_map_filter dest!: find_SomeD split: option.splits)

lemma sequential_advance_finished:
  assumes "list_all (\<lambda>i. is_terminal (js_status i)) instances"
  shows "sequential_advance instances = []"
proof -
  have "\<not> (\<exists>c. c \<in> set (sequential_advance instances))"
  proof
    assume "\<exists>c. c \<in> set (sequential_advance instances)"
    then obtain n where "n \<in> set instances" "js_status n = ''pending''"
      using sequential_advance_elem by blast
    then show False using assms by (auto simp: list_all_iff)
  qed
  then show ?thesis by (metis last_in_set)
qed

lemma rollup_one_elem:
  assumes "c \<in> set (rollup_one rows task ph)"
  shows "(\<exists>i \<in> set rows. js_loop_source i = Some (js_step_name ph) \<and> js_status i = ''pending'' \<and>
      (c = Skip (js_step_name i) Unreachable \<or> c = Promote (js_step_name i))) \<or>
    (\<exists>out. c = Rollup (js_step_name ph) out)"
  using assms unfolding rollup_one_alt Let_def
  by (auto simp: set_loop_rows split: if_splits dest!: sequential_advance_elem)

lemma rollup_one_target:
  assumes "c \<in> set (rollup_one rows task ph)"
  shows "(\<exists>i \<in> set rows. js_loop_source i = Some (js_step_name ph) \<and> js_status i = ''pending'' \<and>
    target c = js_step_name i) \<or> target c = js_step_name ph"
  using rollup_one_elem [OF assms] by (elim disjE bexE exE conjE) fastforce+

lemma sequential_advance_distinct:
  assumes "wf_snap rows"
  shows "distinct (map target (sequential_advance (loop_rows rows ph)))"
proof -
  let ?is = "loop_rows rows ph" and ?src = "js_step_name ph"
  let ?next = "\<lambda>idx n. js_loop_index n = Some (idx + 1) \<and> js_status n = ''pending''"
  let ?g = "\<lambda>i. case js_loop_index i of None \<Rightarrow> None
    | Some idx \<Rightarrow> map_option (\<lambda>n. Promote (js_step_name n)) (find (?next idx) ?is)"
  have d: "distinct (names rows)" using assms by (simp add: wf_snap_def)
  have ix: "\<exists>k \<ge> 0. js_loop_index i = Some k \<and> js_step_name i = instance_name ?src (nat k)"
    if "i \<in> set ?is" for i
    using that wf_instance [OF assms] by (metis set_loop_rows)
  have inj: "i = j"
    if ij: "i \<in> set ?is" "j \<in> set ?is" and g: "?g i \<noteq> None" "?g j \<noteq> None" "target (the (?g i)) = target (the (?g j))"
    for i j
  proof -
    obtain a where a: "a \<ge> 0" "js_loop_index i = Some a" "js_step_name i = instance_name ?src (nat a)"
      using ix [OF ij(1)] by blast
    obtain b where b: "b \<ge> 0" "js_loop_index j = Some b" "js_step_name j = instance_name ?src (nat b)"
      using ix [OF ij(2)] by blast
    obtain n where n: "find (?next a) ?is = Some n" using g(1) a(2) by auto
    obtain m where m: "find (?next b) ?is = Some m" using g(2) b(2) by auto
    have n': "n \<in> set ?is" "js_loop_index n = Some (a + 1)" using find_SomeD [OF n] by blast+
    have m': "m \<in> set ?is" "js_loop_index m = Some (b + 1)" using find_SomeD [OF m] by blast+
    have "js_step_name n = js_step_name m" using g(3) a(2) b(2) n m by simp
    then have "n = m" using distinct_map_eqD [OF distinct_loop_rows(1) [OF d] n'(1) m'(1)] by blast
    then have "a = b" using n'(2) m'(2) by simp
    then have "js_step_name i = js_step_name j" using a(3) b(3) by simp
    then show "i = j" using distinct_map_eqD [OF distinct_loop_rows(1) [OF d] ij] by blast
  qed
  have "map target (sequential_advance ?is) =
      map (\<lambda>i. target (the (?g i))) (filter (\<lambda>i. ?g i \<noteq> None) (filter (\<lambda>i. is_terminal (js_status i)) ?is))"
    by (simp add: sequential_advance_def List.map_filter_def comp_def)
  also have "distinct \<dots>"
    unfolding distinct_map
    by (intro conjI distinct_filter distinct_loop_rows(2) [OF d] inj_onI) (rule inj; simp)
  finally show ?thesis .
qed

lemma rollup_one_distinct:
  assumes "wf_snap rows"
  shows "distinct (map target (rollup_one rows task ph))"
proof -
  have d: "distinct (names rows)" using assms by (simp add: wf_snap_def)
  have w: "distinct (map target (map (\<lambda>i. Skip (js_step_name i) Unreachable)
      (filter (\<lambda>i. js_status i = ''pending'') (loop_rows rows ph))))"
    using filter_map_fst_distinct [OF distinct_loop_rows(1) [OF d]] by (simp add: comp_def)
  show ?thesis
    unfolding rollup_one_alt Let_def
    using w sequential_advance_distinct [OF assms, of ph] sequential_advance_finished by auto
qed

lemma rollup_targets_disjoint:
  assumes d: "distinct (names rows)"
    and x: "x \<in> set rows" "js_status x = ''running''" and y: "y \<in> set rows" "js_status y = ''running''"
    and ne: "x \<noteq> y"
  shows "set (map target (rollup_one rows task x)) \<inter> set (map target (rollup_one rows task y)) = {}"
proof (rule ccontr)
  assume "set (map target (rollup_one rows task x)) \<inter> set (map target (rollup_one rows task y)) \<noteq> {}"
  then obtain c c' where c: "c \<in> set (rollup_one rows task x)" "c' \<in> set (rollup_one rows task y)"
      "target c = target c'" by auto
  have nm: "js_step_name x \<noteq> js_step_name y" using distinct_map_eqD [OF d] x y ne by blast
  have same: "i = j" if "i \<in> set rows" "j \<in> set rows" "js_step_name i = js_step_name j" for i j
    using distinct_map_eqD [OF d] that by blast
  note st = x(2) y(2) x(1) y(1)
  have not_pending: "i \<noteq> x \<and> i \<noteq> y" if "js_status i = ''pending''" for i using st(1,2) that by auto
  from rollup_one_target [OF c(1)] show False
  proof (elim disjE bexE conjE)
    fix i assume i: "i \<in> set rows" "js_loop_source i = Some (js_step_name x)" "js_status i = ''pending''"
      "target c = js_step_name i"
    from rollup_one_target [OF c(2)] show False
    proof (elim disjE bexE conjE)
      fix j assume j: "j \<in> set rows" "js_loop_source j = Some (js_step_name y)" "target c' = js_step_name j"
      have "i = j" using same [OF i(1) j(1)] i(4) j(3) c(3) by simp
      then show False using i(2) j(2) nm by simp
    next
      assume "target c' = js_step_name y"
      then have "i = y" using same [OF i(1) st(4)] i(4) c(3) by simp
      then show False using not_pending i(3) by blast
    qed
  next
    assume tx: "target c = js_step_name x"
    from rollup_one_target [OF c(2)] show False
    proof (elim disjE bexE conjE)
      fix j assume j: "j \<in> set rows" "js_status j = ''pending''" "target c' = js_step_name j"
      have "j = x" using same [OF j(1) st(3)] tx j(3) c(3) by simp
      then show False using not_pending j(2) by blast
    next
      assume "target c' = js_step_name y"
      then show False using tx c(3) nm by simp
    qed
  qed
qed

lemma phase_rollup_valid:
  assumes "wf_snap rows"
  shows "valid_seq rows (phase_rollup rows task)"
proof (rule valid_seq_batch)
  let ?P = "\<lambda>r. is_placeholder r \<and> js_status r = ''running''"
  have d: "distinct (names rows)" using assms by (simp add: wf_snap_def)
  have elem: "\<exists>ph \<in> set rows. ?P ph \<and> c \<in> set (rollup_one rows task ph)" if "c \<in> set (phase_rollup rows task)" for c
    using that by (auto simp: phase_rollup_def)
  show "list_all (valid_change rows) (phase_rollup rows task)"
    unfolding list_all_iff
  proof
    fix c assume "c \<in> set (phase_rollup rows task)"
    then obtain ph where ph: "ph \<in> set rows" "?P ph" "c \<in> set (rollup_one rows task ph)" using elem by blast
    have pa: "row_at rows (js_step_name ph) = Some ph" using row_at_distinct [OF d] ph(1) by blast
    from rollup_one_elem [OF ph(3)] show "valid_change rows c"
      using pending_status [OF d] pa ph(1,2) by (auto simp: valid_change_def)
  qed
  have "inserted c = []" if "c \<in> set (phase_rollup rows task)" for c
    using elem [OF that] rollup_one_elem by fastforce
  then show "disjoint_inserts (phase_rollup rows task)"
    by (intro disjoint_inserts_none) (simp add: list_all_iff)
  show "distinct (map target (phase_rollup rows task))"
    unfolding phase_rollup_def map_concat_map
  proof (rule distinct_concat_map)
    show "distinct (filter ?P rows)" using d by (simp add: distinct_map)
    show "distinct (map target (rollup_one rows task x))" if "x \<in> set (filter ?P rows)" for x
      by (rule rollup_one_distinct [OF assms])
    show "set (map target (rollup_one rows task x)) \<inter> set (map target (rollup_one rows task y)) = {}"
      if x: "x \<in> set (filter ?P rows)" and y: "y \<in> set (filter ?P rows)" and ne: "x \<noteq> y" for x y
      using rollup_targets_disjoint [OF d] x y ne by simp
  qed
qed

end
