(* ===== verification/Cascade_Run.thy ===== *)
theory Cascade_Run
  imports Cascade_Fixpoint Dag
begin

text \<open>
  The cascade as a whole: it returns, within its own pass bound; the plan it returns is valid change
  by change; what stays pending waits for a step that is still at work; and a flow without cycles
  never stalls.
\<close>

section \<open>Loops that make progress\<close>

text \<open>
  A loop that asks what is to do, does it, and stops when there is nothing left. If every round
  shrinks a measure the loop returns, and what it collected leads from the first state to the last.
\<close>

locale progress_loop =
  fixes inv :: "'s \<Rightarrow> bool" and todo :: "'s \<Rightarrow> 'c list" and advance :: "'s \<Rightarrow> 'c list \<Rightarrow> 's"
    and amount :: "'s \<Rightarrow> nat" and loop :: "'s \<Rightarrow> 'c list \<Rightarrow> ('s \<times> 'c list) option"
    and leads :: "'s \<Rightarrow> 'c list \<Rightarrow> 's \<Rightarrow> bool"
  assumes loop_eq: "loop s acc =
      (if todo s = [] then Some (s, acc) else loop (advance s (todo s)) (acc @ todo s))"
    and round_keeps: "inv s \<Longrightarrow> todo s \<noteq> [] \<Longrightarrow> inv (advance s (todo s))"
    and round_shrinks: "inv s \<Longrightarrow> todo s \<noteq> [] \<Longrightarrow> amount (advance s (todo s)) < amount s"
    and leads_refl: "leads s [] s"
    and leads_step: "inv s \<Longrightarrow> todo s \<noteq> [] \<Longrightarrow> leads (advance s (todo s)) cs s' \<Longrightarrow> leads s (todo s @ cs) s'"
begin

lemma loop_returns:
  assumes "inv s"
  shows "\<exists>s' cs. loop s acc = Some (s', acc @ cs) \<and> leads s cs s' \<and> inv s' \<and> todo s' = []"
  using assms
proof (induction "amount s" arbitrary: s acc rule: less_induct)
  case less
  show ?case
  proof (cases "todo s = []")
    case True
    then show ?thesis using less.prems leads_refl by (subst loop_eq) auto
  next
    case False
    have i: "inv (advance s (todo s))" using round_keeps less.prems False by blast
    obtain s' cs where r: "loop (advance s (todo s)) (acc @ todo s) = Some (s', (acc @ todo s) @ cs)"
        "leads (advance s (todo s)) cs s'" "inv s'" "todo s' = []"
      using less.hyps [OF round_shrinks [OF less.prems False] i] by blast
    have "loop s acc = Some (s', acc @ (todo s @ cs))" using r(1) False by (subst loop_eq) simp
    then show ?thesis using leads_step [OF less.prems False r(2)] r(3,4) by blast
  qed
qed

end

lemma batch_shrinks:
  "valid_seq rows cs \<Longrightarrow> cs \<noteq> [] \<Longrightarrow> work (apply_all rows cs) < work rows"
  using valid_seq_uses_work [of rows cs] by (cases cs) auto

interpretation promote: progress_loop wf_snap "\<lambda>rows. promote_batch eng rows task (build_ctx rows)"
  apply_all work "phase_promote eng task build_ctx" "\<lambda>rows cs rows'. valid_seq rows cs \<and> rows' = apply_all rows cs"
  for eng task build_ctx
proof
  fix rows
  have v: "wf_snap rows \<Longrightarrow> valid_seq rows (promote_batch eng rows task (build_ctx rows))"
    by (rule promote_batch_valid) (simp add: wf_snap_def)
  show "phase_promote eng task build_ctx rows acc =
      (if promote_batch eng rows task (build_ctx rows) = [] then Some (rows, acc)
       else phase_promote eng task build_ctx (apply_all rows (promote_batch eng rows task (build_ctx rows)))
         (acc @ promote_batch eng rows task (build_ctx rows)))" for acc
    by (subst phase_promote.simps) (simp add: Let_def)
  show "wf_snap rows \<Longrightarrow> wf_snap (apply_all rows (promote_batch eng rows task (build_ctx rows)))"
    using v wf_snap_apply_all by blast
  show "wf_snap rows \<Longrightarrow> promote_batch eng rows task (build_ctx rows) \<noteq> [] \<Longrightarrow>
      work (apply_all rows (promote_batch eng rows task (build_ctx rows))) < work rows"
    using v batch_shrinks by blast
  show "wf_snap rows \<Longrightarrow>
      valid_seq (apply_all rows (promote_batch eng rows task (build_ctx rows))) cs \<and>
      rows' = apply_all (apply_all rows (promote_batch eng rows task (build_ctx rows))) cs \<Longrightarrow>
      valid_seq rows (promote_batch eng rows task (build_ctx rows) @ cs) \<and>
      rows' = apply_all rows (promote_batch eng rows task (build_ctx rows) @ cs)" for cs rows'
    using v by (simp add: valid_seq_append apply_all_append)
qed simp_all

section \<open>Passes\<close>

definition quiescent ::
  "engine \<Rightarrow> task_def \<Rightarrow> uuid \<Rightarrow> (job_step_row list \<Rightarrow> json option) \<Rightarrow> job_step_row list \<Rightarrow> bool" where
  "quiescent eng task job_id build_ctx rows \<longleftrightarrow>
     phase_rollup rows task = [] \<and> promote_batch eng rows task (build_ctx rows) = [] \<and>
     phase_placeholders eng rows task (build_ctx rows) job_id = []"

lemma cascade_pass_valid:
  assumes "wf_snap rows"
  shows "\<exists>pass. cascade_pass eng task job_id build_ctx rows = Some (apply_all rows pass, pass) \<and>
    valid_seq rows pass \<and> (pass = [] \<longrightarrow> quiescent eng task job_id build_ctx rows)"
proof -
  let ?p0 = "phase_rollup rows task"
  let ?r1 = "apply_all rows ?p0"
  have v0: "valid_seq rows ?p0" by (rule phase_rollup_valid [OF assms])
  have w1: "wf_snap ?r1" using wf_snap_apply_all [OF assms v0] .
  obtain r2 p1 where p1: "phase_promote eng task build_ctx ?r1 [] = Some (r2, p1)" "valid_seq ?r1 p1"
      "r2 = apply_all ?r1 p1" "wf_snap r2" "promote_batch eng r2 task (build_ctx r2) = []"
    using promote.loop_returns [OF w1, of eng task build_ctx "[]"] by auto
  let ?p3 = "phase_placeholders eng r2 task (build_ctx r2) job_id"
  have v3: "valid_seq r2 ?p3" by (rule phase_placeholders_valid [OF p1(4)])
  have "cascade_pass eng task job_id build_ctx rows = Some (apply_all r2 ?p3, ?p0 @ p1 @ ?p3)"
    by (simp add: cascade_pass_def Let_def p1(1))
  moreover have "apply_all r2 ?p3 = apply_all rows (?p0 @ p1 @ ?p3)"
    by (simp add: apply_all_append p1(3))
  moreover have "valid_seq rows (?p0 @ p1 @ ?p3)"
    using v0 p1(2,3) v3 by (simp add: valid_seq_append apply_all_append)
  moreover have "quiescent eng task job_id build_ctx rows" if "?p0 @ p1 @ ?p3 = []"
  proof -
    from that have e: "?p0 = []" "p1 = []" "?p3 = []" by simp_all
    then have "r2 = rows" using p1(3) by simp
    then show ?thesis using e p1(5) by (simp add: quiescent_def)
  qed
  ultimately show ?thesis by metis
qed

lemma cascade_loop_valid:
  assumes "wf_snap rows" "work rows < fuel"
  shows "\<exists>cs. cascade_loop fuel eng task job_id build_ctx rows acc = Some (apply_all rows cs, acc @ cs) \<and>
    valid_seq rows cs \<and> quiescent eng task job_id build_ctx (apply_all rows cs)"
  using assms
proof (induction fuel arbitrary: rows acc)
  case (Suc fuel)
  obtain pass where p: "cascade_pass eng task job_id build_ctx rows = Some (apply_all rows pass, pass)"
      "valid_seq rows pass" "pass = [] \<longrightarrow> quiescent eng task job_id build_ctx rows"
    using cascade_pass_valid [OF Suc.prems(1)] by blast
  show ?case
  proof (cases "pass = []")
    case True
    then have "cascade_loop (Suc fuel) eng task job_id build_ctx rows acc = Some (apply_all rows [], acc @ [])"
      using p(1) by simp
    moreover have "valid_seq rows []" by simp
    moreover have "quiescent eng task job_id build_ctx (apply_all rows [])" using p(3) True by simp
    ultimately show ?thesis by blast
  next
    case False
    have "work (apply_all rows pass) < fuel" using batch_shrinks [OF p(2) False] Suc.prems(2) by simp
    moreover have "wf_snap (apply_all rows pass)" by (rule wf_snap_apply_all [OF Suc.prems(1) p(2)])
    ultimately obtain cs where cs:
        "cascade_loop fuel eng task job_id build_ctx (apply_all rows pass) (acc @ pass) =
          Some (apply_all (apply_all rows pass) cs, (acc @ pass) @ cs)"
        "valid_seq (apply_all rows pass) cs" "quiescent eng task job_id build_ctx (apply_all (apply_all rows pass) cs)"
      using Suc.IH by blast
    have "cascade_loop (Suc fuel) eng task job_id build_ctx rows acc = Some (apply_all rows (pass @ cs), acc @ (pass @ cs))"
      using p(1) False cs(1) by (simp add: apply_all_append)
    moreover have "valid_seq rows (pass @ cs)" using p(2) cs(2) by (simp add: valid_seq_append)
    moreover have "quiescent eng task job_id build_ctx (apply_all rows (pass @ cs))"
      using cs(3) by (simp add: apply_all_append)
    ultimately show ?thesis by blast
  qed
qed simp

text \<open>The code's pass bound is more than the work there is.\<close>

lemma work_le:
  "work rows \<le> length rows + (MAX_FOR_EACH_ITEMS + 1) * length (filter (\<lambda>r. is_placeholder r \<and> js_status r = ''pending'') rows)"
  by (induction rows) (auto simp: work_def weight_def)

lemma work_less_bound: "work rows < pass_bound rows"
proof -
  let ?pp = "length (filter (\<lambda>r. is_placeholder r \<and> js_status r = ''pending'') rows)"
  have "?pp \<le> length rows" by simp
  moreover have "(MAX_FOR_EACH_ITEMS + 1) * ?pp = MAX_FOR_EACH_ITEMS * ?pp + ?pp" by simp
  ultimately have "work rows \<le> 2 * length rows + MAX_FOR_EACH_ITEMS * ?pp"
    using work_le [of rows] by linarith
  moreover have "pass_bound rows = 4 * length rows + 4 * (MAX_FOR_EACH_ITEMS * ?pp) + 1"
    by (simp add: pass_bound_def Let_def)
  ultimately show ?thesis by linarith
qed

section \<open>Redaction of the plan changes messages only\<close>

definition same_state :: "job_step_row \<Rightarrow> job_step_row \<Rightarrow> bool" where
  "same_state r r' \<longleftrightarrow> shape r' = shape r \<and> js_status r' = js_status r \<and> js_skip_reason r' = js_skip_reason r \<and>
     js_when_condition r' = js_when_condition r \<and> js_job_id r' = js_job_id r \<and>
     js_action_type r' = js_action_type r \<and> js_runner r' = js_runner r"

lemma same_state_refl [simp]: "same_state r r"
  by (simp add: same_state_def)

lemma list_all2_same_names: "list_all2 same_state rows rows' \<Longrightarrow> names rows' = names rows"
  by (induction rule: list_all2_induct) (auto simp: same_state_def shape_def)

lemma same_state_row_index: "list_all2 same_state rows rows' \<Longrightarrow> row_index rows' n = row_index rows n"
  by (rule row_index_names_cong) (rule list_all2_same_names)

lemma same_state_update:
  assumes "list_all2 same_state rows rows'" "\<And>r r'. same_state r r' \<Longrightarrow> same_state (f r) (g r')"
  shows "list_all2 same_state (update_row n f rows) (update_row n g rows')"
proof (cases "row_index rows n")
  case None
  then show ?thesis using assms(1) same_state_row_index [OF assms(1)] by (simp add: update_row_def)
next
  case (Some i)
  then have i: "i < length rows" using row_index_Some by blast
  have "same_state (rows ! i) (rows' ! i)" using assms(1) i by (simp add: list_all2_conv_all_nth)
  then show ?thesis
    using Some assms same_state_row_index [OF assms(1)]
    by (simp add: update_row_def list_all2_update_cong)
qed

lemma same_state_apply:
  assumes "list_all2 same_state rows rows'"
  shows "list_all2 same_state (snap_apply c rows) (snap_apply (redact_change eng secrets c) rows')"
proof -
  have t: "target (redact_change eng secrets c) = target c" "new_rows (redact_change eng secrets c) = new_rows c"
    by (cases c; simp)+
  have "same_state (row_write c r) (row_write (redact_change eng secrets c) r')" if "same_state r r'" for r r'
    using that by (cases "(c, r)" rule: row_write.cases) (simp_all add: same_state_def shape_def)
  then have "list_all2 same_state (update_row (target c) (row_write c) rows)
      (update_row (target c) (row_write (redact_change eng secrets c)) rows')"
    by (rule same_state_update [OF assms])
  then show ?thesis by (simp add: snap_apply_split t list_all2_appendI list_all2_refl)
qed

lemma same_state_apply_all:
  "list_all2 same_state rows rows' \<Longrightarrow>
   list_all2 same_state (apply_all rows cs) (apply_all rows' (map (redact_change eng secrets) cs))"
proof (induction cs arbitrary: rows rows')
  case (Cons c cs)
  from Cons.IH [OF same_state_apply [OF Cons.prems]] show ?case by simp
qed simp

lemma same_state_row_at:
  assumes "list_all2 same_state rows rows'" "row_at rows n = Some r"
  shows "\<exists>r'. row_at rows' n = Some r' \<and> same_state r r'"
proof -
  obtain i where i: "row_index rows n = Some i" "rows ! i = r" using assms(2) by (auto simp: row_at_def)
  then have "i < length rows" using row_index_Some by blast
  then have "same_state r (rows' ! i)" using assms(1) i(2) by (auto simp: list_all2_conv_all_nth)
  then show ?thesis using i(1) same_state_row_index [OF assms(1)] by (simp add: row_at_def)
qed

lemma same_state_outcome:
  assumes "list_all2 same_state rows rows'"
  shows "snap_outcome rows' n = snap_outcome rows n"
proof (cases "row_at rows n")
  case None
  then have "n \<notin> set (names rows)" using row_at_None by blast
  then have "n \<notin> set (names rows')" using list_all2_same_names [OF assms] by metis
  then have "row_at rows' n = None" using row_at_None by blast
  then show ?thesis using None by (simp add: snap_outcome_row_at)
next
  case (Some r)
  then obtain r' where "row_at rows' n = Some r'" "same_state r r'" using same_state_row_at [OF assms] by blast
  then show ?thesis using Some by (simp add: snap_outcome_row_at same_state_def)
qed

lemma same_state_gate: "list_all2 same_state rows rows' \<Longrightarrow> gate_for rows' fs = gate_for rows fs"
proof -
  assume "list_all2 same_state rows rows'"
  then have "snap_outcome rows' = snap_outcome rows" by (intro ext same_state_outcome)
  then show ?thesis by (simp add: gate_for_def)
qed

lemma valid_change_same_state:
  assumes "list_all2 same_state rows rows'" "valid_change rows c"
  shows "valid_change rows' (redact_change eng secrets c)"
proof -
  have t: "target (redact_change eng secrets c) = target c"
    "source_status (redact_change eng secrets c) = source_status c" by (cases c; simp)+
  obtain r where r: "row_at rows (target c) = Some r" "js_status r = source_status c"
    using assms(2) by (auto simp: valid_change_def snap_status_row_at)
  obtain r' where r': "row_at rows' (target c) = Some r'" "same_state r r'"
    using same_state_row_at [OF assms(1) r(1)] by blast
  have p: "is_placeholder r' = is_placeholder r" "js_status r' = js_status r"
    using r'(2) by (simp_all add: same_state_def shape_def is_placeholder_def)
  show ?thesis
    using assms(2) r r' p list_all2_same_names [OF assms(1)]
    by (cases c) (auto simp: valid_change_def snap_status_row_at)
qed

lemma valid_seq_redacted:
  "valid_seq rows cs \<Longrightarrow> list_all2 same_state rows rows' \<Longrightarrow>
   valid_seq rows' (map (redact_change eng secrets) cs)"
proof (induction cs arbitrary: rows rows')
  case (Cons c cs)
  have "valid_change rows' (redact_change eng secrets c)"
    using valid_change_same_state Cons.prems by simp
  moreover have "valid_seq (snap_apply (redact_change eng secrets c) rows') (map (redact_change eng secrets) cs)"
    using Cons.prems by (intro Cons.IH [OF _ same_state_apply]) simp_all
  ultimately show ?case by simp
qed simp

section \<open>The plan\<close>

text \<open>
  What \<^const>\<open>cascade_run\<close> returns: the changes of the loop, with the failure messages scrubbed or not.
\<close>

lemma cascade_run_valid:
  assumes "wf_snap rows"
  shows "\<exists>p cs build_ctx. cascade_run eng task job rows ws snaps = Some p \<and> valid_seq rows (pl_changes p) \<and>
    build_ctx = (\<lambda>rs. map_option (\<lambda>w. condition_context job rs w snaps) ws) \<and>
    quiescent eng task (j_job_id job) build_ctx (apply_all rows cs) \<and>
    list_all2 same_state (apply_all rows cs) (apply_all rows (pl_changes p)) \<and> wf_snap (apply_all rows cs)"
proof -
  let ?b = "\<lambda>rs. map_option (\<lambda>w. condition_context job rs w snaps) ws"
  obtain cs where cs: "cascade_loop (pass_bound rows) eng task (j_job_id job) ?b rows [] =
      Some (apply_all rows cs, [] @ cs)" "valid_seq rows cs"
      "quiescent eng task (j_job_id job) ?b (apply_all rows cs)"
    using cascade_loop_valid [OF assms work_less_bound, of eng task "j_job_id job" ?b "[]"] by blast
  have refl: "list_all2 same_state r r" for r by (simp add: list_all2_refl)
  have w: "wf_snap (apply_all rows cs)" using wf_snap_apply_all assms cs(2) by blast
  have red: "valid_seq rows (map (redact_change eng s) cs)"
    "list_all2 same_state (apply_all rows cs) (apply_all rows (map (redact_change eng s) cs))" for s
    using valid_seq_redacted [OF cs(2) refl] same_state_apply_all [OF refl] by blast+
  have "\<exists>p. cascade_run eng task job rows ws snaps = Some p \<and>
      (pl_changes p = cs \<or> (\<exists>s. pl_changes p = map (redact_change eng s) cs))"
    using cs(1) by (auto simp: cascade_run_def Let_def split: option.split)
  then show ?thesis using cs(2,3) red refl w by metis
qed

text \<open>
  C1. The cascade always returns a plan, and the plan is executable. On every well-formed set of
  rows the loop stops by itself before its pass bound is reached, and each change of the plan, taken
  in order, finds its target in exactly the status it moves from; expansions insert only new
  names, at most 10000 each. The statuses, with their skip reasons, then are those of a state in
  which no phase has anything left to do.
\<close>

theorem cascade_plan_valid:
  assumes "wf_snap rows"
  shows "\<exists>p. cascade_run eng task job rows ws snaps = Some p \<and> valid_seq rows (pl_changes p) \<and>
    wf_snap (apply_all rows (pl_changes p)) \<and> work (apply_all rows (pl_changes p)) + length (pl_changes p) \<le> work rows \<and>
    (\<exists>rows'. quiescent eng task (j_job_id job) (\<lambda>rs. map_option (\<lambda>w. condition_context job rs w snaps) ws) rows' \<and>
      list_all2 same_state rows' (apply_all rows (pl_changes p)))"
proof -
  obtain p cs where p: "cascade_run eng task job rows ws snaps = Some p" "valid_seq rows (pl_changes p)"
      "quiescent eng task (j_job_id job) (\<lambda>rs. map_option (\<lambda>w. condition_context job rs w snaps) ws) (apply_all rows cs)"
      "list_all2 same_state (apply_all rows cs) (apply_all rows (pl_changes p))"
    using cascade_run_valid [OF assms] by blast
  then show ?thesis using wf_snap_apply_all [OF assms p(2)] valid_seq_uses_work [OF p(2)] by blast
qed

text \<open>When a phase has nothing to do.\<close>

lemma concat_empty: "concat (map f xs) = [] \<longleftrightarrow> (\<forall>x \<in> set xs. f x = [])"
  by auto

lemma quiescent_waits:
  assumes "quiescent eng task job_id build_ctx rows" "build_ctx rows = Some ctx" "r \<in> set rows"
    "js_status r = ''pending''" "map_of (td_flow task) (js_step_name r) = Some fs"
  shows "gate_for rows fs = Wait"
proof (cases "is_placeholder r")
  case False
  then have "promote_one eng rows task (build_ctx rows) r = []"
    using assms(1,3,4) unfolding quiescent_def promote_batch_def concat_empty by simp
  then show ?thesis using assms(2,5)
    by (auto simp: promote_one_def split: gate_decision.splits option.splits sum.splits bool.splits)
next
  case True
  then have "placeholder_one eng rows task ctx job_id r = []"
    using assms unfolding quiescent_def phase_placeholders_def assms(2) option.case concat_empty by simp
  then show ?thesis using assms(5)
    by (auto simp: placeholder_one_def split: gate_decision.splits option.splits sum.splits bool.splits if_splits)
qed

lemma quiescent_loop:
  assumes "quiescent eng task job_id build_ctx rows" "ph \<in> set rows" "is_placeholder ph" "js_status ph = ''running''"
    "i \<in> set rows" "js_loop_source i = Some (js_step_name ph)"
  shows "\<exists>i \<in> set rows. js_loop_source i = Some (js_step_name ph) \<and> \<not> is_terminal (js_status i)"
proof (rule ccontr)
  assume "\<not> ?thesis"
  then have all: "list_all (\<lambda>i. is_terminal (js_status i)) (loop_rows rows ph)"
    by (auto simp: list_all_iff set_loop_rows)
  have "rollup_one rows task ph = []"
    using assms(1-4) unfolding quiescent_def phase_rollup_def concat_empty by simp
  moreover have "loop_rows rows ph \<noteq> []" using assms(5,6) set_loop_rows by (metis empty_iff empty_set)
  moreover have "filter (\<lambda>i. js_status i = ''pending'') (loop_rows rows ph) = []"
    using all by (auto simp: filter_empty_conv list_all_iff)
  ultimately show False using all unfolding rollup_one_alt Let_def by (auto split: if_splits)
qed

lemma plan_settles:
  assumes "wf_snap rows" "cascade_run eng task job rows (Some cfg) snaps = Some p"
    and "rows' = apply_all rows (pl_changes p)"
  shows "(\<forall>r \<in> set rows'. \<forall>fs. js_status r = ''pending'' \<and> map_of (td_flow task) (js_step_name r) = Some fs \<longrightarrow>
      gate_for rows' fs = Wait) \<and>
    (\<forall>ph \<in> set rows'. is_placeholder ph \<and> js_status ph = ''running'' \<and>
      (\<exists>i \<in> set rows'. js_loop_source i = Some (js_step_name ph)) \<longrightarrow>
      (\<exists>i \<in> set rows'. js_loop_source i = Some (js_step_name ph) \<and> \<not> is_terminal (js_status i)))"
proof -
  let ?b = "\<lambda>rs. map_option (\<lambda>w. condition_context job rs w snaps) (Some cfg)"
  obtain cs where q: "quiescent eng task (j_job_id job) ?b (apply_all rows cs)"
      "list_all2 same_state (apply_all rows cs) rows'"
    using cascade_run_valid [OF assms(1), of eng task job "Some cfg" snaps] assms(2,3) by auto
  let ?q = "apply_all rows cs"
  have bwd: "\<exists>r0 \<in> set ?q. same_state r0 r" if "r \<in> set rows'" for r
    using list_all2_setD2 [OF q(2) that] .
  have fwd: "\<exists>r \<in> set rows'. same_state r0 r" if "r0 \<in> set ?q" for r0
    using list_all2_setD1 [OF q(2) that] .
  note same = same_state_def shape_def is_placeholder_def
  have wait: "gate_for rows' fs = Wait"
    if r: "r \<in> set rows'" "js_status r = ''pending''" "map_of (td_flow task) (js_step_name r) = Some fs" for r fs
  proof -
    obtain r0 where r0: "r0 \<in> set ?q" "same_state r0 r" using bwd [OF r(1)] by blast
    have "gate_for ?q fs = Wait"
      using quiescent_waits [OF q(1) _ r0(1)] r0(2) r(2,3) by (simp add: same)
    then show ?thesis using same_state_gate [OF q(2)] by simp
  qed
  have loops: "\<exists>i \<in> set rows'. js_loop_source i = Some (js_step_name ph) \<and> \<not> is_terminal (js_status i)"
    if ph: "ph \<in> set rows'" "is_placeholder ph" "js_status ph = ''running''"
      and i: "i \<in> set rows'" "js_loop_source i = Some (js_step_name ph)" for ph i
  proof -
    obtain p0 where p0: "p0 \<in> set ?q" "same_state p0 ph" using bwd [OF ph(1)] by blast
    obtain i0 where i0: "i0 \<in> set ?q" "same_state i0 i" using bwd [OF i(1)] by blast
    have "\<exists>k \<in> set ?q. js_loop_source k = Some (js_step_name p0) \<and> \<not> is_terminal (js_status k)"
      using quiescent_loop [OF q(1) p0(1) _ _ i0(1)] p0(2) i0(2) ph(2,3) i(2) by (simp add: same)
    then obtain k where k: "k \<in> set ?q" "js_loop_source k = Some (js_step_name p0)" "\<not> is_terminal (js_status k)" by blast
    then obtain k' where "k' \<in> set rows'" "same_state k k'" using fwd by blast
    then show ?thesis using k p0(2) by (intro bexI [of _ k']) (simp_all add: same)
  qed
  show ?thesis using wait loops by blast
qed

lemma names_apply_all: "set (names rows) \<subseteq> set (names (apply_all rows cs))"
proof (induction cs arbitrary: rows)
  case (Cons c cs)
  have "set (names rows) \<subseteq> set (names (snap_apply c rows))" by (simp only: names_snap_apply set_append Un_upper1)
  then show ?case using Cons.IH [of "snap_apply c rows"] by simp
qed simp

section \<open>Properties\<close>

text \<open>
  Nothing is forgotten. After a plan made with a template context is applied, every flow step
  that is still pending waits for a step that is not finished, and every running loop that has
  instances has one that is not finished.
\<close>

theorem cascade_settles:
  assumes "wf_snap rows" "cascade_run eng task job rows (Some cfg) snaps = Some p"
    and "rows' = apply_all rows (pl_changes p)"
  shows "(\<forall>r \<in> set rows'. \<forall>fs. js_status r = ''pending'' \<and> map_of (td_flow task) (js_step_name r) = Some fs \<longrightarrow>
      gate_for rows' fs = Wait) \<and>
    (\<forall>ph \<in> set rows'. is_placeholder ph \<and> js_status ph = ''running'' \<and>
      (\<exists>i \<in> set rows'. js_loop_source i = Some (js_step_name ph)) \<longrightarrow>
      (\<exists>i \<in> set rows'. js_loop_source i = Some (js_step_name ph) \<and> \<not> is_terminal (js_status i)))"
  using plan_settles [OF assms] .

text \<open>A concrete engine, task and job: a step \<^verbatim>\<open>b\<close> that needs \<^verbatim>\<open>a\<close>.\<close>

definition plain_engine :: engine where
  "plain_engine = \<lparr>eng_render = (\<lambda>t c. Inr t), eng_from_str = (\<lambda>s. Inl (''Syntax'', 1, 1)),
     eng_json_escape = id, eng_debug_escape = id\<rparr>"

definition two_task :: task_def where
  "two_task = plain_task [(''a'', plain_step []), (''b'', plain_step [Name ''a''])]"

definition two_rows :: "job_step_row list" where
  "two_rows = [test_default 1 ''a'', test_default 1 ''b'']"

lemma two_rows_wf: "wf_snap two_rows"
  by (simp add: wf_snap_def wf_row_def two_rows_def test_default_def)

theorem cascade_plan_valid_witness:
  "\<exists>p. cascade_run plain_engine two_task (test_default_job 1 0) two_rows None default_snapshots = Some p \<and>
     valid_seq two_rows (pl_changes p)"
  using cascade_plan_valid [OF two_rows_wf, of plain_engine two_task "test_default_job 1 0" None default_snapshots]
  by blast

theorem cascade_settles_witness:
  "\<exists>p. cascade_run plain_engine two_task (test_default_job 1 0) two_rows (Some empty_config) default_snapshots = Some p \<and>
     (\<forall>r \<in> set (apply_all two_rows (pl_changes p)). \<forall>fs.
        js_status r = ''pending'' \<and> map_of (td_flow two_task) (js_step_name r) = Some fs \<longrightarrow>
        gate_for (apply_all two_rows (pl_changes p)) fs = Wait)"
proof -
  obtain p where p: "cascade_run plain_engine two_task (test_default_job 1 0) two_rows
      (Some empty_config) default_snapshots = Some p"
    using cascade_run_valid [OF two_rows_wf] by blast
  then show ?thesis using cascade_settles [OF two_rows_wf p refl] by blast
qed

lemma plan_no_stall:
  assumes "wf_snap rows" "cascade_run eng task job rows (Some cfg) snaps = Some p"
    and "rows' = apply_all rows (pl_changes p)"
    and "acyclic (dep_rel (td_flow task))" "closed_flow (td_flow task)"
    and "list_all (\<lambda>n. n \<in> set (names rows)) (keys (td_flow task))"
    and "list_all (\<lambda>r. is_terminal (js_status r) \<or> js_status r = ''pending'') rows'"
  shows "list_all (\<lambda>n. \<exists>r. row_at rows' n = Some r \<and> is_terminal (js_status r)) (keys (td_flow task))"
proof -
  let ?fl = "td_flow task"
  let ?S = "{n. contains_key ?fl n \<and> \<not> (\<exists>r. row_at rows' n = Some r \<and> is_terminal (js_status r))}"
  have row: "\<exists>r \<in> set rows'. row_at rows' n = Some r \<and> js_step_name r = n" if k: "contains_key ?fl n" for n
  proof -
    obtain fs where "map_of ?fl n = Some fs" using k by blast
    then have "n \<in> set (names rows)" using assms(6) map_of_SomeD by (fastforce simp: list_all_iff)
    then have "n \<in> set (names rows')" using names_apply_all assms(3) by blast
    then show ?thesis using row_at_None [of rows' n] row_at_name [of rows' n] by (metis option.exhaust)
  qed
  have down: "\<exists>d. (d, n) \<in> dep_rel ?fl \<and> d \<in> ?S" if n: "n \<in> ?S" for n
  proof -
    have k: "contains_key ?fl n" using n by blast
    then obtain fs where fs: "map_of ?fl n = Some fs" by blast
    obtain r where r: "r \<in> set rows'" "row_at rows' n = Some r" "js_step_name r = n" using row [OF k] by blast
    have "\<not> is_terminal (js_status r)" using n r(2) by blast
    then have "js_status r = ''pending''" using assms(7) r(1) by (auto simp: list_all_iff)
    then have "gate_for rows' fs = Wait" using plan_settles [OF assms(1-3)] r fs by blast
    then obtain d where d: "d \<in> set (dep_names fs)" "snap_outcome rows' d = DPending"
      by (auto simp: gate_for_def gate_def barrier_iff dep_names_def split: if_splits)
    have kd: "contains_key ?fl d"
      using assms(5) d(1) map_of_SomeD [OF fs] by (fastforce simp: closed_flow_def list_all_iff)
    obtain rd where rd: "row_at rows' d = Some rd" using row [OF kd] by blast
    have "\<not> is_terminal (js_status rd)" using d(2) rd by (simp add: snap_outcome_row_at from_row_pending_iff)
    then show ?thesis using kd rd fs d(1) by (auto simp: dep_rel_def)
  qed
  have "wf (dep_rel ?fl)" using finite_acyclic_wf dep_rel_finite assms(4) by blast
  then have "?S = {}" using down by (metis (no_types, lifting) wfE_min ex_in_conv)
  moreover have "contains_key ?fl n" if "n \<in> set (keys ?fl)" for n
    using that by (simp add: map_of_eq_None_iff)
  ultimately show ?thesis unfolding list_all_iff by blast
qed

text \<open>
  A flow without cycles never stalls. Take a closed, acyclic flow whose steps all have rows.
  If after a plan is applied no row is at work (ready, claimed, running or suspended), then every
  step of the flow is finished: the job can settle.
\<close>

theorem cascade_no_stall:
  assumes "wf_snap rows" "cascade_run eng task job rows (Some cfg) snaps = Some p"
    and "rows' = apply_all rows (pl_changes p)"
    and "acyclic (dep_rel (td_flow task))" "closed_flow (td_flow task)"
    and "list_all (\<lambda>n. n \<in> set (names rows)) (keys (td_flow task))"
    and "list_all (\<lambda>r. is_terminal (js_status r) \<or> js_status r = ''pending'') rows'"
  shows "list_all (\<lambda>n. \<exists>r. row_at rows' n = Some r \<and> is_terminal (js_status r)) (keys (td_flow task))"
  by (rule plan_no_stall [OF assms])

definition failed_rows :: "job_step_row list" where
  "failed_rows = [(test_default 1 ''a'')\<lparr>js_status := ''failed''\<rparr>, test_default 1 ''b'']"

lemma failed_plan: "cascade_run plain_engine two_task (test_default_job 1 0) failed_rows (Some empty_config)
    default_snapshots = Some \<lparr>pl_changes = [Skip ''b'' Unreachable]\<rparr>"
  by code_simp

lemma two_task_acyclic: "acyclic (dep_rel (td_flow two_task))"
proof -
  have "dep_rel (td_flow two_task) = {(''a'', ''b'')}"
    by (auto simp: dep_rel_def two_task_def plain_task_def plain_step_def dep_names_def split: if_splits)
  then show ?thesis by (simp add: acyclic_insert wf_acyclic)
qed

theorem cascade_no_stall_witness:
  "list_all (\<lambda>n. \<exists>r. row_at (apply_all failed_rows [Skip ''b'' Unreachable]) n = Some r \<and>
      is_terminal (js_status r)) [''a'', ''b'']"
proof -
  have w: "wf_snap failed_rows"
    by (simp add: wf_snap_def wf_row_def failed_rows_def test_default_def)
  have k: "keys (td_flow two_task) = [''a'', ''b'']" by (simp add: two_task_def plain_task_def)
  have c: "closed_flow (td_flow two_task)" by code_simp
  have n: "list_all (\<lambda>n. n \<in> set (names failed_rows)) (keys (td_flow two_task))" by code_simp
  have t: "list_all (\<lambda>r. is_terminal (js_status r) \<or> js_status r = ''pending'')
      (apply_all failed_rows (pl_changes \<lparr>pl_changes = [Skip ''b'' Unreachable]\<rparr>))" by code_simp
  show ?thesis
    using cascade_no_stall [OF w failed_plan refl two_task_acyclic c n t] by (simp only: k plan.simps)
qed

end
