(* ===== verification/Job_Store.thy ===== *)
theory Job_Store
  imports Db_Rows
begin

text \<open>
  The job half of the store (\<^verbatim>\<open>JobRepo\<close>, \<^verbatim>\<open>stroem-db/src/repos/job.rs\<close>): lookups, status writes,
  settlement, retry lineage and cancellation. Creation, listings and statistics are not here.
  Failures of the connection itself are outside the model.
\<close>

section \<open>Definitions\<close>

definition job_get :: "uuid \<Rightarrow> db \<Rightarrow> job_row option" where
  "job_get job_id d = select_one (\<lambda>j. j_job_id j = job_id) (jobs d)"

definition job_update_status :: "uuid \<Rightarrow> string \<Rightarrow> db \<Rightarrow> db" where
  "job_update_status job_id status d =
     fst (update_jobs (\<lambda>j. j_job_id j = job_id) (\<lambda>j. j\<lparr>j_status := status\<rparr>) d)"

definition job_mark_running :: "time \<Rightarrow> uuid \<Rightarrow> uuid \<Rightarrow> db \<Rightarrow> db" where
  "job_mark_running now job_id worker_id d =
     fst (update_jobs (\<lambda>j. j_job_id j = job_id)
       (\<lambda>j. j\<lparr>j_status := ''running'', j_worker_id := Some worker_id, j_started_at := Some now\<rparr>) d)"

definition mark_running_if_pending :: "time \<Rightarrow> uuid \<Rightarrow> uuid \<Rightarrow> db \<Rightarrow> db" where
  "mark_running_if_pending now job_id worker_id d =
     fst (update_jobs (\<lambda>j. j_job_id j = job_id \<and> j_status j = ''pending'')
       (\<lambda>j. j\<lparr>j_status := ''running'', j_worker_id := Some worker_id, j_started_at := Some now\<rparr>) d)"

definition mark_running_if_pending_server :: "time \<Rightarrow> uuid \<Rightarrow> db \<Rightarrow> db" where
  "mark_running_if_pending_server now job_id d =
     fst (update_jobs (\<lambda>j. j_job_id j = job_id \<and> j_status j = ''pending'')
       (\<lambda>j. j\<lparr>j_status := ''running'', j_started_at := Some now\<rparr>) d)"

definition mark_running_if_pending_tx :: "time \<Rightarrow> uuid \<Rightarrow> db \<Rightarrow> db" where
  "mark_running_if_pending_tx now job_id d =
     fst (update_jobs (\<lambda>j. j_job_id j = job_id \<and> j_status j = ''pending'')
       (\<lambda>j. j\<lparr>j_status := ''running'', j_started_at := Some now\<rparr>) d)"

definition job_mark_completed :: "time \<Rightarrow> uuid \<Rightarrow> json option \<Rightarrow> db \<Rightarrow> db" where
  "job_mark_completed now job_id out d =
     fst (update_jobs (\<lambda>j. j_job_id j = job_id)
       (\<lambda>j. j\<lparr>j_status := ''completed'', j_output := out, j_completed_at := Some now\<rparr>) d)"

definition settle_tx :: "time \<Rightarrow> uuid \<Rightarrow> job_status \<Rightarrow> json option \<Rightarrow> db \<Rightarrow> db \<times> bool" where
  "settle_tx now job_id status out d =
     (let (d', n) = update_jobs
            (\<lambda>j. j_job_id j = job_id \<and> j_status j \<in> {''pending'', ''running''})
            (\<lambda>j. j\<lparr>j_status := job_status_str status,
                   j_output := (case out of Some v \<Rightarrow> Some v | None \<Rightarrow> j_output j),
                   j_completed_at := Some now\<rparr>) d
      in (d', n > 0))"

definition link_retry_tx :: "uuid \<Rightarrow> uuid \<Rightarrow> uuid \<Rightarrow> int \<Rightarrow> db \<Rightarrow> string + db" where
  "link_retry_tx failed_job_id retry_job_id root_job_id retry_attempt d =
     (let (d1, n) = update_jobs (\<lambda>j. j_job_id j = retry_job_id)
            (\<lambda>j. j\<lparr>j_retry_of_job_id := Some root_job_id, j_retry_attempt := retry_attempt\<rparr>) d
      in if n \<noteq> 1
         then Inl (''retry job '' @ show_nat retry_job_id @ '' not found while linking its lineage'')
         else Inr (fst (update_jobs (\<lambda>j. j_job_id j = failed_job_id)
                    (\<lambda>j. j\<lparr>j_retry_job_id := Some retry_job_id\<rparr>) d1)))"

definition job_mark_failed_tx :: "time \<Rightarrow> uuid \<Rightarrow> db \<Rightarrow> db" where
  "job_mark_failed_tx now job_id d =
     fst (update_jobs (\<lambda>j. j_job_id j = job_id)
       (\<lambda>j. j\<lparr>j_status := ''failed'', j_completed_at := Some now\<rparr>) d)"

definition job_mark_cancelled :: "time \<Rightarrow> uuid \<Rightarrow> db \<Rightarrow> db" where
  "job_mark_cancelled now job_id d =
     fst (update_jobs (\<lambda>j. j_job_id j = job_id)
       (\<lambda>j. j\<lparr>j_status := ''cancelled'', j_completed_at := Some now\<rparr>) d)"

definition set_retry_job_id :: "uuid \<Rightarrow> uuid \<Rightarrow> db \<Rightarrow> db" where
  "set_retry_job_id job_id retry_job_id d =
     fst (update_jobs (\<lambda>j. j_job_id j = job_id) (\<lambda>j. j\<lparr>j_retry_job_id := Some retry_job_id\<rparr>) d)"

definition job_cancel :: "time \<Rightarrow> uuid \<Rightarrow> db \<Rightarrow> db \<times> bool" where
  "job_cancel now job_id d =
     (let (d', n) = update_jobs
            (\<lambda>j. j_job_id j = job_id \<and> j_status j \<in> {''pending'', ''running''})
            (\<lambda>j. j\<lparr>j_status := ''cancelled'', j_completed_at := Some now\<rparr>) d
      in (d', n > 0))"

definition get_child_jobs :: "uuid \<Rightarrow> db \<Rightarrow> job_row list" where
  "get_child_jobs parent_job_id d =
     filter (\<lambda>j. sql_eq (j_parent_job_id j) parent_job_id \<and> j_status j \<in> {''pending'', ''running''})
       (jobs d)"

text \<open>
  The tarball revisions the cache must keep: those of running jobs, of their cross-workspace steps,
  and of failed top-level jobs that may still be retried.
\<close>

definition retry_owed :: "time \<Rightarrow> job_row \<Rightarrow> bool" where
  "retry_owed now j \<longleftrightarrow> j_status j = ''failed'' \<and> j_parent_job_id j = None \<and> j_retry_job_id j = None \<and>
     (case j_max_retries j of None \<Rightarrow> False | Some m \<Rightarrow> j_retry_attempt j < m) \<and>
     (case j_completed_at j of None \<Rightarrow> False | Some c \<Rightarrow> c > now - seconds 3600)"

definition live_job_of :: "db \<Rightarrow> step_record \<Rightarrow> bool" where
  "live_job_of d s \<longleftrightarrow>
     list_ex (\<lambda>j. j_job_id j = js_job_id s \<and> j_status j \<in> {''pending'', ''running''}) (jobs d)"

definition pair_of :: "'a option \<Rightarrow> 'b option \<Rightarrow> ('a \<times> 'b) list" where
  "pair_of a b = (case (a, b) of (Some x, Some y) \<Rightarrow> [(x, y)] | _ \<Rightarrow> [])"

definition tarball_keep_revisions :: "time \<Rightarrow> db \<Rightarrow> (string \<times> string) list" where
  "tarball_keep_revisions now d = remdups (
     concat (map (\<lambda>j. pair_of (Some (j_workspace j)) (j_revision j))
       (filter (\<lambda>j. j_status j \<in> {''pending'', ''running''}) (jobs d))) @
     concat (map (\<lambda>s. pair_of (js_action_workspace s) (js_action_revision s))
       (filter (live_job_of d) (steps d))) @
     concat (map (\<lambda>j. pair_of (Some (j_workspace j)) (j_revision j))
       (filter (retry_owed now) (jobs d))))"

text \<open>\<open>ref_pins\<close> stands for the rows \<^verbatim>\<open>(job_id, workspace, commit)\<close> of the table \<^verbatim>\<open>job_ref_pin\<close>.\<close>

definition pin_keep_set :: "time \<Rightarrow> (uuid \<times> string \<times> string) list \<Rightarrow> db \<Rightarrow> (string \<times> string) list" where
  "pin_keep_set now ref_pins d = remdups (
     concat (map (\<lambda>j. pair_of (Some (j_workspace j)) (j_revision j))
       (filter (\<lambda>j. j_status j \<in> {''pending'', ''running''} \<and> j_git_ref j \<noteq> None) (jobs d))) @
     concat (map (\<lambda>s. pair_of (js_action_workspace s) (js_action_revision s))
       (filter (\<lambda>s. live_job_of d s \<and> js_action_ref s \<noteq> None) (steps d))) @
     concat (map (\<lambda>s. pair_of (js_task_workspace s) (js_task_revision s))
       (filter (\<lambda>s. live_job_of d s \<and> js_task_ref s \<noteq> None) (steps d))) @
     map snd (filter (\<lambda>p. list_ex (\<lambda>j. j_job_id j = fst p \<and> j_status j \<in> {''pending'', ''running''})
       (jobs d)) ref_pins) @
     concat (map (\<lambda>j. pair_of (Some (j_workspace j)) (j_revision j))
       (filter (\<lambda>j. retry_owed now j \<and> j_git_ref j \<noteq> None) (jobs d))))"

section \<open>Lemmas\<close>

definition job_moves :: "job_row \<Rightarrow> job_row \<Rightarrow> bool" where
  "job_moves j j' \<longleftrightarrow> j_job_id j' = j_job_id j \<and>
     (j_status j \<notin> {''pending'', ''running''} \<longrightarrow> j' = j)"

text \<open>The contract of a settlement: it writes the live job it names and nothing else.\<close>

locale settling_write =
  fixes run :: "db \<Rightarrow> db \<times> bool" and target :: uuid
  assumes steps_kept: "steps (fst (run d)) = steps d"
    and jobs_move: "list_all2 job_moves (jobs d) (jobs (fst (run d)))"
    and wrote_iff: "snd (run d) \<longleftrightarrow>
      (\<exists>j \<in> set (jobs d). j_job_id j = target \<and> j_status j \<in> {''pending'', ''running''})"
    and leaves_live: "j \<in> set (jobs (fst (run d))) \<Longrightarrow> j_job_id j = target \<Longrightarrow>
      j_status j \<notin> {''pending'', ''running''}"
begin

lemma keys_kept: "map j_job_id (jobs (fst (run d))) = map j_job_id (jobs d)"
  using jobs_move [of d]
  by (intro nth_equalityI) (auto simp: list_all2_conv_all_nth job_moves_def)

lemma settled_kept:
  assumes "j \<in> set (jobs d)" "j_status j \<notin> {''pending'', ''running''}"
  shows "j \<in> set (jobs (fst (run d)))"
  using assms jobs_move [of d]
  by (metis (no_types, lifting) in_set_conv_nth list_all2_conv_all_nth job_moves_def)

text \<open>Of any number of writers only the first succeeds.\<close>

lemma second_loses: "\<not> snd (run (fst (run d)))"
  using wrote_iff [of "fst (run d)"] leaves_live by blast

end

lemma settling_write_update:
  assumes "\<And>j. j_job_id (f j) = j_job_id j \<and> j_status (f j) \<notin> {''pending'', ''running''}"
  shows "settling_write (\<lambda>d. let (d', n) = update_jobs
      (\<lambda>j. j_job_id j = target \<and> j_status j \<in> {''pending'', ''running''}) f d in (d', n > 0)) target"
proof (unfold_locales, goal_cases)
  case (1 d) show ?case by (simp add: row_simps case_prod_beta)
next
  case (2 d)
  then show ?case
    using assms by (auto simp: row_simps case_prod_beta list_all2_conv_all_nth job_moves_def)
next
  case (3 d)
  show ?case by (simp add: row_simps case_prod_beta filter_empty_conv)
next
  case (4 j d)
  then show ?case using assms by (auto simp: row_simps case_prod_beta split: if_splits)
qed

interpretation cancel: settling_write "job_cancel now job_id" job_id for now job_id
  unfolding job_cancel_def by (rule settling_write_update) simp

lemma terminal_status_not_live:
  "job_status_is_terminal s \<Longrightarrow> job_status_str s \<notin> {''pending'', ''running''}"
  by (cases s) auto

lemma settle_settling:
  assumes "job_status_is_terminal s"
  shows "settling_write (settle_tx now job_id s out) job_id"
  unfolding settle_tx_def
  by (rule settling_write_update) (use terminal_status_not_live [OF assms] in simp)

interpretation settle_failed: settling_write "settle_tx now job_id JFailed out" job_id
  for now job_id out
  by (rule settle_settling) simp

interpretation settle_completed: settling_write "settle_tx now job_id JCompleted out" job_id
  for now job_id out
  by (rule settle_settling) simp

lemma set_pair_of: "x \<in> set (pair_of a b) \<longleftrightarrow> a = Some (fst x) \<and> b = Some (snd x)"
  by (cases x) (auto simp: pair_of_def split: option.splits)

lemma update_jobs_none:
  assumes "\<And>j. j \<in> set (jobs d) \<Longrightarrow> \<not> w j"
  shows "update_jobs w f d = (d, 0)"
proof -
  have "map (\<lambda>j. if w j then f j else j) (jobs d) = jobs d" using assms by (intro map_idI) auto
  moreover have "filter w (jobs d) = []" using assms by (simp add: filter_empty_conv)
  ultimately show ?thesis by (simp add: update_jobs_def sql_update_def)
qed

lemma settle_dead:
  assumes "\<And>j. j \<in> set (jobs d) \<Longrightarrow> j_job_id j = job_id \<Longrightarrow> j_status j \<notin> {''pending'', ''running''}"
  shows "settle_tx now job_id s out d = (d, False)"
  unfolding settle_tx_def by (subst update_jobs_none) (use assms in auto)

lemma kept_live:
  assumes "j \<in> set (jobs d)" "j_revision j = Some c"
    and "j_status j \<in> {''pending'', ''running''} \<or> retry_owed now j"
  shows "(j_workspace j, c) \<in> set (tarball_keep_revisions now d)"
  unfolding tarball_keep_revisions_def
  using assms by (auto simp: set_pair_of)

section \<open>Properties\<close>

text \<open>
  Settlement happens once. Whoever writes first decides: after a settlement or a cancellation
  that found the job live, every later settlement of that job, to whatever status, reports that it
  wrote nothing and leaves the tables exactly as they were.
\<close>

theorem settle_once:
  assumes "job_status_is_terminal s1"
  shows "\<not> snd (settle_tx t2 job_id s2 out2 (fst (settle_tx t1 job_id s1 out1 d))) \<and>
    fst (settle_tx t2 job_id s2 out2 (fst (settle_tx t1 job_id s1 out1 d))) =
      fst (settle_tx t1 job_id s1 out1 d) \<and>
    \<not> snd (settle_tx t2 job_id s2 out2 (fst (job_cancel t1 job_id d))) \<and>
    \<not> snd (job_cancel t2 job_id (fst (settle_tx t1 job_id s1 out1 d)))"
proof -
  let ?d1 = "fst (settle_tx t1 job_id s1 out1 d)" and ?d2 = "fst (job_cancel t1 job_id d)"
  have dead: "j_status j \<notin> {''pending'', ''running''}" if "j \<in> set (jobs ?d1)" "j_job_id j = job_id" for j
    using settling_write.leaves_live [OF settle_settling [OF assms]] that by blast
  have dead2: "j_status j \<notin> {''pending'', ''running''}" if "j \<in> set (jobs ?d2)" "j_job_id j = job_id" for j
    using cancel.leaves_live that by blast
  have "\<not> snd (job_cancel t2 job_id ?d1)" using cancel.wrote_iff dead by blast
  moreover have "settle_tx t2 job_id s2 out2 ?d1 = (?d1, False)" using dead by (intro settle_dead)
  moreover have "settle_tx t2 job_id s2 out2 ?d2 = (?d2, False)" using dead2 by (intro settle_dead)
  ultimately show ?thesis by simp
qed

theorem settle_once_witness:
  "job_status_is_terminal JFailed \<and>
   snd (settle_tx 5 1 JFailed None \<lparr>jobs = [test_default_job 1 0], steps = []\<rparr>) \<and>
   \<not> snd (settle_tx 6 1 JCompleted None
      (fst (settle_tx 5 1 JFailed None \<lparr>jobs = [test_default_job 1 0], steps = []\<rparr>)))"
  using settle_once [of JFailed 6 1 JCompleted None 5 None "\<lparr>jobs = [test_default_job 1 0], steps = []\<rparr>"]
  by (simp add: settle_tx_def update_jobs_def sql_update_def test_default_job_def)

text \<open>
  No gap between a failure and its retry: from the moment a live top-level job with retries
  left is settled as failed, and for an hour after it, its revision is kept in the cache (the retry
  job, created later, inherits it), just as it was while the job was live.
\<close>

theorem failed_job_revision_kept:
  assumes "j \<in> set (jobs d)" "j_job_id j = job_id" "j_status j \<in> {''pending'', ''running''}"
    and "j_revision j = Some c" "j_parent_job_id j = None" "j_retry_job_id j = None"
    and "j_max_retries j = Some m" "j_retry_attempt j < m"
    and "now < settled + seconds 3600"
  shows "(j_workspace j, c) \<in> set (tarball_keep_revisions now d) \<and>
    (j_workspace j, c) \<in> set (tarball_keep_revisions now (fst (settle_tx settled job_id JFailed out d)))"
proof
  show "(j_workspace j, c) \<in> set (tarball_keep_revisions now d)"
    using assms(1,3,4) by (intro kept_live) auto
  let ?f = "\<lambda>j. j\<lparr>j_status := job_status_str JFailed,
      j_output := (case out of Some v \<Rightarrow> Some v | None \<Rightarrow> j_output j), j_completed_at := Some settled\<rparr>"
  have "?f j \<in> set (jobs (fst (settle_tx settled job_id JFailed out d)))"
    using assms(1-3) by (auto simp: settle_tx_def case_prod_beta row_simps)
  moreover have "retry_owed now (?f j)" using assms(5-9) by (simp add: retry_owed_def)
  moreover have "j_revision (?f j) = Some c" "j_workspace (?f j) = j_workspace j"
    using assms(4) by simp_all
  ultimately show "(j_workspace j, c) \<in> set (tarball_keep_revisions now (fst (settle_tx settled job_id JFailed out d)))"
    using kept_live by metis
qed

definition failing_job :: job_row where
  "failing_job = (test_default_job 1 0)\<lparr>j_status := ''running'', j_revision := Some ''r1'', j_max_retries := Some 2\<rparr>"

theorem failed_job_revision_kept_witness:
  "(''default'', ''r1'') \<in> set (tarball_keep_revisions 10
      (fst (settle_tx 9 1 JFailed None \<lparr>jobs = [failing_job], steps = []\<rparr>)))"
  using failed_job_revision_kept [of failing_job "\<lparr>jobs = [failing_job], steps = []\<rparr>" 1 "''r1''" 2 10 9 None]
  by (simp add: failing_job_def test_default_job_def seconds_def)

end
