(* ===== verification/Cascade_Apply.thy ===== *)
theory Cascade_Apply
  imports Cascade_Run Step_Lifecycle Job_Store "HOL-Library.Multiset"
begin

text \<open>
  The second half of \<^verbatim>\<open>stroem-server/src/cascade.rs\<close>: applying a plan in one transaction (\<^verbatim>\<open>apply\<close>, with
  runs of promotions and skips batched into one statement) and the retry loop around it (\<^verbatim>\<open>execute\<close>).
  \<open>NOW()\<close> is constant inside a transaction, so one \<open>now\<close> serves every statement.

  The batching is related to the reference \<open>apply_seq\<close>, one guarded statement per change, through the
  locale \<open>pending_batch\<close>; \<open>apply_seq\<close> in turn refines the in-memory \<^const>\<open>apply_all\<close> the plan was
  computed with.
\<close>

section \<open>Definitions\<close>

record applied =
  ap_promoted :: nat
  ap_skipped :: nat
  ap_failed :: nat
  ap_expanded :: nat
  ap_adopted :: nat
  ap_rolled_up :: nat

definition applied_default :: applied where
  "applied_default = \<lparr>ap_promoted = 0, ap_skipped = 0, ap_failed = 0, ap_expanded = 0,
     ap_adopted = 0, ap_rolled_up = 0\<rparr>"

datatype apply_error = GuardMiss string | Db string

definition expect_rows :: "nat \<Rightarrow> nat \<Rightarrow> string \<Rightarrow> apply_error + unit" where
  "expect_rows n expected step = (if n = expected then Inr () else Inl (GuardMiss step))"

fun join_comma :: "string list \<Rightarrow> string" where
  "join_comma [] = []"
| "join_comma [n] = n"
| "join_comma (n # ns) = n @ '','' @ join_comma ns"

text \<open>The inner loops of \<^verbatim>\<open>apply\<close>: they consume a run of promotions, or of skips, into buckets.\<close>

fun take_promotes :: "change list \<Rightarrow> string list \<times> change list" where
  "take_promotes (Promote step # cs) = (let (ns, rest) = take_promotes cs in (step # ns, rest))"
| "take_promotes cs = ([], cs)"

fun add_bucket ::
  "skip_reason \<Rightarrow> string \<Rightarrow> (skip_reason \<times> string list) list \<Rightarrow> (skip_reason \<times> string list) list" where
  "add_bucket reason step [] = [(reason, [step])]"
| "add_bucket reason step ((r, ns) # bs) =
     (if r = reason then (r, ns @ [step]) # bs else (r, ns) # add_bucket reason step bs)"

fun take_skips ::
  "(skip_reason \<times> string list) list \<Rightarrow> change list \<Rightarrow> (skip_reason \<times> string list) list \<times> change list" where
  "take_skips buckets (Skip step reason # cs) = take_skips (add_bucket reason step buckets) cs"
| "take_skips buckets cs = (buckets, cs)"

fun skip_buckets ::
  "time \<Rightarrow> uuid \<Rightarrow> (skip_reason \<times> string list) list \<Rightarrow> applied \<times> db \<Rightarrow> apply_error + applied \<times> db" where
  "skip_buckets now job_id [] (a, d) = Inr (a, d)"
| "skip_buckets now job_id ((reason, ns) # bs) (a, d) =
     (let (d', n) = skip_steps_tx now job_id ns (skip_reason_str reason) d in
      case expect_rows n (length ns) (join_comma ns) of
        Inl e \<Rightarrow> Inl e
      | Inr _ \<Rightarrow> skip_buckets now job_id bs (a\<lparr>ap_skipped := ap_skipped a + length ns\<rparr>, d'))"

lemma take_promotes_split: "take_promotes cs = (ns, rest) \<Longrightarrow> cs = map Promote ns @ rest"
  by (induction cs arbitrary: ns rule: take_promotes.induct) (auto split: prod.splits)

lemma take_skips_length: "length (snd (take_skips bs cs)) \<le> length cs"
  by (induction bs cs rule: take_skips.induct) auto

text \<open>The outer loop, with the counters, the flag and the transaction's view of the database.\<close>

function apply_changes ::
  "nat \<Rightarrow> time \<Rightarrow> time \<Rightarrow> uuid \<Rightarrow> change list \<Rightarrow> applied \<times> bool \<times> db
    \<Rightarrow> apply_error + applied \<times> bool \<times> db" where
  "apply_changes mp now utc_now job_id [] st = Inr st"
| "apply_changes mp now utc_now job_id (Promote step # cs) (a, mark, d) =
     (let (ns, rest) = take_promotes (Promote step # cs);
          (d', n) = promote_steps_tx now job_id ns d
      in case expect_rows n (length ns) (join_comma ns) of
           Inl e \<Rightarrow> Inl e
         | Inr _ \<Rightarrow> apply_changes mp now utc_now job_id rest
             (a\<lparr>ap_promoted := ap_promoted a + length ns\<rparr>, mark, d'))"
| "apply_changes mp now utc_now job_id (Skip step reason # cs) (a, mark, d) =
     (let (buckets, rest) = take_skips [] (Skip step reason # cs)
      in case skip_buckets now job_id buckets (a, d) of
           Inl e \<Rightarrow> Inl e
         | Inr (a', d') \<Rightarrow> apply_changes mp now utc_now job_id rest (a', mark, d'))"
| "apply_changes mp now utc_now job_id (Fail step err # cs) (a, mark, d) =
     (let (d', n) = fail_pending_step_tx now job_id step err d
      in case expect_rows n 1 step of
           Inl e \<Rightarrow> Inl e
         | Inr _ \<Rightarrow> apply_changes mp now utc_now job_id cs
             (a\<lparr>ap_failed := ap_failed a + 1\<rparr>, mark, d'))"
| "apply_changes mp now utc_now job_id (Expand placeholder instances # cs) (a, mark, d) =
     (let (d', n) = start_placeholder_tx now job_id placeholder d
      in case expect_rows n 1 placeholder of
           Inl e \<Rightarrow> Inl e
         | Inr _ \<Rightarrow>
             (case create_steps_tx mp utc_now instances d' of
                Inl e \<Rightarrow> Inl (Db e)
              | Inr d'' \<Rightarrow> apply_changes mp now utc_now job_id cs
                  (a\<lparr>ap_expanded := ap_expanded a + 1\<rparr>, True, d'')))"
| "apply_changes mp now utc_now job_id (Adopt placeholder # cs) (a, mark, d) =
     (let (d', n) = start_placeholder_tx now job_id placeholder d
      in case expect_rows n 1 placeholder of
           Inl e \<Rightarrow> Inl e
         | Inr _ \<Rightarrow> apply_changes mp now utc_now job_id cs
             (a\<lparr>ap_adopted := ap_adopted a + 1\<rparr>, True, d'))"
| "apply_changes mp now utc_now job_id (Rollup placeholder outcome # cs) (a, mark, d) =
     (let (d', n) =
            (case outcome of
               RollupCompleted out \<Rightarrow> complete_placeholder_tx now job_id placeholder out d
             | RollupFailed err out \<Rightarrow> fail_placeholder_tx now job_id placeholder err out d)
      in case expect_rows n 1 placeholder of
           Inl e \<Rightarrow> Inl e
         | Inr _ \<Rightarrow> apply_changes mp now utc_now job_id cs
             (a\<lparr>ap_rolled_up := ap_rolled_up a + 1\<rparr>, mark, d'))"
  by pat_completeness auto
termination
proof (relation "measure (\<lambda>(_, _, _, _, cs, _). length cs)", goal_cases)
  case (2 mp now utc_now job_id step cs a mark d x ns rest)
  then have tp: "take_promotes (Promote step # cs) = (ns, rest)" by simp
  then have "ns \<noteq> []" by (auto split: prod.splits)
  then show ?case using take_promotes_split [OF tp] by (cases ns) auto
next
  case (3 mp now utc_now job_id step reason cs a mark d x buckets rest)
  then have "rest = snd (take_skips (add_bucket reason step []) cs)" by (metis snd_conv take_skips.simps(1))
  then show ?case using take_skips_length [of "add_bucket reason step []" cs] by simp
qed auto

definition apply_plan ::
  "nat \<Rightarrow> time \<Rightarrow> time \<Rightarrow> uuid \<Rightarrow> plan \<Rightarrow> db \<Rightarrow> apply_error + applied \<times> db" where
  "apply_plan mp now utc_now job_id p d =
     (case apply_changes mp now utc_now job_id (pl_changes p) (applied_default, False, d) of
        Inl e \<Rightarrow> Inl e
      | Inr (a, mark, d') \<Rightarrow> Inr (a, if mark then mark_running_if_pending_tx now job_id d' else d'))"

text \<open>
  \<^verbatim>\<open>execute\<close>. The environment of one attempt: what other transactions commit before the job is read,
  between the two reads, and between the reads and the transaction; whether the database aborts the
  transaction with a deadlock; and the two clocks.
\<close>

record attempt =
  at_job_read :: "db \<Rightarrow> db"
  at_steps_read :: "db \<Rightarrow> db"
  at_apply :: "db \<Rightarrow> db"
  at_deadlock :: bool
  at_now :: time
  at_utc_now :: time

definition MAX_ATTEMPTS :: nat where
  "MAX_ATTEMPTS = 3"

definition run_attempt ::
  "nat \<Rightarrow> attempt \<Rightarrow> uuid \<Rightarrow> plan \<Rightarrow> db \<Rightarrow> apply_error + applied \<times> db" where
  "run_attempt mp att job_id p d =
     (if at_deadlock att then Inl (Db ''40P01'')
      else apply_plan mp (at_now att) (at_utc_now att) job_id p d)"

definition is_deadlock :: "string \<Rightarrow> bool" where
  "is_deadlock e \<longleftrightarrow> e = ''40P01''"

definition exhausted :: "(uuid \<Rightarrow> string) \<Rightarrow> uuid \<Rightarrow> string \<Rightarrow> string" where
  "exhausted show_uuid job_id last_cause =
     ''cascade re-ran '' @ show_nat MAX_ATTEMPTS @ '' times without applying for job '' @ show_uuid job_id @
     ''; last cause: '' @ last_cause"

fun execute_from ::
  "nat \<Rightarrow> (nat \<Rightarrow> attempt) \<Rightarrow> (string \<Rightarrow> nat list) \<Rightarrow> (uuid \<Rightarrow> string) \<Rightarrow> engine \<Rightarrow> nat \<Rightarrow> nat \<Rightarrow> string
    \<Rightarrow> uuid \<Rightarrow> task_def \<Rightarrow> workspace_config option \<Rightarrow> snapshots \<Rightarrow> db \<Rightarrow> (db \<times> (string + plan)) option" where
  "execute_from mp env collate show_uuid eng attempt 0 last_cause job_id task ws snaps d =
     Some (d, Inl (exhausted show_uuid job_id last_cause))"
| "execute_from mp env collate show_uuid eng attempt (Suc left) last_cause job_id task ws snaps d =
     (let d1 = at_job_read (env attempt) d in
      case job_get job_id d1 of
        None \<Rightarrow> Some (d1, Inl ''Job not found'')
      | Some job \<Rightarrow>
          let d2 = at_steps_read (env attempt) d1; rows = get_steps_for_job collate job_id d2 in
          case cascade_run eng task job rows ws snaps of
            None \<Rightarrow> None
          | Some p \<Rightarrow>
              if pl_changes p = [] then Some (d2, Inr p)
              else let d3 = at_apply (env attempt) d2 in
                case run_attempt mp (env attempt) job_id p d3 of
                  Inr (a, d4) \<Rightarrow> Some (d4, Inr p)
                | Inl (GuardMiss step) \<Rightarrow>
                    execute_from mp env collate show_uuid eng (attempt + 1) left
                      (''guard miss on step '' @ [CHR 0x27] @ step @ [CHR 0x27]) job_id task ws snaps d3
                | Inl (Db e) \<Rightarrow>
                    if is_deadlock e then
                      execute_from mp env collate show_uuid eng (attempt + 1) left
                        ''deadlock (40P01)'' job_id task ws snaps d3
                    else Some (d3, Inl e))"

definition execute ::
  "nat \<Rightarrow> (nat \<Rightarrow> attempt) \<Rightarrow> (string \<Rightarrow> nat list) \<Rightarrow> (uuid \<Rightarrow> string) \<Rightarrow> engine
    \<Rightarrow> uuid \<Rightarrow> task_def \<Rightarrow> workspace_config option \<Rightarrow> snapshots \<Rightarrow> db \<Rightarrow> (db \<times> (string + plan)) option" where
  "execute mp env collate show_uuid eng job_id task ws snaps d =
     execute_from mp env collate show_uuid eng 1 MAX_ATTEMPTS ''no re-run recorded'' job_id task ws snaps d"

section \<open>Batches of pending rows\<close>

text \<open>One statement that writes the pending rows among the named ones.\<close>

definition pending_write :: "uuid \<Rightarrow> (step_record \<Rightarrow> step_record) \<Rightarrow> string list \<Rightarrow> db \<Rightarrow> db \<times> nat" where
  "pending_write job_id set_clause ns d =
     update_steps (\<lambda>r. js_job_id r = job_id \<and> js_step_name r \<in> set ns \<and> js_status r = ''pending'') set_clause d"

definition is_pending :: "uuid \<Rightarrow> db \<Rightarrow> string \<Rightarrow> bool" where
  "is_pending job_id d n \<longleftrightarrow> list_ex (\<lambda>r. at_step job_id n r \<and> js_status r = ''pending'') (steps d)"

fun run_groups ::
  "uuid \<Rightarrow> ('k \<Rightarrow> step_record \<Rightarrow> step_record) \<Rightarrow> ('k \<times> string list) list \<Rightarrow> db \<Rightarrow> db option" where
  "run_groups job_id f [] d = Some d"
| "run_groups job_id f ((k, ns) # bs) d =
     (let (d', n) = pending_write job_id (f k) ns d in
      if n = length ns then run_groups job_id f bs d' else None)"

fun flat_groups :: "('k \<times> string list) list \<Rightarrow> (string \<times> 'k) list" where
  "flat_groups [] = []"
| "flat_groups ((k, ns) # bs) = map (\<lambda>n. (n, k)) ns @ flat_groups bs"

lemma matched_names:
  assumes "keyed d"
  shows "distinct (map js_step_name (filter (\<lambda>r. js_job_id r = job_id \<and> P r) (steps d)))"
proof -
  let ?m = "filter (\<lambda>r. js_job_id r = job_id \<and> P r) (steps d)"
  have d: "distinct (map step_key ?m)"
    using assms by (simp add: keyed_def distinct_map_filter)
  have "map step_key ?m = map (Pair job_id) (map js_step_name ?m)" by (induction "steps d") simp_all
  with d have "distinct (map (Pair job_id) (map js_step_name ?m))" by (simp only:)
  then show ?thesis unfolding distinct_map [of "Pair job_id"] by (rule conjunct1)
qed

lemma pending_write_count:
  assumes "keyed d"
  shows "snd (pending_write job_id f ns d) = length ns \<longleftrightarrow> distinct ns \<and> list_all (is_pending job_id d) ns"
proof -
  let ?m = "filter (\<lambda>r. js_job_id r = job_id \<and> js_step_name r \<in> set ns \<and> js_status r = ''pending'') (steps d)"
  have hit: "set (map js_step_name ?m) = {n \<in> set ns. is_pending job_id d n}"
    by (auto simp: is_pending_def list_ex_iff)
  have "snd (pending_write job_id f ns d) = length (map js_step_name ?m)"
    by (simp add: pending_write_def row_simps)
  also have "\<dots> = card {n \<in> set ns. is_pending job_id d n}"
    unfolding hit [symmetric] by (rule distinct_card [symmetric], rule matched_names [OF assms])
  finally have n: "snd (pending_write job_id f ns d) = card {n \<in> set ns. is_pending job_id d n}" .
  have le: "card {n \<in> set ns. is_pending job_id d n} \<le> card (set ns)" "card (set ns) \<le> length ns"
    by (auto intro: card_mono card_length)
  show ?thesis
  proof
    assume "snd (pending_write job_id f ns d) = length ns"
    then have eq: "card (set ns) = length ns" "card {n \<in> set ns. is_pending job_id d n} = card (set ns)"
      using n le by simp_all
    then have "{n \<in> set ns. is_pending job_id d n} = set ns" by (intro card_subset_eq) auto
    then show "distinct ns \<and> list_all (is_pending job_id d) ns"
      using card_distinct [OF eq(1)] by (auto simp: list_all_iff)
  next
    assume a: "distinct ns \<and> list_all (is_pending job_id d) ns"
    then have "{n \<in> set ns. is_pending job_id d n} = set ns" by (auto simp: list_all_iff)
    then show "snd (pending_write job_id f ns d) = length ns" using n a distinct_card by metis
  qed
qed

text \<open>What a group of statements writes when every guard holds.\<close>

definition groups_write ::
  "uuid \<Rightarrow> ('k \<Rightarrow> step_record \<Rightarrow> step_record) \<Rightarrow> (string \<times> 'k) list \<Rightarrow> step_record \<Rightarrow> step_record" where
  "groups_write job_id f l r =
     (if js_job_id r = job_id then (case map_of l (js_step_name r) of None \<Rightarrow> r | Some k \<Rightarrow> f k r) else r)"

abbreviation map_steps :: "(step_record \<Rightarrow> step_record) \<Rightarrow> db \<Rightarrow> db" where
  "map_steps g d \<equiv> d\<lparr>steps := map g (steps d)\<rparr>"

lemma update_steps_eq: "fst (update_steps w g d) = map_steps (\<lambda>r. if w r then g r else r) d"
  by (simp add: update_steps_def sql_update_def)

lemma map_steps_comp: "map_steps g (map_steps h d) = map_steps (g \<circ> h) d"
  by simp

lemma keyed_map_steps: "(\<And>r. step_key (g r) = step_key r) \<Longrightarrow> keyed (map_steps g d) = keyed d"
  by (simp add: keyed_def comp_def)

lemma map_of_pairs: "map_of (map (\<lambda>n. (n, k)) ns) m = (if m \<in> set ns then Some k else None)"
  by (induction ns) auto

locale pending_batch =
  fixes f :: "'k \<Rightarrow> step_record \<Rightarrow> step_record"
  assumes key_kept: "step_key (f k r) = step_key r"
    and leaves_pending: "js_status (f k r) \<noteq> ''pending''"
begin

lemma groups_write_key [simp]: "js_job_id (groups_write job_id f l r) = js_job_id r"
  "js_step_name (groups_write job_id f l r) = js_step_name r"
  using key_kept by (simp_all add: groups_write_def split: option.split)

lemma groups_write_append:
  "set (map fst l1) \<inter> set (map fst l2) = {} \<Longrightarrow>
   groups_write job_id f l2 (groups_write job_id f l1 r) = groups_write job_id f (l1 @ l2) r"
proof -
  assume a: "set (map fst l1) \<inter> set (map fst l2) = {}"
  have k: "js_job_id (f k r) = js_job_id r" "js_step_name (f k r) = js_step_name r" for k
    using key_kept [of k r] by simp_all
  show ?thesis
  proof (cases "map_of l1 (js_step_name r)")
    case None
    then show ?thesis by (simp add: groups_write_def map_add_def split: option.split)
  next
    case (Some x)
    then have "js_step_name r \<in> set (map fst l1)" by (metis domI dom_map_of_conv_image_fst set_map)
    then have "js_step_name r \<notin> fst ` set l2" using a by (simp only: set_map) blast
    then have "map_of l2 (js_step_name r) = None" by (simp add: map_of_eq_None_iff)
    then show ?thesis using Some k by (simp add: groups_write_def map_add_def)
  qed
qed

lemma pending_write_eq:
  assumes "keyed d" "list_all (is_pending job_id d) ns"
  shows "fst (pending_write job_id (f k) ns d) = map_steps (groups_write job_id f (map (\<lambda>n. (n, k)) ns)) d"
proof -
  have "(if js_job_id r = job_id \<and> js_step_name r \<in> set ns \<and> js_status r = ''pending'' then f k r else r) =
      groups_write job_id f (map (\<lambda>n. (n, k)) ns) r" if r: "r \<in> set (steps d)" for r
  proof (cases "js_job_id r = job_id \<and> js_step_name r \<in> set ns")
    case True
    then have "is_pending job_id d (js_step_name r)" using assms(2) by (simp add: list_all_iff)
    then obtain r' where r': "r' \<in> set (steps d)" "at_step job_id (js_step_name r) r'" "js_status r' = ''pending''"
      unfolding is_pending_def list_ex_iff by blast
    have "step_key r = step_key r'" using True r'(2) by simp
    then have "r = r'" by (rule keyed_unique [OF assms(1) r r'(1)])
    then have "js_status r = js_status r'" by (rule arg_cong)
    then have "js_status r = ''pending''" using r'(3) by (rule trans)
    then show ?thesis using True by (simp add: groups_write_def map_of_pairs)
  next
    case False
    then show ?thesis by (cases "js_job_id r = job_id") (simp_all add: groups_write_def map_of_pairs)
  qed
  then show ?thesis unfolding pending_write_def update_steps_eq by simp
qed

lemma pending_after:
  assumes "keyed d"
  shows "is_pending job_id (map_steps (groups_write job_id f l) d) n \<longleftrightarrow> is_pending job_id d n \<and> n \<notin> set (map fst l)"
proof -
  have "js_status (groups_write job_id f l r) = ''pending'' \<longleftrightarrow> js_status r = ''pending'' \<and> n \<notin> set (map fst l)"
    if "at_step job_id n r" for r
    using that leaves_pending
    by (auto simp: groups_write_def map_of_eq_None_iff [symmetric] split: option.split)
  then show ?thesis by (simp add: is_pending_def list_ex_iff) blast
qed

lemma run_groups_iff:
  assumes "keyed d"
  shows "run_groups job_id f bs d =
    (if distinct (map fst (flat_groups bs)) \<and> list_all (is_pending job_id d) (map fst (flat_groups bs))
     then Some (map_steps (groups_write job_id f (flat_groups bs)) d) else None)"
  using assms
proof (induction bs arbitrary: d rule: flat_groups.induct)
  case 1
  show ?case by (cases d) (simp add: groups_write_def map_idI)
next
  case (2 k ns bs)
  let ?l = "map (\<lambda>n. (n, k)) ns"
  have l: "map fst ?l = ns" by (simp add: comp_def)
  show ?case
  proof (cases "distinct ns \<and> list_all (is_pending job_id d) ns")
    case True
    let ?d = "map_steps (groups_write job_id f ?l) d"
    have c: "pending_write job_id (f k) ns d = (?d, length ns)"
      using pending_write_count [OF 2(2), of job_id "f k" ns] pending_write_eq [OF 2(2)] True
      by (simp add: prod_eq_iff)
    have kd: "keyed ?d" using 2(2) by (simp add: keyed_map_steps)
    have p: "list_all (is_pending job_id ?d) ms \<longleftrightarrow> list_all (is_pending job_id d) ms \<and> set ns \<inter> set ms = {}" for ms
      using pending_after [OF 2(2), of job_id ?l] unfolding l by (auto simp: list_all_iff)
    show ?thesis
      using True 2(1) [OF kd] p [of "map fst (flat_groups bs)"] groups_write_append [of ?l "flat_groups bs"]
      unfolding run_groups.simps c flat_groups.simps map_append l map_steps_comp
      by (auto simp: l comp_def)
  next
    case False
    then have "snd (pending_write job_id (f k) ns d) \<noteq> length ns" using pending_write_count [OF 2(2)] by simp
    then show ?thesis using False l by (auto simp: comp_def split: prod.split)
  qed
qed

lemma run_groups_perm:
  assumes "keyed d" "mset (flat_groups bs) = mset (flat_groups bs')"
  shows "run_groups job_id f bs d = run_groups job_id f bs' d"
proof -
  let ?l = "flat_groups bs" and ?l' = "flat_groups bs'"
  have m: "mset (map fst ?l) = mset (map fst ?l')" using assms(2) by simp
  have dist: "distinct (map fst ?l) = distinct (map fst ?l')" using m by (rule mset_eq_imp_distinct_iff)
  have pend: "list_all P (map fst ?l) = list_all P (map fst ?l')" for P
    using mset_eq_setD [OF m] by (simp only: list_all_iff)
  have "map_of ?l = map_of ?l'" if "distinct (map fst ?l)"
    using that dist mset_eq_setD [OF assms(2)] map_of_inject_set by metis
  then have "groups_write job_id f ?l = groups_write job_id f ?l'" if "distinct (map fst ?l)"
    using that by (intro ext) (simp add: groups_write_def)
  then show ?thesis unfolding run_groups_iff [OF assms(1)] using dist pend by simp
qed

end

interpretation promotes: pending_batch "\<lambda>_ :: unit. \<lambda>r. r\<lparr>js_status := ''ready'', js_ready_at := Some now\<rparr>"
  for now by unfold_locales simp_all

interpretation skips: pending_batch
  "\<lambda>reason r. r\<lparr>js_status := ''skipped'', js_skip_reason := Some (skip_reason_str reason), js_completed_at := Some now\<rparr>"
  for now by unfold_locales simp_all

section \<open>The reference: one guarded statement per change\<close>

definition one_row :: "db \<times> nat \<Rightarrow> db option" where
  "one_row p = (if snd p = 1 then Some (fst p) else None)"

fun apply_one :: "nat \<Rightarrow> time \<Rightarrow> time \<Rightarrow> uuid \<Rightarrow> change \<Rightarrow> db \<Rightarrow> db option" where
  "apply_one mp now utc_now job_id (Promote n) d = one_row (promote_steps_tx now job_id [n] d)"
| "apply_one mp now utc_now job_id (Skip n reason) d =
     one_row (skip_steps_tx now job_id [n] (skip_reason_str reason) d)"
| "apply_one mp now utc_now job_id (Fail n err) d = one_row (fail_pending_step_tx now job_id n err d)"
| "apply_one mp now utc_now job_id (Expand n insts) d =
     Option.bind (one_row (start_placeholder_tx now job_id n d))
       (\<lambda>d'. case create_steps_tx mp utc_now insts d' of Inl _ \<Rightarrow> None | Inr d'' \<Rightarrow> Some d'')"
| "apply_one mp now utc_now job_id (Adopt n) d = one_row (start_placeholder_tx now job_id n d)"
| "apply_one mp now utc_now job_id (Rollup n (RollupCompleted out)) d =
     one_row (complete_placeholder_tx now job_id n out d)"
| "apply_one mp now utc_now job_id (Rollup n (RollupFailed err out)) d =
     one_row (fail_placeholder_tx now job_id n err out d)"

fun apply_seq :: "nat \<Rightarrow> time \<Rightarrow> time \<Rightarrow> uuid \<Rightarrow> change list \<Rightarrow> db \<Rightarrow> db option" where
  "apply_seq mp now utc_now job_id [] d = Some d"
| "apply_seq mp now utc_now job_id (c # cs) d =
     Option.bind (apply_one mp now utc_now job_id c d) (apply_seq mp now utc_now job_id cs)"

text \<open>The counters and the flag, read off the plan.\<close>

fun count_change :: "change \<Rightarrow> applied \<Rightarrow> applied" where
  "count_change (Promote _) a = a\<lparr>ap_promoted := ap_promoted a + 1\<rparr>"
| "count_change (Skip _ _) a = a\<lparr>ap_skipped := ap_skipped a + 1\<rparr>"
| "count_change (Fail _ _) a = a\<lparr>ap_failed := ap_failed a + 1\<rparr>"
| "count_change (Expand _ _) a = a\<lparr>ap_expanded := ap_expanded a + 1\<rparr>"
| "count_change (Adopt _) a = a\<lparr>ap_adopted := ap_adopted a + 1\<rparr>"
| "count_change (Rollup _ _) a = a\<lparr>ap_rolled_up := ap_rolled_up a + 1\<rparr>"

definition tally :: "change list \<Rightarrow> applied \<Rightarrow> applied" where
  "tally cs a = foldl (\<lambda>a c. count_change c a) a cs"

fun starts_loop :: "change \<Rightarrow> bool" where
  "starts_loop (Expand _ _) = True"
| "starts_loop (Adopt _) = True"
| "starts_loop _ = False"

definition ok :: "apply_error + 'a \<Rightarrow> 'a option" where
  "ok x = (case x of Inl _ \<Rightarrow> None | Inr y \<Rightarrow> Some y)"

lemma ok_simps [simp]: "ok (Inl e) = None" "ok (Inr y) = Some y"
  by (simp_all add: ok_def)

lemma tally_Nil [simp]: "tally [] a = a"
  and tally_Cons [simp]: "tally (c # cs) a = tally cs (count_change c a)"
  by (simp_all add: tally_def)

lemma tally_append: "tally (xs @ ys) a = tally ys (tally xs a)"
  by (simp add: tally_def)

lemma tally_promotes: "tally (map Promote ns) a = a\<lparr>ap_promoted := ap_promoted a + length ns\<rparr>"
  by (induction ns arbitrary: a) simp_all

lemma tally_skips: "tally (map (\<lambda>(n, r). Skip n r) l) a = a\<lparr>ap_skipped := ap_skipped a + length l\<rparr>"
  by (induction l arbitrary: a) auto

lemma apply_seq_append:
  "apply_seq mp now utc_now job_id (xs @ ys) d =
     Option.bind (apply_seq mp now utc_now job_id xs d) (apply_seq mp now utc_now job_id ys)"
proof (induction xs arbitrary: d)
  case (Cons c xs)
  then show ?case by (cases "apply_one mp now utc_now job_id c d") simp_all
qed simp

section \<open>Batching changes nothing\<close>

lemma promote_is_pending_write:
  "promote_steps_tx now job_id ns = pending_write job_id (\<lambda>r. r\<lparr>js_status := ''ready'', js_ready_at := Some now\<rparr>) ns"
  by (simp add: fun_eq_iff promote_steps_tx_def pending_write_def)

lemma skip_is_pending_write:
  "skip_steps_tx now job_id ns reason = pending_write job_id
     (\<lambda>r. r\<lparr>js_status := ''skipped'', js_skip_reason := Some reason, js_completed_at := Some now\<rparr>) ns"
  by (simp add: fun_eq_iff skip_steps_tx_def pending_write_def)

lemma run_groups_one: "run_groups job_id f [(k, ns)] d =
    (if snd (pending_write job_id (f k) ns d) = length ns then Some (fst (pending_write job_id (f k) ns d)) else None)"
  by (simp split: prod.split)

lemma seq_promotes:
  "apply_seq mp now utc_now job_id (map Promote ns) d =
     run_groups job_id (\<lambda>_ :: unit. \<lambda>r. r\<lparr>js_status := ''ready'', js_ready_at := Some now\<rparr>) (map (\<lambda>n. ((), [n])) ns) d"
  by (induction ns arbitrary: d) (simp_all add: one_row_def promote_is_pending_write split: prod.split)

lemma seq_skips:
  "apply_seq mp now utc_now job_id (map (\<lambda>(n, r). Skip n r) l) d =
     run_groups job_id (\<lambda>reason r. r\<lparr>js_status := ''skipped'', js_skip_reason := Some (skip_reason_str reason),
         js_completed_at := Some now\<rparr>) (map (\<lambda>(n, r). (r, [n])) l) d"
  by (induction l arbitrary: d) (auto simp: one_row_def skip_is_pending_write split: prod.split)

lemma flat_singletons: "flat_groups (map (\<lambda>(n, k). (k, [n])) l) = l"
  by (induction l) auto

lemma flat_unit_singletons: "flat_groups (map (\<lambda>n. ((), [n])) ns) = map (\<lambda>n. (n, ())) ns"
  by (induction ns) auto

lemma batch_promotes:
  assumes "keyed d"
  shows "apply_seq mp now utc_now job_id (map Promote ns) d =
    (if snd (promote_steps_tx now job_id ns d) = length ns then Some (fst (promote_steps_tx now job_id ns d)) else None)"
  unfolding seq_promotes promote_is_pending_write
  by (subst promotes.run_groups_perm [OF assms, of _ "[((), ns)]"])
    (simp_all add: flat_unit_singletons run_groups_one split: prod.split)

lemma add_bucket_flat: "mset (flat_groups (add_bucket reason n bs)) = mset (flat_groups bs) + {#(n, reason)#}"
  by (induction reason n bs rule: add_bucket.induct) auto

lemma take_skips_split:
  "take_skips bs cs = (bs', rest) \<Longrightarrow>
   \<exists>l. cs = map (\<lambda>(n, r). Skip n r) l @ rest \<and> mset (flat_groups bs') = mset (flat_groups bs) + mset l"
proof (induction bs cs rule: take_skips.induct)
  case (1 bs n reason cs)
  then obtain l where "cs = map (\<lambda>(n, r). Skip n r) l @ rest"
    "mset (flat_groups bs') = mset (flat_groups (add_bucket reason n bs)) + mset l" by auto
  then show ?case by (intro exI [of _ "(n, reason) # l"]) (simp add: add_bucket_flat)
qed auto

lemma skip_buckets_ok:
  "ok (skip_buckets now job_id bs (a, d)) =
     map_option (\<lambda>d'. (a\<lparr>ap_skipped := ap_skipped a + length (flat_groups bs)\<rparr>, d'))
       (run_groups job_id (\<lambda>reason r. r\<lparr>js_status := ''skipped'', js_skip_reason := Some (skip_reason_str reason),
         js_completed_at := Some now\<rparr>) bs d)"
  by (induction bs arbitrary: a d)
    (auto simp: expect_rows_def skip_is_pending_write add.assoc split: prod.split)

text \<open>What the statement of a change writes into its row.\<close>

fun stmt_write :: "time \<Rightarrow> change \<Rightarrow> step_record \<Rightarrow> step_record" where
  "stmt_write now (Promote _) r = r\<lparr>js_status := ''ready'', js_ready_at := Some now\<rparr>"
| "stmt_write now (Skip _ reason) r =
     r\<lparr>js_status := ''skipped'', js_skip_reason := Some (skip_reason_str reason), js_completed_at := Some now\<rparr>"
| "stmt_write now (Fail _ err) r =
     r\<lparr>js_status := ''failed'', js_error_message := Some err, js_completed_at := Some now\<rparr>"
| "stmt_write now (Expand _ _) r = r\<lparr>js_status := ''running'', js_started_at := Some now\<rparr>"
| "stmt_write now (Adopt _) r = r\<lparr>js_status := ''running'', js_started_at := Some now\<rparr>"
| "stmt_write now (Rollup _ (RollupCompleted out)) r =
     r\<lparr>js_status := ''completed'', js_output := Some out, js_completed_at := Some now\<rparr>"
| "stmt_write now (Rollup _ (RollupFailed err out)) r =
     r\<lparr>js_status := ''failed'', js_error_message := Some err, js_output := Some out, js_completed_at := Some now\<rparr>"

definition guarded_row :: "uuid \<Rightarrow> change \<Rightarrow> step_record \<Rightarrow> bool" where
  "guarded_row job_id c r \<longleftrightarrow> at_step job_id (target c) r \<and> js_status r = source_status c"

definition write_row :: "time \<Rightarrow> uuid \<Rightarrow> change \<Rightarrow> db \<Rightarrow> db option" where
  "write_row now job_id c d = one_row (update_steps (guarded_row job_id c) (stmt_write now c) d)"

definition insert_rows :: "nat \<Rightarrow> time \<Rightarrow> change \<Rightarrow> db \<Rightarrow> db option" where
  "insert_rows mp utc_now c d =
     (case c of Expand _ insts \<Rightarrow> (case create_steps_tx mp utc_now insts d of Inl _ \<Rightarrow> None | Inr d' \<Rightarrow> Some d')
      | _ \<Rightarrow> Some d)"

lemma stmt_write_abs:
  "stmt_write now (Promote n) = (\<lambda>r. r\<lparr>js_status := ''ready'', js_ready_at := Some now\<rparr>)"
  "stmt_write now (Skip n reason) =
     (\<lambda>r. r\<lparr>js_status := ''skipped'', js_skip_reason := Some (skip_reason_str reason), js_completed_at := Some now\<rparr>)"
  "stmt_write now (Fail n err) =
     (\<lambda>r. r\<lparr>js_status := ''failed'', js_error_message := Some err, js_completed_at := Some now\<rparr>)"
  "stmt_write now (Expand n insts) = (\<lambda>r. r\<lparr>js_status := ''running'', js_started_at := Some now\<rparr>)"
  "stmt_write now (Adopt n) = (\<lambda>r. r\<lparr>js_status := ''running'', js_started_at := Some now\<rparr>)"
  "stmt_write now (Rollup n (RollupCompleted out)) =
     (\<lambda>r. r\<lparr>js_status := ''completed'', js_output := Some out, js_completed_at := Some now\<rparr>)"
  "stmt_write now (Rollup n (RollupFailed err out)) =
     (\<lambda>r. r\<lparr>js_status := ''failed'', js_error_message := Some err, js_output := Some out, js_completed_at := Some now\<rparr>)"
  by (rule ext, simp)+

lemma insert_rows_abs:
  "insert_rows mp utc_now (Promote n) = Some" "insert_rows mp utc_now (Skip n reason) = Some"
  "insert_rows mp utc_now (Fail n err) = Some" "insert_rows mp utc_now (Adopt n) = Some"
  "insert_rows mp utc_now (Rollup n out) = Some"
  "insert_rows mp utc_now (Expand n insts) =
     (\<lambda>d. case create_steps_tx mp utc_now insts d of Inl _ \<Rightarrow> None | Inr d' \<Rightarrow> Some d')"
  by (rule ext, simp add: insert_rows_def)+

lemma apply_one_split:
  "apply_one mp now utc_now job_id c d = Option.bind (write_row now job_id c d) (insert_rows mp utc_now c)"
  by (cases "(now, c, undefined :: step_record)" rule: stmt_write.cases)
    (simp_all add: write_row_def insert_rows_abs stmt_write_abs guarded_row_def [abs_def] promote_steps_tx_def skip_steps_tx_def
      fail_pending_step_tx_def start_placeholder_tx_def complete_placeholder_tx_def fail_placeholder_tx_def
      conj_assoc)

lemma stmt_write_key [simp]:
  "js_job_id (stmt_write now c r) = js_job_id r" "js_step_name (stmt_write now c r) = js_step_name r"
  by (cases "(now, c, r)" rule: stmt_write.cases, simp_all)+

lemma keyed_update:
  "(\<And>r. step_key (f r) = step_key r) \<Longrightarrow> keyed (fst (update_steps w f d)) = keyed d"
  unfolding update_steps_eq by (rule keyed_map_steps) simp

lemma keyed_write_row: "keyed d \<Longrightarrow> write_row now job_id c d = Some d' \<Longrightarrow> keyed d' \<and> jobs d' = jobs d"
  by (auto simp: write_row_def one_row_def keyed_update row_simps split: if_splits)

lemma keyed_create:
  assumes "keyed d" "create_steps_tx mp utc_now insts d = Inr d'"
  shows "keyed d' \<and> jobs d' = jobs d"
proof (cases "insts = []")
  case False
  let ?rows = "map (step_insert_row utc_now) insts"
  have "distinct (map step_key (steps d @ ?rows)) \<and> d' = d\<lparr>steps := steps d @ ?rows\<rparr>"
    using assms(2) False unfolding create_steps_tx_def Let_def
    by (simp only: if_False split: if_splits) simp_all
  then show ?thesis unfolding keyed_def by simp
qed (use assms in \<open>simp add: create_steps_tx_def\<close>)

lemma keyed_insert_rows: "keyed d \<Longrightarrow> insert_rows mp utc_now c d = Some d' \<Longrightarrow> keyed d' \<and> jobs d' = jobs d"
  using keyed_create by (cases c) (simp_all add: insert_rows_abs split: sum.splits)

lemma keyed_apply_one:
  assumes "keyed d" "apply_one mp now utc_now job_id c d = Some d'"
  shows "keyed d' \<and> jobs d' = jobs d"
  using assms keyed_write_row keyed_insert_rows
  unfolding apply_one_split bind_eq_Some_conv by metis

lemma keyed_apply_seq:
  "keyed d \<Longrightarrow> apply_seq mp now utc_now job_id cs d = Some d' \<Longrightarrow> keyed d' \<and> jobs d' = jobs d"
proof (induction cs arbitrary: d)
  case (Cons c cs)
  then show ?case using keyed_apply_one [OF Cons.prems(1)] by (cases "apply_one mp now utc_now job_id c d") fastforce+
qed simp

lemma batch_skips:
  assumes "keyed d" "take_skips [] cs = (bs, rest)"
  obtains l where "cs = map (\<lambda>(n, r). Skip n r) l @ rest"
    "ok (skip_buckets now job_id bs (a, d)) =
       map_option (\<lambda>d'. (tally (map (\<lambda>(n, r). Skip n r) l) a, d'))
         (apply_seq mp now utc_now job_id (map (\<lambda>(n, r). Skip n r) l) d)"
proof -
  obtain l where l: "cs = map (\<lambda>(n, r). Skip n r) l @ rest" "mset (flat_groups bs) = mset l"
    using take_skips_split [OF assms(2)] by auto
  let ?f = "\<lambda>reason r. r\<lparr>js_status := ''skipped'', js_skip_reason := Some (skip_reason_str reason),
      js_completed_at := Some now\<rparr>"
  have len: "length (flat_groups bs) = length l" using l(2) by (metis size_mset)
  have "run_groups job_id ?f bs d = run_groups job_id ?f (map (\<lambda>(n, r). (r, [n])) l) d"
    by (rule skips.run_groups_perm [OF assms(1)]) (simp add: l(2) flat_singletons)
  then show ?thesis by (intro that [OF l(1)]) (simp only: skip_buckets_ok seq_skips tally_skips len)
qed

lemma ok_case: "ok (case x of Inl e \<Rightarrow> Inl e | Inr y \<Rightarrow> g y) = Option.bind (ok x) (\<lambda>y. ok (g y))"
  by (cases x) simp_all

lemma ok_expect: "ok (case expect_rows n m s of Inl e \<Rightarrow> Inl e | Inr _ \<Rightarrow> x) = (if n = m then ok x else None)"
  by (simp add: expect_rows_def)

definition seq_spec :: "nat \<Rightarrow> time \<Rightarrow> time \<Rightarrow> uuid \<Rightarrow> change list \<Rightarrow> applied \<times> bool \<times> db \<Rightarrow> bool" where
  "seq_spec mp now utc_now job_id cs st =
     (case st of (a, mark, d) \<Rightarrow> ok (apply_changes mp now utc_now job_id cs st) =
        map_option (\<lambda>d'. (tally cs a, mark \<or> list_ex starts_loop cs, d')) (apply_seq mp now utc_now job_id cs d))"

lemma one_row_SomeD: "one_row p = Some d' \<Longrightarrow> p = (d', 1)"
  by (cases p) (simp add: one_row_def split: if_splits)

lemma apply_changes_single:
  assumes "\<And>n. c \<noteq> Promote n" "\<And>n r. c \<noteq> Skip n r"
  shows "ok (apply_changes mp now utc_now job_id (c # cs) (a, mark, d)) =
    Option.bind (apply_one mp now utc_now job_id c d)
      (\<lambda>d'. ok (apply_changes mp now utc_now job_id cs (count_change c a, mark \<or> starts_loop c, d')))"
  using assms
  by (cases "(now, c, undefined :: step_record)" rule: stmt_write.cases)
    (simp_all add: ok_expect one_row_def split: prod.split sum.split)

lemma seq_single:
  assumes "keyed d" "\<And>n. c \<noteq> Promote n" "\<And>n r. c \<noteq> Skip n r"
    and "\<And>d'. apply_one mp now utc_now job_id c d = Some d' \<Longrightarrow> keyed d' \<Longrightarrow>
      seq_spec mp now utc_now job_id cs (count_change c a, mark \<or> starts_loop c, d')"
  shows "seq_spec mp now utc_now job_id (c # cs) (a, mark, d)"
proof (cases "apply_one mp now utc_now job_id c d")
  case (Some d')
  then have "seq_spec mp now utc_now job_id cs (count_change c a, mark \<or> starts_loop c, d')"
    using assms(4) keyed_apply_one [OF assms(1)] by blast
  then show ?thesis using Some by (simp add: seq_spec_def apply_changes_single [OF assms(2,3)] disj_assoc)
qed (simp add: seq_spec_def apply_changes_single [OF assms(2,3)])

lemma seq_promote_run:
  assumes kd: "keyed d" and tp: "take_promotes (Promote step # cs) = (ns, rest)"
    and ih: "\<And>d'. promote_steps_tx now job_id ns d = (d', length ns) \<Longrightarrow> keyed d' \<Longrightarrow>
      seq_spec mp now utc_now job_id rest (a\<lparr>ap_promoted := ap_promoted a + length ns\<rparr>, mark, d')"
  shows "seq_spec mp now utc_now job_id (Promote step # cs) (a, mark, d)"
proof -
  have cs: "Promote step # cs = map Promote ns @ rest" using take_promotes_split [OF tp] .
  obtain d' n where pr: "promote_steps_tx now job_id ns d = (d', n)" by fastforce
  have s: "apply_seq mp now utc_now job_id (map Promote ns) d = (if n = length ns then Some d' else None)"
    using batch_promotes [OF kd, of mp now utc_now job_id ns] by (simp add: pr)
  have l: "\<not> list_ex starts_loop (map Promote ns)" by (simp add: list_ex_iff)
  have lhs: "ok (apply_changes mp now utc_now job_id (Promote step # cs) (a, mark, d)) =
      (if n = length ns then ok (apply_changes mp now utc_now job_id rest
         (a\<lparr>ap_promoted := ap_promoted a + length ns\<rparr>, mark, d')) else None)"
    by (simp only: apply_changes.simps tp pr Let_def prod.case ok_expect)
  show ?thesis
  proof (cases "n = length ns")
    case True
    have k: "keyed d'" using keyed_apply_seq [OF kd] s True by (metis (full_types))
    show ?thesis using True l unfolding seq_spec_def prod.case lhs unfolding cs apply_seq_append s tally_append tally_promotes
      by (simp add: ih [unfolded seq_spec_def prod.case, OF pr [unfolded True] k])
  next
    case False
    then show ?thesis unfolding seq_spec_def prod.case lhs unfolding cs apply_seq_append s by simp
  qed
qed

lemma seq_skip_run:
  assumes kd: "keyed d" and ts: "take_skips [] (Skip step reason # cs) = (bs, rest)"
    and ih: "\<And>a' d'. skip_buckets now job_id bs (a, d) = Inr (a', d') \<Longrightarrow> keyed d' \<Longrightarrow>
      seq_spec mp now utc_now job_id rest (a', mark, d')"
  shows "seq_spec mp now utc_now job_id (Skip step reason # cs) (a, mark, d)"
proof -
  obtain l where cs: "Skip step reason # cs = map (\<lambda>(n, r). Skip n r) l @ rest"
    and b: "ok (skip_buckets now job_id bs (a, d)) =
       map_option (\<lambda>d'. (tally (map (\<lambda>(n, r). Skip n r) l) a, d'))
         (apply_seq mp now utc_now job_id (map (\<lambda>(n, r). Skip n r) l) d)"
    by (rule batch_skips [OF kd ts])
  have lhs: "ok (apply_changes mp now utc_now job_id (Skip step reason # cs) (a, mark, d)) =
      Option.bind (ok (skip_buckets now job_id bs (a, d)))
        (\<lambda>(a', d'). ok (apply_changes mp now utc_now job_id rest (a', mark, d')))"
    by (simp add: ts del: take_skips.simps split: sum.split)
  have nl: "\<not> list_ex starts_loop (map (\<lambda>(n, r). Skip n r) l)" by (auto simp: list_ex_iff)
  show ?thesis
  proof (cases "skip_buckets now job_id bs (a, d)")
    case (Inl e)
    then have "apply_seq mp now utc_now job_id (map (\<lambda>(n, r). Skip n r) l) d = None" using b by simp
    then show ?thesis unfolding seq_spec_def prod.case lhs unfolding cs apply_seq_append using Inl by simp
  next
    case (Inr y)
    then obtain d' where y: "y = (tally (map (\<lambda>(n, r). Skip n r) l) a, d')"
        "apply_seq mp now utc_now job_id (map (\<lambda>(n, r). Skip n r) l) d = Some d'" using b [symmetric] by auto
    have k: "keyed d'" using keyed_apply_seq [OF kd y(2)] by simp
    show ?thesis using nl unfolding seq_spec_def prod.case lhs unfolding cs apply_seq_append tally_append
      by (simp add: Inr y ih [unfolded seq_spec_def prod.case, OF Inr [unfolded y(1)] k])
  qed
qed

lemma apply_changes_seq:
  "keyed d \<Longrightarrow> seq_spec mp now utc_now job_id cs (a, mark, d)"
proof (induction mp now utc_now job_id cs "(a, mark, d)" arbitrary: a mark d rule: apply_changes.induct)
  case (2 mp now utc_now job_id step cs a mark d)
  obtain ns rest where tp: "take_promotes (Promote step # cs) = (ns, rest)" by fastforce
  show ?case
    by (rule seq_promote_run [OF 2(2) tp]) (use 2(1) [OF tp [symmetric] refl] in \<open>simp add: expect_rows_def\<close>)
next
  case (3 mp now utc_now job_id step reason cs a mark d)
  obtain bs rest where ts: "take_skips [] (Skip step reason # cs) = (bs, rest)" by fastforce
  show ?case by (rule seq_skip_run [OF 3(2) ts]) (use 3(1) [OF ts [symmetric] refl] in blast)
next
  case (4 mp now utc_now job_id step err cs a mark d)
  show ?case
    by (rule seq_single [OF 4(2)]) (use 4(1) in \<open>auto dest!: one_row_SomeD simp: expect_rows_def\<close>)
next
  case (5 mp now utc_now job_id n insts cs a mark d)
  show ?case
  proof (rule seq_single [OF 5(2)])
    fix d'
    assume "apply_one mp now utc_now job_id (Expand n insts) d = Some d'" and k: "keyed d'"
    then obtain y where "one_row (start_placeholder_tx now job_id n d) = Some y" and c: "create_steps_tx mp utc_now insts y = Inr d'"
      by (cases "one_row (start_placeholder_tx now job_id n d)") (auto split: sum.splits)
    then have s: "(y, 1) = start_placeholder_tx now job_id n d" using one_row_SomeD by metis
    show "seq_spec mp now utc_now job_id cs (count_change (Expand n insts) a, mark \<or> starts_loop (Expand n insts), d')"
      using 5(1) [OF refl s _ c k] s by (simp add: expect_rows_def)
  qed simp_all
next
  case (6 mp now utc_now job_id n cs a mark d)
  show ?case
    by (rule seq_single [OF 6(2)]) (use 6(1) in \<open>auto dest!: one_row_SomeD simp: expect_rows_def\<close>)
next
  case (7 mp now utc_now job_id n out cs a mark d)
  show ?case
    by (rule seq_single [OF 7(2)])
      (use 7(1) in \<open>cases out; auto dest!: one_row_SomeD simp: expect_rows_def\<close>)+
qed (simp add: seq_spec_def)

end
