(* ===== verification/Cascade_Refine.thy ===== *)
theory Cascade_Refine
  imports Cascade_Apply
begin

text \<open>
  Applying a plan to the database refines applying it to the snapshot it was computed from: on a
  database that agrees with the snapshot the transaction commits exactly if every guard holds, and
  then database and snapshot agree again. On top of it, what \<^const>\<open>execute\<close> achieves.
\<close>

section \<open>Progress of a step\<close>

text \<open>
  What the engine decides on: status, skip reason, output and error message of each step, by name.
\<close>

definition progress :: "'a job_step_row_scheme \<Rightarrow> string \<times> string option \<times> json option \<times> string option" where
  "progress r = (js_status r, js_skip_reason r, js_output r, js_error_message r)"

definition mirrors :: "uuid \<Rightarrow> db \<Rightarrow> job_step_row list \<Rightarrow> bool" where
  "mirrors job_id d rows \<longleftrightarrow>
     (\<forall>n. map_option progress (get_step job_id n d) = map_option progress (row_at rows n))"

fun state_write ::
  "change \<Rightarrow> string \<times> string option \<times> json option \<times> string option
    \<Rightarrow> string \<times> string option \<times> json option \<times> string option" where
  "state_write (Promote _) (s, k, out, e) = (''ready'', k, out, e)"
| "state_write (Skip _ reason) (s, k, out, e) = (''skipped'', Some (skip_reason_str reason), out, e)"
| "state_write (Fail _ err) (s, k, out, e) = (''failed'', k, out, Some err)"
| "state_write (Expand _ _) (s, k, out, e) = (''running'', k, out, e)"
| "state_write (Adopt _) (s, k, out, e) = (''running'', k, out, e)"
| "state_write (Rollup _ (RollupCompleted v)) (s, k, out, e) = (''completed'', k, Some v, e)"
| "state_write (Rollup _ (RollupFailed err v)) (s, k, out, e) = (''failed'', k, Some v, Some err)"

lemma progress_row_write: "progress (row_write c r) = state_write c (progress r)"
  by (cases "(c, r)" rule: row_write.cases) (simp_all add: progress_def)

lemma progress_stmt_write: "progress (stmt_write now c r) = state_write c (progress r)"
  by (cases "(now, c, r)" rule: stmt_write.cases) (simp_all add: progress_def)

lemma progress_step_row [simp]: "progress (step_row r) = progress r"
  by (simp add: progress_def job_step_row.truncate_def)

lemma fst_progress: "fst (progress r) = js_status r"
  by (simp add: progress_def)

section \<open>One statement\<close>

lemma filter_key_count:
  assumes "distinct (map k xs)"
  shows "length (filter (\<lambda>r. k r = x \<and> P r) xs) =
    (case find (\<lambda>r. k r = x) xs of Some r \<Rightarrow> if P r then 1 else 0 | None \<Rightarrow> 0)"
  using assms
proof (induction xs)
  case (Cons a xs)
  show ?case
  proof (cases "k a = x")
    case True
    then have "filter (\<lambda>r. k r = x \<and> P r) xs = []" using Cons.prems by (auto simp: filter_empty_conv image_iff)
    then show ?thesis using True by simp
  qed (use Cons in simp)
qed simp

lemma find_map_keep:
  "(\<And>r. p (if w r then f r else r) = p r) \<Longrightarrow>
   find p (map (\<lambda>r. if w r then f r else r) xs) = map_option (\<lambda>r. if w r then f r else r) (find p xs)"
  by (induction xs) auto

abbreviation db_progress :: "uuid \<Rightarrow> db \<Rightarrow> string \<Rightarrow> (string \<times> string option \<times> json option \<times> string option) option" where
  "db_progress job_id d n \<equiv> map_option progress (select_one (at_step job_id n) (steps d))"

lemma mirrors_alt: "mirrors job_id d rows \<longleftrightarrow> (\<forall>n. db_progress job_id d n = map_option progress (row_at rows n))"
  by (simp add: mirrors_def get_step_def option.map_comp comp_def)

lemma write_row_exact:
  assumes "keyed d"
  shows "write_row now job_id c d =
    (if map_option fst (db_progress job_id d (target c)) = Some (source_status c)
     then Some (map_steps (\<lambda>r. if guarded_row job_id c r then stmt_write now c r else r) d) else None)"
proof -
  have "snd (update_steps (guarded_row job_id c) (stmt_write now c) d) =
      length (filter (\<lambda>r. step_key r = (job_id, target c) \<and> js_status r = source_status c) (steps d))"
    unfolding update_steps_count guarded_row_def by (simp add: conj_assoc)
  also have "\<dots> = (case select_one (at_step job_id (target c)) (steps d) of
      Some r \<Rightarrow> if js_status r = source_status c then 1 else 0 | None \<Rightarrow> 0)"
    using filter_key_count [OF assms [unfolded keyed_def], of "(job_id, target c)"] by (simp add: select_one_def)
  finally show ?thesis
    by (simp add: write_row_def one_row_def update_steps_eq fst_progress option.map_comp comp_def split: option.split)
qed

lemma write_row_progress:
  assumes "keyed d" "map_option fst (db_progress job_id d (target c)) = Some (source_status c)"
  shows "db_progress job_id (map_steps (\<lambda>r. if guarded_row job_id c r then stmt_write now c r else r) d) n =
    (if n = target c then map_option (state_write c) (db_progress job_id d n) else db_progress job_id d n)"
proof -
  let ?g = "\<lambda>r. if guarded_row job_id c r then stmt_write now c r else r"
  have f: "select_one (at_step job_id n) (map ?g (steps d)) = map_option ?g (select_one (at_step job_id n) (steps d))"
    unfolding select_one_def by (rule find_map_keep) simp
  show ?thesis
  proof (cases "select_one (at_step job_id n) (steps d)")
    case None
    then show ?thesis using f by auto
  next
    case (Some r)
    have r: "at_step job_id n r" using find_SomeD [OF Some [unfolded select_one_def]] by (rule conjunct2)
    have "js_status r = source_status c" if "n = target c"
      using assms(2) Some that by (simp add: progress_def)
    then have "guarded_row job_id c r \<longleftrightarrow> n = target c" using r by (auto simp: guarded_row_def)
    then show ?thesis using f Some progress_stmt_write [of now c r] by auto
  qed
qed

section \<open>One change\<close>

text \<open>The guards the database checks, stated on the snapshot; an expansion must be insertable.\<close>

definition guard_holds :: "job_step_row list \<Rightarrow> change \<Rightarrow> bool" where
  "guard_holds rows c \<longleftrightarrow> snap_status rows (target c) = Some (source_status c) \<and>
     distinct (inserted c) \<and> set (inserted c) \<inter> set (names rows) = {}"

fun guards_hold :: "job_step_row list \<Rightarrow> change list \<Rightarrow> bool" where
  "guards_hold rows [] = True"
| "guards_hold rows (c # cs) = (guard_holds rows c \<and> guards_hold (snap_apply c rows) cs)"

definition insertable :: "nat \<Rightarrow> uuid \<Rightarrow> change \<Rightarrow> bool" where
  "insertable mp job_id c =
     (case c of
        Expand _ insts \<Rightarrow> cols_per_row * length insts \<le> mp \<and>
          list_all (\<lambda>i. ns_job_id i = job_id \<and> step_check (ns_status i) (ns_action_type i) (ns_runner i) (ns_timeout_secs i)) insts
      | _ \<Rightarrow> True)"

lemma valid_guard: "valid_change rows c \<Longrightarrow> guard_holds rows c"
  using good_instances_distinct by (cases c) (auto simp: valid_change_def guard_holds_def)

lemma valid_guards: "valid_seq rows cs \<Longrightarrow> guards_hold rows cs"
  by (induction cs arbitrary: rows) (auto intro: valid_guard)

lemma step_insert_row_sel [simp]:
  "js_job_id (step_insert_row t i) = ns_job_id i" "js_step_name (step_insert_row t i) = ns_step_name i"
  "js_status (step_insert_row t i) = ns_status i" "js_action_type (step_insert_row t i) = ns_action_type i"
  "js_runner (step_insert_row t i) = ns_runner i" "js_timeout_secs (step_insert_row t i) = ns_timeout_secs i"
  "progress (step_insert_row t i) = (ns_status i, None, None, None)"
  by (simp_all add: step_insert_row_def progress_def)

lemma progress_synthetic [simp]: "progress (synthetic_row i) = (ns_status i, None, None, None)"
  by (simp add: synthetic_row_def progress_def)

lemma mirrors_names:
  assumes "mirrors job_id d rows"
  shows "n \<in> set (names rows) \<longleftrightarrow> (\<exists>r \<in> set (steps d). at_step job_id n r)"
proof -
  have "db_progress job_id d n = None \<longleftrightarrow> map_option progress (row_at rows n) = None"
    using assms unfolding mirrors_alt by simp
  then have "select_one (at_step job_id n) (steps d) = None \<longleftrightarrow> row_at rows n = None"
    by (simp only: option.map_disc_iff)
  then show ?thesis unfolding row_at_None select_one_def find_None_iff by blast
qed

lemma create_steps_exact:
  assumes "insts \<noteq> []" "keyed d" "cols_per_row * length insts \<le> mp"
    and "list_all (\<lambda>i. ns_job_id i = job_id \<and> step_check (ns_status i) (ns_action_type i) (ns_runner i) (ns_timeout_secs i)) insts"
    and "list_ex (\<lambda>j. j_job_id j = job_id) (jobs d)"
  shows "create_steps_tx mp utc_now insts d =
    (if distinct (map ns_step_name insts) \<and>
        (\<forall>n \<in> set (map ns_step_name insts). \<not> (\<exists>r \<in> set (steps d). at_step job_id n r))
     then Inr (d\<lparr>steps := steps d @ map (step_insert_row utc_now) insts\<rparr>) else Inl ''Failed to create job steps'')"
proof -
  let ?rows = "map (step_insert_row utc_now) insts"
  have mk: "map step_key ?rows = map (Pair job_id) (map ns_step_name insts)"
    using assms(4) by (auto simp: list_all_iff)
  have d: "distinct (map step_key ?rows) \<longleftrightarrow> distinct (map ns_step_name insts)"
    unfolding mk distinct_map [of "Pair job_id"] by (simp add: inj_on_def)
  have s: "set (map step_key (steps d)) \<inter> set (map step_key ?rows) = {} \<longleftrightarrow>
      (\<forall>n \<in> set (map ns_step_name insts). \<not> (\<exists>r \<in> set (steps d). at_step job_id n r))"
    unfolding mk by (simp add: disjoint_iff image_iff) (metis (no_types))
  have "distinct (map step_key (steps d @ ?rows)) \<longleftrightarrow> distinct (map ns_step_name insts) \<and>
      (\<forall>n \<in> set (map ns_step_name insts). \<not> (\<exists>r \<in> set (steps d). at_step job_id n r))"
    unfolding map_append distinct_append d s using assms(2) by (simp add: keyed_def)
  moreover have "list_all (\<lambda>r. step_check (js_status r) (js_action_type r) (js_runner r) (js_timeout_secs r)) ?rows"
    "list_all (\<lambda>r. list_ex (\<lambda>j. j_job_id j = js_job_id r) (jobs d)) ?rows"
    using assms(4,5) by (simp_all add: list_all_iff)
  ultimately show ?thesis using assms(1,3) unfolding create_steps_tx_def Let_def by simp
qed

lemma inserted_progress:
  assumes "distinct (map ns_step_name insts)" "list_all (\<lambda>i. ns_job_id i = job_id) insts"
  shows "map_option progress (find (at_step job_id n) (map (step_insert_row t) insts)) =
    map_option progress (row_at (map synthetic_row insts) n)"
proof (cases "n \<in> set (map ns_step_name insts)")
  case True
  then obtain i where i: "i \<in> set insts" "ns_step_name i = n" by auto
  have j: "ns_job_id i = job_id" using assms(2) i(1) by (simp add: list_all_iff)
  have "row_at (map synthetic_row insts) (js_step_name (synthetic_row i)) = Some (synthetic_row i)"
    by (rule row_at_distinct [THEN iffD2]) (use assms(1) i(1) in \<open>simp_all add: comp_def\<close>)
  moreover have "find (at_step job_id n) (map (step_insert_row t) insts) = Some (step_insert_row t i)"
    by (rule find_unique_key [where k = js_step_name]) (use assms(1) i j in \<open>simp_all add: comp_def\<close>)
  ultimately show ?thesis using i(2) by simp
next
  case False
  then have "row_at (map synthetic_row insts) n = None" by (simp add: row_at_None comp_def)
  moreover have "find (at_step job_id n) (map (step_insert_row t) insts) = None"
    using False by (auto simp: find_None_iff)
  ultimately show ?thesis by simp
qed

lemma find_append_case: "find p (xs @ ys) = (case find p xs of Some r \<Rightarrow> Some r | None \<Rightarrow> find p ys)"
  by (induction xs) auto

lemma row_at_append_new:
  assumes "set (names a) \<inter> set (names b) = {}"
  shows "row_at (a @ b) n = (case row_at a n of Some r \<Rightarrow> Some r | None \<Rightarrow> row_at b n)"
proof (cases "n \<in> set (names b)")
  case True
  then have a: "row_at a n = None" using assms unfolding row_at_None by blast
  obtain i where i: "row_index b n = Some i" using True row_index_None [of b n] by fastforce
  then have "row_index (a @ b) n = Some (length a + i)" by (simp add: row_index_append)
  then show ?thesis using a i by (simp add: row_at_def nth_append)
next
  case False
  then have "row_at b n = None" by (simp only: row_at_None not_False_eq_True)
  then show ?thesis using row_at_append_old [OF False] by (simp split: option.split)
qed

text \<open>A change commits exactly if its guard holds, and then database and snapshot agree again.\<close>

lemma write_row_mirrors:
  assumes "keyed d" "mirrors job_id d rows" "snap_status rows (target c) = Some (source_status c)"
  obtains d' where "write_row now job_id c d = Some d'" "keyed d'" "jobs d' = jobs d"
    "mirrors job_id d' (update_row (target c) (row_write c) rows)"
proof -
  let ?d = "map_steps (\<lambda>r. if guarded_row job_id c r then stmt_write now c r else r) d"
  have g: "map_option fst (db_progress job_id d (target c)) = Some (source_status c)"
    using assms(2,3) unfolding mirrors_alt
    by (simp add: snap_status_row_at option.map_comp comp_def fst_progress)
  then have w: "write_row now job_id c d = Some ?d" using write_row_exact [OF assms(1)] by simp
  have "map_option progress (row_at (update_row (target c) (row_write c) rows) n) =
      (if n = target c then map_option (state_write c) (map_option progress (row_at rows n))
       else map_option progress (row_at rows n))" for n
    by (simp add: row_at_update_row option.map_comp comp_def progress_row_write)
  then have "mirrors job_id ?d (update_row (target c) (row_write c) rows)"
    using assms(2) write_row_progress [OF assms(1) g] unfolding mirrors_alt by simp
  then show ?thesis using that w keyed_write_row [OF assms(1) w] by blast
qed

lemma write_row_None:
  assumes "keyed d" "mirrors job_id d rows" "snap_status rows (target c) \<noteq> Some (source_status c)"
  shows "write_row now job_id c d = None"
  using assms(2,3) unfolding mirrors_alt write_row_exact [OF assms(1)]
  by (simp add: snap_status_row_at option.map_comp comp_def fst_progress)

lemma insert_rows_mirrors:
  assumes "keyed d" "mirrors job_id d rows" "insertable mp job_id c" "list_ex (\<lambda>j. j_job_id j = job_id) (jobs d)"
    and "distinct (inserted c) \<and> set (inserted c) \<inter> set (names rows) = {}"
  obtains d' where "insert_rows mp utc_now c d = Some d'" "keyed d'" "jobs d' = jobs d" "mirrors job_id d' (rows @ new_rows c)"
proof (cases "\<exists>n insts. c = Expand n insts \<and> insts \<noteq> []")
  case False
  then have "insert_rows mp utc_now c d = Some d" "new_rows c = []"
    by (cases c; simp add: insert_rows_def create_steps_tx_def)+
  then show ?thesis using that assms by simp
next
  case True
  then obtain n insts where c: "c = Expand n insts" "insts \<noteq> []" by blast
  let ?d = "d\<lparr>steps := steps d @ map (step_insert_row utc_now) insts\<rparr>"
  have jb: "list_all (\<lambda>i. ns_job_id i = job_id) insts" using assms(3) by (simp add: c insertable_def list_all_iff)
  have "create_steps_tx mp utc_now insts d = Inr ?d"
    using create_steps_exact [OF c(2) assms(1) _ _ assms(4), of mp utc_now] assms(3,5) mirrors_names [OF assms(2)]
    by (simp add: c(1) insertable_def disjoint_iff)
  then have i: "insert_rows mp utc_now c d = Some ?d" by (simp add: c(1) insert_rows_abs)
  have "db_progress job_id ?d m = map_option progress (row_at (rows @ new_rows c) m)" for m
  proof -
    have dis: "set (names rows) \<inter> set (names (map synthetic_row insts)) = {}"
      using assms(5) by (auto simp: c(1) comp_def)
    have old: "db_progress job_id d m = map_option progress (row_at rows m)"
      using assms(2) by (simp add: mirrors_alt)
    have "db_progress job_id ?d m =
        (case db_progress job_id d m of Some x \<Rightarrow> Some x
         | None \<Rightarrow> map_option progress (find (at_step job_id m) (map (step_insert_row utc_now) insts)))"
      by (simp add: select_one_def find_append_case split: option.split)
    also have "\<dots> = map_option progress (row_at (rows @ map synthetic_row insts) m)"
      unfolding old row_at_append_new [OF dis]
      using inserted_progress [OF _ jb, of m utc_now] assms(5) by (simp add: c(1) split: option.split)
    finally show ?thesis by (simp add: c(1))
  qed
  then have "mirrors job_id ?d (rows @ new_rows c)" by (simp add: mirrors_alt)
  then show ?thesis using that i keyed_insert_rows [OF assms(1) i] by blast
qed

lemma insert_rows_None:
  assumes "keyed d" "mirrors job_id d rows" "insertable mp job_id c" "list_ex (\<lambda>j. j_job_id j = job_id) (jobs d)"
    and "\<not> (distinct (inserted c) \<and> set (inserted c) \<inter> set (names rows) = {})"
  shows "insert_rows mp utc_now c d = None"
proof -
  have "inserted c \<noteq> []" using assms(5) by auto
  then obtain n insts where c: "c = Expand n insts" "insts \<noteq> []" by (cases c) auto
  show ?thesis
    using create_steps_exact [OF c(2) assms(1) _ _ assms(4), of mp utc_now] assms(3,5) mirrors_names [OF assms(2)]
    by (auto simp: c(1) insertable_def disjoint_iff insert_rows_abs)
qed

lemma names_update_write: "names (update_row n (row_write c) rows) = names rows"
  by (rule names_update_row) simp

lemma apply_one_exact:
  assumes "keyed d" "mirrors job_id d rows" "insertable mp job_id c" "list_ex (\<lambda>j. j_job_id j = job_id) (jobs d)"
  shows "if guard_holds rows c
    then \<exists>d'. apply_one mp now utc_now job_id c d = Some d' \<and> keyed d' \<and> jobs d' = jobs d \<and>
      mirrors job_id d' (snap_apply c rows)
    else apply_one mp now utc_now job_id c d = None"
proof (cases "snap_status rows (target c) = Some (source_status c)")
  case True
  let ?u = "update_row (target c) (row_write c) rows"
  obtain d1 where d1: "write_row now job_id c d = Some d1" "keyed d1" "jobs d1 = jobs d" "mirrors job_id d1 ?u"
    by (rule write_row_mirrors [OF assms(1,2) True])
  have j: "list_ex (\<lambda>j. j_job_id j = job_id) (jobs d1)" using assms(4) d1(3) by simp
  have g: "guard_holds rows c \<longleftrightarrow> distinct (inserted c) \<and> set (inserted c) \<inter> set (names ?u) = {}"
    by (simp only: guard_holds_def True names_update_write simp_thms)
  show ?thesis
  proof (cases "guard_holds rows c")
    case gt: True
    obtain d2 where "insert_rows mp utc_now c d1 = Some d2" "keyed d2" "jobs d2 = jobs d1" "mirrors job_id d2 (?u @ new_rows c)"
      by (rule insert_rows_mirrors [OF d1(2,4) assms(3) j, where utc_now = utc_now]) (use gt g in \<open>blast+\<close>)
    then show ?thesis using gt d1 by (simp add: apply_one_split snap_apply_split)
  next
    case False
    then have "insert_rows mp utc_now c d1 = None"
      using insert_rows_None [OF d1(2,4) assms(3) j] g by blast
    then show ?thesis using False d1(1) by (simp add: apply_one_split)
  qed
next
  case False
  then have "write_row now job_id c d = None" by (rule write_row_None [OF assms(1,2)])
  then show ?thesis using False by (simp add: apply_one_split guard_holds_def)
qed

lemma apply_seq_exact:
  assumes "keyed d" "mirrors job_id d rows" "list_all (insertable mp job_id) cs"
    and "list_ex (\<lambda>j. j_job_id j = job_id) (jobs d)"
  shows "if guards_hold rows cs
    then \<exists>d'. apply_seq mp now utc_now job_id cs d = Some d' \<and> keyed d' \<and> jobs d' = jobs d \<and>
      mirrors job_id d' (apply_all rows cs)
    else apply_seq mp now utc_now job_id cs d = None"
  using assms
proof (induction cs arbitrary: d rows)
  case (Cons c cs)
  note one = apply_one_exact [OF Cons.prems(1,2) _ Cons.prems(4), of mp c now utc_now]
  show ?case
  proof (cases "guard_holds rows c")
    case True
    then obtain d1 where d1: "apply_one mp now utc_now job_id c d = Some d1" "keyed d1" "jobs d1 = jobs d"
      "mirrors job_id d1 (snap_apply c rows)" using one Cons.prems(3) by auto
    then show ?thesis using Cons.IH [OF d1(2,4)] Cons.prems(3,4) True
      by (cases "guards_hold (snap_apply c rows) cs") simp_all
  next
    case False
    then show ?thesis using one Cons.prems(3) by simp
  qed
qed simp

section \<open>The transaction\<close>

lemma apply_plan_ok:
  assumes "keyed d"
  shows "ok (apply_plan mp now utc_now job_id p d) =
    map_option (\<lambda>d'. (tally (pl_changes p) applied_default,
        if list_ex starts_loop (pl_changes p) then mark_running_if_pending_tx now job_id d' else d'))
      (apply_seq mp now utc_now job_id (pl_changes p) d)"
proof -
  let ?r = "apply_changes mp now utc_now job_id (pl_changes p) (applied_default, False, d)"
  have "ok ?r = map_option (\<lambda>d'. (tally (pl_changes p) applied_default, list_ex starts_loop (pl_changes p), d'))
      (apply_seq mp now utc_now job_id (pl_changes p) d)"
    using apply_changes_seq [OF assms, of mp now utc_now job_id "pl_changes p" applied_default False]
    by (simp add: seq_spec_def)
  moreover have "ok (apply_plan mp now utc_now job_id p d) =
      map_option (\<lambda>(a, mark, d'). (a, if mark then mark_running_if_pending_tx now job_id d' else d')) (ok ?r)"
    by (cases ?r) (auto simp: apply_plan_def)
  ultimately show ?thesis by (simp add: option.map_comp comp_def)
qed

lemma mark_running_keeps:
  "steps (mark_running_if_pending_tx now job_id d) = steps d"
  "map j_job_id (jobs (mark_running_if_pending_tx now job_id d)) = map j_job_id (jobs d)"
  by (simp_all add: mark_running_if_pending_tx_def row_simps)

lemma mirrors_steps: "steps d = steps d' \<Longrightarrow> mirrors job_id d rows = mirrors job_id d' rows"
  by (simp add: mirrors_alt)

text \<open>
  C12. Batching is invisible. Whatever the database holds, applying a plan with its runs of
  promotions and skips batched, and skips regrouped by reason, commits exactly when one guarded
  statement per change, in plan order, would, and leaves the same database; the counters are those
  of the plan, and the job is marked running exactly if the plan starts a loop.
\<close>

theorem apply_batching_invisible:
  assumes "keyed d"
  shows "apply_plan mp now utc_now job_id p d = Inr (a, d') \<longleftrightarrow>
    (\<exists>d1. apply_seq mp now utc_now job_id (pl_changes p) d = Some d1 \<and>
      a = tally (pl_changes p) applied_default \<and>
      d' = (if list_ex starts_loop (pl_changes p) then mark_running_if_pending_tx now job_id d1 else d1))"
proof -
  have "apply_plan mp now utc_now job_id p d = Inr (a, d') \<longleftrightarrow> ok (apply_plan mp now utc_now job_id p d) = Some (a, d')"
    by (cases "apply_plan mp now utc_now job_id p d") simp_all
  also have "\<dots> \<longleftrightarrow> (\<exists>d1. apply_seq mp now utc_now job_id (pl_changes p) d = Some d1 \<and>
      a = tally (pl_changes p) applied_default \<and>
      d' = (if list_ex starts_loop (pl_changes p) then mark_running_if_pending_tx now job_id d1 else d1))"
    unfolding apply_plan_ok [OF assms] by (cases "apply_seq mp now utc_now job_id (pl_changes p) d") auto
  finally show ?thesis .
qed

lemma apply_plan_refines:
  assumes "keyed d" "mirrors job_id d rows" "list_all (insertable mp job_id) (pl_changes p)"
    and "list_ex (\<lambda>j. j_job_id j = job_id) (jobs d)"
  shows "if guards_hold rows (pl_changes p)
    then \<exists>d'. apply_plan mp now utc_now job_id p d = Inr (tally (pl_changes p) applied_default, d') \<and>
      keyed d' \<and> mirrors job_id d' (apply_all rows (pl_changes p))
    else \<exists>e. apply_plan mp now utc_now job_id p d = Inl e"
proof (cases "guards_hold rows (pl_changes p)")
  case True
  then obtain d1 where d1: "apply_seq mp now utc_now job_id (pl_changes p) d = Some d1" "keyed d1"
      "mirrors job_id d1 (apply_all rows (pl_changes p))"
    using apply_seq_exact [OF assms, of now utc_now] by auto
  let ?d = "if list_ex starts_loop (pl_changes p) then mark_running_if_pending_tx now job_id d1 else d1"
  have s: "steps ?d = steps d1" by (simp add: mark_running_keeps)
  have "ok (apply_plan mp now utc_now job_id p d) = Some (tally (pl_changes p) applied_default, ?d)"
    by (simp add: apply_plan_ok [OF assms(1)] d1(1))
  then have "apply_plan mp now utc_now job_id p d = Inr (tally (pl_changes p) applied_default, ?d)"
    by (cases "apply_plan mp now utc_now job_id p d") simp_all
  moreover have "keyed ?d" using d1(2) s by (simp add: keyed_def)
  moreover have "mirrors job_id ?d (apply_all rows (pl_changes p))" using mirrors_steps [OF s] d1(3) by simp
  ultimately show ?thesis using True by auto
next
  case False
  then have "apply_seq mp now utc_now job_id (pl_changes p) d = None"
    using apply_seq_exact [OF assms, of now utc_now] by simp
  then have "ok (apply_plan mp now utc_now job_id p d) = None" by (simp add: apply_plan_ok [OF assms(1)])
  then show ?thesis using False by (cases "apply_plan mp now utc_now job_id p d") simp_all
qed

section \<open>The retry loop\<close>

lemma sorted_names:
  assumes "keyed d"
  shows "distinct (names (get_steps_for_job collate job_id d))"
proof -
  let ?l = "filter (\<lambda>r. js_job_id r = job_id) (steps d)"
  have "names (get_steps_for_job collate job_id d) = map js_step_name (sort_key (\<lambda>r. collate (js_step_name r)) ?l)"
    by (simp add: get_steps_for_job_def rows_of_def comp_def)
  moreover have "distinct (map js_step_name ?l)" using matched_names [OF assms, of job_id "\<lambda>_. True"] by simp
  then have "distinct (map js_step_name (sort_key (\<lambda>r. collate (js_step_name r)) ?l))"
    by (metis mset_map mset_sort mset_eq_imp_distinct_iff)
  ultimately show ?thesis by simp
qed

lemma mirrors_get:
  assumes "keyed d"
  shows "mirrors job_id d (get_steps_for_job collate job_id d)"
proof -
  let ?rows = "get_steps_for_job collate job_id d"
  have mem: "r \<in> set ?rows \<longleftrightarrow> (\<exists>s \<in> set (steps d). js_job_id s = job_id \<and> r = step_row s)" for r
    by (auto simp: get_steps_for_job_def rows_of_def)
  have "get_step job_id n d = row_at ?rows n" for n
  proof (cases "select_one (at_step job_id n) (steps d)")
    case None
    then have "\<not> (\<exists>s \<in> set (steps d). at_step job_id n s)" unfolding select_one_def find_None_iff by blast
    then have "n \<notin> set (names ?rows)" using mem by fastforce
    then have "row_at ?rows n = None" by (simp only: row_at_None not_False_eq_True)
    then show ?thesis by (simp add: get_step_def None)
  next
    case (Some s)
    then have s: "s \<in> set (steps d)" "step_key s = (job_id, n)" using select_step [OF assms] by blast+
    then have "step_row s \<in> set ?rows" using mem by auto
    then have "row_at ?rows (js_step_name (step_row s)) = Some (step_row s)"
      using row_at_distinct [OF sorted_names [OF assms]] by blast
    then show ?thesis using s(2) by (simp add: get_step_def Some)
  qed
  then show ?thesis by (simp add: mirrors_def)
qed

definition quiet :: "attempt \<Rightarrow> bool" where
  "quiet att \<longleftrightarrow> at_job_read att = id \<and> at_steps_read att = id \<and> at_apply att = id \<and> \<not> at_deadlock att"

lemma execute_commits:
  assumes "keyed d" "job_get job_id d = Some job" "quiet (env 1)"
    and "rows = get_steps_for_job collate job_id d" "wf_snap rows"
    and "cascade_run eng task job rows ws snaps = Some p" "list_all (insertable mp job_id) (pl_changes p)"
  shows "\<exists>d'. execute mp env collate show_uuid eng job_id task ws snaps d = Some (d', Inr p) \<and> keyed d' \<and>
    mirrors job_id d' (apply_all rows (pl_changes p)) \<and>
    (d' = d \<or> (\<exists>a. apply_plan mp (at_now (env 1)) (at_utc_now (env 1)) job_id p d = Inr (a, d')))"
proof -
  have m: "mirrors job_id d rows" using mirrors_get [OF assms(1)] assms(4) by simp
  have j: "list_ex (\<lambda>j. j_job_id j = job_id) (jobs d)"
    using find_SomeD [OF assms(2) [unfolded job_get_def select_one_def]] by (auto simp: list_ex_iff)
  have g: "guards_hold rows (pl_changes p)"
    using cascade_run_valid [OF assms(5), of eng task job ws snaps] assms(6) valid_guards by auto
  obtain d' where d': "apply_plan mp (at_now (env 1)) (at_utc_now (env 1)) job_id p d =
      Inr (tally (pl_changes p) applied_default, d')" "keyed d'" "mirrors job_id d' (apply_all rows (pl_changes p))"
    using apply_plan_refines [OF assms(1) m assms(7) j] g by auto
  show ?thesis
  proof (cases "pl_changes p = []")
    case True
    then show ?thesis using assms m by (simp add: execute_def MAX_ATTEMPTS_def numeral_3_eq_3 quiet_def Let_def)
  next
    case False
    then show ?thesis using assms d'
      by (simp add: execute_def MAX_ATTEMPTS_def numeral_3_eq_3 quiet_def run_attempt_def Let_def)
  qed
qed

text \<open>
  C11. The database does what the plan says. If nobody interferes, the first attempt of \<^verbatim>\<open>execute\<close>
  commits: the call returns the plan, and every step of the job then has in the database the
  status, skip reason, output and error that the in-memory fixpoint computed for it.
\<close>

theorem execute_refines_plan:
  assumes "keyed d" "job_get job_id d = Some job" "quiet (env 1)"
    and "rows = get_steps_for_job collate job_id d" "wf_snap rows"
    and "cascade_run eng task job rows ws snaps = Some p" "list_all (insertable mp job_id) (pl_changes p)"
  shows "\<exists>d'. execute mp env collate show_uuid eng job_id task ws snaps d = Some (d', Inr p) \<and> keyed d' \<and>
    mirrors job_id d' (apply_all rows (pl_changes p))"
  using execute_commits [OF assms(1,2), where env = env, OF assms(3-7)] by blast

text \<open>Under interference: every committed statement is a move, and expansions only add rows.\<close>

definition extends :: "db \<Rightarrow> db \<Rightarrow> bool" where
  "extends d d' \<longleftrightarrow> keyed d' \<and> (\<forall>r \<in> set (steps d). \<exists>r' \<in> set (steps d'). evolves r r')"

lemma extends_refl: "keyed d \<Longrightarrow> extends d d"
  by (auto simp: extends_def evolves_def)

lemma extends_trans: "extends a b \<Longrightarrow> extends b c \<Longrightarrow> extends a c"
  unfolding extends_def using evolves_trans by blast

lemma extends_evolve: "keyed d' \<Longrightarrow> list_all2 evolves (steps d) (steps d') \<Longrightarrow> extends d d'"
  unfolding extends_def by (metis in_set_conv_nth list_all2_conv_all_nth)

lemma stmt_write_moves: "guarded_row job_id c r \<Longrightarrow> moves r (stmt_write now c r)"
  by (cases "(now, c, r)" rule: stmt_write.cases)
    (simp_all add: guarded_row_def moves_def step_edge_def is_terminal_def)

lemma extends_write_row:
  assumes "keyed d" "write_row now job_id c d = Some d'"
  shows "extends d d'"
proof -
  have "steps d' = map (\<lambda>r. if guarded_row job_id c r then stmt_write now c r else r) (steps d)"
    using assms(2) by (auto simp: write_row_def one_row_def row_simps split: if_splits)
  then have "list_all2 moves (steps d) (steps d')"
    using stmt_write_moves by (auto intro!: list_all2_map_moves)
  then have "list_all2 evolves (steps d) (steps d')" using moves_evolves by (rule list_all2_mono)
  then show ?thesis using extends_evolve keyed_write_row [OF assms] by blast
qed

lemma extends_insert_rows:
  assumes "keyed d" "insert_rows mp utc_now c d = Some d'"
  shows "extends d d'"
proof -
  have "set (steps d) \<subseteq> set (steps d')"
    using assms(2) by (auto simp: insert_rows_def create_steps_tx_def Let_def split: change.splits if_splits)
  then show ?thesis using keyed_insert_rows [OF assms] by (auto simp: extends_def evolves_def)
qed

lemma extends_apply_seq:
  "keyed d \<Longrightarrow> apply_seq mp now utc_now job_id cs d = Some d' \<Longrightarrow> extends d d'"
proof (induction cs arbitrary: d)
  case (Cons c cs)
  obtain d1 d2 where w: "write_row now job_id c d = Some d1" "insert_rows mp utc_now c d1 = Some d2"
      "apply_seq mp now utc_now job_id cs d2 = Some d'"
    using Cons.prems(2) by (auto simp: apply_one_split bind_eq_Some_conv)
  have "extends d d1" "extends d1 d2"
    using extends_write_row [OF Cons.prems(1) w(1)] extends_insert_rows [OF _ w(2)] by (auto simp: extends_def)
  moreover have "extends d2 d'" using Cons.IH [OF _ w(3)] calculation(2) by (simp add: extends_def)
  ultimately show ?case using extends_trans by blast
qed (simp add: extends_refl)

lemma extends_steps: "steps d' = steps d'' \<Longrightarrow> extends d d' \<Longrightarrow> extends d d''"
  by (simp add: extends_def keyed_def)

lemma extends_apply_plan:
  assumes "keyed d" "apply_plan mp now utc_now job_id p d = Inr (a, d')"
  shows "extends d d'"
proof -
  have "ok (apply_plan mp now utc_now job_id p d) = Some (a, d')" using assms(2) by simp
  then obtain d1 where d1: "apply_seq mp now utc_now job_id (pl_changes p) d = Some d1"
      "d' = (if list_ex starts_loop (pl_changes p) then mark_running_if_pending_tx now job_id d1 else d1)"
    unfolding apply_plan_ok [OF assms(1)] by auto
  have "steps d1 = steps d'" by (simp add: d1(2) mark_running_keeps)
  then show ?thesis using extends_apply_seq [OF assms(1) d1(1)] extends_steps by blast
qed

definition interference :: "attempt \<Rightarrow> bool" where
  "interference att \<longleftrightarrow> (\<forall>d. guarded_write\<^sup>*\<^sup>* d (at_job_read att d) \<and> guarded_write\<^sup>*\<^sup>* d (at_steps_read att d) \<and>
     guarded_write\<^sup>*\<^sup>* d (at_apply att d))"

lemma interference_extends:
  assumes "interference att" "extends d0 d"
  shows "extends d0 (at_job_read att d)" "extends d0 (at_steps_read att d)" "extends d0 (at_apply att d)"
proof -
  have "extends d0 d'" if "guarded_write\<^sup>*\<^sup>* d d'" for d'
    using guarded_writes_evolve [OF that] extends_evolve extends_trans assms(2) by (metis extends_def)
  then show "extends d0 (at_job_read att d)" "extends d0 (at_steps_read att d)" "extends d0 (at_apply att d)"
    using assms(1) by (simp_all add: interference_def)
qed

lemma execute_from_extends:
  assumes "\<And>k. interference (env k)"
  shows "extends d0 d \<Longrightarrow> execute_from mp env collate show_uuid eng k left cause job_id task ws snaps d = Some (d', res)
    \<Longrightarrow> extends d0 d'"
proof (induction left arbitrary: k cause d)
  case (Suc left)
  define d1 where "d1 = at_job_read (env k) d"
  define d2 where "d2 = at_steps_read (env k) d1"
  define d3 where "d3 = at_apply (env k) d2"
  have e: "extends d0 d1" "extends d0 d2" "extends d0 d3"
    unfolding d3_def d2_def d1_def using interference_extends [OF assms] Suc.prems(1) by blast+
  note run = Suc.prems(2) [unfolded execute_from.simps Let_def, folded d1_def, folded d2_def, folded d3_def]
  show ?case
  proof (cases "job_get job_id d1")
    case None
    then show ?thesis using run e by simp
  next
    case (Some job)
    note run = run [unfolded Some option.case]
    show ?thesis
    proof (cases "cascade_run eng task job (get_steps_for_job collate job_id d2) ws snaps")
      case None
      then show ?thesis using run by simp
    next
      case p: (Some p)
      note run = run [unfolded p option.case]
      show ?thesis
      proof (cases "run_attempt mp (env k) job_id p d3")
        case (Inl err)
        then show ?thesis using run e Suc.IH [OF e(3)]
          by (cases err) (auto split: if_splits)
      next
        case (Inr y)
        then obtain a d4 where y: "y = (a, d4)" by fastforce
        have "apply_plan mp (at_now (env k)) (at_utc_now (env k)) job_id p d3 = Inr (a, d4)"
          using Inr y by (simp add: run_attempt_def split: if_splits)
        moreover have "keyed d3" using e(3) unfolding extends_def by (rule conjunct1)
        ultimately have "extends d3 d4" using extends_apply_plan by blast
        then have d4: "extends d0 d4" by (rule extends_trans [OF e(3)])
        show ?thesis
        proof (cases "pl_changes p = []")
          case True
          then have "d' = d2" using run by simp
          then show ?thesis using e(2) by simp
        next
          case False
          then have "d' = d4" using run Inr y by simp
          then show ?thesis using d4 by simp
        qed
      qed
    qed
  qed
qed simp

text \<open>
  Interference is harmless. Let other transactions make any guarded writes, before and between
  the reads of an attempt and before its transaction, and let the database abort any attempt with a
  deadlock: when \<^verbatim>\<open>execute\<close> returns, with a plan or an error, no step has disappeared, every step
  that was finished is unchanged, and no step became pending again.
\<close>

theorem execute_keeps_finished:
  assumes "keyed d" "\<forall>k. interference (env k)"
    and "execute mp env collate show_uuid eng job_id task ws snaps d = Some (d', res)"
  shows "keyed d' \<and> (\<forall>r \<in> set (steps d). \<exists>r' \<in> set (steps d'). evolves r r')"
proof -
  have "extends d d'"
    using execute_from_extends [OF _ extends_refl [OF assms(1)] assms(3) [unfolded execute_def]] assms(2) by blast
  then show ?thesis unfolding extends_def .
qed

lemma apply_seq_oversized:
  "Expand n insts \<in> set cs \<Longrightarrow> cols_per_row * length insts > mp \<Longrightarrow> apply_seq mp now utc_now job_id cs d = None"
proof (induction cs arbitrary: d)
  case (Cons c cs)
  show ?case
  proof (cases "apply_one mp now utc_now job_id c d")
    case (Some d')
    have "insert_rows mp utc_now (Expand n insts) d1 = None" for d1
      using Cons.prems(2) by (auto simp: insert_rows_abs create_steps_tx_def Let_def)
    then have "c \<noteq> Expand n insts" using Some by (auto simp: apply_one_split bind_eq_Some_conv)
    then show ?thesis using Cons Some by simp
  qed simp
qed simp

text \<open>
  C36. An expansion that does not fit into one statement never commits. With \<open>max_params\<close> bind
  parameters per statement, a plan with an expansion of more than \<open>max_params div 30\<close> instances is
  rejected, whatever the database holds. PostgreSQL allows 65535, so a loop over 2185 items, well
  below the 10000 the cascade accepts, can never start.
\<close>

theorem oversized_expansion_rejected:
  assumes "keyed d" "Expand n insts \<in> set (pl_changes p)" "length insts > mp div cols_per_row"
  shows "\<exists>e. apply_plan mp now utc_now job_id p d = Inl e"
proof -
  have "cols_per_row * length insts > mp"
    using assms(3) by (simp add: cols_per_row_def)
  then have "ok (apply_plan mp now utc_now job_id p d) = None"
    using apply_seq_oversized [OF assms(2)] by (simp add: apply_plan_ok [OF assms(1)])
  then show ?thesis by (cases "apply_plan mp now utc_now job_id p d") simp_all
qed

section \<open>A concrete job\<close>

definition failed_db :: db where
  "failed_db = \<lparr>jobs = [test_default_job 1 0], steps = [step_of 1 ''a'' ''failed'', step_of 1 ''b'' ''pending'']\<rparr>"

definition quiet_attempt :: attempt where
  "quiet_attempt = \<lparr>at_job_read = id, at_steps_read = id, at_apply = id, at_deadlock = False, at_now = 5, at_utc_now = 5\<rparr>"

lemma failed_db_keyed: "keyed failed_db"
  by (simp add: keyed_def failed_db_def)

lemma failed_db_rows: "get_steps_for_job (map byte) 1 failed_db = failed_rows"
  by (simp add: get_steps_for_job_def rows_of_def failed_db_def failed_rows_def step_of_def test_default_def byte_def
      job_step_row.extend_def step_record.fields_def job_step_row.truncate_def)

lemma failed_rows_wf: "wf_snap failed_rows"
  by (simp add: wf_snap_def wf_row_def failed_rows_def test_default_def)

lemma failed_db_job: "job_get 1 failed_db = Some (test_default_job 1 0)"
  by (simp add: job_get_def select_one_def failed_db_def test_default_job_def)

lemma quiet_attempt_quiet: "quiet quiet_attempt"
  by (simp add: quiet_def quiet_attempt_def)

theorem execute_refines_plan_witness:
  "\<exists>d' p. execute 65535 (\<lambda>_. quiet_attempt) (map byte) show_nat plain_engine 1 two_task (Some empty_config)
     default_snapshots failed_db = Some (d', Inr p) \<and> pl_changes p = [Skip ''b'' Unreachable] \<and>
     map_option progress (get_step 1 ''b'' d') = Some (''skipped'', Some ''unreachable'', None, None)"
proof -
  let ?p = "\<lparr>pl_changes = [Skip ''b'' Unreachable]\<rparr>"
  have i: "list_all (insertable 65535 1) (pl_changes ?p)" by (simp add: insertable_def)
  obtain d' where d': "execute 65535 (\<lambda>_. quiet_attempt) (map byte) show_nat plain_engine 1 two_task
      (Some empty_config) default_snapshots failed_db = Some (d', Inr ?p)"
      "mirrors 1 d' (apply_all failed_rows (pl_changes ?p))"
    using execute_refines_plan [OF failed_db_keyed failed_db_job, of "\<lambda>_. quiet_attempt", OF quiet_attempt_quiet
        failed_db_rows [symmetric] failed_rows_wf failed_plan i] by blast
  have "map_option progress (row_at (apply_all failed_rows (pl_changes ?p)) ''b'') =
      Some (''skipped'', Some ''unreachable'', None, None)"
    by (simp add: row_at_def failed_rows_def test_default_def update_row_def progress_def)
  with d'(2) [unfolded mirrors_def, rule_format, of "''b''"]
  have "map_option progress (get_step 1 ''b'' d') = Some (''skipped'', Some ''unreachable'', None, None)" by (rule trans)
  then show ?thesis using d'(1) by (intro exI conjI) (assumption, simp only: plan.simps)
qed

lemma quiet_interference: "interference quiet_attempt"
  by (simp add: interference_def quiet_attempt_def)

theorem execute_keeps_finished_witness:
  "\<exists>d' res. execute 65535 (\<lambda>_. quiet_attempt) (map byte) show_nat plain_engine 1 two_task (Some empty_config)
     default_snapshots failed_db = Some (d', res) \<and> step_of 1 ''a'' ''failed'' \<in> set (steps d')"
proof -
  have i: "list_all (insertable 65535 1) (pl_changes \<lparr>pl_changes = [Skip ''b'' Unreachable]\<rparr>)" by (simp add: insertable_def)
  have "\<exists>d' res. execute 65535 (\<lambda>_. quiet_attempt) (map byte) show_nat plain_engine 1 two_task
      (Some empty_config) default_snapshots failed_db = Some (d', res)"
    using execute_commits [OF failed_db_keyed failed_db_job, of "\<lambda>_. quiet_attempt", OF quiet_attempt_quiet
        failed_db_rows [symmetric] failed_rows_wf failed_plan i] by blast
  then obtain d' res where e: "execute 65535 (\<lambda>_. quiet_attempt) (map byte) show_nat plain_engine 1 two_task
      (Some empty_config) default_snapshots failed_db = Some (d', res)" by blast
  have "step_of 1 ''a'' ''failed'' \<in> set (steps failed_db)" by (simp add: failed_db_def)
  then obtain r' where r': "r' \<in> set (steps d')" "evolves (step_of 1 ''a'' ''failed'') r'"
    using execute_keeps_finished [OF failed_db_keyed _ e] quiet_interference by blast
  have "r' = step_of 1 ''a'' ''failed''" using evolvesD(2) [OF r'(2)] by (simp add: is_terminal_def)
  then show ?thesis using e r'(1) by blast
qed

definition pending_db :: db where
  "pending_db = \<lparr>jobs = [], steps = [step_of 1 ''a'' ''pending'', step_of 1 ''b'' ''pending'']\<rparr>"

lemma pending_db_keyed: "keyed pending_db"
  by (simp add: keyed_def pending_db_def)

theorem apply_batching_invisible_witness:
  "\<exists>a d'. apply_plan 65535 5 5 1 \<lparr>pl_changes = [Promote ''b'', Promote ''a'']\<rparr> pending_db = Inr (a, d') \<and> ap_promoted a = 2"
proof -
  let ?p = "\<lparr>pl_changes = [Promote ''b'', Promote ''a'']\<rparr>"
  have "apply_seq 65535 5 5 1 (pl_changes ?p) pending_db \<noteq> None"
    by (simp add: one_row_def promote_steps_tx_def update_steps_def sql_update_def pending_db_def)
  then obtain d1 where s: "apply_seq 65535 5 5 1 (pl_changes ?p) pending_db = Some d1" by blast
  have "apply_plan 65535 5 5 1 ?p pending_db = Inr (tally (pl_changes ?p) applied_default, d1)"
    by (rule apply_batching_invisible [OF pending_db_keyed, THEN iffD2], intro exI conjI, rule s) simp_all
  then show ?thesis by (intro exI conjI, assumption) (simp add: applied_default_def)
qed

definition many_instances :: "new_job_step list" where
  "many_instances = map (\<lambda>i. loop_instance 1 (plain_step []) (test_default 1 ''a'') 2185 (i, Null)) [0..<2185]"

theorem oversized_expansion_rejected_witness:
  "\<exists>e. apply_plan 65535 5 5 1 \<lparr>pl_changes = [Expand ''a'' many_instances]\<rparr> pending_db = Inl e"
proof -
  have "length many_instances = 2185" by (simp only: many_instances_def length_map length_upt)
  then have "length many_instances > 65535 div cols_per_row" by (simp add: cols_per_row_def)
  then show ?thesis by (intro oversized_expansion_rejected [OF pending_db_keyed, of "''a''"]) simp_all
qed

end
