(* ===== verification/Settle.thy ===== *)
theory Settle
  imports Cascade_Refine
begin

text \<open>
  Settlement (\<^verbatim>\<open>stroem-server/src/settlement/settle.rs\<close>): the decision of a job's final status from its
  steps, its guarded write, and the cascade followed by it.
\<close>

section \<open>Definitions\<close>

record settled =
  se_status :: job_status
  se_output :: "json option"

definition step_done :: "job_step_row \<Rightarrow> bool" where
  "step_done s =
     (case parse_step_status (js_status s) of
        Inr st \<Rightarrow> st \<in> {Completed, Failed, Skipped, Cancelled}
      | Inl _ \<Rightarrow> False)"

definition tolerated :: "task_def \<Rightarrow> job_step_row \<Rightarrow> bool" where
  "tolerated task s =
     (case map_of (td_flow task) (flow_step_name (js_step_name s) (js_loop_source s)) of
        Some fs \<Rightarrow> fs_continue_on_failure fs
      | None \<Rightarrow> False)"

definition untolerated_failure :: "task_def \<Rightarrow> job_step_row \<Rightarrow> bool" where
  "untolerated_failure task s \<longleftrightarrow> js_status s = step_status_str Failed \<and> \<not> tolerated task s"

definition depended_on :: "task_def \<Rightarrow> string list" where
  "depended_on task = concat (map (\<lambda>fs. collect_names (fs_depends_on fs)) (vals (td_flow task)))"

definition terminal_steps :: "task_def \<Rightarrow> string list" where
  "terminal_steps task = filter (\<lambda>n. n \<notin> set (depended_on task)) (keys (td_flow task))"

definition job_output :: "task_def \<Rightarrow> job_step_row list \<Rightarrow> json hashmap" where
  "job_output task rows =
     foldl (\<lambda>m s. if js_step_name s \<in> set (terminal_steps task)
              then (case js_output s of Some out \<Rightarrow> obj_insert (js_step_name s) out m | None \<Rightarrow> m) else m) [] rows"

definition decide :: "task_def \<Rightarrow> job_step_row list \<Rightarrow> settled option" where
  "decide task rows =
     (if \<not> list_all step_done rows then None
      else if list_ex (untolerated_failure task) rows
      then Some \<lparr>se_status = JFailed, se_output = None\<rparr>
      else if list_ex (\<lambda>s. js_status s = step_status_str Cancelled) rows
      then Some \<lparr>se_status = JCancelled, se_output = None\<rparr>
      else let out = job_output task rows in
        Some \<lparr>se_status = JCompleted, se_output = (if out = [] then None else Some (Object out))\<rparr>)"

definition settle_if_all_terminal ::
  "(string \<Rightarrow> nat list) \<Rightarrow> time \<Rightarrow> uuid \<Rightarrow> task_def \<Rightarrow> db \<Rightarrow> db \<times> job_status option" where
  "settle_if_all_terminal collate now job_id task d =
     (case decide task (get_steps_for_job collate job_id d) of
        None \<Rightarrow> (d, None)
      | Some s \<Rightarrow>
          let (d', wrote) = settle_tx now job_id (se_status s) (se_output s) d in
          if \<not> wrote
          then (d', case job_get job_id d' of
                      None \<Rightarrow> None
                    | Some j \<Rightarrow> (case parse_job_status (j_status j) of Inl _ \<Rightarrow> None | Inr st \<Rightarrow> Some st))
          else (d', Some (se_status s)))"

definition cascade_and_settle ::
  "nat \<Rightarrow> (nat \<Rightarrow> attempt) \<Rightarrow> (string \<Rightarrow> nat list) \<Rightarrow> (uuid \<Rightarrow> string) \<Rightarrow> engine \<Rightarrow> time \<Rightarrow> uuid \<Rightarrow> task_def
    \<Rightarrow> workspace_config \<Rightarrow> snapshots \<Rightarrow> db \<Rightarrow> (db \<times> (string + job_status option)) option" where
  "cascade_and_settle mp env collate show_uuid eng now job_id task cfg snaps d =
     (case execute mp env collate show_uuid eng job_id task (Some cfg) snaps d of
        None \<Rightarrow> None
      | Some (d', Inl e) \<Rightarrow> Some (d', Inl (''Failed to run step cascade: '' @ e))
      | Some (d', Inr p) \<Rightarrow>
          let (d'', st) = settle_if_all_terminal collate now job_id task d' in Some (d'', Inr st))"

section \<open>The decision\<close>

lemma step_done_iff: "step_done s \<longleftrightarrow> is_terminal (js_status s)"
proof
  assume "step_done s"
  then obtain st where st: "parse_step_status (js_status s) = Inr st" "st \<in> {Completed, Failed, Skipped, Cancelled}"
    by (auto simp: step_done_def split: sum.splits)
  then have "js_status s = step_status_str st" using step_status_codec.print_parse by metis
  then show "is_terminal (js_status s)" using st(2) by auto
next
  assume "is_terminal (js_status s)"
  then show "step_done s" by (auto simp: step_done_def is_terminal_def parse_step_status_def)
qed

text \<open>Of the rows of a terminal step the last with an output counts; names of rows are unique.\<close>

lemma job_output_fold:
  assumes "distinct (names rows)"
  shows "map_of (foldl (\<lambda>m s. if js_step_name s \<in> T
              then (case js_output s of Some out \<Rightarrow> obj_insert (js_step_name s) out m | None \<Rightarrow> m) else m) m rows) n =
    (if n \<in> T then (case Option.bind (find (\<lambda>s. js_step_name s = n) rows) js_output of
        Some out \<Rightarrow> Some out | None \<Rightarrow> map_of m n) else map_of m n)"
  using assms
proof (induction rows arbitrary: m)
  case (Cons s rows)
  have fresh: "find (\<lambda>r. js_step_name r = js_step_name s) rows = None"
    using Cons.prems by (auto simp: find_None_iff image_iff)
  define m' where "m' = (if js_step_name s \<in> T
    then (case js_output s of Some out \<Rightarrow> obj_insert (js_step_name s) out m | None \<Rightarrow> m) else m)"
  have m: "map_of m' n = (if n = js_step_name s \<and> n \<in> T \<and> js_output s \<noteq> None then js_output s else map_of m n)"
    by (auto simp: m'_def split: option.split)
  have "distinct (names rows)" using Cons.prems by simp
  note ih = Cons.IH [OF this, of m']
  show ?case
    unfolding foldl.simps m'_def [symmetric] ih
    using fresh m by (cases "n = js_step_name s") (auto split: option.split)
qed simp

lemma job_output_lookup:
  assumes "distinct (names rows)"
  shows "map_of (job_output task rows) n =
    (if n \<in> set (terminal_steps task) then Option.bind (find (\<lambda>s. js_step_name s = n) rows) js_output else None)"
  unfolding job_output_def job_output_fold [OF assms] by (simp split: option.split)

definition output_field :: "json option \<Rightarrow> string \<Rightarrow> json option" where
  "output_field out n = (case out of Some (Object m) \<Rightarrow> map_of m n | _ \<Rightarrow> None)"

text \<open>
  C25. How a job ends. No decision is made while a step is unfinished. Otherwise the job fails exactly
  if some failed step is not excused by its own \<^verbatim>\<open>continue_on_failure\<close> (a loop instance by that of its
  loop), is cancelled exactly if it did not fail and some step was cancelled, and completes exactly
  if every step completed, was skipped or failed with an excuse; a completed job's output holds
  the outputs of the steps nothing depends on, and of no others.
\<close>

theorem decide_ends_job:
  assumes "distinct (names rows)"
  shows "case decide task rows of
      None \<Rightarrow> list_ex (\<lambda>r. \<not> is_terminal (js_status r)) rows
    | Some s \<Rightarrow> list_all (\<lambda>r. is_terminal (js_status r)) rows \<and>
        (se_status s = JFailed \<longleftrightarrow> list_ex (\<lambda>r. js_status r = ''failed'' \<and> \<not> tolerated task r) rows) \<and>
        (se_status s = JCancelled \<longleftrightarrow> se_status s \<noteq> JFailed \<and> list_ex (\<lambda>r. js_status r = ''cancelled'') rows) \<and>
        (se_status s = JCompleted \<longleftrightarrow> list_all (\<lambda>r. js_status r \<in> {''completed'', ''skipped''} \<or>
            js_status r = ''failed'' \<and> tolerated task r) rows) \<and>
        output_field (se_output s) n =
          (if se_status s = JCompleted \<and> n \<in> set (terminal_steps task)
           then Option.bind (find (\<lambda>r. js_step_name r = n) rows) js_output else None)"
proof (cases "list_all step_done rows")
  case False
  then show ?thesis by (auto simp: decide_def step_done_iff list_ex_iff list_all_iff)
next
  case True
  then have t: "\<forall>r \<in> set rows. js_status r \<in> {''completed'', ''failed'', ''skipped'', ''cancelled''}"
    by (simp add: list_all_iff step_done_iff is_terminal_def)
  let ?F = "list_ex (untolerated_failure task) rows" and ?C = "list_ex (\<lambda>s. js_status s = ''cancelled'') rows"
  have F: "?F \<longleftrightarrow> (\<exists>r \<in> set rows. js_status r = ''failed'' \<and> \<not> tolerated task r)"
    by (simp add: list_ex_iff untolerated_failure_def)
  have ok: "list_all (\<lambda>r. js_status r \<in> {''completed'', ''skipped''} \<or> js_status r = ''failed'' \<and> tolerated task r) rows
      \<longleftrightarrow> \<not> ?F \<and> \<not> ?C"
  proof -
    have "js_status r \<in> {''completed'', ''skipped''} \<or> js_status r = ''failed'' \<and> tolerated task r \<longleftrightarrow>
        \<not> (js_status r = ''failed'' \<and> \<not> tolerated task r) \<and> js_status r \<noteq> ''cancelled''" if "r \<in> set rows" for r
      using t that by auto
    then show ?thesis unfolding F unfolding list_all_iff list_ex_iff by blast
  qed
  have out: "output_field (if job_output task rows = [] then None else Some (Object (job_output task rows))) n =
      (if n \<in> set (terminal_steps task) then Option.bind (find (\<lambda>r. js_step_name r = n) rows) js_output else None)"
    unfolding job_output_lookup [OF assms, symmetric] by (simp add: output_field_def)
  have ex: "list_ex (\<lambda>r. js_status r = ''failed'' \<and> \<not> tolerated task r) rows \<longleftrightarrow> ?F" unfolding F by (simp add: list_ex_iff)
  have fin: "list_all (\<lambda>r. is_terminal (js_status r)) rows" using True by (simp add: step_done_iff [abs_def])
  show ?thesis
    unfolding ok ex using True fin out
    by (cases ?F; cases ?C) (simp_all add: decide_def Let_def output_field_def)
qed

section \<open>The job settles\<close>

lemma settle_writes:
  assumes "job_get job_id d = Some job" "j_status job \<in> {''pending'', ''running''}"
    and "settle_tx now job_id st out d = (d', w)"
  shows "w \<and> map_option j_status (job_get job_id d') = Some (job_status_str st)"
proof -
  let ?wh = "\<lambda>j. j_job_id j = job_id \<and> j_status j \<in> {''pending'', ''running''}"
  let ?set = "\<lambda>j. j\<lparr>j_status := job_status_str st, j_output := (case out of Some v \<Rightarrow> Some v | None \<Rightarrow> j_output j),
                   j_completed_at := Some now\<rparr>"
  have j: "job \<in> set (jobs d)" "j_job_id job = job_id"
    using find_SomeD [OF assms(1) [unfolded job_get_def select_one_def]] by blast+
  then have "filter ?wh (jobs d) \<noteq> []" using assms(2) by (auto simp: filter_empty_conv)
  then have "w" using assms(3) by (auto simp: settle_tx_def update_jobs_def sql_update_def)
  moreover have "find (\<lambda>j. j_job_id j = job_id) (map (\<lambda>r. if ?wh r then ?set r else r) (jobs d)) =
      map_option (\<lambda>r. if ?wh r then ?set r else r) (find (\<lambda>j. j_job_id j = job_id) (jobs d))"
    by (rule find_map_keep) simp
  then have "job_get job_id d' = Some (?set job)"
    using assms j by (auto simp: settle_tx_def update_jobs_def sql_update_def job_get_def select_one_def)
  ultimately show ?thesis by simp
qed

lemma decide_total: "list_all step_done rows \<Longrightarrow> \<exists>s. decide task rows = Some s \<and> job_status_is_terminal (se_status s)"
  by (cases "list_ex (untolerated_failure task) rows"; cases "list_ex (\<lambda>s. js_status s = ''cancelled'') rows")
    (simp_all add: decide_def Let_def)

lemma settle_all_terminal:
  assumes "keyed d" "job_get job_id d = Some job" "j_status job \<in> {''pending'', ''running''}"
    and "list_all (\<lambda>r. is_terminal (js_status r)) (get_steps_for_job collate job_id d)"
  shows "\<exists>d' st. settle_if_all_terminal collate now job_id task d = (d', Some st) \<and> job_status_is_terminal st \<and>
    map_option j_status (job_get job_id d') = Some (job_status_str st) \<and> steps d' = steps d"
proof -
  obtain s where s: "decide task (get_steps_for_job collate job_id d) = Some s" "job_status_is_terminal (se_status s)"
    using decide_total [of "get_steps_for_job collate job_id d" task] assms(4) by (auto simp: step_done_iff [abs_def])
  obtain d' w where w: "settle_tx now job_id (se_status s) (se_output s) d = (d', w)" by fastforce
  have "steps d' = steps d" using w by (auto simp: settle_tx_def row_simps case_prod_beta)
  with settle_writes [OF assms(2,3) w] show ?thesis using s w by (simp add: settle_if_all_terminal_def)
qed

lemma mirrors_terminal:
  assumes "keyed d" "mirrors job_id d rows" "list_all (\<lambda>r. is_terminal (js_status r)) rows"
  shows "list_all (\<lambda>r. is_terminal (js_status r)) (get_steps_for_job collate job_id d)"
  unfolding list_all_iff
proof
  fix r assume "r \<in> set (get_steps_for_job collate job_id d)"
  then have "row_at (get_steps_for_job collate job_id d) (js_step_name r) = Some r"
    using row_at_distinct [OF sorted_names [OF assms(1)]] by blast
  then have "map_option progress (row_at rows (js_step_name r)) = Some (progress r)"
    using mirrors_get [OF assms(1), of job_id collate] assms(2) unfolding mirrors_def by (metis option.simps(9))
  then obtain r' where r': "row_at rows (js_step_name r) = Some r'" "progress r' = progress r" by auto
  then have "js_status r' = js_status r" using fst_progress by metis
  moreover have "is_terminal (js_status r')" using row_at_name [OF r'(1)] assms(3) by (simp add: list_all_iff)
  ultimately show "is_terminal (js_status r)" by simp
qed

lemma apply_plan_jobs:
  assumes "keyed d" "apply_plan mp now utc_now job_id p d = Inr (a, d')" "job_get job_id d = Some job"
    and "j_status job \<in> {''pending'', ''running''}"
  shows "\<exists>job'. job_get job_id d' = Some job' \<and> j_status job' \<in> {''pending'', ''running''}"
proof -
  have "ok (apply_plan mp now utc_now job_id p d) = Some (a, d')" using assms(2) by simp
  then obtain d1 where d1: "apply_seq mp now utc_now job_id (pl_changes p) d = Some d1"
      "d' = (if list_ex starts_loop (pl_changes p) then mark_running_if_pending_tx now job_id d1 else d1)"
    unfolding apply_plan_ok [OF assms(1)] by auto
  have "jobs d1 = jobs d" using keyed_apply_seq [OF assms(1) d1(1)] by blast
  then have g: "job_get job_id d1 = Some job" using assms(3) by (simp add: job_get_def)
  let ?wh = "\<lambda>j. j_job_id j = job_id \<and> j_status j = ''pending''"
  let ?set = "\<lambda>j. j\<lparr>j_status := ''running'', j_started_at := Some now\<rparr>"
  have "find (\<lambda>j. j_job_id j = job_id) (map (\<lambda>r. if ?wh r then ?set r else r) (jobs d1)) =
      map_option (\<lambda>r. if ?wh r then ?set r else r) (find (\<lambda>j. j_job_id j = job_id) (jobs d1))"
    by (rule find_map_keep) simp
  then have "job_get job_id (mark_running_if_pending_tx now job_id d1) = Some (if ?wh job then ?set job else job)"
    using g by (simp add: job_get_def select_one_def mark_running_if_pending_tx_def row_simps)
  then show ?thesis using d1(2) g assms(4) by (cases "?wh job") auto
qed

lemma quiet_job_final:
  assumes "keyed d" "job_get job_id d = Some job" "j_status job \<in> {''pending'', ''running''}" "quiet (env 1)"
    and "rows = get_steps_for_job collate job_id d" "wf_snap rows"
    and "cascade_run eng task job rows (Some cfg) snaps = Some p" "list_all (insertable mp job_id) (pl_changes p)"
    and "acyclic (dep_rel (td_flow task))" "closed_flow (td_flow task)"
    and "list_all (\<lambda>n. n \<in> set (names rows)) (keys (td_flow task))"
    and "list_all (\<lambda>r. is_terminal (js_status r) \<or>
        js_status r = ''pending'' \<and> js_step_name r \<in> set (keys (td_flow task))) (apply_all rows (pl_changes p))"
  shows "\<exists>d' st. cascade_and_settle mp env collate show_uuid eng now job_id task cfg snaps d = Some (d', Inr (Some st)) \<and>
    job_status_is_terminal st \<and> map_option j_status (job_get job_id d') = Some (job_status_str st) \<and>
    list_all (\<lambda>r. is_terminal (js_status r)) (get_steps_for_job collate job_id d')"
proof -
  let ?rows' = "apply_all rows (pl_changes p)"
  have wf': "wf_snap ?rows'"
    using wf_snap_apply_all [OF assms(6)] cascade_run_valid [OF assms(6), of eng task job "Some cfg" snaps] assms(7) by auto
  have idle: "list_all (\<lambda>r. is_terminal (js_status r) \<or> js_status r = ''pending'') ?rows'"
    using assms(12) by (auto simp: list_all_iff)
  note stalled = plan_no_stall [OF assms(6,7) refl assms(9-11) idle]
  have fin: "list_all (\<lambda>r. is_terminal (js_status r)) ?rows'"
    unfolding list_all_iff
  proof
    fix r assume r: "r \<in> set ?rows'"
    show "is_terminal (js_status r)"
    proof (cases "js_step_name r \<in> set (keys (td_flow task))")
      case True
      then obtain r' where "row_at ?rows' (js_step_name r) = Some r'" "is_terminal (js_status r')"
        using stalled by (auto simp: list_all_iff)
      moreover have "row_at ?rows' (js_step_name r) = Some r"
        using row_at_distinct [of ?rows' r] wf' r by (simp add: wf_snap_def)
      ultimately show ?thesis by simp
    next
      case False
      then show ?thesis using assms(12) r by (auto simp: list_all_iff)
    qed
  qed
  obtain d1 where d1: "execute mp env collate show_uuid eng job_id task (Some cfg) snaps d = Some (d1, Inr p)"
      "keyed d1" "mirrors job_id d1 ?rows'"
      "d1 = d \<or> (\<exists>a. apply_plan mp (at_now (env 1)) (at_utc_now (env 1)) job_id p d = Inr (a, d1))"
    using execute_commits [OF assms(1,2), where env = env, OF assms(4-8)] by blast
  have "\<exists>job'. job_get job_id d1 = Some job' \<and> j_status job' \<in> {''pending'', ''running''}"
    using d1(4) assms(2,3) apply_plan_jobs [OF assms(1) _ assms(2,3)] by blast
  then obtain job' where job': "job_get job_id d1 = Some job'" "j_status job' \<in> {''pending'', ''running''}" by blast
  note steps_fin = mirrors_terminal [OF d1(2,3) fin, of collate]
  obtain d2 st where d2: "settle_if_all_terminal collate now job_id task d1 = (d2, Some st)" "job_status_is_terminal st"
      "map_option j_status (job_get job_id d2) = Some (job_status_str st)" "steps d2 = steps d1"
    using settle_all_terminal [OF d1(2) job' steps_fin, of now task] by blast
  have "get_steps_for_job collate job_id d2 = get_steps_for_job collate job_id d1"
    by (simp add: get_steps_for_job_def rows_of_def d2(4))
  with d1(1) d2 steps_fin show ?thesis by (simp add: cascade_and_settle_def)
qed

text \<open>
  C3. A job whose workers have all reported settles. Take a job that is pending or running, with a
  closed and acyclic flow in which every step has a row, and suppose nobody interferes. If after
  the cascade's plan no row is at work and every pending row is a step of the flow, then
  \<^verbatim>\<open>cascade_and_settle\<close> returns a final status and the job's row carries it.
\<close>

theorem quiet_job_settles:
  assumes "keyed d" "job_get job_id d = Some job" "j_status job \<in> {''pending'', ''running''}" "quiet (env 1)"
    and "rows = get_steps_for_job collate job_id d" "wf_snap rows"
    and "cascade_run eng task job rows (Some cfg) snaps = Some p" "list_all (insertable mp job_id) (pl_changes p)"
    and "acyclic (dep_rel (td_flow task))" "closed_flow (td_flow task)"
    and "list_all (\<lambda>n. n \<in> set (names rows)) (keys (td_flow task))"
    and "list_all (\<lambda>r. is_terminal (js_status r) \<or>
        js_status r = ''pending'' \<and> js_step_name r \<in> set (keys (td_flow task))) (apply_all rows (pl_changes p))"
  shows "\<exists>d' st. cascade_and_settle mp env collate show_uuid eng now job_id task cfg snaps d = Some (d', Inr (Some st)) \<and>
    job_status_is_terminal st \<and> map_option j_status (job_get job_id d') = Some (job_status_str st)"
  using quiet_job_final [OF assms(1-3), where env = env, OF assms(4-12)] by blast

text \<open>The job of the cascade's example: \<^verbatim>\<open>a\<close> failed, so \<^verbatim>\<open>b\<close> is skipped and the job fails.\<close>

lemma two_task_closed: "closed_flow (td_flow two_task)"
  by (simp add: closed_flow_def two_task_def plain_task_def plain_step_def dep_names_def)

lemma two_task_rows: "list_all (\<lambda>n. n \<in> set (names failed_rows)) (keys (td_flow two_task))"
  by (simp add: failed_rows_def two_task_def plain_task_def test_default_def)

lemma two_task_idle:
  "list_all (\<lambda>r. is_terminal (js_status r) \<or> js_status r = ''pending'' \<and> js_step_name r \<in> set (keys (td_flow two_task)))
     (apply_all failed_rows (pl_changes \<lparr>pl_changes = [Skip ''b'' Unreachable]\<rparr>))"
  by (simp add: failed_rows_def test_default_def update_row_def)

theorem quiet_job_settles_witness:
  "\<exists>d' st. cascade_and_settle 65535 (\<lambda>_. quiet_attempt) (map byte) show_nat plain_engine 9 1 two_task
     empty_config default_snapshots failed_db = Some (d', Inr (Some st)) \<and>
     map_option j_status (job_get 1 d') = Some (job_status_str st)"
proof -
  let ?p = "\<lparr>pl_changes = [Skip ''b'' Unreachable]\<rparr>"
  have i: "list_all (insertable 65535 1) (pl_changes ?p)" by (simp add: insertable_def)
  have s: "j_status (test_default_job 1 0) \<in> {''pending'', ''running''}" by (simp add: test_default_job_def)
  show ?thesis
    using quiet_job_settles [OF failed_db_keyed failed_db_job s, of "\<lambda>_. quiet_attempt", OF quiet_attempt_quiet
        failed_db_rows [symmetric] failed_rows_wf failed_plan i two_task_acyclic two_task_closed two_task_rows two_task_idle] by blast
qed

definition mixed_rows :: "job_step_row list" where
  "mixed_rows = [(test_default 1 ''a'')\<lparr>js_status := ''failed''\<rparr>,
     (test_default 1 ''b'')\<lparr>js_status := ''completed'', js_output := Some (Bool True)\<rparr>]"

theorem decide_ends_job_witness: "map_option se_status (decide two_task mixed_rows) = Some JFailed"
proof -
  have d: "distinct (names mixed_rows)" by (simp add: mixed_rows_def test_default_def)
  obtain s where s: "decide two_task mixed_rows = Some s"
    using decide_total [of mixed_rows two_task] by (auto simp: mixed_rows_def step_done_iff)
  have "list_ex (\<lambda>r. js_status r = ''failed'' \<and> \<not> tolerated two_task r) mixed_rows"
    by (simp add: mixed_rows_def tolerated_def flow_step_name_def two_task_def plain_task_def plain_step_def test_default_def)
  then have "se_status s = JFailed" using decide_ends_job [OF d, of two_task "''b''"] unfolding s by simp
  then show ?thesis using s by simp
qed

end
