(* ===== verification/Acl.thy ===== *)
theory Acl
  imports Db_Rows
begin

text \<open>
  Access control (\<^verbatim>\<open>stroem-server/src/acl.rs\<close>, the rule types of \<^verbatim>\<open>config.rs\<close>, and \<^verbatim>\<open>JobAclScope\<close> of
  \<^verbatim>\<open>stroem-db/src/repos/job.rs\<close>): glob patterns, the evaluation of the rules for one task, and the
  scope that filters job lists. Slicing a string inside a character panics, so what calls the glob
  matcher returns an option, with \<^term>\<open>None\<close> for the panic.
\<close>

section \<open>Definitions\<close>

datatype acl_action = AclRun | AclView | AclDeny

fun priority :: "acl_action \<Rightarrow> nat" where
  "priority AclDeny = 1"
| "priority AclView = 2"
| "priority AclRun = 3"

instantiation acl_action :: linorder
begin

definition less_eq_acl_action :: "acl_action \<Rightarrow> acl_action \<Rightarrow> bool" where
  "less_eq_acl_action a b \<longleftrightarrow> priority a \<le> priority b"

definition less_acl_action :: "acl_action \<Rightarrow> acl_action \<Rightarrow> bool" where
  "less_acl_action a b \<longleftrightarrow> priority a < priority b"

instance
proof
  fix a b :: acl_action
  show "a = b" if "a \<le> b" "b \<le> a"
    using that by (cases a; cases b) (simp_all add: less_eq_acl_action_def)
qed (auto simp: less_eq_acl_action_def less_acl_action_def)

end

record acl_rule =
  ru_workspace :: string
  ru_tasks :: "string list"
  ru_action :: acl_action
  ru_groups :: "string list"
  ru_users :: "string list"

record acl_config =
  ac_default :: acl_action
  ac_rules :: "acl_rule list"

datatype task_permission = PermRun | PermView | PermDeny

fun permission_of :: "acl_action \<Rightarrow> task_permission" where
  "permission_of AclRun = PermRun"
| "permission_of AclView = PermView"
| "permission_of AclDeny = PermDeny"

datatype allowed_scope = AllowAll | AllowFiltered "(string \<times> string \<times> task_permission) list"

record job_acl_scope =
  sc_live_pairs :: "(string \<times> string) list"
  sc_pinned_triples :: "(string \<times> string \<times> string) list"

text \<open>\<^verbatim>\<open>&s[i..]\<close>: panics when \<open>i\<close> is inside a character.\<close>

definition slice_from :: "string \<Rightarrow> nat \<Rightarrow> string option" where
  "slice_from s i =
     (if i \<le> length s \<and> (i = length s \<or> \<not> continuation (s ! i)) then Some (drop i s) else None)"

function (sequential) glob_match :: "string \<Rightarrow> string \<Rightarrow> bool option"
  and glob_at :: "string \<Rightarrow> string \<Rightarrow> nat \<Rightarrow> bool option" where
  "glob_match pattern val =
     (if pattern = ''*'' then Some True
      else case str_find CHR ''*'' pattern of
        None \<Rightarrow> Some (pattern = val)
      | Some star_pos \<Rightarrow>
          (case strip_prefix (take star_pos pattern) val of
             None \<Rightarrow> Some False
           | Some remaining \<Rightarrow>
               let rest_pattern = drop (star_pos + 1) pattern in
               if CHR ''*'' \<notin> set rest_pattern
               then Some (suffix rest_pattern remaining \<and> length remaining \<ge> length rest_pattern)
               else glob_at rest_pattern remaining 0))"
| "glob_at rest_pattern remaining i =
     (if i > length remaining then Some False
      else case slice_from remaining i of
        None \<Rightarrow> None
      | Some s \<Rightarrow>
          (case glob_match rest_pattern s of
             None \<Rightarrow> None
           | Some True \<Rightarrow> Some True
           | Some False \<Rightarrow> glob_at rest_pattern remaining (i + 1)))"
  by pat_completeness auto
termination
  by (relation "measures [\<lambda>x. case x of Inl (p, _) \<Rightarrow> length p | Inr (p, _, _) \<Rightarrow> length p,
      \<lambda>x. case x of Inl _ \<Rightarrow> 0 | Inr (_, s, i) \<Rightarrow> Suc (length s) - i + 1]")
    (auto dest: str_find_Some)

fun any_glob :: "string list \<Rightarrow> string \<Rightarrow> bool option" where
  "any_glob [] val = Some False"
| "any_glob (p # ps) val =
     (case glob_match p val of None \<Rightarrow> None | Some True \<Rightarrow> Some True | Some False \<Rightarrow> any_glob ps val)"

text \<open>One turn of the rule loop of \<^verbatim>\<open>evaluate\<close>: does the rule apply?\<close>

definition rule_applies :: "string \<Rightarrow> string \<Rightarrow> string \<Rightarrow> string list \<Rightarrow> acl_rule \<Rightarrow> bool option" where
  "rule_applies workspace task_path email groups rule =
     (case glob_match (ru_workspace rule) workspace of
        None \<Rightarrow> None
      | Some False \<Rightarrow> Some False
      | Some True \<Rightarrow>
          (case any_glob (ru_tasks rule) task_path of
             None \<Rightarrow> None
           | Some False \<Rightarrow> Some False
           | Some True \<Rightarrow> Some (email \<in> set (ru_users rule) \<or> list_ex (\<lambda>g. g \<in> set groups) (ru_groups rule))))"

fun highest_priority :: "string \<Rightarrow> string \<Rightarrow> string \<Rightarrow> string list \<Rightarrow> acl_rule list \<Rightarrow> nat \<Rightarrow> nat option" where
  "highest_priority workspace task_path email groups [] h = Some h"
| "highest_priority workspace task_path email groups (rule # rules) h =
     (case rule_applies workspace task_path email groups rule of
        None \<Rightarrow> None
      | Some b \<Rightarrow> highest_priority workspace task_path email groups rules
          (if b \<and> priority (ru_action rule) > h then priority (ru_action rule) else h))"

definition evaluate ::
  "acl_config option \<Rightarrow> string \<Rightarrow> string \<Rightarrow> string \<Rightarrow> string list \<Rightarrow> bool \<Rightarrow> task_permission option" where
  "evaluate cfg workspace task_path email groups is_admin =
     (if is_admin then Some PermRun
      else case cfg of
        None \<Rightarrow> Some PermRun
      | Some config \<Rightarrow>
          (case highest_priority workspace task_path email groups (ac_rules config) 0 of
             None \<Rightarrow> None
           | Some h \<Rightarrow>
               if h > 0 then Some (if h = 3 then PermRun else if h = 2 then PermView else PermDeny)
               else Some (permission_of (ac_default config))))"

definition make_task_path :: "string option \<Rightarrow> string \<Rightarrow> string" where
  "make_task_path folder task_name =
     (case folder of Some f \<Rightarrow> if f \<noteq> [] then f @ ''/'' @ task_name else task_name | None \<Rightarrow> task_name)"

fun filter_allowed ::
  "acl_config option \<Rightarrow> string \<Rightarrow> string list \<Rightarrow> (string \<times> string \<times> string option) list
    \<Rightarrow> (string \<times> string \<times> string option \<times> task_permission) list option" where
  "filter_allowed cfg email groups [] = Some []"
| "filter_allowed cfg email groups ((ws, task, folder) # ts) =
     (case evaluate cfg ws (make_task_path folder task) email groups False of
        None \<Rightarrow> None
      | Some perm \<Rightarrow>
          map_option (\<lambda>rest. if perm = PermDeny then rest else (ws, task, folder, perm) # rest)
            (filter_allowed cfg email groups ts))"

definition allowed_scope_of ::
  "acl_config option \<Rightarrow> (string \<times> string \<times> string option) list \<Rightarrow> string \<Rightarrow> string list \<Rightarrow> bool
    \<Rightarrow> allowed_scope option" where
  "allowed_scope_of cfg workspace_tasks email groups is_admin =
     (if is_admin \<or> cfg = None then Some AllowAll
      else map_option (\<lambda>l. AllowFiltered (map (\<lambda>(ws, task, _, perm). (ws, task, perm)) l))
        (filter_allowed cfg email groups workspace_tasks))"

definition allowed_triples ::
  "acl_config option \<Rightarrow> (string \<times> string \<times> string option) list \<Rightarrow> string \<Rightarrow> string list
    \<Rightarrow> (string \<times> string \<times> string) list option" where
  "allowed_triples cfg triples email groups =
     map_option (map (\<lambda>(ws, task, folder, _). (ws, task, case folder of Some f \<Rightarrow> f | None \<Rightarrow> [])))
       (filter_allowed cfg email groups triples)"

definition acl_folder :: "string option \<Rightarrow> string option \<Rightarrow> string option \<Rightarrow> string option" where
  "acl_folder git_ref task_folder live_folder = (if git_ref \<noteq> None then task_folder else live_folder)"

text \<open>The live configuration: the tasks of every workspace with their folders.\<close>

type_synonym live_tasks = "(string \<times> string \<times> string option) list"

definition live_folder_of :: "live_tasks \<Rightarrow> string \<Rightarrow> string \<Rightarrow> string option" where
  "live_folder_of live ws task =
     (case map_of (map (\<lambda>(w, t, f). ((w, t), f)) live) (ws, task) of Some f \<Rightarrow> f | None \<Rightarrow> None)"

definition coords_folder :: "live_tasks \<Rightarrow> string \<Rightarrow> string \<Rightarrow> string option \<Rightarrow> string option \<Rightarrow> string option" where
  "coords_folder live workspace task_name git_ref task_folder =
     acl_folder git_ref task_folder
       (if git_ref \<noteq> None then None else live_folder_of live workspace task_name)"

definition job_coords_task_path ::
  "live_tasks \<Rightarrow> string \<Rightarrow> string \<Rightarrow> string option \<Rightarrow> string option \<Rightarrow> string" where
  "job_coords_task_path live workspace task_name git_ref task_folder =
     make_task_path (coords_folder live workspace task_name git_ref task_folder) task_name"

definition job_task_path :: "live_tasks \<Rightarrow> job_row \<Rightarrow> string" where
  "job_task_path live job =
     job_coords_task_path live (j_workspace job) (j_task_name job) (j_git_ref job) (j_task_folder job)"

definition narrow_job_scope :: "job_acl_scope \<Rightarrow> string option \<Rightarrow> string option \<Rightarrow> job_acl_scope" where
  "narrow_job_scope scope workspace task =
     (let keep = (\<lambda>w t. (case workspace of None \<Rightarrow> True | Some ws \<Rightarrow> ws = w) \<and>
            (case task of None \<Rightarrow> True | Some tn \<Rightarrow> tn = t))
      in \<lparr>sc_live_pairs = filter (\<lambda>(w, t). keep w t) (sc_live_pairs scope),
          sc_pinned_triples = filter (\<lambda>(w, t, _). keep w t) (sc_pinned_triples scope)\<rparr>)"

definition pinned_task_triples :: "db \<Rightarrow> (string \<times> string \<times> string option) list" where
  "pinned_task_triples d =
     remdups (map (\<lambda>j. (j_workspace j, j_task_name j, j_task_folder j)) (filter (\<lambda>j. j_git_ref j \<noteq> None) (jobs d)))"

definition build_job_acl_scope ::
  "acl_config option \<Rightarrow> live_tasks \<Rightarrow> string \<Rightarrow> string list \<Rightarrow> bool \<Rightarrow> db \<Rightarrow> job_acl_scope option option" where
  "build_job_acl_scope cfg live email groups is_admin d =
     (if is_admin \<or> cfg = None then Some None
      else case allowed_scope_of cfg live email groups False of
        None \<Rightarrow> None
      | Some AllowAll \<Rightarrow> Some None
      | Some (AllowFiltered items) \<Rightarrow>
          map_option (\<lambda>triples. Some \<lparr>sc_live_pairs = map (\<lambda>(ws, task, _). (ws, task)) items,
              sc_pinned_triples = triples\<rparr>)
            (allowed_triples cfg (pinned_task_triples d) email groups))"

text \<open>The SQL predicate of a scope, on one row.\<close>

definition scope_admits :: "job_acl_scope \<Rightarrow> job_row \<Rightarrow> bool" where
  "scope_admits scope j \<longleftrightarrow>
     (j_git_ref j = None \<and> (j_workspace j, j_task_name j) \<in> set (sc_live_pairs scope)) \<or>
     (j_git_ref j \<noteq> None \<and>
      (j_workspace j, j_task_name j, case j_task_folder j of Some f \<Rightarrow> f | None \<Rightarrow> []) \<in> set (sc_pinned_triples scope))"

section \<open>Globs\<close>

text \<open>The usual meaning of a pattern: a star stands for any text.\<close>

fun glob_ref :: "string \<Rightarrow> string \<Rightarrow> bool" where
  "glob_ref [] v = (v = [])"
| "glob_ref (c # p) v =
     (if c = CHR ''*'' then list_ex (\<lambda>i. glob_ref p (drop i v)) [0..<Suc (length v)]
      else (case v of [] \<Rightarrow> False | x # v' \<Rightarrow> x = c \<and> glob_ref p v'))"

lemma glob_ref_star: "glob_ref (CHR ''*'' # p) v \<longleftrightarrow> (\<exists>i \<le> length v. glob_ref p (drop i v))"
  by (auto simp: list_ex_iff less_Suc_eq_le simp del: upt_Suc)

lemma glob_ref_literal: "CHR ''*'' \<notin> set p \<Longrightarrow> glob_ref p v \<longleftrightarrow> v = p"
  by (induction p arbitrary: v) (auto split: list.splits)

lemma glob_ref_prefix:
  "CHR ''*'' \<notin> set p \<Longrightarrow> glob_ref (p @ q) v \<longleftrightarrow> (\<exists>r. strip_prefix p v = Some r \<and> glob_ref q r)"
proof (induction p arbitrary: v)
  case (Cons c p)
  then show ?case by (cases v) auto
qed simp

lemma glob_ref_all: "glob_ref ''*'' v"
  unfolding glob_ref_star by (intro exI [of _ "length v"]) simp

lemma slice_from_Some: "slice_from s i = Some t \<Longrightarrow> t = drop i s"
  by (simp add: slice_from_def split: if_splits)

lemma slice_from_None: "i \<le> length s \<Longrightarrow> slice_from s i = None \<Longrightarrow> list_ex continuation s"
  by (auto simp: slice_from_def list_ex_iff split: if_splits)

declare glob_match.simps [simp del] glob_at.simps [simp del]

lemma star_split: "str_find CHR ''*'' p = Some i \<Longrightarrow> p = take i p @ CHR ''*'' # drop (Suc i) p"
  using str_find_Some by (metis id_take_nth_drop)

lemma continuation_drop: "list_ex continuation (drop i s) \<Longrightarrow> list_ex continuation s"
  by (auto simp: list_ex_iff dest: in_set_dropD)

lemma suffix_star:
  "CHR ''*'' \<notin> set q \<Longrightarrow> glob_ref (CHR ''*'' # q) r \<longleftrightarrow> suffix q r \<and> length q \<le> length r"
proof -
  assume q: "CHR ''*'' \<notin> set q"
  have "glob_ref (CHR ''*'' # q) r \<longleftrightarrow> (\<exists>i \<le> length r. drop i r = q)"
    using glob_ref_literal [OF q] by (simp only: glob_ref_star)
  also have "\<dots> \<longleftrightarrow> suffix q r \<and> length q \<le> length r"
  proof
    assume "\<exists>i \<le> length r. drop i r = q"
    then show "suffix q r \<and> length q \<le> length r" using suffix_drop suffix_length_le by blast
  next
    assume "suffix q r \<and> length q \<le> length r"
    then obtain zs where "r = zs @ q" by (auto elim: suffixE)
    then show "\<exists>i \<le> length r. drop i r = q" by (intro exI [of _ "length zs"]) simp
  qed
  finally show ?thesis .
qed

definition match_spec :: "string \<Rightarrow> string \<Rightarrow> bool" where
  "match_spec p v \<longleftrightarrow> glob_match p v = Some (glob_ref p v) \<or> (glob_match p v = None \<and> list_ex continuation v)"

definition at_spec :: "string \<Rightarrow> string \<Rightarrow> nat \<Rightarrow> bool" where
  "at_spec q r i \<longleftrightarrow> glob_at q r i = Some (\<exists>j. i \<le> j \<and> j \<le> length r \<and> glob_ref q (drop j r)) \<or>
     (glob_at q r i = None \<and> list_ex continuation r)"

lemma match_spec_literal:
  assumes "p \<noteq> ''*''" "str_find CHR ''*'' p = None"
  shows "match_spec p v"
proof -
  have "glob_match p v = Some (p = v)" unfolding glob_match.simps [of p v] assms(2) using assms(1) by simp
  moreover have "glob_ref p v \<longleftrightarrow> p = v" using glob_ref_literal [of p v] assms(2) by auto
  ultimately show ?thesis by (simp add: match_spec_def)
qed

lemma match_spec_star:
  assumes p: "p \<noteq> ''*''" "str_find CHR ''*'' p = Some i"
    and ih: "\<And>r. strip_prefix (take i p) v = Some r \<Longrightarrow> CHR ''*'' \<in> set (drop (Suc i) p) \<Longrightarrow>
      at_spec (drop (Suc i) p) r 0"
  shows "match_spec p v"
proof -
  let ?q = "drop (Suc i) p"
  have nostar: "CHR ''*'' \<notin> set (take i p)" using str_find_Some [OF p(2)] by blast
  have ref: "glob_ref p v \<longleftrightarrow> (\<exists>r. strip_prefix (take i p) v = Some r \<and> glob_ref (CHR ''*'' # ?q) r)"
    by (subst star_split [OF p(2)]) (rule glob_ref_prefix [OF nostar])
  show ?thesis
  proof (cases "strip_prefix (take i p) v")
    case None
    then show ?thesis using p ref by (simp add: match_spec_def glob_match.simps)
  next
    case r: (Some r)
    have sub: "list_ex continuation r \<Longrightarrow> list_ex continuation v"
      using r by (auto simp: strip_prefix_Some list_ex_iff)
    show ?thesis
    proof (cases "CHR ''*'' \<in> set ?q")
      case star: True
      then show ?thesis using ih [OF r star] p r ref sub
        by (auto simp: match_spec_def at_spec_def glob_match.simps glob_ref_star simp del: glob_ref.simps)
    next
      case nostar: False
      then show ?thesis using p r ref suffix_star [OF nostar, of r]
        by (simp add: match_spec_def glob_match.simps del: glob_ref.simps)
    qed
  qed
qed

lemma at_spec_step:
  assumes le: "\<not> i > length r" and s: "slice_from r i = Some s"
    and ih: "match_spec q s" "glob_match q s = Some False \<Longrightarrow> at_spec q r (i + 1)"
  shows "at_spec q r i"
proof (cases "glob_match q s")
  case None
  then show ?thesis using ih(1) le s slice_from_Some [OF s] continuation_drop
    by (auto simp: match_spec_def at_spec_def glob_at.simps)
next
  case b: (Some b)
  then have bs: "b = glob_ref q (drop i r)" using ih(1) slice_from_Some [OF s] by (auto simp: match_spec_def)
  show ?thesis
  proof (cases b)
    case True
    then show ?thesis using le s b bs by (auto simp: at_spec_def glob_at.simps)
  next
    case f: False
    have step: "(\<exists>j. i \<le> j \<and> j \<le> length r \<and> glob_ref q (drop j r)) \<longleftrightarrow>
        (\<exists>j. Suc i \<le> j \<and> j \<le> length r \<and> glob_ref q (drop j r))"
      using f bs by (metis Suc_leD Suc_leI le_neq_implies_less)
    have "glob_at q r i = glob_at q r (i + 1)" using le s b f by (subst glob_at.simps) simp
    then show ?thesis using ih(2) b f step by (auto simp: at_spec_def)
  qed
qed

lemma glob_match_ref: "match_spec p v" "at_spec q r i"
proof (induction p v and q r i rule: glob_match_glob_at.induct)
  case (1 p v)
  show ?case
  proof (cases "p = ''*''")
    case True
    then show ?thesis using glob_ref_all [of v] by (simp add: match_spec_def glob_match.simps del: glob_ref.simps)
  next
    case False
    show ?thesis
    proof (cases "str_find CHR ''*'' p")
      case None
      with False show ?thesis by (rule match_spec_literal)
    next
      case (Some i)
      show ?thesis by (rule match_spec_star [OF False Some]) (use 1 [OF False Some _ refl] in simp)
    qed
  qed
next
  case (2 q r i)
  show ?case
  proof (cases "i > length r")
    case True
    then show ?thesis by (simp add: at_spec_def glob_at.simps)
  next
    case False
    show ?thesis
    proof (cases "slice_from r i")
      case None
      then show ?thesis using False slice_from_None [OF _ None] by (simp add: at_spec_def glob_at.simps)
    next
      case (Some s)
      show ?thesis by (rule at_spec_step [OF False Some 2(1) [OF False Some]]) (use 2(2) [OF False Some] in blast)
    qed
  qed
qed

text \<open>
  C35. Access patterns mean what they say. For every pattern and value the matcher decides the usual
  glob relation, in which a star stands for any text; the only other outcome is a panic, and that
  needs a value with a character outside ASCII. It does occur: the two bytes of e-acute and the
  pattern \<^verbatim>\<open>*a*\<close> make the second wildcard slice inside the character.
\<close>

theorem glob_match_exact:
  "(glob_match p v = Some (glob_ref p v) \<or> (glob_match p v = None \<and> list_ex continuation v)) \<and>
   glob_match ''*a*'' (bytes [0xC3, 0xA9]) = None"
proof
  show "glob_match p v = Some (glob_ref p v) \<or> (glob_match p v = None \<and> list_ex continuation v)"
    by (rule glob_match_ref(1) [unfolded match_spec_def])
  show "glob_match ''*a*'' (bytes [0xC3, 0xA9]) = None" by code_simp
qed

section \<open>Evaluation of the rules\<close>

text \<open>A text of single-byte characters, as names of workspaces, folders and tasks usually are.\<close>

definition single_byte :: "string \<Rightarrow> bool" where
  "single_byte s \<longleftrightarrow> list_all (\<lambda>c. \<not> continuation c) s"

definition applies :: "string \<Rightarrow> string \<Rightarrow> string \<Rightarrow> string list \<Rightarrow> acl_rule \<Rightarrow> bool" where
  "applies workspace task_path email groups rule \<longleftrightarrow>
     glob_ref (ru_workspace rule) workspace \<and> list_ex (\<lambda>p. glob_ref p task_path) (ru_tasks rule) \<and>
     (email \<in> set (ru_users rule) \<or> list_ex (\<lambda>g. g \<in> set groups) (ru_groups rule))"

definition granted :: "string \<Rightarrow> string \<Rightarrow> string \<Rightarrow> string list \<Rightarrow> acl_config \<Rightarrow> acl_action list" where
  "granted workspace task_path email groups config =
     map ru_action (filter (applies workspace task_path email groups) (ac_rules config))"

lemma single_byte_glob: "single_byte v \<Longrightarrow> glob_match p v = Some (glob_ref p v)"
  using glob_match_ref(1) [of p v] by (auto simp: match_spec_def single_byte_def list_ex_iff list_all_iff)

lemma single_byte_any: "single_byte v \<Longrightarrow> any_glob ps v = Some (list_ex (\<lambda>p. glob_ref p v) ps)"
  by (induction ps) (simp_all add: single_byte_glob split: bool.split)

lemma rule_applies_ref:
  "single_byte ws \<Longrightarrow> single_byte path \<Longrightarrow> rule_applies ws path email groups rule = Some (applies ws path email groups rule)"
  by (simp add: rule_applies_def applies_def single_byte_glob single_byte_any split: bool.split)

lemma highest_priority_Max:
  assumes "single_byte ws" "single_byte path"
  shows "highest_priority ws path email groups rules h =
    Some (Max (insert h (priority ` ru_action ` set (filter (applies ws path email groups) rules))))"
proof (induction rules arbitrary: h)
  case (Cons rule rules)
  have m: "finite S \<Longrightarrow> Max (insert (max a b) S) = max a (Max (insert b S))" for a b :: nat and S
    by (cases "S = {}") (simp_all add: max.assoc)
  show ?case
  proof (cases "applies ws path email groups rule")
    case True
    have "(if priority (ru_action rule) > h then priority (ru_action rule) else h) = max h (priority (ru_action rule))"
      by (simp add: max_def)
    then show ?thesis using True Cons by (simp add: rule_applies_ref [OF assms] m)
  next
    case False
    then show ?thesis using Cons by (simp add: rule_applies_ref [OF assms])
  qed
qed simp

lemma priority_mono: "mono priority"
  by (rule monoI) (simp add: less_eq_acl_action_def)

lemma priority_permission:
  "permission_of a = (if priority a = 3 then PermRun else if priority a = 2 then PermView else PermDeny)" "0 < priority a"
  by (cases a; simp)+

lemma evaluate_granted:
  assumes "single_byte ws" "single_byte path"
  shows "evaluate (Some config) ws path email groups False =
    (let as = granted ws path email groups config in
     Some (permission_of (if as = [] then ac_default config else Max (set as))))"
proof (cases "granted ws path email groups config = []")
  case True
  then have "set (filter (applies ws path email groups) (ac_rules config)) = {}" by (simp add: granted_def)
  then have "highest_priority ws path email groups (ac_rules config) 0 = Some 0"
    by (simp only: highest_priority_Max [OF assms] image_empty) simp
  then show ?thesis using True by (simp add: evaluate_def)
next
  case False
  let ?A = "set (granted ws path email groups config)"
  have A: "ru_action ` set (filter (applies ws path email groups) (ac_rules config)) = ?A" by (simp add: granted_def)
  have "Max (insert 0 (priority ` ?A)) = Max (priority ` ?A)" using False by simp
  also have "\<dots> = priority (Max ?A)" using mono_Max_commute [OF priority_mono] False by simp
  finally have "highest_priority ws path email groups (ac_rules config) 0 = Some (priority (Max ?A))"
    by (simp only: highest_priority_Max [OF assms] A)
  then show ?thesis using False priority_permission [of "Max ?A"] by (simp add: evaluate_def)
qed

text \<open>
  The most permissive rule wins. For a user who is no administrator, \<^verbatim>\<open>evaluate\<close> grants the highest
  action among the rules whose workspace pattern, some task pattern and user or group match, and
  the configured default when no rule applies; the order of the rules does not matter.
\<close>

theorem evaluate_most_permissive:
  assumes "single_byte ws" "single_byte path" "set rules = set (ac_rules config)"
  shows "evaluate (Some config) ws path email groups False =
      (let as = granted ws path email groups config in
       Some (permission_of (if as = [] then ac_default config else Max (set as)))) \<and>
    evaluate (Some (config\<lparr>ac_rules := rules\<rparr>)) ws path email groups False =
      evaluate (Some config) ws path email groups False"
proof -
  have s: "set (granted ws path email groups (config\<lparr>ac_rules := rules\<rparr>)) = set (granted ws path email groups config)"
    by (simp add: granted_def assms(3))
  then have "granted ws path email groups (config\<lparr>ac_rules := rules\<rparr>) = [] \<longleftrightarrow> granted ws path email groups config = []"
    by (metis set_empty)
  with s show ?thesis by (simp add: evaluate_granted [OF assms(1,2)] Let_def)
qed

definition ops_config :: acl_config where
  "ops_config = \<lparr>ac_default = AclDeny, ac_rules =
     [\<lparr>ru_workspace = ''*'', ru_tasks = [''*''], ru_action = AclView, ru_groups = [''dev''], ru_users = []\<rparr>,
      \<lparr>ru_workspace = ''prod'', ru_tasks = [''deploy/*''], ru_action = AclRun, ru_groups = [''dev''], ru_users = []\<rparr>]\<rparr>"

theorem evaluate_most_permissive_witness:
  "evaluate (Some (ops_config\<lparr>ac_rules := rev (ac_rules ops_config)\<rparr>)) ''prod'' ''deploy/web'' ''a@b'' [''dev''] False = Some PermRun"
proof -
  have "single_byte ''prod''" "single_byte ''deploy/web''"
    by (simp_all add: single_byte_def continuation_def byte_def)
  then have "evaluate (Some (ops_config\<lparr>ac_rules := rev (ac_rules ops_config)\<rparr>)) ''prod'' ''deploy/web'' ''a@b'' [''dev''] False =
      evaluate (Some ops_config) ''prod'' ''deploy/web'' ''a@b'' [''dev''] False"
    using evaluate_most_permissive [of "''prod''" "''deploy/web''" "rev (ac_rules ops_config)" ops_config] by simp
  also have "\<dots> = Some PermRun" by code_simp
  finally show ?thesis .
qed

section \<open>Job lists\<close>

lemma filter_allowed_iff:
  assumes "filter_allowed cfg email groups ts = Some l"
  shows "(ws, task, folder, perm) \<in> set l \<longleftrightarrow> (ws, task, folder) \<in> set ts \<and> perm \<noteq> PermDeny \<and>
    evaluate cfg ws (make_task_path folder task) email groups False = Some perm"
  using assms
proof (induction cfg email groups ts arbitrary: l rule: filter_allowed.induct)
  case (2 cfg email groups w t f ts)
  then obtain p l' where "evaluate cfg w (make_task_path f t) email groups False = Some p"
    "filter_allowed cfg email groups ts = Some l'" "l = (if p = PermDeny then l' else (w, t, f, p) # l')"
    by (auto split: option.splits)
  then show ?case using 2(1) by auto
qed auto

lemma filter_allowed_decides:
  "filter_allowed cfg email groups ts = Some l \<Longrightarrow> (ws, task, folder) \<in> set ts \<Longrightarrow>
   \<exists>perm. evaluate cfg ws (make_task_path folder task) email groups False = Some perm"
  by (induction cfg email groups ts arbitrary: l rule: filter_allowed.induct) (auto split: option.splits)

lemma allowed_iff:
  assumes "filter_allowed cfg email groups ts = Some l" "(ws, task, folder) \<in> set ts"
  shows "(\<exists>perm. (ws, task, folder, perm) \<in> set l) \<longleftrightarrow>
    evaluate cfg ws (make_task_path folder task) email groups False \<noteq> Some PermDeny"
  using filter_allowed_iff [OF assms(1)] filter_allowed_decides [OF assms] assms(2) by auto

lemma make_task_path_default:
  "make_task_path f task = make_task_path (Some (case f of Some s \<Rightarrow> s | None \<Rightarrow> [])) task"
  by (simp add: make_task_path_def split: option.split)

lemma build_scope_SomeD:
  assumes "build_job_acl_scope (Some cfg) live email groups False d = Some (Some scope)"
  obtains l p where "filter_allowed (Some cfg) email groups live = Some l"
    "filter_allowed (Some cfg) email groups (pinned_task_triples d) = Some p"
    "sc_live_pairs scope = map (\<lambda>(ws, task, _). (ws, task)) l"
    "sc_pinned_triples scope = map (\<lambda>(ws, task, folder, _). (ws, task, case folder of Some f \<Rightarrow> f | None \<Rightarrow> [])) p"
proof (cases "filter_allowed (Some cfg) email groups live")
  case None
  then show ?thesis using assms by (simp add: build_job_acl_scope_def allowed_scope_of_def)
next
  case (Some l)
  then show ?thesis
    using assms that by (cases "filter_allowed (Some cfg) email groups (pinned_task_triples d)")
      (auto simp: build_job_acl_scope_def allowed_scope_of_def allowed_triples_def comp_def split_def)
qed

lemma admits_live:
  assumes "distinct (map (\<lambda>(w, t, f). (w, t)) live)" "filter_allowed (Some cfg) email groups live = Some l"
  shows "(ws, task) \<in> set (map (\<lambda>(ws, task, _). (ws, task)) l) \<longleftrightarrow>
    (\<exists>f. (ws, task, f) \<in> set live) \<and>
    evaluate (Some cfg) ws (make_task_path (live_folder_of live ws task) task) email groups False \<noteq> Some PermDeny"
proof (cases "\<exists>f. (ws, task, f) \<in> set live")
  case True
  then obtain f where f: "(ws, task, f) \<in> set live" by blast
  have "distinct (map fst (map (\<lambda>(w, t, f). ((w, t), f)) live))"
    using assms(1) by (simp add: comp_def split_def)
  moreover have "((ws, task), f) \<in> set (map (\<lambda>(w, t, f). ((w, t), f)) live)" using f by force
  ultimately have m: "map_of (map (\<lambda>(w, t, f). ((w, t), f)) live) (ws, task) = Some f" by simp
  then have u: "f' = f" if "(ws, task, f') \<in> set live" for f'
    using that map_of_is_SomeI [OF \<open>distinct (map fst (map (\<lambda>(w, t, f). ((w, t), f)) live))\<close>, of "(ws, task)" f']
    by force
  have "(ws, task) \<in> set (map (\<lambda>(ws, task, _). (ws, task)) l) \<longleftrightarrow> (\<exists>f' perm. (ws, task, f', perm) \<in> set l)" by force
  also have "\<dots> \<longleftrightarrow> (\<exists>perm. (ws, task, f, perm) \<in> set l)" using u filter_allowed_iff [OF assms(2)] by blast
  finally show ?thesis using allowed_iff [OF assms(2) f] f m by (auto simp: live_folder_of_def)
next
  case False
  then show ?thesis using filter_allowed_iff [OF assms(2)] by force
qed

lemma admits_pinned:
  assumes "filter_allowed (Some cfg) email groups ts = Some p" "(ws, task, folder) \<in> set ts"
  shows "(ws, task, case folder of Some f \<Rightarrow> f | None \<Rightarrow> []) \<in>
      set (map (\<lambda>(ws, task, folder, _). (ws, task, case folder of Some f \<Rightarrow> f | None \<Rightarrow> [])) p) \<longleftrightarrow>
    evaluate (Some cfg) ws (make_task_path folder task) email groups False \<noteq> Some PermDeny"
    (is "?L \<longleftrightarrow> ?R")
proof
  assume ?L
  then obtain f' perm where f': "(ws, task, f', perm) \<in> set p"
    "(case f' of Some f \<Rightarrow> f | None \<Rightarrow> []) = (case folder of Some f \<Rightarrow> f | None \<Rightarrow> [])" by auto
  have path: "make_task_path f' task = make_task_path folder task"
    by (simp only: make_task_path_default [of f'] make_task_path_default [of folder] f'(2))
  show ?R using filter_allowed_iff [OF assms(1), of ws task f' perm] f'(1) unfolding path by auto
next
  assume ?R
  then obtain perm where "(ws, task, folder, perm) \<in> set p" using allowed_iff [OF assms] by blast
  then show ?L by (force intro: rev_image_eqI)
qed

text \<open>
  Job lists show what the job page would. A job row passes the SQL filter of a user's scope
  exactly if evaluating the rules on the job's own task path does not deny it, and its task is
  still in the live configuration or the job is pinned.
\<close>

theorem job_list_agrees:
  assumes "distinct (map (\<lambda>(w, t, f). (w, t)) live)" "j \<in> set (jobs d)"
    and "build_job_acl_scope (Some cfg) live email groups False d = Some (Some scope)"
  shows "scope_admits scope j \<longleftrightarrow>
    (j_git_ref j \<noteq> None \<or> (\<exists>f. (j_workspace j, j_task_name j, f) \<in> set live)) \<and>
    evaluate (Some cfg) (j_workspace j) (job_task_path live j) email groups False \<noteq> Some PermDeny"
proof -
  obtain l p where lp: "filter_allowed (Some cfg) email groups live = Some l"
    "filter_allowed (Some cfg) email groups (pinned_task_triples d) = Some p"
    "sc_live_pairs scope = map (\<lambda>(ws, task, _). (ws, task)) l"
    "sc_pinned_triples scope = map (\<lambda>(ws, task, folder, _). (ws, task, case folder of Some f \<Rightarrow> f | None \<Rightarrow> [])) p"
    by (rule build_scope_SomeD [OF assms(3)])
  note path = job_task_path_def job_coords_task_path_def coords_folder_def acl_folder_def
  show ?thesis
  proof (cases "j_git_ref j = None")
    case True
    then show ?thesis using admits_live [OF assms(1) lp(1)] by (simp add: scope_admits_def lp(3) path)
  next
    case False
    then have "(j_workspace j, j_task_name j, j_task_folder j) \<in> set (pinned_task_triples d)"
      using assms(2) by (auto simp: pinned_task_triples_def)
    from admits_pinned [OF lp(2) this] show ?thesis using False by (auto simp: scope_admits_def lp(4) path)
  qed
qed

definition prod_job :: job_row where
  "prod_job = (test_default_job 1 0)\<lparr>j_workspace := ''prod'', j_task_name := ''web'', j_git_ref := Some ''main'',
     j_task_folder := Some ''deploy''\<rparr>"

theorem job_list_agrees_witness:
  "\<exists>scope. build_job_acl_scope (Some ops_config) [] ''a@b'' [''dev''] False \<lparr>jobs = [prod_job], steps = []\<rparr> = Some (Some scope) \<and>
     scope_admits scope prod_job"
proof -
  let ?d = "\<lparr>jobs = [prod_job], steps = []\<rparr>"
  obtain scope where s: "build_job_acl_scope (Some ops_config) [] ''a@b'' [''dev''] False ?d = Some (Some scope)"
  proof -
    have "build_job_acl_scope (Some ops_config) [] ''a@b'' [''dev''] False ?d =
        Some (Some \<lparr>sc_live_pairs = [], sc_pinned_triples = [(''prod'', ''web'', ''deploy'')]\<rparr>)" by code_simp
    then show ?thesis by (rule that)
  qed
  have "evaluate (Some ops_config) (j_workspace prod_job) (job_task_path [] prod_job) ''a@b'' [''dev''] False = Some PermRun"
    by code_simp
  then have "scope_admits scope prod_job"
    using job_list_agrees [OF _ _ s, of prod_job] by (simp add: prod_job_def)
  then show ?thesis using s by blast
qed

end
