(* ===== verification/Restart.thy ===== *)
theory Restart
  imports Workflow_Model Db_Rows
begin

text \<open>
  Planning a restart (\<^verbatim>\<open>stroem-server/src/restart.rs\<close>): which steps of a finished job run again, and
  which are carried over with the result they had. The flow's hash map is iterated in the order of
  its association list; a \<^verbatim>\<open>BTreeSet\<close> is a sorted list.
\<close>

section \<open>Definitions\<close>

datatype restart_error = UnknownStep string | LoopInstance string | NoFailedSteps

fun restart_error_text :: "restart_error \<Rightarrow> string" where
  "restart_error_text (UnknownStep s) = ''Step '' @ [CHR 0x27] @ s @ [CHR 0x27] @ '' is not in the current flow''"
| "restart_error_text (LoopInstance b) =
     ''Restart from the loop step '' @ [CHR 0x27] @ b @ [CHR 0x27] @ '', not an instance''"
| "restart_error_text NoFailedSteps = ''No failed or cancelled steps to restart''"

datatype restart_from = FromStep string | AllFailed

record restart_plan =
  rp_from :: restart_from
  rp_start_steps :: "string list"
  rp_restart_steps :: "string list"
  rp_carried :: "seed list"
  rp_carried_failed :: "string list"
  rp_carried_failed_tolerated :: "string list"

definition CARRIED_CANCELLED_MSG :: string where
  "CARRIED_CANCELLED_MSG = ''carried over from cancelled source job''"

definition carried_status :: "string \<Rightarrow> string" where
  "carried_status status = (if is_terminal status then status else step_status_str Cancelled)"

definition source_row :: "job_step_row list \<Rightarrow> string \<Rightarrow> job_step_row option" where
  "source_row source_steps name =
     find (\<lambda>s. js_step_name s = name) (rev (filter (\<lambda>s. js_loop_source s = None) source_steps))"

definition carried_bad :: "job_step_row list \<Rightarrow> string \<Rightarrow> bool" where
  "carried_bad source_steps name =
     (case source_row source_steps name of
        None \<Rightarrow> False
      | Some src \<Rightarrow> carried_status (js_status src) \<in> {step_status_str Failed, step_status_str Cancelled})"

definition start_steps_of :: "flow \<Rightarrow> job_step_row list \<Rightarrow> restart_from \<Rightarrow> restart_error + string list" where
  "start_steps_of flow source_steps src =
     (case src of
        FromStep from_step \<Rightarrow>
          (case str_find CHR ''['' from_step of
             Some i \<Rightarrow> Inl (LoopInstance (take i from_step))
           | None \<Rightarrow> if \<not> contains_key flow from_step then Inl (UnknownStep from_step) else Inr [from_step])
      | AllFailed \<Rightarrow>
          let v = filter (carried_bad source_steps) (keys flow) in
          if v = [] then Inl NoFailedSteps else Inr (sort v))"

definition restart_roots :: "flow \<Rightarrow> job_step_row list \<Rightarrow> string list \<Rightarrow> string list" where
  "restart_roots flow source_steps start_steps =
     foldl (\<lambda>restart name. if source_row source_steps name = None then insort_insert name restart else restart)
       (foldl (\<lambda>restart name. insort_insert name restart) [] start_steps) (keys flow)"

text \<open>One pass of the fixed-point loop over the flow, and the loop.\<close>

definition close_step :: "string list \<Rightarrow> string \<times> flow_step \<Rightarrow> string list" where
  "close_step restart e =
     (if fst e \<in> set restart then restart
      else if list_ex (\<lambda>d. d \<in> set restart) (collect_names (fs_depends_on (snd e)))
      then insort_insert (fst e) restart else restart)"

definition close_pass :: "flow \<Rightarrow> string list \<Rightarrow> string list" where
  "close_pass flow restart = foldl close_step restart flow"

definition grows :: "string list \<Rightarrow> string list \<Rightarrow> bool" where
  "grows r r' \<longleftrightarrow> r' = r \<or> (length r < length r' \<and> set r \<subset> set r')"

lemma grows_trans: "grows a b \<Longrightarrow> grows b c \<Longrightarrow> grows a c"
  unfolding grows_def by (metis less_trans psubset_trans)

lemma set_insort_insert: "set (insort_insert x r) = insert x (set r)"
  by (auto simp: insort_insert_key_def set_insort_key)

lemma close_step_set: "set (close_step r e) \<subseteq> insert (fst e) (set r)"
  by (simp add: close_step_def set_insort_insert) blast

lemma close_step_grows: "grows r (close_step r e)"
  by (auto simp: grows_def close_step_def insort_insert_key_def set_insort_key)

lemma close_fold_set: "set (foldl close_step r es) \<subseteq> set r \<union> fst ` set es"
proof (induction es arbitrary: r)
  case (Cons e es)
  show ?case using Cons.IH [of "close_step r e"] close_step_set [of r e] by auto
qed simp

lemma close_fold_grows: "grows r (foldl close_step r es)"
proof (induction es arbitrary: r)
  case (Cons e es)
  show ?case using grows_trans [OF close_step_grows Cons.IH] by simp
qed (simp add: grows_def)

function close_restart :: "flow \<Rightarrow> string list \<Rightarrow> string list" where
  "close_restart flow restart =
     (let after = close_pass flow restart in
      if length after = length restart then after else close_restart flow after)"
  by pat_completeness auto
termination
proof (relation "measure (\<lambda>(flow, restart). card (fst ` set flow - set restart))", goal_cases)
  case (2 flow restart after)
  let ?a = "foldl close_step restart flow"
  have ne: "?a \<noteq> restart" using 2 by (auto simp: close_pass_def)
  have "set restart \<subset> set ?a" using close_fold_grows [of restart flow] ne unfolding grows_def by blast
  moreover have "set ?a \<subseteq> set restart \<union> fst ` set flow" by (rule close_fold_set)
  ultimately have "fst ` set flow - set ?a \<subset> fst ` set flow - set restart" by blast
  then have "card (fst ` set flow - set ?a) < card (fst ` set flow - set restart)"
    by (intro psubset_card_mono) simp_all
  then show ?case using 2(1) by (simp add: close_pass_def)
qed simp

definition carried_seed :: "string \<Rightarrow> job_step_row \<Rightarrow> seed" where
  "carried_seed name src =
     (if is_terminal (js_status src)
      then \<lparr>sd_step_name = name, sd_status = js_status src, sd_output = js_output src,
            sd_error_message = js_error_message src, sd_skip_reason = js_skip_reason src\<rparr>
      else \<lparr>sd_step_name = name, sd_status = step_status_str Cancelled, sd_output = None,
            sd_error_message = Some CARRIED_CANCELLED_MSG, sd_skip_reason = None\<rparr>)"

definition own_tolerance :: "flow \<Rightarrow> string \<Rightarrow> bool" where
  "own_tolerance flow name =
     (case map_of flow name of Some fs \<Rightarrow> fs_continue_on_failure fs | None \<Rightarrow> False)"

definition carried_of :: "flow \<Rightarrow> job_step_row list \<Rightarrow> string list \<Rightarrow> seed list" where
  "carried_of flow source_steps restart =
     List.map_filter (\<lambda>name. map_option (carried_seed name) (source_row source_steps name))
       (sort (filter (\<lambda>n. n \<notin> set restart) (keys flow)))"

definition plan_restart :: "flow \<Rightarrow> job_step_row list \<Rightarrow> restart_from \<Rightarrow> restart_error + restart_plan" where
  "plan_restart flow source_steps src =
     (case start_steps_of flow source_steps src of
        Inl e \<Rightarrow> Inl e
      | Inr start_steps \<Rightarrow>
          let restart = close_restart flow (restart_roots flow source_steps start_steps);
              carried = carried_of flow source_steps restart;
              failed = map sd_step_name (filter (\<lambda>s. sd_status s = step_status_str Failed) carried)
          in Inr \<lparr>rp_from = src, rp_start_steps = start_steps, rp_restart_steps = restart, rp_carried = carried,
               rp_carried_failed = filter (\<lambda>n. \<not> own_tolerance flow n) failed,
               rp_carried_failed_tolerated = filter (own_tolerance flow) failed\<rparr>)"

definition compute_restart_set :: "flow \<Rightarrow> job_step_row list \<Rightarrow> string \<Rightarrow> restart_error + restart_plan" where
  "compute_restart_set flow source_steps from_step = plan_restart flow source_steps (FromStep from_step)"

declare close_restart.simps [simp del]

section \<open>The closure\<close>

text \<open>Sets of step names that contain every dependent of theirs.\<close>

definition dependents_closed :: "flow \<Rightarrow> string set \<Rightarrow> bool" where
  "dependents_closed flow S \<longleftrightarrow> dep_rel flow `` S \<subseteq> S"

lemma close_fold_stuck:
  assumes "foldl close_step r es = r"
  shows "list_all (\<lambda>e. close_step r e = r) es"
  using assms
proof (induction es)
  case (Cons e es)
  have "close_step r e = r"
    using close_step_grows [of r e] close_fold_grows [of "close_step r e" es] Cons.prems
    by (auto simp: grows_def)
  then show ?case using Cons by simp
qed simp

lemma close_pass_closed:
  assumes "close_pass flow r = r"
  shows "dependents_closed flow (set r)"
  unfolding dependents_closed_def
proof
  fix n assume "n \<in> dep_rel flow `` set r"
  then obtain d fs where d: "d \<in> set r" "map_of flow n = Some fs" "d \<in> set (collect_names (fs_depends_on fs))"
    by (auto simp: dep_rel_def dep_names_def)
  have "close_step r (n, fs) = r"
    using close_fold_stuck [of r flow] assms map_of_SomeD [OF d(2)] by (auto simp: close_pass_def list_all_iff)
  moreover have "list_ex (\<lambda>d. d \<in> set r) (collect_names (fs_depends_on fs))" using d(1,3) by (auto simp: list_ex_iff)
  ultimately show "n \<in> set r" using set_insort_insert [of n r] by (auto simp: close_step_def split: if_splits)
qed

lemma close_step_within:
  assumes "distinct (keys flow)" "e \<in> set flow" "set r \<subseteq> S" "dependents_closed flow S"
  shows "set (close_step r e) \<subseteq> S"
proof (cases "close_step r e = r")
  case False
  then obtain d where "d \<in> set (collect_names (fs_depends_on (snd e)))" "d \<in> set r"
    by (auto simp: close_step_def list_ex_iff split: if_splits)
  moreover have "map_of flow (fst e) = Some (snd e)" using assms(1,2) by (metis map_of_is_SomeI prod.collapse)
  ultimately have "fst e \<in> S" using assms(3,4) by (auto simp: dependents_closed_def dep_rel_def dep_names_def)
  then show ?thesis using close_step_set [of r e] assms(3) by blast
qed (use assms in simp)

lemma close_fold_within:
  "distinct (keys flow) \<Longrightarrow> dependents_closed flow S \<Longrightarrow> set es \<subseteq> set flow \<Longrightarrow> set r \<subseteq> S \<Longrightarrow> set (foldl close_step r es) \<subseteq> S"
proof (induction es arbitrary: r)
  case (Cons e es)
  then show ?case using close_step_within [of flow e r S] by simp
qed simp

lemma close_restart_least:
  assumes "distinct (keys flow)"
  shows "set r \<subseteq> set (close_restart flow r) \<and> dependents_closed flow (set (close_restart flow r)) \<and>
    (\<forall>S. set r \<subseteq> S \<longrightarrow> dependents_closed flow S \<longrightarrow> set (close_restart flow r) \<subseteq> S)"
  using assms
proof (induction flow r rule: close_restart.induct)
  case (1 flow r)
  have g: "grows r (close_pass flow r)" by (simp add: close_pass_def close_fold_grows)
  show ?case
  proof (cases "length (close_pass flow r) = length r")
    case True
    then have eq: "close_pass flow r = r" using g by (auto simp: grows_def)
    then have "close_restart flow r = r" by (subst close_restart.simps) (simp add: Let_def)
    then show ?thesis using close_pass_closed [OF eq] by simp
  next
    case False
    then have eq: "close_restart flow r = close_restart flow (close_pass flow r)"
      by (subst close_restart.simps) (simp add: Let_def)
    have sub: "set r \<subseteq> set (close_pass flow r)" using g by (auto simp: grows_def)
    have within: "set (close_pass flow r) \<subseteq> S" if "set r \<subseteq> S" "dependents_closed flow S" for S
      unfolding close_pass_def using close_fold_within [OF 1(2) that(2)] that(1) by simp
    note ih = 1(1) [OF refl False 1(2)]
    show ?thesis unfolding eq
    proof (intro conjI allI impI)
      show "set r \<subseteq> set (close_restart flow (close_pass flow r))"
        using ih [THEN conjunct1] sub by (rule subset_trans [rotated])
      show "dependents_closed flow (set (close_restart flow (close_pass flow r)))"
        by (rule ih [THEN conjunct2, THEN conjunct1])
      show "set (close_restart flow (close_pass flow r)) \<subseteq> S" if "set r \<subseteq> S" "dependents_closed flow S" for S
        by (rule ih [THEN conjunct2, THEN conjunct2, rule_format, OF within [OF that] that(2)])
    qed
  qed
qed

lemma closed_rtrancl: "dependents_closed flow S \<Longrightarrow> (dep_rel flow)\<^sup>* `` S \<subseteq> S"
  unfolding dependents_closed_def by (simp add: Image_closed_trancl)

lemma rtrancl_closed: "dependents_closed flow ((dep_rel flow)\<^sup>* `` R)"
  unfolding dependents_closed_def Image_def by (blast intro: rtrancl_into_rtrancl)

lemma close_restart_reach:
  assumes "distinct (keys flow)"
  shows "set (close_restart flow r) = (dep_rel flow)\<^sup>* `` set r"
proof
  show "set (close_restart flow r) \<subseteq> (dep_rel flow)\<^sup>* `` set r"
  proof -
    have "set r \<subseteq> (dep_rel flow)\<^sup>* `` set r" by blast
    then show ?thesis using close_restart_least [OF assms, of r] rtrancl_closed [of flow "set r"] by blast
  qed
  show "(dep_rel flow)\<^sup>* `` set r \<subseteq> set (close_restart flow r)"
    using close_restart_least [OF assms, of r] closed_rtrancl [of flow "set (close_restart flow r)"] by blast
qed

section \<open>The plan\<close>

definition sorted_set :: "string list \<Rightarrow> bool" where
  "sorted_set r \<longleftrightarrow> sorted r \<and> distinct r"

lemma sorted_set_insert: "sorted_set r \<Longrightarrow> sorted_set (insort_insert x r)"
  by (simp add: sorted_set_def sorted_insort_insert distinct_insort_insert)

lemma sorted_set_fold: "(\<And>r e. sorted_set r \<Longrightarrow> sorted_set (f r e)) \<Longrightarrow> sorted_set r \<Longrightarrow> sorted_set (foldl f r es)"
  by (induction es arbitrary: r) simp_all

lemma sorted_set_roots: "sorted_set (restart_roots flow rows start)"
  unfolding restart_roots_def
  by (intro sorted_set_fold) (auto simp: sorted_set_insert sorted_set_def [of "[]"])

lemma sorted_set_close: "sorted_set r \<Longrightarrow> sorted_set (close_restart flow r)"
proof (induction flow r rule: close_restart.induct)
  case (1 flow r)
  have "sorted_set (close_pass flow r)"
    unfolding close_pass_def by (rule sorted_set_fold) (simp_all add: close_step_def sorted_set_insert 1)
  then show ?case using 1 by (subst close_restart.simps) (simp add: Let_def)
qed

lemma set_fold_insert: "set (foldl (\<lambda>r n. if P n then insort_insert n r else r) r ns) = set r \<union> {n \<in> set ns. P n}"
  by (induction ns arbitrary: r) (auto simp: set_insort_insert)

lemma set_restart_roots:
  "set (restart_roots flow rows start) = set start \<union> {n \<in> set (keys flow). source_row rows n = None}"
  using set_fold_insert [of "\<lambda>_. True" "[]" start] by (simp add: restart_roots_def set_fold_insert)

lemma carried_seed_sel [simp]: "sd_step_name (carried_seed n r) = n" "sd_status (carried_seed n r) = carried_status (js_status r)"
  by (simp_all add: carried_seed_def carried_status_def)

lemma carried_status_terminal [simp]: "is_terminal (carried_status s)"
  by (simp add: carried_status_def)

lemma carried_names:
  "list_all (\<lambda>n. source_row rows n \<noteq> None) ns \<Longrightarrow>
   map sd_step_name (List.map_filter (\<lambda>name. map_option (carried_seed name) (source_row rows name)) ns) = ns"
  by (induction ns) (auto simp: map_filter_simps)

lemma carried_elem:
  assumes "s \<in> set (List.map_filter (\<lambda>name. map_option (carried_seed name) (source_row rows name)) ns)"
  obtains r where "sd_step_name s \<in> set ns" "source_row rows (sd_step_name s) = Some r" "s = carried_seed (sd_step_name s) r"
  using assms by (auto simp: List.map_filter_def)

lemma unrestarted_has_row:
  assumes "distinct (keys flow)" "n \<in> set (keys flow)" "n \<notin> set (close_restart flow (restart_roots flow rows start))"
  shows "source_row rows n \<noteq> None"
proof
  assume "source_row rows n = None"
  then have "n \<in> set (restart_roots flow rows start)" using assms(2) by (simp add: set_restart_roots)
  then show False using close_restart_least [OF assms(1)] assms(3) by blast
qed

lemma carried_from_row:
  assumes "s \<in> set (carried_of flow rows R)"
  obtains r where "sd_step_name s \<in> set (keys flow) - set R" "source_row rows (sd_step_name s) = Some r"
    "s = carried_seed (sd_step_name s) r" "sd_status s = carried_status (js_status r)" "is_terminal (sd_status s)"
proof -
  obtain r where r: "sd_step_name s \<in> set (sort (filter (\<lambda>n. n \<notin> set R) (keys flow)))"
      "source_row rows (sd_step_name s) = Some r" "s = carried_seed (sd_step_name s) r"
    using assms unfolding carried_of_def by (rule carried_elem)
  have "is_terminal (sd_status s)" "sd_status s = carried_status (js_status r)" by (subst r(3), simp)+
  with r show ?thesis by (intro that) auto
qed

lemma all_failed_carries_none:
  assumes "distinct (keys flow)" "start_steps_of flow rows AllFailed = Inr start"
    and s: "s \<in> set (carried_of flow rows (close_restart flow (restart_roots flow rows start)))"
  shows "sd_status s \<notin> {''failed'', ''cancelled''}"
proof -
  have "start = sort (filter (carried_bad rows) (keys flow))"
    using assms(2) by (simp add: start_steps_of_def Let_def split: if_splits)
  then have v: "set start = {n \<in> set (keys flow). carried_bad rows n}" by (simp only: set_sort set_filter)
  obtain r where r: "sd_step_name s \<in> set (keys flow) - set (close_restart flow (restart_roots flow rows start))"
      "source_row rows (sd_step_name s) = Some r" "sd_status s = carried_status (js_status r)"
    using s by (rule carried_from_row)
  have "\<not> carried_bad rows (sd_step_name s)"
    using r(1) close_restart_least [OF assms(1), of "restart_roots flow rows start"] v
    unfolding set_restart_roots by blast
  with r(2,3) show ?thesis by (simp add: carried_bad_def)
qed

text \<open>
  C34. A restart runs again exactly what it must. In every plan the restarted steps, in order, are
  the chosen start steps, the steps new to the flow and everything that depends on them, however
  indirectly; every other step of the flow is carried over, in order, with a finished status, the
  one it had or \<^verbatim>\<open>cancelled\<close> if it had not finished; and restarting all failed steps never carries
  over a failure or a cancellation.
\<close>

theorem restart_plan_exact:
  assumes "distinct (keys flow)" "plan_restart flow rows src = Inr p"
  shows "set (rp_restart_steps p) = (dep_rel flow)\<^sup>* ``
        (set (rp_start_steps p) \<union> {n \<in> set (keys flow). source_row rows n = None}) \<and>
    sorted (rp_restart_steps p) \<and> distinct (rp_restart_steps p) \<and>
    map sd_step_name (rp_carried p) = sort (filter (\<lambda>n. n \<notin> set (rp_restart_steps p)) (keys flow)) \<and>
    list_all (\<lambda>s. is_terminal (sd_status s) \<and>
      (\<exists>r. source_row rows (sd_step_name s) = Some r \<and> s = carried_seed (sd_step_name s) r)) (rp_carried p) \<and>
    (if src = AllFailed then list_all (\<lambda>s. sd_status s \<notin> {''failed'', ''cancelled''}) (rp_carried p)
     else src = FromStep (hd (rp_start_steps p)))"
proof -
  obtain start where st: "start_steps_of flow rows src = Inr start"
    using assms(2) by (auto simp: plan_restart_def split: sum.splits)
  let ?R = "close_restart flow (restart_roots flow rows start)"
  have p: "rp_restart_steps p = ?R" "rp_start_steps p = start" "rp_carried p = carried_of flow rows ?R"
    using assms(2) st by (auto simp: plan_restart_def Let_def)
  have reach: "set ?R = (dep_rel flow)\<^sup>* `` (set start \<union> {n \<in> set (keys flow). source_row rows n = None})"
    by (simp only: close_restart_reach [OF assms(1)] set_restart_roots)
  have sorted: "sorted ?R \<and> distinct ?R" using sorted_set_close [OF sorted_set_roots] by (simp add: sorted_set_def)
  have names: "map sd_step_name (rp_carried p) = sort (filter (\<lambda>n. n \<notin> set ?R) (keys flow))"
    unfolding p(3) carried_of_def
    by (rule carried_names, unfold list_all_iff set_sort set_filter) (use unrestarted_has_row [OF assms(1)] in blast)
  have elems: "is_terminal (sd_status s) \<and> (\<exists>r. source_row rows (sd_step_name s) = Some r \<and> s = carried_seed (sd_step_name s) r)"
    if "s \<in> set (rp_carried p)" for s
    using that carried_from_row unfolding p(3) by metis
  have mode: "if src = AllFailed then list_all (\<lambda>s. sd_status s \<notin> {''failed'', ''cancelled''}) (rp_carried p)
     else src = FromStep (hd start)"
  proof (cases src)
    case (FromStep x)
    then show ?thesis using st by (auto simp: start_steps_of_def split: option.splits if_splits)
  next
    case AllFailed
    then show ?thesis using all_failed_carries_none [OF assms(1)] st unfolding p(3) list_all_iff by simp
  qed
  show ?thesis
    unfolding p(1,2) using reach sorted names elems mode by (simp add: list_all_iff)
qed

definition chain :: flow where
  "chain = [(''a'', plain_step []), (''b'', plain_step [Name ''a'']), (''c'', plain_step [])]"

definition chain_rows :: "job_step_row list" where
  "chain_rows = [(test_default 1 ''a'')\<lparr>js_status := ''failed''\<rparr>, (test_default 1 ''b'')\<lparr>js_status := ''skipped''\<rparr>,
     (test_default 1 ''c'')\<lparr>js_status := ''completed''\<rparr>]"

theorem restart_plan_exact_witness:
  "\<exists>p. plan_restart chain chain_rows AllFailed = Inr p \<and> rp_restart_steps p = [''a'', ''b''] \<and>
     list_all (\<lambda>s. sd_status s \<notin> {''failed'', ''cancelled''}) (rp_carried p)"
proof -
  have d: "distinct (keys chain)" by (simp add: chain_def)
  have p: "plan_restart chain chain_rows AllFailed = Inr
      \<lparr>rp_from = AllFailed, rp_start_steps = [''a''], rp_restart_steps = [''a'', ''b''],
       rp_carried = [\<lparr>sd_step_name = ''c'', sd_status = ''completed'', sd_output = None, sd_error_message = None,
         sd_skip_reason = None\<rparr>], rp_carried_failed = [], rp_carried_failed_tolerated = []\<rparr>"
    by code_simp
  from restart_plan_exact [OF d p] show ?thesis using p by simp
qed

end
