(* ===== verification/Duration.thy ===== *)
theory Duration
  imports Json_Value
begin

text \<open>
  Human-readable durations (\<^verbatim>\<open>stroem-common/src/duration.rs\<close>): the printed form, the parser and the
  JSON forms. The values are \<^verbatim>\<open>u64\<close> seconds: products are checked, the sum saturates.
\<close>

section \<open>Definitions\<close>

definition display_duration :: "nat \<Rightarrow> string" where
  "display_duration secs =
     (if secs = 0 then ''0s''
      else let h = secs div 3600; m = (secs mod 3600) div 60; s = secs mod 60 in
        (if h > 0 then show_nat h @ ''h'' else []) @
        (if m > 0 then show_nat m @ ''m'' else []) @
        (if s > 0 \<or> (h = 0 \<and> m = 0) then show_nat s @ ''s'' else []))"

definition quoted :: "string \<Rightarrow> string" where
  "quoted s = [CHR 0x27] @ s @ [CHR 0x27]"

text \<open>The seconds of one component; \<open>ch\<close> is the whole character, which may have several bytes.\<close>

definition component_secs :: "nat \<Rightarrow> string \<Rightarrow> string + nat" where
  "component_secs n ch =
     (if ch = ''h'' then
        (case checked_mul n 3600 of Some v \<Rightarrow> Inr v | None \<Rightarrow> Inl (''duration value '' @ show_nat n @ ''h overflows''))
      else if ch = ''m'' then
        (case checked_mul n 60 of Some v \<Rightarrow> Inr v | None \<Rightarrow> Inl (''duration value '' @ show_nat n @ ''m overflows''))
      else if ch = ''s'' then Inr n
      else Inl (''unknown duration unit '' @ quoted ch @ '' (expected h, m, or s)''))"

definition char_at :: "char \<Rightarrow> string \<Rightarrow> string" where
  "char_at c cs = c # take (len_utf8 c - 1) cs"

fun parse_units :: "string \<Rightarrow> string \<Rightarrow> string \<Rightarrow> nat \<Rightarrow> bool \<Rightarrow> string + nat" where
  "parse_units s [] current_num total_secs has_any_unit =
     (if current_num \<noteq> []
      then Inl (''trailing number '' @ quoted current_num @ '' without unit (expected h, m, or s)'')
      else if \<not> has_any_unit then Inl (''invalid duration format: '' @ quoted s)
      else if total_secs = 0 then Inl ''duration must be greater than 0''
      else Inr total_secs)"
| "parse_units s (c # cs) current_num total_secs has_any_unit =
     (if is_digit c then parse_units s cs (current_num @ [c]) total_secs has_any_unit
      else if current_num = []
      then Inl (''unexpected character '' @ quoted (char_at c cs) @ '' without preceding number'')
      else case parse_u64 current_num of
        None \<Rightarrow> Inl (''invalid number: '' @ current_num)
      | Some n \<Rightarrow>
          (case component_secs n (char_at c cs) of
             Inl e \<Rightarrow> Inl e
           | Inr part \<Rightarrow> parse_units s cs [] (saturating_add total_secs part) True))"

definition parse_duration :: "string \<Rightarrow> string + nat" where
  "parse_duration text =
     (let s = trim text in
      if s = [] then Inl ''duration string is empty''
      else case parse_u64 s of
        Some n \<Rightarrow> if n = 0 then Inl ''duration must be greater than 0'' else Inr n
      | None \<Rightarrow> parse_units s s [] 0 False)"

text \<open>\<^verbatim>\<open>Serialize\<close> and \<^verbatim>\<open>Deserialize\<close>; the library's own \<^verbatim>\<open>invalid type\<close> error has no text of this crate.\<close>

datatype duration_error = CustomError string | InvalidType

definition duration_to_json :: "nat \<Rightarrow> json" where
  "duration_to_json secs = Number (PosInt secs)"

definition duration_of_json :: "json \<Rightarrow> duration_error + nat" where
  "duration_of_json v =
     (case v of
        Number (PosInt n) \<Rightarrow> if n = 0 then Inl (CustomError ''duration must be greater than 0'') else Inr n
      | Number (NegInt i) \<Rightarrow>
          if i \<le> 0 then Inl (CustomError ''duration must be greater than 0'') else Inr (nat (i mod 2 ^ 64))
      | String s \<Rightarrow> (case parse_duration s of Inl e \<Rightarrow> Inl (CustomError e) | Inr n \<Rightarrow> Inr n)
      | _ \<Rightarrow> Inl InvalidType)"

section \<open>Lemmas\<close>

lemma parse_units_digits:
  "list_all is_digit d \<Longrightarrow> parse_units s (d @ cs) num t any = parse_units s cs (num @ d) t any"
  by (induction d arbitrary: num) simp_all

lemma unit_not_digit [simp]: "\<not> is_digit (CHR ''h'')" "\<not> is_digit (CHR ''m'')" "\<not> is_digit (CHR ''s'')"
  by (simp_all add: is_digit_def byte_def)

lemma unit_char [simp]: "char_at (CHR ''h'') cs = ''h''" "char_at (CHR ''m'') cs = ''m''" "char_at (CHR ''s'') cs = ''s''"
  by (simp_all add: char_at_def len_utf8_def byte_def)

lemma parse_units_component:
  assumes "n < 2 ^ 64" "\<not> is_digit u" "component_secs n (char_at u cs) = Inr v"
  shows "parse_units s (show_nat n @ u # cs) [] t any = parse_units s cs [] (saturating_add t v) True"
  using assms by (simp add: parse_units_digits)

lemma component_simps:
  "n * 3600 \<le> u64_max \<Longrightarrow> component_secs n ''h'' = Inr (n * 3600)"
  "n * 60 \<le> u64_max \<Longrightarrow> component_secs n ''m'' = Inr (n * 60)"
  "component_secs n ''s'' = Inr n"
  by (simp_all add: component_secs_def checked_mul_def)

lemma saturating_add_exact: "a + b \<le> u64_max \<Longrightarrow> saturating_add a b = a + b"
  by (simp add: saturating_add_def)

lemma parse_part:
  assumes "k * f \<le> u64_max" "u = CHR ''h'' \<and> f = 3600 \<or> u = CHR ''m'' \<and> f = 60 \<or> u = CHR ''s'' \<and> f = 1"
    and "t + k * f \<le> u64_max"
  shows "parse_units s ((if k > 0 then show_nat k @ [u] else []) @ cs) [] t any =
    parse_units s cs [] (t + k * f) (any \<or> k > 0)"
proof (cases "k > 0")
  case True
  have "k \<le> u64_max" using assms(1,2) by auto
  then have k: "k < 2 ^ 64" by (simp add: u64_max_def)
  have "\<not> is_digit u" "component_secs k (char_at u cs) = Inr (k * f)" using assms(1,2) component_simps by auto
  from parse_units_component [OF k this] show ?thesis using True saturating_add_exact [OF assms(3)] by simp
qed simp

lemma parse_hms:
  assumes "h * 3600 + m * 60 + s \<le> u64_max" "0 < h * 3600 + m * 60 + s"
  shows "parse_units x ((if h > 0 then show_nat h @ [CHR ''h''] else []) @
      ((if m > 0 then show_nat m @ [CHR ''m''] else []) @ ((if s > 0 then show_nat s @ [CHR ''s''] else []) @ []))) [] 0 False =
    Inr (h * 3600 + m * 60 + s)"
proof -
  have b: "h * 3600 \<le> u64_max" "m * 60 \<le> u64_max" "s * 1 \<le> u64_max" "0 + h * 3600 \<le> u64_max"
    "0 + h * 3600 + m * 60 \<le> u64_max" "0 + h * 3600 + m * 60 + s * 1 \<le> u64_max" using assms(1) by linarith+
  have u: "CHR ''h'' = CHR ''h'' \<and> 3600 = (3600 :: nat) \<or> CHR ''h'' = CHR ''m'' \<and> 3600 = (60 :: nat) \<or> CHR ''h'' = CHR ''s'' \<and> 3600 = (1 :: nat)"
    "CHR ''m'' = CHR ''h'' \<and> 60 = (3600 :: nat) \<or> CHR ''m'' = CHR ''m'' \<and> 60 = (60 :: nat) \<or> CHR ''m'' = CHR ''s'' \<and> 60 = (1 :: nat)"
    "CHR ''s'' = CHR ''h'' \<and> 1 = (3600 :: nat) \<or> CHR ''s'' = CHR ''m'' \<and> 1 = (60 :: nat) \<or> CHR ''s'' = CHR ''s'' \<and> 1 = (1 :: nat)"
    by simp_all
  show ?thesis
    unfolding parse_part [OF b(1) u(1) b(4)] parse_part [OF b(2) u(2) b(5)] parse_part [OF b(3) u(3) b(6)]
    using assms(2) by auto
qed

lemma hours_minutes_seconds: "n = n div 3600 * 3600 + (n mod 3600) div 60 * 60 + n mod 60" for n :: nat
proof -
  have "n mod 3600 mod 60 = n mod 60" by (rule mod_mod_cancel) simp
  moreover have "n div 3600 * 3600 + n mod 3600 = n" by (rule div_mult_mod_eq)
  moreover have "n mod 3600 div 60 * 60 + n mod 3600 mod 60 = n mod 3600" by (rule div_mult_mod_eq)
  ultimately show ?thesis by linarith
qed

lemma display_ends:
  assumes "n > 0"
  shows "display_duration n \<noteq> [] \<and> is_digit (hd (display_duration n)) \<and> last (display_duration n) \<in> {CHR ''h'', CHR ''m'', CHR ''s''}"
proof -
  have hd: "is_digit (hd (show_nat k @ x))" for k x
    using show_nat_digits [of "hd (show_nat k)" k] by (simp add: hd_append)
  let ?h = "n div 3600" and ?m = "(n mod 3600) div 60" and ?s = "n mod 60"
  have "n = ?h * 3600 + ?m * 60 + ?s" by (rule hours_minutes_seconds)
  then show ?thesis using assms hd
    by (cases "?h > 0"; cases "?m > 0"; cases "?s > 0") (simp_all add: display_duration_def Let_def)
qed

lemma parse_u64_last: "s \<noteq> [] \<Longrightarrow> \<not> is_digit (last s) \<Longrightarrow> parse_u64 s = None"
proof (rule ccontr)
  assume a: "s \<noteq> []" "\<not> is_digit (last s)" "parse_u64 s \<noteq> None"
  obtain c cs where s: "s = c # cs" using a(1) by (cases s) auto
  then have "list_all is_digit (if c = CHR ''+'' then cs else s) \<and> (if c = CHR ''+'' then cs else s) \<noteq> []"
    using a(3) by (auto simp: parse_u64_def Let_def split: if_splits)
  then show False using a(2) s by (auto simp: list_all_iff split: if_splits)
qed

lemma parse_units_bounds: "parse_units s cs num t any = Inr k \<Longrightarrow> t \<le> u64_max \<Longrightarrow> 0 < k \<and> k \<le> u64_max"
  by (induction s cs num t any rule: parse_units.induct) (auto split: if_splits option.splits sum.splits)

text \<open>
  C37. Durations survive printing. Every positive 64-bit number of seconds reads back from its printed
  form, such as \<^verbatim>\<open>1h30m\<close>, and from its JSON form; and whatever text the parser accepts stands for a
  positive 64-bit number.
\<close>

theorem duration_roundtrip:
  assumes "0 < n" "n < 2 ^ 64"
  shows "parse_duration (display_duration n) = Inr n \<and> duration_of_json (duration_to_json n) = Inr n \<and>
    (parse_duration text = Inr k \<longrightarrow> 0 < k \<and> k < 2 ^ 64)"
proof (intro conjI impI)
  let ?h = "n div 3600" and ?m = "(n mod 3600) div 60" and ?s = "n mod 60"
  have n: "n = ?h * 3600 + ?m * 60 + ?s" by (rule hours_minutes_seconds)
  have mx: "n \<le> u64_max" using assms(2) by (simp add: u64_max_def)
  have sum: "?h * 3600 + ?m * 60 + ?s \<le> u64_max" "0 < ?h * 3600 + ?m * 60 + ?s" using n mx assms(1) by linarith+
  have pos: "?s > 0 \<or> (?h = 0 \<and> ?m = 0) \<longleftrightarrow> ?s > 0" using sum(2) by linarith
  have d: "display_duration n = (if ?h > 0 then show_nat ?h @ [CHR ''h''] else []) @
      ((if ?m > 0 then show_nat ?m @ [CHR ''m''] else []) @ ((if ?s > 0 then show_nat ?s @ [CHR ''s''] else []) @ []))"
    unfolding display_duration_def Let_def pos using assms(1) by (simp only: append_Nil2 if_False) simp
  have "parse_units x (display_duration n) [] 0 False = Inr n" for x
    unfolding d parse_hms [OF sum] by (simp only: n [symmetric])
  moreover note e = display_ends [OF assms(1)]
  have "trim (display_duration n) = display_duration n"
    using e digit_graphic by (intro trim_graphic) (auto simp: is_graphic_def byte_def)
  moreover have "parse_u64 (display_duration n) = None" using e by (intro parse_u64_last) auto
  ultimately show "parse_duration (display_duration n) = Inr n" using e by (simp add: parse_duration_def Let_def)
  show "duration_of_json (duration_to_json n) = Inr n" using assms(1) by (simp add: duration_to_json_def duration_of_json_def)
next
  assume "parse_duration text = Inr k"
  then have "0 < k \<and> k \<le> u64_max"
    using parse_units_bounds parse_u64_bound
    by (fastforce simp: parse_duration_def Let_def u64_max_def split: if_splits option.splits)
  then show "0 < k" "k < 2 ^ 64" by (simp_all add: u64_max_def)
qed

theorem duration_roundtrip_witness: "parse_duration ''1h30m'' = Inr 5400"
proof -
  have "display_duration 5400 = ''1h30m''" by code_simp
  then show ?thesis using duration_roundtrip [of 5400] by simp
qed

end
