(* ===== verification/Git_Ref.thy ===== *)
theory Git_Ref
  imports Template_Eval
begin

text \<open>
  Git references in workflow files (\<^verbatim>\<open>stroem-common/src/git_ref.rs\<close>): the syntax of a \<^verbatim>\<open>ref:\<close> value and the
  check of a rendered one.
\<close>

section \<open>Definitions\<close>

definition HEADS :: string where
  "HEADS = ''refs/heads/''"

definition TAGS :: string where
  "TAGS = ''refs/tags/''"

datatype git_ref_spec = Commit string | Branch string | Tag string | RefName string

datatype git_ref_error = EmptyRef | TemplatedRef string | InvalidRefName string

fun git_ref_error_text :: "git_ref_error \<Rightarrow> string" where
  "git_ref_error_text EmptyRef = ''`ref` must not be empty''"
| "git_ref_error_text (TemplatedRef r) =
     ''`ref` '' @ [CHR 0x27] @ r @ [CHR 0x27] @ '' is a template; refs are static strings''"
| "git_ref_error_text (InvalidRefName r) =
     [CHR 0x27] @ r @ [CHR 0x27] @ '' is not a valid git branch or tag name''"

definition is_hexdigit :: "char \<Rightarrow> bool" where
  "is_hexdigit c \<longleftrightarrow> is_digit c \<or> 65 \<le> byte c \<and> byte c \<le> 70 \<or> 97 \<le> byte c \<and> byte c \<le> 102"

definition forbidden :: "char \<Rightarrow> bool" where
  "forbidden c \<longleftrightarrow> byte c < 0x20 \<or> byte c = 0x7F \<or> c \<in> set '' ~^:?*['' \<or> byte c = 0x5C"

definition is_valid_refname :: "string \<Rightarrow> bool" where
  "is_valid_refname name \<longleftrightarrow>
     \<not> (name = [] \<or> name = ''@'') \<and>
     \<not> (prefix ''/'' name \<or> suffix ''/'' name \<or> suffix ''.'' name) \<and>
     \<not> (contains name ''..'' \<or> contains name ''//'' \<or> contains name [CHR ''@'', CHR 0x7B]) \<and>
     \<not> list_ex forbidden name \<and>
     list_all (\<lambda>c. \<not> prefix ''.'' c \<and> \<not> suffix ''.lock'' c) (split_on (CHR ''/'') name)"

definition checked :: "string \<Rightarrow> string \<Rightarrow> git_ref_error + string" where
  "checked name written = (if is_valid_refname name then Inr name else Inl (InvalidRefName written))"

definition is_template :: "string \<Rightarrow> bool" where
  "is_template s \<longleftrightarrow> contains s ''{{'' \<or> contains s ''{%''"

definition parse_git_ref :: "string \<Rightarrow> git_ref_error + git_ref_spec" where
  "parse_git_ref s =
     (if s = [] then Inl EmptyRef
      else if is_template s then Inl (TemplatedRef s)
      else if length s = 40 \<and> list_all is_hexdigit s then Inr (Commit (map ascii_lower s))
      else case strip_prefix HEADS s of
        Some name \<Rightarrow> map_sum (\<lambda>e. e) Branch (checked name s)
      | None \<Rightarrow>
          (case strip_prefix TAGS s of
             Some name \<Rightarrow> map_sum (\<lambda>e. e) Tag (checked name s)
           | None \<Rightarrow>
               if prefix ''refs/'' s then Inl (InvalidRefName s)
               else map_sum (\<lambda>e. e) RefName (checked s s)))"

definition short_sha_hint :: "string \<Rightarrow> string option" where
  "short_sha_hint s =
     (if 4 \<le> length s \<and> length s \<le> 39 \<and> list_all is_hexdigit s
      then Some ''short commit SHAs are not supported; use the full 40-character SHA'' else None)"

datatype ref_kind = StaticRef | TemplateRef

definition classify_ref :: "string \<Rightarrow> ref_kind" where
  "classify_ref s = (if is_template s then TemplateRef else StaticRef)"

definition rendered_ref_value :: "string \<Rightarrow> string option" where
  "rendered_ref_value rendered = (let v = trim rendered in if v \<noteq> [] then Some v else None)"

datatype rendered_ref_rejection = SecretValue | InvalidRef

definition check_rendered_ref :: "string \<Rightarrow> string list \<Rightarrow> rendered_ref_rejection + string" where
  "check_rendered_ref rendered secrets =
     (let v = trim rendered in
      if list_ex (\<lambda>s. s \<noteq> [] \<and> contains v s) secrets then Inl SecretValue
      else case parse_git_ref v of Inl _ \<Rightarrow> Inl InvalidRef | Inr _ \<Rightarrow> Inr v)"

section \<open>The written form of a reference\<close>

fun show_ref :: "git_ref_spec \<Rightarrow> string" where
  "show_ref (Commit sha) = sha"
| "show_ref (Branch name) = HEADS @ name"
| "show_ref (Tag name) = TAGS @ name"
| "show_ref (RefName name) = name"

lemma byte_char_of: "n < 256 \<Longrightarrow> byte (char_of n) = n"
  by (simp add: byte_def)

lemma hex_lower: "is_hexdigit c \<Longrightarrow> is_hexdigit (ascii_lower c)"
  by (auto simp: is_hexdigit_def ascii_lower_def is_digit_def byte_char_of)

lemma hex_char: "is_hexdigit c \<Longrightarrow> \<not> forbidden c \<and> c \<notin> set ''{/.''"
  by (auto simp: is_hexdigit_def forbidden_def is_digit_def byte_def)

lemma lower_idem: "is_hexdigit c \<Longrightarrow> ascii_lower (ascii_lower c) = ascii_lower c"
  by (auto simp: is_hexdigit_def ascii_lower_def is_digit_def byte_char_of)

lemma hex_not_template:
  assumes "list_all is_hexdigit s"
  shows "\<not> is_template s"
proof -
  have "CHR ''{'' \<notin> set s" using assms hex_char by (fastforce simp: list_all_iff)
  then show ?thesis by (auto simp: is_template_def contains_def sublist_def)
qed

lemma split_no_sep: "c \<notin> set s \<Longrightarrow> split_on c s = [s]"
  by (induction s) auto

lemma checked_Inr: "map_sum (\<lambda>e. e) f (checked name s) = Inr r \<Longrightarrow> is_valid_refname name \<and> r = f name"
  by (simp add: checked_def split: if_splits)

lemma parse_git_refE:
  assumes "parse_git_ref s = Inr r"
  obtains (commit) "length s = 40" "list_all is_hexdigit s" "r = Commit (map ascii_lower s)"
  | (named) pre name where "s = pre @ name" "pre \<in> {HEADS, TAGS, []}" "is_valid_refname name" "show_ref r = s"
proof (cases "length s = 40 \<and> list_all is_hexdigit s")
  case True
  with assms show ?thesis by (intro commit) (auto simp: parse_git_ref_def split: if_splits)
next
  case False
  show ?thesis
  proof (cases "strip_prefix HEADS s")
    case (Some name)
    with assms False have "is_valid_refname name \<and> r = Branch name"
      by (intro checked_Inr [of Branch name s]) (simp add: parse_git_ref_def split: if_splits)
    with Some show ?thesis by (intro named [of HEADS name]) (auto simp: strip_prefix_Some)
  next
    case none: None
    show ?thesis
    proof (cases "strip_prefix TAGS s")
      case (Some name)
      with none assms False have "is_valid_refname name \<and> r = Tag name"
        by (intro checked_Inr [of Tag name s]) (simp add: parse_git_ref_def split: if_splits)
      with Some show ?thesis by (intro named [of TAGS name]) (auto simp: strip_prefix_Some)
    next
      case None
      with none assms False have "is_valid_refname s \<and> r = RefName s"
        by (intro checked_Inr [of RefName s s]) (simp add: parse_git_ref_def split: if_splits)
      then show ?thesis by (intro named [of "[]" s]) auto
    qed
  qed
qed

text \<open>No component of an accepted reference starts with a dot, so none leads out of a directory.\<close>

definition harmless_path :: "string \<Rightarrow> bool" where
  "harmless_path s \<longleftrightarrow> list_all (\<lambda>c. \<not> prefix ''.'' c) (split_on (CHR ''/'') s) \<and> \<not> list_ex forbidden s"

lemma refname_harmless:
  assumes "is_valid_refname name" "pre \<in> {HEADS, TAGS, []}"
  shows "harmless_path (pre @ name)"
proof -
  have "split_on (CHR ''/'') (HEADS @ name) = ''refs'' # ''heads'' # split_on (CHR ''/'') name"
    "split_on (CHR ''/'') (TAGS @ name) = ''refs'' # ''tags'' # split_on (CHR ''/'') name"
    by (simp_all add: HEADS_def TAGS_def)
  moreover have "\<not> list_ex forbidden HEADS" "\<not> list_ex forbidden TAGS"
    by (simp_all add: HEADS_def TAGS_def forbidden_def byte_def)
  moreover have "list_all (\<lambda>c. \<not> prefix ''.'' c) (split_on (CHR ''/'') name)" "\<not> list_ex forbidden name"
    using assms(1) by (auto simp: is_valid_refname_def list_all_iff)
  ultimately show ?thesis using assms(2) by (auto simp: harmless_path_def)
qed

lemma hex_harmless:
  assumes "list_all is_hexdigit s"
  shows "harmless_path s"
proof -
  have c: "\<not> forbidden c \<and> c \<notin> set ''{/.''" if "c \<in> set s" for c using assms hex_char that by (auto simp: list_all_iff)
  then have "split_on (CHR ''/'') s = [s]" by (intro split_no_sep) auto
  moreover have "\<not> prefix ''.'' s" using c by (cases s) auto
  ultimately show ?thesis using c by (auto simp: harmless_path_def list_ex_iff)
qed

text \<open>
  A reference that comes out of a template is used only if it is safe to use. The accepted value is
  the rendered one without surrounding white space; it is not empty, contains no secret, holds no
  character git forbids and no path component that starts with a dot; and it denotes a reference
  whose written form denotes the same reference again.
\<close>

theorem rendered_ref_safe:
  assumes "check_rendered_ref rendered secrets = Inr v"
  shows "v = trim rendered \<and> v \<noteq> [] \<and> \<not> list_ex (\<lambda>s. s \<noteq> [] \<and> contains v s) secrets \<and> harmless_path v \<and>
    (\<exists>r. parse_git_ref v = Inr r \<and> parse_git_ref (show_ref r) = Inr r)"
proof -
  obtain r where v: "v = trim rendered" "\<not> list_ex (\<lambda>s. s \<noteq> [] \<and> contains v s) secrets" and r: "parse_git_ref v = Inr r"
    using assms by (auto simp: check_rendered_ref_def Let_def split: if_splits sum.splits)
  have ne: "v \<noteq> []" using r by (auto simp: parse_git_ref_def)
  from r have "harmless_path v \<and> parse_git_ref (show_ref r) = Inr r"
  proof (cases rule: parse_git_refE)
    case commit
    have low: "list_all is_hexdigit (map ascii_lower v)" using commit(2) hex_lower by (simp add: list_all_iff)
    have "map ascii_lower (map ascii_lower v) = map ascii_lower v" using commit(2) lower_idem by (simp add: list_all_iff)
    then have "parse_git_ref (show_ref r) = Inr r"
      using commit ne low hex_not_template [OF low] by (simp add: parse_git_ref_def)
    with hex_harmless [OF commit(2)] show ?thesis by simp
  next
    case (named pre name)
    then show ?thesis using refname_harmless [OF named(3,2)] r by simp
  qed
  with v ne r show ?thesis by blast
qed

theorem rendered_ref_safe_witness:
  "check_rendered_ref '' release/v1 '' [''hunter2''] = Inr ''release/v1'' \<and> harmless_path ''release/v1''"
proof -
  have "check_rendered_ref '' release/v1 '' [''hunter2''] = Inr ''release/v1''" by code_simp
  with rendered_ref_safe [OF this] show ?thesis by blast
qed

end
