(* ===== verification/Retry.thy ===== *)
theory Retry
  imports Step_Store Workflow_Model
begin

text \<open>
  Retries (\<^verbatim>\<open>stroem-server/src/settlement/retry.rs\<close>): the backoff of a step, the log lines, and what a
  retry of a whole job is created with. The creation itself goes through the job creator and is not
  part of this theory. Arithmetic on \<^verbatim>\<open>i32\<close> wraps, as in a release build.
\<close>

section \<open>Definitions\<close>

definition wrap_i32 :: "int \<Rightarrow> int" where
  "wrap_i32 i = (i + 2 ^ 31) mod 2 ^ 32 - 2 ^ 31"

definition step_retry_message :: "string \<Rightarrow> int \<Rightarrow> int \<Rightarrow> nat \<Rightarrow> string" where
  "step_retry_message step_name retry_attempt max_retries delay_secs =
     ''[retry] Step '' @ [CHR 0x27] @ step_name @ [CHR 0x27] @ '' attempt '' @
     show_int (wrap_i32 (retry_attempt + 1)) @ ''/'' @ show_int (wrap_i32 (max_retries + 1)) @
     '' failed, retrying in '' @ show_nat delay_secs @ ''s''"

definition step_retries_exhausted_message :: "string \<Rightarrow> int \<Rightarrow> int \<Rightarrow> string" where
  "step_retries_exhausted_message step_name retry_attempt max_retries =
     ''[retry] Step '' @ [CHR 0x27] @ step_name @ [CHR 0x27] @ '' retries exhausted ('' @
     show_int (wrap_i32 (retry_attempt + 1)) @ ''/'' @ show_int (wrap_i32 (max_retries + 1)) @ '')''"

fun retry_log_line :: "string \<Rightarrow> fail_outcome \<Rightarrow> string option" where
  "retry_log_line step_name (FRetryScheduled attempt mx delay_secs) =
     Some (step_retry_message step_name (wrap_i32 (attempt - 1)) mx delay_secs)"
| "retry_log_line step_name (FFailed attempt (Some mx)) = Some (step_retries_exhausted_message step_name attempt mx)"
| "retry_log_line step_name (FFailed _ None) = None"
| "retry_log_line step_name FNotApplied = None"

definition task_retry_message :: "(uuid \<Rightarrow> string) \<Rightarrow> int \<Rightarrow> int \<Rightarrow> uuid \<Rightarrow> nat \<Rightarrow> string" where
  "task_retry_message show_uuid retry_attempt max_retries retry_job_id delay_secs =
     ''[retry] Task attempt '' @ show_int (wrap_i32 (retry_attempt + 1)) @ ''/'' @
     show_int (wrap_i32 (max_retries + 1)) @ '' failed, retrying as job '' @ show_uuid retry_job_id @
     '' (in '' @ show_nat delay_secs @ ''s)''"

text \<open>\<open>rnd\<close> is the random \<^verbatim>\<open>u64\<close> of the jitter.\<close>

definition compute_retry_delay :: "nat \<Rightarrow> job_step_row \<Rightarrow> nat" where
  "compute_retry_delay rnd step =
     (let base_secs = i32_as_u64 (case js_retry_backoff_secs step of Some b \<Rightarrow> b | None \<Rightarrow> 30);
          strategy = (case js_retry_strategy step of Some s \<Rightarrow> s | None \<Rightarrow> ''fixed'');
          attempt = nat (max (js_retry_attempt step) 0);
          delay = (if strategy = ''exponential'' then saturating_mul base_secs (2 ^ min attempt 6) else base_secs)
      in if js_retry_jitter step
         then let jitter_max = delay div 4 + 1; jitter = rnd mod jitter_max in saturating_add delay jitter
         else delay)"

text \<open>
  What a retry job is created with: the fields of \<^verbatim>\<open>CreationMode::Retry\<close>, the delay, the input, the
  source columns, the revision, and the ref when the failed job is pinned.
\<close>

record retry_request =
  rq_failed :: uuid
  rq_root :: uuid
  rq_attempt :: int
  rq_delay :: nat
  rq_input :: json
  rq_source_type :: string
  rq_source_id :: string
  rq_revision :: "string option"
  rq_git_ref :: "string option"

definition task_retry_delay :: "task_def \<Rightarrow> int \<Rightarrow> nat" where
  "task_retry_delay task retry_attempt =
     (case td_retry task of
        None \<Rightarrow> 30
      | Some retry \<Rightarrow>
          (case rc_backoff retry of
             Exponential \<Rightarrow> saturating_mul (rc_delay retry) (2 ^ min (nat (max retry_attempt 0)) 6)
           | Fixed \<Rightarrow> rc_delay retry))"

definition retry_request_of :: "(uuid \<Rightarrow> string) \<Rightarrow> task_def \<Rightarrow> job_row \<Rightarrow> string + retry_request option" where
  "retry_request_of show_uuid task failed_job =
     (case j_max_retries failed_job of
        None \<Rightarrow> Inr None
      | Some mx \<Rightarrow>
          if j_retry_attempt failed_job \<ge> mx then Inr None
          else let root = (case j_retry_of_job_id failed_job of Some r \<Rightarrow> r | None \<Rightarrow> j_job_id failed_job);
                   req = \<lparr>rq_failed = j_job_id failed_job, rq_root = root,
                     rq_attempt = wrap_i32 (j_retry_attempt failed_job + 1),
                     rq_delay = task_retry_delay task (j_retry_attempt failed_job),
                     rq_input = (case j_input failed_job of Some v \<Rightarrow> v | None \<Rightarrow> Null),
                     rq_source_type = ''retry'', rq_source_id = show_uuid (j_job_id failed_job),
                     rq_revision = j_revision failed_job, rq_git_ref = j_git_ref failed_job\<rparr>
               in case (j_git_ref failed_job, j_revision failed_job) of
                 (Some git_ref, None) \<Rightarrow>
                   Inl (''Failed to create retry job: job '' @ show_uuid (j_job_id failed_job) @ '' carries ref '' @
                     [CHR 0x27] @ git_ref @ [CHR 0x27] @ '' without its commit'')
               | _ \<Rightarrow> Inr (Some req))"

definition delay_ready_steps :: "time \<Rightarrow> nat \<Rightarrow> uuid \<Rightarrow> db \<Rightarrow> db" where
  "delay_ready_steps utc_now delay_secs retry_job_id d =
     (if delay_secs > 0
      then fst (update_steps (\<lambda>r. js_job_id r = retry_job_id \<and> js_status r = ''ready'')
             (\<lambda>r. r\<lparr>js_retry_at := Some (utc_now + seconds (int delay_secs))\<rparr>) d)
      else d)"

section \<open>Lemmas\<close>

lemma wrap_i32_id: "- (2 ^ 31) \<le> i \<Longrightarrow> i < 2 ^ 31 \<Longrightarrow> wrap_i32 i = i"
  by (simp add: wrap_i32_def)

definition backoff_factor :: "job_step_row \<Rightarrow> nat" where
  "backoff_factor step =
     (if js_retry_strategy step = Some ''exponential'' then 2 ^ min (nat (max (js_retry_attempt step) 0)) 6 else 1)"

definition base_delay :: "job_step_row \<Rightarrow> nat" where
  "base_delay step = (case js_retry_backoff_secs step of Some b \<Rightarrow> nat b | None \<Rightarrow> 30)"

lemma factor_le: "backoff_factor step \<le> 64"
proof -
  have "(2 :: nat) ^ min a 6 \<le> 2 ^ 6" for a by (rule power_increasing) simp_all
  then show ?thesis by (simp add: backoff_factor_def)
qed

text \<open>
  The backoff of a step is what its configuration says. For a configured delay of 0 or more
  seconds (30 if none is given) the wait before the next attempt is that delay, doubled once for
  every attempt so far but at most six times when the strategy is exponential, plus at most a
  quarter of it when jitter is on; it never wraps around.
\<close>

theorem retry_delay_bounds:
  assumes "case js_retry_backoff_secs step of Some b \<Rightarrow> 0 \<le> b \<and> b < 2 ^ 31 | None \<Rightarrow> True"
  shows "base_delay step * backoff_factor step \<le> compute_retry_delay rnd step \<and>
    compute_retry_delay rnd step \<le> base_delay step * backoff_factor step +
      (if js_retry_jitter step then base_delay step * backoff_factor step div 4 else 0)"
proof -
  let ?b = "base_delay step" and ?f = "backoff_factor step"
  have base: "i32_as_u64 (case js_retry_backoff_secs step of Some b \<Rightarrow> b | None \<Rightarrow> 30) = ?b" and "?b < 2 ^ 31"
    using assms by (auto simp: base_delay_def i32_as_u64_def split: option.splits)
  then have small: "?b * ?f \<le> 2 ^ 31 * 64" using factor_le [of step] by (intro mult_le_mono) simp_all
  have delay: "(if (case js_retry_strategy step of Some s \<Rightarrow> s | None \<Rightarrow> ''fixed'') = ''exponential''
      then saturating_mul ?b (2 ^ min (nat (max (js_retry_attempt step) 0)) 6) else ?b) = ?b * ?f"
    using small by (auto simp: backoff_factor_def saturating_mul_def u64_max_def split: option.splits)
  have "compute_retry_delay rnd step =
      (if js_retry_jitter step then saturating_add (?b * ?f) (rnd mod (?b * ?f div 4 + 1)) else ?b * ?f)"
    unfolding compute_retry_delay_def Let_def base delay ..
  moreover have "rnd mod (?b * ?f div 4 + 1) \<le> ?b * ?f div 4"
    using mod_less_divisor [of "?b * ?f div 4 + 1" rnd] by linarith
  moreover have "saturating_add (?b * ?f) j = ?b * ?f + j" if "j \<le> ?b * ?f div 4" for j
    using that small by (simp add: saturating_add_def u64_max_def)
  ultimately show ?thesis by simp
qed

theorem retry_delay_bounds_witness:
  "compute_retry_delay 7 ((test_default 1 ''a'')\<lparr>js_retry_backoff_secs := Some 10, js_retry_attempt := 9,
     js_retry_strategy := Some ''exponential''\<rparr>) = 640"
  using retry_delay_bounds [of "(test_default 1 ''a'')\<lparr>js_retry_backoff_secs := Some 10, js_retry_attempt := 9,
     js_retry_strategy := Some ''exponential''\<rparr>" 7]
  by (simp add: base_delay_def backoff_factor_def test_default_def)

section \<open>Chains of retried jobs\<close>

text \<open>
  The row of the retry job, as far as the next retry looks at it: the job creator takes
  \<^verbatim>\<open>max_retries\<close> from the task again, and \<^verbatim>\<open>link_retry_tx\<close> writes the lineage columns.
\<close>

definition max_retries_of :: "task_def \<Rightarrow> int option" where
  "max_retries_of task = map_option (\<lambda>r. int (rc_max_attempts r) - 1) (td_retry task)"

definition retried_row :: "task_def \<Rightarrow> uuid \<Rightarrow> retry_request \<Rightarrow> job_row \<Rightarrow> job_row" where
  "retried_row task new_id req failed_job =
     failed_job\<lparr>j_job_id := new_id, j_source_type := rq_source_type req, j_source_id := Some (rq_source_id req),
       j_revision := rq_revision req, j_git_ref := rq_git_ref req,
       j_max_retries := max_retries_of task, j_retry_of_job_id := Some (rq_root req),
       j_retry_attempt := rq_attempt req\<rparr>"

fun retry_chain :: "(uuid \<Rightarrow> string) \<Rightarrow> task_def \<Rightarrow> uuid list \<Rightarrow> job_row \<Rightarrow> retry_request list" where
  "retry_chain show_uuid task [] job = []"
| "retry_chain show_uuid task (new_id # ids) job =
     (case retry_request_of show_uuid task job of
        Inr (Some req) \<Rightarrow> req # retry_chain show_uuid task ids (retried_row task new_id req job)
      | _ \<Rightarrow> [])"

lemma retry_request_None:
  "j_max_retries job = Some mx \<Longrightarrow> j_retry_attempt job \<ge> mx \<Longrightarrow> retry_request_of show_uuid task job = Inr None"
  by (simp add: retry_request_of_def)

lemma retry_request_Some:
  assumes "j_max_retries job = Some mx" "j_retry_attempt job < mx" "0 \<le> j_retry_attempt job" "mx < 2 ^ 31"
    and "j_git_ref job = None \<or> j_revision job \<noteq> None"
  obtains req where "retry_request_of show_uuid task job = Inr (Some req)" "rq_attempt req = j_retry_attempt job + 1"
    "rq_root req = (case j_retry_of_job_id job of Some r \<Rightarrow> r | None \<Rightarrow> j_job_id job)"
    "rq_revision req = j_revision job" "rq_git_ref req = j_git_ref job"
  using assms wrap_i32_id [of "j_retry_attempt job + 1"]
  by (cases "j_git_ref job"; cases "j_revision job") (auto simp: retry_request_of_def Let_def)

lemma retry_chain_from:
  assumes "j_max_retries job = Some mx" "0 \<le> j_retry_attempt job" "mx < 2 ^ 31"
    and "j_git_ref job = None \<or> j_revision job \<noteq> None" "max_retries_of task = Some mx" "j_retry_of_job_id job = Some root \<or> j_job_id job = root \<and> j_retry_of_job_id job = None"
    and "int (length ids) \<ge> mx - j_retry_attempt job"
  shows "map rq_attempt (retry_chain show_uuid task ids job) = [j_retry_attempt job + 1..mx] \<and>
    list_all (\<lambda>req. rq_root req = root) (retry_chain show_uuid task ids job)"
  using assms
proof (induction ids arbitrary: job)
  case Nil
  then show ?case by simp
next
  case (Cons new_id ids)
  show ?case
  proof (cases "j_retry_attempt job < mx")
    case True
    obtain req where req: "retry_request_of show_uuid task job = Inr (Some req)" "rq_attempt req = j_retry_attempt job + 1"
        "rq_root req = root" "rq_revision req = j_revision job" "rq_git_ref req = j_git_ref job"
      using retry_request_Some [OF Cons.prems(1) True Cons.prems(2-4), of show_uuid task] Cons.prems(6) by (metis option.simps(4,5))
    let ?job = "retried_row task new_id req job"
    have "map rq_attempt (retry_chain show_uuid task ids ?job) = [j_retry_attempt ?job + 1..mx] \<and>
        list_all (\<lambda>req. rq_root req = root) (retry_chain show_uuid task ids ?job)"
      using Cons.prems req by (intro Cons.IH) (simp_all add: retried_row_def)
    moreover have "[j_retry_attempt job + 1..mx] = (j_retry_attempt job + 1) # [j_retry_attempt job + 1 + 1..mx]"
      using True by (intro upto_rec1) simp
    ultimately show ?thesis using req by (simp add: retried_row_def)
  next
    case False
    then show ?thesis using retry_request_None [OF Cons.prems(1)] by simp
  qed
qed

text \<open>
  A failing job is retried exactly as often as configured. If a new job with \<open>mx\<close> retries and
  every retry of it fail, the retries carry the attempt numbers 1 to \<open>mx\<close> and all name the first
  job as the root of their chain; after the last one no retry is created.
\<close>

theorem job_retry_chain:
  assumes "td_retry task = Some rc" "rc_max_attempts rc \<ge> 1" "mx = int (rc_max_attempts rc) - 1"
    and "j_max_retries job = Some mx" "mx < 2 ^ 31" "j_retry_attempt job = 0" "j_retry_of_job_id job = None"
    and "j_git_ref job = None \<or> j_revision job \<noteq> None" "length ids > nat mx"
  shows "map rq_attempt (retry_chain show_uuid task ids job) = [1..mx] \<and>
    list_all (\<lambda>req. rq_root req = j_job_id job) (retry_chain show_uuid task ids job)"
  using retry_chain_from [of job mx task "j_job_id job" ids show_uuid] assms by (simp add: max_retries_of_def)

definition thrice :: task_def where
  "thrice = (plain_task [])\<lparr>td_retry := Some \<lparr>rc_max_attempts = 3, rc_delay = 30, rc_backoff = Fixed, rc_jitter = False\<rparr>\<rparr>"

theorem job_retry_chain_witness:
  "map rq_attempt (retry_chain show_nat thrice [2, 3, 4] ((test_default_job 1 0)\<lparr>j_max_retries := Some 2\<rparr>)) = [1, 2]"
proof -
  have "map rq_attempt (retry_chain show_nat thrice [2, 3, 4] ((test_default_job 1 0)\<lparr>j_max_retries := Some 2\<rparr>)) = [1..2]"
    using job_retry_chain [of thrice _ 2 "(test_default_job 1 0)\<lparr>j_max_retries := Some 2\<rparr>" "[2, 3, 4]" show_nat]
    by (simp add: thrice_def test_default_job_def)
  then show ?thesis by (simp add: upto_rec1)
qed

end
