(* ===== verification/Terminal.thy ===== *)
theory Terminal
  imports Job_Store Retry "HOL-Library.Sublist"
begin

text \<open>
  Terminal handling (\<^verbatim>\<open>stroem-server/src/settlement/terminal.rs\<close>, the last block of
  \<^verbatim>\<open>Settlement::advance\<close> and \<^verbatim>\<open>propagate.rs\<close>): the drain gate, the one-shot claim, the plan of the side
  effects a settled job gets, and their order. Side effects outside the database (hooks, waiters of
  webhooks, log archive, the counter, log lines) are recorded as \<open>effect\<close>s. The second half lets any
  number of advances of any jobs, on any replicas, interleave with the other writers.
\<close>

section \<open>Definitions\<close>

subsection \<open>The plan\<close>

datatype hook_event = HookSuccess | HookError | HookCancel | HookNone

record terminal_plan =
  tp_propagate :: bool
  tp_retry :: bool
  tp_hooks :: hook_event

definition hook_kind :: "string \<Rightarrow> hook_event" where
  "hook_kind status =
     (case parse_job_status status of
        Inr JCompleted \<Rightarrow> HookSuccess
      | Inr JFailed \<Rightarrow> HookError
      | Inr JCancelled \<Rightarrow> HookCancel
      | _ \<Rightarrow> HookNone)"

definition terminal_plan_of :: "job_row \<Rightarrow> terminal_plan" where
  "terminal_plan_of job =
     (let status = parse_job_status (j_status job);
          retry = (status = Inr JFailed \<and> j_parent_job_id job = None \<and>
            (case j_max_retries job of None \<Rightarrow> False | Some mx \<Rightarrow> j_retry_attempt job < mx))
      in \<lparr>tp_propagate = (j_parent_job_id job \<noteq> None \<and> j_parent_step_name job \<noteq> None),
          tp_retry = retry, tp_hooks = (if retry then HookNone else hook_kind (j_status job))\<rparr>)"

subsection \<open>Agent conversations\<close>

record pending_tool_call =
  tc_tool_call_id :: string
  tc_tool_name :: string
  tc_child_job_id :: uuid

record conversation =
  cv_messages :: "json list"
  cv_turn :: nat
  cv_total_input_tokens :: nat
  cv_total_output_tokens :: nat
  cv_pending_tool_calls :: "pending_tool_call list"
  cv_suspended_for_ask_user :: bool
  cv_ask_user_call :: "(string \<times> string) option"
  cv_resolved_tool_results :: "(string \<times> string) list"

definition all_tool_calls_resolved :: "conversation \<Rightarrow> bool" where
  "all_tool_calls_resolved cv \<longleftrightarrow> cv_pending_tool_calls cv = []"

fun remove_call :: "uuid \<Rightarrow> pending_tool_call list \<Rightarrow> pending_tool_call option \<times> pending_tool_call list" where
  "remove_call child [] = (None, [])"
| "remove_call child (tc # tcs) =
     (if tc_child_job_id tc = child then (Some tc, tcs)
      else let (found, rest) = remove_call child tcs in (found, tc # rest))"

definition resolve_tool_call :: "uuid \<Rightarrow> conversation \<Rightarrow> pending_tool_call option \<times> conversation" where
  "resolve_tool_call child cv =
     (let (found, rest) = remove_call child (cv_pending_tool_calls cv)
      in (found, cv\<lparr>cv_pending_tool_calls := rest\<rparr>))"

text \<open>
  What the code takes from outside: the collation of the database, the printer of ids and their parser (\<^verbatim>\<open>uuid\<close>), the JSON printer,
  and the derived reader and writer of conversations (\<^verbatim>\<open>serde_json\<close>).
\<close>

record codecs =
  cd_collate :: "string \<Rightarrow> nat list"
  cd_show_uuid :: "uuid \<Rightarrow> string"
  cd_parse_uuid :: "string \<Rightarrow> uuid option"
  cd_to_string :: "json \<Rightarrow> string"
  cd_from_value :: "json \<Rightarrow> conversation option"
  cd_to_value :: "conversation \<Rightarrow> json"

subsection \<open>Propagation to the parent step\<close>

definition release_agent_step :: "time \<Rightarrow> uuid \<Rightarrow> string \<Rightarrow> db \<Rightarrow> db" where
  "release_agent_step now job_id step_name d =
     fst (update_steps (\<lambda>r. at_step job_id step_name r \<and> js_status r = ''running'')
       (\<lambda>r. r\<lparr>js_status := ''ready'', js_ready_at := Some now, js_worker_id := None\<rparr>) d)"

definition tool_result_text :: "codecs \<Rightarrow> job_row \<Rightarrow> string" where
  "tool_result_text cd child =
     (if j_status child = ''completed''
      then (case j_output child of Some out \<Rightarrow> cd_to_string cd out | None \<Rightarrow> ''Task completed successfully'')
      else ''Task failed: '' @ j_status child)"

definition deliver_tool_result :: "codecs \<Rightarrow> job_row \<Rightarrow> conversation \<Rightarrow> conversation" where
  "deliver_tool_result cd child cv =
     (case resolve_tool_call (j_job_id child) cv of
        (None, cv') \<Rightarrow> cv'
      | (Some tc, cv') \<Rightarrow>
          cv'\<lparr>cv_resolved_tool_results := cv_resolved_tool_results cv' @ [(tc_tool_call_id tc, tool_result_text cd child)]\<rparr>)"

text \<open>The ordinary case marks the parent step with the status of the child.\<close>

definition mark_parent :: "codecs \<Rightarrow> time \<Rightarrow> job_row \<Rightarrow> uuid \<Rightarrow> string \<Rightarrow> db \<Rightarrow> db" where
  "mark_parent cd now child parent_job_id parent_step d =
     (if j_status child = ''completed'' then mark_completed now parent_job_id parent_step (j_output child) d
      else if j_status child = ''cancelled'' then mark_cancelled now parent_job_id parent_step d
      else mark_failed now parent_job_id parent_step
             (''Child job '' @ cd_show_uuid cd (j_job_id child) @ '' failed'') d)"

text \<open>The flag says whether the parent is advanced next.\<close>

definition propagate :: "codecs \<Rightarrow> time \<Rightarrow> job_row \<Rightarrow> uuid \<Rightarrow> string \<Rightarrow> db \<Rightarrow> db \<times> bool" where
  "propagate cd now child parent_job_id parent_step d =
     (let ordinary = (mark_parent cd now child parent_job_id parent_step d, True) in
      if j_source_type child = ''agent_tool'' then
        (case find (\<lambda>s. js_step_name s = parent_step) (get_steps_for_job (cd_collate cd) parent_job_id d) of
           None \<Rightarrow> ordinary
         | Some row \<Rightarrow>
             (case js_agent_state row of
                None \<Rightarrow> (d, False)
              | Some v \<Rightarrow>
                  (case cd_from_value cd v of
                     None \<Rightarrow> ordinary
                   | Some cv \<Rightarrow>
                       if \<not> list_ex (\<lambda>tc. tc_child_job_id tc = j_job_id child) (cv_pending_tool_calls cv)
                       then (d, False)
                       else let cv' = deliver_tool_result cd child cv;
                                d' = update_agent_state parent_job_id parent_step (cd_to_value cd cv') d
                            in (if all_tool_calls_resolved cv' then release_agent_step now parent_job_id parent_step d'
                                else d', False))))
      else ordinary)"

subsection \<open>The world and its effects\<close>

text \<open>\<open>HooksFired\<close> is a call of \<^verbatim>\<open>fire_hooks_of_kind\<close>, which does nothing for \<^term>\<open>HookNone\<close>.\<close>

datatype effect =
    CountCompleted uuid string
  | Propagated job_row uuid string
  | RetryCreated uuid uuid
  | HooksFired uuid hook_event
  | WaitersNotified uuid string "json option"
  | LogClosed uuid
  | ArchiveUploaded uuid string string time
  | ServerLog uuid string

text \<open>
  \<open>w_recorded\<close> is the column \<^verbatim>\<open>metrics_recorded_at\<close> of \<^verbatim>\<open>job\<close>, which no \<^verbatim>\<open>JobRow\<close> carries;
  \<open>w_cancelled\<close> is the set \<^verbatim>\<open>cancelled_jobs\<close>.
\<close>

record world =
  w_db :: db
  w_recorded :: "uuid \<Rightarrow> time option"
  w_cancelled :: "uuid list"
  w_effects :: "effect list"

definition emit :: "effect \<Rightarrow> world \<Rightarrow> world" where
  "emit e w = w\<lparr>w_effects := w_effects w @ [e]\<rparr>"

subsection \<open>Drain gate and claim\<close>

text \<open>\<open>query_error\<close> is the error of the query, if it fails: the gate then opens, the claim fails.\<close>

definition drained :: "string option \<Rightarrow> uuid \<Rightarrow> db \<Rightarrow> bool" where
  "drained query_error job_id d =
     (case query_error of None \<Rightarrow> \<not> has_live_steps job_id d | Some _ \<Rightarrow> True)"

definition clear_cancelled_in :: "uuid \<Rightarrow> world \<Rightarrow> world" where
  "clear_cancelled_in job_id w = w\<lparr>w_cancelled := filter (\<lambda>i. i \<noteq> job_id) (w_cancelled w)\<rparr>"

definition claim :: "string option \<Rightarrow> time \<Rightarrow> job_row \<Rightarrow> world \<Rightarrow> world \<times> bool" where
  "claim query_error now job w =
     (case query_error of
        Some e \<Rightarrow>
          (emit (ServerLog (j_job_id job) (''[orchestration] terminal handling claim failed: '' @ e @ '' '' @
             bytes [0xE2, 0x80, 0x94] @ '' hooks/archive/propagation NOT run for this job'')) w, False)
      | None \<Rightarrow>
          if list_ex (\<lambda>j. j_job_id j = j_job_id job) (jobs (w_db w)) \<and> w_recorded w (j_job_id job) = None
          then (emit (CountCompleted (j_job_id job) (j_status job))
                  (w\<lparr>w_recorded := (w_recorded w)(j_job_id job \<mapsto> now)\<rparr>), True)
          else (w, False))"

subsection \<open>The side effects of a settled job\<close>

fun extract_first_failure :: "job_step_row list \<Rightarrow> string" where
  "extract_first_failure [] = ''unknown error''"
| "extract_first_failure (s # ss) =
     (if js_status s = ''failed''
      then (case js_error_message s of Some msg \<Rightarrow> msg | None \<Rightarrow> extract_first_failure ss)
      else extract_first_failure ss)"

text \<open>
  What one advance meets on its way: whether the parent could be marked, the task if workspace and
  task resolve, what the job creator answers to a retry, whether its steps could be delayed, and the rows read for a failed hook.
\<close>

record encounters =
  en_propagate_error :: "string option"
  en_task :: "task_def option"
  en_create :: "retry_request \<Rightarrow> string + uuid"
  en_delay_error :: "string option"
  en_hook_steps :: "job_step_row list option"

definition get_hook_error_summary :: "job_step_row list option \<Rightarrow> string" where
  "get_hook_error_summary rows = (case rows of Some ss \<Rightarrow> extract_first_failure ss | None \<Rightarrow> ''unknown error'')"

definition hook_failure_log :: "codecs \<Rightarrow> encounters \<Rightarrow> job_row \<Rightarrow> effect list" where
  "hook_failure_log cd en job =
     (if j_source_type job = source_type_str Hook \<and> j_status job = ''failed'' then
        (case j_source_id job of
           None \<Rightarrow> []
         | Some source_id \<Rightarrow>
             (case cd_parse_uuid cd (hd (split_on (CHR ''/'') source_id)) of
                None \<Rightarrow> []
              | Some original \<Rightarrow>
                  [ServerLog original (''[hooks] Hook '' @ [CHR 0x27] @ j_task_name job @ [CHR 0x27] @ '' failed: '' @
                     get_hook_error_summary (en_hook_steps en))]))
      else [])"

definition archive_effects :: "job_row \<Rightarrow> effect list" where
  "archive_effects job =
     [LogClosed (j_job_id job), ArchiveUploaded (j_job_id job) (j_workspace job) (j_task_name job) (j_created_at job)]"

definition run_terminal_actions :: "codecs \<Rightarrow> encounters \<Rightarrow> job_row \<Rightarrow> hook_event \<Rightarrow> effect list" where
  "run_terminal_actions cd en job kind =
     [HooksFired (j_job_id job) kind] @ hook_failure_log cd en job @
     [WaitersNotified (j_job_id job) (j_status job) (j_output job)] @ archive_effects job"

text \<open>
  The rows of the retry job are written by the job creator. When delaying its steps fails, the retry
  job exists and the error is returned.
\<close>

definition create_retry_job ::
  "codecs \<Rightarrow> encounters \<Rightarrow> task_def \<Rightarrow> job_row \<Rightarrow> effect list \<times> (string + uuid option)" where
  "create_retry_job cd en task job =
     (case retry_request_of (cd_show_uuid cd) task job of
        Inl e \<Rightarrow> ([], Inl e)
      | Inr None \<Rightarrow> ([], Inr None)
      | Inr (Some req) \<Rightarrow>
          (case en_create en req of
             Inl e \<Rightarrow> ([], Inl (''Failed to create retry job: '' @ e))
           | Inr new_id \<Rightarrow>
               (case (rq_delay req > 0, en_delay_error en) of
                  (True, Some e) \<Rightarrow>
                    ([RetryCreated (j_job_id job) new_id],
                     Inl (''Failed to set retry_at on retry job steps: '' @ e))
                | _ \<Rightarrow>
                    ([RetryCreated (j_job_id job) new_id,
                      ServerLog (j_job_id job) (task_retry_message (cd_show_uuid cd) (j_retry_attempt job)
                        (case j_max_retries job of Some mx \<Rightarrow> mx | None \<Rightarrow> 0) new_id (rq_delay req))],
                     Inr (Some new_id)))))"

definition propagate_effects :: "codecs \<Rightarrow> encounters \<Rightarrow> job_row \<Rightarrow> effect list" where
  "propagate_effects cd en job =
     (case (j_parent_job_id job, j_parent_step_name job) of
        (Some parent, Some parent_step) \<Rightarrow>
          (case en_propagate_error en of
             None \<Rightarrow> [Propagated job parent parent_step]
           | Some e \<Rightarrow> [ServerLog (j_job_id job) (''[orchestration] Failed to propagate to parent job '' @
               cd_show_uuid cd parent @ '': '' @ e)])
      | _ \<Rightarrow> [])"

text \<open>Everything an advance does once it holds the claim, in order.\<close>

definition terminal_effects :: "codecs \<Rightarrow> encounters \<Rightarrow> job_row \<Rightarrow> effect list" where
  "terminal_effects cd en job =
     (let p = terminal_plan_of job; job_id = j_job_id job in
      (if tp_propagate p then propagate_effects cd en job else []) @
      (case en_task en of
         None \<Rightarrow> []
       | Some task \<Rightarrow>
           if tp_retry p then
             (let (created, result) = create_retry_job cd en task job in
              created @
              (case result of
                 Inr (Some new_id) \<Rightarrow> archive_effects job @ [WaitersNotified job_id (j_status job) (j_output job)]
               | Inr None \<Rightarrow> run_terminal_actions cd en job (hook_kind (j_status job))
               | Inl e \<Rightarrow> ServerLog job_id (''[retry] Failed to create retry job: '' @ e) #
                   run_terminal_actions cd en job (hook_kind (j_status job))))
           else run_terminal_actions cd en job (tp_hooks p)))"

text \<open>Performing an effect: propagation writes the parent step, the others leave the database alone.\<close>

fun perform :: "codecs \<Rightarrow> time \<Rightarrow> effect \<Rightarrow> world \<Rightarrow> world" where
  "perform cd now (Propagated child parent parent_step) w =
     emit (Propagated child parent parent_step)
       (w\<lparr>w_db := fst (propagate cd now child parent parent_step (w_db w))\<rparr>)"
| "perform cd now e w = emit e w"

section \<open>The plan decides between retry and hooks\<close>

definition hooks_fired :: "effect list \<Rightarrow> hook_event list" where
  "hooks_fired es = List.map_filter (\<lambda>e. case e of HooksFired _ k \<Rightarrow> Some k | _ \<Rightarrow> None) es"

definition retries_created :: "effect list \<Rightarrow> uuid list" where
  "retries_created es = List.map_filter (\<lambda>e. case e of RetryCreated _ i \<Rightarrow> Some i | _ \<Rightarrow> None) es"

definition notifications :: "effect list \<Rightarrow> (uuid \<times> string \<times> json option) list" where
  "notifications es = List.map_filter (\<lambda>e. case e of WaitersNotified i s out \<Rightarrow> Some (i, s, out) | _ \<Rightarrow> None) es"

lemmas tally_simps = hooks_fired_def retries_created_def notifications_def map_filter_simps

lemma tally_nil: "hooks_fired [] = []" "retries_created [] = []" "notifications [] = []"
  by (simp_all add: tally_simps)

lemma tally_cons:
  "hooks_fired (e # es) = (case e of HooksFired _ k \<Rightarrow> [k] | _ \<Rightarrow> []) @ hooks_fired es"
  "retries_created (e # es) = (case e of RetryCreated _ i \<Rightarrow> [i] | _ \<Rightarrow> []) @ retries_created es"
  "notifications (e # es) = (case e of WaitersNotified i s out \<Rightarrow> [(i, s, out)] | _ \<Rightarrow> []) @ notifications es"
  by (cases e; simp add: tally_simps)+

lemma tallies_append:
  "hooks_fired (es @ fs) = hooks_fired es @ hooks_fired fs"
  "retries_created (es @ fs) = retries_created es @ retries_created fs"
  "notifications (es @ fs) = notifications es @ notifications fs"
  by (simp_all add: hooks_fired_def retries_created_def notifications_def map_filter_def)

lemma propagate_tallies:
  "hooks_fired (propagate_effects cd en job) = []" "retries_created (propagate_effects cd en job) = []"
  "notifications (propagate_effects cd en job) = []"
  by (simp_all add: propagate_effects_def tally_simps split: option.splits)

lemma actions_tallies:
  "hooks_fired (run_terminal_actions cd en job k) = [k]" "retries_created (run_terminal_actions cd en job k) = []"
  "notifications (run_terminal_actions cd en job k) = [(j_job_id job, j_status job, j_output job)]"
  by (simp_all add: run_terminal_actions_def archive_effects_def hook_failure_log_def tally_simps
    tallies_append split: option.splits)

lemma retry_due:
  assumes "tp_retry (terminal_plan_of job)"
  shows "retry_request_of show_uuid task job \<noteq> Inr None"
  using assms
  by (auto simp: terminal_plan_of_def retry_request_of_def Let_def split: option.splits)

lemma terminal_notifications:
  assumes "en_task en = Some task"
  shows "notifications (terminal_effects cd en job) = [(j_job_id job, j_status job, j_output job)]"
proof (cases "tp_retry (terminal_plan_of job)")
  case False
  with assms show ?thesis
    by (simp add: terminal_effects_def Let_def tallies_append propagate_tallies actions_tallies tally_nil)
next
  case True
  have "notifications (fst (create_retry_job cd en task job)) = []"
    by (simp add: create_retry_job_def tally_cons tally_nil split: option.splits sum.splits bool.splits)
  with True assms show ?thesis
    by (cases "snd (create_retry_job cd en task job)")
      (auto simp: terminal_effects_def Let_def tallies_append propagate_tallies actions_tallies tally_nil tally_cons
        archive_effects_def case_prod_beta split: option.splits)
qed

text \<open>
  A settled job whose task resolves is either retried or final. It is retried exactly if it failed
  at top level with retries left and the job creator accepts the retry; then no hook fires. In every
  other case exactly the hooks of its status fire, once, and no retry exists. Either way the waiters
  are told once, with the status and the output of the row.
\<close>

theorem retry_or_hooks:
  assumes "en_task en = Some task" "en_delay_error en = None"
  shows "(if tp_retry (terminal_plan_of job) \<and>
           (\<exists>req new_id. retry_request_of (cd_show_uuid cd) task job = Inr (Some req) \<and> en_create en req = Inr new_id)
          then hooks_fired (terminal_effects cd en job) = [] \<and> length (retries_created (terminal_effects cd en job)) = 1
          else hooks_fired (terminal_effects cd en job) = [hook_kind (j_status job)] \<and>
            retries_created (terminal_effects cd en job) = []) \<and>
    notifications (terminal_effects cd en job) = [(j_job_id job, j_status job, j_output job)]"
proof (cases "tp_retry (terminal_plan_of job)")
  case False
  then have "tp_hooks (terminal_plan_of job) = hook_kind (j_status job)"
    by (auto simp: terminal_plan_of_def Let_def)
  with False assms(1) show ?thesis
    by (simp add: terminal_effects_def Let_def tallies_append propagate_tallies actions_tallies tally_nil)
next
  case True
  note eff = terminal_effects_def Let_def tallies_append propagate_tallies actions_tallies tally_nil
  show ?thesis
  proof (cases "retry_request_of (cd_show_uuid cd) task job")
    case (Inl e)
    with True assms show ?thesis by (simp add: eff create_retry_job_def tally_cons)
  next
    case (Inr r)
    with retry_due [OF True] obtain req where req: "retry_request_of (cd_show_uuid cd) task job = Inr (Some req)"
      by (cases r) auto
    show ?thesis
    proof (cases "en_create en req")
      case (Inl e)
      with True assms req show ?thesis by (simp add: eff create_retry_job_def tally_cons)
    next
      case (Inr new_id)
      with True assms req show ?thesis
        by (simp add: eff create_retry_job_def tally_cons archive_effects_def split: bool.splits)
    qed
  qed
qed

section \<open>Concurrent advances\<close>

text \<open>
  An advance reads the job, passes the drain gate, claims, and then works through its effects. Each
  stage is one atomic step of one advance.
\<close>

datatype stage =
    Entering uuid
  | Draining job_row
  | Claiming job_row
  | Finishing uuid "effect list"

record system =
  s_world :: world
  s_stages :: "stage list"

text \<open>
  The other writers of the job table. A write to steps leaves \<^const>\<open>jobs\<close> alone. The unguarded
  \<^verbatim>\<open>mark_failed_tx\<close> of a failed job creation and the retention sweep are left out.
\<close>

inductive job_write :: "db \<Rightarrow> db \<Rightarrow> bool" where
  jw_steps: "jobs d' = jobs d \<Longrightarrow> job_write d d'"
| jw_settle: "job_status_is_terminal s \<Longrightarrow> job_write d (fst (settle_tx now job_id s out d))"
| jw_cancel: "job_write d (fst (job_cancel now job_id d))"
| jw_running: "job_write d (mark_running_if_pending now job_id worker_id d)"
| jw_running_server: "job_write d (mark_running_if_pending_server now job_id d)"
| jw_running_tx: "job_write d (mark_running_if_pending_tx now job_id d)"
| jw_link: "link_retry_tx failed new_id root attempt d = Inr d' \<Longrightarrow> job_write d d'"
| jw_create: "j_job_id job \<notin> set (map j_job_id (jobs d)) \<Longrightarrow> job_write d (d\<lparr>jobs := jobs d @ [job]\<rparr>)"

inductive sys_step :: "codecs \<Rightarrow> system \<Rightarrow> system \<Rightarrow> bool" for cd where
  enter: "sys_step cd \<lparr>s_world = w, s_stages = as\<rparr> \<lparr>s_world = w, s_stages = as @ [Entering job_id]\<rparr>"
| read_job: "job_get job_id (w_db w) = Some job \<Longrightarrow> is_terminal_status (j_status job) \<Longrightarrow>
    sys_step cd \<lparr>s_world = w, s_stages = as @ Entering job_id # bs\<rparr> \<lparr>s_world = w, s_stages = as @ Draining job # bs\<rparr>"
| drain: "drained query_error (j_job_id job) (w_db w) \<Longrightarrow>
    sys_step cd \<lparr>s_world = w, s_stages = as @ Draining job # bs\<rparr>
      \<lparr>s_world = clear_cancelled_in (j_job_id job) w, s_stages = as @ Claiming job # bs\<rparr>"
| claim_won: "claim query_error now job w = (w', True) \<Longrightarrow>
    sys_step cd \<lparr>s_world = w, s_stages = as @ Claiming job # bs\<rparr>
      \<lparr>s_world = w', s_stages = as @ Finishing (j_job_id job) (terminal_effects cd en job) # bs\<rparr>"
| claim_lost: "claim query_error now job w = (w', False) \<Longrightarrow>
    sys_step cd \<lparr>s_world = w, s_stages = as @ Claiming job # bs\<rparr> \<lparr>s_world = w', s_stages = as @ bs\<rparr>"
| work: "sys_step cd \<lparr>s_world = w, s_stages = as @ Finishing job_id (e # es) # bs\<rparr>
    \<lparr>s_world = perform cd now e w, s_stages = as @ Finishing job_id es # bs\<rparr>"
| other: "job_write (w_db w) d' \<Longrightarrow>
    sys_step cd \<lparr>s_world = w, s_stages = as\<rparr> \<lparr>s_world = w\<lparr>w_db := d'\<rparr>, s_stages = as\<rparr>"

definition started :: "db \<Rightarrow> system" where
  "started d = \<lparr>s_world = \<lparr>w_db = d, w_recorded = (\<lambda>_. None), w_cancelled = [], w_effects = []\<rparr>, s_stages = []\<rparr>"

fun effect_of :: "uuid \<Rightarrow> effect \<Rightarrow> bool" where
  "effect_of j (CountCompleted i _) \<longleftrightarrow> i = j"
| "effect_of j (Propagated child _ _) \<longleftrightarrow> j_job_id child = j"
| "effect_of j (RetryCreated i _) \<longleftrightarrow> i = j"
| "effect_of j (HooksFired i _) \<longleftrightarrow> i = j"
| "effect_of j (WaitersNotified i _ _) \<longleftrightarrow> i = j"
| "effect_of j (LogClosed i) \<longleftrightarrow> i = j"
| "effect_of j (ArchiveUploaded i _ _ _) \<longleftrightarrow> i = j"
| "effect_of j (ServerLog _ _) \<longleftrightarrow> False"

text \<open>The row an advance works with is the row of the table, settled for good.\<close>

definition settled_row :: "job_row \<Rightarrow> db \<Rightarrow> bool" where
  "settled_row job d \<longleftrightarrow> is_terminal_status (j_status job) \<and> j_job_id job \<in> set (map j_job_id (jobs d)) \<and>
     (\<forall>r \<in> set (jobs d). j_job_id r = j_job_id job \<longrightarrow> j_status r = j_status job \<and> j_output r = j_output job)"

fun finishing :: "uuid \<Rightarrow> stage \<Rightarrow> bool" where
  "finishing j (Finishing i _) \<longleftrightarrow> i = j"
| "finishing j _ \<longleftrightarrow> False"

definition own :: "uuid \<Rightarrow> effect list \<Rightarrow> bool" where
  "own i es \<longleftrightarrow> (\<forall>e \<in> set es. \<forall>j. effect_of j e \<longrightarrow> j = i)"

fun stage_ok :: "db \<Rightarrow> stage \<Rightarrow> bool" where
  "stage_ok d (Draining job) \<longleftrightarrow> settled_row job d"
| "stage_ok d (Claiming job) \<longleftrightarrow> settled_row job d"
| "stage_ok d (Finishing i es) \<longleftrightarrow> own i es"
| "stage_ok d (Entering _) \<longleftrightarrow> True"

definition happened :: "uuid \<Rightarrow> world \<Rightarrow> effect list" where
  "happened j w = filter (effect_of j) (w_effects w)"

definition handled :: "codecs \<Rightarrow> uuid \<Rightarrow> job_row \<Rightarrow> encounters \<Rightarrow> effect list" where
  "handled cd j job en = CountCompleted j (j_status job) # filter (effect_of j) (terminal_effects cd en job)"

definition job_inv :: "codecs \<Rightarrow> world \<Rightarrow> stage list \<Rightarrow> uuid \<Rightarrow> bool" where
  "job_inv cd w as j \<longleftrightarrow>
     (if w_recorded w j = None then happened j w = [] \<and> filter (finishing j) as = []
      else \<exists>job en es. j_job_id job = j \<and> settled_row job (w_db w) \<and> filter (finishing j) as = [Finishing j es] \<and>
        happened j w @ filter (effect_of j) es = handled cd j job en)"

definition sys_inv :: "codecs \<Rightarrow> system \<Rightarrow> bool" where
  "sys_inv cd s \<longleftrightarrow> distinct (map j_job_id (jobs (w_db (s_world s)))) \<and>
     list_all (stage_ok (w_db (s_world s))) (s_stages s) \<and> (\<forall>j. job_inv cd (s_world s) (s_stages s) j)"

subsection \<open>Writes keep settled rows\<close>

lemma own_append: "own i (es @ fs) \<longleftrightarrow> own i es \<and> own i fs"
  by (auto simp: own_def)

lemma own_cons: "own i (e # es) \<longleftrightarrow> (\<forall>j. effect_of j e \<longrightarrow> j = i) \<and> own i es"
  by (auto simp: own_def)

lemma own_nil: "own i []"
  by (simp add: own_def)

lemmas own_simps = own_append own_cons own_nil

lemma own_propagate: "own (j_job_id job) (propagate_effects cd en job)"
  by (simp add: propagate_effects_def own_simps split: option.splits)

lemma own_actions: "own (j_job_id job) (run_terminal_actions cd en job k)"
  by (simp add: run_terminal_actions_def hook_failure_log_def archive_effects_def own_simps split: option.splits)

lemma own_created: "own (j_job_id job) (fst (create_retry_job cd en task job))"
  by (simp add: create_retry_job_def own_simps split: option.splits sum.splits bool.splits)

lemma own_effects: "own (j_job_id job) (terminal_effects cd en job)"
proof -
  have "own (j_job_id job) (archive_effects job @ [WaitersNotified (j_job_id job) (j_status job) (j_output job)])"
    by (simp add: archive_effects_def own_simps)
  then show ?thesis using own_propagate [of job cd en] own_actions [of job cd en] own_created [of job cd en]
    by (simp add: terminal_effects_def Let_def own_append own_cons own_nil case_prod_beta split: option.splits sum.splits)
qed

lemma terminal_not_live: "is_terminal_status s \<Longrightarrow> s \<noteq> ''pending'' \<and> s \<noteq> ''running''"
  by (auto simp: is_terminal_status_def parse_job_status_def)

lemma settled_update:
  assumes "settled_row job d" "\<And>j. j_job_id (f j) = j_job_id j"
    and "\<And>j. P j \<Longrightarrow> is_terminal_status (j_status j) \<Longrightarrow> j_status (f j) = j_status j \<and> j_output (f j) = j_output j"
  shows "settled_row job (fst (update_jobs P f d))"
  using assms by (fastforce simp: settled_row_def row_simps)

lemma update_jobs_ids:
  assumes "\<And>j. j_job_id (f j) = j_job_id j"
  shows "map j_job_id (jobs (fst (update_jobs P f d))) = map j_job_id (jobs d)"
  using assms by (simp add: row_simps)

lemma settled_cong: "jobs d' = jobs d \<Longrightarrow> settled_row job d' = settled_row job d"
  by (simp add: settled_row_def)

lemma live_update_keeps:
  assumes "\<And>j. j_job_id (f j) = j_job_id j" "\<And>j. P j \<Longrightarrow> \<not> is_terminal_status (j_status j)"
  shows "map j_job_id (jobs (fst (update_jobs P f d))) = map j_job_id (jobs d)"
    and "settled_row job d \<Longrightarrow> settled_row job (fst (update_jobs P f d))"
  using assms update_jobs_ids settled_update [of job d f P] by blast+

lemma live_guards:
  "j_job_id j = i \<and> j_status j \<in> {''pending'', ''running''} \<Longrightarrow> \<not> is_terminal_status (j_status j)"
  "j_job_id j = i \<and> j_status j = ''pending'' \<Longrightarrow> \<not> is_terminal_status (j_status j)"
  using terminal_not_live by blast+

lemma job_write_keeps:
  assumes "job_write d d'"
  shows "distinct (map j_job_id (jobs d)) \<longrightarrow> distinct (map j_job_id (jobs d'))" (is ?D)
    and "settled_row job d \<longrightarrow> settled_row job d'" (is ?S)
proof -
  have "?D \<and> ?S"
    using assms
  proof (induction rule: job_write.induct)
    case (jw_steps d' d)
    then show ?case using settled_cong [OF jw_steps] by simp
  next
    case (jw_settle s d now job_id out)
    let ?u = "update_jobs (\<lambda>j. j_job_id j = job_id \<and> j_status j \<in> {''pending'', ''running''})
      (\<lambda>j. j\<lparr>j_status := job_status_str s, j_output := (case out of Some v \<Rightarrow> Some v | None \<Rightarrow> j_output j),
             j_completed_at := Some now\<rparr>) d"
    have "fst (settle_tx now job_id s out d) = fst ?u" by (simp add: settle_tx_def case_prod_beta)
    then show ?case using live_update_keeps [OF _ live_guards(1)] by simp
  next
    case (jw_cancel d now job_id)
    have "fst (job_cancel now job_id d) = fst (update_jobs
        (\<lambda>j. j_job_id j = job_id \<and> j_status j \<in> {''pending'', ''running''})
        (\<lambda>j. j\<lparr>j_status := ''cancelled'', j_completed_at := Some now\<rparr>) d)"
      by (simp add: job_cancel_def case_prod_beta)
    then show ?case using live_update_keeps [OF _ live_guards(1)] by simp
  next
    case (jw_running d now job_id worker_id)
    show ?case unfolding mark_running_if_pending_def using live_update_keeps [OF _ live_guards(2)] by simp
  next
    case (jw_running_server d now job_id)
    show ?case unfolding mark_running_if_pending_server_def using live_update_keeps [OF _ live_guards(2)] by simp
  next
    case (jw_running_tx d now job_id)
    show ?case unfolding mark_running_if_pending_tx_def using live_update_keeps [OF _ live_guards(2)] by simp
  next
    case (jw_link failed new_id root attempt d d')
    let ?d = "fst (update_jobs (\<lambda>j. j_job_id j = new_id)
      (\<lambda>j. j\<lparr>j_retry_of_job_id := Some root, j_retry_attempt := attempt\<rparr>) d)"
    have d': "d' = fst (update_jobs (\<lambda>j. j_job_id j = failed) (\<lambda>j. j\<lparr>j_retry_job_id := Some new_id\<rparr>) ?d)"
      using jw_link by (simp add: link_retry_tx_def case_prod_beta Let_def split: if_splits)
    show ?case unfolding d' using settled_update [of job] update_jobs_ids by simp
  next
    case (jw_create j d)
    then show ?case by (auto simp: settled_row_def)
  qed
  then show ?D ?S by blast+
qed

lemma propagate_jobs: "jobs (fst (propagate cd now child parent st d)) = jobs d"
  by (simp add: propagate_def mark_parent_def mark_completed_def mark_cancelled_def mark_failed_def
    update_agent_state_def release_agent_step_def Let_def row_simps split: option.splits)

subsection \<open>The invariant\<close>

lemma perform_sel:
  "w_effects (perform cd now e w) = w_effects w @ [e]" "w_recorded (perform cd now e w) = w_recorded w"
  "jobs (w_db (perform cd now e w)) = jobs (w_db w)"
  by (cases e; simp add: emit_def propagate_jobs)+

lemma job_get_settled:
  assumes "distinct (map j_job_id (jobs d))" "job_get i d = Some job" "is_terminal_status (j_status job)"
  shows "settled_row job d"
proof -
  have "job \<in> set (jobs d)" using assms(2) unfolding job_get_def select_one_def using find_SomeD by metis
  with assms(1,3) show ?thesis using distinct_map_eqD by (fastforce simp: settled_row_def)
qed

lemma job_inv_world:
  assumes "job_inv cd w as j" "w_recorded w' j = w_recorded w j" "happened j w' = happened j w"
    and "\<And>job. settled_row job (w_db w) \<Longrightarrow> settled_row job (w_db w')"
  shows "job_inv cd w' as j"
  using assms unfolding job_inv_def by (simp split: if_splits) blast

lemma job_inv_stages:
  "job_inv cd w as j \<Longrightarrow> filter (finishing j) as' = filter (finishing j) as \<Longrightarrow> job_inv cd w as' j"
  unfolding job_inv_def by (simp only:)

lemma job_inv_work:
  assumes inv: "job_inv cd w (as @ Finishing i (e # es) # bs) j" and own: "own i (e # es)"
  shows "job_inv cd (perform cd now e w) (as @ Finishing i es # bs) j"
proof (cases "j = i")
  case False
  with own have "\<not> effect_of j e" by (auto simp: own_def)
  then have "happened j (perform cd now e w) = happened j w" by (simp add: happened_def perform_sel)
  then have "job_inv cd (perform cd now e w) (as @ Finishing i (e # es) # bs) j"
    by (intro job_inv_world [OF inv]) (simp_all add: perform_sel settled_row_def)
  then show ?thesis by (rule job_inv_stages) (use False in simp)
next
  case True
  from inv True obtain job en where
    inv': "w_recorded w j \<noteq> None" "j_job_id job = j" "settled_row job (w_db w)"
      "filter (finishing j) as = []" "filter (finishing j) bs = []"
      "happened j w @ filter (effect_of j) (e # es) = handled cd j job en"
    by (auto simp: job_inv_def append_eq_Cons_conv split: if_splits)
  have "happened j (perform cd now e w) @ filter (effect_of j) es = handled cd j job en"
    using inv'(6) by (simp add: happened_def perform_sel split: if_splits)
  moreover have "settled_row job (w_db (perform cd now e w))"
    using inv'(3) by (simp add: settled_row_def perform_sel)
  ultimately show ?thesis using inv' True unfolding job_inv_def by (auto simp: perform_sel)
qed

lemma claim_wonD:
  assumes "claim q now job w = (w', True)"
  shows "w_recorded w (j_job_id job) = None"
    and "w' = emit (CountCompleted (j_job_id job) (j_status job)) (w\<lparr>w_recorded := (w_recorded w)(j_job_id job \<mapsto> now)\<rparr>)"
  using assms by (auto simp: claim_def split: option.splits if_splits)

lemma claim_lostD:
  assumes "claim q now job w = (w', False)"
  shows "w_recorded w' = w_recorded w" "w_db w' = w_db w" "happened j w' = happened j w"
  using assms by (auto simp: claim_def emit_def happened_def split: option.splits if_splits)

lemma job_inv_claim:
  assumes inv: "job_inv cd w (as @ Claiming job # bs) j" and won: "claim q now job w = (w', True)"
    and ok: "settled_row job (w_db w)"
  shows "job_inv cd w' (as @ Finishing (j_job_id job) (terminal_effects cd en job) # bs) j"
proof (cases "j = j_job_id job")
  case True
  note w' = claim_wonD [OF won]
  from inv True w'(1) have none: "happened j w = []" "filter (finishing j) as = []" "filter (finishing j) bs = []"
    by (simp_all add: job_inv_def)
  have "happened j w' = [CountCompleted j (j_status job)]" "w_recorded w' j = Some now" "w_db w' = w_db w"
    using none True by (simp_all add: w'(2) happened_def emit_def)
  then show ?thesis using none True ok by (auto simp: job_inv_def handled_def)
next
  case False
  then have "happened j w' = happened j w" "w_recorded w' j = w_recorded w j" "w_db w' = w_db w"
    by (simp_all add: claim_wonD(2) [OF won] happened_def emit_def)
  with inv have "job_inv cd w' (as @ Claiming job # bs) j" by (intro job_inv_world [OF inv]) simp_all
  then show ?thesis by (rule job_inv_stages) (use False in simp)
qed

lemma sys_step_inv:
  assumes "sys_step cd s s'" "sys_inv cd s"
  shows "sys_inv cd s'"
  using assms
proof (cases rule: sys_step.cases)
  case (enter w as job_id)
  have "job_inv cd w (as @ [Entering job_id]) j" if "job_inv cd w as j" for j
    using that by (rule job_inv_stages) simp
  with assms(2) show ?thesis unfolding enter(1,2) by (simp add: sys_inv_def)
next
  case (read_job job_id w job as bs)
  have "job_inv cd w (as @ Draining job # bs) j" if "job_inv cd w (as @ Entering job_id # bs) j" for j
    using that by (rule job_inv_stages) simp
  with assms(2) job_get_settled [OF _ read_job(3,4)] show ?thesis unfolding read_job(1,2) by (simp add: sys_inv_def)
next
  case (drain q job w as bs)
  have "job_inv cd (clear_cancelled_in (j_job_id job) w) (as @ Claiming job # bs) j"
    if "job_inv cd w (as @ Draining job # bs) j" for j
  proof -
    from that have "job_inv cd w (as @ Claiming job # bs) j" by (rule job_inv_stages) simp
    then show ?thesis by (rule job_inv_world) (simp_all add: clear_cancelled_in_def happened_def)
  qed
  with assms(2) show ?thesis unfolding drain(1,2) by (simp add: sys_inv_def clear_cancelled_in_def)
next
  case (claim_won q now job w w' as bs en)
  have w': "w_db w' = w_db w" by (simp add: claim_wonD(2) [OF claim_won(3)] emit_def)
  show ?thesis using assms(2) job_inv_claim [OF _ claim_won(3)] own_effects
    unfolding claim_won(1,2) by (simp add: sys_inv_def w')
next
  case (claim_lost q now job w w' as bs)
  have "job_inv cd w' (as @ bs) j" if "job_inv cd w (as @ Claiming job # bs) j" for j
  proof -
    from that have "job_inv cd w (as @ bs) j" by (rule job_inv_stages) simp
    then show ?thesis by (rule job_inv_world) (simp_all add: claim_lostD [OF claim_lost(3)])
  qed
  with assms(2) show ?thesis unfolding claim_lost(1,2) by (simp add: sys_inv_def claim_lostD(2) [OF claim_lost(3)])
next
  case (work w as job_id e es bs now)
  have "stage_ok (w_db (perform cd now e w)) = stage_ok (w_db w)"
  proof
    show "stage_ok (w_db (perform cd now e w)) a = stage_ok (w_db w) a" for a
      by (cases a) (simp_all add: settled_cong [OF perform_sel(3)])
  qed
  then show ?thesis using assms(2) job_inv_work
    unfolding work(1,2) by (simp add: sys_inv_def perform_sel own_cons)
next
  case (other w d' as)
  have st: "stage_ok (w_db w) a \<Longrightarrow> stage_ok d' a" for a
    by (cases a) (use job_write_keeps(2) [OF other(3)] in simp_all)
  have "job_inv cd (w\<lparr>w_db := d'\<rparr>) as j" if "job_inv cd w as j" for j
    using that by (rule job_inv_world) (use job_write_keeps(2) [OF other(3)] in \<open>simp_all add: happened_def\<close>)
  with assms(2) st job_write_keeps(1) [OF other(3)] show ?thesis
    unfolding other(1,2) by (auto simp: sys_inv_def list_all_iff)
qed

lemma reachable_inv:
  assumes "(sys_step cd)\<^sup>*\<^sup>* (started d) s" "distinct (map j_job_id (jobs d))"
  shows "sys_inv cd s"
  using assms(1)
proof (induction rule: rtranclp_induct)
  case base
  show ?case using assms(2) by (simp add: sys_inv_def started_def job_inv_def happened_def)
next
  case (step s s')
  then show ?case using sys_step_inv by blast
qed


subsection \<open>A lone advance\<close>

lemma finish_all:
  "\<exists>w'. (sys_step cd)\<^sup>*\<^sup>* \<lparr>s_world = w, s_stages = [Finishing i es]\<rparr> \<lparr>s_world = w', s_stages = [Finishing i []]\<rparr> \<and>
     w_effects w' = w_effects w @ es"
proof (induction es arbitrary: w)
  case (Cons e es)
  let ?w = "perform cd 0 e w"
  obtain w' where w': "(sys_step cd)\<^sup>*\<^sup>* \<lparr>s_world = ?w, s_stages = [Finishing i es]\<rparr> \<lparr>s_world = w', s_stages = [Finishing i []]\<rparr>"
      "w_effects w' = w_effects ?w @ es"
    using Cons.IH by blast
  have "sys_step cd \<lparr>s_world = w, s_stages = [Finishing i (e # es)]\<rparr> \<lparr>s_world = ?w, s_stages = [Finishing i es]\<rparr>"
    using sys_step.work [of cd w "[]" i e es "[]" 0] by simp
  then have "(sys_step cd)\<^sup>*\<^sup>* \<lparr>s_world = w, s_stages = [Finishing i (e # es)]\<rparr> \<lparr>s_world = w', s_stages = [Finishing i []]\<rparr>"
    using w'(1) by (rule converse_rtranclp_into_rtranclp)
  then show ?case using w'(2) by (auto simp: perform_sel)
qed auto

lemma lone_advance:
  assumes job: "job_get i d = Some job" "is_terminal_status (j_status job)" and quiet: "\<not> has_live_steps i d"
  shows "\<exists>s. (sys_step cd)\<^sup>*\<^sup>* (started d) s \<and>
    w_effects (s_world s) = CountCompleted i (j_status job) # terminal_effects cd en job"
proof -
  let ?w = "s_world (started d)"
  have db: "w_db ?w = d" by (simp add: started_def)
  have row: "job \<in> set (jobs d)" "j_job_id job = i"
    using find_SomeD [OF job(1) [unfolded job_get_def select_one_def]] by blast+
  have 1: "sys_step cd (started d) \<lparr>s_world = ?w, s_stages = [] @ [Entering i]\<rparr>"
    unfolding started_def by (simp only: system.simps sys_step.enter)
  have 2: "sys_step cd \<lparr>s_world = ?w, s_stages = [] @ [Entering i]\<rparr> \<lparr>s_world = ?w, s_stages = [] @ [Draining job]\<rparr>"
    by (rule sys_step.read_job) (simp_all add: db job)
  have "drained None (j_job_id job) (w_db ?w)" using quiet by (simp add: drained_def db row(2))
  then have 3: "sys_step cd \<lparr>s_world = ?w, s_stages = [] @ [Draining job]\<rparr>
      \<lparr>s_world = clear_cancelled_in (j_job_id job) ?w, s_stages = [] @ [Claiming job]\<rparr>"
    by (rule sys_step.drain)
  have "list_ex (\<lambda>j. j_job_id j = j_job_id job) (jobs d)" using row by (auto simp: list_ex_iff)
  then obtain w' where w': "claim None 0 job (clear_cancelled_in (j_job_id job) ?w) = (w', True)"
      "w_effects w' = [CountCompleted i (j_status job)]"
    by (simp add: claim_def clear_cancelled_in_def started_def emit_def row(2))
  have 4: "sys_step cd \<lparr>s_world = clear_cancelled_in (j_job_id job) ?w, s_stages = [] @ [Claiming job]\<rparr>
      \<lparr>s_world = w', s_stages = [Finishing i (terminal_effects cd en job)]\<rparr>"
    using sys_step.claim_won [OF w'(1), of cd "[]" "[]" en] row(2) by simp
  have "(sys_step cd)\<^sup>*\<^sup>* (started d) \<lparr>s_world = w', s_stages = [Finishing i (terminal_effects cd en job)]\<rparr>"
    by (meson 1 2 3 4 converse_rtranclp_into_rtranclp r_into_rtranclp)
  with finish_all [of cd w' i "terminal_effects cd en job"] w'(2) show ?thesis
    by (metis append_Cons append_Nil rtranclp_trans system.select_convs(1))
qed

section \<open>Examples\<close>

definition plain_codecs :: codecs where
  "plain_codecs = \<lparr>cd_collate = (\<lambda>s. []), cd_show_uuid = show_nat, cd_parse_uuid = parse_u64,
     cd_to_string = (\<lambda>_. []), cd_from_value = (\<lambda>_. None), cd_to_value = (\<lambda>_. Null)\<rparr>"

definition failed_row :: job_row where
  "failed_row = (test_default_job 7 0)\<lparr>j_status := ''failed'', j_max_retries := Some 2\<rparr>"

definition calm :: encounters where
  "calm = \<lparr>en_propagate_error = None, en_task = Some thrice, en_create = (\<lambda>req. Inr 8), en_delay_error = None,
     en_hook_steps = None\<rparr>"

theorem retry_or_hooks_witness:
  "hooks_fired (terminal_effects plain_codecs calm failed_row) = [] \<and>
   notifications (terminal_effects plain_codecs calm failed_row) = [(7, ''failed'', None)]"
proof -
  have p: "tp_retry (terminal_plan_of failed_row)" by code_simp
  have "\<exists>req new_id. retry_request_of (cd_show_uuid plain_codecs) thrice failed_row = Inr (Some req) \<and>
      en_create calm req = Inr new_id"
    by (simp add: failed_row_def calm_def retry_request_of_def test_default_job_def Let_def)
  with p show ?thesis
    using retry_or_hooks [of calm thrice failed_row plain_codecs]
    by (simp add: calm_def failed_row_def test_default_job_def)
qed

definition failed_table :: db where
  "failed_table = \<lparr>jobs = [failed_row], steps = []\<rparr>"


end
