(* ===== verification/Cancel.thy ===== *)
theory Cancel
  imports Terminal
begin

text \<open>
  Cancelling a job with all its child jobs (\<^verbatim>\<open>Settlement::cancel\<close>, \<^verbatim>\<open>cancellation.rs\<close>). The recursion
  follows the parent links of live jobs; its depth is bounded by fuel, and the number of live jobs is
  always enough. The advance that ends every cancellation is terminal handling, see \<^verbatim>\<open>Terminal\<close>;
  here the ids of the jobs that are advanced are returned in order. All queries succeed.
\<close>

section \<open>Definitions\<close>

datatype cancel_result = CCancelled | CNotFound | CAlreadyTerminal

definition is_cancelled :: "uuid \<Rightarrow> world \<Rightarrow> bool" where
  "is_cancelled job_id w \<longleftrightarrow> job_id \<in> set (w_cancelled w)"

text \<open>The writes of one cancellation, up to the recursion into the children.\<close>

definition cancel_own :: "time \<Rightarrow> uuid \<Rightarrow> world \<Rightarrow> world" where
  "cancel_own now job_id w =
     (let d1 = fst (job_cancel now job_id (w_db w));
          d2 = fst (cancel_pending_steps_tx now job_id d1);
          d3 = fst (cancel_server_managed_steps now job_id d2);
          w1 = w\<lparr>w_db := d3\<rparr>;
          w2 = (if get_running_steps job_id d3 \<noteq> []
                then w1\<lparr>w_cancelled := List.insert job_id (w_cancelled w1)\<rparr> else w1)
      in emit (ServerLog job_id ''Job cancelled by user'') w2)"

fun cancel :: "nat \<Rightarrow> time \<Rightarrow> uuid \<Rightarrow> world \<Rightarrow> (world \<times> uuid list \<times> cancel_result) option"
and cancel_children :: "nat \<Rightarrow> time \<Rightarrow> job_row list \<Rightarrow> world \<Rightarrow> (world \<times> uuid list) option" where
  "cancel 0 now job_id w = None"
| "cancel (Suc fuel) now job_id w =
     (case job_get job_id (w_db w) of
        None \<Rightarrow> Some (w, [], CNotFound)
      | Some _ \<Rightarrow>
          if \<not> snd (job_cancel now job_id (w_db w)) then Some (w, [], CAlreadyTerminal)
          else let w' = cancel_own now job_id w in
            (case cancel_children fuel now (get_child_jobs job_id (w_db w')) w' of
               None \<Rightarrow> None
             | Some (w'', advanced) \<Rightarrow> Some (w'', advanced @ [job_id], CCancelled)))"
| "cancel_children fuel now [] w = Some (w, [])"
| "cancel_children fuel now (child # rest) w =
     (case cancel fuel now (j_job_id child) w of
        None \<Rightarrow> None
      | Some (w', advanced, _) \<Rightarrow>
          (case cancel_children fuel now rest w' of
             None \<Rightarrow> None
           | Some (w'', later) \<Rightarrow> Some (w'', advanced @ later)))"

text \<open>The number of live jobs bounds the depth of the recursion.\<close>

definition job_live :: "job_row \<Rightarrow> bool" where
  "job_live j \<longleftrightarrow> j_status j \<in> {''pending'', ''running''}"

definition live_count :: "db \<Rightarrow> nat" where
  "live_count d = length (filter job_live (jobs d))"

definition cancel_job :: "time \<Rightarrow> uuid \<Rightarrow> world \<Rightarrow> (world \<times> uuid list \<times> cancel_result) option" where
  "cancel_job now job_id w = cancel (Suc (live_count (w_db w))) now job_id w"

section \<open>Cancelling a set of jobs at once\<close>

definition live_ids :: "db \<Rightarrow> uuid set" where
  "live_ids d = j_job_id ` {j \<in> set (jobs d). job_live j}"

text \<open>The child relation of the live jobs of a table.\<close>

definition live_child :: "db \<Rightarrow> (uuid \<times> uuid) set" where
  "live_child d = {(p, c). \<exists>j \<in> set (jobs d). job_live j \<and> j_parent_job_id j = Some p \<and> j_job_id j = c}"

definition cancel_row :: "time \<Rightarrow> uuid set \<Rightarrow> job_row \<Rightarrow> job_row" where
  "cancel_row now S j =
     (if j_job_id j \<in> S \<and> job_live j
      then j\<lparr>j_status := ''cancelled'', j_completed_at := Some now\<rparr> else j)"

definition cancel_step :: "time \<Rightarrow> uuid set \<Rightarrow> step_record \<Rightarrow> step_record" where
  "cancel_step now S r =
     (if js_job_id r \<notin> S then r
      else if js_status r \<in> {''pending'', ''ready'', ''suspended''}
      then r\<lparr>js_status := ''cancelled'', js_completed_at := Some now\<rparr>
      else if js_status r = ''running'' \<and> js_worker_id r = None
      then r\<lparr>js_status := ''cancelled'', js_error_message := Some ''Job cancelled'', js_completed_at := Some now\<rparr>
      else r)"

definition cancel_set :: "time \<Rightarrow> uuid set \<Rightarrow> db \<Rightarrow> db" where
  "cancel_set now S d = d\<lparr>jobs := map (cancel_row now S) (jobs d), steps := map (cancel_step now S) (steps d)\<rparr>"

lemma cancel_row_keys [simp]:
  "j_job_id (cancel_row now S j) = j_job_id j" "j_parent_job_id (cancel_row now S j) = j_parent_job_id j"
  by (simp_all add: cancel_row_def)

lemma cancel_step_key [simp]: "js_job_id (cancel_step now S r) = js_job_id r"
  by (simp add: cancel_step_def)

lemma cancel_row_live: "job_live (cancel_row now S j) \<longleftrightarrow> job_live j \<and> j_job_id j \<notin> S"
  by (cases "job_live j"; cases "j_job_id j \<in> S") (simp_all add: cancel_row_def job_live_def)

lemma live_cancel_set: "live_ids (cancel_set now S d) = live_ids d - S"
proof -
  have "{j \<in> set (jobs (cancel_set now S d)). job_live j} =
      cancel_row now S ` {j \<in> set (jobs d). job_live (cancel_row now S j)}"
    by (auto simp: cancel_set_def)
  then have "live_ids (cancel_set now S d) = j_job_id ` {j \<in> set (jobs d). job_live (cancel_row now S j)}"
    by (simp only: live_ids_def image_image cancel_row_keys)
  then show ?thesis by (auto simp: cancel_row_live live_ids_def)
qed

lemma child_cancel_set: "live_child (cancel_set now S d) = {(p, c) \<in> live_child d. c \<notin> S}"
  by (auto simp: live_child_def cancel_set_def cancel_row_live)

lemma cancel_row_cong: "(j_job_id j \<in> S \<longleftrightarrow> j_job_id j \<in> T) \<Longrightarrow> cancel_row now S j = cancel_row now T j"
  by (simp add: cancel_row_def)

lemma cancel_row_out: "j_job_id j \<notin> S \<Longrightarrow> cancel_row now S j = j"
  by (simp add: cancel_row_def)

lemma cancel_step_cong: "(js_job_id r \<in> S \<longleftrightarrow> js_job_id r \<in> T) \<Longrightarrow> cancel_step now S r = cancel_step now T r"
  by (simp add: cancel_step_def)

lemma cancel_step_out: "js_job_id r \<notin> S \<Longrightarrow> cancel_step now S r = r"
  by (simp add: cancel_step_def)

lemma cancel_set_Un:
  assumes "S \<inter> T = {}"
  shows "cancel_set now T (cancel_set now S d) = cancel_set now (S \<union> T) d"
proof -
  have "cancel_row now T (cancel_row now S j) = cancel_row now (S \<union> T) j" for j
  proof (cases "j_job_id j \<in> S")
    case True
    with assms have "j_job_id (cancel_row now S j) \<notin> T" by auto
    then have "cancel_row now T (cancel_row now S j) = cancel_row now S j" by (rule cancel_row_out)
    also have "\<dots> = cancel_row now (S \<union> T) j" using True by (intro cancel_row_cong) simp
    finally show ?thesis .
  next
    case False
    then show ?thesis using cancel_row_cong [of j T "S \<union> T"] by (simp add: cancel_row_out)
  qed
  moreover have "cancel_step now T (cancel_step now S r) = cancel_step now (S \<union> T) r" for r
  proof (cases "js_job_id r \<in> S")
    case True
    with assms have "js_job_id (cancel_step now S r) \<notin> T" by auto
    then have "cancel_step now T (cancel_step now S r) = cancel_step now S r" by (rule cancel_step_out)
    also have "\<dots> = cancel_step now (S \<union> T) r" using True by (intro cancel_step_cong) simp
    finally show ?thesis .
  next
    case False
    then show ?thesis using cancel_step_cong [of r T "S \<union> T"] by (simp add: cancel_step_out)
  qed
  ultimately show ?thesis by (simp add: cancel_set_def comp_def)
qed

lemma cancel_own_set: "w_db (cancel_own now i w) = cancel_set now {i} (w_db w)"
proof -
  let ?d = "fst (cancel_server_managed_steps now i (fst (cancel_pending_steps_tx now i (fst (job_cancel now i (w_db w))))))"
  have "jobs ?d = map (cancel_row now {i}) (jobs (w_db w))"
    by (simp add: cancel_server_managed_steps_def cancel_pending_steps_tx_def job_cancel_def row_simps case_prod_beta
      cancel_row_def job_live_def)
  moreover have "steps ?d = map (cancel_step now {i}) (steps (w_db w))"
    by (simp add: cancel_server_managed_steps_def cancel_pending_steps_tx_def job_cancel_def row_simps case_prod_beta
      cancel_step_def comp_def)
  ultimately have "?d = cancel_set now {i} (w_db w)" by (simp add: cancel_set_def)
  then show ?thesis by (simp add: cancel_own_def Let_def emit_def)
qed

section \<open>What a cancellation reaches\<close>

lemma get_child_ids: "set (map j_job_id (get_child_jobs p d)) = live_child d `` {p}"
  by (auto simp: get_child_jobs_def live_child_def job_live_def sql_eq_def split: option.splits)

lemma job_cancel_wrote: "snd (job_cancel now i d) \<longleftrightarrow> i \<in> live_ids d"
  using cancel.wrote_iff [of now i d] by (auto simp: live_ids_def job_live_def)

lemma job_get_live: "i \<in> live_ids d \<Longrightarrow> job_get i d \<noteq> None"
  by (auto simp: live_ids_def job_get_def select_one_def find_None_iff)

lemma live_count_less: "i \<in> S \<Longrightarrow> i \<in> live_ids d \<Longrightarrow> live_count (cancel_set now S d) < live_count d"
proof -
  assume i: "i \<in> S" "i \<in> live_ids d"
  then obtain j where j: "j \<in> set (jobs d)" "job_live j" "j_job_id j = i" by (auto simp: live_ids_def)
  have "length (filter (\<lambda>j. job_live j \<and> j_job_id j \<notin> S) xs) < length (filter job_live xs)"
    if "j \<in> set xs" for xs
    using that
  proof (induction xs)
    case (Cons x xs)
    have "length (filter (\<lambda>j. job_live j \<and> j_job_id j \<notin> S) xs) \<le> length (filter job_live xs)"
      by (induction xs) auto
    with Cons j i show ?case by auto
  qed simp
  from this [OF j(1)] show ?thesis
    by (simp add: live_count_def cancel_set_def filter_map comp_def cancel_row_live)
qed

lemma live_count_le: "live_count (cancel_set now S d) \<le> live_count d"
proof -
  have "length (filter (\<lambda>j. job_live j \<and> j_job_id j \<notin> S) xs) \<le> length (filter job_live xs)" for xs
    by (induction xs) auto
  then show ?thesis by (simp add: live_count_def cancel_set_def filter_map comp_def cancel_row_live)
qed

text \<open>
  What a run of \<^const>\<open>cancel\<close> or \<^const>\<open>cancel_children\<close> has done: it cancelled a set of live jobs, advanced
  exactly these, and told their workers.
\<close>

definition told :: "uuid set \<Rightarrow> world \<Rightarrow> bool" where
  "told S w \<longleftrightarrow> (\<forall>i \<in> S. get_running_steps i (w_db w) \<noteq> [] \<longrightarrow> i \<in> set (w_cancelled w))"

definition cancelled_to :: "time \<Rightarrow> uuid set \<Rightarrow> world \<Rightarrow> world \<Rightarrow> uuid list \<Rightarrow> bool" where
  "cancelled_to now S w w' advanced \<longleftrightarrow> w_db w' = cancel_set now S (w_db w) \<and> S \<subseteq> live_ids (w_db w) \<and>
     set advanced = S \<and> distinct advanced \<and> set (w_cancelled w) \<subseteq> set (w_cancelled w') \<and> told S w'"

lemma cancel_set_empty [simp]: "cancel_set now {} d = d"
proof -
  have "map (cancel_row now {}) xs = xs" for xs by (induction xs) (simp_all add: cancel_row_out)
  moreover have "map (cancel_step now {}) xs = xs" for xs by (induction xs) (simp_all add: cancel_step_out)
  ultimately show ?thesis by (simp add: cancel_set_def)
qed

lemma running_cancel_other:
  assumes "i \<notin> T"
  shows "get_running_steps i (cancel_set now T d) = get_running_steps i d"
proof -
  have "filter (\<lambda>r. js_job_id r = i \<and> js_status r = ''running'') (map (cancel_step now T) xs) =
      filter (\<lambda>r. js_job_id r = i \<and> js_status r = ''running'') xs" for xs
    using assms by (induction xs) (auto simp: cancel_step_out)
  then show ?thesis by (simp add: get_running_steps_def cancel_set_def)
qed

lemma cancelled_to_trans:
  assumes "cancelled_to now S w w' as" "cancelled_to now T w' w'' bs"
  shows "cancelled_to now (S \<union> T) w w'' (as @ bs)"
proof -
  have disj: "S \<inter> T = {}" and T: "T \<subseteq> live_ids (w_db w)"
    using assms by (auto simp: cancelled_to_def live_cancel_set)
  have "told S w''"
    unfolding told_def
  proof (intro ballI impI)
    fix i assume i: "i \<in> S" "get_running_steps i (w_db w'') \<noteq> []"
    with disj assms(2) have "get_running_steps i (w_db w') \<noteq> []"
      using running_cancel_other [of i T now "w_db w'"] by (auto simp: cancelled_to_def)
    with assms i show "i \<in> set (w_cancelled w'')" by (auto simp: cancelled_to_def told_def)
  qed
  with assms disj T show ?thesis
    by (auto simp: cancelled_to_def cancel_set_Un told_def)
qed

text \<open>The set is closed under live children and reached from the given roots.\<close>

definition downward :: "db \<Rightarrow> uuid set \<Rightarrow> uuid set \<Rightarrow> bool" where
  "downward d roots S \<longleftrightarrow> roots \<inter> live_ids d \<subseteq> S \<and> live_child d `` S \<subseteq> S \<and> S \<subseteq> (live_child d)\<^sup>* `` roots"

lemma downward_exact:
  assumes "downward d {i} S" "i \<in> live_ids d"
  shows "S = (live_child d)\<^sup>* `` {i}"
proof
  have "k \<in> S" if "(i, k) \<in> (live_child d)\<^sup>*" for k
    using that assms by (induction rule: rtrancl_induct) (auto simp: downward_def)
  then show "(live_child d)\<^sup>* `` {i} \<subseteq> S" by auto
qed (use assms in \<open>simp add: downward_def\<close>)

lemma child_live: "live_child d `` S \<subseteq> live_ids d"
  by (auto simp: live_child_def live_ids_def)

lemma child_mono: "live_child (cancel_set now S d) \<subseteq> live_child d"
  by (auto simp: child_cancel_set)

lemma downward_then:
  assumes "downward d A S" "downward (cancel_set now S d) B T"
  shows "downward d (A \<union> B) (S \<union> T)"
proof -
  have "live_child d `` T \<subseteq> S \<union> T" using assms(2) by (auto simp: downward_def child_cancel_set)
  moreover have "T \<subseteq> (live_child d)\<^sup>* `` B"
    using assms(2) rtrancl_mono [OF child_mono] by (fastforce simp: downward_def)
  ultimately show ?thesis using assms by (auto simp: downward_def live_cancel_set)
qed

lemma downward_root:
  assumes "i \<in> live_ids d" "downward (cancel_set now {i} d) (live_child (cancel_set now {i} d) `` {i}) T"
  shows "downward d {i} (insert i T)"
proof -
  let ?c = "live_child (cancel_set now {i} d)"
  have "?c `` {i} \<subseteq> T" using assms(2) child_live [of "cancel_set now {i} d" "{i}"] by (auto simp: downward_def)
  then have "live_child d `` insert i T \<subseteq> insert i T"
    using assms(2) by (auto simp: downward_def child_cancel_set)
  moreover have "T \<subseteq> (live_child d)\<^sup>* `` {i}"
  proof
    fix k assume "k \<in> T"
    then obtain c where "(i, c) \<in> ?c" "(c, k) \<in> ?c\<^sup>*" using assms(2) by (auto simp: downward_def)
    then show "k \<in> (live_child d)\<^sup>* `` {i}"
      using child_mono [of now "{i}" d] rtrancl_mono [OF child_mono [of now "{i}" d]]
      by (auto intro: converse_rtrancl_into_rtrancl)
  qed
  ultimately show ?thesis by (auto simp: downward_def)
qed

lemma cancelled_to_own:
  assumes "i \<in> live_ids (w_db w)"
  shows "cancelled_to now {i} w (cancel_own now i w) [i]"
proof -
  have "told {i} (cancel_own now i w)" "set (w_cancelled w) \<subseteq> set (w_cancelled (cancel_own now i w))"
    by (auto simp: cancel_own_def told_def Let_def emit_def)
  with assms show ?thesis by (simp add: cancelled_to_def cancel_own_set)
qed

definition cancels :: "time \<Rightarrow> uuid set \<Rightarrow> world \<Rightarrow> world \<Rightarrow> uuid list \<Rightarrow> bool" where
  "cancels now roots w w' advanced \<longleftrightarrow>
     (\<exists>S. cancelled_to now S w w' advanced \<and> downward (w_db w) roots S)"

lemma cancels_children:
  assumes one: "\<And>i w. live_count (w_db w) < fuel \<Longrightarrow>
      \<exists>w' advanced res. cancel fuel now i w = Some (w', advanced, res) \<and> cancels now {i} w w' advanced"
    and "live_count (w_db w) < fuel"
  shows "\<exists>w' advanced. cancel_children fuel now cs w = Some (w', advanced) \<and>
    cancels now (set (map j_job_id cs)) w w' advanced"
  using assms(2)
proof (induction cs arbitrary: w)
  case Nil
  have "cancelled_to now {} w w []" by (simp add: cancelled_to_def told_def)
  then show ?case by (auto simp: cancels_def downward_def)
next
  case (Cons c cs)
  from one [OF Cons.prems, of "j_job_id c"] obtain w1 as res S where
    1: "cancel fuel now (j_job_id c) w = Some (w1, as, res)" "cancelled_to now S w w1 as"
      "downward (w_db w) {j_job_id c} S"
    by (auto simp: cancels_def)
  have db1: "w_db w1 = cancel_set now S (w_db w)" using 1(2) by (simp add: cancelled_to_def)
  with Cons.prems live_count_le have "live_count (w_db w1) < fuel" by (metis le_less_trans)
  from Cons.IH [OF this] obtain w2 bs T where
    2: "cancel_children fuel now cs w1 = Some (w2, bs)" "cancelled_to now T w1 w2 bs"
      "downward (w_db w1) (set (map j_job_id cs)) T"
    by (auto simp: cancels_def)
  have "downward (w_db w) (set (map j_job_id (c # cs))) (S \<union> T)"
    using downward_then [OF 1(3) 2(3) [unfolded db1]] by simp
  with cancelled_to_trans [OF 1(2) 2(2)] 1(1) 2(1) show ?case by (auto simp: cancels_def)
qed

lemma cancel_spec:
  "live_count (w_db w) < fuel \<Longrightarrow>
    \<exists>w' advanced res. cancel fuel now i w = Some (w', advanced, res) \<and> cancels now {i} w w' advanced \<and>
      (res = CCancelled \<longleftrightarrow> i \<in> live_ids (w_db w))"
proof (induction fuel arbitrary: i w)
  case (Suc fuel)
  show ?case
  proof (cases "i \<in> live_ids (w_db w)")
    case False
    then have "cancels now {i} w w []"
      by (auto simp: cancels_def cancelled_to_def told_def downward_def intro!: exI [of _ "{}"])
    with False show ?thesis by (simp add: job_cancel_wrote split: option.split)
  next
    case True
    let ?w = "cancel_own now i w"
    have db: "w_db ?w = cancel_set now {i} (w_db w)" by (rule cancel_own_set)
    have "live_count (w_db ?w) < fuel"
      using Suc.prems live_count_less [of i "{i}" "w_db w" now] True by (simp add: db)
    then obtain w' as T where
      r: "cancel_children fuel now (get_child_jobs i (w_db ?w)) ?w = Some (w', as)" "cancelled_to now T ?w w' as"
        "downward (w_db ?w) (live_child (w_db ?w) `` {i}) T"
      using cancels_children [of fuel now ?w "get_child_jobs i (w_db ?w)"] Suc.IH
      unfolding get_child_ids cancels_def by blast
    have "cancelled_to now ({i} \<union> T) w w' ([i] @ as)"
      using cancelled_to_trans [OF cancelled_to_own [OF True] r(2)] .
    then have "cancelled_to now (insert i T) w w' (as @ [i])" by (auto simp: cancelled_to_def)
    moreover have "downward (w_db w) {i} (insert i T)" using downward_root [OF True] r(3) unfolding db .
    ultimately have "cancels now {i} w w' (as @ [i])" by (auto simp: cancels_def)
    with True r(1) job_get_live [OF True] show ?thesis by (auto simp: job_cancel_wrote Let_def)
  qed
qed simp

text \<open>
  C23. Cancelling a live job always ends, and it cancels exactly the job and the live jobs below it,
  however deep: these jobs and their waiting and server-run steps are cancelled, every other row is
  left as it was, each of these jobs is advanced once, and those whose workers still run a step are
  in the set the workers poll.
\<close>

theorem cancel_reaches_descendants:
  assumes "i \<in> live_ids (w_db w)"
  shows "\<exists>w' advanced. cancel_job now i w = Some (w', advanced, CCancelled) \<and>
    w_db w' = cancel_set now ((live_child (w_db w))\<^sup>* `` {i}) (w_db w) \<and>
    set advanced = (live_child (w_db w))\<^sup>* `` {i} \<and> distinct advanced \<and>
    (\<forall>k \<in> (live_child (w_db w))\<^sup>* `` {i}. get_running_steps k (w_db w') = [] \<or> is_cancelled k w')"
proof -
  obtain w' advanced S where
    r: "cancel_job now i w = Some (w', advanced, CCancelled)" "cancelled_to now S w w' advanced"
      "downward (w_db w) {i} S"
    using cancel_spec [of w "Suc (live_count (w_db w))" now i] assms
    unfolding cancel_job_def cancels_def by auto
  then have "S = (live_child (w_db w))\<^sup>* `` {i}" using downward_exact assms by blast
  with r(1,2) show ?thesis by (auto simp: cancelled_to_def told_def is_cancelled_def)
qed

section \<open>Example\<close>

lemma live_ids_ex: "i \<in> live_ids d \<longleftrightarrow> list_ex (\<lambda>j. job_live j \<and> j_job_id j = i) (jobs d)"
  by (auto simp: live_ids_def list_ex_iff)

definition family :: db where
  "family = \<lparr>jobs = [(test_default_job 1 0)\<lparr>j_status := ''running''\<rparr>,
      (test_default_job 2 0)\<lparr>j_status := ''running'', j_parent_job_id := Some 1\<rparr>,
      (test_default_job 3 0)\<lparr>j_status := ''pending'', j_parent_job_id := Some 2\<rparr>,
      test_default_job 4 0], steps = []\<rparr>"

definition quiet_world :: "db \<Rightarrow> world" where
  "quiet_world d = \<lparr>w_db = d, w_recorded = (\<lambda>_. None), w_cancelled = [], w_effects = []\<rparr>"

theorem cancel_reaches_descendants_witness:
  "\<exists>w' advanced. cancel_job 9 1 (quiet_world family) = Some (w', advanced, CCancelled) \<and>
     3 \<in> set advanced \<and> w_db w' = cancel_set 9 ((live_child family)\<^sup>* `` {1}) family"
proof -
  have live: "1 \<in> live_ids (w_db (quiet_world family))"
    by (simp add: live_ids_ex quiet_world_def family_def job_live_def test_default_job_def)
  have "(1, 2) \<in> live_child family" "(2, 3) \<in> live_child family"
    by (simp_all add: live_child_def family_def job_live_def test_default_job_def)
  then have "(1, 3) \<in> (live_child family)\<^sup>*" by auto
  with cancel_reaches_descendants [OF live, of 9] show ?thesis by (auto simp: quiet_world_def)
qed

end
