(* ===== verification/Leader.thy ===== *)
theory Leader
  imports Stroem_Prelude
begin

text \<open>
  Leader election (\<^verbatim>\<open>stroem-server/src/leader.rs\<close>, the \<^verbatim>\<open>leader:\<close> section of \<^verbatim>\<open>config.rs\<close>): the timing and
  its checks, the handle other tasks ask for the role, the election loop, and a transition system of
  any number of replicas and the PostgreSQL sessions they hold.

  A \<^verbatim>\<open>Duration\<close> is a number of nanoseconds and an \<^verbatim>\<open>Instant\<close> a point on one global clock that all
  processes read at the same rate; \<^verbatim>\<open>monotonic_ms\<close> is relative to the start of the process. A handler
  that awaits the database is split where it awaits: the first half chooses what is sent, the second
  takes the outcome as an argument. Log lines are left out.
\<close>

section \<open>Durations and clocks\<close>

type_synonym duration = nat \<comment> \<open>nanoseconds\<close>
type_synonym instant = nat \<comment> \<open>nanoseconds on the global clock\<close>

definition i64_max :: int where
  "i64_max = 2 ^ 63 - 1"

definition i64_min :: int where
  "i64_min = - (2 ^ 63)"

definition i64_saturating_add :: "int \<Rightarrow> int \<Rightarrow> int" where
  "i64_saturating_add a b = max i64_min (min i64_max (a + b))"

definition as_millis :: "duration \<Rightarrow> nat" where
  "as_millis d = d div 1000000"

definition from_millis :: "nat \<Rightarrow> duration" where
  "from_millis ms = ms * 1000000"

definition from_secs :: "nat \<Rightarrow> duration" where
  "from_secs s = s * 1000000000"

definition elapsed :: "instant \<Rightarrow> instant \<Rightarrow> duration" where
  "elapsed now since = now - since"

definition monotonic_ms :: "instant \<Rightarrow> instant \<Rightarrow> int" where
  "monotonic_ms epoch now = min (int (as_millis (elapsed now epoch))) i64_max"

section \<open>Timing\<close>

record leader_timing =
  lt_retry_interval :: duration
  lt_ping_timeout :: duration
  lt_acquire_timeout :: duration
  lt_validity :: duration
  lt_lease :: duration
  lt_release_after :: "duration option"

definition MAX_RETRY_INTERVAL :: duration where
  "MAX_RETRY_INTERVAL = from_secs 5"

definition MAX_ACQUIRE_TIMEOUT :: duration where
  "MAX_ACQUIRE_TIMEOUT = from_secs 10"

definition from_lease :: "duration \<Rightarrow> duration option \<Rightarrow> leader_timing" where
  "from_lease lease release_after =
     (let ms = min (as_millis lease) u64_max;
          sixth = min (from_millis (ms div 6)) MAX_RETRY_INTERVAL
      in \<lparr>lt_retry_interval = sixth,
          lt_ping_timeout = sixth,
          lt_acquire_timeout = min (from_millis (ms div 3)) MAX_ACQUIRE_TIMEOUT,
          lt_validity = from_millis (saturating_mul ms 2 div 3),
          lt_lease = lease,
          lt_release_after = release_after\<rparr>)"

definition default_timing :: leader_timing where
  "default_timing = from_lease (from_secs 30) (Some (from_secs 30))"

datatype timing_error =
    Pings_outlast_validity duration duration
  | Validity_reaches_lease duration duration
  | Lease_below_retries duration duration

definition check_timing :: "leader_timing \<Rightarrow> timing_error + unit" where
  "check_timing t =
     (let pings = 2 * lt_ping_timeout t + lt_retry_interval t in
      if pings \<ge> lt_validity t then Inl (Pings_outlast_validity pings (lt_validity t))
      else if lt_validity t \<ge> lt_lease t then Inl (Validity_reaches_lease (lt_validity t) (lt_lease t))
      else if lt_lease t < 3 * lt_retry_interval t
      then Inl (Lease_below_retries (lt_lease t) (3 * lt_retry_interval t))
      else Inr ())"

record leader_config =
  lc_lease_secs :: nat
  lc_self_release_after_secs :: nat

definition MIN_LEADER_LEASE_SECS :: nat where
  "MIN_LEADER_LEASE_SECS = 10"

definition MAX_LEADER_LEASE_SECS :: nat where
  "MAX_LEADER_LEASE_SECS = 3600"

definition MAX_SELF_RELEASE_AFTER_SECS :: nat where
  "MAX_SELF_RELEASE_AFTER_SECS = 3600"

definition default_leader_config :: leader_config where
  "default_leader_config = \<lparr>lc_lease_secs = 30, lc_self_release_after_secs = 30\<rparr>"

definition config_timing :: "leader_config \<Rightarrow> leader_timing" where
  "config_timing c =
     (let after = lc_self_release_after_secs c in
      from_lease (from_secs (lc_lease_secs c)) (if after > 0 then Some (from_secs after) else None))"

datatype leader_config_error =
    Lease_out_of_bounds nat
  | Release_out_of_bounds nat
  | Invalid_timing nat timing_error

definition validate_leader :: "leader_config \<Rightarrow> leader_config_error + unit" where
  "validate_leader c =
     (if \<not> (MIN_LEADER_LEASE_SECS \<le> lc_lease_secs c \<and> lc_lease_secs c \<le> MAX_LEADER_LEASE_SECS)
      then Inl (Lease_out_of_bounds (lc_lease_secs c))
      else if lc_self_release_after_secs c > MAX_SELF_RELEASE_AFTER_SECS
      then Inl (Release_out_of_bounds (lc_self_release_after_secs c))
      else case check_timing (config_timing c) of
             Inl e \<Rightarrow> Inl (Invalid_timing (lc_lease_secs c) e)
           | Inr u \<Rightarrow> Inr u)"

section \<open>The handle\<close>

datatype loop_fault = Stalled | Stopped

record unfit_loop =
  ul_name :: string
  ul_fault :: loop_fault

definition show_unfit_loop :: "unfit_loop \<Rightarrow> string" where
  "show_unfit_loop u =
     ''the '' @ ul_name u @ '' loop '' @
       (case ul_fault u of Stalled \<Rightarrow> ''is stalled'' | Stopped \<Rightarrow> ''has stopped'')"

text \<open>The probe is the answer it gives when it is called, \<open>None\<close> while none is installed.\<close>

type_synonym fitness_probe = "unfit_loop option"

record leader_election =
  le_valid_until_ms :: int
  le_paused :: bool
  le_fitness :: "fitness_probe option"

definition with_valid_until :: "int \<Rightarrow> leader_election" where
  "with_valid_until v = \<lparr>le_valid_until_ms = v, le_paused = False, le_fitness = None\<rparr>"

definition always :: leader_election where
  "always = with_valid_until i64_max"

definition never :: leader_election where
  "never = with_valid_until i64_min"

definition is_leader :: "int \<Rightarrow> leader_election \<Rightarrow> bool" where
  "is_leader now_ms le \<longleftrightarrow> now_ms < le_valid_until_ms le"

definition set_fitness_probe :: "fitness_probe \<Rightarrow> leader_election \<Rightarrow> leader_election" where
  "set_fitness_probe probe le =
     (if le_fitness le = None then le\<lparr>le_fitness := Some probe\<rparr> else le)"

definition pause_for_test :: "bool \<Rightarrow> leader_election \<Rightarrow> leader_election" where
  "pause_for_test paused le = le\<lparr>le_paused := paused\<rparr>"

definition validity_ms :: "duration \<Rightarrow> int" where
  "validity_ms validity = min (int (as_millis validity)) i64_max"

definition renew :: "int \<Rightarrow> duration \<Rightarrow> leader_election \<Rightarrow> leader_election" where
  "renew sent_ms validity le =
     le\<lparr>le_valid_until_ms := i64_saturating_add sent_ms (validity_ms validity)\<rparr>"

definition clear :: "leader_election \<Rightarrow> leader_election" where
  "clear le = le\<lparr>le_valid_until_ms := i64_min\<rparr>"

section \<open>The loop\<close>

datatype action = Release | Ping | StayFollower | Acquire

fun next_action :: "bool \<Rightarrow> duration option \<Rightarrow> duration \<Rightarrow> action" where
  "next_action True (Some d) release_after = (if d \<ge> release_after then Release else Ping)"
| "next_action True None release_after = Ping"
| "next_action False (Some d) release_after = StayFollower"
| "next_action False None release_after = Acquire"

datatype lease_status = Enforced | Unsupported

definition lease_setting :: "duration \<Rightarrow> string" where
  "lease_setting lease = show_nat (as_millis lease) @ ''ms''"

definition SQLSTATE_UNDEFINED_OBJECT :: string where
  "SQLSTATE_UNDEFINED_OBJECT = ''42704''"

text \<open>The result of the \<^verbatim>\<open>set_config\<close> query: the error carries the SQLSTATE, if it has one.\<close>

definition apply_lease :: "string option + unit \<Rightarrow> string option + lease_status" where
  "apply_lease result =
     (case result of
        Inr _ \<Rightarrow> Inr Enforced
      | Inl code \<Rightarrow> if code = Some SQLSTATE_UNDEFINED_OBJECT then Inr Unsupported else Inl code)"

text \<open>The age of the state is in microseconds, the resolution of the column.\<close>

record lock_holder =
  lh_pid :: int
  lh_client_addr :: "string option"
  lh_application_name :: "string option"
  lh_backend_start :: "time option"
  lh_state :: "string option"
  lh_state_age :: "int option"

datatype holder_report = Warn | Info | Quiet

definition APPLICATION_NAME :: string where
  "APPLICATION_NAME = ''stroem-leader''"

definition HOLDER_REPORT_INTERVAL :: duration where
  "HOLDER_REPORT_INTERVAL = from_secs 60"

definition HOLDER_REPEAT_INTERVAL :: duration where
  "HOLDER_REPEAT_INTERVAL = from_secs (15 * 60)"

definition holder_report :: "lock_holder \<Rightarrow> duration \<Rightarrow> bool \<Rightarrow> duration option \<Rightarrow> holder_report" where
  "holder_report holder lease changed since_last_info =
     (let foreign = lh_application_name holder \<noteq> Some APPLICATION_NAME;
          stale = lh_state holder = Some ''idle'' \<and>
            (case lh_state_age holder of None \<Rightarrow> False | Some age \<Rightarrow> age * 1000 > int lease)
      in if foreign \<or> stale then Warn
         else if changed \<or> (case since_last_info of None \<Rightarrow> True | Some d \<Rightarrow> d \<ge> HOLDER_REPEAT_INTERVAL)
         then Info else Quiet)"

type_synonym session = nat

record loop_state =
  ls_conn :: "session option"
  ls_lease_warned :: bool
  ls_unfit :: "(unfit_loop \<times> instant) option"
  ls_holder_asked_at :: "instant option"
  ls_holder_logged :: "((int \<times> time option) \<times> instant) option"

definition default_loop_state :: loop_state where
  "default_loop_state =
     \<lparr>ls_conn = None, ls_lease_warned = False, ls_unfit = None, ls_holder_asked_at = None,
      ls_holder_logged = None\<rparr>"

definition observe_fitness :: "fitness_probe option \<Rightarrow> duration option \<Rightarrow> unfit_loop option" where
  "observe_fitness probe release_after =
     (case release_after of None \<Rightarrow> None
      | Some _ \<Rightarrow> (case probe of None \<Rightarrow> None | Some answer \<Rightarrow> answer))"

definition track_fitness :: "unfit_loop option \<Rightarrow> instant \<Rightarrow> loop_state \<Rightarrow> loop_state" where
  "track_fitness unfit now st =
     (case (unfit, ls_unfit st) of
        (Some u, None) \<Rightarrow> st\<lparr>ls_unfit := Some (u, now)\<rparr>
      | (Some u, Some (before, since)) \<Rightarrow>
          if u \<noteq> before then st\<lparr>ls_unfit := Some (u, since)\<rparr> else st
      | (None, Some _) \<Rightarrow> st\<lparr>ls_unfit := None\<rparr>
      | (None, None) \<Rightarrow> st)"

datatype ping_outcome = Ping_ok | Ping_error "string option" | Ping_timeout

definition ping ::
    "leader_timing \<Rightarrow> int \<Rightarrow> ping_outcome \<Rightarrow> leader_election \<times> loop_state
       \<Rightarrow> leader_election \<times> loop_state" where
  "ping timing sent_ms outcome s =
     (case outcome of
        Ping_ok \<Rightarrow> (renew sent_ms (lt_validity timing) (fst s), snd s)
      | Ping_error _ \<Rightarrow> (clear (fst s), (snd s)\<lparr>ls_conn := None\<rparr>)
      | Ping_timeout \<Rightarrow> (clear (fst s), (snd s)\<lparr>ls_conn := None\<rparr>))"

datatype attempt =
    Attempt_timed_out
  | Attempt_failed
  | Acquired session int lease_status
  | Held "lock_holder option"

definition want_holder :: "instant \<Rightarrow> loop_state \<Rightarrow> bool" where
  "want_holder now st =
     (case ls_holder_asked_at st of None \<Rightarrow> True
      | Some at \<Rightarrow> elapsed now at \<ge> HOLDER_REPORT_INTERVAL)"

definition log_holder :: "lock_holder \<Rightarrow> duration \<Rightarrow> instant \<Rightarrow> loop_state \<Rightarrow> loop_state" where
  "log_holder holder lease now st =
     (let key = (lh_pid holder, lh_backend_start holder);
          changed = (case ls_holder_logged st of None \<Rightarrow> True | Some (k, _) \<Rightarrow> k \<noteq> key);
          since_last_info = map_option (\<lambda>(_, at). elapsed now at) (ls_holder_logged st)
      in case holder_report holder lease changed since_last_info of
           Info \<Rightarrow> st\<lparr>ls_holder_logged := Some (key, now)\<rparr>
         | _ \<Rightarrow> st)"

text \<open>\<^verbatim>\<open>acquire\<close> up to its await, and from there on.\<close>

definition acquire_begin :: "instant \<Rightarrow> loop_state \<Rightarrow> loop_state" where
  "acquire_begin now st =
     (if want_holder now st then st\<lparr>ls_holder_asked_at := Some now\<rparr> else st)"

definition acquire_end ::
    "leader_timing \<Rightarrow> instant \<Rightarrow> attempt \<Rightarrow> leader_election \<times> loop_state
       \<Rightarrow> leader_election \<times> loop_state" where
  "acquire_end timing now att s =
     (case att of
        Attempt_timed_out \<Rightarrow> s
      | Attempt_failed \<Rightarrow> s
      | Acquired conn sent_ms lease \<Rightarrow>
          (renew sent_ms (lt_validity timing) (fst s),
           (snd s)\<lparr>ls_conn := Some conn, ls_holder_logged := None,
             ls_lease_warned := (ls_lease_warned (snd s) \<or> lease = Unsupported)\<rparr>)
      | Held None \<Rightarrow> s
      | Held (Some holder) \<Rightarrow> (fst s, log_holder holder (lt_lease timing) now (snd s)))"

text \<open>
  Where a replica awaits: the lock query carries the clock at which it was sent, and an answer of the
  server that the client has not taken yet stands beside the query it answers.
\<close>

datatype phase =
    Sleeping
  | Pinging int bool
  | Connecting
  | Leasing session
  | Leased session lease_status
  | Locking session lease_status int "bool option"

definition iterate ::
    "leader_timing \<Rightarrow> instant \<Rightarrow> instant \<Rightarrow> leader_election \<times> loop_state
       \<Rightarrow> (leader_election \<times> loop_state) \<times> phase" where
  "iterate timing epoch now s =
     (let st = track_fitness (observe_fitness (le_fitness (fst s)) (lt_release_after timing)) now (snd s);
          unfit_for = map_option (\<lambda>(_, since). elapsed now since) (ls_unfit st);
          release_after = (case lt_release_after timing of Some d \<Rightarrow> d
                           | None \<Rightarrow> (2 ^ 64 - 1) * 1000000000 + 999999999)
      in case next_action (ls_conn st \<noteq> None) unfit_for release_after of
           Release \<Rightarrow> ((clear (fst s), st\<lparr>ls_conn := None\<rparr>), Sleeping)
         | Ping \<Rightarrow> ((fst s, st), Pinging (monotonic_ms epoch now) False)
         | StayFollower \<Rightarrow> ((fst s, st), Sleeping)
         | Acquire \<Rightarrow> ((fst s, acquire_begin now st), Connecting))"

section \<open>The timing\<close>

lemmas timing_defs = from_lease_def check_timing_def from_millis_def from_secs_def as_millis_def
  MAX_RETRY_INTERVAL_def MAX_ACQUIRE_TIMEOUT_def saturating_mul_def u64_max_def

lemma config_timing_ms:
  assumes "lc_lease_secs c \<le> 3600"
  shows "lt_ping_timeout (config_timing c) = min (lc_lease_secs c * 1000 div 6) 5000 * 1000000"
    and "lt_retry_interval (config_timing c) = min (lc_lease_secs c * 1000 div 6) 5000 * 1000000"
    and "lt_validity (config_timing c) = (lc_lease_secs c * 2000 div 3) * 1000000"
    and "lt_lease (config_timing c) = lc_lease_secs c * 1000 * 1000000"
proof -
  have ms: "min (as_millis (from_secs (lc_lease_secs c))) u64_max = lc_lease_secs c * 1000"
    using assms by (simp add: as_millis_def from_secs_def u64_max_def)
  have cap: "saturating_mul (lc_lease_secs c * 1000) 2 = lc_lease_secs c * 2000"
    using assms by (simp add: saturating_mul_def u64_max_def)
  have five: "MAX_RETRY_INTERVAL = 5000 * 1000000"
    by (simp add: MAX_RETRY_INTERVAL_def from_secs_def)
  note d = config_timing_def from_lease_def Let_def ms cap from_millis_def five
  show "lt_ping_timeout (config_timing c) = min (lc_lease_secs c * 1000 div 6) 5000 * 1000000"
    and "lt_retry_interval (config_timing c) = min (lc_lease_secs c * 1000 div 6) 5000 * 1000000"
    by (simp_all add: d min_mult_distrib_right)
  show "lt_validity (config_timing c) = (lc_lease_secs c * 2000 div 3) * 1000000"
    and "lt_lease (config_timing c) = lc_lease_secs c * 1000 * 1000000"
    by (simp_all add: d) (simp add: from_secs_def)
qed

lemma lease_fractions:
  assumes "10 \<le> (l::nat)"
  shows "3 * (l * 1000 div 6) < l * 2000 div 3" and "l * 2000 div 3 < l * 1000"
    and "3 * (l * 1000 div 6) \<le> l * 1000"
proof -
  have "l * 1000 div 6 * 6 \<le> l * 1000" by (rule div_times_less_eq_dividend)
  moreover have "l * 2000 div 3 * 3 \<le> l * 2000" by (rule div_times_less_eq_dividend)
  moreover have "l * 2000 < (l * 2000 div 3 + 1) * 3"
    using dividend_less_div_times [of 3 "l * 2000"] by simp
  ultimately show "3 * (l * 1000 div 6) < l * 2000 div 3" and "l * 2000 div 3 < l * 1000"
    and "3 * (l * 1000 div 6) \<le> l * 1000"
    using assms by linarith+
qed

lemma config_timing_margin:
  assumes "10 \<le> lc_lease_secs c" and "lc_lease_secs c \<le> 3600"
  shows "check_timing (config_timing c) = Inr ()"
proof -
  let ?l = "lc_lease_secs c * 1000"
  note a = lease_fractions(1) [OF assms(1)] and b = lease_fractions(2) [OF assms(1)]
    and d = lease_fractions(3) [OF assms(1)]
  have m: "3 * min (?l div 6) 5000 \<le> 3 * (?l div 6)" by simp
  show ?thesis
    using a b d m by (simp add: check_timing_def config_timing_ms [OF assms(2)] Let_def)
qed

text \<open>
  The checks of the derived timing never reject a configuration: a \<^verbatim>\<open>leader:\<close> section is valid exactly
  if the lease is between 10 and 3600 seconds and the release delay at most 3600, and every valid
  section gives a timing whose pings fit into the validity and whose validity ends before the lease.
\<close>

theorem leader_config_valid_iff:
  "validate_leader c = Inr () \<longleftrightarrow>
     10 \<le> lc_lease_secs c \<and> lc_lease_secs c \<le> 3600 \<and> lc_self_release_after_secs c \<le> 3600"
  by (cases "10 \<le> lc_lease_secs c \<and> lc_lease_secs c \<le> 3600")
    (auto simp: validate_leader_def MIN_LEADER_LEASE_SECS_def MAX_LEADER_LEASE_SECS_def
       MAX_SELF_RELEASE_AFTER_SECS_def config_timing_margin)

section \<open>The role\<close>

lemma never_not_leader [simp]: "i64_min \<le> now_ms \<Longrightarrow> \<not> is_leader now_ms never"
  by (simp add: is_leader_def never_def with_valid_until_def)

lemma always_leader: "now_ms < i64_max \<Longrightarrow> is_leader now_ms always"
  by (simp add: is_leader_def always_def with_valid_until_def)

lemma monotonic_ms_bounds: "0 \<le> monotonic_ms epoch now" "monotonic_ms epoch now \<le> i64_max"
  by (simp_all add: monotonic_ms_def i64_max_def)

lemma monotonic_ms_past:
  assumes "epoch \<le> now"
  shows "int epoch + monotonic_ms epoch now * 1000000 \<le> int now"
proof -
  have "monotonic_ms epoch now \<le> int ((now - epoch) div 1000000)"
    by (simp add: monotonic_ms_def as_millis_def elapsed_def)
  moreover have "int ((now - epoch) div 1000000) * 1000000 \<le> int (now - epoch)"
    using div_times_less_eq_dividend [of "now - epoch" 1000000]
    by (metis of_nat_le_iff of_nat_mult of_nat_numeral)
  ultimately show ?thesis using assms by linarith
qed

text \<open>A handle says yes only before the time that its deadline names.\<close>

lemma is_leader_before:
  assumes "is_leader (monotonic_ms epoch now) le" and "le_valid_until_ms le \<le> i64_max"
  shows "int now < int epoch + le_valid_until_ms le * 1000000"
proof -
  have "monotonic_ms epoch now = int ((now - epoch) div 1000000)"
    using assms
    by (cases "int ((now - epoch) div 1000000) \<le> i64_max")
      (auto simp: is_leader_def monotonic_ms_def as_millis_def elapsed_def min_def)
  then have "int ((now - epoch) div 1000000) < le_valid_until_ms le"
    using assms(1) by (simp add: is_leader_def)
  then have "int ((now - epoch) div 1000000) + 1 \<le> le_valid_until_ms le" by simp
  moreover have "int (now - epoch) < (int ((now - epoch) div 1000000) + 1) * 1000000"
    by (simp add: zdiv_int) 
  ultimately show ?thesis by linarith
qed

lemma renew_bounds:
  assumes "0 \<le> sent_ms"
  shows "le_valid_until_ms (renew sent_ms v le) \<le> i64_max"
    and "le_valid_until_ms (renew sent_ms v le) \<le> sent_ms + int (as_millis v)"
  using assms by (auto simp: renew_def i64_saturating_add_def validity_ms_def i64_max_def i64_min_def)

lemma clear_valid_until [simp]: "le_valid_until_ms (clear le) = i64_min"
  by (simp add: clear_def)

text \<open>
  A leader whose pings succeed keeps the role between them: with every valid configuration, from a
  renewal until the next ping has been answered, which is sent at most a ping timeout and a retry
  interval later and takes at most a ping timeout, the handle says yes all the time.
\<close>

theorem leader_keeps_role:
  assumes "validate_leader c = Inr ()" and "timing = config_timing c"
    and "epoch \<le> sent" and "sent \<le> now"
    and "now \<le> sent + 2 * lt_ping_timeout timing + lt_retry_interval timing"
    and "as_millis now + 3600000 \<le> 2 ^ 63 - 1"
  shows "is_leader (monotonic_ms epoch now) (renew (monotonic_ms epoch sent) (lt_validity timing) le)"
proof -
  have l: "10 \<le> lc_lease_secs c" "lc_lease_secs c \<le> 3600"
    using assms(1) by (auto simp: validate_leader_def MIN_LEADER_LEASE_SECS_def
        MAX_LEADER_LEASE_SECS_def split: if_splits)
  let ?v = "lc_lease_secs c * 2000 div 3"
  let ?p = "min (lc_lease_secs c * 1000 div 6) 5000"
  have v: "as_millis (lt_validity timing) = ?v" and v3: "?v \<le> 2400000"
    using l by (simp_all add: assms(2) config_timing_ms as_millis_def)
  have gap: "3 * ?p < ?v" using lease_fractions(1) [OF l(1)] by linarith
  have "now \<le> sent + 3 * ?p * 1000000"
    using assms(5) by (simp add: assms(2) config_timing_ms [OF l(2)])
  then have "now - epoch \<le> (sent - epoch) + 3 * ?p * 1000000" using assms(3,4) by linarith
  then have "(now - epoch) div 1000000 \<le> ((sent - epoch) + 3 * ?p * 1000000) div 1000000"
    by (rule div_le_mono)
  also have "\<dots> = (sent - epoch) div 1000000 + 3 * ?p" by simp
  finally have e: "as_millis (now - epoch) < as_millis (sent - epoch) + ?v"
    using gap by (simp add: as_millis_def)
  have up: "as_millis (now - epoch) \<le> as_millis now" "as_millis (sent - epoch) \<le> as_millis now"
    using assms(4) by (simp_all add: as_millis_def div_le_mono)
  have "int (as_millis (now - epoch)) + 2400000 \<le> i64_max"
    "int (as_millis (sent - epoch)) + 2400000 \<le> i64_max"
    using up assms(6) by (simp_all add: i64_max_def)
  then show ?thesis
    using e v v3
    by (auto simp: is_leader_def renew_def i64_saturating_add_def validity_ms_def monotonic_ms_def
        elapsed_def i64_min_def)
qed

theorem leader_keeps_role_witness:
  "validate_leader default_leader_config = Inr () \<and>
   is_leader (monotonic_ms 7000000 12000000007) (renew (monotonic_ms 7000000 9000000) (lt_validity (config_timing default_leader_config)) never)"
proof
  have c: "check_timing (config_timing default_leader_config) = Inr ()"
    by (rule config_timing_margin) (simp_all add: default_leader_config_def)
  show v: "validate_leader default_leader_config = Inr ()"
    by (simp add: validate_leader_def c)
      (simp add: default_leader_config_def MIN_LEADER_LEASE_SECS_def MAX_LEADER_LEASE_SECS_def
         MAX_SELF_RELEASE_AFTER_SECS_def)
  show "is_leader (monotonic_ms 7000000 12000000007)
      (renew (monotonic_ms 7000000 9000000) (lt_validity (config_timing default_leader_config)) never)"
    by (rule leader_keeps_role [OF v refl])
      (simp_all add: config_timing_ms as_millis_def default_leader_config_def)
qed

section \<open>Self-release\<close>

lemma next_action_Release:
  "next_action holding unfit after = Release \<longleftrightarrow> holding \<and> (\<exists>d. unfit = Some d \<and> after \<le> d)"
  by (cases "(holding, unfit, after)" rule: next_action.cases) auto

lemma next_action_Ping:
  "next_action holding unfit after = Ping \<longleftrightarrow> holding \<and> \<not> (\<exists>d. unfit = Some d \<and> after \<le> d)"
  by (cases "(holding, unfit, after)" rule: next_action.cases) auto

lemma track_fitness_unfit:
  "ls_unfit (track_fitness unfit now st) =
     (case unfit of None \<Rightarrow> None
      | Some u \<Rightarrow> Some (u, case ls_unfit st of None \<Rightarrow> now | Some (_, since) \<Rightarrow> since))"
  by (auto simp: track_fitness_def split: option.splits)

lemma track_fitness_conn [simp]: "ls_conn (track_fitness unfit now st) = ls_conn st"
  by (simp add: track_fitness_def split: option.splits prod.splits)

lemma acquire_begin_conn [simp]: "ls_conn (acquire_begin now st) = ls_conn st"
  by (simp add: acquire_begin_def)

lemma log_holder_conn [simp]: "ls_conn (log_holder holder lease now st) = ls_conn st"
  by (simp add: log_holder_def Let_def split: holder_report.splits)

text \<open>With self-release off an iteration never gives up or refuses the lock.\<close>

lemma iterate_release_off:
  assumes "lt_release_after timing = None"
  shows "iterate timing epoch now (le, st) =
     ((le, if ls_conn st \<noteq> None then st\<lparr>ls_unfit := None\<rparr> else acquire_begin now (st\<lparr>ls_unfit := None\<rparr>)),
      if ls_conn st \<noteq> None then Pinging (monotonic_ms epoch now) False else Connecting)"
proof -
  have "track_fitness None now st = st\<lparr>ls_unfit := None\<rparr>"
    by (cases st) (simp add: track_fitness_def split: option.split)
  then show ?thesis
    using assms by (cases "ls_conn st") (simp_all add: iterate_def Let_def observe_fitness_def)
qed

text \<open>
  What an iteration may do to the role: it leaves the handle and the connection alone, or clears
  both and goes back to sleep.
\<close>

lemma iterate_cases [consumes 1, case_names keep release]:
  assumes "iterate timing epoch now (le, st) = ((le', st'), ph)"
  obtains "le' = le" and "ls_conn st' = ls_conn st"
      and "ph = (if ls_conn st = None then ph else Pinging (monotonic_ms epoch now) False)"
      and "ls_conn st = None \<Longrightarrow> ph \<in> {Sleeping, Connecting}"
    | "le' = clear le" and "ls_conn st' = None" and "ph = Sleeping" and "ls_conn st \<noteq> None"
proof (cases "ls_conn st")
  case None
  with assms show ?thesis
    by (intro that(1)) (auto simp: iterate_def Let_def next_action_Release next_action_Ping split: action.splits)
next
  case (Some s)
  define st1 where "st1 = track_fitness (observe_fitness (le_fitness le) (lt_release_after timing)) now st"
  have c: "ls_conn st1 = Some s" by (simp add: st1_def Some)
  show ?thesis
    using assms Some c that
    by (cases "map_option (\<lambda>(_, since). elapsed now since) (ls_unfit st1)")
      (auto simp: iterate_def Let_def st1_def [symmetric] split: if_splits)
qed

end
