(* ===== verification/Leader_Cluster.thy ===== *)
theory Leader_Cluster
  imports Leader
begin

text \<open>
  The replicas of a deployment and the sessions of their leader connections (\<^verbatim>\<open>run_loop\<close> and
  \<^verbatim>\<open>try_acquire\<close> of \<^verbatim>\<open>stroem-server/src/leader.rs\<close>), as a transition system: time passes, processes run
  one stretch between two awaits, freeze (take no step), shut down or die, and the server answers
  queries and ends sessions. At most one replica that is alive has the role.

  PostgreSQL is the parameter \<open>ends\<close>: it says when the server may end a session. The assumption about
  it is the documented behaviour: a session whose client still holds it ends only after it was idle
  for its \<^verbatim>\<open>idle_session_timeout\<close>, and its advisory locks are released when it ends.
\<close>

section \<open>States\<close>

text \<open>A timeout of 0 is off, the state of a fresh session and of one on a server before version 14.\<close>

record pg_session =
  ps_idle_since :: instant
  ps_idle_timeout :: nat

record replica =
  rp_alive :: bool
  rp_epoch :: instant
  rp_timing :: leader_timing
  rp_election :: leader_election
  rp_loop :: loop_state
  rp_phase :: phase

record cluster =
  cl_now :: instant
  cl_lock :: "session option"
  cl_sessions :: "session \<Rightarrow> pg_session option"
  cl_next :: session
  cl_replicas :: "nat \<Rightarrow> replica"

fun phase_session :: "phase \<Rightarrow> session option" where
  "phase_session (Leasing s) = Some s"
| "phase_session (Leased s _) = Some s"
| "phase_session (Locking s _ _ _) = Some s"
| "phase_session _ = None"

definition owns :: "replica \<Rightarrow> session \<Rightarrow> bool" where
  "owns r s \<longleftrightarrow> ls_conn (rp_loop r) = Some s \<or> phase_session (rp_phase r) = Some s"

definition client_holds :: "replica \<Rightarrow> session \<Rightarrow> bool" where
  "client_holds r s \<longleftrightarrow> rp_alive r \<and> owns r s"

definition idle_expired :: "instant \<Rightarrow> pg_session \<Rightarrow> bool" where
  "idle_expired now ps \<longleftrightarrow>
     0 < ps_idle_timeout ps \<and> ps_idle_since ps + from_millis (ps_idle_timeout ps) \<le> now"

definition acts_as_leader :: "cluster \<Rightarrow> nat \<Rightarrow> bool" where
  "acts_as_leader c i \<longleftrightarrow>
     rp_alive (cl_replicas c i) \<and>
     is_leader (monotonic_ms (rp_epoch (cl_replicas c i)) (cl_now c)) (rp_election (cl_replicas c i))"

section \<open>Steps\<close>

definition set_replica :: "nat \<Rightarrow> replica \<Rightarrow> cluster \<Rightarrow> cluster" where
  "set_replica i r c = c\<lparr>cl_replicas := (cl_replicas c)(i := r)\<rparr>"

definition set_session :: "session \<Rightarrow> pg_session option \<Rightarrow> cluster \<Rightarrow> cluster" where
  "set_session s ps c = c\<lparr>cl_sessions := (cl_sessions c)(s := ps)\<rparr>"

text \<open>\<^verbatim>\<open>run_loop\<close>: one pass up to the first await, the end of a ping, the end of an attempt, shutdown.\<close>

definition begin_pass :: "instant \<Rightarrow> replica \<Rightarrow> replica" where
  "begin_pass now r =
     (if le_paused (rp_election r) then r
      else let ((le, st), ph) = iterate (rp_timing r) (rp_epoch r) now (rp_election r, rp_loop r)
           in r\<lparr>rp_election := le, rp_loop := st, rp_phase := ph\<rparr>)"

definition end_ping :: "int \<Rightarrow> ping_outcome \<Rightarrow> replica \<Rightarrow> replica" where
  "end_ping sent_ms outcome r =
     (let (le, st) = ping (rp_timing r) sent_ms outcome (rp_election r, rp_loop r)
      in r\<lparr>rp_election := le, rp_loop := st, rp_phase := Sleeping\<rparr>)"

definition end_acquire :: "instant \<Rightarrow> attempt \<Rightarrow> replica \<Rightarrow> replica" where
  "end_acquire now att r =
     (let (le, st) = acquire_end (rp_timing r) now att (rp_election r, rp_loop r)
      in r\<lparr>rp_election := le, rp_loop := st, rp_phase := Sleeping\<rparr>)"

definition shut_down :: "replica \<Rightarrow> replica" where
  "shut_down r =
     r\<lparr>rp_election := clear (rp_election r), rp_loop := (rp_loop r)\<lparr>ls_conn := None\<rparr>,
       rp_alive := False\<rparr>"

text \<open>The session after a query was answered: idle from now on.\<close>

definition answered :: "instant \<Rightarrow> pg_session \<Rightarrow> pg_session" where
  "answered now ps = ps\<lparr>ps_idle_since := now\<rparr>"

definition leased :: "duration \<Rightarrow> lease_status \<Rightarrow> pg_session \<Rightarrow> pg_session" where
  "leased lease status ps =
     (case status of Enforced \<Rightarrow> ps\<lparr>ps_idle_timeout := as_millis lease\<rparr> | Unsupported \<Rightarrow> ps)"

fun acquiring :: "phase \<Rightarrow> bool" where
  "acquiring Sleeping = False"
| "acquiring (Pinging _ _) = False"
| "acquiring _ = True"

text \<open>
  In \<open>handle\<close> a probe is installed, the answer of the probe changes, or a test pauses the loop.
\<close>

inductive cluster_step :: "(cluster \<Rightarrow> session \<Rightarrow> bool) \<Rightarrow> cluster \<Rightarrow> cluster \<Rightarrow> bool"
  for ends :: "cluster \<Rightarrow> session \<Rightarrow> bool" where
  elapse: "cluster_step ends c (c\<lparr>cl_now := cl_now c + d\<rparr>)"
| pass: "cluster_step ends c (set_replica i (begin_pass (cl_now c) (cl_replicas c i)) c)"
    if "rp_alive (cl_replicas c i)" "rp_epoch (cl_replicas c i) \<le> cl_now c"
      "rp_phase (cl_replicas c i) = Sleeping"
| ping_answer:
    "cluster_step ends c (set_session s (Some (answered (cl_now c) ps))
       (set_replica i ((cl_replicas c i)\<lparr>rp_phase := Pinging sent True\<rparr>) c))"
    if "rp_phase (cl_replicas c i) = Pinging sent False" "ls_conn (rp_loop (cl_replicas c i)) = Some s"
      "cl_sessions c s = Some ps"
| ping_ok: "cluster_step ends c (set_replica i (end_ping sent Ping_ok (cl_replicas c i)) c)"
    if "rp_alive (cl_replicas c i)" "rp_phase (cl_replicas c i) = Pinging sent True"
| ping_fails: "cluster_step ends c (set_replica i (end_ping sent outcome (cl_replicas c i)) c)"
    if "rp_alive (cl_replicas c i)" "rp_phase (cl_replicas c i) = Pinging sent b" "outcome \<noteq> Ping_ok"
| connect:
    "cluster_step ends c ((set_session (cl_next c) (Some \<lparr>ps_idle_since = cl_now c, ps_idle_timeout = 0\<rparr>)
       (set_replica i ((cl_replicas c i)\<lparr>rp_phase := Leasing (cl_next c)\<rparr>) c))
         \<lparr>cl_next := cl_next c + 1\<rparr>)"
    if "rp_alive (cl_replicas c i)" "rp_phase (cl_replicas c i) = Connecting"
| lease:
    "cluster_step ends c
       (set_session s (Some (answered (cl_now c) (leased (lt_lease (rp_timing (cl_replicas c i))) status ps)))
         (set_replica i ((cl_replicas c i)\<lparr>rp_phase := Leased s status\<rparr>) c))"
    if "rp_alive (cl_replicas c i)" "rp_phase (cl_replicas c i) = Leasing s" "cl_sessions c s = Some ps"
      "apply_lease result = Inr status"
| lock_query:
    "cluster_step ends c (set_replica i ((cl_replicas c i)\<lparr>rp_phase :=
       Locking s status (monotonic_ms (rp_epoch (cl_replicas c i)) (cl_now c)) None\<rparr>) c)"
    if "rp_alive (cl_replicas c i)" "rp_epoch (cl_replicas c i) \<le> cl_now c"
      "rp_phase (cl_replicas c i) = Leased s status"
| lock_granted:
    "cluster_step ends c ((set_session s (Some (answered (cl_now c) ps))
       (set_replica i ((cl_replicas c i)\<lparr>rp_phase := Locking s status sent (Some True)\<rparr>) c))
         \<lparr>cl_lock := Some s\<rparr>)"
    if "rp_phase (cl_replicas c i) = Locking s status sent None" "cl_sessions c s = Some ps"
      "cl_lock c = None"
| lock_refused:
    "cluster_step ends c (set_session s (Some (answered (cl_now c) ps))
       (set_replica i ((cl_replicas c i)\<lparr>rp_phase := Locking s status sent (Some False)\<rparr>) c))"
    if "rp_phase (cl_replicas c i) = Locking s status sent None" "cl_sessions c s = Some ps"
      "cl_lock c \<noteq> None"
| acquired:
    "cluster_step ends c
       (set_replica i (end_acquire (cl_now c) (Acquired s sent status) (cl_replicas c i)) c)"
    if "rp_alive (cl_replicas c i)" "rp_phase (cl_replicas c i) = Locking s status sent (Some True)"
| held:
    "cluster_step ends c (set_replica i (end_acquire (cl_now c) (Held holder) (cl_replicas c i)) c)"
    if "rp_alive (cl_replicas c i)" "rp_phase (cl_replicas c i) = Locking s status sent (Some False)"
| attempt_fails:
    "cluster_step ends c (set_replica i (end_acquire (cl_now c) att (cl_replicas c i)) c)"
    if "rp_alive (cl_replicas c i)" "acquiring (rp_phase (cl_replicas c i))"
      "att \<in> {Attempt_timed_out, Attempt_failed}"
| cancelled: "cluster_step ends c (set_replica i (shut_down (cl_replicas c i)) c)"
    if "rp_alive (cl_replicas c i)" "rp_phase (cl_replicas c i) = Sleeping"
| dies: "cluster_step ends c (set_replica i ((cl_replicas c i)\<lparr>rp_alive := False\<rparr>) c)"
| handle:
    "cluster_step ends c (set_replica i ((cl_replicas c i)\<lparr>rp_election := le\<rparr>) c)"
    if "le = set_fitness_probe probe (rp_election (cl_replicas c i)) \<or>
        le = (rp_election (cl_replicas c i))\<lparr>le_fitness := Some probe\<rparr> \<or>
        le = pause_for_test b (rp_election (cl_replicas c i))"
| session_ends:
    "cluster_step ends c
       ((set_session s None c)\<lparr>cl_lock := (if cl_lock c = Some s then None else cl_lock c)\<rparr>)"
    if "ends c s"

text \<open>What is assumed of the server.\<close>

definition keeps_held_sessions :: "(cluster \<Rightarrow> session \<Rightarrow> bool) \<Rightarrow> bool" where
  "keeps_held_sessions ends \<longleftrightarrow>
     (\<forall>c s. ends c s \<longrightarrow> (\<forall>i. \<not> client_holds (cl_replicas c i) s) \<or>
        (\<forall>ps. cl_sessions c s = Some ps \<longrightarrow> idle_expired (cl_now c) ps))"

text \<open>Processes as \<^verbatim>\<open>start_with\<close> leaves them, and a database without leader sessions.\<close>

definition fresh_replica :: "replica \<Rightarrow> bool" where
  "fresh_replica r \<longleftrightarrow>
     rp_election r = never \<and> rp_loop r = default_loop_state \<and> rp_phase r = Sleeping \<and>
     check_timing (rp_timing r) = Inr ()"

definition fresh_cluster :: "cluster \<Rightarrow> bool" where
  "fresh_cluster c \<longleftrightarrow>
     cl_lock c = None \<and> (\<forall>s. cl_sessions c s = None) \<and> (\<forall>i. fresh_replica (cl_replicas c i))"

section \<open>The invariant\<close>

text \<open>
  A replica knows of session \<open>s\<close> that it was alive at \<open>v\<close> milliseconds of its own clock: either the
  session still holds the lock and the server has seen it since, or the validity counted from \<open>v\<close> is
  over.
\<close>

definition lease_ok :: "cluster \<Rightarrow> replica \<Rightarrow> session \<Rightarrow> int \<Rightarrow> bool" where
  "lease_ok c r s v \<longleftrightarrow>
     (case cl_sessions c s of
        Some ps \<Rightarrow> cl_lock c = Some s \<and>
          ps_idle_timeout ps \<in> {0, as_millis (lt_lease (rp_timing r))} \<and>
          int (rp_epoch r) + v * 1000000 \<le> int (ps_idle_since ps)
      | None \<Rightarrow> int (rp_epoch r) + (v + int (as_millis (lt_validity (rp_timing r)))) * 1000000 \<le> int (cl_now c))"

definition timeout_ok :: "cluster \<Rightarrow> replica \<Rightarrow> session \<Rightarrow> bool" where
  "timeout_ok c r s \<longleftrightarrow>
     (\<forall>ps. cl_sessions c s = Some ps \<longrightarrow> ps_idle_timeout ps \<in> {0, as_millis (lt_lease (rp_timing r))})"

definition sent_ok :: "cluster \<Rightarrow> replica \<Rightarrow> int \<Rightarrow> bool" where
  "sent_ok c r sent \<longleftrightarrow> 0 \<le> sent \<and> int (rp_epoch r) + sent * 1000000 \<le> int (cl_now c)"

definition role_ok :: "cluster \<Rightarrow> replica \<Rightarrow> bool" where
  "role_ok c r \<longleftrightarrow>
     (case ls_conn (rp_loop r) of
        None \<Rightarrow> le_valid_until_ms (rp_election r) = i64_min
      | Some s \<Rightarrow> le_valid_until_ms (rp_election r) \<le> i64_max \<and>
          (\<exists>v. le_valid_until_ms (rp_election r) \<le> v + int (as_millis (lt_validity (rp_timing r))) \<and>
             lease_ok c r s v))"

fun phase_ok :: "cluster \<Rightarrow> replica \<Rightarrow> phase \<Rightarrow> bool" where
  "phase_ok c r Sleeping = True"
| "phase_ok c r (Pinging sent got) =
     (sent_ok c r sent \<and> (\<exists>s. ls_conn (rp_loop r) = Some s \<and> (got \<longrightarrow> lease_ok c r s sent)))"
| "phase_ok c r Connecting = (ls_conn (rp_loop r) = None)"
| "phase_ok c r (Leasing s) = (ls_conn (rp_loop r) = None \<and> timeout_ok c r s)"
| "phase_ok c r (Leased s status) = (ls_conn (rp_loop r) = None \<and> timeout_ok c r s)"
| "phase_ok c r (Locking s status sent reply) =
     (ls_conn (rp_loop r) = None \<and> timeout_ok c r s \<and> sent_ok c r sent \<and>
      (reply = Some True \<longrightarrow> lease_ok c r s sent))"

definition replica_inv :: "cluster \<Rightarrow> replica \<Rightarrow> bool" where
  "replica_inv c r \<longleftrightarrow>
     rp_alive r \<longrightarrow> lt_validity (rp_timing r) < lt_lease (rp_timing r) \<and> role_ok c r \<and> phase_ok c r (rp_phase r)"

definition tables_inv :: "cluster \<Rightarrow> bool" where
  "tables_inv c \<longleftrightarrow>
     (\<forall>s ps. cl_sessions c s = Some ps \<longrightarrow> s < cl_next c \<and> ps_idle_since ps \<le> cl_now c) \<and>
     (\<forall>s. cl_lock c = Some s \<longrightarrow> cl_sessions c s \<noteq> None)"

definition owners_inv :: "session \<Rightarrow> (nat \<Rightarrow> replica) \<Rightarrow> bool" where
  "owners_inv n rs \<longleftrightarrow>
     (\<forall>i s. owns (rs i) s \<longrightarrow> s < n) \<and> (\<forall>i j s. owns (rs i) s \<longrightarrow> owns (rs j) s \<longrightarrow> i = j)"

definition cluster_inv :: "cluster \<Rightarrow> bool" where
  "cluster_inv c \<longleftrightarrow>
     tables_inv c \<and> owners_inv (cl_next c) (cl_replicas c) \<and> (\<forall>i. replica_inv c (cl_replicas c i))"

section \<open>What others may do to a session\<close>

definition session_le :: "cluster \<Rightarrow> cluster \<Rightarrow> session \<Rightarrow> bool" where
  "session_le c c' s \<longleftrightarrow>
     (case cl_sessions c s of
        None \<Rightarrow> cl_sessions c' s = None
      | Some ps \<Rightarrow> \<exists>ps'. cl_sessions c' s = Some ps' \<and> ps_idle_timeout ps' = ps_idle_timeout ps \<and>
          ps_idle_since ps \<le> ps_idle_since ps' \<and> (cl_lock c = Some s \<longrightarrow> cl_lock c' = Some s))"

lemma session_le_refl: "cl_sessions c' s = cl_sessions c s \<Longrightarrow> cl_lock c' = cl_lock c \<Longrightarrow> session_le c c' s"
  by (simp add: session_le_def split: option.split)

lemma lease_ok_mono:
  assumes "lease_ok c r s v" and "session_le c c' s" and "cl_now c \<le> cl_now c'"
  shows "lease_ok c' r s v"
  using assms by (cases "cl_sessions c s") (auto simp: lease_ok_def session_le_def)

lemma timeout_ok_mono: "timeout_ok c r s \<Longrightarrow> session_le c c' s \<Longrightarrow> timeout_ok c' r s"
  by (cases "cl_sessions c s") (auto simp: timeout_ok_def session_le_def)

lemma sent_ok_mono: "sent_ok c r sent \<Longrightarrow> cl_now c \<le> cl_now c' \<Longrightarrow> sent_ok c' r sent"
  by (simp add: sent_ok_def)

lemma replica_inv_transfer:
  assumes inv: "replica_inv c r" and now: "cl_now c \<le> cl_now c'"
    and lease: "\<And>s v. rp_alive r \<Longrightarrow> owns r s \<Longrightarrow> lt_validity (rp_timing r) < lt_lease (rp_timing r) \<Longrightarrow>
      lease_ok c r s v \<Longrightarrow> lease_ok c' r s v"
    and timeout: "\<And>s. owns r s \<Longrightarrow> timeout_ok c r s \<Longrightarrow> timeout_ok c' r s"
  shows "replica_inv c' r"
  unfolding replica_inv_def
proof (intro impI conjI)
  assume alive: "rp_alive r"
  then show v: "lt_validity (rp_timing r) < lt_lease (rp_timing r)"
    using inv by (simp add: replica_inv_def)
  have l: "owns r s \<Longrightarrow> lease_ok c r s x \<Longrightarrow> lease_ok c' r s x" for s x
    using lease [OF alive _ v] by blast
  have o: "role_ok c r" "phase_ok c r (rp_phase r)" using inv alive by (simp_all add: replica_inv_def)
  show "role_ok c' r"
    using o(1) l by (auto simp: role_ok_def owns_def split: option.splits)
  show "phase_ok c' r (rp_phase r)"
    using o(2) l timeout now by (cases "rp_phase r") (auto simp: owns_def intro: sent_ok_mono)
qed

lemma replica_inv_mono:
  assumes "replica_inv c r" and "\<And>s. owns r s \<Longrightarrow> session_le c c' s" and "cl_now c \<le> cl_now c'"
  shows "replica_inv c' r"
  using assms(1,3) by (rule replica_inv_transfer) (use assms in \<open>auto intro: lease_ok_mono timeout_ok_mono\<close>)

text \<open>A session that the server ends for idleness was idle longer than its owner trusts it.\<close>

lemma lease_ok_expired:
  assumes "lease_ok c r s v" and "lt_validity (rp_timing r) < lt_lease (rp_timing r)"
    and "\<And>ps. cl_sessions c s = Some ps \<Longrightarrow> idle_expired (cl_now c) ps"
    and "cl_sessions c' s = None" and "cl_now c' = cl_now c"
  shows "lease_ok c' r s v"
proof (cases "cl_sessions c s")
  case None
  with assms show ?thesis by (simp add: lease_ok_def)
next
  case (Some ps)
  have "as_millis (lt_validity (rp_timing r)) \<le> as_millis (lt_lease (rp_timing r))"
    using assms(2) by (simp add: as_millis_def div_le_mono)
  moreover have "ps_idle_timeout ps = as_millis (lt_lease (rp_timing r))"
    and "int (ps_idle_since ps) + int (ps_idle_timeout ps) * 1000000 \<le> int (cl_now c)"
    using assms(1) assms(3) [OF Some] Some by (auto simp: lease_ok_def idle_expired_def from_millis_def)
  moreover have "int (rp_epoch r) + v * 1000000 \<le> int (ps_idle_since ps)"
    using assms(1) Some by (simp add: lease_ok_def)
  ultimately show ?thesis
    using assms(4,5) by (simp add: lease_ok_def)
qed

section \<open>Preservation\<close>

lemma set_replica_simps [simp]:
  "cl_now (set_replica i r c) = cl_now c" "cl_lock (set_replica i r c) = cl_lock c"
  "cl_sessions (set_replica i r c) = cl_sessions c" "cl_next (set_replica i r c) = cl_next c"
  "cl_replicas (set_replica i r c) = (cl_replicas c)(i := r)"
  by (simp_all add: set_replica_def)

lemma set_session_simps [simp]:
  "cl_now (set_session s p c) = cl_now c" "cl_lock (set_session s p c) = cl_lock c"
  "cl_sessions (set_session s p c) = (cl_sessions c)(s := p)" "cl_next (set_session s p c) = cl_next c"
  "cl_replicas (set_session s p c) = cl_replicas c"
  by (simp_all add: set_session_def)

lemma owners_inv_update:
  assumes "owners_inv n rs" and "n \<le> n'"
    and "\<And>s. owns r s \<Longrightarrow> owns (rs i) s \<or> (n \<le> s \<and> s < n')"
  shows "owners_inv n' (rs(i := r))"
  using assms unfolding owners_inv_def by (auto, (metis le_antisym less_le_trans not_less)+)

text \<open>One replica moves; of the sessions it does not own nothing changes.\<close>

lemma cluster_inv_move:
  assumes inv: "cluster_inv c" and rs: "cl_replicas c' = (cl_replicas c)(i := r)"
    and now: "cl_now c \<le> cl_now c'" and nxt: "cl_next c \<le> cl_next c'"
    and own: "\<And>s. owns r s \<Longrightarrow> owns (cl_replicas c i) s \<or> (cl_next c \<le> s \<and> s < cl_next c')"
    and others: "\<And>j s. j \<noteq> i \<Longrightarrow> owns (cl_replicas c j) s \<Longrightarrow> session_le c c' s"
    and new: "replica_inv c' r" and tab: "tables_inv c'"
  shows "cluster_inv c'"
  unfolding cluster_inv_def
proof (intro conjI allI)
  show "owners_inv (cl_next c') (cl_replicas c')"
    using inv nxt own unfolding rs cluster_inv_def by (intro owners_inv_update) auto
  show "replica_inv c' (cl_replicas c' j)" for j
  proof (cases "j = i")
    case False
    then have "replica_inv c (cl_replicas c j)" and "cl_replicas c' j = cl_replicas c j"
      using inv by (simp_all add: cluster_inv_def rs)
    with others [OF False] now show ?thesis by (metis replica_inv_mono)
  qed (simp add: rs new)
qed (rule tab)

lemma cluster_inv_replica:
  assumes "cluster_inv c" and "\<And>s. owns r s \<Longrightarrow> owns (cl_replicas c i) s"
    and "replica_inv c r"
  shows "cluster_inv (set_replica i r c)"
proof (rule cluster_inv_move [OF assms(1), where i = i and r = r])
  show "replica_inv (set_replica i r c) r"
    using assms(3) by (rule replica_inv_mono) (simp_all add: session_le_refl)
  show "tables_inv (set_replica i r c)"
    using assms(1) by (simp add: cluster_inv_def tables_inv_def)
qed (use assms(2) in \<open>auto intro: session_le_refl\<close>)

text \<open>The server answers a query of replica \<open>i\<close> on its session.\<close>

lemma cluster_inv_answer:
  assumes inv: "cluster_inv c" and s: "owns (cl_replicas c i) s" "cl_sessions c s = Some ps"
    and own: "\<And>t. owns r t \<Longrightarrow> owns (cl_replicas c i) t"
    and lock: "l = cl_lock c \<or> (cl_lock c = None \<and> l = Some s)" and idle: "ps_idle_since ps' \<le> cl_now c"
    and c': "c' = (set_session s (Some ps') (set_replica i r c))\<lparr>cl_lock := l\<rparr>"
    and new: "replica_inv c' r"
  shows "cluster_inv c'"
proof (rule cluster_inv_move [OF inv, where i = i and r = r])
  show "session_le c c' t" if "j \<noteq> i" "owns (cl_replicas c j) t" for j t
  proof -
    have "t \<noteq> s" using inv s(1) that unfolding cluster_inv_def owners_inv_def by blast
    then show ?thesis using lock by (auto simp: c' session_le_def split: option.split)
  qed
  show "tables_inv c'" using inv lock s(2) idle by (auto simp: c' cluster_inv_def tables_inv_def)
qed (use own new in \<open>auto simp: c'\<close>)

lemma lease_ok_now:
  assumes "cl_sessions c s = Some ps" "cl_lock c = Some s" "timeout_ok c r s" "sent_ok c r sent"
    "ps_idle_since ps = cl_now c"
  shows "lease_ok c r s sent"
  using assms by (simp add: lease_ok_def timeout_ok_def sent_ok_def)

lemma replica_irrelevant [simp]:
  "lease_ok c (r\<lparr>rp_phase := ph\<rparr>) = lease_ok c r" "lease_ok c (r\<lparr>rp_election := le\<rparr>) = lease_ok c r"
  "lease_ok c (r\<lparr>rp_loop := st\<rparr>) = lease_ok c r" "timeout_ok c (r\<lparr>rp_phase := ph\<rparr>) = timeout_ok c r"
  "timeout_ok c (r\<lparr>rp_election := le\<rparr>) = timeout_ok c r" "timeout_ok c (r\<lparr>rp_loop := st\<rparr>) = timeout_ok c r"
  "sent_ok c (r\<lparr>rp_phase := ph\<rparr>) = sent_ok c r" "sent_ok c (r\<lparr>rp_election := le\<rparr>) = sent_ok c r"
  "sent_ok c (r\<lparr>rp_loop := st\<rparr>) = sent_ok c r" "role_ok c (r\<lparr>rp_phase := ph\<rparr>) = role_ok c r"
  by (auto simp: fun_eq_iff lease_ok_def timeout_ok_def sent_ok_def role_ok_def split: option.split)

lemma phase_ok_irrelevant [simp]:
  "phase_ok c (r\<lparr>rp_phase := ph\<rparr>) ph' = phase_ok c r ph'"
  "phase_ok c (r\<lparr>rp_election := le\<rparr>) ph' = phase_ok c r ph'"
  by (cases ph'; simp)+

lemma sent_now: "rp_epoch r \<le> cl_now c \<Longrightarrow> sent_ok c r (monotonic_ms (rp_epoch r) (cl_now c))"
  by (simp add: sent_ok_def monotonic_ms_bounds monotonic_ms_past)

lemma role_ok_renewed:
  assumes "ls_conn (rp_loop r) = Some s" and "rp_election r = renew sent (lt_validity (rp_timing r)) le"
    and "lease_ok c r s sent" and "sent_ok c r sent"
  shows "role_ok c r"
  using assms(3) renew_bounds [of sent "lt_validity (rp_timing r)" le] assms(4)
  by (auto simp: role_ok_def sent_ok_def assms(1,2) intro!: exI [of _ sent])

lemma role_ok_cleared:
  "le_valid_until_ms (rp_election r) = i64_min \<Longrightarrow> ls_conn (rp_loop r) = None \<Longrightarrow> role_ok c r"
  by (simp add: role_ok_def)

lemma begin_pass_inv:
  assumes "replica_inv c r" and "rp_epoch r \<le> cl_now c" and "rp_phase r = Sleeping"
  shows "replica_inv c (begin_pass (cl_now c) r)"
    and "owns (begin_pass (cl_now c) r) s \<Longrightarrow> owns r s"
proof -
  obtain le st ph where it:
      "iterate (rp_timing r) (rp_epoch r) (cl_now c) (rp_election r, rp_loop r) = ((le, st), ph)"
    by (metis surj_pair)
  have "replica_inv c (begin_pass (cl_now c) r) \<and> (owns (begin_pass (cl_now c) r) s \<longrightarrow> owns r s)"
  proof (cases "le_paused (rp_election r)")
    case True
    with assms(1) show ?thesis by (simp add: begin_pass_def)
  next
    case False
    then have b: "begin_pass (cl_now c) r = r\<lparr>rp_election := le, rp_loop := st, rp_phase := ph\<rparr>"
      by (simp add: begin_pass_def it)
    show ?thesis using it
    proof (cases rule: iterate_cases)
      case keep
      then show ?thesis
        using assms sent_now [OF assms(2)]
        by (cases "ls_conn (rp_loop r)")
          (auto simp: b replica_inv_def role_ok_def owns_def)
    next
      case release
      then show ?thesis by (simp add: b replica_inv_def role_ok_def owns_def assms [unfolded replica_inv_def])
    qed
  qed
  then show "replica_inv c (begin_pass (cl_now c) r)"
    and "owns (begin_pass (cl_now c) r) s \<Longrightarrow> owns r s" by blast+
qed

lemma end_ping_inv:
  assumes "replica_inv c r" and "rp_alive r" and "rp_phase r = Pinging sent b"
    and "outcome = Ping_ok \<Longrightarrow> b"
  shows "replica_inv c (end_ping sent outcome r)"
    and "owns (end_ping sent outcome r) s \<Longrightarrow> owns r s"
proof -
  obtain t where t: "ls_conn (rp_loop r) = Some t" "sent_ok c r sent" "b \<Longrightarrow> lease_ok c r t sent"
    using assms(1-3) by (auto simp: replica_inv_def)
  have v: "lt_validity (rp_timing r) < lt_lease (rp_timing r)"
    using assms(1,2) by (simp add: replica_inv_def)
  have "role_ok c (end_ping sent outcome r)"
  proof (cases outcome)
    case Ping_ok
    with t assms(4) show ?thesis
      by (intro role_ok_renewed [where s = t and sent = sent]) (simp_all add: end_ping_def ping_def)
  qed (rule role_ok_cleared, simp_all add: end_ping_def ping_def)+
  with v show "replica_inv c (end_ping sent outcome r)"
    by (simp add: replica_inv_def end_ping_def ping_def split: ping_outcome.split prod.split)
  show "owns (end_ping sent outcome r) s \<Longrightarrow> owns r s"
    by (cases outcome) (simp_all add: end_ping_def ping_def owns_def)
qed

lemma end_acquire_inv:
  assumes "replica_inv c r" and "rp_alive r" and "acquiring (rp_phase r)"
    and "\<And>s sent status. att = Acquired s sent status \<Longrightarrow> rp_phase r = Locking s status sent (Some True)"
  shows "replica_inv c (end_acquire now att r)"
    and "owns (end_acquire now att r) s \<Longrightarrow> owns r s"
proof -
  have n: "ls_conn (rp_loop r) = None" "le_valid_until_ms (rp_election r) = i64_min"
    and v: "lt_validity (rp_timing r) < lt_lease (rp_timing r)"
    using assms(1-3) by (cases "rp_phase r"; simp add: replica_inv_def role_ok_def)+
  have "role_ok c (end_acquire now att r)"
  proof (cases att)
    case (Acquired s sent status)
    then have "lease_ok c r s sent" "sent_ok c r sent"
      using assms(1,2,4) by (auto simp: replica_inv_def)
    then show ?thesis
      by (intro role_ok_renewed [where s = s and sent = sent])
        (simp_all add: end_acquire_def acquire_end_def Acquired)
  next
    case (Held h)
    then show ?thesis
      using n by (cases h) (simp_all add: end_acquire_def acquire_end_def role_ok_cleared)
  qed (use n in \<open>simp_all add: end_acquire_def acquire_end_def role_ok_cleared\<close>)
  with v show "replica_inv c (end_acquire now att r)"
    by (simp add: replica_inv_def end_acquire_def split: prod.split)
  show "owns (end_acquire now att r) s \<Longrightarrow> owns r s"
    using assms(4) n by (cases att)
      (auto simp: end_acquire_def acquire_end_def owns_def split: option.splits)
qed

lemma session_ends_inv:
  assumes inv: "cluster_inv c" and pg: "keeps_held_sessions ends" and e: "ends c s"
  shows "cluster_inv ((set_session s None c)\<lparr>cl_lock := (if cl_lock c = Some s then None else cl_lock c)\<rparr>)"
    (is "cluster_inv ?c")
proof -
  have other: "session_le c ?c t" if "t \<noteq> s" for t
    using that by (simp add: session_le_def split: option.split)
  have "replica_inv ?c (cl_replicas c i)" for i
  proof (rule replica_inv_transfer [of c])
    show "replica_inv c (cl_replicas c i)" using inv by (simp add: cluster_inv_def)
    fix t v
    assume o: "owns (cl_replicas c i) t"
    show "timeout_ok c (cl_replicas c i) t \<Longrightarrow> timeout_ok ?c (cl_replicas c i) t"
      using other by (cases "t = s") (auto simp: timeout_ok_def intro: timeout_ok_mono)
    assume a: "rp_alive (cl_replicas c i)" and l: "lease_ok c (cl_replicas c i) t v"
      and val: "lt_validity (rp_timing (cl_replicas c i)) < lt_lease (rp_timing (cl_replicas c i))"
    show "lease_ok ?c (cl_replicas c i) t v"
    proof (cases "t = s")
      case True
      then have "\<forall>ps. cl_sessions c s = Some ps \<longrightarrow> idle_expired (cl_now c) ps"
        using pg e o a unfolding keeps_held_sessions_def client_holds_def by blast
      then show ?thesis
        by (intro lease_ok_expired [OF l val]) (simp_all add: True)
    qed (use l other in \<open>auto intro: lease_ok_mono\<close>)
  qed simp
  moreover have "tables_inv c" using inv by (simp add: cluster_inv_def)
  then have "tables_inv ?c" by (auto simp: tables_inv_def)
  ultimately show ?thesis using inv by (simp add: cluster_inv_def)
qed

lemma elapse_inv:
  assumes "cluster_inv c"
  shows "cluster_inv (c\<lparr>cl_now := cl_now c + d\<rparr>)"
proof -
  have "replica_inv (c\<lparr>cl_now := cl_now c + d\<rparr>) (cl_replicas c i)" for i
    by (rule replica_inv_mono [of c]) (use assms in \<open>simp_all add: cluster_inv_def session_le_refl\<close>)
  moreover have "tables_inv c" using assms by (simp add: cluster_inv_def)
  then have "tables_inv (c\<lparr>cl_now := cl_now c + d\<rparr>)" by (auto simp: tables_inv_def trans_le_add1)
  ultimately show ?thesis using assms by (simp add: cluster_inv_def)
qed

lemma connect_inv:
  assumes inv: "cluster_inv c" and a: "rp_alive (cl_replicas c i)" "rp_phase (cl_replicas c i) = Connecting"
  shows "cluster_inv ((set_session (cl_next c) (Some \<lparr>ps_idle_since = cl_now c, ps_idle_timeout = 0\<rparr>)
       (set_replica i ((cl_replicas c i)\<lparr>rp_phase := Leasing (cl_next c)\<rparr>) c))
         \<lparr>cl_next := cl_next c + 1\<rparr>)" (is "cluster_inv ?c")
proof (rule cluster_inv_move [OF inv, where i = i and r = "(cl_replicas c i)\<lparr>rp_phase := Leasing (cl_next c)\<rparr>"])
  have r: "replica_inv c (cl_replicas c i)" using inv by (simp add: cluster_inv_def)
  then have n: "ls_conn (rp_loop (cl_replicas c i)) = None" using a by (simp add: replica_inv_def)
  show "session_le c ?c s" if "owns (cl_replicas c j) s" for j s
  proof -
    have "s < cl_next c" using inv that by (auto simp: cluster_inv_def owners_inv_def)
    then show ?thesis by (auto simp: session_le_def split: option.split)
  qed
  show "owns (cl_replicas c i) s \<or> cl_next c \<le> s \<and> s < cl_next ?c"
    if "owns ((cl_replicas c i)\<lparr>rp_phase := Leasing (cl_next c)\<rparr>) s" for s
    using that by (auto simp: owns_def)
  show "replica_inv ?c ((cl_replicas c i)\<lparr>rp_phase := Leasing (cl_next c)\<rparr>)"
    using r n a by (simp add: replica_inv_def role_ok_def timeout_ok_def)
  show "tables_inv ?c" using inv by (auto simp: cluster_inv_def tables_inv_def less_Suc_eq)
qed simp_all

lemma answered_simps [simp]:
  "ps_idle_since (answered now ps) = now" "ps_idle_timeout (answered now ps) = ps_idle_timeout ps"
  by (simp_all add: answered_def)

lemma session_le_answered:
  assumes "cluster_inv c" and "cl_sessions c s = Some ps"
    and "cl_sessions c' s = Some (answered (cl_now c) ps)" and "cl_lock c = Some s \<Longrightarrow> cl_lock c' = Some s"
  shows "session_le c c' s"
  using assms by (auto simp: session_le_def cluster_inv_def tables_inv_def)

lemma lock_unchanged:
  "set_session s p (set_replica i r c) = (set_session s p (set_replica i r c))\<lparr>cl_lock := cl_lock c\<rparr>"
  by (cases c) (simp add: set_session_def set_replica_def)

lemma ping_answer_inv:
  assumes inv: "cluster_inv c" and ph: "rp_phase (cl_replicas c i) = Pinging sent False"
    and s: "ls_conn (rp_loop (cl_replicas c i)) = Some s" "cl_sessions c s = Some ps"
  shows "cluster_inv (set_session s (Some (answered (cl_now c) ps))
       (set_replica i ((cl_replicas c i)\<lparr>rp_phase := Pinging sent True\<rparr>) c))" (is "cluster_inv ?c")
proof (rule cluster_inv_answer [OF inv _ s(2) _ _ _ lock_unchanged])
  let ?r = "cl_replicas c i"
  have "replica_inv ?c ?r"
    by (rule replica_inv_mono [of c])
      (use inv s ph session_le_answered [OF inv s(2)] in \<open>auto simp: cluster_inv_def owns_def\<close>)
  moreover have "lease_ok ?c ?r s sent" if "rp_alive ?r" "role_ok ?c ?r" "sent_ok ?c ?r sent"
    using that s by (auto simp: role_ok_def lease_ok_def sent_ok_def)
  ultimately show "replica_inv ?c (?r\<lparr>rp_phase := Pinging sent True\<rparr>)"
    using ph s by (auto simp: replica_inv_def)
qed (use s ph in \<open>auto simp: owns_def\<close>)

lemma lease_inv:
  assumes inv: "cluster_inv c" and ph: "rp_phase (cl_replicas c i) = Leasing s" and s: "cl_sessions c s = Some ps"
  shows "cluster_inv
       (set_session s (Some (answered (cl_now c) (leased (lt_lease (rp_timing (cl_replicas c i))) status ps)))
         (set_replica i ((cl_replicas c i)\<lparr>rp_phase := Leased s status\<rparr>) c))" (is "cluster_inv ?c")
proof (rule cluster_inv_answer [OF inv _ s _ _ _ lock_unchanged])
  let ?r = "cl_replicas c i"
  have r: "replica_inv c ?r" using inv by (simp add: cluster_inv_def)
  then show "replica_inv ?c (?r\<lparr>rp_phase := Leased s status\<rparr>)"
    using ph s by (cases status) (auto simp: replica_inv_def role_ok_def timeout_ok_def leased_def)
qed (use s ph in \<open>auto simp: owns_def\<close>)

lemma lock_answer_inv:
  assumes inv: "cluster_inv c" and ph: "rp_phase (cl_replicas c i) = Locking s status sent None"
    and s: "cl_sessions c s = Some ps"
    and l: "l = (if granted then Some s else cl_lock c)" "granted \<Longrightarrow> cl_lock c = None"
  shows "cluster_inv ((set_session s (Some (answered (cl_now c) ps))
       (set_replica i ((cl_replicas c i)\<lparr>rp_phase := Locking s status sent (Some granted)\<rparr>) c))
         \<lparr>cl_lock := l\<rparr>)" (is "cluster_inv ?c")
proof (rule cluster_inv_answer [OF inv _ s _ _ _ refl])
  let ?r = "cl_replicas c i"
  have "session_le c ?c t" for t
  proof (cases "t = s")
    case True
    with l show ?thesis by (auto intro!: session_le_answered [OF inv s])
  qed (use l in \<open>auto simp: session_le_def split: option.split\<close>)
  then have "replica_inv ?c ?r"
    by (rule replica_inv_mono [of c, rotated]) (use inv in \<open>simp_all add: cluster_inv_def\<close>)
  moreover have "lease_ok ?c ?r s sent" if "granted" "timeout_ok ?c ?r s" "sent_ok ?c ?r sent"
    using that l by (intro lease_ok_now [of _ _ "answered (cl_now c) ps"]) auto
  ultimately show "replica_inv ?c (?r\<lparr>rp_phase := Locking s status sent (Some granted)\<rparr>)"
    using ph s by (auto simp: replica_inv_def)
qed (use s ph l in \<open>auto simp: owns_def\<close>)

lemma handle_inv:
  assumes "replica_inv c r" and "le_valid_until_ms le = le_valid_until_ms (rp_election r)"
  shows "replica_inv c (r\<lparr>rp_election := le\<rparr>)"
  using assms by (simp add: replica_inv_def role_ok_def split: option.splits)

lemma cluster_step_inv:
  assumes "cluster_step ends c c'" and "keeps_held_sessions ends" and inv: "cluster_inv c"
  shows "cluster_inv c'"
  using assms(1)
proof cases
  have r: "replica_inv c (cl_replicas c i)" for i using inv by (simp add: cluster_inv_def)
  note keep = cluster_inv_replica [OF inv]
  {
    case (elapse d) then show ?thesis using elapse_inv [OF inv] by simp
  next
    case (pass i) then show ?thesis using keep begin_pass_inv [OF r] by metis
  next
    case ping_answer then show ?thesis using ping_answer_inv [OF inv] by simp
  next
    case (ping_ok i sent) then show ?thesis using keep end_ping_inv [OF r] by metis
  next
    case (ping_fails i sent b outcome) then show ?thesis using keep end_ping_inv [OF r] by metis
  next
    case connect then show ?thesis using connect_inv [OF inv] by simp
  next
    case lease then show ?thesis using lease_inv [OF inv] by simp
  next
    case (lock_query i s status)
    then show ?thesis
      using sent_now [of "cl_replicas c i" c] r [of i]
      by (auto intro!: keep simp: replica_inv_def owns_def)
  next
    case (lock_granted i s status sent ps)
    then show ?thesis using lock_answer_inv [OF inv, of i s status sent ps "Some s" True] by simp
  next
    case (lock_refused i s status sent ps)
    then show ?thesis
      using lock_answer_inv [OF inv, of i s status sent ps "cl_lock c" False] by (metis lock_unchanged)
  next
    case (acquired i s status sent)
    then show ?thesis
      by (auto intro!: keep end_acquire_inv(1) [OF r] dest: end_acquire_inv(2) [OF r, rotated 3])
  next
    case (held i s status sent holder)
    then show ?thesis
      by (auto intro!: keep end_acquire_inv(1) [OF r] dest: end_acquire_inv(2) [OF r, rotated 3])
  next
    case (attempt_fails i att)
    then show ?thesis
      by (auto intro!: keep end_acquire_inv(1) [OF r] dest: end_acquire_inv(2) [OF r, rotated 3])
  next
    case (cancelled i)
    then show ?thesis by (auto intro!: keep simp: replica_inv_def shut_down_def owns_def)
  next
    case (dies i) then show ?thesis by (auto intro!: keep simp: replica_inv_def owns_def)
  next
    case (handle le probe i b)
    then show ?thesis
      using r [of i] by (auto intro!: keep handle_inv simp: owns_def set_fitness_probe_def pause_for_test_def)
  next
    case (session_ends s) then show ?thesis using session_ends_inv [OF inv assms(2)] by simp
  }
qed

lemma fresh_cluster_inv:
  assumes "fresh_cluster c"
  shows "cluster_inv c"
proof -
  have "lt_validity t < lt_lease t" if "check_timing t = Inr ()" for t
    using that by (auto simp: check_timing_def Let_def split: if_splits)
  then have "replica_inv c r" if "fresh_replica r" for r
    using that by (auto simp: fresh_replica_def replica_inv_def role_ok_def default_loop_state_def never_def
        with_valid_until_def)
  moreover have "\<not> owns r s" if "fresh_replica r" for r s
    using that by (simp add: fresh_replica_def owns_def default_loop_state_def)
  ultimately show ?thesis
    using assms by (simp add: fresh_cluster_def cluster_inv_def tables_inv_def owners_inv_def)
qed

lemma cluster_reachable_inv:
  assumes "(cluster_step ends)\<^sup>*\<^sup>* c c'" and "keeps_held_sessions ends" and "cluster_inv c"
  shows "cluster_inv c'"
  using assms by (induction rule: rtranclp_induct) (auto intro: cluster_step_inv)

text \<open>A replica that acts as the leader has the session that holds the lock.\<close>

lemma leader_has_lock:
  assumes inv: "cluster_inv c" and "acts_as_leader c i"
  shows "\<exists>s. cl_lock c = Some s \<and> owns (cl_replicas c i) s"
proof -
  let ?r = "cl_replicas c i"
  have alive: "rp_alive ?r" and l: "is_leader (monotonic_ms (rp_epoch ?r) (cl_now c)) (rp_election ?r)"
    using assms(2) by (simp_all add: acts_as_leader_def)
  have role: "role_ok c ?r" using inv alive by (simp add: cluster_inv_def replica_inv_def)
  obtain s where s: "ls_conn (rp_loop ?r) = Some s"
  proof (cases "ls_conn (rp_loop ?r)")
    case None
    with role have "le_valid_until_ms (rp_election ?r) = i64_min" by (simp add: role_ok_def)
    with l have False
      using monotonic_ms_bounds(1) [of "rp_epoch ?r" "cl_now c"] by (simp add: is_leader_def i64_min_def)
    then show ?thesis ..
  qed blast
  obtain v where v: "le_valid_until_ms (rp_election ?r) \<le> i64_max"
      "le_valid_until_ms (rp_election ?r) \<le> v + int (as_millis (lt_validity (rp_timing ?r)))" "lease_ok c ?r s v"
    using role s by (auto simp: role_ok_def)
  have "le_valid_until_ms (rp_election ?r) * 1000000
      \<le> (v + int (as_millis (lt_validity (rp_timing ?r)))) * 1000000"
    using v(2) by simp
  with is_leader_before [OF l v(1)]
  have "\<not> int (rp_epoch ?r) + (v + int (as_millis (lt_validity (rp_timing ?r)))) * 1000000 \<le> int (cl_now c)"
    by linarith
  with v(3) have "cl_lock c = Some s" by (simp add: lease_ok_def split: option.splits)
  with s show ?thesis by (auto simp: owns_def)
qed


text \<open>Two replicas, the server of the documentation, and a run in which the first takes the lock.\<close>

definition idle_or_dropped :: "cluster \<Rightarrow> session \<Rightarrow> bool" where
  "idle_or_dropped c s \<longleftrightarrow>
     (\<forall>i. \<not> client_holds (cl_replicas c i) s) \<or>
     (case cl_sessions c s of None \<Rightarrow> True | Some ps \<Rightarrow> idle_expired (cl_now c) ps)"

definition started_replica :: replica where
  "started_replica =
     \<lparr>rp_alive = True, rp_epoch = 0, rp_timing = default_timing, rp_election = never,
      rp_loop = default_loop_state, rp_phase = Sleeping\<rparr>"

definition started_cluster :: cluster where
  "started_cluster =
     \<lparr>cl_now = 0, cl_lock = None, cl_sessions = (\<lambda>_. None), cl_next = 0, cl_replicas = (\<lambda>_. started_replica)\<rparr>"

definition asked_loop :: loop_state where
  "asked_loop = default_loop_state\<lparr>ls_holder_asked_at := Some 0\<rparr>"

definition run_state :: "session option \<Rightarrow> pg_session option \<Rightarrow> session \<Rightarrow> leader_election \<Rightarrow> loop_state \<Rightarrow> phase \<Rightarrow> cluster" where
  "run_state lock ps n le st ph =
     \<lparr>cl_now = 0, cl_lock = lock, cl_sessions = (\<lambda>_. None)(0 := ps), cl_next = n,
      cl_replicas = (\<lambda>_. started_replica)
        (0 := started_replica\<lparr>rp_election := le, rp_loop := st, rp_phase := ph\<rparr>)\<rparr>"

lemma started_timing: "lt_lease default_timing = 30 * 1000000000" "lt_validity default_timing = 20 * 1000000000"
  by (simp_all add: default_timing_def from_lease_def Let_def from_secs_def from_millis_def as_millis_def
      saturating_mul_def u64_max_def)

lemma run_to_leader:
  "(cluster_step ends)\<^sup>*\<^sup>* started_cluster
     (run_state (Some 0) (Some \<lparr>ps_idle_since = 0, ps_idle_timeout = 30000\<rparr>) 1
        (renew 0 (lt_validity default_timing) never) (asked_loop\<lparr>ls_conn := Some 0\<rparr>) Sleeping)"
proof -
  let ?ps = "\<lparr>ps_idle_since = 0, ps_idle_timeout = 0\<rparr>" and ?ps' = "\<lparr>ps_idle_since = 0, ps_idle_timeout = 30000\<rparr>"
  note d = run_state_def set_replica_def set_session_def fun_upd_idem_iff answered_def
  have a: "cluster_step ends started_cluster (run_state None None 0 never asked_loop Connecting)"
    using pass [of started_cluster 0 ends]
    by (simp add: d started_cluster_def started_replica_def begin_pass_def iterate_def Let_def observe_fitness_def
        never_def with_valid_until_def default_timing_def from_lease_def track_fitness_def default_loop_state_def
        acquire_begin_def want_holder_def asked_loop_def fun_eq_iff)
  have b: "cluster_step ends (run_state None None 0 never asked_loop Connecting)
      (run_state None (Some ?ps) 1 never asked_loop (Leasing 0))"
    using connect [of "run_state None None 0 never asked_loop Connecting" 0 ends]
    by (simp add: d started_replica_def)
  have e: "cluster_step ends (run_state None (Some ?ps) 1 never asked_loop (Leasing 0))
      (run_state None (Some ?ps') 1 never asked_loop (Leased 0 Enforced))"
    using lease [of "run_state None (Some ?ps) 1 never asked_loop (Leasing 0)" 0 0 ?ps "Inr ()" Enforced ends]
    by (simp add: d started_replica_def apply_lease_def leased_def started_timing as_millis_def)
  have f: "cluster_step ends (run_state None (Some ?ps') 1 never asked_loop (Leased 0 Enforced))
      (run_state None (Some ?ps') 1 never asked_loop (Locking 0 Enforced 0 None))"
    using lock_query [of "run_state None (Some ?ps') 1 never asked_loop (Leased 0 Enforced)" 0 0 Enforced ends]
    by (simp add: d started_replica_def monotonic_ms_def elapsed_def as_millis_def i64_max_def)
  have g: "cluster_step ends (run_state None (Some ?ps') 1 never asked_loop (Locking 0 Enforced 0 None))
      (run_state (Some 0) (Some ?ps') 1 never asked_loop (Locking 0 Enforced 0 (Some True)))"
    using lock_granted [of "run_state None (Some ?ps') 1 never asked_loop (Locking 0 Enforced 0 None)" 0 0 Enforced 0 ?ps' ends]
    by (simp add: d started_replica_def)
  have h: "cluster_step ends (run_state (Some 0) (Some ?ps') 1 never asked_loop (Locking 0 Enforced 0 (Some True)))
      (run_state (Some 0) (Some ?ps') 1 (renew 0 (lt_validity default_timing) never) (asked_loop\<lparr>ls_conn := Some 0\<rparr>) Sleeping)"
    using acquired [of "run_state (Some 0) (Some ?ps') 1 never asked_loop (Locking 0 Enforced 0 (Some True))" 0 0 Enforced 0 ends]
    by (simp add: d started_replica_def end_acquire_def acquire_end_def asked_loop_def default_loop_state_def)
  from a b e f g h show ?thesis by (meson r_into_rtranclp rtranclp_trans)
qed


end
