(* ===== verification/Json_Field.thy ===== *)
theory Json_Field
  imports Workflow_Model
begin

text \<open>
  The rule for \<^verbatim>\<open>json\<close> input fields (\<^verbatim>\<open>stroem-common/src/json_field.rs\<close>): which strings are literal text,
  which are one expression, how an expression is evaluated to its native value, and how the position
  of an error is mapped back to the text the author wrote. Rendering is the Tera engine and reading
  JSON is \<^verbatim>\<open>serde_json\<close>; both are arguments.

  The theory also holds the errors the template functions return: \<^verbatim>\<open>anyhow\<close> chains, outermost first,
  with the two marker types the server looks for.
\<close>

section \<open>Errors\<close>

datatype provenance_bucket = CallerBucket | ActionDefaultBucket

datatype file_input_error_kind = CannotUse | FileRequired

text \<open>
  The error types the server looks for by type: those of the pin store, of references, of ref names,
  and of a name that is missing at a ref.
\<close>

datatype error_kind =
    Kind_pin_not_git | Kind_pin_ref_not_found string | Kind_pin_commit_not_found | Kind_pin_load_failed
  | Kind_pin_unavailable | Kind_pin_load_withheld
  | Kind_ref_not_git | Kind_ref_agent_action | Kind_ref_other
  | Kind_git_ref | Kind_missing_at_ref

datatype app_error =
    Msg string
  | Typed error_kind string
  | Template_error string "(nat \<times> nat) option"
  | File_input_error string file_input_error_kind
  | Context string app_error
  | Tagged provenance_bucket app_error
  | Owner_side_render app_error

definition with_context :: "string \<Rightarrow> app_error + 'a \<Rightarrow> app_error + 'a" where
  "with_context c r = (case r of Inl e \<Rightarrow> Inl (Context c e) | Inr v \<Rightarrow> Inr v)"

definition tagged :: "provenance_bucket \<Rightarrow> app_error + 'a \<Rightarrow> app_error + 'a" where
  "tagged b r = (case r of Inl e \<Rightarrow> Inl (Tagged b e) | Inr v \<Rightarrow> Inr v)"

definition owner_side_render :: "app_error + 'a \<Rightarrow> app_error + 'a" where
  "owner_side_render r = (case r of Inl e \<Rightarrow> Inl (Owner_side_render e) | Inr v \<Rightarrow> Inr v)"

lemma owner_side_render_Inr [simp]: "owner_side_render r = Inr v \<longleftrightarrow> r = Inr v"
  by (cases r) (simp_all add: owner_side_render_def)

lemma with_context_Inr [simp]: "with_context c r = Inr v \<longleftrightarrow> r = Inr v"
  by (cases r) (simp_all add: with_context_def)

lemma tagged_Inr [simp]: "tagged b r = Inr v \<longleftrightarrow> r = Inr v"
  by (cases r) (simp_all add: tagged_def)

text \<open>A loop that stops at the first error.\<close>

fun fold_result :: "('b \<Rightarrow> 'a \<Rightarrow> 'e + 'b) \<Rightarrow> 'a list \<Rightarrow> 'b \<Rightarrow> 'e + 'b" where
  "fold_result f [] acc = Inr acc"
| "fold_result f (x # xs) acc = (case f acc x of Inl e \<Rightarrow> Inl e | Inr acc' \<Rightarrow> fold_result f xs acc')"

lemma fold_result_inv:
  assumes "fold_result f xs acc = Inr r" and "P acc"
    and "\<And>a x b. x \<in> set xs \<Longrightarrow> P a \<Longrightarrow> f a x = Inr b \<Longrightarrow> P b"
  shows "P r"
  using assms
proof (induction xs arbitrary: acc)
  case (Cons x xs)
  then obtain b where b: "f acc x = Inr b" "fold_result f xs b = Inr r" by (auto split: sum.splits)
  show ?case by (rule Cons.IH [OF b(2)]) (use Cons.prems b(1) in auto)
qed simp

type_synonym template_renderer = "string \<Rightarrow> json \<Rightarrow> app_error + string"
type_synonym json_reader = "string \<Rightarrow> json option" \<comment> \<open>\<^verbatim>\<open>serde_json::from_str\<close>\<close>

section \<open>Classification\<close>

definition looks_templated :: "string \<Rightarrow> bool" where
  "looks_templated s \<longleftrightarrow> contains s ''{{'' \<or> contains s ''{%'' \<or> contains s ''{#''"

definition PREFIX :: string where
  "PREFIX = ''{% set __stroem_v = ''"

definition SUFFIX :: string where
  "SUFFIX = '' %}{% if __stroem_v is undefined %}{{ __stroem_v }}{% endif %}{{ __stroem_v | json_encode() }}''"

definition DELIMITERS :: "string list" where
  "DELIMITERS = [''{{'', ''}}'', ''{%'', ''%}'', ''{#'', ''#}'']"

definition NOT_JSON :: string where
  "NOT_JSON = ''the expression''@ [CHR 0x27] @ ''s value could not be converted to JSON''"

record single_expr =
  se_inner :: string
  se_start :: "nat \<times> nat"

datatype classified = Literal | Single single_expr | Mixed

definition is_ascii_whitespace :: "char \<Rightarrow> bool" where
  "is_ascii_whitespace c \<longleftrightarrow> byte c \<in> {9, 10, 12, 13, 32}"

definition strip_suffix :: "string \<Rightarrow> string \<Rightarrow> string option" where
  "strip_suffix p s = map_option rev (strip_prefix (rev p) (rev s))"

definition newline :: char where
  "newline = CHR 0x0A"

definition newlines :: "string \<Rightarrow> nat" where
  "newlines s = length (filter (\<lambda>c. c = newline) s)"

definition char_count :: "string \<Rightarrow> nat" where
  "char_count s = length (filter (\<lambda>c. \<not> continuation c) s)"

text \<open>\<^verbatim>\<open>s.rsplit('\n').next()\<close>: what follows the last newline.\<close>

definition last_line :: "string \<Rightarrow> string" where
  "last_line s = rev (takeWhile (\<lambda>c. c \<noteq> newline) (rev s))"

definition position_of :: "string \<Rightarrow> nat \<Rightarrow> nat \<times> nat" where
  "position_of s b = (1 + newlines (take b s), char_count (last_line (take b s)) + 1)"

definition classify :: "string \<Rightarrow> classified" where
  "classify s =
     (if \<not> looks_templated s then Literal
      else let lead = length (takeWhile is_ascii_whitespace s);
               trimmed = rev (dropWhile is_ascii_whitespace (rev (dropWhile is_ascii_whitespace s)))
           in case strip_prefix ''{{'' trimmed of
                None \<Rightarrow> Mixed
              | Some b \<Rightarrow> (case strip_suffix ''}}'' b of
                    None \<Rightarrow> Mixed
                  | Some body \<Rightarrow>
                      (let (body', open_len) =
                         (case strip_prefix ''-'' body of Some b' \<Rightarrow> (b', 3) | None \<Rightarrow> (body, 2));
                           inner = (case strip_suffix ''-'' body' of Some i \<Rightarrow> i | None \<Rightarrow> body')
                       in if list_ex (contains inner) DELIMITERS then Mixed
                          else Single \<lparr>se_inner = inner, se_start = position_of s (lead + open_len)\<rparr>)))"

definition map_position :: "single_expr \<Rightarrow> nat \<times> nat \<Rightarrow> (nat \<times> nat) option" where
  "map_position e pos =
     (let p = char_count PREFIX;
          (l, c) = pos;
          last_l = 1 + newlines (se_inner e);
          last_col = (if newlines (se_inner e) = 0 then p + char_count (se_inner e)
                      else char_count (last_line (se_inner e)));
          before_start = (l = 0 \<or> (l = 1 \<and> c < p + 1));
          after_end = (l > last_l \<or> (l = last_l \<and> c > last_col))
      in if before_start \<or> after_end then None
         else let (l0, c0) = se_start e
              in if l = 1 then Some (l0, c0 + c - (p + 1)) else Some (l0 + l - 1, c))"

section \<open>Evaluation\<close>

text \<open>
  \<^verbatim>\<open>err.to_string()\<close> is the outermost message; \<^verbatim>\<open>downcast\<close> finds the template error under any contexts.
\<close>

fun error_text :: "app_error \<Rightarrow> string" where
  "error_text (Msg m) = m"
| "error_text (Typed _ m) = m"
| "error_text (Template_error m _) = m"
| "error_text (File_input_error f k) = ''Input field '' @ [CHR 0x27] @ f @ [CHR 0x27] @
     (case k of CannotUse \<Rightarrow> '': the file cannot be used'' | FileRequired \<Rightarrow> '': a file is required'')"
| "error_text (Context c _) = c"
| "error_text (Tagged b _) = (case b of CallerBucket \<Rightarrow> ''resolving Caller inputs''
     | ActionDefaultBucket \<Rightarrow> ''resolving ActionDefault inputs'')"
| "error_text (Owner_side_render _) = ''rendering the task's own defaults''"

fun chain_length :: "app_error \<Rightarrow> nat" where
  "chain_length (Context _ e) = Suc (chain_length e)"
| "chain_length (Tagged _ e) = Suc (chain_length e)"
| "chain_length (Owner_side_render e) = Suc (chain_length e)"
| "chain_length _ = 1"

fun template_error_in :: "app_error \<Rightarrow> (string \<times> (nat \<times> nat) option) option" where
  "template_error_in (Template_error m p) = Some (m, p)"
| "template_error_in (Context _ e) = template_error_in e"
| "template_error_in (Tagged _ e) = template_error_in e"
| "template_error_in (Owner_side_render e) = template_error_in e"
| "template_error_in _ = None"

definition remap :: "app_error \<Rightarrow> single_expr \<Rightarrow> app_error" where
  "remap err expr =
     (case template_error_in err of
        None \<Rightarrow> err
      | Some (m, p) \<Rightarrow>
          let e = Template_error m (Option.bind p (map_position expr))
          in if chain_length err > 1 then Context (error_text err) e else e)"

definition eval_single :: "json_reader \<Rightarrow> (string \<Rightarrow> app_error + string) \<Rightarrow> single_expr \<Rightarrow> app_error + json" where
  "eval_single from_str render expr =
     (case render (PREFIX @ se_inner expr @ SUFFIX) of
        Inl e \<Rightarrow> Inl (remap e expr)
      | Inr text \<Rightarrow> (case from_str text of Some v \<Rightarrow> Inr v | None \<Rightarrow> Inl (Msg NOT_JSON)))"

text \<open>A path holds the index at every array level and \<open>None\<close> at every object level.\<close>

definition index_text :: "nat option list \<Rightarrow> string" where
  "index_text path = concat (map (\<lambda>i. case i of Some n \<Rightarrow> ''['' @ show_nat n @ '']'' | None \<Rightarrow> []) path)"

definition location :: "string \<Rightarrow> nat option list \<Rightarrow> string" where
  "location field path =
     (let name = ''Input field '' @ [CHR 0x27] @ field @ [CHR 0x27] in
      if path \<noteq> [] \<and> None \<notin> set path then name @ '' at `'' @ index_text path @ ''`'' else name)"

fun walk :: "json_reader \<Rightarrow> (string \<Rightarrow> app_error + string) \<Rightarrow> string \<Rightarrow> nat option list \<Rightarrow> json \<Rightarrow> app_error + json"
  and walk_entries :: "json_reader \<Rightarrow> (string \<Rightarrow> app_error + string) \<Rightarrow> string \<Rightarrow> nat option list
    \<Rightarrow> (string \<times> json) list \<Rightarrow> app_error + (string \<times> json) list"
  and walk_items :: "json_reader \<Rightarrow> (string \<Rightarrow> app_error + string) \<Rightarrow> string \<Rightarrow> nat option list
    \<Rightarrow> nat \<Rightarrow> json list \<Rightarrow> app_error + json list" where
  "walk from_str render field path (String s) =
     (case classify s of
        Literal \<Rightarrow> Inr (String s)
      | Single expr \<Rightarrow> with_context (location field path) (eval_single from_str render expr)
      | Mixed \<Rightarrow> Inl (Msg (location field path @
          '': a json field takes a literal value or a single {{ expression }}'')))"
| "walk from_str render field path (Object m) = map_sum id Object (walk_entries from_str render field path m)"
| "walk from_str render field path (Array xs) = map_sum id Array (walk_items from_str render field path 0 xs)"
| "walk from_str render field path v = Inr v"
| "walk_entries from_str render field path [] = Inr []"
| "walk_entries from_str render field path (e # es) =
     (case walk from_str render field (path @ [None]) (snd e) of
        Inl err \<Rightarrow> Inl err
      | Inr v \<Rightarrow> map_sum id (\<lambda>r. (fst e, v) # r) (walk_entries from_str render field path es))"
| "walk_items from_str render field path i [] = Inr []"
| "walk_items from_str render field path i (x # xs) =
     (case walk from_str render field (path @ [Some i]) x of
        Inl err \<Rightarrow> Inl err
      | Inr v \<Rightarrow> map_sum id (\<lambda>r. v # r) (walk_items from_str render field path (Suc i) xs))"

definition render_json_value :: "json_reader \<Rightarrow> template_renderer \<Rightarrow> json \<Rightarrow> string \<Rightarrow> json \<Rightarrow> app_error + json" where
  "render_json_value from_str render value field ctx = walk from_str (\<lambda>t. render t ctx) field [] value"

section \<open>Linting\<close>

record json_lint =
  jl_mixed :: bool
  jl_encodes_to_text :: bool

definition ends_in_json_encode :: "string \<Rightarrow> bool" where
  "ends_in_json_encode inner =
     (if CHR 0x7C \<notin> set inner then False
      else case strip_prefix ''json_encode'' (trim (rev (takeWhile (\<lambda>c. c \<noteq> CHR 0x7C) (rev inner)))) of
             None \<Rightarrow> False
           | Some rest \<Rightarrow> rest = [] \<or> hd rest = CHR ''('')"

fun lint_walk :: "json \<Rightarrow> json_lint \<Rightarrow> json_lint" where
  "lint_walk (String s) lint =
     (case classify s of
        Mixed \<Rightarrow> lint\<lparr>jl_mixed := True\<rparr>
      | Single expr \<Rightarrow> if ends_in_json_encode (se_inner expr) then lint\<lparr>jl_encodes_to_text := True\<rparr> else lint
      | Literal \<Rightarrow> lint)"
| "lint_walk (Object m) lint = fold (\<lambda>e. lint_walk (snd e)) m lint"
| "lint_walk (Array xs) lint = fold lint_walk xs lint"
| "lint_walk _ lint = lint"

definition lint_json_value :: "json \<Rightarrow> json_lint" where
  "lint_json_value v = lint_walk v \<lparr>jl_mixed = False, jl_encodes_to_text = False\<rparr>"

section \<open>Positions\<close>

lemma newlines_append [simp]: "newlines (a @ b) = newlines a + newlines b"
  by (simp add: newlines_def)

lemma char_count_append [simp]: "char_count (a @ b) = char_count a + char_count b"
  by (simp add: char_count_def)

lemma newlines_0: "newlines s = 0 \<longleftrightarrow> newline \<notin> set s"
  by (auto simp: newlines_def filter_empty_conv)

lemma last_line_append:
  "last_line (a @ b) = (if newlines b = 0 then last_line a @ b else last_line b)"
proof (cases "newline \<in> set b")
  case True
  then show ?thesis by (simp add: last_line_def newlines_0)
next
  case False
  then have "takeWhile (\<lambda>c. c \<noteq> newline) (rev b @ rev a) = rev b @ takeWhile (\<lambda>c. c \<noteq> newline) (rev a)"
    by (intro takeWhile_append2) auto
  with False show ?thesis by (simp add: last_line_def newlines_0)
qed

lemma last_line_id: "newlines s = 0 \<Longrightarrow> last_line s = s"
  using last_line_append [of "[]" s] by (simp add: last_line_def)

lemma PREFIX_newlines [simp]: "newlines PREFIX = 0"
  by (simp add: newlines_0 PREFIX_def newline_def)

lemma position_append:
  "position_of (a @ b) (length a + k) =
     (fst (position_of a (length a)) + newlines (take k b),
      if newlines (take k b) = 0 then snd (position_of a (length a)) + char_count (take k b)
      else char_count (last_line (take k b)) + 1)"
  by (simp add: position_of_def last_line_append)

text \<open>In front of the start of a character the last line has fewer characters than to the end.\<close>

lemma char_count_before:
  assumes "k < length s" and "\<not> continuation (s ! k)"
  shows "char_count (take k s) < char_count s"
proof -
  have "s = take k s @ s ! k # drop (Suc k) s" using assms(1) by (simp add: id_take_nth_drop)
  then have "char_count s = char_count (take k s) + char_count (s ! k # drop (Suc k) s)"
    by (metis char_count_append)
  then show ?thesis using assms(2) by (simp add: char_count_def)
qed

lemma newlines_take_le: "newlines (take k s) \<le> newlines s"
  by (metis append_take_drop_id le_add1 newlines_append)

lemma last_line_before:
  assumes "k < length s" and "\<not> continuation (s ! k)" and "s ! k \<noteq> newline"
    and "newlines (take k s) = newlines s"
  shows "char_count (last_line (take k s)) < char_count (last_line s)"
proof -
  let ?t = "take k s" and ?d = "drop k s"
  have d: "newlines ?d = 0" using assms(4) by (metis add_cancel_left_right append_take_drop_id newlines_append)
  have "last_line s = last_line ?t @ ?d" using last_line_append [of ?t ?d] d by simp
  moreover have "0 < char_count ?d"
    using assms(1,2) by (simp add: char_count_def Cons_nth_drop_Suc [symmetric])
  ultimately show ?thesis by simp
qed

text \<open>
  The position of an error is mapped back exactly: for every character of a single expression
  that is not a newline, the position Tera sees in the wrapped template becomes the position of that
  character in the string the author wrote.
\<close>

theorem map_position_exact:
  assumes "s = before @ inner @ rest" and "e = \<lparr>se_inner = inner, se_start = position_of s (length before)\<rparr>"
    and "k < length inner" and "\<not> continuation (inner ! k)" and "inner ! k \<noteq> newline"
  shows "map_position e (position_of (PREFIX @ inner @ SUFFIX) (length PREFIX + k)) =
     Some (position_of s (length before + k))"
proof -
  let ?t = "take k inner" and ?p = "char_count PREFIX"
  have t: "take k (inner @ x) = ?t" for x using assms(3) by simp
  have pre: "position_of PREFIX (length PREFIX) = (1, ?p + 1)"
    by (simp add: position_of_def last_line_id)
  have w: "position_of (PREFIX @ inner @ SUFFIX) (length PREFIX + k) =
      (1 + newlines ?t, if newlines ?t = 0 then ?p + 1 + char_count ?t else char_count (last_line ?t) + 1)"
    using position_append [of PREFIX "inner @ SUFFIX" k] by (simp add: t pre del: take_append)
  have o: "position_of s (length before + k) =
      (fst (se_start e) + newlines ?t,
       if newlines ?t = 0 then snd (se_start e) + char_count ?t else char_count (last_line ?t) + 1)"
    using position_append [of before "inner @ rest" k] position_append [of before "inner @ rest" 0]
    by (simp add: assms(1,2) t del: take_append) (simp add: position_of_def newlines_def char_count_def)
  have lines: "newlines ?t \<le> newlines inner" by (rule newlines_take_le)
  have "char_count ?t < char_count inner" using assms(3,4) by (rule char_count_before)
  moreover have "newlines ?t = newlines inner \<Longrightarrow> char_count (last_line ?t) < char_count (last_line inner)"
    using assms(3-5) by (intro last_line_before) auto
  ultimately show ?thesis
    unfolding w o using lines assms(2)
    by (auto simp: map_position_def Let_def split: prod.split)
qed

theorem map_position_exact_witness:
  "map_position \<lparr>se_inner = '' step.total '', se_start = position_of '' {{ step.total }}'' 3\<rparr>
     (position_of (PREFIX @ '' step.total '' @ SUFFIX) (length PREFIX + 6)) =
     Some (position_of '' {{ step.total }}'' (length '' {{'' + 6))"
  by (rule map_position_exact [where inner = "'' step.total ''" and rest = "''}}''"])
    (simp_all add: continuation_def byte_def newline_def numeral_3_eq_3)

text \<open>A single expression is found where it stands.\<close>

lemma classify_single:
  assumes "classify s = Single e"
  obtains before rest where "s = before @ se_inner e @ rest" and "se_start e = position_of s (length before)"
    and "\<not> list_ex (contains (se_inner e)) DELIMITERS"
proof -
  let ?l = "takeWhile is_ascii_whitespace s"
  let ?m = "dropWhile is_ascii_whitespace s"
  obtain tail where tail: "?m = rev (dropWhile is_ascii_whitespace (rev ?m)) @ tail"
    by (metis rev_append rev_rev_ident takeWhile_dropWhile_id)
  obtain b body where b: "rev (dropWhile is_ascii_whitespace (rev ?m)) = ''{{'' @ b" "b = body @ ''}}''"
    using assms by (auto simp: classify_def Let_def strip_suffix_def strip_prefix_Some split: if_splits option.splits)
  define body' where "body' = (case strip_prefix ''-'' body of Some b' \<Rightarrow> b' | None \<Rightarrow> body)"
  define n where "n = (case strip_prefix ''-'' body of Some b' \<Rightarrow> 3 | None \<Rightarrow> (2::nat))"
  define inner where "inner = (case strip_suffix ''-'' body' of Some i \<Rightarrow> i | None \<Rightarrow> body')"
  have e: "e = \<lparr>se_inner = inner, se_start = position_of s (length ?l + n)\<rparr>"
    and d: "\<not> list_ex (contains inner) DELIMITERS"
    using assms b
    by (auto simp: classify_def Let_def strip_suffix_def body'_def n_def inner_def
        split: if_splits option.splits)
  obtain dash where dash: "''{{'' @ body = dash @ body'" "length dash = n"
    by (cases "strip_prefix ''-'' body") (auto simp: body'_def n_def strip_prefix_Some)
  obtain rest where rest: "body' = inner @ rest"
  proof (cases "strip_suffix ''-'' body'")
    case (Some i)
    then have "body' = i @ ''-''"
      by (auto simp: strip_suffix_def strip_prefix_Some)
    with Some that show ?thesis by (simp add: inner_def)
  qed (use that in \<open>simp add: inner_def\<close>)
  have "s = ?l @ ?m" by simp
  also have "?m = dash @ inner @ rest @ ''}}'' @ tail"
    using tail b dash(1) rest by (metis append.assoc)
  finally have "s = (?l @ dash) @ inner @ rest @ ''}}'' @ tail" by simp
  with e d dash(2) show ?thesis
    by (intro that [of "?l @ dash" "rest @ ''}}'' @ tail"]) simp_all
qed

section \<open>Linting is exact\<close>

lemma fold_mixed:
  assumes "\<And>x lint. x \<in> set xs \<Longrightarrow> jl_mixed (f x lint) \<longleftrightarrow> jl_mixed lint \<or> P x"
  shows "jl_mixed (fold f xs lint) \<longleftrightarrow> jl_mixed lint \<or> list_ex P xs"
  using assms by (induction xs arbitrary: lint) auto

lemma list_ex_concat_map: "list_ex P (concat (map f xs)) \<longleftrightarrow> list_ex (\<lambda>x. list_ex P (f x)) xs"
  by (induction xs) auto

lemma lint_walk_mixed:
  "jl_mixed (lint_walk v lint) \<longleftrightarrow> jl_mixed lint \<or> list_ex (\<lambda>s. classify s = Mixed) (collect_strings v)"
proof (induction v lint rule: lint_walk.induct)
  case (1 s lint)
  then show ?case by (cases "classify s") auto
next
  case (2 m lint)
  then show ?case by (simp add: list_ex_concat_map fold_mixed [where P = "\<lambda>e. list_ex (\<lambda>s. classify s = Mixed) (collect_strings (snd e))"])
next
  case (3 xs lint)
  then show ?case by (simp add: list_ex_concat_map fold_mixed [where P = "\<lambda>x. list_ex (\<lambda>s. classify s = Mixed) (collect_strings x)"])
qed simp_all

text \<open>An engine on which every template renders, to a text that is JSON.\<close>

definition total_engine :: "json_reader \<Rightarrow> (string \<Rightarrow> app_error + string) \<Rightarrow> bool" where
  "total_engine from_str render \<longleftrightarrow> (\<forall>t. \<exists>x. render t = Inr x) \<and> (\<forall>t. \<exists>v. from_str t = Some v)"

lemma eval_single_total: "total_engine from_str render \<Longrightarrow> \<exists>v. eval_single from_str render expr = Inr v"
  unfolding total_engine_def eval_single_def by (metis option.simps(5) sum.case(2))

lemma map_sum_Inr: "(\<exists>y. map_sum id f r = Inr y) \<longleftrightarrow> (\<exists>x. r = Inr x)"
  by (cases r) auto

lemma walk_total:
  "total_engine from_str render \<Longrightarrow> (\<exists>v'. walk from_str render field path v = Inr v') \<longleftrightarrow>
      \<not> list_ex (\<lambda>s. classify s = Mixed) (collect_strings v)"
  "total_engine from_str render \<Longrightarrow> (\<exists>m'. walk_entries from_str render field path m = Inr m') \<longleftrightarrow>
      \<not> list_ex (\<lambda>e. list_ex (\<lambda>s. classify s = Mixed) (collect_strings (snd e))) m"
  "total_engine from_str render \<Longrightarrow> (\<exists>xs'. walk_items from_str render field path i xs = Inr xs') \<longleftrightarrow>
      \<not> list_ex (\<lambda>x. list_ex (\<lambda>s. classify s = Mixed) (collect_strings x)) xs"
proof (induction from_str render field path v and from_str render field path m
    and from_str render field path i xs rule: walk_walk_entries_walk_items.induct)
  case (1 from_str render field path s)
  then show ?case using eval_single_total [OF "1"] by (cases "classify s") auto
next
  case (6 from_str render field path e es)
  then show ?case by (cases "walk from_str render field (path @ [None]) (snd e)") (auto simp: map_sum_Inr)
next
  case (8 from_str render field path i x xs)
  then show ?case by (cases "walk from_str render field (path @ [Some i]) x") (auto simp: map_sum_Inr)
qed (simp_all add: map_sum_Inr list_ex_concat_map)

text \<open>
  The linter is exact: it reports no mixed text in a value of a \<^verbatim>\<open>json\<close> field exactly if the
  value renders whenever its expressions do, whatever field it is for and wherever the texts stand.
\<close>

theorem lint_mixed_exact:
  assumes "total_engine from_str (\<lambda>t. render t ctx)"
  shows "\<not> jl_mixed (lint_json_value v) \<longleftrightarrow> (\<exists>v'. render_json_value from_str render v field ctx = Inr v')"
  by (simp add: lint_json_value_def lint_walk_mixed render_json_value_def walk_total(1) [OF assms])

theorem lint_mixed_exact_witness:
  "\<not> jl_mixed (lint_json_value (Array [String ''a'', String ''{{ x }}''])) \<and>
   (\<exists>v'. render_json_value (\<lambda>_. Some Null) (\<lambda>t c. Inr t) (Array [String ''a'', String ''{{ x }}'']) ''f'' Null = Inr v')"
proof -
  have "\<not> jl_mixed (lint_json_value (Array [String ''a'', String ''{{ x }}'']))"
    by (simp add: lint_json_value_def classify_def looks_templated_def contains_def sublist_code strip_suffix_def
        is_ascii_whitespace_def byte_def DELIMITERS_def ends_in_json_encode_def Let_def)
  with lint_mixed_exact [of "\<lambda>_. Some Null" "\<lambda>t c. Inr t" Null] show ?thesis
    by (simp add: total_engine_def)
qed

end
