(* ===== verification/Input_Render.thy ===== *)
theory Input_Render
  imports Json_Field File_Field
begin

text \<open>
  How inputs are rendered and completed (\<^verbatim>\<open>stroem-common/src/template.rs\<close>): nested strings, step input
  maps, defaults of tasks and actions, file fields, and the replay of a job's input
  (\<^verbatim>\<open>job_creator.rs\<close>). The record \<open>tera\<close> holds what the code takes from outside: the render function,
  the JSON reader and the Unicode tables behind \<^verbatim>\<open>char::is_alphanumeric\<close> for characters that are not
  ASCII.
\<close>

record tera =
  t_render :: template_renderer
  t_from_str :: json_reader
  t_alphanumeric :: "string \<Rightarrow> bool"

section \<open>Nested strings\<close>

definition render_location :: "nat option list \<Rightarrow> string" where
  "render_location path =
     (if path \<noteq> [] \<and> None \<notin> set path
      then ''Failed to render the template at `'' @ index_text path @ ''`''
      else ''Failed to render a template in this value'')"

fun render_strings_at :: "tera \<Rightarrow> json \<Rightarrow> bool \<Rightarrow> nat option list \<Rightarrow> json \<Rightarrow> app_error + json"
  and render_entries :: "tera \<Rightarrow> json \<Rightarrow> bool \<Rightarrow> nat option list \<Rightarrow> (string \<times> json) list
    \<Rightarrow> app_error + (string \<times> json) list"
  and render_items :: "tera \<Rightarrow> json \<Rightarrow> bool \<Rightarrow> nat option list \<Rightarrow> nat \<Rightarrow> json list \<Rightarrow> app_error + json list" where
  "render_strings_at tr ctx only_templated path (String s) =
     (if only_templated \<and> \<not> contains s ''{{'' then Inr (String s)
      else map_sum id String (with_context (render_location path) (t_render tr s ctx)))"
| "render_strings_at tr ctx only_templated path (Object m) =
     map_sum id Object (render_entries tr ctx only_templated path m)"
| "render_strings_at tr ctx only_templated path (Array xs) =
     map_sum id Array (render_items tr ctx only_templated path 0 xs)"
| "render_strings_at tr ctx only_templated path v = Inr v"
| "render_entries tr ctx only_templated path [] = Inr []"
| "render_entries tr ctx only_templated path (e # es) =
     (case render_strings_at tr ctx only_templated (path @ [None]) (snd e) of
        Inl err \<Rightarrow> Inl err
      | Inr v \<Rightarrow> map_sum id (\<lambda>r. (fst e, v) # r) (render_entries tr ctx only_templated path es))"
| "render_items tr ctx only_templated path i [] = Inr []"
| "render_items tr ctx only_templated path i (x # xs) =
     (case render_strings_at tr ctx only_templated (path @ [Some i]) x of
        Inl err \<Rightarrow> Inl err
      | Inr v \<Rightarrow> map_sum id (\<lambda>r. v # r) (render_items tr ctx only_templated path (Suc i) xs))"

definition render_json_strings :: "tera \<Rightarrow> json \<Rightarrow> json \<Rightarrow> app_error + json" where
  "render_json_strings tr v ctx = render_strings_at tr ctx False [] v"

definition render_value_deep :: "tera \<Rightarrow> json \<Rightarrow> json \<Rightarrow> app_error + json" where
  "render_value_deep tr v ctx = render_strings_at tr ctx True [] v"

definition render_env_map :: "tera \<Rightarrow> string hashmap \<Rightarrow> json \<Rightarrow> app_error + string hashmap" where
  "render_env_map tr env_map ctx =
     fold_result (\<lambda>result (key, value).
       map_sum id (\<lambda>r. result @ [(key, r)])
         (with_context (''Failed to render env template for key '' @ [CHR 0x27] @ key @ [CHR 0x27])
           (t_render tr value ctx))) env_map []"

definition render_string_opt :: "tera \<Rightarrow> string option \<Rightarrow> json \<Rightarrow> app_error + string option" where
  "render_string_opt tr template ctx =
     (case template of
        None \<Rightarrow> Inr None
      | Some s \<Rightarrow> map_sum id Some (with_context ''Failed to render string template'' (t_render tr s ctx)))"

section \<open>Step input maps\<close>

text \<open>The characters of a string, each as its bytes.\<close>

function chars :: "string \<Rightarrow> string list" where
  "chars [] = []"
| "chars (c # cs) = (c # take (len_utf8 c - 1) cs) # chars (drop (len_utf8 c - 1) cs)"
  by pat_completeness auto
termination by (relation "measure length") auto

definition is_alphanumeric :: "tera \<Rightarrow> string \<Rightarrow> bool" where
  "is_alphanumeric tr ch =
     (case ch of
        [c] \<Rightarrow> is_digit c \<or> (65 \<le> byte c \<and> byte c \<le> 90) \<or> (97 \<le> byte c \<and> byte c \<le> 122)
      | _ \<Rightarrow> t_alphanumeric tr ch)"

definition extract_simple_variable_path :: "tera \<Rightarrow> string \<Rightarrow> string option" where
  "extract_simple_variable_path tr template =
     (case strip_prefix ''{{'' (trim template) of
        None \<Rightarrow> None
      | Some b \<Rightarrow> (case strip_suffix ''}}'' b of
            None \<Rightarrow> None
          | Some body \<Rightarrow>
              (let inner = trim body in
               if inner \<noteq> [] \<and> list_all (\<lambda>ch. is_alphanumeric tr ch \<or> ch = ''.'' \<or> ch = ''_'') (chars inner)
               then Some inner else None)))"

fun get_path :: "json \<Rightarrow> string list \<Rightarrow> json option" where
  "get_path v [] = Some v"
| "get_path v (p # ps) =
     (case as_object v of None \<Rightarrow> None
      | Some m \<Rightarrow> (case map_of m p of None \<Rightarrow> None | Some w \<Rightarrow> get_path w ps))"

definition resolve_context_path :: "json \<Rightarrow> string \<Rightarrow> json option" where
  "resolve_context_path ctx path = get_path ctx (split_on (CHR ''.'') path)"

definition is_structured :: "json \<Rightarrow> bool" where
  "is_structured v = (case v of Object _ \<Rightarrow> True | Array _ \<Rightarrow> True | _ \<Rightarrow> False)"

definition render_input_value :: "tera \<Rightarrow> json \<Rightarrow> string \<Rightarrow> json \<Rightarrow> app_error + json" where
  "render_input_value tr ctx key value =
     (case value of
        String s \<Rightarrow>
          (let rendered = map_sum id String
                 (with_context (''Failed to render template for key '' @ [CHR 0x27] @ key @ [CHR 0x27])
                   (t_render tr s ctx))
           in case extract_simple_variable_path tr s of
                None \<Rightarrow> rendered
              | Some path \<Rightarrow> (case resolve_context_path ctx path of
                    None \<Rightarrow> rendered
                  | Some raw \<Rightarrow> if is_structured raw then Inr raw else rendered))
      | _ \<Rightarrow> Inr value)"

definition render_input_map :: "tera \<Rightarrow> json hashmap \<Rightarrow> json \<Rightarrow> app_error + json" where
  "render_input_map tr input_map ctx =
     map_sum id Object (fold_result (\<lambda>result (key, value).
       map_sum id (\<lambda>r. obj_insert key r result) (render_input_value tr ctx key value)) input_map [])"

definition render_ref_projection :: "tera \<Rightarrow> json hashmap \<Rightarrow> json \<Rightarrow> app_error + json" where
  "render_ref_projection tr input_map ctx =
     (case render_input_map tr input_map ctx of
        Inl e \<Rightarrow> Inl e
      | Inr rendered \<Rightarrow>
          map_sum id Object (fold_result (\<lambda>out (key, value).
            map_sum id (\<lambda>r. obj_insert key r out)
              (case map_of input_map key of
                 Some v \<Rightarrow> if is_structured v
                   then with_context (''Failed to render a template inside input field '' @ [CHR 0x27] @ key @ [CHR 0x27])
                     (render_json_strings tr value ctx)
                   else Inr value
               | None \<Rightarrow> Inr value)) (case as_object rendered of Some m \<Rightarrow> m | None \<Rightarrow> []) []))"

definition JSON_TYPE :: string where
  "JSON_TYPE = ''json''"

definition PRIMITIVE_TYPES :: "string list" where
  "PRIMITIVE_TYPES = [''string'', ''text'', ''integer'', ''number'', ''boolean'', ''date'', ''datetime'', JSON_TYPE, FILE_TYPE]"

definition field_type_of :: "input_schema option \<Rightarrow> string \<Rightarrow> string option" where
  "field_type_of schema k =
     (case schema of None \<Rightarrow> None | Some s \<Rightarrow> map_option if_field_type (map_of s k))"

definition render_file_field :: "tera \<Rightarrow> job_files \<Rightarrow> json \<Rightarrow> (string \<times> json) list \<Rightarrow> string \<times> json
    \<Rightarrow> app_error + (string \<times> json) list" where
  "render_file_field tr jf ctx m entry =
     (case snd entry of
        Null \<Rightarrow> Inr m
      | String s \<Rightarrow>
          (case t_render tr s ctx of
             Inl e \<Rightarrow> Inl e
           | Inr rendered \<Rightarrow>
               (let text = trim rendered in
                if text = [] then Inr m
                else case resolve_target jf text of
                       None \<Rightarrow> Inl (File_input_error (fst entry) CannotUse)
                     | Some f \<Rightarrow> Inr (obj_insert (fst entry) (String (fr_file_id f)) m)))
      | _ \<Rightarrow> Inl (File_input_error (fst entry) CannotUse))"

definition render_input_typed_with_files ::
    "tera \<Rightarrow> json hashmap \<Rightarrow> input_schema option \<Rightarrow> json \<Rightarrow> job_files \<Rightarrow> app_error + json" where
  "render_input_typed_with_files tr input_map schema ctx jf =
     (let json_fields = filter (\<lambda>e. field_type_of schema (fst e) = Some JSON_TYPE) input_map;
          file_fields = filter (\<lambda>e. field_type_of schema (fst e) = Some FILE_TYPE) input_map;
          rest = filter (\<lambda>e. field_type_of schema (fst e) \<noteq> Some JSON_TYPE \<and>
                   field_type_of schema (fst e) \<noteq> Some FILE_TYPE) input_map
      in case render_input_map tr rest ctx of
           Inl e \<Rightarrow> Inl e
         | Inr out \<Rightarrow>
             (case fold_result (\<lambda>m (k, v).
                map_sum id (\<lambda>r. obj_insert k r m) (render_json_value (t_from_str tr) (t_render tr) v k ctx))
                json_fields (case as_object out of Some m \<Rightarrow> m | None \<Rightarrow> []) of
                Inl e \<Rightarrow> Inl e
              | Inr m \<Rightarrow> map_sum id Object (fold_result (render_file_field tr jf ctx) file_fields m)))"

definition render_input_typed :: "tera \<Rightarrow> json hashmap \<Rightarrow> input_schema option \<Rightarrow> json \<Rightarrow> app_error + json" where
  "render_input_typed tr input_map schema ctx =
     render_input_typed_with_files tr input_map schema ctx job_files_empty"

section \<open>Defaults\<close>

definition object_or_empty :: "json \<Rightarrow> (string \<times> json) list" where
  "object_or_empty v = (case as_object v of Some m \<Rightarrow> m | None \<Rightarrow> [])"

definition default_failed :: "string \<Rightarrow> string" where
  "default_failed field = ''Failed to render default template for input field '' @ [CHR 0x27] @ field @ [CHR 0x27]"

definition task_default :: "tera \<Rightarrow> json \<Rightarrow> string \<Rightarrow> input_field_def \<Rightarrow> json \<Rightarrow> app_error + json" where
  "task_default tr ctx field def v =
     (if if_field_type def = JSON_TYPE
      then with_context (default_failed field) (render_json_value (t_from_str tr) (t_render tr) v field ctx)
      else case v of
             String s \<Rightarrow> if contains s ''{{''
               then map_sum id String (with_context (default_failed field) (t_render tr s ctx)) else Inr v
           | _ \<Rightarrow> Inr v)"

definition action_default :: "tera \<Rightarrow> json \<Rightarrow> string \<Rightarrow> input_field_def \<Rightarrow> json \<Rightarrow> app_error + json" where
  "action_default tr ctx field def v =
     with_context ''Failed to merge action input defaults'' (with_context (default_failed field)
       (if if_field_type def = JSON_TYPE then render_json_value (t_from_str tr) (t_render tr) v field ctx
        else case v of
               String s \<Rightarrow> if contains s ''{{'' then map_sum id String (t_render tr s ctx)
                 else render_value_deep tr v ctx
             | _ \<Rightarrow> render_value_deep tr v ctx))"

text \<open>The loop both share: fields that are present are left alone, absent ones take their default.\<close>

definition fill_default :: "(string \<Rightarrow> input_field_def \<Rightarrow> json \<Rightarrow> app_error + json) \<Rightarrow> (string \<times> json) list
    \<Rightarrow> string \<times> input_field_def \<Rightarrow> app_error + (string \<times> json) list" where
  "fill_default render result entry =
     (if contains_key result (fst entry) then Inr result
      else case if_default (snd entry) of
             None \<Rightarrow> Inr result
           | Some v \<Rightarrow> map_sum id (\<lambda>r. obj_insert (fst entry) r result) (render (fst entry) (snd entry) v))"

definition merge_defaults :: "tera \<Rightarrow> json \<Rightarrow> input_schema \<Rightarrow> json \<Rightarrow> app_error + json" where
  "merge_defaults tr user_input schema ctx =
     map_sum id Object (fold_result (fill_default (task_default tr ctx)) schema (object_or_empty user_input))"

definition merge_action_defaults :: "tera \<Rightarrow> json \<Rightarrow> input_schema \<Rightarrow> json \<Rightarrow> app_error + json" where
  "merge_action_defaults tr rendered_input schema ctx =
     map_sum id Object (fold_result (fill_default (action_default tr ctx)) schema (object_or_empty rendered_input))"

section \<open>Replaying an input\<close>

definition REDACTED_SENTINEL :: string where
  "REDACTED_SENTINEL = concat (replicate 6 (map char_of [0xE2, 0x80, 0xA2 :: nat]))"

definition is_secret_or_connection :: "input_field_def \<Rightarrow> bool" where
  "is_secret_or_connection def \<longleftrightarrow> if_secret def \<or> if_field_type def \<notin> set PRIMITIVE_TYPES"

definition obj_remove :: "string \<Rightarrow> (string \<times> json) list \<Rightarrow> (string \<times> json) list" where
  "obj_remove k m = filter (\<lambda>e. fst e \<noteq> k) m"

definition replay_sentinel :: "(string \<times> json) list \<Rightarrow> (string \<times> json) list \<Rightarrow> string \<times> input_field_def
    \<Rightarrow> (string \<times> json) list" where
  "replay_sentinel source result entry =
     (if is_secret_or_connection (snd entry) \<and>
         Option.bind (map_of result (fst entry)) as_str = Some REDACTED_SENTINEL
      then case map_of source (fst entry) of
             Some v \<Rightarrow> obj_insert (fst entry) v result
           | None \<Rightarrow> obj_remove (fst entry) result
      else result)"

definition resolve_rerun_sentinels :: "json \<Rightarrow> json \<Rightarrow> input_schema \<Rightarrow> json" where
  "resolve_rerun_sentinels incoming source_raw schema =
     Object (foldl (replay_sentinel (object_or_empty source_raw)) (object_or_empty incoming) schema)"

datatype replay_fields_error = UnknownField | AlsoInInput string | MissingRequired string

definition replay_field :: "input_schema \<Rightarrow> json \<Rightarrow> (string \<times> json) list \<Rightarrow> string
    \<Rightarrow> replay_fields_error + (string \<times> json) list" where
  "replay_field schema source_raw m name =
     (case map_of schema name of
        None \<Rightarrow> Inl UnknownField
      | Some def \<Rightarrow>
          if contains_key m name then Inl (AlsoInInput name)
          else case Option.bind (as_object source_raw) (\<lambda>s. map_of s name) of
                 Some v \<Rightarrow> Inr (obj_insert name v m)
               | None \<Rightarrow> if if_required def \<and> if_default def = None then Inl (MissingRequired name) else Inr m)"

definition apply_replay_fields :: "json \<Rightarrow> string list \<Rightarrow> json \<Rightarrow> input_schema \<Rightarrow> replay_fields_error + json" where
  "apply_replay_fields input replay_fields source_raw schema =
     (if replay_fields = [] then Inr input
      else map_sum id Object (fold_result (replay_field schema source_raw) replay_fields (object_or_empty input)))"

section \<open>Completing an input\<close>

lemma map_sum_InrE: "map_sum id f r = Inr y \<longleftrightarrow> (\<exists>x. r = Inr x \<and> y = f x)"
  by (cases r) auto

text \<open>The value of a field after the defaults are filled in.\<close>

definition filled :: "(string \<Rightarrow> input_field_def \<Rightarrow> json \<Rightarrow> app_error + json) \<Rightarrow> input_schema \<Rightarrow> (string \<times> json) list
    \<Rightarrow> string \<Rightarrow> json option" where
  "filled render schema m k =
     (case map_of m k of
        Some v \<Rightarrow> Some v
      | None \<Rightarrow> (case map_of schema k of
            None \<Rightarrow> None
          | Some def \<Rightarrow> (case if_default def of
                None \<Rightarrow> None
              | Some v \<Rightarrow> (case render k def v of Inr r \<Rightarrow> Some r | Inl _ \<Rightarrow> None))))"

lemma fill_default_step:
  assumes "fill_default render m (f, def) = Inr m'"
  shows "map_of m' k = (if k = f then filled render [(f, def)] m k else map_of m k)"
  using assms
  by (auto simp: fill_default_def filled_def map_sum_InrE split: if_splits option.splits)

lemma fold_fill_default:
  assumes "fold_result (fill_default render) schema m = Inr m'" and "distinct (map fst schema)"
  shows "map_of m' k = filled render schema m k"
  using assms
proof (induction schema arbitrary: m)
  case (Cons e es)
  obtain f def where e: "e = (f, def)" by (cases e)
  from Cons.prems obtain m1 where m1: "fill_default render m (f, def) = Inr m1"
      "fold_result (fill_default render) es m1 = Inr m'"
    by (auto simp: e split: sum.splits)
  have IH: "map_of m' k = filled render es m1 k" using Cons.IH [OF m1(2)] Cons.prems(2) by simp
  show ?case
  proof (cases "k = f")
    case True
    with Cons.prems(2) have "map_of es k = None" by (simp add: e map_of_eq_None_iff)
    with True fill_default_step [OF m1(1), of k] IH show ?thesis
      by (simp add: filled_def e split: option.splits)
  next
    case False
    then have es: "map_of (e # es) k = map_of es k" and m: "map_of m1 k = map_of m k"
      using fill_default_step [OF m1(1), of k] by (simp_all add: e)
    show ?thesis unfolding IH filled_def es m ..
  qed
qed (auto simp: filled_def split: option.splits)

text \<open>
  Defaults are merged exactly once: after the defaults of an action are merged into an input,
  every field that was present keeps its value unchanged, so that nothing that was rendered is
  rendered again; every absent field with a default has the default, rendered once; and there is no
  other field.
\<close>

theorem action_defaults_exact:
  assumes "merge_action_defaults tr (Object input) schema ctx = Inr out" and "distinct (keys schema)"
  shows "\<exists>m. out = Object m \<and>
     (\<forall>k. map_of m k =
        (case map_of input k of
           Some v \<Rightarrow> Some v
         | None \<Rightarrow> (case map_of schema k of
               None \<Rightarrow> None
             | Some def \<Rightarrow> (case if_default def of
                   None \<Rightarrow> None
                 | Some v \<Rightarrow> (case action_default tr ctx k def v of Inr r \<Rightarrow> Some r | Inl _ \<Rightarrow> None)))))"
proof -
  obtain m where m: "fold_result (fill_default (action_default tr ctx)) schema input = Inr m" "out = Object m"
    using assms(1) by (auto simp: merge_action_defaults_def object_or_empty_def as_object_def map_sum_InrE)
  from fold_fill_default [OF m(1) assms(2)] m(2) show ?thesis by (auto simp: filled_def)
qed

definition echo_tera :: tera where
  "echo_tera = \<lparr>t_render = (\<lambda>t c. Inr t), t_from_str = (\<lambda>_. Some Null), t_alphanumeric = (\<lambda>_. False)\<rparr>"

definition text_field :: "json option \<Rightarrow> input_field_def" where
  "text_field d = \<lparr>if_field_type = ''string'', if_required = False, if_secret = False, if_default = d\<rparr>"

theorem action_defaults_exact_witness:
  "\<exists>m. merge_action_defaults echo_tera (Object [(''a'', String ''{{ secret.x }}'')])
       [(''a'', text_field (Some Null)), (''b'', text_field (Some (String ''c'')))] Null = Inr (Object m) \<and>
     map_of m ''a'' = Some (String ''{{ secret.x }}'') \<and> map_of m ''b'' = Some (String ''c'')"
proof -
  have "\<exists>out. merge_action_defaults echo_tera (Object [(''a'', String ''{{ secret.x }}'')])
       [(''a'', text_field (Some Null)), (''b'', text_field (Some (String ''c'')))] Null = Inr out"
    by (simp add: merge_action_defaults_def object_or_empty_def as_object_def fill_default_def text_field_def
        action_default_def JSON_TYPE_def contains_def sublist_code render_value_deep_def with_context_def)
  then obtain out where o: "merge_action_defaults echo_tera (Object [(''a'', String ''{{ secret.x }}'')])
       [(''a'', text_field (Some Null)), (''b'', text_field (Some (String ''c'')))] Null = Inr out" ..
  from action_defaults_exact [OF o] o show ?thesis
    by (fastforce simp: text_field_def action_default_def JSON_TYPE_def contains_def sublist_code
        render_value_deep_def with_context_def)
qed

section \<open>Replaying an input\<close>

lemma map_of_obj_remove: "map_of (obj_remove k m) x = (if x = k then None else map_of m x)"
  by (induction m) (auto simp: obj_remove_def)

lemma replay_sentinel_map:
  "map_of (replay_sentinel source m (f, def)) k =
     (if k = f \<and> is_secret_or_connection def \<and> map_of m f = Some (String REDACTED_SENTINEL)
      then map_of source f else map_of m k)"
proof -
  have "Option.bind (map_of m f) as_str = Some REDACTED_SENTINEL \<longleftrightarrow> map_of m f = Some (String REDACTED_SENTINEL)"
    by (cases "map_of m f") (auto simp: as_str_def split: json.splits)
  then show ?thesis by (auto simp: replay_sentinel_def map_of_obj_remove split: option.splits)
qed

text \<open>
  A re-run replays exactly what was masked: a field that the task declares as a secret or a
  connection and that holds the mask takes the stored value of the source job, or is dropped when the
  source has none, so that its default applies; every other field keeps the value it was sent with.
\<close>

theorem rerun_sentinels_exact:
  assumes "distinct (keys schema)"
  shows "\<exists>m. resolve_rerun_sentinels (Object incoming) (Object source) schema = Object m \<and>
     (\<forall>k. map_of m k =
        (if map_of incoming k = Some (String REDACTED_SENTINEL) \<and>
            (\<exists>def. map_of schema k = Some def \<and> (if_secret def \<or> if_field_type def \<notin> set PRIMITIVE_TYPES))
         then map_of source k else map_of incoming k))"
proof -
  have "map_of (foldl (replay_sentinel source) m schema) k =
      (if map_of m k = Some (String REDACTED_SENTINEL) \<and>
          (\<exists>def. map_of schema k = Some def \<and> is_secret_or_connection def)
       then map_of source k else map_of m k)" for m k
    using assms
  proof (induction schema arbitrary: m)
    case (Cons e es)
    obtain f def where e: "e = (f, def)" by (cases e)
    have IH: "map_of (foldl (replay_sentinel source) (replay_sentinel source m (f, def)) es) k =
        (if map_of (replay_sentinel source m (f, def)) k = Some (String REDACTED_SENTINEL) \<and>
            (\<exists>d. map_of es k = Some d \<and> is_secret_or_connection d)
         then map_of source k else map_of (replay_sentinel source m (f, def)) k)"
      using Cons.prems by (intro Cons.IH) (simp add: e)
    show ?case
    proof (cases "k = f")
      case True
      with Cons.prems have "map_of es k = None" by (simp add: e map_of_eq_None_iff)
      with IH True show ?thesis by (simp add: e replay_sentinel_map)
    qed (use IH in \<open>auto simp: e replay_sentinel_map\<close>)
  qed simp
  then show ?thesis
    by (simp add: resolve_rerun_sentinels_def object_or_empty_def as_object_def is_secret_or_connection_def)
qed

theorem rerun_sentinels_exact_witness:
  "\<exists>m. resolve_rerun_sentinels (Object [(''pw'', String REDACTED_SENTINEL)]) (Object [(''pw'', String ''s3cret'')])
       [(''pw'', (text_field None)\<lparr>if_secret := True\<rparr>)] = Object m \<and> map_of m ''pw'' = Some (String ''s3cret'')"
proof -
  let ?schema = "[(''pw'', (text_field None)\<lparr>if_secret := True\<rparr>)]"
  have "distinct (keys ?schema)" by simp
  from rerun_sentinels_exact [OF this, of "[(''pw'', String REDACTED_SENTINEL)]" "[(''pw'', String ''s3cret'')]"]
  obtain m where m: "resolve_rerun_sentinels (Object [(''pw'', String REDACTED_SENTINEL)])
      (Object [(''pw'', String ''s3cret'')]) ?schema = Object m"
    "\<And>k. map_of m k = (if map_of [(''pw'', String REDACTED_SENTINEL)] k = Some (String REDACTED_SENTINEL) \<and>
        (\<exists>def. map_of ?schema k = Some def \<and> (if_secret def \<or> if_field_type def \<notin> set PRIMITIVE_TYPES))
      then map_of [(''pw'', String ''s3cret'')] k else map_of [(''pw'', String REDACTED_SENTINEL)] k)"
    by blast
  from m(1) m(2) [of "''pw''"] show ?thesis by simp
qed

end
