(* ===== verification/Connections.thy ===== *)
theory Connections
  imports Input_Render
begin

text \<open>
  References to connections across workspaces (\<^verbatim>\<open>stroem-common/src/template.rs\<close>, \<^verbatim>\<open>WorkspaceSet\<close> of
  \<^verbatim>\<open>stroem-server/src/workspace_set.rs\<close>, \<^verbatim>\<open>check_connection_values\<close> of \<^verbatim>\<open>validation.rs\<close>): lookup of
  workspaces, canonical types, the gate on connections that are not shared, and the preparation of the
  input of an action and of a sub-task by role.
\<close>

section \<open>Lookup\<close>

definition parse_qualified_ref :: "string \<Rightarrow> string option \<times> string" where
  "parse_qualified_ref name =
     (case split_once (CHR ''.'') name of
        Some (ws, item) \<Rightarrow> if ws \<noteq> [] \<and> item \<noteq> [] then (Some ws, item) else (None, name)
      | None \<Rightarrow> (None, name))"

datatype lookup = Found workspace_config | Unknown | Unavailable

record workspace_lookup =
  lk_local_name :: string
  lk_get :: "string \<Rightarrow> lookup"
  lk_offline :: bool

definition single_workspace :: "string \<Rightarrow> workspace_config \<Rightarrow> workspace_lookup" where
  "single_workspace name config =
     \<lparr>lk_local_name = name, lk_get = (\<lambda>n. if n = name then Found config else Unknown), lk_offline = True\<rparr>"

record workspace_set =
  ws_local_name :: string
  ws_local_override :: "workspace_config option"
  ws_configs :: "workspace_config hashmap"
  ws_known :: "string list"

definition workspace_set_from_parts ::
    "string \<Rightarrow> workspace_config option \<Rightarrow> workspace_config hashmap \<Rightarrow> string list \<Rightarrow> workspace_set" where
  "workspace_set_from_parts local_name local_override configs known =
     \<lparr>ws_local_name = local_name, ws_local_override = local_override, ws_configs = configs,
      ws_known = local_name # keys configs @ known\<rparr>"

definition workspace_set_get :: "workspace_set \<Rightarrow> string \<Rightarrow> lookup" where
  "workspace_set_get s name =
     (case (if name = ws_local_name s then ws_local_override s else None) of
        Some cfg \<Rightarrow> Found cfg
      | None \<Rightarrow> (case map_of (ws_configs s) name of
            Some cfg \<Rightarrow> Found cfg
          | None \<Rightarrow> if name \<in> set (ws_known s) then Unavailable else Unknown))"

definition workspace_set_lookup :: "workspace_set \<Rightarrow> workspace_lookup" where
  "workspace_set_lookup s =
     \<lparr>lk_local_name = ws_local_name s, lk_get = workspace_set_get s, lk_offline = False\<rparr>"

definition iter_configs :: "workspace_set \<Rightarrow> (string \<times> workspace_config) list" where
  "iter_configs s =
     (case workspace_set_get s (ws_local_name s) of Found c \<Rightarrow> [(ws_local_name s, c)] | _ \<Rightarrow> []) @
     sort_key fst (filter (\<lambda>e. fst e \<noteq> ws_local_name s) (ws_configs s))"

section \<open>Types\<close>

record canonical_type =
  ct_workspace :: string
  ct_name :: string

definition show_canonical_type :: "canonical_type \<Rightarrow> string" where
  "show_canonical_type ct = ct_workspace ct @ ''.'' @ ct_name ct"

definition quote :: "string \<Rightarrow> string" where
  "quote s = [CHR 0x27] @ s @ [CHR 0x27]"

definition found_config :: "workspace_lookup \<Rightarrow> string \<Rightarrow> string \<Rightarrow> app_error + workspace_config" where
  "found_config lk ws what =
     (case lk_get lk ws of
        Found c \<Rightarrow> Inr c
      | Unknown \<Rightarrow> Inl (Msg (what @ '': unknown workspace '' @ quote ws))
      | Unavailable \<Rightarrow> Inl (Msg (what @ '': workspace '' @ quote ws @ '' is not available'')))"

definition canonical_type_ref :: "string \<Rightarrow> string \<Rightarrow> workspace_lookup \<Rightarrow> app_error + canonical_type" where
  "canonical_type_ref type_ref defining_ws lk =
     (let local_type = \<lparr>ct_workspace = defining_ws, ct_name = type_ref\<rparr>;
          what = ''connection type '' @ quote type_ref
      in case found_config lk defining_ws what of
           Inl e \<Rightarrow> Inl e
         | Inr cfg \<Rightarrow>
             if contains_key (wc_connection_types cfg) type_ref then Inr local_type
             else case parse_qualified_ref type_ref of
                    (None, _) \<Rightarrow> Inr local_type
                  | (Some ws, item) \<Rightarrow>
                      (case lk_get lk ws of
                         Found c \<Rightarrow> if contains_key (wc_connection_types c) item
                           then Inr \<lparr>ct_workspace = ws, ct_name = item\<rparr>
                           else Inl (Msg (what @ '': workspace '' @ quote ws @ '' has no connection type '' @ quote item))
                       | Unknown \<Rightarrow> Inr local_type
                       | Unavailable \<Rightarrow> Inl (Msg (what @ '': workspace '' @ quote ws @ '' is not available''))))"

section \<open>Connections\<close>

record resolve_scope =
  rs_lookup :: workspace_lookup
  rs_schema_ws :: string
  rs_value_ws :: string
  rs_fallback_ws :: "string option"

record resolved_connection =
  rn_workspace :: string
  rn_def :: connection_def

datatype connection_ref_error =
  NotFound | UnknownWorkspace | WorkspaceUnavailable | NotShared | OfflineCrossWorkspace

fun connection_ref_error_text :: "connection_ref_error \<Rightarrow> string" where
  "connection_ref_error_text NotFound = ''no connection with that name exists''"
| "connection_ref_error_text UnknownWorkspace = ''the connection names an unknown workspace''"
| "connection_ref_error_text WorkspaceUnavailable = ''the workspace that owns the connection is not available''"
| "connection_ref_error_text NotShared = ''the connection exists but is not shared (set `shared: true` on it)''"
| "connection_ref_error_text OfflineCrossWorkspace =
     ''cross-workspace connection references require a server (run this task through `stroem-api trigger`)''"

definition resolve_connection_ref :: "string \<Rightarrow> resolve_scope \<Rightarrow> connection_ref_error + resolved_connection" where
  "resolve_connection_ref conn_ref scope =
     (case lk_get (rs_lookup scope) (rs_value_ws scope) of
        Unknown \<Rightarrow> Inl UnknownWorkspace
      | Unavailable \<Rightarrow> Inl WorkspaceUnavailable
      | Found value_cfg \<Rightarrow>
          (case map_of (wc_connections value_cfg) conn_ref of
             Some def \<Rightarrow> Inr \<lparr>rn_workspace = rs_value_ws scope, rn_def = def\<rparr>
           | None \<Rightarrow>
               (case parse_qualified_ref conn_ref of
                  (Some ws, item) \<Rightarrow>
                    (case lk_get (rs_lookup scope) ws of
                       Found cfg \<Rightarrow>
                         (case map_of (wc_connections cfg) item of
                            Some def \<Rightarrow> if ws = rs_value_ws scope \<or> cd_shared def
                              then Inr \<lparr>rn_workspace = ws, rn_def = def\<rparr> else Inl NotShared
                          | None \<Rightarrow> Inl NotFound)
                     | Unknown \<Rightarrow> if lk_offline (rs_lookup scope) then Inl OfflineCrossWorkspace else Inl UnknownWorkspace
                     | Unavailable \<Rightarrow> Inl WorkspaceUnavailable)
                | (None, _) \<Rightarrow>
                    (case rs_fallback_ws scope of
                       None \<Rightarrow> Inl NotFound
                     | Some fb \<Rightarrow>
                         if fb = rs_value_ws scope then Inl NotFound
                         else (case lk_get (rs_lookup scope) fb of
                                 Found cfg \<Rightarrow>
                                   (case map_of (wc_connections cfg) conn_ref of
                                      Some def \<Rightarrow> if cd_shared def
                                        then Inr \<lparr>rn_workspace = fb, rn_def = def\<rparr> else Inl NotShared
                                    | None \<Rightarrow> Inl NotFound)
                               | _ \<Rightarrow> Inl NotFound)))))"

text \<open>The warnings only reach the log; the errors decide.\<close>

definition check_connection_values ::
    "string \<Rightarrow> json hashmap \<Rightarrow> string \<Rightarrow> connection_type_def \<Rightarrow> app_error + string list" where
  "check_connection_values label values type_name properties =
     (case find (\<lambda>e. cp_required (snd e) \<and> cp_default (snd e) = None \<and> \<not> contains_key values (fst e)) properties of
        Some e \<Rightarrow> Inl (Msg (label @ '' is missing required field '' @ quote (fst e) @ '' (type '' @ quote type_name @ '')''))
      | None \<Rightarrow>
          (case find (\<lambda>e. as_str (snd e) = Some []) values of
             Some e \<Rightarrow> Inl (Msg (label @ '' field '' @ quote (fst e) @ '' has an empty value''))
           | None \<Rightarrow> Inr (map (\<lambda>k. label @ '' has field '' @ quote k @ '' not defined in type '' @ quote type_name)
               (filter (\<lambda>k. \<not> contains_key properties k) (keys values)))))"

text \<open>The values a connection contributes to a field of type \<open>field_ct\<close>.\<close>

definition connection_values ::
    "resolve_scope \<Rightarrow> string \<Rightarrow> canonical_type \<Rightarrow> resolved_connection \<Rightarrow> app_error + json hashmap" where
  "connection_values scope field field_ct resolved =
     (let label = ''Input field '' @ quote field in
      case cd_connection_type (rn_def resolved) of
        None \<Rightarrow> Inr (cd_values (rn_def resolved))
      | Some declared \<Rightarrow>
          (case canonical_type_ref declared (rn_workspace resolved) (rs_lookup scope) of
             Inl _ \<Rightarrow> Inl (Msg (label @ '': the type of the connection it names could not be resolved''))
           | Inr conn_ct \<Rightarrow>
               if conn_ct \<noteq> field_ct
               then Inl (Msg (label @ '' expects type '' @ quote (show_canonical_type field_ct) @
                      '' but the connection it names is type '' @ quote (show_canonical_type conn_ct)))
               else if ct_workspace conn_ct = rn_workspace resolved then Inr (cd_values (rn_def resolved))
               else case found_config (rs_lookup scope) (ct_workspace conn_ct) ''connection type'' of
                      Inl e \<Rightarrow> Inl e
                    | Inr type_cfg \<Rightarrow>
                        (case map_of (wc_connection_types type_cfg) (ct_name conn_ct) of
                           None \<Rightarrow> Inl (Msg (''connection type '' @ quote (show_canonical_type conn_ct) @ '' vanished''))
                         | Some type_def \<Rightarrow>
                             (let values = values_with_type_defaults (rn_def resolved) type_def in
                              case check_connection_values (''input field '' @ quote field) values
                                     (show_canonical_type conn_ct) type_def of
                                Inl e \<Rightarrow> Inl e
                              | Inr _ \<Rightarrow> Inr values))))"

definition resolve_connection_field ::
    "resolve_scope \<Rightarrow> (string \<times> json) list \<Rightarrow> string \<times> input_field_def \<Rightarrow> app_error + (string \<times> json) list" where
  "resolve_connection_field scope result entry =
     (let (field, def) = entry; label = ''Input field '' @ quote field in
      if if_field_type def \<in> set PRIMITIVE_TYPES then Inr result
      else case map_of result field of
        None \<Rightarrow> Inr result
      | Some (Object _) \<Rightarrow> Inr result
      | Some (String conn_name) \<Rightarrow>
          (case with_context label (canonical_type_ref (if_field_type def) (rs_schema_ws scope) (rs_lookup scope)) of
             Inl e \<Rightarrow> Inl e
           | Inr field_ct \<Rightarrow>
               (case resolve_connection_ref conn_name scope of
                  Inl kind \<Rightarrow> Inl (Msg (label @ '': '' @ connection_ref_error_text kind))
                | Inr resolved \<Rightarrow>
                    map_sum id (\<lambda>values. obj_insert field (json_obj values) result)
                      (connection_values scope field field_ct resolved)))
      | Some v \<Rightarrow> Inl (Msg (label @ '' expects a connection name (string), got '' @ json_type_name v)))"

definition resolve_connection_inputs_scoped :: "json \<Rightarrow> input_schema \<Rightarrow> resolve_scope \<Rightarrow> app_error + json" where
  "resolve_connection_inputs_scoped input schema scope =
     map_sum id Object (fold_result (resolve_connection_field scope) schema (object_or_empty input))"

definition resolve_connection_inputs :: "json \<Rightarrow> input_schema \<Rightarrow> workspace_lookup \<Rightarrow> app_error + json" where
  "resolve_connection_inputs input schema lk =
     resolve_connection_inputs_scoped input schema
       \<lparr>rs_lookup = lk, rs_schema_ws = lk_local_name lk, rs_value_ws = lk_local_name lk, rs_fallback_ws = None\<rparr>"

section \<open>Roles\<close>

record role_config =
  ro_workspace :: string
  ro_config :: workspace_config

record role_scope =
  sc_caller :: role_config
  sc_action_owner :: "role_config option"
  sc_task_owner :: "role_config option"
  sc_others :: workspace_lookup

definition role_lookup :: "workspace_lookup \<Rightarrow> role_config \<Rightarrow> role_config option \<Rightarrow> workspace_lookup" where
  "role_lookup base first second =
     base\<lparr>lk_get := (\<lambda>name.
       if name = ro_workspace first then Found (ro_config first)
       else case second of
              Some r \<Rightarrow> if name = ro_workspace r then Found (ro_config r) else lk_get base name
            | None \<Rightarrow> lk_get base name)\<rparr>"

definition extend_map :: "'v hashmap \<Rightarrow> 'v hashmap \<Rightarrow> 'v hashmap" where
  "extend_map m new = filter (\<lambda>e. \<not> contains_key new (fst e)) m @ new"

definition merged_same_workspace :: "workspace_config \<Rightarrow> workspace_config \<Rightarrow> workspace_config" where
  "merged_same_workspace value fallback =
     empty_config\<lparr>wc_connections := extend_map (wc_connections fallback) (wc_connections value),
       wc_connection_types := extend_map (wc_connection_types fallback) (wc_connection_types value)\<rparr>"

text \<open>
  The code compares the two configurations by address. Equal configurations at two addresses give
  a merged one with the same connections and types, and nothing else of it is read.
\<close>

definition resolve_bucket_by_role ::
    "json \<Rightarrow> input_schema \<Rightarrow> role_config \<Rightarrow> role_config \<Rightarrow> workspace_lookup \<Rightarrow> app_error + json" where
  "resolve_bucket_by_role input schema value schema_role others =
     (if ro_workspace value = ro_workspace schema_role
      then let cfg = (if ro_config value = ro_config schema_role then ro_config value
                      else merged_same_workspace (ro_config value) (ro_config schema_role))
           in resolve_connection_inputs_scoped input schema
                \<lparr>rs_lookup = role_lookup others (value\<lparr>ro_config := cfg\<rparr>) None,
                 rs_schema_ws = ro_workspace schema_role, rs_value_ws = ro_workspace value,
                 rs_fallback_ws = None\<rparr>
      else resolve_connection_inputs_scoped input schema
             \<lparr>rs_lookup = role_lookup others value (Some schema_role),
              rs_schema_ws = ro_workspace schema_role, rs_value_ws = ro_workspace value,
              rs_fallback_ws = Some (ro_workspace schema_role)\<rparr>)"

definition secrets_context :: "workspace_config \<Rightarrow> json" where
  "secrets_context cfg = json_obj [(''secret'', json_obj (wc_secrets cfg))]"

definition prepare_action_input_roles :: "tera \<Rightarrow> json \<Rightarrow> input_schema \<Rightarrow> role_scope \<Rightarrow> app_error + json" where
  "prepare_action_input_roles tr rendered_input schema roles =
     (let owner = (case sc_action_owner roles of Some ow \<Rightarrow> ow | None \<Rightarrow> sc_caller roles) in
      case with_context ''Failed to resolve action connection inputs'' (tagged CallerBucket
             (resolve_bucket_by_role rendered_input schema (sc_caller roles) owner (sc_others roles))) of
        Inl e \<Rightarrow> Inl e
      | Inr caller_resolved \<Rightarrow>
          (case with_context ''Failed to merge action input defaults'' (tagged ActionDefaultBucket
                  (merge_action_defaults tr caller_resolved schema (secrets_context (ro_config owner)))) of
             Inl e \<Rightarrow> Inl e
           | Inr merged \<Rightarrow>
               with_context ''Failed to resolve action connection inputs'' (tagged ActionDefaultBucket
                 (resolve_bucket_by_role merged schema owner owner (sc_others roles)))))"

definition prepare_action_input_cross ::
    "tera \<Rightarrow> json \<Rightarrow> input_schema \<Rightarrow> workspace_lookup \<Rightarrow> string \<Rightarrow> string \<Rightarrow> app_error + json" where
  "prepare_action_input_cross tr rendered_input schema lk caller_ws owner_ws =
     (case found_config lk owner_ws ''action owner'' of
        Inl e \<Rightarrow> Inl e
      | Inr owner_cfg \<Rightarrow>
          (let owner = \<lparr>ro_workspace = owner_ws, ro_config = owner_cfg\<rparr> in
           case (if caller_ws = owner_ws then Inr owner
                 else map_sum id (\<lambda>c. \<lparr>ro_workspace = caller_ws, ro_config = c\<rparr>) (found_config lk caller_ws ''caller'')) of
             Inl e \<Rightarrow> Inl e
           | Inr caller \<Rightarrow>
               prepare_action_input_roles tr rendered_input schema
                 \<lparr>sc_caller = caller, sc_action_owner = Some owner, sc_task_owner = None, sc_others = lk\<rparr>))"

definition prepare_action_input :: "tera \<Rightarrow> json \<Rightarrow> input_schema \<Rightarrow> workspace_lookup \<Rightarrow> app_error + json" where
  "prepare_action_input tr rendered_input schema lk =
     prepare_action_input_cross tr rendered_input schema lk (lk_local_name lk) (lk_local_name lk)"

definition is_string :: "json \<Rightarrow> bool" where
  "is_string v = (case v of String _ \<Rightarrow> True | _ \<Rightarrow> False)"

definition resolve_provenance_bucket ::
    "json \<Rightarrow> input_schema \<Rightarrow> role_config \<Rightarrow> role_config \<Rightarrow> workspace_lookup \<Rightarrow> app_error + json" where
  "resolve_provenance_bucket input schema value task others =
     (case (if ro_workspace value = ro_workspace task then None
            else find (\<lambda>e. if_field_type (snd e) \<notin> set PRIMITIVE_TYPES \<and>
                   (case map_of (object_or_empty input) (fst e) of Some v \<Rightarrow> \<not> is_string v | None \<Rightarrow> False)) schema) of
        Some (field, def) \<Rightarrow>
          Inl (Msg (''input '' @ quote field @
            '': a connection passed across workspaces must be a connection name, got '' @
            (case map_of (object_or_empty input) field of Some v \<Rightarrow> json_type_name v | None \<Rightarrow> [])))
      | None \<Rightarrow> resolve_bucket_by_role input schema value task others)"

definition resolve_task_input_by_provenance_roles ::
    "json \<Rightarrow> json \<Rightarrow> input_schema \<Rightarrow> role_scope \<Rightarrow> app_error + json" where
  "resolve_task_input_by_provenance_roles caller_input action_defaults schema roles =
     (let task = (case sc_task_owner roles of Some t \<Rightarrow> t | None \<Rightarrow> sc_caller roles);
          action = (case sc_action_owner roles of Some a \<Rightarrow> a | None \<Rightarrow> sc_caller roles)
      in case tagged CallerBucket
                (resolve_provenance_bucket caller_input schema (sc_caller roles) task (sc_others roles)) of
           Inl e \<Rightarrow> Inl e
         | Inr caller \<Rightarrow>
             (case tagged ActionDefaultBucket
                     (resolve_provenance_bucket action_defaults schema action task (sc_others roles)) of
                Inl e \<Rightarrow> Inl e
              | Inr defaults \<Rightarrow>
                  Inr (Object (foldl (\<lambda>out (k, v). if contains_key out k then out else obj_insert k v out)
                    (object_or_empty caller) (object_or_empty defaults)))))"

definition resolve_task_input_by_provenance ::
    "json \<Rightarrow> json \<Rightarrow> input_schema \<Rightarrow> workspace_lookup \<Rightarrow> string \<Rightarrow> string \<Rightarrow> string \<Rightarrow> app_error + json" where
  "resolve_task_input_by_provenance caller_input action_defaults schema lk caller_ws action_ws task_ws =
     (let role = (\<lambda>ws what. map_sum id (\<lambda>c. \<lparr>ro_workspace = ws, ro_config = c\<rparr>) (found_config lk ws what)) in
      case role caller_ws ''caller'' of
        Inl e \<Rightarrow> Inl e
      | Inr caller \<Rightarrow> (case role action_ws ''action owner'' of
            Inl e \<Rightarrow> Inl e
          | Inr action \<Rightarrow> (case role task_ws ''task owner'' of
                Inl e \<Rightarrow> Inl e
              | Inr task \<Rightarrow> resolve_task_input_by_provenance_roles caller_input action_defaults schema
                  \<lparr>sc_caller = caller, sc_action_owner = Some action, sc_task_owner = Some task, sc_others = lk\<rparr>)))"

section \<open>The gate\<close>

text \<open>
  \<open>opens scope def\<close>: the connection \<open>def\<close> stands in a configuration that the scope can see, in the
  workspace of the value itself or marked as shared.
\<close>

definition opens :: "resolve_scope \<Rightarrow> resolved_connection \<Rightarrow> bool" where
  "opens scope r \<longleftrightarrow>
     (\<exists>cfg key. lk_get (rs_lookup scope) (rn_workspace r) = Found cfg \<and>
        map_of (wc_connections cfg) key = Some (rn_def r)) \<and>
     (rn_workspace r = rs_value_ws scope \<or> cd_shared (rn_def r))"

lemma resolve_connection_ref_opens:
  assumes "resolve_connection_ref name scope = Inr r"
  shows "opens scope r"
  using assms
  by (auto simp: resolve_connection_ref_def opens_def split: lookup.splits option.splits prod.splits if_splits)

text \<open>What a connection puts into a field: its values, perhaps with defaults of a foreign type.\<close>

definition connection_json :: "connection_def \<Rightarrow> json \<Rightarrow> bool" where
  "connection_json def v \<longleftrightarrow>
     v = json_obj (cd_values def) \<or> (\<exists>ty. v = json_obj (values_with_type_defaults def ty))"

lemma connection_values_json:
  "connection_values scope field ct r = Inr values \<Longrightarrow> connection_json (rn_def r) (json_obj values)"
  by (auto simp: connection_values_def connection_json_def Let_def split: option.splits sum.splits if_splits)

lemma resolve_connection_field_other:
  assumes "resolve_connection_field scope m (f, def) = Inr m'" and "k \<noteq> f"
  shows "map_of m' k = map_of m k"
  using assms
  by (auto simp: resolve_connection_field_def Let_def map_sum_InrE
      split: if_splits option.splits json.splits sum.splits)

lemma resolve_connection_field_object:
  assumes "resolve_connection_field scope m (f, def) = Inr m'" and "map_of m k = Some (Object ob)"
  shows "map_of m' k = Some (Object ob)"
  using assms resolve_connection_field_other [OF assms(1), of k]
  by (cases "k = f") (auto simp: resolve_connection_field_def Let_def split: if_splits)

lemma resolve_connection_field_name:
  assumes "resolve_connection_field scope m (f, def) = Inr m'" and "map_of m f = Some (String name)"
    and "if_field_type def \<notin> set PRIMITIVE_TYPES"
  shows "\<exists>r ob. opens scope r \<and> connection_json (rn_def r) (Object ob) \<and> map_of m' f = Some (Object ob)"
  using assms resolve_connection_ref_opens [of name scope]
  by (auto simp: resolve_connection_field_def Let_def map_sum_InrE connection_values_json split: sum.splits)

lemma fold_keeps_object:
  assumes "fold_result (resolve_connection_field scope) schema m = Inr m'" and "map_of m k = Some (Object ob)"
  shows "map_of m' k = Some (Object ob)"
  by (rule fold_result_inv [OF assms(1)]) (use assms(2) resolve_connection_field_object in \<open>auto simp: split_paired_all\<close>)

lemma fold_resolves_name:
  assumes "fold_result (resolve_connection_field scope) schema m = Inr m'" and "distinct (keys schema)"
    and "map_of schema f = Some def" and "if_field_type def \<notin> set PRIMITIVE_TYPES"
    and "map_of m f = Some (String name)"
  shows "\<exists>r ob. opens scope r \<and> connection_json (rn_def r) (Object ob) \<and> map_of m' f = Some (Object ob)"
  using assms
proof (induction schema arbitrary: m)
  case (Cons e es)
  obtain g d where e: "e = (g, d)" by (cases e)
  from Cons.prems(1) obtain m1 where m1: "resolve_connection_field scope m (g, d) = Inr m1"
      "fold_result (resolve_connection_field scope) es m1 = Inr m'"
    by (auto simp: e split: sum.splits)
  show ?case
  proof (cases "g = f")
    case True
    with Cons.prems(3) have "d = def" by (simp add: e)
    with resolve_connection_field_name [OF m1(1)] True Cons.prems(4,5) fold_keeps_object [OF m1(2)]
    show ?thesis by blast
  next
    case False
    with resolve_connection_field_other [OF m1(1), of f] Cons.prems e show ?thesis
      by (intro Cons.IH [OF m1(2)]) auto
  qed
qed simp

lemma scoped_resolves_name:
  assumes "resolve_connection_inputs_scoped (Object m) schema scope = Inr out" and "distinct (keys schema)"
    and "map_of schema f = Some def" and "if_field_type def \<notin> set PRIMITIVE_TYPES"
    and "map_of m f = Some (String name)"
  shows "\<exists>m' r ob. out = Object m' \<and> opens scope r \<and> connection_json (rn_def r) (Object ob) \<and>
     map_of m' f = Some (Object ob)"
  using assms fold_resolves_name [OF _ assms(2-5)]
  by (auto simp: resolve_connection_inputs_scoped_def object_or_empty_def as_object_def map_sum_InrE)

lemma scoped_keeps_object:
  assumes "resolve_connection_inputs_scoped (Object m) schema scope = Inr out" and "map_of m k = Some (Object ob)"
  shows "\<exists>m'. out = Object m' \<and> map_of m' k = Some (Object ob)"
  using assms fold_keeps_object [of scope schema m]
  by (auto simp: resolve_connection_inputs_scoped_def object_or_empty_def as_object_def map_sum_InrE)

text \<open>The scope in which the input of a caller is resolved against the schema of another workspace.\<close>

definition cross_scope :: "role_config \<Rightarrow> role_config \<Rightarrow> workspace_lookup \<Rightarrow> resolve_scope" where
  "cross_scope value schema_role others =
     \<lparr>rs_lookup = role_lookup others value (Some schema_role), rs_schema_ws = ro_workspace schema_role,
      rs_value_ws = ro_workspace value, rs_fallback_ws = Some (ro_workspace schema_role)\<rparr>"

lemma bucket_cross:
  "ro_workspace value \<noteq> ro_workspace role \<Longrightarrow>
     resolve_bucket_by_role input schema value role others =
       resolve_connection_inputs_scoped input schema (cross_scope value role others)"
  by (simp add: resolve_bucket_by_role_def cross_scope_def)

lemma bucket_keeps_object:
  assumes "resolve_bucket_by_role (Object m) schema value role others = Inr out" and "map_of m k = Some (Object ob)"
  shows "\<exists>m'. out = Object m' \<and> map_of m' k = Some (Object ob)"
  using assms scoped_keeps_object by (auto simp: resolve_bucket_by_role_def Let_def split: if_splits)

text \<open>
  C27. Connections do not leak across workspaces: when a step calls an action of another workspace, a
  field of a connection type that the caller filled with a name ends up with the values of a
  connection of the caller's own configuration or of a shared one, although the defaults of the
  owner are resolved afterwards without the gate.
\<close>

theorem action_connections_gated:
  assumes "prepare_action_input_roles tr (Object input) schema roles = Inr out"
    and "sc_action_owner roles = Some owner" and "ro_workspace owner \<noteq> ro_workspace (sc_caller roles)"
    and "distinct (keys schema)" and "map_of schema f = Some def" and "if_field_type def \<notin> set PRIMITIVE_TYPES"
    and "map_of input f = Some (String name)"
  shows "\<exists>m ws cfg key c ob. out = Object m \<and> map_of m f = Some (Object ob) \<and> connection_json c (Object ob) \<and>
     lk_get (role_lookup (sc_others roles) (sc_caller roles) (Some owner)) ws = Found cfg \<and>
     map_of (wc_connections cfg) key = Some c \<and> (ws = ro_workspace (sc_caller roles) \<or> cd_shared c)"
proof -
  obtain c1 c2 where c1: "resolve_bucket_by_role (Object input) schema (sc_caller roles) owner (sc_others roles) = Inr c1"
    and c2: "merge_action_defaults tr c1 schema (secrets_context (ro_config owner)) = Inr c2"
    and c3: "resolve_bucket_by_role c2 schema owner owner (sc_others roles) = Inr out"
    using assms(1,2) by (auto simp: prepare_action_input_roles_def Let_def split: sum.splits)
  from scoped_resolves_name [OF c1 [unfolded bucket_cross [OF assms(3) [symmetric]]] assms(4-7)]
  obtain m1 r ob where r: "c1 = Object m1" "opens (cross_scope (sc_caller roles) owner (sc_others roles)) r"
      "connection_json (rn_def r) (Object ob)" "map_of m1 f = Some (Object ob)"
    by blast
  obtain m2 where m2: "fold_result (fill_default (action_default tr (secrets_context (ro_config owner)))) schema m1 = Inr m2"
      "c2 = Object m2"
    using c2 r(1) by (auto simp: merge_action_defaults_def object_or_empty_def as_object_def map_sum_InrE)
  from fold_fill_default [OF m2(1) assms(4), of f] r(4) have "map_of m2 f = Some (Object ob)"
    by (simp add: filled_def)
  from bucket_keeps_object [OF c3 [unfolded m2(2)] this] obtain m where "out = Object m" "map_of m f = Some (Object ob)"
    by blast
  moreover from r(2) obtain cfg key where
      "lk_get (role_lookup (sc_others roles) (sc_caller roles) (Some owner)) (rn_workspace r) = Found cfg"
      "map_of (wc_connections cfg) key = Some (rn_def r)"
      "rn_workspace r = ro_workspace (sc_caller roles) \<or> cd_shared (rn_def r)"
    by (auto simp: opens_def cross_scope_def)
  ultimately show ?thesis using r(3) by blast
qed

definition db_connection :: "bool \<Rightarrow> connection_def" where
  "db_connection shared = \<lparr>cd_connection_type = None, cd_shared = shared, cd_values = [(''host'', String ''h'')]\<rparr>"

definition caller_role :: role_config where
  "caller_role = \<lparr>ro_workspace = ''app'', ro_config = empty_config\<rparr>"

definition owner_role :: "bool \<Rightarrow> role_config" where
  "owner_role shared =
     \<lparr>ro_workspace = ''lib'', ro_config = empty_config\<lparr>wc_connections := [(''db'', db_connection shared)]\<rparr>\<rparr>"

definition db_schema :: input_schema where
  "db_schema = [(''db'', \<lparr>if_field_type = ''postgres'', if_required = True, if_secret = False, if_default = None\<rparr>)]"

definition cross_roles :: "bool \<Rightarrow> role_scope" where
  "cross_roles shared =
     \<lparr>sc_caller = caller_role, sc_action_owner = Some (owner_role shared), sc_task_owner = None,
      sc_others = single_workspace ''app'' empty_config\<rparr>"

lemmas cross_defs = prepare_action_input_roles_def cross_roles_def owner_role_def caller_role_def db_schema_def
  db_connection_def resolve_bucket_by_role_def resolve_connection_inputs_scoped_def resolve_connection_field_def
  object_or_empty_def as_object_def canonical_type_ref_def found_config_def role_lookup_def
  parse_qualified_ref_def split_once_def resolve_connection_ref_def connection_values_def
  merge_action_defaults_def fill_default_def obj_collect_def with_context_def tagged_def
  PRIMITIVE_TYPES_def JSON_TYPE_def FILE_TYPE_def

theorem action_connections_gated_witness:
  "\<exists>m c ob. prepare_action_input_roles echo_tera (Object [(''db'', String ''db'')]) db_schema (cross_roles True) = Inr (Object m) \<and>
     map_of m ''db'' = Some (Object ob) \<and> connection_json c (Object ob) \<and> cd_shared c"
proof -
  let ?p = "prepare_action_input_roles echo_tera (Object [(''db'', String ''db'')]) db_schema (cross_roles True)"
  have "\<exists>out. ?p = Inr out" by (simp add: cross_defs)
  then obtain out where o: "?p = Inr out" ..
  have w: "ro_workspace (owner_role True) \<noteq> ro_workspace (sc_caller (cross_roles True))"
    and d: "distinct (keys db_schema)" and f: "map_of db_schema ''db'' = Some (snd (hd db_schema))"
    and n: "if_field_type (snd (hd db_schema)) \<notin> set PRIMITIVE_TYPES"
    and s: "sc_action_owner (cross_roles True) = Some (owner_role True)"
    by (simp_all add: cross_defs)
  have "map_of [(''db'', String ''db'')] ''db'' = Some (String ''db'')" by simp
  from action_connections_gated [OF o s w d f n this]
  obtain m ws cfg key c ob where g: "out = Object m" "map_of m ''db'' = Some (Object ob)" "connection_json c (Object ob)"
      "lk_get (role_lookup (sc_others (cross_roles True)) (sc_caller (cross_roles True)) (Some (owner_role True))) ws = Found cfg"
      "map_of (wc_connections cfg) key = Some c" "ws = ro_workspace (sc_caller (cross_roles True)) \<or> cd_shared c"
    by blast
  have "cd_shared c"
    using g(4-6) by (auto simp: cross_roles_def caller_role_def role_lookup_def)
  with o g(1-3) show ?thesis by blast
qed

text \<open>The same call fails when the connection of the owner is not shared.\<close>

lemma unshared_refused:
  "\<exists>e. prepare_action_input_roles echo_tera (Object [(''db'', String ''db'')]) db_schema (cross_roles False) = Inl e"
  by (simp add: cross_defs)

text \<open>
  A value that crosses into a task of another workspace is always a name, so every connection-typed
  field that the caller fills is gated.
\<close>

lemma task_connections_gated:
  assumes "resolve_provenance_bucket (Object input) schema value task others = Inr out"
    and "ro_workspace value \<noteq> ro_workspace task" and "distinct (keys schema)"
    and "map_of schema f = Some def" and "if_field_type def \<notin> set PRIMITIVE_TYPES" and "map_of input f = Some v"
  shows "\<exists>m r ob. out = Object m \<and> map_of m f = Some (Object ob) \<and> connection_json (rn_def r) (Object ob) \<and>
     opens (cross_scope value task others) r"
proof -
  let ?bad = "\<lambda>e. if_field_type (snd e) \<notin> set PRIMITIVE_TYPES \<and>
     (case map_of (object_or_empty (Object input)) (fst e) of Some v \<Rightarrow> \<not> is_string v | None \<Rightarrow> False)"
  have none: "find ?bad schema = None"
    and out: "resolve_bucket_by_role (Object input) schema value task others = Inr out"
    using assms(1,2) by (auto simp: resolve_provenance_bucket_def split: option.splits)
  have "(f, def) \<in> set schema" using assms(4) by (rule map_of_SomeD)
  then have "\<not> ?bad (f, def)" using none [unfolded find_None_iff] by blast
  with assms(5,6) have "is_string v" by (simp add: object_or_empty_def as_object_def)
  then obtain name where "v = String name" by (auto simp: is_string_def split: json.splits)
  with scoped_resolves_name [OF out [unfolded bucket_cross [OF assms(2)]] assms(3-5)] assms(6)
  show ?thesis by blast
qed

section \<open>The lookup interface\<close>

text \<open>A lookup knows the workspace it is for.\<close>

locale known_local =
  fixes lk :: workspace_lookup
  assumes local_known: "lk_get lk (lk_local_name lk) \<noteq> Unknown"
begin

text \<open>Resolving a bare name at home never blames an unknown workspace.\<close>

lemma bare_name_error:
  assumes "parse_qualified_ref name = (None, name)" and "rs_lookup scope = lk" and "rs_value_ws scope = lk_local_name lk"
    and "resolve_connection_ref name scope = Inl e"
  shows "e \<in> {NotFound, NotShared, WorkspaceUnavailable}"
  using assms local_known
  by (auto simp: resolve_connection_ref_def split: lookup.splits option.splits if_splits)

end

interpretation single: known_local "single_workspace name config" for name config
  by unfold_locales (simp add: single_workspace_def)

interpretation set_of: known_local "workspace_set_lookup (workspace_set_from_parts local_name local_override configs known)"
  for local_name local_override configs known
  by unfold_locales
    (simp add: workspace_set_lookup_def workspace_set_get_def workspace_set_from_parts_def split: option.split)

lemma role_lookup_known:
  "known_local base \<Longrightarrow> known_local (role_lookup base first second)"
  by (auto simp: known_local_def role_lookup_def split: option.split)

end
