(* ===== verification/Refs.thy ===== *)
theory Refs
  imports Connections Git_Ref
begin

text \<open>
  References to actions and tasks (\<^verbatim>\<open>stroem-server/src/refs.rs\<close> and the resolution half of
  \<^verbatim>\<open>job_creator.rs\<close>): which workspace owns a name, when a name inherits the pin of the configuration it
  is written in, and how a ref is resolved to a commit at most once per job.

  The workspaces and their git repositories are outside: the record \<open>ref_env\<close> holds the live
  configurations and what the pin store answers. Asking for the commit of a ref may give another answer
  every time, because branches move; \<open>re_resolve env n\<close> is the answer to the call number \<open>n\<close>. The memo of
  the job and the number of calls are threaded through as \<open>ref_state\<close>.
\<close>

section \<open>Owners\<close>

datatype owner_kind = LocalOwner | CrossWorkspace

record ref_target =
  rt_owner :: string
  rt_local_name :: string
  rt_kind :: owner_kind

datatype ref_resolve_error = LibraryItem string | UnknownRefWorkspace string | NotGit string | AgentAction string

fun ref_resolve_error_text :: "ref_resolve_error \<Rightarrow> string" where
  "ref_resolve_error_text (LibraryItem name) = quote name @ '' is a library item; library items have no ref''"
| "ref_resolve_error_text (UnknownRefWorkspace ws) = ''ref target: unknown workspace '' @ quote ws"
| "ref_resolve_error_text (NotGit ws) =
     ''workspace '' @ quote ws @ '' is not a git workspace; `ref` needs a git owner''"
| "ref_resolve_error_text (AgentAction name) =
     ''action '' @ quote name @ '': agent actions cannot be referenced with `ref` yet''"

definition ref_error :: "ref_resolve_error \<Rightarrow> app_error" where
  "ref_error e =
     Typed (case e of NotGit _ \<Rightarrow> Kind_ref_not_git | AgentAction _ \<Rightarrow> Kind_ref_agent_action | _ \<Rightarrow> Kind_ref_other)
       (ref_resolve_error_text e)"

record ref_world =
  rw_library_names :: "string list"
  rw_configured :: "string list"
  rw_git :: "string list"

definition ref_owner :: "string \<Rightarrow> string \<Rightarrow> string list \<Rightarrow> string list \<Rightarrow> ref_resolve_error + ref_target" where
  "ref_owner base_ws name library_names configured_ws =
     (case parse_qualified_ref name of
        (None, local_name) \<Rightarrow> Inr \<lparr>rt_owner = base_ws, rt_local_name = local_name, rt_kind = LocalOwner\<rparr>
      | (Some pre, rest) \<Rightarrow>
          if pre \<in> set library_names then Inl (LibraryItem name)
          else if pre \<notin> set configured_ws then Inl (UnknownRefWorkspace pre)
          else Inr \<lparr>rt_owner = pre, rt_local_name = rest,
                    rt_kind = (if pre = base_ws then LocalOwner else CrossWorkspace)\<rparr>)"

record pin_ref =
  pr_git_ref :: string
  pr_commit :: string

datatype ref_plan = AtRef ref_target string | Today "pin_ref option"

definition plan_reference ::
    "string \<Rightarrow> pin_ref option \<Rightarrow> string \<Rightarrow> string option \<Rightarrow> ref_world \<Rightarrow> ref_resolve_error + ref_plan" where
  "plan_reference base_ws base_pin name git_ref world =
     (case git_ref of
        None \<Rightarrow> Inr (Today base_pin)
      | Some r \<Rightarrow>
          (case ref_owner base_ws name (rw_library_names world) (rw_configured world) of
             Inl e \<Rightarrow> Inl e
           | Inr target \<Rightarrow>
               if rt_owner target \<notin> set (rw_git world) then Inl (NotGit (rt_owner target))
               else Inr (AtRef target r)))"

definition inherited_pin :: "string \<Rightarrow> pin_ref option \<Rightarrow> string \<Rightarrow> pin_ref option" where
  "inherited_pin base_ws base_pin resolved_owner = (if resolved_owner = base_ws then base_pin else None)"

section \<open>The memo of a job\<close>

type_synonym ref_memo = "((string \<times> string) \<times> pin_ref) list"

record ref_env =
  re_world :: ref_world
  re_has_workspace :: "string \<Rightarrow> bool"
  re_live :: "string \<Rightarrow> workspace_config option"
  re_revision :: "string \<Rightarrow> string option"
  re_resolve :: "nat \<Rightarrow> string \<Rightarrow> string \<Rightarrow> app_error + pin_ref"
  re_ensure :: "string \<Rightarrow> pin_ref \<Rightarrow> app_error + workspace_config"

record ref_state =
  rf_memo :: ref_memo
  rf_calls :: nat

definition memo_insert :: "string \<Rightarrow> string \<Rightarrow> pin_ref \<Rightarrow> ref_memo \<Rightarrow> ref_memo" where
  "memo_insert owner git_ref pin m =
     (if map_of m (owner, git_ref) = None then m @ [((owner, git_ref), pin)] else m)"

definition memo_seeded :: "string \<Rightarrow> pin_ref option \<Rightarrow> ref_memo" where
  "memo_seeded workspace pin =
     (case pin of None \<Rightarrow> [] | Some p \<Rightarrow> memo_insert workspace (pr_git_ref p) p [])"

record job_ref_pin_row =
  jp_workspace :: string
  jp_git_ref :: string
  jp_commit :: string

definition memo_entries :: "ref_memo \<Rightarrow> job_ref_pin_row list" where
  "memo_entries m =
     map (\<lambda>((workspace, git_ref), pin).
       \<lparr>jp_workspace = workspace, jp_git_ref = git_ref, jp_commit = pr_commit pin\<rparr>) m"

definition memo_from_rows :: "job_ref_pin_row list \<Rightarrow> ref_memo" where
  "memo_from_rows rows =
     foldl (\<lambda>m row. memo_insert (jp_workspace row) (jp_git_ref row)
       \<lparr>pr_git_ref = jp_git_ref row, pr_commit = jp_commit row\<rparr> m) [] rows"

type_synonym 'a ref_result = "app_error + 'a \<times> ref_state"

definition pin_at_ref :: "ref_env \<Rightarrow> string \<Rightarrow> string \<Rightarrow> ref_state \<Rightarrow> (pin_ref \<times> workspace_config) ref_result" where
  "pin_at_ref env owner git_ref st =
     (case (case map_of (rf_memo st) (owner, git_ref) of
              Some pin \<Rightarrow> Inr (pin, st)
            | None \<Rightarrow>
                (case re_resolve env (rf_calls st) owner git_ref of
                   Inl e \<Rightarrow> Inl e
                 | Inr pin \<Rightarrow>
                     (let memo = memo_insert owner git_ref pin (rf_memo st)
                      in Inr (case map_of memo (owner, git_ref) of Some p \<Rightarrow> p | None \<Rightarrow> pin,
                           st\<lparr>rf_memo := memo, rf_calls := Suc (rf_calls st)\<rparr>)))) of
        Inl e \<Rightarrow> Inl e
      | Inr (pin, st') \<Rightarrow> map_sum id (\<lambda>cfg. ((pin, cfg), st')) (re_ensure env owner pin))"

section \<open>Names in a configuration\<close>

definition missing_at_ref :: "string \<Rightarrow> string \<Rightarrow> string \<Rightarrow> string \<Rightarrow> string \<Rightarrow> string" where
  "missing_at_ref kind written owner local_name git_ref =
     kind @ '' '' @ quote written @ '': workspace '' @ quote owner @ '' has no '' @ kind @ '' '' @ quote local_name @
       '' at ref '' @ quote git_ref"

definition action_at :: "string \<Rightarrow> string \<Rightarrow> workspace_config \<Rightarrow> string \<Rightarrow> string \<Rightarrow> app_error + action_def" where
  "action_at written owner cfg local_name git_ref =
     (case map_of (wc_actions cfg) local_name of
        Some a \<Rightarrow> Inr a
      | None \<Rightarrow> Inl (Typed Kind_missing_at_ref (missing_at_ref ''action'' written owner local_name git_ref)))"

definition task_named_at :: "string \<Rightarrow> string \<Rightarrow> workspace_config \<Rightarrow> string \<Rightarrow> string \<Rightarrow> app_error + task_def" where
  "task_named_at task_ref ws cfg local_name git_ref =
     (case map_of (wc_tasks cfg) local_name of
        Some t \<Rightarrow> Inr t
      | None \<Rightarrow> Inl (Typed Kind_missing_at_ref (missing_at_ref ''task'' task_ref ws local_name git_ref)))"

definition task_at :: "string \<Rightarrow> workspace_config \<Rightarrow> string \<Rightarrow> string \<Rightarrow> app_error + string \<times> task_def" where
  "task_at ws cfg task_ref git_ref =
     (let local_name = (if contains_key (wc_tasks cfg) task_ref then task_ref else snd (parse_qualified_ref task_ref))
      in map_sum id (\<lambda>t. (local_name, t)) (task_named_at task_ref ws cfg local_name git_ref))"

datatype task_ref_owner = BaseKey | Qualified string string

definition task_ref_owner_of ::
    "ref_env \<Rightarrow> string \<Rightarrow> workspace_config \<Rightarrow> string \<Rightarrow> app_error + task_ref_owner" where
  "task_ref_owner_of env base_ws base_cfg task_ref =
     (if contains_key (wc_tasks base_cfg) task_ref then Inr BaseKey
      else case parse_qualified_ref task_ref of
             (Some ws, name) \<Rightarrow>
               if \<not> re_has_workspace env ws
               then Inl (Msg (''task '' @ quote task_ref @ '': unknown workspace '' @ quote ws))
               else Inr (Qualified ws name)
           | (None, _) \<Rightarrow> Inl (Msg (''Task '' @ quote task_ref @ '' not found in workspace '' @ quote base_ws)))"

text \<open>The configuration of the owner is \<open>None\<close> when it is the one the caller already holds.\<close>

record resolved_task =
  rk_workspace :: string
  rk_task_name :: string
  rk_task :: task_def
  rk_config :: "workspace_config option"

definition resolve_task_ref ::
    "ref_env \<Rightarrow> string \<Rightarrow> workspace_config \<Rightarrow> string \<Rightarrow> app_error + resolved_task" where
  "resolve_task_ref env base_ws base_cfg task_ref =
     (case task_ref_owner_of env base_ws base_cfg task_ref of
        Inl e \<Rightarrow> Inl e
      | Inr BaseKey \<Rightarrow>
          (case map_of (wc_tasks base_cfg) task_ref of
             Some t \<Rightarrow> Inr \<lparr>rk_workspace = base_ws, rk_task_name = task_ref, rk_task = t, rk_config = None\<rparr>
           | None \<Rightarrow> Inl (Msg []))
      | Inr (Qualified ws name) \<Rightarrow>
          (case re_live env ws of
             None \<Rightarrow> Inl (Msg (''task '' @ quote task_ref @ '': workspace '' @ quote ws @ '' is not available''))
           | Some cfg \<Rightarrow>
               (case map_of (wc_tasks cfg) name of
                  None \<Rightarrow> Inl (Msg (''task '' @ quote task_ref @ '': workspace '' @ quote ws @ '' has no task '' @ quote name))
                | Some t \<Rightarrow> Inr \<lparr>rk_workspace = ws, rk_task_name = name, rk_task = t, rk_config = Some cfg\<rparr>)))"

definition parse_ref :: "string \<Rightarrow> string \<Rightarrow> app_error + unit" where
  "parse_ref git_ref what =
     (case parse_git_ref git_ref of
        Inl e \<Rightarrow> Inl (Context (what @ '': invalid ref name'') (Typed Kind_git_ref (git_ref_error_text e)))
      | Inr _ \<Rightarrow> Inr ())"

definition resolve_task_for_step ::
    "ref_env \<Rightarrow> string \<Rightarrow> workspace_config \<Rightarrow> pin_ref option \<Rightarrow> string \<Rightarrow> string option \<Rightarrow> ref_state
       \<Rightarrow> (resolved_task \<times> pin_ref option) ref_result" where
  "resolve_task_for_step env base_ws base_cfg base_pin task_ref git_ref st =
     (case (case git_ref of None \<Rightarrow> Inr () | Some r \<Rightarrow> parse_ref r (''task '' @ quote task_ref)) of
        Inl e \<Rightarrow> Inl e
      | Inr _ \<Rightarrow>
          (case plan_reference base_ws base_pin task_ref git_ref (re_world env) of
             Inl e \<Rightarrow> Inl (ref_error e)
           | Inr (AtRef target r) \<Rightarrow>
               (case pin_at_ref env (rt_owner target) r st of
                  Inl e \<Rightarrow> Inl e
                | Inr ((pin, cfg), st') \<Rightarrow>
                    (case task_named_at task_ref (rt_owner target) cfg (rt_local_name target) r of
                       Inl e \<Rightarrow> Inl e
                     | Inr t \<Rightarrow> Inr ((\<lparr>rk_workspace = rt_owner target, rk_task_name = rt_local_name target,
                                     rk_task = t, rk_config = Some cfg\<rparr>, Some pin), st')))
           | Inr (Today pin0) \<Rightarrow>
               (case task_ref_owner_of env base_ws base_cfg task_ref of
                  Inl e \<Rightarrow> Inl e
                | Inr owner \<Rightarrow>
                    (case inherited_pin base_ws pin0 (case owner of BaseKey \<Rightarrow> base_ws | Qualified ws _ \<Rightarrow> ws) of
                       None \<Rightarrow> map_sum id (\<lambda>t. ((t, None), st)) (resolve_task_ref env base_ws base_cfg task_ref)
                     | Some pin \<Rightarrow>
                         map_sum id (\<lambda>(name, t).
                           ((\<lparr>rk_workspace = base_ws, rk_task_name = name, rk_task = t, rk_config = None\<rparr>, Some pin), st))
                           (task_at base_ws base_cfg task_ref (pr_git_ref pin))))))"

section \<open>The action of a step\<close>

record step_action =
  sa_action :: action_def
  sa_workspace :: "string option"
  sa_revision :: "string option"
  sa_name :: string
  sa_owner_cfg :: "workspace_config option"
  sa_pin :: "pin_ref option"

definition resolve_step_action ::
    "ref_env \<Rightarrow> string \<Rightarrow> workspace_config \<Rightarrow> pin_ref option \<Rightarrow> string \<Rightarrow> flow_step \<Rightarrow> string option \<Rightarrow> ref_state
       \<Rightarrow> step_action ref_result" where
  "resolve_step_action env ws_name ws_cfg job_pin step_name fs step_ref st =
     (case step_ref of
        Some r \<Rightarrow>
          (case parse_ref r (''step '' @ quote step_name) of
             Inl e \<Rightarrow> Inl e
           | Inr _ \<Rightarrow>
               (case plan_reference ws_name None (fs_action fs) (Some r) (re_world env) of
                  Inl e \<Rightarrow> Inl (ref_error e)
                | Inr (Today _) \<Rightarrow> Inl (Msg [])
                | Inr (AtRef target git_ref) \<Rightarrow>
                    (case pin_at_ref env (rt_owner target) git_ref st of
                       Inl e \<Rightarrow> Inl e
                     | Inr ((pin, cfg), st') \<Rightarrow>
                         (case action_at (fs_action fs) (rt_owner target) cfg (rt_local_name target) git_ref of
                            Inl e \<Rightarrow> Inl e
                          | Inr a \<Rightarrow>
                              if ad_action_type a = ''agent''
                              then Inl (ref_error (AgentAction (fs_action fs)))
                              else Inr (\<lparr>sa_action = a, sa_workspace = Some (rt_owner target),
                                    sa_revision = Some (pr_commit pin), sa_name = rt_local_name target,
                                    sa_owner_cfg = Some cfg, sa_pin = Some pin\<rparr>, st')))))
      | None \<Rightarrow>
          (let (owner_ws, bare) = parse_qualified_ref (fs_action fs);
               qualified = (case owner_ws of
                   Some ws \<Rightarrow> if \<not> contains_key (wc_actions ws_cfg) (fs_action fs) \<and> re_has_workspace env ws
                     then Some ws else None
                 | None \<Rightarrow> None)
           in case qualified of
                None \<Rightarrow>
                  (case map_of (wc_actions ws_cfg) (fs_action fs) of
                     None \<Rightarrow> Inl (Msg (''Action '' @ quote (fs_action fs) @ '' not found in workspace '' @ quote ws_name))
                   | Some a \<Rightarrow> Inr (\<lparr>sa_action = a, sa_workspace = None, sa_revision = None,
                                    sa_name = fs_action fs, sa_owner_cfg = None, sa_pin = None\<rparr>, st))
              | Some ws \<Rightarrow>
                  (case inherited_pin ws_name job_pin ws of
                     Some pin \<Rightarrow>
                       map_sum id (\<lambda>a. (\<lparr>sa_action = a, sa_workspace = Some ws, sa_revision = Some (pr_commit pin),
                           sa_name = bare, sa_owner_cfg = None, sa_pin = Some pin\<rparr>, st))
                         (action_at (fs_action fs) ws ws_cfg bare (pr_git_ref pin))
                   | None \<Rightarrow>
                       (case re_live env ws of
                          None \<Rightarrow> Inl (Msg (''action '' @ quote (fs_action fs) @ '': workspace '' @ quote ws @ '' is not available''))
                        | Some cfg \<Rightarrow>
                            (case map_of (wc_actions cfg) bare of
                               None \<Rightarrow> Inl (Msg (''action '' @ quote (fs_action fs) @ '': workspace '' @ quote ws @
                                         '' has no action '' @ quote bare))
                             | Some a \<Rightarrow> Inr (\<lparr>sa_action = a, sa_workspace = Some ws, sa_revision = re_revision env ws,
                                 sa_name = bare, sa_owner_cfg = Some cfg, sa_pin = None\<rparr>, st))))))"

section \<open>One commit per ref\<close>

text \<open>The pin store answers with the ref as it was written.\<close>

definition resolve_keeps_ref :: "ref_env \<Rightarrow> bool" where
  "resolve_keeps_ref env \<longleftrightarrow> (\<forall>n owner r pin. re_resolve env n owner r = Inr pin \<longrightarrow> pr_git_ref pin = r)"

definition memo_ok :: "ref_memo \<Rightarrow> bool" where
  "memo_ok m \<longleftrightarrow> (\<forall>owner r pin. map_of m (owner, r) = Some pin \<longrightarrow> pr_git_ref pin = r)"

definition pinned :: "ref_memo \<Rightarrow> string \<Rightarrow> pin_ref \<Rightarrow> bool" where
  "pinned m owner p \<longleftrightarrow> map_of m (owner, pr_git_ref p) = Some p"

definition extends :: "ref_state \<Rightarrow> ref_state \<Rightarrow> bool" where
  "extends st st' \<longleftrightarrow> map_of (rf_memo st) \<subseteq>\<^sub>m map_of (rf_memo st') \<and> (memo_ok (rf_memo st) \<longrightarrow> memo_ok (rf_memo st'))"

lemma memo_extends_refl [simp]: "extends st st"
  by (simp add: extends_def)

lemma memo_extends_trans: "extends a b \<Longrightarrow> extends b c \<Longrightarrow> extends a c"
  by (auto simp: extends_def intro: map_le_trans)

lemma pinned_extends: "pinned (rf_memo st) owner p \<Longrightarrow> extends st st' \<Longrightarrow> pinned (rf_memo st') owner p"
  unfolding pinned_def extends_def map_le_def by (metis domI)

lemma map_of_memo_insert:
  "map_of (memo_insert owner r pin m) k =
     (if k = (owner, r) \<and> map_of m (owner, r) = None then Some pin else map_of m k)"
  by (auto simp: memo_insert_def map_add_def split: option.split)

lemma pin_at_ref_ok:
  assumes "pin_at_ref env owner r st = Inr ((pin, cfg), st')" and "resolve_keeps_ref env" and "memo_ok (rf_memo st)"
  shows "extends st st'" and "pinned (rf_memo st') owner pin" and "pr_git_ref pin = r"
proof -
  have "extends st st' \<and> map_of (rf_memo st') (owner, r) = Some pin \<and> pr_git_ref pin = r"
  proof (cases "map_of (rf_memo st) (owner, r)")
    case (Some p)
    with assms show ?thesis
      by (auto simp: pin_at_ref_def map_sum_InrE memo_ok_def)
  next
    case None
    with assms(1) obtain p where p: "re_resolve env (rf_calls st) owner r = Inr p" "p = pin"
        "st' = st\<lparr>rf_memo := memo_insert owner r p (rf_memo st), rf_calls := Suc (rf_calls st)\<rparr>"
      by (auto simp: pin_at_ref_def map_sum_InrE Let_def map_of_memo_insert split: sum.splits)
    with assms(2) have "pr_git_ref pin = r" by (auto simp: resolve_keeps_ref_def)
    with p None show ?thesis
      by (auto simp: extends_def map_le_def memo_ok_def map_of_memo_insert dom_def)
  qed
  then show "extends st st'" and "pinned (rf_memo st') owner pin" and "pr_git_ref pin = r"
    by (auto simp: pinned_def)
qed

lemma resolve_task_for_step_ok:
  assumes "resolve_task_for_step env base_ws base_cfg base_pin task_ref git_ref st = Inr ((resolved, pin), st')"
    and "resolve_keeps_ref env" and "memo_ok (rf_memo st)"
    and "\<And>p. base_pin = Some p \<Longrightarrow> pinned (rf_memo st) base_ws p"
  shows "extends st st'" and "pin = Some p \<Longrightarrow> pinned (rf_memo st') (rk_workspace resolved) p"
proof -
  have "extends st st' \<and> (pin = Some p \<longrightarrow> pinned (rf_memo st') (rk_workspace resolved) p)"
  proof (cases git_ref)
    case None
    then show ?thesis
      using assms(1,4)
      by (auto simp: resolve_task_for_step_def plan_reference_def map_sum_InrE inherited_pin_def
          split: sum.splits option.splits task_ref_owner.splits if_splits)
  next
    case (Some r)
    with assms(1) obtain owner p' cfg where t: "pin_at_ref env owner r st = Inr ((p', cfg), st')"
        "rk_workspace resolved = owner" "pin = Some p'"
      by (auto simp: resolve_task_for_step_def plan_reference_def split: sum.splits if_splits)
    from pin_at_ref_ok [OF t(1) assms(2,3)] t(2,3) show ?thesis by auto
  qed
  then show "extends st st'" and "pin = Some p \<Longrightarrow> pinned (rf_memo st') (rk_workspace resolved) p" by auto
qed

text \<open>A pinned action carries its owner and its commit.\<close>

definition action_pinned :: "ref_memo \<Rightarrow> step_action \<Rightarrow> bool" where
  "action_pinned m sa \<longleftrightarrow>
     (\<forall>p. sa_pin sa = Some p \<longrightarrow>
        (\<exists>owner. sa_workspace sa = Some owner \<and> sa_revision sa = Some (pr_commit p) \<and> pinned m owner p))"

lemma resolve_step_action_ok:
  assumes "resolve_step_action env ws_name ws_cfg job_pin step_name fs step_ref st = Inr (sa, st')"
    and "resolve_keeps_ref env" and "memo_ok (rf_memo st)"
    and "\<And>p. job_pin = Some p \<Longrightarrow> pinned (rf_memo st) ws_name p"
  shows "extends st st'" and "action_pinned (rf_memo st') sa"
proof -
  have "extends st st' \<and> action_pinned (rf_memo st') sa"
  proof (cases step_ref)
    case None
    then show ?thesis
      using assms(1,4)
      by (auto simp: resolve_step_action_def Let_def action_pinned_def map_sum_InrE inherited_pin_def
          split: sum.splits option.splits prod.splits if_splits)
  next
    case (Some r)
    with assms(1) obtain owner p cfg where t: "pin_at_ref env owner r st = Inr ((p, cfg), st')"
        "sa_workspace sa = Some owner" "sa_pin sa = Some p" "sa_revision sa = Some (pr_commit p)"
      by (auto simp: resolve_step_action_def plan_reference_def split: sum.splits if_splits)
    from pin_at_ref_ok [OF t(1) assms(2,3)] t(2-4) show ?thesis by (auto simp: action_pinned_def)
  qed
  then show "extends st st'" and "action_pinned (rf_memo st') sa" by auto
qed

end
