(* ===== verification/Step_Rows.thy ===== *)
theory Step_Rows
  imports Refs Step_Store
begin

text \<open>
  From a flow step to the row that is inserted for it (\<^verbatim>\<open>stroem-server/src/job_creator.rs\<close>,
  \<^verbatim>\<open>compute_required_ability\<close> and its neighbours in \<^verbatim>\<open>stroem-common/src/validation.rs\<close>): the columns,
  the initial status, the checks of literal connection names, and the row of a step whose ref is a
  template and is resolved later.

  \<open>creation_env\<close> holds what comes from outside: the references, the template functions, the printers of
  JSON values and of actions (\<^verbatim>\<open>serde\<close>), and the syntax check of a template.
\<close>

section \<open>Columns\<close>

definition compute_required_ability :: "action_def \<Rightarrow> string" where
  "compute_required_ability a =
     (if ad_action_type a \<in> {''task'', ''approval''} then []
      else if ad_action_type a = ''agent'' then ''agent''
      else if ad_action_type a = ''script'' then
        (if ad_runner a = Some ''docker'' then ''docker''
         else if ad_runner a = Some ''pod'' then ''kubernetes'' else ''script'')
      else if ad_action_type a = ''docker'' then ''docker''
      else if ad_action_type a = ''pod'' then ''kubernetes''
      else ''script'')"

definition compute_required_tags :: "action_def \<Rightarrow> string list" where
  "compute_required_tags a =
     (if ad_action_type a = ''task'' \<or> ad_action_type a = ''approval'' then []
      else foldl (\<lambda>tags tag. if tag \<in> set tags then tags else tags @ [tag]) [] (ad_tags a))"

definition derive_runner :: "action_def \<Rightarrow> string" where
  "derive_runner a =
     (if ad_action_type a = ''script'' then (case ad_runner a of Some r \<Rightarrow> r | None \<Rightarrow> ''local'')
      else if ad_action_type a \<in> {''docker'', ''pod'', ''task'', ''agent'', ''approval''} then ''none''
      else ''local'')"

record job_defaults =
  df_step_timeout_secs :: "int option"
  df_job_timeout_secs :: "int option"
  df_input_storage :: bool

text \<open>
  The conversions to \<^verbatim>\<open>i32\<close> panic on larger values, which the validation of the configuration excludes.
\<close>

definition step_timeout :: "flow_step \<Rightarrow> job_defaults \<Rightarrow> int option" where
  "step_timeout fs defaults =
     (case fs_timeout fs of Some d \<Rightarrow> Some (int d) | None \<Rightarrow> df_step_timeout_secs defaults)"

definition for_each_text :: "(json \<Rightarrow> string) \<Rightarrow> flow_step \<Rightarrow> string option" where
  "for_each_text show_json fs =
     map_option (\<lambda>v. case v of String s \<Rightarrow> s | _ \<Rightarrow> show_json v) (fs_for_each fs)"

record retry_cols =
  rl_max_retries :: "int option"
  rl_backoff_secs :: "int option"
  rl_strategy :: "string option"
  rl_jitter :: bool

definition retry_cols_of :: "retry_config option \<Rightarrow> retry_cols" where
  "retry_cols_of retry =
     \<lparr>rl_max_retries = map_option (\<lambda>r. int (rc_max_attempts r) - 1) retry,
      rl_backoff_secs = map_option (\<lambda>r. int (rc_delay r)) retry,
      rl_strategy = map_option (\<lambda>r. if rc_backoff r = Exponential then ''exponential'' else ''fixed'') retry,
      rl_jitter = (case retry of Some r \<Rightarrow> rc_jitter r | None \<Rightarrow> False)\<rparr>"

definition initial_status :: "flow_step \<Rightarrow> step_status" where
  "initial_status fs =
     (if fs_for_each fs \<noteq> None then Pending
      else if fs_depends_on fs = [] \<and> fs_when fs = None then Ready
      else Pending)"

record task_pin_stamp =
  ts_workspace :: string
  ts_git_ref :: string
  ts_commit :: string

record creation_env =
  ce_refs :: ref_env
  ce_tera :: tera
  ce_configs :: "workspace_config hashmap"
  ce_show_json :: "json \<Rightarrow> string"
  ce_action_json :: "action_def \<Rightarrow> json option"
  ce_check_ref_template :: "string \<Rightarrow> app_error + unit"

definition build_step ::
    "creation_env \<Rightarrow> uuid \<Rightarrow> string \<Rightarrow> string \<Rightarrow> flow_step \<Rightarrow> action_def \<Rightarrow> json option \<Rightarrow> step_status \<Rightarrow> job_defaults
       \<Rightarrow> string option \<Rightarrow> string option \<Rightarrow> string option \<Rightarrow> task_pin_stamp option \<Rightarrow> new_job_step" where
  "build_step env job_id step_name action_name fs a input status defaults action_workspace action_revision
       action_ref task_pin =
     (let retry = retry_cols_of (resolve_step_retry_config fs a) in
      \<lparr>ns_job_id = job_id, ns_step_name = step_name, ns_action_name = action_name,
       ns_action_type = ad_action_type a, ns_action_image = ad_image a,
       ns_action_spec = ce_action_json env a, ns_input = input, ns_status = step_status_str status,
       ns_required_ability = compute_required_ability a, ns_required_tags = compute_required_tags a,
       ns_runner = derive_runner a, ns_timeout_secs = step_timeout fs defaults,
       ns_when_condition = fs_when fs, ns_for_each_expr = for_each_text (ce_show_json env) fs,
       ns_loop_source = None, ns_loop_index = None, ns_loop_total = None, ns_loop_item = None,
       ns_max_retries = rl_max_retries retry, ns_retry_backoff_secs = rl_backoff_secs retry,
       ns_retry_strategy = rl_strategy retry, ns_retry_jitter = rl_jitter retry,
       ns_action_workspace = action_workspace, ns_action_revision = action_revision,
       ns_action_ref = action_ref, ns_task_workspace = map_option ts_workspace task_pin,
       ns_task_ref = map_option ts_git_ref task_pin, ns_task_revision = map_option ts_commit task_pin,
       ns_ref_template = None\<rparr>)"

section \<open>Checks of literal connection names\<close>

definition is_connection_field :: "input_field_def \<Rightarrow> bool" where
  "is_connection_field def \<longleftrightarrow> if_field_type def \<notin> set PRIMITIVE_TYPES"

definition precheck_context :: "string \<Rightarrow> string" where
  "precheck_context step_name = ''step '' @ quote step_name @ '': failed to resolve connection inputs''"

definition precheck_literal_connection_inputs ::
    "string \<Rightarrow> flow_step \<Rightarrow> action_def \<Rightarrow> role_scope \<Rightarrow> app_error + unit" where
  "precheck_literal_connection_inputs step_name fs a roles =
     (if fs_when fs \<noteq> None then Inr ()
      else let literal = (\<lambda>e. is_connection_field (snd e) \<and>
                 (case map_of (fs_input fs) (fst e) of Some (String s) \<Rightarrow> \<not> looks_templated s | _ \<Rightarrow> False));
               schema = filter literal (ad_input a);
               values = map (\<lambda>e. (fst e, case map_of (fs_input fs) (fst e) of Some v \<Rightarrow> v | None \<Rightarrow> Null)) schema
           in if schema = [] then Inr ()
              else let owner = (case sc_action_owner roles of Some ow \<Rightarrow> ow | None \<Rightarrow> sc_caller roles)
                   in map_sum id (\<lambda>_. ()) (with_context (precheck_context step_name)
                        (resolve_bucket_by_role (json_obj values) schema (sc_caller roles) owner (sc_others roles))))"

definition precheck_task_step_literals ::
    "creation_env \<Rightarrow> string \<Rightarrow> flow_step \<Rightarrow> resolved_task \<Rightarrow> role_config \<Rightarrow> workspace_config \<Rightarrow> app_error + unit" where
  "precheck_task_step_literals env step_name fs resolved caller base_cfg =
     (if fs_when fs \<noteq> None then Inr ()
      else let literals = concat (map (\<lambda>e.
                 if \<not> is_connection_field (snd e) then []
                 else case map_of (fs_input fs) (fst e) of
                        Some (String s) \<Rightarrow> if looks_templated s then [] else [(fst e, String s)]
                      | Some v \<Rightarrow> [(fst e, v)]
                      | None \<Rightarrow> []) (td_input (rk_task resolved)))
           in if literals = [] then Inr ()
              else let t_cfg = (case rk_config resolved of None \<Rightarrow> base_cfg | Some c \<Rightarrow> c);
                       others = workspace_set_lookup (workspace_set_from_parts (rk_workspace resolved) (Some t_cfg)
                         (ce_configs env) (rw_configured (re_world (ce_refs env))))
                   in map_sum id (\<lambda>_. ()) (with_context (precheck_context step_name)
                        (resolve_task_input_by_provenance_roles (json_obj literals) (Object []) (td_input (rk_task resolved))
                          \<lparr>sc_caller = caller, sc_action_owner = None,
                           sc_task_owner = Some \<lparr>ro_workspace = rk_workspace resolved, ro_config = t_cfg\<rparr>,
                           sc_others = others\<rparr>)))"

section \<open>The row of a step\<close>

record step_row_ctx =
  sx_job_id :: uuid
  sx_workspace_name :: string
  sx_workspace_config :: workspace_config
  sx_task_name :: string
  sx_job_pin :: "pin_ref option"
  sx_ws_set :: workspace_lookup
  sx_defaults :: job_defaults

text \<open>The task pin of a step that calls a task, after the task was resolved and checked.\<close>

definition resolve_task_pin ::
    "creation_env \<Rightarrow> step_row_ctx \<Rightarrow> string \<Rightarrow> flow_step \<Rightarrow> step_action \<Rightarrow> string \<Rightarrow> ref_state
       \<Rightarrow> task_pin_stamp option ref_result" where
  "resolve_task_pin env ctx step_name fs sa task_ref st =
     (let base_ws = (case sa_workspace sa of Some ws \<Rightarrow> ws | None \<Rightarrow> sx_workspace_name ctx);
          base_cfg = (case sa_owner_cfg sa of Some c \<Rightarrow> c | None \<Rightarrow> sx_workspace_config ctx);
          base_pin = (case (sa_pin sa, sa_workspace sa) of
              (Some p, _) \<Rightarrow> Some p
            | (None, None) \<Rightarrow> sx_job_pin ctx
            | (None, Some _) \<Rightarrow> None)
      in case resolve_task_for_step (ce_refs env) base_ws base_cfg base_pin task_ref (ad_git_ref (sa_action sa)) st of
           Inl e \<Rightarrow> Inl e
         | Inr ((resolved, pin), st') \<Rightarrow>
             if rk_workspace resolved = sx_workspace_name ctx \<and> rk_task_name resolved = sx_task_name ctx \<and>
                pin = sx_job_pin ctx
             then Inl (Msg (''task '' @ quote task_ref @ '' is a self-reference to '' @
                    quote (sx_workspace_name ctx @ ''/'' @ sx_task_name ctx) @ '' (invalid)''))
             else case precheck_task_step_literals env step_name fs resolved
                         \<lparr>ro_workspace = sx_workspace_name ctx, ro_config = sx_workspace_config ctx\<rparr> base_cfg of
                    Inl e \<Rightarrow> Inl e
                  | Inr _ \<Rightarrow> Inr (map_option (\<lambda>p. \<lparr>ts_workspace = rk_workspace resolved, ts_git_ref = pr_git_ref p,
                                ts_commit = pr_commit p\<rparr>) pin, st'))"

definition resolve_step_row ::
    "creation_env \<Rightarrow> step_row_ctx \<Rightarrow> string \<Rightarrow> flow_step \<Rightarrow> step_status \<Rightarrow> string option \<Rightarrow> ref_state
       \<Rightarrow> new_job_step ref_result" where
  "resolve_step_row env ctx step_name fs status git_ref_override st =
     (case resolve_step_action (ce_refs env) (sx_workspace_name ctx) (sx_workspace_config ctx) (sx_job_pin ctx)
             step_name fs (case git_ref_override of Some r \<Rightarrow> Some r | None \<Rightarrow> fs_git_ref fs) st of
        Inl e \<Rightarrow> Inl e
      | Inr (sa, st1) \<Rightarrow>
          (let a = sa_action sa in
           case (if ad_action_type a = ''task'' then
                   (case ad_task a of
                      None \<Rightarrow> Inl (Msg ''type: task action missing task field'')
                    | Some task_ref \<Rightarrow>
                        (case ad_git_ref a of
                           Some r \<Rightarrow>
                             if classify_ref r = TemplateRef
                             then map_sum id (\<lambda>_. (None, st1)) (with_context
                                    (''step '' @ quote step_name @ '': action '' @ quote (sa_name sa) @
                                      '' has an invalid `ref` template'') (ce_check_ref_template env r))
                             else resolve_task_pin env ctx step_name fs sa task_ref st1
                         | None \<Rightarrow> resolve_task_pin env ctx step_name fs sa task_ref st1))
                 else map_sum id (\<lambda>_. (None, st1)) (precheck_literal_connection_inputs step_name fs a
                   \<lparr>sc_caller = \<lparr>ro_workspace = sx_workspace_name ctx, ro_config = sx_workspace_config ctx\<rparr>,
                    sc_action_owner = map_option (\<lambda>ws. \<lparr>ro_workspace = ws,
                      ro_config = (case sa_owner_cfg sa of Some c \<Rightarrow> c | None \<Rightarrow> sx_workspace_config ctx)\<rparr>) (sa_workspace sa),
                    sc_task_owner = None, sc_others = sx_ws_set ctx\<rparr>)) of
             Inl e \<Rightarrow> Inl e
           | Inr (task_pin, st2) \<Rightarrow>
               Inr (build_step env (sx_job_id ctx) step_name (sa_name sa) fs a (Some (json_obj (fs_input fs))) status
                 (sx_defaults ctx) (sa_workspace sa) (sa_revision sa) (map_option pr_git_ref (sa_pin sa)) task_pin, st2)))"

definition deferred_row ::
    "creation_env \<Rightarrow> step_row_ctx \<Rightarrow> string \<Rightarrow> flow_step \<Rightarrow> string \<Rightarrow> step_status \<Rightarrow> app_error + new_job_step" where
  "deferred_row env ctx step_name fs template status =
     (case with_context (''step '' @ quote step_name @ '': invalid `ref` template'') (ce_check_ref_template env template) of
        Inl e \<Rightarrow> Inl e
      | Inr _ \<Rightarrow>
          (case plan_reference (sx_workspace_name ctx) None (fs_action fs) (Some template) (re_world (ce_refs env)) of
             Inl e \<Rightarrow> Inl (ref_error e)
           | Inr (Today _) \<Rightarrow> Inl (Msg [])
           | Inr (AtRef target _) \<Rightarrow>
               (let retry = retry_cols_of (fs_retry fs) in
                Inr \<lparr>ns_job_id = sx_job_id ctx, ns_step_name = step_name, ns_action_name = rt_local_name target,
                     ns_action_type = DEFERRED_ACTION_TYPE, ns_action_image = None, ns_action_spec = None,
                     ns_input = Some (json_obj (fs_input fs)), ns_status = step_status_str status,
                     ns_required_ability = DEFERRED_ACTION_TYPE, ns_required_tags = [], ns_runner = ''none'',
                     ns_timeout_secs = step_timeout fs (sx_defaults ctx), ns_when_condition = fs_when fs,
                     ns_for_each_expr = for_each_text (ce_show_json env) fs,
                     ns_loop_source = None, ns_loop_index = None, ns_loop_total = None, ns_loop_item = None,
                     ns_max_retries = rl_max_retries retry, ns_retry_backoff_secs = rl_backoff_secs retry,
                     ns_retry_strategy = rl_strategy retry, ns_retry_jitter = rl_jitter retry,
                     ns_action_workspace = Some (rt_owner target), ns_action_revision = None, ns_action_ref = None,
                     ns_task_workspace = None, ns_task_ref = None, ns_task_revision = None,
                     ns_ref_template = Some template\<rparr>)))"

text \<open>The rows of a flow, in the order the hash map is iterated.\<close>

definition flow_step_row ::
    "creation_env \<Rightarrow> step_row_ctx \<Rightarrow> new_job_step list \<times> ref_state \<Rightarrow> string \<times> flow_step
       \<Rightarrow> app_error + new_job_step list \<times> ref_state" where
  "flow_step_row env ctx acc entry =
     (let (step_name, fs) = entry; (rows, st) = acc; status = initial_status fs in
      case fs_git_ref fs of
        Some r \<Rightarrow>
          if classify_ref r = TemplateRef
          then map_sum id (\<lambda>row. (rows @ [row], st)) (deferred_row env ctx step_name fs r status)
          else map_sum id (\<lambda>(row, st'). (rows @ [row], st')) (resolve_step_row env ctx step_name fs status None st)
      | None \<Rightarrow> map_sum id (\<lambda>(row, st'). (rows @ [row], st')) (resolve_step_row env ctx step_name fs status None st))"

definition flow_rows ::
    "creation_env \<Rightarrow> step_row_ctx \<Rightarrow> flow \<Rightarrow> ref_state \<Rightarrow> app_error + new_job_step list \<times> ref_state" where
  "flow_rows env ctx fl st = fold_result (flow_step_row env ctx) fl ([], st)"

section \<open>What a row carries\<close>

definition row_of_step :: "creation_env \<Rightarrow> step_row_ctx \<Rightarrow> string \<times> flow_step \<Rightarrow> new_job_step \<Rightarrow> bool" where
  "row_of_step env ctx entry row \<longleftrightarrow>
     ns_job_id row = sx_job_id ctx \<and> ns_step_name row = fst entry \<and>
     ns_status row = step_status_str (initial_status (snd entry)) \<and>
     ns_when_condition row = fs_when (snd entry) \<and>
     ns_for_each_expr row = for_each_text (ce_show_json env) (snd entry) \<and>
     ns_loop_source row = None \<and> ns_loop_index row = None \<and> ns_loop_total row = None \<and> ns_loop_item row = None"

definition same_commit :: "ref_memo \<Rightarrow> string option \<Rightarrow> string option \<Rightarrow> string option \<Rightarrow> bool" where
  "same_commit m ws git_ref commit \<longleftrightarrow>
     (\<forall>r. git_ref = Some r \<longrightarrow>
        (\<exists>owner p. ws = Some owner \<and> map_of m (owner, r) = Some p \<and> pr_git_ref p = r \<and> commit = Some (pr_commit p)))"

definition row_pinned :: "ref_memo \<Rightarrow> new_job_step \<Rightarrow> bool" where
  "row_pinned m row \<longleftrightarrow>
     same_commit m (ns_action_workspace row) (ns_action_ref row) (ns_action_revision row) \<and>
     same_commit m (ns_task_workspace row) (ns_task_ref row) (ns_task_revision row)"

lemma same_commit_extends:
  "same_commit (rf_memo st) ws r c \<Longrightarrow> extends st st' \<Longrightarrow> same_commit (rf_memo st') ws r c"
  unfolding same_commit_def extends_def map_le_def by (metis domI)

lemma same_commit_none: "same_commit m ws None c"
  by (simp add: same_commit_def)

lemma row_pinned_extends:
  "row_pinned (rf_memo st) row \<Longrightarrow> extends st st' \<Longrightarrow> row_pinned (rf_memo st') row"
  unfolding row_pinned_def using same_commit_extends by blast

lemma build_step_row:
  "row_of_step env ctx (name, fs) (build_step env (sx_job_id ctx) name an fs a inp (initial_status fs) defaults aw ar
     af tp)"
  by (simp add: row_of_step_def build_step_def Let_def)

lemma build_step_pinned:
  "row_pinned m (build_step env job_id name an fs a inp status defaults aw ar af tp) \<longleftrightarrow>
     same_commit m aw af ar \<and>
     same_commit m (map_option ts_workspace tp) (map_option ts_git_ref tp) (map_option ts_commit tp)"
  by (simp add: row_pinned_def build_step_def Let_def)

lemma action_pinned_same_commit:
  "action_pinned m sa \<Longrightarrow> same_commit m (sa_workspace sa) (map_option pr_git_ref (sa_pin sa)) (sa_revision sa)"
  by (auto simp: action_pinned_def same_commit_def pinned_def)

lemma action_pinned_extends: "action_pinned (rf_memo st) sa \<Longrightarrow> extends st st' \<Longrightarrow> action_pinned (rf_memo st') sa"
  unfolding action_pinned_def using pinned_extends by blast

lemma resolve_task_pin_ok:
  assumes "resolve_task_pin env ctx step_name fs sa task_ref st = Inr (tp, st')"
    and "resolve_keeps_ref (ce_refs env)" and "memo_ok (rf_memo st)" and "action_pinned (rf_memo st) sa"
    and "\<And>p. sx_job_pin ctx = Some p \<Longrightarrow> pinned (rf_memo st) (sx_workspace_name ctx) p"
  shows "extends st st'"
    and "same_commit (rf_memo st') (map_option ts_workspace tp) (map_option ts_git_ref tp) (map_option ts_commit tp)"
proof -
  define base_ws where "base_ws = (case sa_workspace sa of Some ws \<Rightarrow> ws | None \<Rightarrow> sx_workspace_name ctx)"
  define base_cfg where "base_cfg = (case sa_owner_cfg sa of Some c \<Rightarrow> c | None \<Rightarrow> sx_workspace_config ctx)"
  define base_pin where "base_pin = (case (sa_pin sa, sa_workspace sa) of
    (Some p, _) \<Rightarrow> Some p | (None, None) \<Rightarrow> sx_job_pin ctx | (None, Some _) \<Rightarrow> None)"
  obtain resolved pin where t: "resolve_task_for_step (ce_refs env) base_ws base_cfg base_pin task_ref
        (ad_git_ref (sa_action sa)) st = Inr ((resolved, pin), st')"
      and tp: "tp = map_option (\<lambda>p. \<lparr>ts_workspace = rk_workspace resolved, ts_git_ref = pr_git_ref p,
        ts_commit = pr_commit p\<rparr>) pin"
    using assms(1) unfolding resolve_task_pin_def Let_def
      base_ws_def [symmetric] base_cfg_def [symmetric] base_pin_def [symmetric]
    by (auto split: sum.splits if_splits)
  have "pinned (rf_memo st) base_ws p" if "base_pin = Some p" for p
    using that assms(4,5) unfolding base_pin_def base_ws_def action_pinned_def
    by (auto split: option.splits)
  note ok = resolve_task_for_step_ok [OF t assms(2,3) this]
  show "extends st st'" by (rule ok(1))
  show "same_commit (rf_memo st') (map_option ts_workspace tp) (map_option ts_git_ref tp) (map_option ts_commit tp)"
    using ok(2) by (auto simp: tp same_commit_def pinned_def)
qed

lemma resolve_step_row_built:
  assumes r: "resolve_step_row env ctx name fs status ov st = Inr (row, st')"
    and k: "resolve_keeps_ref (ce_refs env)" and m: "memo_ok (rf_memo st)"
    and j: "\<And>p. sx_job_pin ctx = Some p \<Longrightarrow> pinned (rf_memo st) (sx_workspace_name ctx) p"
  shows "extends st st'" and "status = initial_status fs \<Longrightarrow> row_of_step env ctx (name, fs) row"
    and "row_pinned (rf_memo st') row"
proof -
  let ?ref = "case ov of Some r \<Rightarrow> Some r | None \<Rightarrow> fs_git_ref fs"
  obtain sa st1 where a: "resolve_step_action (ce_refs env) (sx_workspace_name ctx) (sx_workspace_config ctx)
      (sx_job_pin ctx) name fs ?ref st = Inr (sa, st1)"
    using r unfolding resolve_step_row_def by (auto split: sum.splits)
  note ok = resolve_step_action_ok [OF a k m j]
  have m1: "memo_ok (rf_memo st1)" using ok(1) m by (simp add: extends_def)
  have j1: "pinned (rf_memo st1) (sx_workspace_name ctx) p" if "sx_job_pin ctx = Some p" for p
    using pinned_extends [OF j [OF that] ok(1)] .
  obtain tp st2 where row: "row = build_step env (sx_job_id ctx) name (sa_name sa) fs (sa_action sa)
        (Some (json_obj (fs_input fs))) status (sx_defaults ctx) (sa_workspace sa) (sa_revision sa)
        (map_option pr_git_ref (sa_pin sa)) tp" "st' = st2"
      and tp: "tp = None \<and> st2 = st1 \<or> (\<exists>t. resolve_task_pin env ctx name fs sa t st1 = Inr (tp, st2))"
    using r a unfolding resolve_step_row_def
    by (auto simp: Let_def map_sum_InrE split: sum.splits option.splits if_splits)
  have e: "extends st1 st2 \<and>
    same_commit (rf_memo st2) (map_option ts_workspace tp) (map_option ts_git_ref tp) (map_option ts_commit tp)"
    using tp resolve_task_pin_ok [OF _ k m1 ok(2) j1] by (elim disjE exE conjE) (simp_all add: same_commit_none)
  then show "extends st st'" using ok(1) row(2) memo_extends_trans by blast
  show "row_of_step env ctx (name, fs) row" if "status = initial_status fs"
    unfolding row(1) that by (rule build_step_row)
  show "row_pinned (rf_memo st') row"
    unfolding row(1) build_step_pinned row(2)
    using e action_pinned_same_commit [OF action_pinned_extends [OF ok(2)]] by blast
qed

lemmas resolve_step_row_ok = resolve_step_row_built [where status = "initial_status fs" for fs, OF _ _ _ _, simplified]

lemma deferred_row_ok:
  assumes "deferred_row env ctx name fs template (initial_status fs) = Inr row"
  shows "row_of_step env ctx (name, fs) row" and "row_pinned m row"
  using assms
  by (auto simp: deferred_row_def row_of_step_def row_pinned_def same_commit_def Let_def
      split: sum.splits ref_plan.splits)

text \<open>What holds of the rows built so far.\<close>

definition rows_inv ::
    "creation_env \<Rightarrow> step_row_ctx \<Rightarrow> flow \<Rightarrow> new_job_step list \<times> ref_state \<Rightarrow> bool" where
  "rows_inv env ctx entries acc \<longleftrightarrow>
     list_all2 (row_of_step env ctx) entries (fst acc) \<and> list_all (row_pinned (rf_memo (snd acc))) (fst acc) \<and>
     memo_ok (rf_memo (snd acc)) \<and>
     (\<forall>p. sx_job_pin ctx = Some p \<longrightarrow> pinned (rf_memo (snd acc)) (sx_workspace_name ctx) p)"

lemma rows_inv_snoc:
  assumes "rows_inv env ctx entries (rows, st)" and "extends st st'"
    and "row_of_step env ctx e row" and "row_pinned (rf_memo st') row"
  shows "rows_inv env ctx (entries @ [e]) (rows @ [row], st')"
  using assms row_pinned_extends [OF _ assms(2)] pinned_extends [OF _ assms(2)]
  by (auto simp: rows_inv_def list_all_iff extends_def intro: list_all2_appendI)

lemma flow_step_row_inv:
  assumes "rows_inv env ctx entries acc" and "flow_step_row env ctx acc e = Inr acc'"
    and k: "resolve_keeps_ref (ce_refs env)"
  shows "rows_inv env ctx (entries @ [e]) acc'"
proof -
  obtain name fs where e: "e = (name, fs)" by (cases e)
  obtain rows st where acc: "acc = (rows, st)" by (cases acc)
  note inv = assms(1) [unfolded acc]
  have m: "memo_ok (rf_memo st)" and j: "\<And>p. sx_job_pin ctx = Some p \<Longrightarrow> pinned (rf_memo st) (sx_workspace_name ctx) p"
    using inv by (auto simp: rows_inv_def)
  have "\<exists>row st'. acc' = (rows @ [row], st') \<and>
      (resolve_step_row env ctx name fs (initial_status fs) None st = Inr (row, st') \<or>
       st' = st \<and> (\<exists>r. deferred_row env ctx name fs r (initial_status fs) = Inr row))"
    using assms(2) unfolding acc e flow_step_row_def
    by (auto simp: Let_def map_sum_InrE split: option.splits if_splits)
  then obtain row st' where acc': "acc' = (rows @ [row], st')"
    and row: "resolve_step_row env ctx name fs (initial_status fs) None st = Inr (row, st') \<or>
       st' = st \<and> (\<exists>r. deferred_row env ctx name fs r (initial_status fs) = Inr row)" by blast
  have "extends st st' \<and> row_of_step env ctx (name, fs) row \<and> row_pinned (rf_memo st') row"
    using row resolve_step_row_ok [OF _ k m j] deferred_row_ok by (metis memo_extends_refl)
  then show ?thesis unfolding acc' e using rows_inv_snoc [OF inv] by blast
qed

lemma fold_rows_inv:
  assumes "rows_inv env ctx entries acc" and "fold_result (flow_step_row env ctx) fl acc = Inr acc'"
    and k: "resolve_keeps_ref (ce_refs env)"
  shows "rows_inv env ctx (entries @ fl) acc'"
  using assms(1,2)
proof (induction fl arbitrary: entries acc)
  case (Cons e fl)
  then obtain b where b: "flow_step_row env ctx acc e = Inr b" "fold_result (flow_step_row env ctx) fl b = Inr acc'"
    by (auto split: sum.splits)
  show ?case using Cons.IH [OF flow_step_row_inv [OF Cons.prems(1) b(1) k] b(2)] by simp
qed simp

lemma memo_seeded_ok:
  "memo_ok (memo_seeded ws pin) \<and> (\<forall>p. pin = Some p \<longrightarrow> pinned (memo_seeded ws pin) ws p)"
  by (auto simp: memo_seeded_def memo_ok_def pinned_def memo_insert_def split: option.splits)

lemma flow_rows_inv:
  assumes "flow_rows env ctx fl \<lparr>rf_memo = memo_seeded (sx_workspace_name ctx) (sx_job_pin ctx), rf_calls = n\<rparr> =
      Inr (rows, st')"
    and "resolve_keeps_ref (ce_refs env)"
  shows "rows_inv env ctx fl (rows, st')"
  using fold_rows_inv [of env ctx "[]", OF _ assms(1) [unfolded flow_rows_def] assms(2)] memo_seeded_ok
  by (auto simp: rows_inv_def)

text \<open>The shape of the rows does not depend on how the references resolve.\<close>

lemma resolve_step_row_shape:
  assumes "resolve_step_row env ctx name fs (initial_status fs) ov st = Inr (row, st')"
  shows "row_of_step env ctx (name, fs) row"
proof -
  let ?ref = "case ov of Some r \<Rightarrow> Some r | None \<Rightarrow> fs_git_ref fs"
  obtain sa st1 where a: "resolve_step_action (ce_refs env) (sx_workspace_name ctx) (sx_workspace_config ctx)
      (sx_job_pin ctx) name fs ?ref st = Inr (sa, st1)"
    using assms unfolding resolve_step_row_def by (auto split: sum.splits)
  obtain tp where "row = build_step env (sx_job_id ctx) name (sa_name sa) fs (sa_action sa)
      (Some (json_obj (fs_input fs))) (initial_status fs) (sx_defaults ctx) (sa_workspace sa) (sa_revision sa)
      (map_option pr_git_ref (sa_pin sa)) tp"
    using assms a unfolding resolve_step_row_def by (auto simp: Let_def split: sum.splits)
  then show ?thesis by (simp only: build_step_row)
qed

lemma flow_step_row_shape:
  assumes "flow_step_row env ctx acc e = Inr acc'"
  obtains row where "fst acc' = fst acc @ [row]" "row_of_step env ctx e row"
proof -
  obtain name fs rows st where e: "e = (name, fs)" "acc = (rows, st)" by (cases e; cases acc)
  obtain row st' where acc': "acc' = (rows @ [row], st')"
    and row: "resolve_step_row env ctx name fs (initial_status fs) None st = Inr (row, st') \<or>
       (\<exists>r. deferred_row env ctx name fs r (initial_status fs) = Inr row)"
    using assms unfolding e flow_step_row_def
    by (auto simp: Let_def map_sum_InrE split: option.splits if_splits)
  from row have "row_of_step env ctx (name, fs) row"
    using resolve_step_row_shape deferred_row_ok(1) by blast
  then show ?thesis using that acc' e by simp
qed

lemma flow_rows_shape:
  assumes "flow_rows env ctx fl st = Inr (rows, st')"
  shows "list_all2 (row_of_step env ctx) fl rows"
proof -
  have "list_all2 (row_of_step env ctx) done_entries (fst acc) \<Longrightarrow>
      fold_result (flow_step_row env ctx) fl acc = Inr acc' \<Longrightarrow>
      list_all2 (row_of_step env ctx) (done_entries @ fl) (fst acc')" for done_entries acc acc'
  proof (induction fl arbitrary: done_entries acc)
    case (Cons e fl)
    then obtain b where b: "flow_step_row env ctx acc e = Inr b" "fold_result (flow_step_row env ctx) fl b = Inr acc'"
      by (auto split: sum.splits)
    obtain row where "fst b = fst acc @ [row]" "row_of_step env ctx e row" using b(1) by (rule flow_step_row_shape)
    then have "list_all2 (row_of_step env ctx) (done_entries @ [e]) (fst b)"
      using Cons.prems(1) by (simp add: list_all2_appendI)
    from Cons.IH [OF this b(2)] show ?case by simp
  qed simp
  from this [of "[]" "([], st)" "(rows, st')"] show ?thesis using assms by (simp add: flow_rows_def)
qed

end
