(* ===== verification/Input_Files.thy ===== *)
theory Input_Files
  imports File_Field Json_Field Db_Rows
begin

text \<open>
  Uploaded input files: the tables \<^verbatim>\<open>input_file\<close>, \<^verbatim>\<open>job_input_file\<close> and \<^verbatim>\<open>input_file_upload_token\<close> with their
  statements (\<^verbatim>\<open>stroem-db/src/repos/input_file.rs\<close>), the checks a job creation makes on file values
  (\<^verbatim>\<open>stroem-server/src/input_files/accept.rs\<close>, \<^verbatim>\<open>attachments.rs\<close>, \<^verbatim>\<open>upload.rs\<close>) and the retention sweep
  (\<^verbatim>\<open>sweep_input_files\<close> in \<^verbatim>\<open>recovery.rs\<close>), which deletes a blob in three separate steps.

  The blob storage is the list of the keys it holds. The relation \<open>file_step\<close> interleaves uploads, job
  creations, job deletions and any number of sweeps; \<open>sweeper\<close>s hold the row they have marked. File ids
  are random (\<^verbatim>\<open>Uuid::new_v4\<close>), so a new one was never used before.
\<close>

section \<open>Tables\<close>

record new_input_file =
  nf_file_id :: string
  nf_workspace :: string
  nf_task_name :: string
  nf_uploaded_by_user_id :: "uuid option"
  nf_origin :: string
  nf_original_name :: string
  nf_safe_name :: string
  nf_content_type :: string
  nf_size_bytes :: int
  nf_sha256 :: string
  nf_storage_key :: string

record input_file_row = new_input_file +
  nf_created_at :: time
  nf_deleting_at :: "time option"

record file_link =
  fl_job_id :: uuid
  fl_field :: string
  fl_file_id :: string

record upload_token =
  ut_token_sha256 :: string
  ut_user_id :: uuid
  ut_workspace :: string
  ut_task_name :: string
  ut_original_name :: string
  ut_expires_at :: time
  ut_used_at :: "time option"

record file_tables =
  ft_files :: "input_file_row list"
  ft_links :: "file_link list"
  ft_tokens :: "upload_token list"
  ft_users :: "uuid list"

section \<open>The repository of files\<close>

definition input_file_insert :: "time \<Rightarrow> new_input_file \<Rightarrow> file_tables \<Rightarrow> string + file_tables" where
  "input_file_insert now f t =
     (if is_file_id (nf_file_id f) \<and> nf_origin f \<in> {''api'', ''mcp_inline'', ''mcp_url''} \<and> 0 \<le> nf_size_bytes f \<and>
         nf_file_id f \<notin> set (map nf_file_id (ft_files t)) \<and>
         (case nf_uploaded_by_user_id f of None \<Rightarrow> True | Some u \<Rightarrow> u \<in> set (ft_users t))
      then Inr (t\<lparr>ft_files := ft_files t @
             [new_input_file.extend f (input_file_row.fields now None)]\<rparr>)
      else Inl ''insert input_file'')"

definition input_file_get :: "string \<Rightarrow> file_tables \<Rightarrow> input_file_row option" where
  "input_file_get file_id t = select_one (\<lambda>f. nf_file_id f = file_id) (ft_files t)"

definition is_attached :: "string \<Rightarrow> file_tables \<Rightarrow> bool" where
  "is_attached file_id t = list_ex (\<lambda>l. fl_file_id l = file_id) (ft_links t)"

definition sweep_candidates :: "(string \<Rightarrow> nat list) \<Rightarrow> time \<Rightarrow> int \<Rightarrow> nat \<Rightarrow> file_tables \<Rightarrow> string list" where
  "sweep_candidates collate now ttl_secs limit t =
     take limit (map nf_file_id (sort_key nf_created_at (sort_key (\<lambda>f. collate (nf_file_id f))
       (filter (\<lambda>f. nf_deleting_at f \<noteq> None \<or>
          \<not> is_attached (nf_file_id f) t \<and> nf_created_at f < now - seconds ttl_secs) (ft_files t)))))"

definition mark_deleting :: "time \<Rightarrow> string \<Rightarrow> file_tables \<Rightarrow> file_tables \<times> input_file_row option" where
  "mark_deleting now file_id t =
     (if input_file_get file_id t = None \<or> is_attached file_id t then (t, None)
      else let t' = t\<lparr>ft_files := map (\<lambda>f. if nf_file_id f = file_id
                        then f\<lparr>nf_deleting_at := Some (case nf_deleting_at f of Some m \<Rightarrow> m | None \<Rightarrow> now)\<rparr> else f)
                        (ft_files t)\<rparr>
           in (t', input_file_get file_id t'))"

definition input_file_delete :: "string \<Rightarrow> file_tables \<Rightarrow> file_tables \<times> bool" where
  "input_file_delete file_id t =
     (let gone = (\<lambda>f. nf_file_id f = file_id \<and> nf_deleting_at f \<noteq> None \<and> \<not> is_attached file_id t)
      in (t\<lparr>ft_files := filter (\<lambda>f. \<not> gone f) (ft_files t)\<rparr>, list_ex gone (ft_files t)))"

section \<open>Attachments\<close>

datatype attach_rule = Own string string "uuid option" int | Lineage uuid

definition rule_matches :: "time \<Rightarrow> string \<Rightarrow> file_tables \<Rightarrow> attach_rule \<Rightarrow> bool" where
  "rule_matches now file_id t rule =
     (case rule of
        Own workspace task_name user_id ttl_secs \<Rightarrow>
          list_ex (\<lambda>f. nf_file_id f = file_id \<and> nf_workspace f = workspace \<and> nf_task_name f = task_name \<and>
            nf_uploaded_by_user_id f = user_id \<and> nf_created_at f > now - seconds ttl_secs) (ft_files t)
      | Lineage source \<Rightarrow> list_ex (\<lambda>l. fl_job_id l = source \<and> fl_file_id l = file_id) (ft_links t))"

text \<open>\<open>job_exists\<close> is the foreign key to the table \<^verbatim>\<open>job\<close>.\<close>

definition attach_tx ::
    "time \<Rightarrow> (uuid \<Rightarrow> bool) \<Rightarrow> uuid \<Rightarrow> string \<Rightarrow> string \<Rightarrow> attach_rule list \<Rightarrow> file_tables \<Rightarrow> string + file_tables \<times> bool" where
  "attach_tx now job_exists job_id field file_id rules t =
     (case map_option nf_deleting_at (input_file_get file_id t) of
        Some None \<Rightarrow>
          if find (rule_matches now file_id t) rules = None then Inr (t, False)
          else if job_exists job_id \<and> \<not> list_ex (\<lambda>l. fl_job_id l = job_id \<and> fl_field l = field) (ft_links t)
          then Inr (t\<lparr>ft_links := ft_links t @ [\<lparr>fl_job_id = job_id, fl_field = field, fl_file_id = file_id\<rparr>]\<rparr>, True)
          else Inl ''insert job_input_file''
      | _ \<Rightarrow> Inr (t, False))"

text \<open>A job's attachments joined with their files, ordered by field.\<close>

definition joined :: "file_tables \<Rightarrow> file_link list \<Rightarrow> (file_link \<times> input_file_row) list" where
  "joined t links = concat (map (\<lambda>l. map (Pair l) (filter (\<lambda>f. nf_file_id f = fl_file_id l) (ft_files t))) links)"

definition list_for_job :: "(string \<Rightarrow> nat list) \<Rightarrow> uuid \<Rightarrow> file_tables \<Rightarrow> (file_link \<times> input_file_row) list" where
  "list_for_job collate job_id t =
     sort_key (\<lambda>p. collate (fl_field (fst p))) (joined t (filter (\<lambda>l. fl_job_id l = job_id) (ft_links t)))"

definition get_for_field :: "uuid \<Rightarrow> string \<Rightarrow> file_tables \<Rightarrow> (file_link \<times> input_file_row) option" where
  "get_for_field job_id field t =
     (case joined t (filter (\<lambda>l. fl_job_id l = job_id \<and> fl_field l = field) (ft_links t)) of
        [] \<Rightarrow> None | p # _ \<Rightarrow> Some p)"

definition get_attached ::
    "(string \<Rightarrow> nat list) \<Rightarrow> uuid \<Rightarrow> string \<Rightarrow> file_tables \<Rightarrow> (file_link \<times> input_file_row) option" where
  "get_attached collate job_id file_id t =
     (case sort_key (\<lambda>p. collate (fl_field (fst p)))
             (joined t (filter (\<lambda>l. fl_job_id l = job_id \<and> fl_file_id l = file_id) (ft_links t))) of
        [] \<Rightarrow> None | p # _ \<Rightarrow> Some p)"

definition job_files_of :: "(file_link \<times> input_file_row) list \<Rightarrow> string \<Rightarrow> job_files" where
  "job_files_of rows root =
     job_files_new root (map (\<lambda>(l, f). (fl_field l, \<lparr>fr_file_id = fl_file_id l, fr_safe_name = nf_safe_name f\<rparr>)) rows)"

definition claimed_files :: "(file_link \<times> input_file_row) list \<Rightarrow> (string \<times> string \<times> int \<times> string) list" where
  "claimed_files rows =
     map snd (sort_key fst (foldl (\<lambda>by_id (l, f).
       if contains_key by_id (fl_file_id l) then by_id
       else by_id @ [(fl_file_id l, fl_file_id l, nf_safe_name f, nf_size_bytes f, nf_sha256 f)]) [] rows))"

section \<open>Upload tokens\<close>

definition token_insert :: "upload_token \<Rightarrow> file_tables \<Rightarrow> string + file_tables" where
  "token_insert tok t =
     (if ut_token_sha256 tok \<notin> set (map ut_token_sha256 (ft_tokens t)) \<and> ut_user_id tok \<in> set (ft_users t)
      then Inr (t\<lparr>ft_tokens := ft_tokens t @ [tok\<lparr>ut_used_at := None\<rparr>]\<rparr>)
      else Inl ''insert upload token'')"

definition token_valid :: "time \<Rightarrow> string \<Rightarrow> upload_token \<Rightarrow> bool" where
  "token_valid now token_sha256 tok \<longleftrightarrow>
     ut_token_sha256 tok = token_sha256 \<and> ut_used_at tok = None \<and> ut_expires_at tok > now"

definition token_consume :: "time \<Rightarrow> string \<Rightarrow> file_tables \<Rightarrow> file_tables \<times> upload_token option" where
  "token_consume now token_sha256 t =
     (t\<lparr>ft_tokens := map (\<lambda>tok. if token_valid now token_sha256 tok then tok\<lparr>ut_used_at := Some now\<rparr> else tok)
        (ft_tokens t)\<rparr>,
      find (token_valid now token_sha256) (ft_tokens t))"

definition token_delete_expired :: "time \<Rightarrow> file_tables \<Rightarrow> file_tables" where
  "token_delete_expired now t = t\<lparr>ft_tokens := filter (\<lambda>tok. \<not> ut_expires_at tok \<le> now) (ft_tokens t)\<rparr>"

section \<open>Checks at job creation\<close>

datatype file_grant = Indirect | Direct "uuid option" int | TaskChild

definition is_no_file :: "json option \<Rightarrow> bool" where
  "is_no_file value = (case value of None \<Rightarrow> True | Some Null \<Rightarrow> True | Some (String s) \<Rightarrow> s = [] | Some _ \<Rightarrow> False)"

definition sorted_file_fields :: "input_schema \<Rightarrow> (string \<times> input_field_def) list" where
  "sorted_file_fields schema = sort_key fst (filter (\<lambda>e. if_field_type (snd e) = FILE_TYPE) schema)"

definition json_get :: "json \<Rightarrow> string \<Rightarrow> json option" where
  "json_get v k = (case v of Object m \<Rightarrow> map_of m k | _ \<Rightarrow> None)"

definition task_file_value ::
    "json \<Rightarrow> (string \<times> string) list \<Rightarrow> string \<times> input_field_def \<Rightarrow> app_error + (string \<times> string) list" where
  "task_file_value input values entry =
     (let (name, def) = entry; v = json_get input name in
      if is_no_file v then (if if_required def then Inl (File_input_error name FileRequired) else Inr values)
      else case v of
             Some (String s) \<Rightarrow>
               if is_file_id s then Inr (values @ [(name, s)]) else Inl (File_input_error name CannotUse)
           | _ \<Rightarrow> Inl (File_input_error name CannotUse))"

definition task_file_values :: "input_schema \<Rightarrow> json \<Rightarrow> app_error + (string \<times> string) list" where
  "task_file_values schema input = fold_result (task_file_value input) (sorted_file_fields schema) []"

definition preflight :: "input_schema \<Rightarrow> json \<Rightarrow> app_error + unit" where
  "preflight schema input =
     (let fields = sorted_file_fields schema in
      case find (\<lambda>e. if_required (snd e)) fields of
        Some (name, _) \<Rightarrow> Inl (File_input_error name FileRequired)
      | None \<Rightarrow>
          (case find (\<lambda>e. \<not> is_no_file (json_get input (fst e))) fields of
             Some (name, _) \<Rightarrow> Inl (File_input_error name CannotUse)
           | None \<Rightarrow> Inr ()))"

definition attach_rules :: "string \<Rightarrow> string \<Rightarrow> file_grant \<Rightarrow> uuid option \<Rightarrow> attach_rule list" where
  "attach_rules workspace task_name grant lineage =
     (case lineage of Some source \<Rightarrow> [Lineage source] | None \<Rightarrow> []) @
     (case grant of Direct user_id ttl_secs \<Rightarrow> [Own workspace task_name user_id ttl_secs] | _ \<Rightarrow> [])"

definition attach_all_tx ::
    "time \<Rightarrow> (uuid \<Rightarrow> bool) \<Rightarrow> uuid \<Rightarrow> string \<Rightarrow> string \<Rightarrow> (string \<times> string) list \<Rightarrow> file_grant \<Rightarrow> uuid option
       \<Rightarrow> file_tables \<Rightarrow> app_error + file_tables" where
  "attach_all_tx now job_exists job_id workspace task_name values grant lineage t =
     fold_result (\<lambda>t (field, file_id).
       case attach_tx now job_exists job_id field file_id (attach_rules workspace task_name grant lineage) t of
         Inl e \<Rightarrow> Inl (Msg e)
       | Inr (t', True) \<Rightarrow> Inr t'
       | Inr (_, False) \<Rightarrow> Inl (File_input_error field CannotUse)) values t"

section \<open>Uploads, job deletion and the sweep\<close>

definition input_file_storage_key :: "string \<Rightarrow> string \<Rightarrow> string \<Rightarrow> string" where
  "input_file_storage_key key_prefix workspace file_id = key_prefix @ workspace @ ''/'' @ file_id"

record upload_target =
  up_workspace :: string
  up_task_name :: string
  up_original_name :: string
  up_content_type :: string
  up_user_id :: "uuid option"
  up_origin :: string

datatype upload_error = InvalidName | TooLarge nat | NotConfigured | UploadInternal string

record file_world =
  fw_tables :: file_tables
  fw_blobs :: "string list"

subsection \<open>Counting and storing the body\<close>

text \<open>
  The body of an upload is its chunks, the last of which may be an error. \<open>count_body\<close> is what the
  counting stream has seen when the storage stops reading it. The storage is a parameter: it takes
  the stream or fails, and after a failure the object may exist all the same.
\<close>

datatype body_error = LengthLimit | BodyFailed string

record body_tally =
  ta_size :: nat
  ta_bytes :: string
  ta_too_large :: bool
  ta_body_err :: "body_error option"

fun count_body :: "nat \<Rightarrow> (body_error + string) list \<Rightarrow> body_tally \<Rightarrow> body_tally" where
  "count_body max_bytes [] t = t"
| "count_body max_bytes (Inr chunk # rest) t =
     (let sum_bytes = saturating_add (ta_size t) (length chunk) in
      if sum_bytes > max_bytes then t\<lparr>ta_size := sum_bytes, ta_too_large := True\<rparr>
      else count_body max_bytes rest (t\<lparr>ta_size := sum_bytes, ta_bytes := ta_bytes t @ chunk\<rparr>))"
| "count_body max_bytes (Inl e # rest) t = t\<lparr>ta_body_err := Some e\<rparr>"

datatype put_result = PutOk | PutFailed string bool

datatype put_error = PutTooLarge nat | PutBody body_error | PutStorage string

definition put_counted ::
    "(string \<Rightarrow> string) \<Rightarrow> put_result \<Rightarrow> string \<Rightarrow> (body_error + string) list \<Rightarrow> nat \<Rightarrow> string list
       \<Rightarrow> string list \<times> (put_error + nat \<times> string)" where
  "put_counted sha256 res key body max_bytes blobs =
     (let t = count_body max_bytes body \<lparr>ta_size = 0, ta_bytes = [], ta_too_large = False, ta_body_err = None\<rparr>;
          blobs' = (case res of PutOk \<Rightarrow> key # blobs | PutFailed _ left \<Rightarrow> if left then key # blobs else blobs)
      in if ta_too_large t \<or> ta_body_err t \<noteq> None
         then (if res = PutOk then removeAll key blobs' else blobs',
               Inl (case ta_body_err t of
                      Some e \<Rightarrow> if ta_too_large t then PutTooLarge max_bytes else PutBody e
                    | None \<Rightarrow> PutTooLarge max_bytes))
         else case res of
                PutFailed e _ \<Rightarrow> (removeAll key blobs', Inl (PutStorage e))
              | PutOk \<Rightarrow> (blobs', Inr (ta_size t, sha256 (ta_bytes t))))"

definition put_upload_error :: "nat \<Rightarrow> put_error \<Rightarrow> upload_error" where
  "put_upload_error max_bytes e =
     (case e of
        PutTooLarge m \<Rightarrow> TooLarge m
      | PutBody LengthLimit \<Rightarrow> TooLarge max_bytes
      | PutBody (BodyFailed msg) \<Rightarrow> UploadInternal msg
      | PutStorage msg \<Rightarrow> UploadInternal msg)"

text \<open>
  An upload: the blob, then the row. \<open>read_error\<close> is the failure of reading the inserted row back, after
  which the code deletes the blob and leaves the row. The limit is far below the range of \<^verbatim>\<open>i64\<close>
  (\<^verbatim>\<open>config.rs\<close> bounds it), so the cast of the size is exact.
\<close>

definition store_upload ::
    "(string \<Rightarrow> string) \<Rightarrow> time \<Rightarrow> bool \<Rightarrow> string \<Rightarrow> nat \<Rightarrow> string \<Rightarrow> upload_target \<Rightarrow> put_result \<Rightarrow> string option
       \<Rightarrow> (body_error + string) list \<Rightarrow> nat option \<Rightarrow> file_world \<Rightarrow> file_world \<times> (upload_error + string)" where
  "store_upload sha256 now has_blob key_prefix max_bytes file_id t res read_error body content_length w =
     (case safe_name (up_original_name t) of
        None \<Rightarrow> (w, Inl InvalidName)
      | Some clean \<Rightarrow>
          if \<not> has_blob then (w, Inl NotConfigured)
          else if (case content_length of Some n \<Rightarrow> n > max_bytes | None \<Rightarrow> False) then (w, Inl (TooLarge max_bytes))
          else let key = input_file_storage_key key_prefix (up_workspace t) file_id in
               (case put_counted sha256 res key body max_bytes (fw_blobs w) of
                 (blobs, Inl e) \<Rightarrow> (w\<lparr>fw_blobs := blobs\<rparr>, Inl (put_upload_error max_bytes e))
               | (blobs, Inr (stored, digest)) \<Rightarrow>
                   (case input_file_insert now
                       \<lparr>nf_file_id = file_id, nf_workspace = up_workspace t, nf_task_name = up_task_name t,
                        nf_uploaded_by_user_id = up_user_id t, nf_origin = up_origin t,
                        nf_original_name = up_original_name t, nf_safe_name = clean, nf_content_type = up_content_type t,
                        nf_size_bytes = int stored, nf_sha256 = digest, nf_storage_key = key\<rparr> (fw_tables w) of
                      Inl e \<Rightarrow> (w\<lparr>fw_blobs := removeAll key blobs\<rparr>, Inl (UploadInternal e))
                    | Inr t' \<Rightarrow>
                        (case read_error of
                           Some e \<Rightarrow> (w\<lparr>fw_tables := t', fw_blobs := removeAll key blobs\<rparr>, Inl (UploadInternal e))
                         | None \<Rightarrow> (w\<lparr>fw_tables := t', fw_blobs := blobs\<rparr>, Inr file_id)))))"

definition delete_job_files :: "uuid \<Rightarrow> file_tables \<Rightarrow> file_tables" where
  "delete_job_files job_id t = t\<lparr>ft_links := filter (\<lambda>l. fl_job_id l \<noteq> job_id) (ft_links t)\<rparr>"

text \<open>The three steps the sweep makes for a candidate.\<close>

definition sweep_mark :: "time \<Rightarrow> string \<Rightarrow> file_world \<Rightarrow> file_world \<times> input_file_row option" where
  "sweep_mark now file_id w =
     (let (t, row) = mark_deleting now file_id (fw_tables w) in (w\<lparr>fw_tables := t\<rparr>, row))"

definition sweep_blob :: "input_file_row \<Rightarrow> file_world \<Rightarrow> file_world" where
  "sweep_blob row w = w\<lparr>fw_blobs := removeAll (nf_storage_key row) (fw_blobs w)\<rparr>"

definition sweep_row :: "string \<Rightarrow> file_world \<Rightarrow> file_world" where
  "sweep_row file_id w = w\<lparr>fw_tables := fst (input_file_delete file_id (fw_tables w))\<rparr>"

section \<open>Interleavings\<close>

text \<open>
  \<open>sweepers\<close> are the rows marked by a sweep that may still delete their blob, \<open>used\<close> the ids ever drawn
  and \<open>granted\<close> the rule each attachment was accepted by, newest first. Uploads that fail to read their
  row back are left out: they keep a row without a blob, whose id no one was told.
\<close>

record file_sys =
  fy_world :: file_world
  fy_sweepers :: "input_file_row list"
  fy_used :: "string list"
  fy_granted :: "(uuid \<times> string \<times> attach_rule) list"

definition matched_rule :: "time \<Rightarrow> string \<Rightarrow> file_tables \<Rightarrow> attach_rule list \<Rightarrow> attach_rule" where
  "matched_rule now file_id t rules =
     (case find (rule_matches now file_id t) rules of Some r \<Rightarrow> r | None \<Rightarrow> Lineage 0)"

inductive file_step :: "string \<Rightarrow> file_sys \<Rightarrow> file_sys \<Rightarrow> bool" for key_prefix where
  upload: "is_file_id file_id \<Longrightarrow> file_id \<notin> set (fy_used s) \<Longrightarrow>
    store_upload sha256 now has_blob key_prefix max_bytes file_id target res None body content_length (fy_world s) = (w, r) \<Longrightarrow>
    file_step key_prefix s (s\<lparr>fy_world := w, fy_used := file_id # fy_used s\<rparr>)"
| attach: "attach_tx now job_exists job_id field file_id rules (fw_tables (fy_world s)) = Inr (t, True) \<Longrightarrow>
    file_step key_prefix s (s\<lparr>fy_world := (fy_world s)\<lparr>fw_tables := t\<rparr>,
      fy_granted := (job_id, file_id, matched_rule now file_id (fw_tables (fy_world s)) rules) # fy_granted s\<rparr>)"
| delete_job: "file_step key_prefix s
    (s\<lparr>fy_world := (fy_world s)\<lparr>fw_tables := delete_job_files job_id (fw_tables (fy_world s))\<rparr>\<rparr>)"
| mark: "sweep_mark now file_id (fy_world s) = (w, row) \<Longrightarrow>
    file_step key_prefix s (s\<lparr>fy_world := w, fy_sweepers := (case row of Some r \<Rightarrow> [r] | None \<Rightarrow> []) @ fy_sweepers s\<rparr>)"
| blob: "row \<in> set (fy_sweepers s) \<Longrightarrow>
    file_step key_prefix s (s\<lparr>fy_world := sweep_blob row (fy_world s)\<rparr>)"
| row: "row \<in> set (fy_sweepers s) \<Longrightarrow>
    file_step key_prefix s (s\<lparr>fy_world := sweep_row (nf_file_id row) (fy_world s)\<rparr>)"

section \<open>Attached files stay\<close>

lemma storage_key_inj:
  assumes "is_file_id a" "is_file_id b" "input_file_storage_key p v a = input_file_storage_key p w b"
  shows "a = b"
proof -
  have t: "takeWhile (\<lambda>c. c \<noteq> CHR ''/'') (rev (input_file_storage_key p u x)) = rev x" if "is_file_id x" for u x
  proof -
    have r: "rev (input_file_storage_key p u x) = rev x @ CHR ''/'' # rev u @ rev p"
      by (simp add: input_file_storage_key_def)
    show ?thesis unfolding r by (subst takeWhile_append2) (use file_id_no_slash [OF that] in auto)
  qed
  show ?thesis using t [OF assms(1), of v] t [OF assms(2), of w] assms(3) by simp
qed

definition file_row_ok :: "string \<Rightarrow> string list \<Rightarrow> input_file_row \<Rightarrow> bool" where
  "file_row_ok p used f \<longleftrightarrow> is_file_id (nf_file_id f) \<and> nf_file_id f \<in> set used \<and>
     nf_storage_key f = input_file_storage_key p (nf_workspace f) (nf_file_id f)"

definition kept ::
    "string \<Rightarrow> string list \<Rightarrow> input_file_row list \<Rightarrow> file_link list \<Rightarrow> string list \<Rightarrow> input_file_row list \<Rightarrow> bool" where
  "kept p used fs links blobs sweepers \<longleftrightarrow>
     distinct (map nf_file_id fs) \<and>
     (\<forall>l \<in> set links. \<exists>f \<in> set fs. nf_file_id f = fl_file_id l \<and> nf_deleting_at f = None) \<and>
     (\<forall>f \<in> set fs. file_row_ok p used f \<and> (nf_deleting_at f = None \<longrightarrow> nf_storage_key f \<in> set blobs)) \<and>
     (\<forall>r \<in> set sweepers. file_row_ok p used r \<and>
        (\<forall>f \<in> set fs. nf_file_id f = nf_file_id r \<longrightarrow> nf_deleting_at f \<noteq> None))"

definition kept_inv :: "string \<Rightarrow> file_sys \<Rightarrow> bool" where
  "kept_inv p s \<longleftrightarrow> kept p (fy_used s) (ft_files (fw_tables (fy_world s))) (ft_links (fw_tables (fy_world s)))
     (fw_blobs (fy_world s)) (fy_sweepers s)"

lemma extend_sel [simp]:
  "nf_file_id (new_input_file.extend f (input_file_row.fields now d)) = nf_file_id f"
  "nf_workspace (new_input_file.extend f (input_file_row.fields now d)) = nf_workspace f"
  "nf_task_name (new_input_file.extend f (input_file_row.fields now d)) = nf_task_name f"
  "nf_uploaded_by_user_id (new_input_file.extend f (input_file_row.fields now d)) = nf_uploaded_by_user_id f"
  "nf_storage_key (new_input_file.extend f (input_file_row.fields now d)) = nf_storage_key f"
  "nf_deleting_at (new_input_file.extend f (input_file_row.fields now d)) = d"
  by (simp_all add: new_input_file.extend_def input_file_row.fields_def)

text \<open>What an upload does: nothing but perhaps change its own blob, or add one row and its blob.\<close>

lemma put_counted_blobs:
  assumes "put_counted sha256 res key body m blobs = (blobs', r)"
  shows "set blobs - {key} \<subseteq> set blobs'" "r = Inr v \<Longrightarrow> blobs' = key # blobs"
  using assms by (auto simp: put_counted_def Let_def split: if_splits put_result.splits)

lemma input_file_insert_Inr:
  assumes "input_file_insert now row t = Inr t'"
  shows "is_file_id (nf_file_id row)" "nf_file_id row \<notin> set (map nf_file_id (ft_files t))"
    "t' = t\<lparr>ft_files := ft_files t @ [new_input_file.extend row (input_file_row.fields now None)]\<rparr>"
  using assms unfolding input_file_insert_def by (auto split: if_splits)

lemma store_upload_cases:
  assumes "store_upload sha256 now has_blob p max_bytes file_id target res None body content_length w = (w', r)"
  obtains (failed) v bs where "set (fw_blobs w) - {input_file_storage_key p v file_id} \<subseteq> set bs" "w' = w\<lparr>fw_blobs := bs\<rparr>"
  | (stored) f where "is_file_id (nf_file_id f)" "nf_file_id f = file_id" "nf_deleting_at f = None"
      "file_id \<notin> set (map nf_file_id (ft_files (fw_tables w)))"
      "nf_storage_key f = input_file_storage_key p (nf_workspace f) file_id"
      "w' = w\<lparr>fw_tables := (fw_tables w)\<lparr>ft_files := ft_files (fw_tables w) @ [f]\<rparr>,
        fw_blobs := nf_storage_key f # fw_blobs w\<rparr>"
proof (cases "w' = w")
  case True
  then show ?thesis by (intro that(1) [of _ "fw_blobs w"]) auto
next
  case False
  let ?key = "input_file_storage_key p (up_workspace target) file_id"
  obtain clean where clean: "safe_name (up_original_name target) = Some clean"
    using False assms by (auto simp: store_upload_def split: option.splits)
  obtain blobs q where q: "put_counted sha256 res ?key body max_bytes (fw_blobs w) = (blobs, q)" by force
  note store = assms [unfolded store_upload_def Let_def clean option.case q prod.case]
  show ?thesis
  proof (cases q)
    case (Inl e)
    with store False have "w' = w\<lparr>fw_blobs := blobs\<rparr>" by (auto split: if_splits option.splits)
    then show ?thesis using put_counted_blobs(1) [OF q] by (intro that(1))
  next
    case (Inr v)
    let ?row = "\<lparr>nf_file_id = file_id, nf_workspace = up_workspace target, nf_task_name = up_task_name target,
        nf_uploaded_by_user_id = up_user_id target, nf_origin = up_origin target,
        nf_original_name = up_original_name target, nf_safe_name = clean, nf_content_type = up_content_type target,
        nf_size_bytes = int (fst v), nf_sha256 = snd v, nf_storage_key = ?key\<rparr>"
    have blobs: "blobs = ?key # fw_blobs w" using put_counted_blobs(2) [OF q Inr] .
    show ?thesis
    proof (cases "input_file_insert now ?row (fw_tables w)")
      case (Inl e)
      with store False \<open>q = Inr v\<close> have "w' = w\<lparr>fw_blobs := removeAll ?key blobs\<rparr>"
        by (auto split: if_splits option.splits prod.splits)
      then show ?thesis by (intro that(1) [of "up_workspace target" "removeAll ?key blobs"]) (auto simp: blobs)
    next
      case (Inr t)
      with store False \<open>q = Inr v\<close> have "w' = w\<lparr>fw_tables := t, fw_blobs := blobs\<rparr>"
        by (auto split: if_splits option.splits prod.splits)
      then show ?thesis
        by (intro that(2) [of "new_input_file.extend ?row (input_file_row.fields now None)"])
          (use input_file_insert_Inr [OF Inr] blobs in simp_all)
    qed
  qed
qed

lemma keptD:
  assumes "kept p used fs links blobs sweepers"
  shows "distinct (map nf_file_id fs)"
    and "l \<in> set links \<Longrightarrow> \<exists>f \<in> set fs. nf_file_id f = fl_file_id l \<and> nf_deleting_at f = None"
    and "f \<in> set fs \<Longrightarrow> file_row_ok p used f"
    and "f \<in> set fs \<Longrightarrow> nf_deleting_at f = None \<Longrightarrow> nf_storage_key f \<in> set blobs"
    and "r \<in> set sweepers \<Longrightarrow> file_row_ok p used r"
    and "r \<in> set sweepers \<Longrightarrow> f \<in> set fs \<Longrightarrow> nf_file_id f = nf_file_id r \<Longrightarrow> nf_deleting_at f \<noteq> None"
  using assms by (simp_all add: kept_def)

lemma file_row_ok_used: "file_row_ok p used f \<Longrightarrow> file_row_ok p (x # used) f"
  by (simp add: file_row_ok_def)

lemma kept_used: "kept p used fs ls bs ws \<Longrightarrow> kept p (x # used) fs ls bs ws"
  unfolding kept_def using file_row_ok_used by blast

text \<open>Removing a blob whose key no live file has.\<close>

lemma kept_change_blob:
  assumes "kept p used fs ls bs ws" and "is_file_id i"
    and "\<And>f. f \<in> set fs \<Longrightarrow> nf_file_id f = i \<Longrightarrow> nf_deleting_at f \<noteq> None"
    and "set bs - {input_file_storage_key p v i} \<subseteq> set bs'"
  shows "kept p used fs ls bs' ws"
proof -
  have "nf_storage_key f \<in> set bs'" if "f \<in> set fs" "nf_deleting_at f = None" for f
  proof -
    have f: "file_row_ok p used f" "nf_storage_key f \<in> set bs" using assms(1) that by (auto simp: kept_def)
    have "nf_file_id f \<noteq> i" using assms(3) that by blast
    then have "nf_storage_key f \<noteq> input_file_storage_key p v i"
      using storage_key_inj [OF _ assms(2)] f(1) unfolding file_row_ok_def by metis
    with f(2) assms(4) show ?thesis by blast
  qed
  then show ?thesis using assms(1) unfolding kept_def by blast
qed

lemma kept_add:
  assumes "kept p used fs ls bs ws" and "nf_file_id f \<notin> set used"
    and "is_file_id (nf_file_id f)" "nf_storage_key f = input_file_storage_key p (nf_workspace f) (nf_file_id f)"
  shows "kept p (nf_file_id f # used) (fs @ [f]) ls (nf_storage_key f # bs) ws"
proof -
  have new: "nf_file_id f \<noteq> nf_file_id g" if "g \<in> set fs \<or> g \<in> set ws" for g
    using assms(1,2) that by (auto simp: kept_def file_row_ok_def)
  have "kept p (nf_file_id f # used) fs ls bs ws" using assms(1) by (rule kept_used)
  moreover have "file_row_ok p (nf_file_id f # used) f" using assms(3,4) by (simp add: file_row_ok_def)
  ultimately show ?thesis
    unfolding kept_def using new by (simp add: image_iff)
qed

lemma kept_mark:
  assumes k: "kept p used fs ls bs ws" and n: "\<not> list_ex (\<lambda>l. fl_file_id l = i) ls"
    and g: "\<And>f. nf_file_id (g f) = nf_file_id f \<and> nf_storage_key (g f) = nf_storage_key f \<and>
      nf_workspace (g f) = nf_workspace f \<and> nf_deleting_at (g f) \<noteq> None"
  shows "kept p used (map (\<lambda>f. if nf_file_id f = i then g f else f) fs) ls bs ws"
proof -
  define m where "m f = (if nf_file_id f = i then g f else f)" for f
  have id: "nf_file_id (m f) = nf_file_id f" for f using g by (simp add: m_def)
  have ok: "file_row_ok p used (m f) = file_row_ok p used f" for f
    using g by (simp add: file_row_ok_def m_def)
  have del: "m f = f" if "nf_deleting_at (m f) = None" for f
    using g [of f] that by (cases "nf_file_id f = i") (simp_all add: m_def)
  have "\<exists>f \<in> set (map m fs). nf_file_id f = fl_file_id l \<and> nf_deleting_at f = None" if l: "l \<in> set ls" for l
  proof -
    obtain f where f: "f \<in> set fs" "nf_file_id f = fl_file_id l" "nf_deleting_at f = None"
      using keptD(2) [OF k l] by (elim bexE conjE)
    have "fl_file_id l \<noteq> i" using n l by (auto simp: list_ex_iff)
    with f(2) have "m f = f" by (simp add: m_def)
    then have "f \<in> set (map m fs)" using f(1) by (metis image_eqI set_map)
    then show ?thesis using f(2,3) by (intro bexI [of _ f]) simp_all
  qed
  moreover have "file_row_ok p used f' \<and> (nf_deleting_at f' = None \<longrightarrow> nf_storage_key f' \<in> set bs)"
    if "f' \<in> set (map m fs)" for f'
  proof -
    obtain f where f: "f \<in> set fs" "f' = m f" using \<open>f' \<in> set (map m fs)\<close> by (simp only: set_map) (elim imageE)
    show ?thesis unfolding f(2) ok using keptD(3,4) [OF k f(1)] del [of f] by metis
  qed
  moreover have "nf_deleting_at f' \<noteq> None"
    if "r \<in> set ws" "f' \<in> set (map m fs)" "nf_file_id f' = nf_file_id r" for r f'
  proof -
    obtain f where f: "f \<in> set fs" "f' = m f" using \<open>f' \<in> set (map m fs)\<close> by (simp only: set_map) (elim imageE)
    show ?thesis unfolding f(2) using keptD(6) [OF k that(1) f(1)] del [of f] that(3) f(2) id by metis
  qed
  moreover have "distinct (map nf_file_id (map m fs))" using keptD(1) [OF k] by (simp add: id comp_def)
  ultimately have "kept p used (map m fs) ls bs ws" unfolding kept_def using keptD(5) [OF k] by blast
  then show ?thesis by (simp add: m_def [abs_def])
qed

lemma kept_sweeper:
  assumes "kept p used fs ls bs ws" and "r \<in> set fs" and "nf_deleting_at r \<noteq> None"
  shows "kept p used fs ls bs (r # ws)"
proof -
  have "nf_deleting_at f \<noteq> None" if "f \<in> set fs" "nf_file_id f = nf_file_id r" for f
    using distinct_map_eqD [of nf_file_id fs f r] assms that by (simp add: kept_def)
  then show ?thesis using assms(1,2) unfolding kept_def by auto
qed

lemma kept_link:
  assumes "kept p used fs ls bs ws" and "f \<in> set fs" "nf_file_id f = i" "nf_deleting_at f = None"
  shows "kept p used fs (ls @ [\<lparr>fl_job_id = j, fl_field = x, fl_file_id = i\<rparr>]) bs ws"
  using assms unfolding kept_def by auto

lemma kept_fewer_links: "kept p used fs ls bs ws \<Longrightarrow> set ls' \<subseteq> set ls \<Longrightarrow> kept p used fs ls' bs ws"
  unfolding kept_def by blast

lemma kept_delete:
  assumes "kept p used fs ls bs ws"
  shows "kept p used (filter (\<lambda>f. \<not> (nf_file_id f = i \<and> nf_deleting_at f \<noteq> None \<and> \<not> list_ex (\<lambda>l. fl_file_id l = i) ls)) fs)
    ls bs ws"
  using assms unfolding kept_def by (auto simp: distinct_map_filter)

lemma input_file_get_SomeD: "input_file_get i t = Some f \<Longrightarrow> f \<in> set (ft_files t) \<and> nf_file_id f = i"
  unfolding input_file_get_def select_one_def by (rule find_SomeD)

lemma kept_inv_upload:
  assumes "store_upload sha256 now has_blob p max_bytes file_id target res None body content_length (fy_world s) = (w, r)"
    and i: "is_file_id file_id" "file_id \<notin> set (fy_used s)" and "kept_inv p s"
  shows "kept_inv p (s\<lparr>fy_world := w, fy_used := file_id # fy_used s\<rparr>)"
proof -
  let ?t = "fw_tables (fy_world s)"
  have k: "kept p (fy_used s) (ft_files ?t) (ft_links ?t) (fw_blobs (fy_world s)) (fy_sweepers s)"
    using assms(4) by (simp add: kept_inv_def)
  have u: "nf_file_id f \<noteq> file_id" if "f \<in> set (ft_files ?t)" for f
    using k i(2) that by (auto simp: kept_def file_row_ok_def)
  from assms(1) show ?thesis
  proof (cases rule: store_upload_cases)
    case (failed v bs)
    then show ?thesis using kept_used [OF kept_change_blob [OF k i(1) _ failed(1)]] u by (simp add: kept_inv_def)
  next
    case (stored f)
    then show ?thesis using kept_add [OF k, of f] i by (simp add: kept_inv_def)
  qed
qed

lemma kept_inv_attach:
  assumes "attach_tx now job_exists job_id field file_id rules (fw_tables (fy_world s)) = Inr (t, True)"
    and "kept_inv p s"
  shows "kept_inv p (s\<lparr>fy_world := (fy_world s)\<lparr>fw_tables := t\<rparr>, fy_granted := g\<rparr>)"
proof -
  let ?t = "fw_tables (fy_world s)"
  obtain f where f: "input_file_get file_id ?t = Some f" "nf_deleting_at f = None"
    and t: "t = ?t\<lparr>ft_links := ft_links ?t @ [\<lparr>fl_job_id = job_id, fl_field = field, fl_file_id = file_id\<rparr>]\<rparr>"
    using assms(1) by (auto simp: attach_tx_def split: option.splits if_splits)
  show ?thesis
    using kept_link [OF assms(2) [unfolded kept_inv_def], of f file_id] input_file_get_SomeD [OF f(1)] f(2)
    by (simp add: kept_inv_def t)
qed

lemma kept_inv_mark:
  assumes "sweep_mark now file_id (fy_world s) = (w, row)" and "kept_inv p s"
  shows "kept_inv p (s\<lparr>fy_world := w, fy_sweepers := (case row of Some r \<Rightarrow> [r] | None \<Rightarrow> []) @ fy_sweepers s\<rparr>)"
proof -
  let ?t = "fw_tables (fy_world s)"
  let ?g = "\<lambda>f. f\<lparr>nf_deleting_at := Some (case nf_deleting_at f of Some m \<Rightarrow> m | None \<Rightarrow> now)\<rparr>"
  let ?t' = "?t\<lparr>ft_files := map (\<lambda>f. if nf_file_id f = file_id then ?g f else f) (ft_files ?t)\<rparr>"
  have k: "kept p (fy_used s) (ft_files ?t) (ft_links ?t) (fw_blobs (fy_world s)) (fy_sweepers s)"
    using assms(2) by (simp add: kept_inv_def)
  show ?thesis
  proof (cases "input_file_get file_id ?t = None \<or> is_attached file_id ?t")
    case True
    then have "w = fy_world s" "row = None" using assms(1) by (auto simp: sweep_mark_def mark_deleting_def)
    then show ?thesis using assms(2) by (simp add: kept_inv_def)
  next
    case False
    then have w: "w = (fy_world s)\<lparr>fw_tables := ?t'\<rparr>" and row: "row = input_file_get file_id ?t'"
      using assms(1) by (auto simp: sweep_mark_def mark_deleting_def Let_def)
    have k': "kept p (fy_used s) (ft_files ?t') (ft_links ?t) (fw_blobs (fy_world s)) (fy_sweepers s)"
      using kept_mark [OF k, of file_id ?g] False by (simp add: is_attached_def)
    show ?thesis
    proof (cases row)
      case None
      then show ?thesis using k' w by (simp add: kept_inv_def)
    next
      case (Some r)
      then have r: "r \<in> set (ft_files ?t')" "nf_file_id r = file_id"
        using input_file_get_SomeD [OF trans [OF row [symmetric] Some]] by blast+
      have "ft_files ?t' = map (\<lambda>f. if nf_file_id f = file_id then ?g f else f) (ft_files ?t)" by simp
      from r(1) [unfolded this set_map] obtain f where "r = (if nf_file_id f = file_id then ?g f else f)"
        by (rule imageE)
      with r(2) have "nf_deleting_at r \<noteq> None" by (cases "nf_file_id f = file_id") simp_all
      with kept_sweeper [OF k' r(1)] Some w show ?thesis by (simp add: kept_inv_def)
    qed
  qed
qed

lemma kept_inv_step:
  assumes "file_step p s s'" and k: "kept_inv p s"
  shows "kept_inv p s'"
  using assms(1)
proof (cases rule: file_step.cases)
  case (upload file_id sha256 now has_blob max_bytes target res body content_length w r)
  then show ?thesis using kept_inv_upload [OF upload(4,2,3) k] by simp
next
  case (attach now job_exists job_id field file_id rules t)
  show ?thesis unfolding attach(1) by (rule kept_inv_attach [OF attach(2) k])
next
  case (delete_job job_id)
  then show ?thesis using kept_fewer_links [OF k [unfolded kept_inv_def]]
    by (simp add: kept_inv_def delete_job_files_def)
next
  case (mark now file_id w row)
  show ?thesis unfolding mark(1) by (rule kept_inv_mark [OF mark(2) k])
next
  case (blob row)
  then have r: "is_file_id (nf_file_id row)" "nf_storage_key row = input_file_storage_key p (nf_workspace row) (nf_file_id row)"
    and d: "\<And>f. f \<in> set (ft_files (fw_tables (fy_world s))) \<Longrightarrow> nf_file_id f = nf_file_id row \<Longrightarrow> nf_deleting_at f \<noteq> None"
    using k by (auto simp: kept_inv_def kept_def file_row_ok_def)
  show ?thesis using kept_change_blob [OF k [unfolded kept_inv_def] r(1) d, of _ "removeAll _ _"] blob r(2)
    by (auto simp: kept_inv_def sweep_blob_def)
next
  case (row row)
  then show ?thesis using kept_delete [OF k [unfolded kept_inv_def]]
    by (simp add: kept_inv_def sweep_row_def input_file_delete_def Let_def is_attached_def)
qed

section \<open>Who may attach a file\<close>

text \<open>
  Every attachment was granted; a grant by lineage follows a grant of the same file to the source; a
  grant of one's own upload names the workspace, the task and the uploader of the file.
\<close>

fun grants_ok :: "(uuid \<times> string \<times> attach_rule) list \<Rightarrow> bool" where
  "grants_ok [] = True"
| "grants_ok ((job_id, file_id, rule) # older) =
     ((case rule of Own _ _ _ _ \<Rightarrow> True | Lineage source \<Rightarrow> \<exists>r. (source, file_id, r) \<in> set older) \<and> grants_ok older)"

definition uploaded_by :: "string \<Rightarrow> string \<Rightarrow> uuid option \<Rightarrow> input_file_row \<Rightarrow> bool" where
  "uploaded_by workspace task_name user f \<longleftrightarrow>
     nf_workspace f = workspace \<and> nf_task_name f = task_name \<and> nf_uploaded_by_user_id f = user"

definition grant_inv :: "file_sys \<Rightarrow> bool" where
  "grant_inv s \<longleftrightarrow> (let t = fw_tables (fy_world s) in
     grants_ok (fy_granted s) \<and>
     (\<forall>l \<in> set (ft_links t). \<exists>r. (fl_job_id l, fl_file_id l, r) \<in> set (fy_granted s)) \<and>
     (\<forall>f \<in> set (ft_files t). nf_file_id f \<in> set (fy_used s)) \<and>
     (\<forall>j i r. (j, i, r) \<in> set (fy_granted s) \<longrightarrow> i \<in> set (fy_used s)) \<and>
     (\<forall>j i ws tn u ttl. (j, i, Own ws tn u ttl) \<in> set (fy_granted s) \<longrightarrow>
        (\<forall>f \<in> set (ft_files t). nf_file_id f = i \<longrightarrow> uploaded_by ws tn u f)))"

lemma grant_invD:
  assumes "grant_inv s"
  shows "grants_ok (fy_granted s)"
    and "l \<in> set (ft_links (fw_tables (fy_world s))) \<Longrightarrow> \<exists>r. (fl_job_id l, fl_file_id l, r) \<in> set (fy_granted s)"
    and "f \<in> set (ft_files (fw_tables (fy_world s))) \<Longrightarrow> nf_file_id f \<in> set (fy_used s)"
    and "(j, i, r) \<in> set (fy_granted s) \<Longrightarrow> i \<in> set (fy_used s)"
    and "(j, i, Own ws tn u ttl) \<in> set (fy_granted s) \<Longrightarrow> f \<in> set (ft_files (fw_tables (fy_world s))) \<Longrightarrow>
      nf_file_id f = i \<Longrightarrow> uploaded_by ws tn u f"
  using assms unfolding grant_inv_def Let_def by (elim conjE, blast)+

lemma grant_root:
  assumes "grants_ok gs" and "(j, i, r) \<in> set gs"
  shows "\<exists>k ws tn u ttl. (k, i, Own ws tn u ttl) \<in> set gs"
  using assms
proof (induction gs arbitrary: j r)
  case (Cons g gs)
  obtain k l q where g: "g = (k, l, q)" by (cases g)
  show ?case
  proof (cases "(j, i, r) = g")
    case True
    then show ?thesis using Cons g by (cases r) fastforce+
  qed (use Cons g in fastforce)
qed simp

text \<open>A step that keeps the grants, adds no attachment and only adds files under a new id.\<close>

lemma grant_inv_frame:
  assumes g: "grant_inv s" and gr: "fy_granted s' = fy_granted s" and u: "set (fy_used s) \<subseteq> set (fy_used s')"
    and l: "set (ft_links (fw_tables (fy_world s'))) \<subseteq> set (ft_links (fw_tables (fy_world s)))"
    and n: "\<And>f. f \<in> set (ft_files (fw_tables (fy_world s'))) \<Longrightarrow> nf_file_id f \<in> set (fy_used s')"
    and f: "\<And>f. f \<in> set (ft_files (fw_tables (fy_world s'))) \<Longrightarrow> nf_file_id f \<in> set (fy_used s) \<Longrightarrow>
      \<exists>f0 \<in> set (ft_files (fw_tables (fy_world s))). nf_file_id f0 = nf_file_id f \<and>
        (\<forall>ws tn u. uploaded_by ws tn u f0 \<longrightarrow> uploaded_by ws tn u f)"
  shows "grant_inv s'"
  unfolding grant_inv_def Let_def gr
proof (intro conjI allI impI ballI)
  show "grants_ok (fy_granted s)" by (rule grant_invD(1) [OF g])
  show "\<exists>r. (fl_job_id x, fl_file_id x, r) \<in> set (fy_granted s)"
    if "x \<in> set (ft_links (fw_tables (fy_world s')))" for x
    using grant_invD(2) [OF g] l that by blast
  show "nf_file_id x \<in> set (fy_used s')" if "x \<in> set (ft_files (fw_tables (fy_world s')))" for x by (rule n [OF that])
  show "i \<in> set (fy_used s')" if "(j, i, r) \<in> set (fy_granted s)" for j i r
    using grant_invD(4) [OF g that] u by blast
next
  fix j i ws tn v ttl x
  assume h: "(j, i, Own ws tn v ttl) \<in> set (fy_granted s)" and x: "x \<in> set (ft_files (fw_tables (fy_world s')))"
    "nf_file_id x = i"
  have "nf_file_id x \<in> set (fy_used s)" using grant_invD(4) [OF g h] x(2) by simp
  from f [OF x(1) this] obtain f0 where f0: "f0 \<in> set (ft_files (fw_tables (fy_world s)))" "nf_file_id f0 = nf_file_id x"
      "\<forall>ws tn u. uploaded_by ws tn u f0 \<longrightarrow> uploaded_by ws tn u x" by (elim bexE conjE)
  from grant_invD(5) [OF g h f0(1)] f0(2) x(2) have "uploaded_by ws tn v f0" by simp
  with f0(3) show "uploaded_by ws tn v x" by simp
qed

lemma grant_inv_attach:
  assumes "attach_tx now job_exists job_id field file_id rules (fw_tables (fy_world s)) = Inr (t, True)"
    and "grant_inv s" and d: "distinct (map nf_file_id (ft_files (fw_tables (fy_world s))))"
  shows "grant_inv (s\<lparr>fy_world := (fy_world s)\<lparr>fw_tables := t\<rparr>,
    fy_granted := (job_id, file_id, matched_rule now file_id (fw_tables (fy_world s)) rules) # fy_granted s\<rparr>)"
proof -
  let ?t = "fw_tables (fy_world s)"
  obtain f rule where f: "input_file_get file_id ?t = Some f"
    and rule: "find (rule_matches now file_id ?t) rules = Some rule"
    and t: "t = ?t\<lparr>ft_links := ft_links ?t @ [\<lparr>fl_job_id = job_id, fl_field = field, fl_file_id = file_id\<rparr>]\<rparr>"
    using assms(1) by (auto simp: attach_tx_def split: option.splits if_splits)
  have m: "rule_matches now file_id ?t rule" using find_SomeD [OF rule] by blast
  have "case rule of Own _ _ _ _ \<Rightarrow> True | Lineage source \<Rightarrow> \<exists>r. (source, file_id, r) \<in> set (fy_granted s)"
    using m assms(2) by (auto simp: rule_matches_def grant_inv_def Let_def list_ex_iff split: attach_rule.splits)
  moreover have u: "file_id \<in> set (fy_used s)"
    using assms(2) input_file_get_SomeD [OF f] by (auto simp: grant_inv_def Let_def)
  moreover have "uploaded_by ws tn v f'"
    if "rule = Own ws tn v ttl" "f' \<in> set (ft_files ?t)" "nf_file_id f' = file_id" for ws tn v ttl f'
  proof -
    obtain f0 where f0: "f0 \<in> set (ft_files ?t)" "nf_file_id f0 = file_id" "uploaded_by ws tn v f0"
      using m \<open>rule = _\<close> by (auto simp: rule_matches_def list_ex_iff uploaded_by_def)
    have "f' = f0" using distinct_map_eqD [OF d \<open>f' \<in> _\<close> f0(1)] \<open>nf_file_id f' = _\<close> f0(2) by simp
    with f0(3) show ?thesis by simp
  qed
  moreover note grant_invD(2-5) [OF assms(2)]
  moreover have "grants_ok (fy_granted s)" by (rule grant_invD(1) [OF assms(2)])
  ultimately show ?thesis
    unfolding grant_inv_def Let_def t matched_rule_def rule
    by (intro conjI allI impI ballI) (auto, blast)
qed

lemma grant_inv_same_files:
  assumes "grant_inv s" and "fy_granted s' = fy_granted s" and "fy_used s' = fy_used s"
    and "set (ft_links (fw_tables (fy_world s'))) \<subseteq> set (ft_links (fw_tables (fy_world s)))"
    and f: "\<And>f. f \<in> set (ft_files (fw_tables (fy_world s'))) \<Longrightarrow>
      \<exists>f0 \<in> set (ft_files (fw_tables (fy_world s))). nf_file_id f0 = nf_file_id f \<and>
        (\<forall>ws tn u. uploaded_by ws tn u f0 \<longrightarrow> uploaded_by ws tn u f)"
  shows "grant_inv s'"
proof (rule grant_inv_frame [OF assms(1,2)])
  show "nf_file_id x \<in> set (fy_used s')" if x: "x \<in> set (ft_files (fw_tables (fy_world s')))" for x
    using f [OF x] grant_invD(3) [OF assms(1)] by (simp add: assms(3)) (elim bexE conjE, metis)
qed (use assms in simp_all)

lemma mark_deleting_origin:
  assumes "mark_deleting now file_id t = (t', row)"
  shows "ft_links t' = ft_links t"
    and "x \<in> set (ft_files t') \<Longrightarrow>
      \<exists>f0 \<in> set (ft_files t). nf_file_id f0 = nf_file_id x \<and> (\<forall>ws tn u. uploaded_by ws tn u f0 \<longrightarrow> uploaded_by ws tn u x)"
proof -
  let ?m = "\<lambda>f. if nf_file_id f = file_id
    then f\<lparr>nf_deleting_at := Some (case nf_deleting_at f of Some m \<Rightarrow> m | None \<Rightarrow> now)\<rparr> else f"
  have t': "t' = t \<or> t' = t\<lparr>ft_files := map ?m (ft_files t)\<rparr>"
    using assms by (auto simp: mark_deleting_def Let_def split: if_splits)
  then show "ft_links t' = ft_links t" by (elim disjE) simp_all
  assume "x \<in> set (ft_files t')"
  with t' have "x \<in> set (ft_files t) \<or> x \<in> ?m ` set (ft_files t)" by (elim disjE) simp_all
  then obtain f0 where f0: "f0 \<in> set (ft_files t)" "x = f0 \<or> x = ?m f0" by (elim disjE imageE) blast+
  then have "nf_file_id f0 = nf_file_id x \<and> (\<forall>ws tn u. uploaded_by ws tn u f0 \<longrightarrow> uploaded_by ws tn u x)"
    by (cases "nf_file_id f0 = file_id") (auto simp: uploaded_by_def)
  then show "\<exists>f0 \<in> set (ft_files t). nf_file_id f0 = nf_file_id x \<and>
      (\<forall>ws tn u. uploaded_by ws tn u f0 \<longrightarrow> uploaded_by ws tn u x)"
    by (rule bexI [OF _ f0(1)])
qed

lemma grant_inv_step:
  assumes "file_step p s s'" and "kept_inv p s" and g: "grant_inv s"
  shows "grant_inv s'"
  using assms(1)
proof (cases rule: file_step.cases)
  case (upload file_id sha256 now has_blob max_bytes target res body content_length w r)
  note u = grant_invD(3) [OF g]
  from upload(4) show ?thesis
  proof (cases rule: store_upload_cases)
    case (stored f)
    show ?thesis unfolding upload(1) stored(6)
      by (rule grant_inv_frame [OF g]) (use u upload(3) stored(2) in auto)
  qed (unfold upload(1), (rule grant_inv_frame [OF g]; use u in auto)+)
next
  case (attach now job_exists job_id field file_id rules t)
  show ?thesis unfolding attach(1)
    by (rule grant_inv_attach [OF attach(2) g]) (use keptD(1) assms(2) in \<open>auto simp: kept_inv_def\<close>)
next
  case (delete_job job_id)
  show ?thesis unfolding delete_job
    by (rule grant_inv_same_files [OF g]) (auto simp: delete_job_files_def)
next
  case (mark now file_id w row)
  obtain t row' where m: "mark_deleting now file_id (fw_tables (fy_world s)) = (t, row')" by force
  have w: "fw_tables w = t" using mark(2) m by (auto simp: sweep_mark_def)
  show ?thesis unfolding mark(1)
    by (rule grant_inv_same_files [OF g]) (simp_all add: w mark_deleting_origin [OF m])
next
  case (blob row)
  show ?thesis unfolding blob(1) by (rule grant_inv_same_files [OF g]) (auto simp: sweep_blob_def)
next
  case (row row)
  show ?thesis unfolding row(1)
    by (rule grant_inv_same_files [OF g]) (auto simp: sweep_row_def input_file_delete_def Let_def)
qed

section \<open>Properties\<close>

definition no_files :: "uuid list \<Rightarrow> file_sys" where
  "no_files users =
     \<lparr>fy_world = \<lparr>fw_tables = \<lparr>ft_files = [], ft_links = [], ft_tokens = [], ft_users = users\<rparr>, fw_blobs = []\<rparr>,
      fy_sweepers = [], fy_used = [], fy_granted = []\<rparr>"

lemma file_invs:
  assumes "(file_step p)\<^sup>*\<^sup>* (no_files users) s"
  shows "kept_inv p s \<and> grant_inv s"
  using assms
proof (induction rule: rtranclp_induct)
  case base
  show ?case by (simp add: no_files_def kept_inv_def kept_def grant_inv_def)
next
  case (step y z)
  then show ?case using kept_inv_step grant_inv_step by blast
qed

text \<open>
  C17. Attached files are kept. Whatever uploads, job creations, job deletions and sweeps interleave, even
  with a sweep that stops between marking a file, deleting its blob and deleting its row: a file that is
  attached to a job has its row, is not marked for deletion, and its blob is in the storage.
\<close>

theorem attached_file_kept:
  assumes "(file_step p)\<^sup>*\<^sup>* (no_files users) s" and "l \<in> set (ft_links (fw_tables (fy_world s)))"
  shows "\<exists>f. input_file_get (fl_file_id l) (fw_tables (fy_world s)) = Some f \<and> nf_deleting_at f = None \<and>
    nf_storage_key f \<in> set (fw_blobs (fy_world s))"
proof -
  have k: "kept p (fy_used s) (ft_files (fw_tables (fy_world s))) (ft_links (fw_tables (fy_world s)))
      (fw_blobs (fy_world s)) (fy_sweepers s)"
    using file_invs [OF assms(1)] by (simp add: kept_inv_def)
  obtain f where f: "f \<in> set (ft_files (fw_tables (fy_world s)))" "nf_file_id f = fl_file_id l" "nf_deleting_at f = None"
    using keptD(2) [OF k assms(2)] by (elim bexE conjE)
  have "input_file_get (fl_file_id l) (fw_tables (fy_world s)) = Some f"
    unfolding input_file_get_def select_one_def
    by (rule find_unique_key [OF keptD(1) [OF k] f(1)]) (use f(2) in simp_all)
  with f(3) keptD(4) [OF k f(1,3)] show ?thesis by simp
qed


text \<open>A run: user 7 uploads a file, job 1 takes it, and a sweep leaves it alone.\<close>

definition demo_id :: string where
  "demo_id = ''file_'' @ replicate 32 (CHR ''a'')"

definition demo_target :: upload_target where
  "demo_target = \<lparr>up_workspace = ''w'', up_task_name = ''t'', up_original_name = ''a.csv'', up_content_type = ''text/csv'',
     up_user_id = Some 7, up_origin = ''api''\<rparr>"

definition demo_file :: input_file_row where
  "demo_file = \<lparr>nf_file_id = demo_id, nf_workspace = ''w'', nf_task_name = ''t'', nf_uploaded_by_user_id = Some 7,
     nf_origin = ''api'', nf_original_name = ''a.csv'', nf_safe_name = ''a.csv'', nf_content_type = ''text/csv'',
     nf_size_bytes = 3, nf_sha256 = ''d'', nf_storage_key = ''in/w/'' @ demo_id, nf_created_at = 0, nf_deleting_at = None\<rparr>"

definition demo_tables :: "file_link list \<Rightarrow> file_tables" where
  "demo_tables links = \<lparr>ft_files = [demo_file], ft_links = links, ft_tokens = [], ft_users = [7]\<rparr>"

definition demo_link :: file_link where
  "demo_link = \<lparr>fl_job_id = 1, fl_field = ''x'', fl_file_id = demo_id\<rparr>"

definition demo_sys :: file_sys where
  "demo_sys = \<lparr>fy_world = \<lparr>fw_tables = demo_tables [demo_link], fw_blobs = [''in/w/'' @ demo_id]\<rparr>, fy_sweepers = [],
     fy_used = [demo_id], fy_granted = [(1, demo_id, Own ''w'' ''t'' (Some 7) 60)]\<rparr>"

lemma demo_id_ok: "is_file_id demo_id"
  by code_simp

lemma demo_name: "safe_name ''a.csv'' = Some ''a.csv''"
  by code_simp

lemma demo_upload:
  "store_upload (\<lambda>_. ''d'') 0 True ''in/'' 100 demo_id demo_target PutOk None [Inr ''abc''] None (fy_world (no_files [7])) =
     (\<lparr>fw_tables = demo_tables [], fw_blobs = [''in/w/'' @ demo_id]\<rparr>, Inr demo_id)"
  by (simp add: store_upload_def put_counted_def saturating_add_def u64_max_def demo_target_def demo_name no_files_def Let_def input_file_insert_def demo_id_ok
      input_file_storage_key_def demo_tables_def demo_file_def new_input_file.extend_def input_file_row.fields_def)

lemma demo_attach:
  "attach_tx 5 (\<lambda>_. True) 1 ''x'' demo_id [Own ''w'' ''t'' (Some 7) 60] (demo_tables []) =
     Inr (demo_tables [demo_link], True)"
  by (simp add: attach_tx_def input_file_get_def select_one_def demo_tables_def demo_file_def rule_matches_def
      seconds_def demo_link_def)

lemma demo_run: "(file_step ''in/'')\<^sup>*\<^sup>* (no_files [7]) demo_sys"
proof -
  let ?s = "\<lparr>fy_world = \<lparr>fw_tables = demo_tables [], fw_blobs = [''in/w/'' @ demo_id]\<rparr>, fy_sweepers = [],
     fy_used = [demo_id], fy_granted = []\<rparr>"
  have "file_step ''in/'' (no_files [7]) ?s"
    using file_step.upload [OF demo_id_ok _ demo_upload] by (simp add: no_files_def)
  moreover have "file_step ''in/'' ?s demo_sys"
    using file_step.attach [of 5 "\<lambda>_. True" 1 "''x''" demo_id "[Own ''w'' ''t'' (Some 7) 60]" ?s "demo_tables [demo_link]" "''in/''"]
      demo_attach
    by (simp add: demo_sys_def matched_rule_def rule_matches_def demo_tables_def demo_file_def seconds_def)
  ultimately show ?thesis by (meson rtranclp.rtrancl_refl rtranclp.rtrancl_into_rtrancl)
qed

theorem attached_file_kept_witness:
  "\<exists>f. input_file_get demo_id (fw_tables (fy_world demo_sys)) = Some f \<and> nf_deleting_at f = None \<and>
    nf_storage_key f \<in> set (fw_blobs (fy_world demo_sys))"
  using attached_file_kept [OF demo_run, of demo_link] by (simp add: demo_sys_def demo_tables_def demo_link_def)


text \<open>An upload token is used once.\<close>

lemma token_single_use:
  assumes "token_consume now h t = (t', Some tok)" and "now \<le> now'"
  shows "snd (token_consume now' h t') = None"
proof -
  have "\<not> token_valid now' h (x\<lparr>ut_used_at := Some now\<rparr>)" "token_valid now' h x \<Longrightarrow> token_valid now h x" for x
    using assms(2) by (auto simp: token_valid_def)
  then show ?thesis using assms(1) by (auto simp: token_consume_def find_None_iff)
qed

end
