(* ===== verification/Job_Creation.thy ===== *)
theory Job_Creation
  imports Step_Rows Input_Files Job_Store Restart
begin

text \<open>
  Creating a job (\<^verbatim>\<open>stroem-server/src/job_creator.rs\<close>): the checks and the rendering of the input, the rows
  of the steps, and the one transaction that inserts the job, its file attachments, its steps and its
  ref pins, seeds the carried steps of a restart and links a retry. What runs after the commit
  (\<^verbatim>\<open>settlement::dispatch::init\<close>) is an argument \<open>init\<close>; the compensation for its failure is modelled.

  The theory also holds the statements that insert jobs (\<^verbatim>\<open>stroem-db/src/repos/job.rs\<close>) and the table
  \<^verbatim>\<open>job_ref_pin\<close> (\<^verbatim>\<open>job_ref_pin.rs\<close>). Ids drawn at random are arguments.
\<close>

section \<open>The tables\<close>

record store =
  st_db :: db
  st_ref_pins :: "(uuid \<times> job_ref_pin_row) list"
  st_files :: file_tables

definition job_exists :: "db \<Rightarrow> uuid \<Rightarrow> bool" where
  "job_exists d job_id = list_ex (\<lambda>j. j_job_id j = job_id) (jobs d)"

text \<open>The constraints of the table \<^verbatim>\<open>job\<close>, as the migrations leave them.\<close>

definition job_check :: "string \<Rightarrow> string \<Rightarrow> string \<Rightarrow> int option \<Rightarrow> bool" where
  "job_check status mode source_type timeout \<longleftrightarrow>
     status \<in> {''pending'', ''running'', ''completed'', ''failed'', ''cancelled'', ''skipped''} \<and>
     mode \<in> {''local'', ''distributed''} \<and>
     source_type \<in> {''api'', ''trigger'', ''webhook'', ''task'', ''hook'', ''user'', ''mcp'', ''agent_tool'',
       ''event_source'', ''retry'', ''upload'', ''rerun'', ''restart''} \<and>
     (case timeout of None \<Rightarrow> True | Some t \<Rightarrow> 0 < t)"

definition insert_job :: "job_row \<Rightarrow> db \<Rightarrow> string + db" where
  "insert_job j d =
     (if job_check (j_status j) (j_mode j) (j_source_type j) (j_timeout_secs j) \<and> \<not> job_exists d (j_job_id j) \<and>
         (case j_parent_job_id j of None \<Rightarrow> True | Some p \<Rightarrow> job_exists d p) \<and>
         (case j_source_job_id j of None \<Rightarrow> True | Some p \<Rightarrow> job_exists d p)
      then Inr (d\<lparr>jobs := jobs d @ [j]\<rparr>) else Inl ''Failed to create job'')"

datatype restart_lineage = LineageStep string | LineageSteps "string list"

record job_pin_cols =
  pc_git_ref :: string
  pc_task_folder :: "string option"

definition new_job_row :: "time \<Rightarrow> uuid \<Rightarrow> string \<Rightarrow> string \<Rightarrow> string \<Rightarrow> json option \<Rightarrow> string \<Rightarrow> string option \<Rightarrow> string option
    \<Rightarrow> job_pin_cols option \<Rightarrow> job_row" where
  "new_job_row now job_id workspace task_name mode input source_type source_id revision pin =
     \<lparr>j_job_id = job_id, j_workspace = workspace, j_task_name = task_name, j_mode = mode, j_input = input, j_output = None,
      j_status = ''pending'', j_source_type = source_type, j_source_id = source_id, j_worker_id = None,
      j_revision = revision, j_created_at = now, j_started_at = None, j_completed_at = None, j_log_path = None,
      j_parent_job_id = None, j_parent_step_name = None, j_timeout_secs = None, j_retry_of_job_id = None,
      j_retry_job_id = None, j_retry_attempt = 0, j_max_retries = None, j_raw_input = None, j_source_job_id = None,
      j_restart_from_step = None, j_restart_from_steps = None, j_git_ref = map_option pc_git_ref pin,
      j_task_folder = Option.bind pin pc_task_folder\<rparr>"

definition create_with_parent_tx_id ::
    "time \<Rightarrow> uuid \<Rightarrow> string \<Rightarrow> string \<Rightarrow> string \<Rightarrow> json option \<Rightarrow> string \<Rightarrow> string option \<Rightarrow> uuid option \<Rightarrow> string option
       \<Rightarrow> int option \<Rightarrow> string option \<Rightarrow> json option \<Rightarrow> uuid option \<Rightarrow> restart_lineage option \<Rightarrow> int option
       \<Rightarrow> job_pin_cols option \<Rightarrow> db \<Rightarrow> string + db" where
  "create_with_parent_tx_id now job_id workspace task_name mode input source_type source_id parent_job_id parent_step_name
       timeout_secs revision raw_input source_job_id restart max_retries pin d =
     insert_job ((new_job_row now job_id workspace task_name mode input source_type source_id revision pin)
       \<lparr>j_parent_job_id := parent_job_id, j_parent_step_name := parent_step_name, j_timeout_secs := timeout_secs,
        j_raw_input := raw_input, j_source_job_id := source_job_id,
        j_restart_from_step := (case restart of Some (LineageStep s) \<Rightarrow> Some s | _ \<Rightarrow> None),
        j_restart_from_steps := (case restart of Some (LineageSteps ss) \<Rightarrow> Some ss | _ \<Rightarrow> None),
        j_max_retries := max_retries\<rparr>) d"

definition create_skipped ::
    "time \<Rightarrow> uuid \<Rightarrow> string \<Rightarrow> string \<Rightarrow> json option \<Rightarrow> string \<Rightarrow> string option \<Rightarrow> string option \<Rightarrow> job_pin_cols option
       \<Rightarrow> db \<Rightarrow> string + db" where
  "create_skipped now job_id workspace task_name input source_type source_id revision pin d =
     insert_job ((new_job_row now job_id workspace task_name ''distributed'' input source_type source_id revision pin)
       \<lparr>j_status := ''skipped'', j_completed_at := Some now\<rparr>) d"

subsection \<open>Ref pins\<close>

definition pin_get :: "uuid \<Rightarrow> string \<Rightarrow> string \<Rightarrow> (uuid \<times> job_ref_pin_row) list \<Rightarrow> string option" where
  "pin_get job_id workspace git_ref tbl =
     map_option (\<lambda>e. jp_commit (snd e))
       (find (\<lambda>e. fst e = job_id \<and> jp_workspace (snd e) = workspace \<and> jp_git_ref (snd e) = git_ref) tbl)"

definition pin_insert :: "uuid \<Rightarrow> job_ref_pin_row \<Rightarrow> (uuid \<times> job_ref_pin_row) list \<Rightarrow> (uuid \<times> job_ref_pin_row) list" where
  "pin_insert job_id row tbl =
     (if pin_get job_id (jp_workspace row) (jp_git_ref row) tbl = None then tbl @ [(job_id, row)] else tbl)"

definition insert_many_tx ::
    "uuid \<Rightarrow> job_ref_pin_row list \<Rightarrow> (uuid \<times> job_ref_pin_row) list \<Rightarrow> (uuid \<times> job_ref_pin_row) list" where
  "insert_many_tx job_id entries tbl = foldl (\<lambda>t row. pin_insert job_id row t) tbl entries"

definition insert_first_wins ::
    "uuid \<Rightarrow> string \<Rightarrow> string \<Rightarrow> string \<Rightarrow> (uuid \<times> job_ref_pin_row) list \<Rightarrow> (uuid \<times> job_ref_pin_row) list \<times> string option" where
  "insert_first_wins job_id workspace git_ref commit tbl =
     (let tbl' = pin_insert job_id \<lparr>jp_workspace = workspace, jp_git_ref = git_ref, jp_commit = commit\<rparr> tbl
      in (tbl', pin_get job_id workspace git_ref tbl'))"

definition pins_for_job ::
    "(string \<Rightarrow> nat list) \<Rightarrow> uuid \<Rightarrow> (uuid \<times> job_ref_pin_row) list \<Rightarrow> job_ref_pin_row list" where
  "pins_for_job collate job_id tbl =
     sort_key (\<lambda>r. collate (jp_workspace r)) (sort_key (\<lambda>r. collate (jp_git_ref r))
       (map snd (filter (\<lambda>e. fst e = job_id) tbl)))"

section \<open>The request\<close>

datatype creation_mode =
    NormalMode
  | HookMode uuid
  | RerunMode uuid "string list"
  | RestartMode job_row restart_plan
  | RetryMode uuid uuid int

record creation_request =
  cr_workspace_config :: workspace_config
  cr_workspace :: string
  cr_task_name :: string
  cr_input :: json
  cr_source_type :: string
  cr_source_id :: "string option"
  cr_parent_job_id :: "uuid option"
  cr_parent_step_name :: "string option"
  cr_revision :: "string option"
  cr_mode :: creation_mode
  cr_defaults :: job_defaults
  cr_git_ref :: "string option"
  cr_files :: file_grant

definition create_job_for_task_detailed ::
    "workspace_config \<Rightarrow> string \<Rightarrow> string \<Rightarrow> json \<Rightarrow> string \<Rightarrow> string option \<Rightarrow> string option \<Rightarrow> uuid option \<Rightarrow> job_defaults
       \<Rightarrow> file_grant \<Rightarrow> creation_request" where
  "create_job_for_task_detailed cfg workspace task_name input source_type source_id revision source_job_id defaults grant =
     \<lparr>cr_workspace_config = cfg, cr_workspace = workspace, cr_task_name = task_name, cr_input = input,
      cr_source_type = source_type, cr_source_id = source_id, cr_parent_job_id = None, cr_parent_step_name = None,
      cr_revision = revision, cr_mode = (case source_job_id of Some i \<Rightarrow> RerunMode i [] | None \<Rightarrow> NormalMode),
      cr_defaults = defaults, cr_git_ref = None, cr_files = grant\<rparr>"

definition create_job_for_rerun ::
    "workspace_config \<Rightarrow> string \<Rightarrow> string \<Rightarrow> json \<Rightarrow> string \<Rightarrow> string option \<Rightarrow> string option \<Rightarrow> uuid \<Rightarrow> string list
       \<Rightarrow> job_defaults \<Rightarrow> file_grant \<Rightarrow> creation_request" where
  "create_job_for_rerun cfg workspace task_name input source_type source_id revision source_job_id replay_fields defaults grant =
     \<lparr>cr_workspace_config = cfg, cr_workspace = workspace, cr_task_name = task_name, cr_input = input,
      cr_source_type = source_type, cr_source_id = source_id, cr_parent_job_id = None, cr_parent_step_name = None,
      cr_revision = revision, cr_mode = RerunMode source_job_id replay_fields, cr_defaults = defaults,
      cr_git_ref = None, cr_files = grant\<rparr>"

definition no_raw_input :: "(uuid \<Rightarrow> string) \<Rightarrow> uuid \<Rightarrow> app_error" where
  "no_raw_input show_uuid job_id = Msg (''Source job '' @ show_uuid job_id @ '' predates Re-run prefill (no raw_input)'')"

definition create_restart_job ::
    "(uuid \<Rightarrow> string) \<Rightarrow> workspace_config \<Rightarrow> string \<Rightarrow> job_row \<Rightarrow> restart_plan \<Rightarrow> string option \<Rightarrow> string option \<Rightarrow> job_defaults
       \<Rightarrow> string option \<Rightarrow> file_grant \<Rightarrow> app_error + creation_request" where
  "create_restart_job show_uuid cfg workspace source plan source_id revision defaults git_ref grant =
     (case j_raw_input source of
        None \<Rightarrow> Inl (no_raw_input show_uuid (j_job_id source))
      | Some raw \<Rightarrow> Inr
         \<lparr>cr_workspace_config = cfg, cr_workspace = workspace, cr_task_name = j_task_name source, cr_input = raw,
          cr_source_type = ''restart'', cr_source_id = source_id, cr_parent_job_id = None, cr_parent_step_name = None,
          cr_revision = revision, cr_mode = RestartMode source plan, cr_defaults = defaults, cr_git_ref = git_ref,
          cr_files = grant\<rparr>)"

definition create_child_job_for_task_detailed ::
    "workspace_config \<Rightarrow> string \<Rightarrow> string \<Rightarrow> json \<Rightarrow> string \<Rightarrow> string option \<Rightarrow> uuid \<Rightarrow> string \<Rightarrow> string option \<Rightarrow> job_defaults
       \<Rightarrow> string option \<Rightarrow> creation_request" where
  "create_child_job_for_task_detailed cfg workspace task_name input source_type source_id parent_job_id parent_step_name
       revision defaults git_ref =
     \<lparr>cr_workspace_config = cfg, cr_workspace = workspace, cr_task_name = task_name, cr_input = input,
      cr_source_type = source_type, cr_source_id = source_id, cr_parent_job_id = Some parent_job_id,
      cr_parent_step_name = Some parent_step_name, cr_revision = revision, cr_mode = NormalMode,
      cr_defaults = defaults, cr_git_ref = git_ref, cr_files = Indirect\<rparr>"

definition create_job_for_task_pinned ::
    "workspace_config \<Rightarrow> string \<Rightarrow> string \<Rightarrow> json \<Rightarrow> string \<Rightarrow> string option \<Rightarrow> string \<Rightarrow> string \<Rightarrow> creation_mode \<Rightarrow> job_defaults
       \<Rightarrow> file_grant \<Rightarrow> creation_request" where
  "create_job_for_task_pinned cfg workspace task_name input source_type source_id commit git_ref mode defaults grant =
     \<lparr>cr_workspace_config = cfg, cr_workspace = workspace, cr_task_name = task_name, cr_input = input,
      cr_source_type = source_type, cr_source_id = source_id, cr_parent_job_id = None, cr_parent_step_name = None,
      cr_revision = Some commit, cr_mode = mode, cr_defaults = defaults, cr_git_ref = Some git_ref, cr_files = grant\<rparr>"

section \<open>Checks and input\<close>

definition join :: "string \<Rightarrow> string list \<Rightarrow> string" where
  "join sep xs = (case xs of [] \<Rightarrow> [] | x # ys \<Rightarrow> foldl (\<lambda>acc y. acc @ sep @ y) x ys)"

definition check_step_shape :: "string \<Rightarrow> unit \<Rightarrow> string \<times> flow_step \<Rightarrow> app_error + unit" where
  "check_step_shape task_name u entry =
     (let place = ''Task '' @ quote task_name @ '' step '' @ quote (fst entry) @ '': '' in
      if fs_legacy_continue_when_skipped (snd entry) \<noteq> None
      then Inl (Msg (place @ ''continue_when_skipped was removed in 0.18.0; see the 0.18 upgrade guide to choose the right '' @
        ''`accept` set for this step's dependents'' @ [CHR 0x20, char_of (0xE2 :: nat), char_of (0x80 :: nat), char_of (0x94 :: nat)] @
        '' it depends on what else was present on this dependency.''))
      else case validate_tree (fs_depends_on (snd entry)) of
             Inl errors \<Rightarrow> Inl (Msg (place @ join ''; '' errors))
           | Inr _ \<Rightarrow> Inr ())"

definition validate_task_dependency_shape :: "string \<Rightarrow> task_def \<Rightarrow> app_error + unit" where
  "validate_task_dependency_shape task_name task = fold_result (check_step_shape task_name) (td_flow task) ()"

fun replay_error_text :: "replay_fields_error \<Rightarrow> string" where
  "replay_error_text UnknownField = ''replay_fields names a field the task does not declare''"
| "replay_error_text (AlsoInInput f) = ''field '' @ quote f @ '' is both in input and in replay_fields''"
| "replay_error_text (MissingRequired f) = ''the source job has no value for required field '' @ quote f"

definition foreign_source :: "(uuid \<Rightarrow> string) \<Rightarrow> uuid \<Rightarrow> string \<Rightarrow> string \<Rightarrow> string \<Rightarrow> app_error" where
  "foreign_source show_uuid job_id ws verb workspace =
     Msg (''Source job '' @ show_uuid job_id @ '' belongs to workspace '' @ quote ws @ '', cannot '' @ verb @ '' into '' @ quote workspace)"

text \<open>The input to use, the job to name as the source, and the restart columns.\<close>

definition resolve_lineage ::
    "(uuid \<Rightarrow> string) \<Rightarrow> creation_request \<Rightarrow> task_def \<Rightarrow> db \<Rightarrow> app_error + json \<times> uuid option \<times> restart_lineage option" where
  "resolve_lineage show_uuid req task d =
     (case cr_mode req of
        NormalMode \<Rightarrow> Inr (cr_input req, None, None)
      | RetryMode _ _ _ \<Rightarrow> Inr (cr_input req, None, None)
      | HookMode source_job_id \<Rightarrow> Inr (cr_input req, Some source_job_id, None)
      | RerunMode source_job_id replay_fields \<Rightarrow>
          (case job_get source_job_id d of
             None \<Rightarrow> Inl (Msg (''Source job '' @ show_uuid source_job_id @ '' not found''))
           | Some source \<Rightarrow>
               if j_workspace source \<noteq> cr_workspace req
               then Inl (foreign_source show_uuid source_job_id (j_workspace source) ''Re-run'' (cr_workspace req))
               else case j_raw_input source of
                      None \<Rightarrow> Inl (no_raw_input show_uuid source_job_id)
                    | Some raw \<Rightarrow>
                        (case apply_replay_fields (cr_input req) replay_fields raw (td_input task) of
                           Inl e \<Rightarrow> Inl (Msg (replay_error_text e))
                         | Inr input \<Rightarrow> Inr (resolve_rerun_sentinels input raw (td_input task), Some source_job_id, None)))
      | RestartMode source plan \<Rightarrow>
          if j_workspace source \<noteq> cr_workspace req
          then Inl (foreign_source show_uuid (j_job_id source) (j_workspace source) ''restart'' (cr_workspace req))
          else Inr (cr_input req, Some (j_job_id source),
            Some (case rp_from plan of FromStep s \<Rightarrow> LineageStep s | AllFailed \<Rightarrow> LineageSteps (rp_start_steps plan))))"

definition file_lineage :: "creation_request \<Rightarrow> app_error + uuid option" where
  "file_lineage req =
     (case cr_mode req of
        RerunMode source_job_id _ \<Rightarrow> Inr (Some source_job_id)
      | RestartMode source _ \<Rightarrow> Inr (Some (j_job_id source))
      | RetryMode failed_job_id _ _ \<Rightarrow> Inr (Some failed_job_id)
      | _ \<Rightarrow>
          if cr_files req = TaskChild
          then case cr_parent_job_id req of
                 Some p \<Rightarrow> Inr (Some p)
               | None \<Rightarrow> Inl (Msg (''child job of task '' @ quote (cr_task_name req) @ '' in workspace '' @
                   quote (cr_workspace req) @ '' has no parent job''))
          else Inr None)"

definition STORAGE_NOT_CONFIGURED :: string where
  "STORAGE_NOT_CONFIGURED = ''file storage is not configured''"

definition restart_missing :: "input_schema \<Rightarrow> json \<Rightarrow> string list" where
  "restart_missing schema merged =
     sort (map fst (filter (\<lambda>e. if_required (snd e) \<and> if_default (snd e) = None \<and>
       \<not> (case as_object merged of Some m \<Rightarrow> contains_key m (fst e) | None \<Rightarrow> False)) schema))"

definition is_restart :: "creation_mode \<Rightarrow> bool" where
  "is_restart mode = (case mode of RestartMode _ _ \<Rightarrow> True | _ \<Rightarrow> False)"

record prepared =
  pp_task :: task_def
  pp_raw_input :: json
  pp_input :: json
  pp_source_job_id :: "uuid option"
  pp_restart :: "restart_lineage option"
  pp_file_lineage :: "uuid option"
  pp_file_values :: "(string \<times> string) list"
  pp_rows :: "new_job_step list"
  pp_memo :: ref_memo

definition job_pin_of :: "creation_request \<Rightarrow> pin_ref option" where
  "job_pin_of req =
     (case (cr_git_ref req, cr_revision req) of
        (Some r, Some c) \<Rightarrow> Some \<lparr>pr_git_ref = r, pr_commit = c\<rparr> | _ \<Rightarrow> None)"

definition row_ctx :: "creation_env \<Rightarrow> creation_request \<Rightarrow> uuid \<Rightarrow> step_row_ctx" where
  "row_ctx env req job_id =
     \<lparr>sx_job_id = job_id, sx_workspace_name = cr_workspace req, sx_workspace_config = cr_workspace_config req,
      sx_task_name = cr_task_name req, sx_job_pin = job_pin_of req,
      sx_ws_set = workspace_set_lookup (workspace_set_from_parts (cr_workspace req) (Some (cr_workspace_config req))
        (ce_configs env) (rw_configured (re_world (ce_refs env)))),
      sx_defaults = cr_defaults req\<rparr>"

definition prepare_input ::
    "creation_env \<Rightarrow> creation_request \<Rightarrow> uuid \<Rightarrow> task_def \<Rightarrow> json \<Rightarrow> app_error + json" where
  "prepare_input env req job_id task input =
     (case with_context ''Failed to merge input defaults'' (owner_side_render
             (merge_defaults (ce_tera env) input (td_input task) (secrets_context (cr_workspace_config req)))) of
        Inl e \<Rightarrow> Inl e
      | Inr merged \<Rightarrow>
          (let missing = restart_missing (td_input task) merged in
           if is_restart (cr_mode req) \<and> missing \<noteq> []
           then Inl (Msg (''Restart input is missing required field(s) with no default: '' @ join '', '' missing))
           else with_context ''Failed to resolve connection inputs'' (owner_side_render
                  (resolve_connection_inputs merged (td_input task) (sx_ws_set (row_ctx env req job_id))))))"

text \<open>Everything before the transaction: nothing is written yet.\<close>

definition prepare_creation ::
    "creation_env \<Rightarrow> (uuid \<Rightarrow> string) \<Rightarrow> creation_request \<Rightarrow> uuid \<Rightarrow> db \<Rightarrow> app_error + prepared" where
  "prepare_creation env show_uuid req job_id d =
     (case (cr_git_ref req, cr_revision req) of
        (Some r, None) \<Rightarrow> Inl (Msg (''job of task '' @ quote (cr_task_name req) @ '' in workspace '' @
          quote (cr_workspace req) @ '' would carry ref '' @ quote r @ '' without its commit''))
      | _ \<Rightarrow>
     (case map_of (wc_tasks (cr_workspace_config req)) (cr_task_name req) of
        None \<Rightarrow> Inl (Msg (''Task '' @ quote (cr_task_name req) @ '' not found in workspace '' @ quote (cr_workspace req)))
      | Some task \<Rightarrow>
     (case validate_task_dependency_shape (cr_task_name req) task of Inl e \<Rightarrow> Inl e | Inr _ \<Rightarrow>
     (case resolve_lineage show_uuid req task d of Inl e \<Rightarrow> Inl e | Inr (input, source_job_id, restart) \<Rightarrow>
     (case file_lineage req of Inl e \<Rightarrow> Inl e | Inr lineage \<Rightarrow>
     (case task_file_values (td_input task) input of Inl e \<Rightarrow> Inl e | Inr file_values \<Rightarrow>
      if file_values \<noteq> [] \<and> \<not> df_input_storage (cr_defaults req) then Inl (Msg STORAGE_NOT_CONFIGURED) else
     (case prepare_input env req job_id task input of Inl e \<Rightarrow> Inl e | Inr resolved \<Rightarrow>
     (case flow_rows env (row_ctx env req job_id) (td_flow task)
             \<lparr>rf_memo = memo_seeded (cr_workspace req) (job_pin_of req), rf_calls = 0\<rparr> of
        Inl e \<Rightarrow> Inl e
      | Inr (rows, st) \<Rightarrow>
          Inr \<lparr>pp_task = task, pp_raw_input = input, pp_input = resolved, pp_source_job_id = source_job_id,
               pp_restart = restart, pp_file_lineage = lineage, pp_file_values = file_values, pp_rows = rows,
               pp_memo = rf_memo st\<rparr>))))))))"

section \<open>The transaction\<close>

definition job_timeout :: "task_def \<Rightarrow> job_defaults \<Rightarrow> int option" where
  "job_timeout task defaults =
     (case td_timeout task of Some t \<Rightarrow> Some (int t) | None \<Rightarrow> df_job_timeout_secs defaults)"

definition insert_job_tx :: "time \<Rightarrow> creation_request \<Rightarrow> uuid \<Rightarrow> prepared \<Rightarrow> db \<Rightarrow> string + db" where
  "insert_job_tx now req job_id pp d =
     create_with_parent_tx_id now job_id (cr_workspace req) (cr_task_name req) (td_mode (pp_task pp)) (Some (pp_input pp))
       (cr_source_type req) (cr_source_id req) (cr_parent_job_id req) (cr_parent_step_name req)
       (job_timeout (pp_task pp) (cr_defaults req)) (cr_revision req) (Some (pp_raw_input pp)) (pp_source_job_id pp)
       (pp_restart pp) (map_option (\<lambda>r. int (rc_max_attempts r) - 1) (td_retry (pp_task pp)))
       (map_option (\<lambda>r. \<lparr>pc_git_ref = r, pc_task_folder = td_folder (pp_task pp)\<rparr>) (cr_git_ref req)) d"

text \<open>The last statements of the transaction, by mode.\<close>

definition finish_tx :: "time \<Rightarrow> creation_mode \<Rightarrow> uuid \<Rightarrow> db \<Rightarrow> app_error + db" where
  "finish_tx now mode job_id d =
     (case mode of
        RestartMode _ plan \<Rightarrow>
          (case seed_steps_tx now job_id (rp_carried plan) d of
             Inl e \<Rightarrow> Inl (Context ''seed carried-over steps'' (Msg e)) | Inr d' \<Rightarrow> Inr d')
      | RetryMode failed_job_id root_job_id retry_attempt \<Rightarrow>
          (case link_retry_tx failed_job_id job_id root_job_id retry_attempt d of
             Inl e \<Rightarrow> Inl (Context ''link the retry job to its chain'' (Msg e)) | Inr d' \<Rightarrow> Inr d')
      | _ \<Rightarrow> Inr d)"

definition creation_tx ::
    "nat \<Rightarrow> time \<Rightarrow> time \<Rightarrow> creation_request \<Rightarrow> uuid \<Rightarrow> prepared \<Rightarrow> store \<Rightarrow> app_error + store" where
  "creation_tx max_params now utc_now req job_id pp s =
     (case insert_job_tx now req job_id pp (st_db s) of
        Inl e \<Rightarrow> Inl (Context ''Failed to create job'' (Msg e))
      | Inr d1 \<Rightarrow>
          (case (if pp_file_values pp = [] then Inr (st_files s)
                 else attach_all_tx now (job_exists d1) job_id (cr_workspace req) (cr_task_name req) (pp_file_values pp)
                        (cr_files req) (pp_file_lineage pp) (st_files s)) of
             Inl e \<Rightarrow> Inl e
           | Inr t \<Rightarrow>
               (case create_steps_tx max_params utc_now (pp_rows pp) d1 of
                  Inl e \<Rightarrow> Inl (Context ''Failed to create job steps'' (Msg e))
                | Inr d2 \<Rightarrow>
                    map_sum id (\<lambda>d3. s\<lparr>st_db := d3, st_files := t,
                        st_ref_pins := insert_many_tx job_id (memo_entries (pp_memo pp)) (st_ref_pins s)\<rparr>)
                      (finish_tx now (cr_mode req) job_id d2))))"

definition compensate :: "time \<Rightarrow> uuid \<Rightarrow> string \<Rightarrow> db \<Rightarrow> db" where
  "compensate now job_id msg d = fst (fail_non_terminal_steps_tx now job_id msg (job_mark_failed_tx now job_id d))"

text \<open>
  The whole creation: the new tables, and an error or the id of the job with the flag that it is
  already final. \<open>init\<close> advances the committed job and returns the status it settled with, if it did.
\<close>

definition create_job_for_task_inner ::
    "creation_env \<Rightarrow> (uuid \<Rightarrow> string) \<Rightarrow> nat \<Rightarrow> time \<Rightarrow> time \<Rightarrow> (task_def \<Rightarrow> store \<Rightarrow> store \<times> (string + job_status option))
       \<Rightarrow> creation_request \<Rightarrow> uuid \<Rightarrow> store \<Rightarrow> store \<times> (app_error + uuid \<times> bool)" where
  "create_job_for_task_inner env show_uuid max_params now utc_now init req job_id s =
     (case prepare_creation env show_uuid req job_id (st_db s) of
        Inl e \<Rightarrow> (s, Inl e)
      | Inr pp \<Rightarrow>
          (case creation_tx max_params now utc_now req job_id pp s of
             Inl e \<Rightarrow> (s, Inl e)
           | Inr s1 \<Rightarrow>
               (case init (pp_task pp) s1 of
                  (s2, Inr settled) \<Rightarrow> (s2, Inr (job_id, settled \<noteq> None))
                | (s2, Inl e) \<Rightarrow>
                    (s2\<lparr>st_db := compensate now job_id (''[creation] initialisation failed: '' @ e) (st_db s2)\<rparr>,
                     Inr (job_id, True)))))"

section \<open>Nesting depth\<close>

definition MAX_TASK_DEPTH :: nat where
  "MAX_TASK_DEPTH = 10"

function depth_walk :: "db \<Rightarrow> nat \<Rightarrow> uuid option \<Rightarrow> nat" where
  "depth_walk d depth parent =
     (case parent of
        None \<Rightarrow> depth
      | Some p \<Rightarrow>
          if Suc depth \<ge> MAX_TASK_DEPTH then Suc depth
          else depth_walk d (Suc depth) (Option.bind (job_get p d) j_parent_job_id))"
  by pat_completeness auto
termination
  by (relation "measure (\<lambda>(d, depth, p). MAX_TASK_DEPTH - depth)") auto

declare depth_walk.simps [simp del]

definition compute_depth :: "db \<Rightarrow> job_row \<Rightarrow> nat" where
  "compute_depth d job = depth_walk d 0 (j_parent_job_id job)"

end
