(* ===== verification/Creation_Correct.thy ===== *)
theory Creation_Correct
  imports Job_Creation Cascade_Refine
begin

text \<open>
  What a job looks like when its creation commits: one pending job, one row per flow step, the rows
  of other jobs untouched, a snapshot the cascade can work on; carried steps of a restart are finished
  from the first moment; every ref of the job has one commit; a failed initialisation leaves a failed
  job without live steps. The last section is the type invariant of the two tables.
\<close>

section \<open>The rows of a new job\<close>

text \<open>Steps reference an existing job and pins too (foreign keys).\<close>

definition referenced :: "store \<Rightarrow> bool" where
  "referenced s \<longleftrightarrow> list_all (\<lambda>r. job_exists (st_db s) (js_job_id r)) (steps (st_db s)) \<and>
     list_all (\<lambda>e. job_exists (st_db s) (fst e)) (st_ref_pins s)"

lemma prepare_creationD:
  assumes "prepare_creation env show_uuid req job_id d = Inr pp"
  obtains st where "map_of (wc_tasks (cr_workspace_config req)) (cr_task_name req) = Some (pp_task pp)"
    "flow_rows env (row_ctx env req job_id) (td_flow (pp_task pp))
       \<lparr>rf_memo = memo_seeded (cr_workspace req) (job_pin_of req), rf_calls = 0\<rparr> = Inr (pp_rows pp, st)"
    "pp_memo pp = rf_memo st"
  using assms unfolding prepare_creation_def
  by (auto split: option.splits sum.splits if_splits)

lemma row_ctx_sel [simp]:
  "sx_job_id (row_ctx env req job_id) = job_id" "sx_workspace_name (row_ctx env req job_id) = cr_workspace req"
  "sx_job_pin (row_ctx env req job_id) = job_pin_of req"
  by (simp_all add: row_ctx_def)

text \<open>What the last statements of the transaction keep of a row.\<close>

definition same_origin :: "step_record \<Rightarrow> step_record \<Rightarrow> bool" where
  "same_origin r r' \<longleftrightarrow> step_key r' = step_key r \<and> js_loop_source r' = js_loop_source r \<and>
     js_loop_index r' = js_loop_index r \<and> js_for_each_expr r' = js_for_each_expr r \<and>
     js_action_workspace r' = js_action_workspace r \<and> js_action_ref r' = js_action_ref r \<and>
     js_action_revision r' = js_action_revision r \<and> js_task_workspace r' = js_task_workspace r \<and>
     js_task_ref r' = js_task_ref r \<and> js_task_revision r' = js_task_revision r"

lemma same_origin_refl [simp]: "same_origin r r"
  by (simp add: same_origin_def)

lemma same_origin_trans: "same_origin a b \<Longrightarrow> same_origin b c \<Longrightarrow> same_origin a c"
  by (simp add: same_origin_def)

lemma seed_write_origin: "same_origin r (seed_write now s r)"
  by (simp add: same_origin_def seed_write_def)

text \<open>The row a list of seeds makes of a row of the job.\<close>

definition seeded :: "time \<Rightarrow> uuid \<Rightarrow> seed list \<Rightarrow> step_record \<Rightarrow> step_record" where
  "seeded now job_id seeds r =
     (if js_job_id r = job_id
      then foldl (\<lambda>r s. if sd_step_name s = js_step_name r then seed_write now s r else r) r seeds else r)"

lemma seed_write_key [simp]:
  "js_job_id (seed_write now s r) = js_job_id r" "js_step_name (seed_write now s r) = js_step_name r"
  by (simp_all add: seed_write_def)

lemma seeded_nil [simp]: "seeded now job_id [] = (\<lambda>r. r)"
  by (auto simp: seeded_def)

lemma seed_steps_rows:
  assumes "seed_steps_tx now job_id seeds d = Inr d'"
  shows "jobs d' = jobs d \<and> steps d' = map (seeded now job_id seeds) (steps d)"
  using assms
proof (induction seeds arbitrary: d)
  case Nil
  then show ?case by simp
next
  case (Cons s seeds)
  let ?d = "fst (update_steps (at_step job_id (sd_step_name s)) (seed_write now s) d)"
  have "seed_steps_tx now job_id seeds ?d = Inr d'"
    using Cons.prems by (auto simp: Let_def split: prod.splits if_splits)
  from Cons.IH [OF this] have d': "jobs d' = jobs d" "steps d' = map (seeded now job_id seeds) (steps ?d)"
    by (simp_all add: row_simps)
  have "seeded now job_id seeds (if at_step job_id (sd_step_name s) r then seed_write now s r else r) =
      seeded now job_id (s # seeds) r" for r
    by (auto simp: seeded_def)
  then show ?case using d' by (simp add: row_simps)
qed

lemma seeded_origin: "same_origin r (seeded now job_id seeds r)"
proof -
  have "same_origin r (foldl (\<lambda>r s. if sd_step_name s = js_step_name r then seed_write now s r else r) q seeds)"
    if "same_origin r q" for q
    using that
    by (induction seeds arbitrary: q) (auto intro: same_origin_trans [OF _ seed_write_origin])
  then show ?thesis by (simp add: seeded_def)
qed

lemma finish_tx_rows:
  assumes "finish_tx now mode job_id d = Inr d'"
  shows "steps d' = map (seeded now job_id (case mode of RestartMode _ plan \<Rightarrow> rp_carried plan | _ \<Rightarrow> [])) (steps d)"
    and "map j_job_id (jobs d') = map j_job_id (jobs d)" and "map j_status (jobs d') = map j_status (jobs d)"
proof -
  have l: "steps d' = steps d \<and> map j_job_id (jobs d') = map j_job_id (jobs d) \<and> map j_status (jobs d') = map j_status (jobs d)"
    if "link_retry_tx a b c n d = Inr d'" for a b c n
    using that by (auto simp: link_retry_tx_def row_simps comp_def split: prod.splits if_splits)
      (auto simp: update_jobs_def sql_update_def)
  show "steps d' = map (seeded now job_id (case mode of RestartMode _ plan \<Rightarrow> rp_carried plan | _ \<Rightarrow> [])) (steps d)"
    "map j_job_id (jobs d') = map j_job_id (jobs d)" "map j_status (jobs d') = map j_status (jobs d)"
    using assms l seed_steps_rows by (auto simp: finish_tx_def split: creation_mode.splits sum.splits)
qed

section \<open>The committed job\<close>

lemma insert_job_txD:
  assumes "insert_job_tx now req job_id pp d = Inr d'"
  obtains job where "d' = d\<lparr>jobs := jobs d @ [job]\<rparr>" "j_job_id job = job_id" "j_status job = ''pending''"
    "j_workspace job = cr_workspace req" "j_task_name job = cr_task_name req" "j_raw_input job = Some (pp_raw_input pp)"
    "\<not> job_exists d job_id" "job_check (j_status job) (j_mode job) (j_source_type job) (j_timeout_secs job)"
  using assms unfolding insert_job_tx_def create_with_parent_tx_id_def insert_job_def
  by (auto simp: new_job_row_def split: if_splits)

lemma creation_txD:
  assumes "creation_tx mp now utc_now req job_id pp s = Inr s'"
  obtains d1 d2 where "insert_job_tx now req job_id pp (st_db s) = Inr d1"
    "create_steps_tx mp utc_now (pp_rows pp) d1 = Inr d2" "finish_tx now (cr_mode req) job_id d2 = Inr (st_db s')"
    "st_ref_pins s' = insert_many_tx job_id (memo_entries (pp_memo pp)) (st_ref_pins s)"
  using assms unfolding creation_tx_def by (auto simp: map_sum_InrE split: sum.splits)

abbreviation carried_by :: "creation_request \<Rightarrow> seed list" where
  "carried_by req \<equiv> (case cr_mode req of RestartMode _ plan \<Rightarrow> rp_carried plan | _ \<Rightarrow> [])"

lemma create_steps_rows:
  "create_steps_tx mp utc_now rows d = Inr d' \<Longrightarrow>
     jobs d' = jobs d \<and> steps d' = steps d @ map (step_insert_row utc_now) rows"
  by (auto simp: create_steps_tx_def Let_def split: if_splits)

text \<open>The tables after the transaction.\<close>

lemma creation_tx_tables:
  assumes "creation_tx mp now utc_now req job_id pp s = Inr s'" and "referenced s"
  shows "map j_job_id (jobs (st_db s')) = map j_job_id (jobs (st_db s)) @ [job_id]"
    and "map j_status (jobs (st_db s')) = map j_status (jobs (st_db s)) @ [''pending'']"
    and "\<not> job_exists (st_db s) job_id"
    and "steps (st_db s') = steps (st_db s) @ map (seeded now job_id (carried_by req) \<circ> step_insert_row utc_now) (pp_rows pp)"
proof -
  obtain d1 d2 where d1: "insert_job_tx now req job_id pp (st_db s) = Inr d1"
      and d2: "create_steps_tx mp utc_now (pp_rows pp) d1 = Inr d2"
      and d3: "finish_tx now (cr_mode req) job_id d2 = Inr (st_db s')"
    using assms(1) by (rule creation_txD)
  obtain job where job: "d1 = (st_db s)\<lparr>jobs := jobs (st_db s) @ [job]\<rparr>" "j_job_id job = job_id" "j_status job = ''pending''"
      "\<not> job_exists (st_db s) job_id"
    using d1 by (rule insert_job_txD)
  note rows = create_steps_rows [OF d2] finish_tx_rows [OF d3]
  show "map j_job_id (jobs (st_db s')) = map j_job_id (jobs (st_db s)) @ [job_id]"
    "map j_status (jobs (st_db s')) = map j_status (jobs (st_db s)) @ [''pending'']"
    using rows job by simp_all
  show "\<not> job_exists (st_db s) job_id" by (rule job(4))
  have "seeded now job_id seeds r = r" if "r \<in> set (steps (st_db s))" for r seeds
  proof -
    have "js_job_id r \<noteq> job_id" using that assms(2) job(4) by (auto simp: referenced_def list_all_iff)
    then show ?thesis by (simp add: seeded_def)
  qed
  then have "map (seeded now job_id seeds) (steps (st_db s)) = steps (st_db s)" for seeds by (simp add: map_idI)
  then show "steps (st_db s') = steps (st_db s) @ map (seeded now job_id (carried_by req) \<circ> step_insert_row utc_now) (pp_rows pp)"
    using rows job by simp
qed

lemma find_append: "find P (xs @ ys) = (case find P xs of Some x \<Rightarrow> Some x | None \<Rightarrow> find P ys)"
  by (induction xs) simp_all

lemma job_get_new:
  assumes "map j_job_id (jobs d') = map j_job_id (jobs d) @ [job_id]"
    and "map j_status (jobs d') = map j_status (jobs d) @ [st]" and "\<not> job_exists d job_id"
  shows "\<exists>job. job_get job_id d' = Some job \<and> j_status job = st"
proof -
  have n: "length (jobs d') = Suc (length (jobs d))" using assms(1) by (metis length_append_singleton length_map)
  then obtain js job where js: "jobs d' = js @ [job]" by (metis length_Suc_conv_rev)
  then have "map j_job_id js = map j_job_id (jobs d)" "j_job_id job = job_id" "j_status job = st"
    using assms(1,2) by auto
  moreover then have "find (\<lambda>j. j_job_id j = job_id) js = None"
    using assms(3) unfolding find_None_iff job_exists_def list_ex_iff by (metis imageI image_iff set_map)
  ultimately show ?thesis by (simp add: job_get_def select_one_def js find_append)
qed

lemma step_insert_row_more [simp]:
  "js_loop_source (step_insert_row t i) = ns_loop_source i" "js_loop_index (step_insert_row t i) = ns_loop_index i"
  "js_for_each_expr (step_insert_row t i) = ns_for_each_expr i" "js_carried_over (step_insert_row t i) = False"
  "js_action_workspace (step_insert_row t i) = ns_action_workspace i" "js_action_ref (step_insert_row t i) = ns_action_ref i"
  "js_action_revision (step_insert_row t i) = ns_action_revision i" "js_task_workspace (step_insert_row t i) = ns_task_workspace i"
  "js_task_ref (step_insert_row t i) = ns_task_ref i" "js_task_revision (step_insert_row t i) = ns_task_revision i"
  by (simp_all add: step_insert_row_def)

text \<open>The rows of the new job, as they are in the table.\<close>

definition new_rows :: "time \<Rightarrow> time \<Rightarrow> creation_request \<Rightarrow> uuid \<Rightarrow> prepared \<Rightarrow> step_record list" where
  "new_rows now utc_now req job_id pp =
     map (seeded now job_id (carried_by req) \<circ> step_insert_row utc_now) (pp_rows pp)"

lemma new_row_origin:
  "same_origin (step_insert_row utc_now i) ((seeded now job_id (carried_by req) \<circ> step_insert_row utc_now) i)"
  unfolding comp_def by (rule seeded_origin)

lemma prepared_rows:
  assumes "prepare_creation env show_uuid req job_id d = Inr pp"
  shows "list_all2 (row_of_step env (row_ctx env req job_id)) (td_flow (pp_task pp)) (pp_rows pp)"
  using assms by (elim prepare_creationD) (rule flow_rows_shape)

lemma prepared_names:
  assumes "prepare_creation env show_uuid req job_id d = Inr pp"
  shows "map ns_step_name (pp_rows pp) = keys (td_flow (pp_task pp))"
    and "list_all (\<lambda>i. ns_job_id i = job_id \<and> ns_loop_source i = None) (pp_rows pp)"
  using prepared_rows [OF assms]
  by (induction rule: list_all2_induct) (auto simp: row_of_step_def)

lemma new_rows_sel:
  assumes "prepare_creation env show_uuid req job_id d = Inr pp"
  shows "map js_step_name (new_rows now utc_now req job_id pp) = keys (td_flow (pp_task pp))"
    and "r \<in> set (new_rows now utc_now req job_id pp) \<Longrightarrow> js_job_id r = job_id \<and> js_loop_source r = None"
proof -
  have "js_step_name ((seeded now job_id (carried_by req) \<circ> step_insert_row utc_now) i) = ns_step_name i" for i
    using new_row_origin [of utc_now i now job_id req] by (simp add: same_origin_def)
  then show "map js_step_name (new_rows now utc_now req job_id pp) = keys (td_flow (pp_task pp))"
    by (simp add: new_rows_def prepared_names(1) [OF assms, symmetric])
  show "js_job_id r = job_id \<and> js_loop_source r = None" if r: "r \<in> set (new_rows now utc_now req job_id pp)"
  proof -
    obtain i where i: "i \<in> set (pp_rows pp)" "r = (seeded now job_id (carried_by req) \<circ> step_insert_row utc_now) i"
      using r unfolding new_rows_def set_map by (elim imageE)
    show ?thesis
      using new_row_origin [of utc_now i now job_id req] prepared_names(2) [OF assms] i
      by (auto simp: same_origin_def list_all_iff)
  qed
qed

lemma job_rows_new:
  assumes "creation_tx mp now utc_now req job_id pp s = Inr s'" and "referenced s"
    and "prepare_creation env show_uuid req job_id (st_db s) = Inr pp"
  shows "filter (\<lambda>r. js_job_id r = job_id) (steps (st_db s')) = new_rows now utc_now req job_id pp"
    and "filter (\<lambda>r. js_job_id r \<noteq> job_id) (steps (st_db s')) = steps (st_db s)"
proof -
  note t = creation_tx_tables [OF assms(1,2)]
  have old: "js_job_id r \<noteq> job_id" if "r \<in> set (steps (st_db s))" for r
    using that assms(2) t(3) by (auto simp: referenced_def list_all_iff)
  show "filter (\<lambda>r. js_job_id r = job_id) (steps (st_db s')) = new_rows now utc_now req job_id pp"
    "filter (\<lambda>r. js_job_id r \<noteq> job_id) (steps (st_db s')) = steps (st_db s)"
    unfolding t(4) new_rows_def [symmetric] filter_append
    using old new_rows_sel(2) [OF assms(3), of _ now utc_now] by (simp_all add: filter_id_conv filter_empty_conv)
qed

lemma new_keyed:
  assumes "creation_tx mp now utc_now req job_id pp s = Inr s'" and "referenced s" and "keyed (st_db s)"
  shows "keyed (st_db s')"
proof -
  obtain d1 d2 where d1: "insert_job_tx now req job_id pp (st_db s) = Inr d1"
      and d2: "create_steps_tx mp utc_now (pp_rows pp) d1 = Inr d2"
      and d3: "finish_tx now (cr_mode req) job_id d2 = Inr (st_db s')"
    using assms(1) by (rule creation_txD)
  have "keyed d1" using d1 assms(3) by (elim insert_job_txD) (simp add: keyed_def)
  then have "keyed d2" using keyed_create d2 by blast
  moreover have "map step_key (steps (st_db s')) = map step_key (steps d2)"
    unfolding finish_tx_rows(1) [OF d3] map_map comp_def
    using seeded_origin by (intro map_cong) (simp_all add: same_origin_def)
  ultimately show ?thesis by (simp add: keyed_def)
qed

lemma names_get: "names (get_steps_for_job collate job_id d) =
    map js_step_name (sort_key (\<lambda>r. collate (js_step_name r)) (filter (\<lambda>r. js_job_id r = job_id) (steps d)))"
  by (simp add: get_steps_for_job_def rows_of_def comp_def)


section \<open>Restarts\<close>

lemma seeded_find:
  assumes "distinct (map sd_step_name seeds)" and "js_job_id r = job_id"
  shows "seeded now job_id seeds r =
    (case find (\<lambda>s. sd_step_name s = js_step_name r) seeds of Some s \<Rightarrow> seed_write now s r | None \<Rightarrow> r)"
proof -
  let ?f = "\<lambda>r s. if sd_step_name s = js_step_name r then seed_write now s r else r"
  have skip: "foldl ?f q seeds = q" if "js_step_name q \<notin> set (map sd_step_name seeds)" for q seeds
    using that by (induction seeds) auto
  have "foldl ?f r seeds = (case find (\<lambda>s. sd_step_name s = js_step_name r) seeds of Some s \<Rightarrow> seed_write now s r | None \<Rightarrow> r)"
    using assms(1) by (induction seeds) (auto simp: skip)
  then show ?thesis using assms(2) by (simp add: seeded_def)
qed

lemma new_row_status:
  assumes "list_all2 (row_of_step env ctx) fl rows" and "i \<in> set rows"
  shows "\<exists>fs. (ns_step_name i, fs) \<in> set fl \<and> ns_status i = step_status_str (initial_status fs)"
  using assms by (induction rule: list_all2_induct) (auto simp: row_of_step_def)

lemma seed_write_sel [simp]:
  "js_status (seed_write now s r) = sd_status s" "js_carried_over (seed_write now s r) = True"
  "js_output (seed_write now s r) = sd_output s"
  by (simp_all add: seed_write_def)

text \<open>
  C16. A restart never reruns a step that is carried over. In the very commit that makes the new job visible
  every step outside the restart set is finished, with the output it had in the source job, so no
  worker can claim it, whatever its abilities; the steps of the restart set have their initial status
  and are not marked as carried.
\<close>

theorem restart_carried_steps:
  assumes "prepare_creation env show_uuid req job_id (st_db s) = Inr pp"
    and "creation_tx mp now utc_now req job_id pp s = Inr s'" and "referenced s"
    and "cr_mode req = RestartMode source plan" and "plan_restart (td_flow (pp_task pp)) source_rows src = Inr plan"
    and "distinct (keys (td_flow (pp_task pp)))"
    and "r \<in> set (steps (st_db s'))" and "js_job_id r = job_id"
  shows "if js_step_name r \<in> set (rp_restart_steps plan)
    then \<not> js_carried_over r \<and>
      (\<exists>fs. (js_step_name r, fs) \<in> set (td_flow (pp_task pp)) \<and> js_status r = step_status_str (initial_status fs))
    else js_carried_over r \<and> is_terminal (js_status r) \<and> \<not> claimable t caps tags ex r \<and>
      (\<exists>q. source_row source_rows (js_step_name r) = Some q \<and>
        js_output r = (if is_terminal (js_status q) then js_output q else None))"
proof -
  note p = restart_plan_exact [OF assms(6,5)]
  have names: "map sd_step_name (rp_carried plan) = sort (filter (\<lambda>n. n \<notin> set (rp_restart_steps plan)) (keys (td_flow (pp_task pp))))"
    using p by blast
  have d: "distinct (map sd_step_name (rp_carried plan))" unfolding names using assms(6) by simp
  obtain i where i: "i \<in> set (pp_rows pp)"
      "r = (seeded now job_id (rp_carried plan) \<circ> step_insert_row utc_now) i" "js_job_id (step_insert_row utc_now i) = job_id"
  proof -
    have "r \<in> set (new_rows now utc_now req job_id pp)"
      using assms(7,8) job_rows_new(1) [OF assms(2,3,1), symmetric] by auto
    then obtain i where "i \<in> set (pp_rows pp)" "r = (seeded now job_id (rp_carried plan) \<circ> step_insert_row utc_now) i"
      unfolding new_rows_def set_map assms(4) by (elim imageE) simp
    then show ?thesis using that prepared_names(2) [OF assms(1)] by (simp add: list_all_iff)
  qed
  have r: "r = (case find (\<lambda>s. sd_step_name s = ns_step_name i) (rp_carried plan) of
      Some s \<Rightarrow> seed_write now s (step_insert_row utc_now i) | None \<Rightarrow> step_insert_row utc_now i)"
    unfolding i(2) comp_def seeded_find [OF d i(3)] by simp
  have name: "js_step_name r = ns_step_name i"
    unfolding r by (simp split: option.split)
  have key: "ns_step_name i \<in> set (keys (td_flow (pp_task pp)))"
    using i(1) prepared_names(1) [OF assms(1)] by (metis imageI list.set_map)
  show ?thesis
  proof (cases "ns_step_name i \<in> set (rp_restart_steps plan)")
    case True
    then have "ns_step_name i \<notin> set (map sd_step_name (rp_carried plan))" unfolding names by simp
    then have "find (\<lambda>s. sd_step_name s = ns_step_name i) (rp_carried plan) = None"
      unfolding find_None_iff set_map by (metis image_eqI)
    with r have "r = step_insert_row utc_now i" by simp
    with True name new_row_status [OF prepared_rows [OF assms(1)] i(1)] show ?thesis by simp
  next
    case False
    then have "ns_step_name i \<in> set (map sd_step_name (rp_carried plan))" unfolding names using key by simp
    then obtain sd where sd: "find (\<lambda>s. sd_step_name s = ns_step_name i) (rp_carried plan) = Some sd"
      by (cases "find (\<lambda>s. sd_step_name s = ns_step_name i) (rp_carried plan)") (auto simp: find_None_iff)
    then have in_sd: "sd \<in> set (rp_carried plan)" "sd_step_name sd = ns_step_name i" using find_SomeD by fast+
    with p obtain q where q: "is_terminal (sd_status sd)" "source_row source_rows (ns_step_name i) = Some q"
        "sd = carried_seed (ns_step_name i) q"
      unfolding list_all_iff by metis
    have "sd_output sd = (if is_terminal (js_status q) then js_output q else None)" unfolding q(3) by (simp add: carried_seed_def)
    moreover have "r = seed_write now sd (step_insert_row utc_now i)" using r sd by simp
    moreover have "sd_status sd \<noteq> ''ready''" using q(1) by (auto simp: is_terminal_def)
    ultimately show ?thesis using False name q by (simp add: claimable_def)
  qed
qed

section \<open>One commit per ref\<close>

lemma pin_get_snoc:
  "pin_get j ws r (tbl @ [(j', row)]) =
     (case pin_get j ws r tbl of Some c \<Rightarrow> Some c
      | None \<Rightarrow> if j' = j \<and> jp_workspace row = ws \<and> jp_git_ref row = r then Some (jp_commit row) else None)"
  by (simp add: pin_get_def find_append split: option.split)

lemma pin_get_insert:
  "pin_get j ws r (pin_insert j' row tbl) =
     (case pin_get j ws r tbl of Some c \<Rightarrow> Some c
      | None \<Rightarrow> if j' = j \<and> jp_workspace row = ws \<and> jp_git_ref row = r then Some (jp_commit row) else None)"
  by (auto simp: pin_insert_def pin_get_snoc split: option.splits)

lemma pin_get_insert_many:
  "pin_get j ws r (insert_many_tx j (memo_entries m) tbl) =
     (case pin_get j ws r tbl of Some c \<Rightarrow> Some c | None \<Rightarrow> map_option pr_commit (map_of m (ws, r)))"
  unfolding insert_many_tx_def memo_entries_def
proof (induction m arbitrary: tbl)
  case Nil
  then show ?case by (simp split: option.split)
next
  case (Cons e m)
  obtain w g p where e: "e = ((w, g), p)" by (metis prod.exhaust)
  show ?case
    using Cons [of "pin_insert j \<lparr>jp_workspace = w, jp_git_ref = g, jp_commit = pr_commit p\<rparr> tbl"]
    by (auto simp: e pin_get_insert split: option.splits)
qed

text \<open>An insert that comes later answers with the commit that is there.\<close>

lemma first_wins:
  "snd (insert_first_wins j ws r c tbl) = Some (case pin_get j ws r tbl of Some c' \<Rightarrow> c' | None \<Rightarrow> c)"
  by (auto simp: insert_first_wins_def Let_def pin_get_insert split: option.split)

definition pinned_col :: "uuid \<Rightarrow> (uuid \<times> job_ref_pin_row) list \<Rightarrow> string option \<Rightarrow> string option \<Rightarrow> string option \<Rightarrow> bool" where
  "pinned_col job_id tbl ws git_ref revision \<longleftrightarrow>
     (\<forall>r. git_ref = Some r \<longrightarrow> (\<exists>w c. ws = Some w \<and> revision = Some c \<and> pin_get job_id w r tbl = Some c))"

lemma same_commit_pinned_col:
  assumes "same_commit m ws git_ref revision" and "\<And>w r. pin_get job_id w r tbl = None"
  shows "pinned_col job_id (insert_many_tx job_id (memo_entries m) tbl) ws git_ref revision"
  using assms by (auto simp: same_commit_def pinned_col_def pin_get_insert_many)

text \<open>
  C19. A job sees one commit per ref. Every row of a new job whose action or task is taken at a ref names the
  owner and the commit, and the commit is the one the job's pin table holds for that owner and ref. Two
  steps of the job that name the same ref of the same workspace hence run the same commit even if the
  branch moves while the job is created, and a step whose ref is resolved later gets that commit too.
\<close>

theorem one_commit_per_ref:
  assumes "resolve_keeps_ref (ce_refs env)" and "prepare_creation env show_uuid req job_id (st_db s) = Inr pp"
    and "creation_tx mp now utc_now req job_id pp s = Inr s'" and "referenced s"
    and "r \<in> set (steps (st_db s'))" and "js_job_id r = job_id"
  shows "pinned_col job_id (st_ref_pins s') (js_action_workspace r) (js_action_ref r) (js_action_revision r) \<and>
    pinned_col job_id (st_ref_pins s') (js_task_workspace r) (js_task_ref r) (js_task_revision r) \<and>
    (\<forall>w g c. pin_get job_id w g (st_ref_pins s') = Some c \<longrightarrow>
      (\<forall>c'. snd (insert_first_wins job_id w g c' (st_ref_pins s')) = Some c))"
proof -
  obtain st where rows: "flow_rows env (row_ctx env req job_id) (td_flow (pp_task pp))
      \<lparr>rf_memo = memo_seeded (cr_workspace req) (job_pin_of req), rf_calls = 0\<rparr> = Inr (pp_rows pp, st)"
    and memo: "pp_memo pp = rf_memo st"
    using assms(2) by (rule prepare_creationD)
  have inv: "list_all (row_pinned (pp_memo pp)) (pp_rows pp)"
    using flow_rows_inv [of env "row_ctx env req job_id", simplified, OF rows assms(1)] by (simp add: rows_inv_def memo)
  obtain d1 d2 where pins: "st_ref_pins s' = insert_many_tx job_id (memo_entries (pp_memo pp)) (st_ref_pins s)"
    using assms(3) by (rule creation_txD)
  have "r \<in> set (new_rows now utc_now req job_id pp)"
    using assms(5,6) job_rows_new(1) [OF assms(3,4,2), symmetric] by auto
  then obtain i where i: "i \<in> set (pp_rows pp)" "r = (seeded now job_id (carried_by req) \<circ> step_insert_row utc_now) i"
    unfolding new_rows_def set_map by (elim imageE)
  have "same_origin (step_insert_row utc_now i) r" unfolding i(2) by (rule new_row_origin)
  then have cols: "js_action_workspace r = ns_action_workspace i" "js_action_ref r = ns_action_ref i"
      "js_action_revision r = ns_action_revision i" "js_task_workspace r = ns_task_workspace i"
      "js_task_ref r = ns_task_ref i" "js_task_revision r = ns_task_revision i"
    by (simp_all add: same_origin_def)
  have "row_pinned (pp_memo pp) i" using inv i(1) by (simp add: list_all_iff)
  moreover have "pin_get job_id w g (st_ref_pins s) = None" for w g
    using assms(4) creation_tx_tables(3) [OF assms(3,4)]
    by (auto simp: pin_get_def find_None_iff referenced_def list_all_iff)
  ultimately show ?thesis
    unfolding cols pins row_pinned_def using same_commit_pinned_col by (auto simp: first_wins)
qed

section \<open>Failures\<close>

definition live_statuses :: "string list" where
  "live_statuses = [''pending'', ''ready'', ''claimed'', ''running'', ''suspended'']"

lemma compensate_steps:
  assumes "r \<in> set (steps (compensate now job_id msg d))" and "js_job_id r = job_id"
  shows "js_status r \<notin> set live_statuses"
proof -
  let ?w = "\<lambda>r. js_job_id r = job_id \<and> js_status r \<in> {''pending'', ''ready'', ''claimed'', ''running'', ''suspended''}"
  have rows: "steps (compensate now job_id msg d) = map (\<lambda>r. if ?w r then fail_write now msg r else r) (steps d)"
    by (simp add: compensate_def fail_non_terminal_steps_tx_def job_mark_failed_tx_def row_simps)
  then obtain r0 where "r = (if ?w r0 then fail_write now msg r0 else r0)"
    using assms(1) by (simp only: set_map) (elim imageE)
  then show ?thesis using assms(2) by (cases "?w r0") (auto simp: fail_write_def live_statuses_def)
qed

lemma compensate_job:
  assumes "j \<in> set (jobs (compensate now job_id msg d))" and "j_job_id j = job_id"
  shows "j_status j = ''failed''"
proof -
  have "jobs (compensate now job_id msg d) =
      map (\<lambda>j. if j_job_id j = job_id then j\<lparr>j_status := ''failed'', j_completed_at := Some now\<rparr> else j) (jobs d)"
    by (simp add: compensate_def fail_non_terminal_steps_tx_def job_mark_failed_tx_def row_simps)
  then obtain j0 where "j = (if j_job_id j0 = job_id then j0\<lparr>j_status := ''failed'', j_completed_at := Some now\<rparr> else j0)"
    using assms(1) by (simp only: set_map) (elim imageE)
  then show ?thesis using assms(2) by (cases "j_job_id j0 = job_id") simp_all
qed

text \<open>
  C14. A creation is all or nothing. An error leaves the tables as they were. When the transaction has
  committed but the initialisation fails, the caller gets the job as final, the job row is failed and
  every step of it is finished, so no worker can pick up a step of a job that was given up.
\<close>

theorem creation_failure_visible:
  "case create_job_for_task_inner env show_uuid mp now utc_now init req job_id s of
     (s', Inl e) \<Rightarrow> s' = s
   | (s', Inr (i, final)) \<Rightarrow> i = job_id \<and>
       (\<exists>pp s1. prepare_creation env show_uuid req job_id (st_db s) = Inr pp \<and>
          creation_tx mp now utc_now req job_id pp s = Inr s1 \<and>
          (case init (pp_task pp) s1 of
             (s2, Inr settled) \<Rightarrow> s' = s2 \<and> final = (settled \<noteq> None)
           | (s2, Inl err) \<Rightarrow> final \<and>
               (\<forall>r \<in> set (steps (st_db s')). js_job_id r = job_id \<longrightarrow> js_status r \<notin> set live_statuses) \<and>
               (\<forall>j \<in> set (jobs (st_db s')). j_job_id j = job_id \<longrightarrow> j_status j = ''failed'')))"
proof -
  let ?run = "create_job_for_task_inner env show_uuid mp now utc_now init req job_id s"
  show ?thesis
  proof (cases "prepare_creation env show_uuid req job_id (st_db s)")
    case (Inl e)
    then have "?run = (s, Inl e)" by (simp add: create_job_for_task_inner_def)
    then show ?thesis by simp
  next
    case pp: (Inr pp)
    show ?thesis
    proof (cases "creation_tx mp now utc_now req job_id pp s")
      case (Inl e)
      then have "?run = (s, Inl e)" using pp by (simp add: create_job_for_task_inner_def)
      then show ?thesis by simp
    next
      case s1: (Inr s1)
      obtain s2 res where i: "init (pp_task pp) s1 = (s2, res)" by (cases "init (pp_task pp) s1")
      show ?thesis
      proof (cases res)
        case (Inl e)
        let ?s' = "s2\<lparr>st_db := compensate now job_id (''[creation] initialisation failed: '' @ e) (st_db s2)\<rparr>"
        have "?run = (?s', Inr (job_id, True))" using pp s1 i Inl by (simp add: create_job_for_task_inner_def)
        then show ?thesis using pp s1 i Inl compensate_steps compensate_job by simp
      next
        case (Inr settled)
        then have "?run = (s2, Inr (job_id, settled \<noteq> None))" using pp s1 i by (simp add: create_job_for_task_inner_def)
        then show ?thesis using pp s1 i Inr by simp
      qed
    qed
  qed
qed

section \<open>Examples\<close>

text \<open>
  Two steps take their action at the branch \<^verbatim>\<open>main\<close>, which moves: the store answers each question with
  another commit.
\<close>

definition noop_action :: action_def where
  "noop_action = \<lparr>ad_action_type = ''script'', ad_task = None, ad_git_ref = None, ad_runner = None, ad_tags = [],
     ad_image = None, ad_input = [], ad_message = None, ad_retry = None\<rparr>"

definition main_flow :: flow where
  "main_flow = [(''a'', (plain_step [])\<lparr>fs_git_ref := Some ''main''\<rparr>),
     (''b'', (plain_step [Name ''a''])\<lparr>fs_git_ref := Some ''main''\<rparr>)]"

definition main_cfg :: workspace_config where
  "main_cfg = empty_config\<lparr>wc_actions := [(''noop'', noop_action)], wc_tasks := [(''t'', plain_task main_flow)]\<rparr>"

definition main_env :: creation_env where
  "main_env = \<lparr>ce_refs = \<lparr>re_world = \<lparr>rw_library_names = [], rw_configured = [''w''], rw_git = [''w'']\<rparr>,
       re_has_workspace = (\<lambda>n. n = ''w''), re_live = (\<lambda>_. None), re_revision = (\<lambda>_. None),
       re_resolve = (\<lambda>n _ r. Inr \<lparr>pr_git_ref = r, pr_commit = show_nat n\<rparr>), re_ensure = (\<lambda>_ _. Inr main_cfg)\<rparr>,
     ce_tera = echo_tera, ce_configs = [], ce_show_json = (\<lambda>_. []), ce_action_json = (\<lambda>_. None),
     ce_check_ref_template = (\<lambda>_. Inr ())\<rparr>"

definition no_defaults :: job_defaults where
  "no_defaults = \<lparr>df_step_timeout_secs = None, df_job_timeout_secs = None, df_input_storage = False\<rparr>"

definition main_req :: creation_request where
  "main_req = create_job_for_task_detailed main_cfg ''w'' ''t'' (Object []) ''api'' None None None no_defaults Indirect"

definition main_source :: job_row where
  "main_source = (test_default_job 1 0)\<lparr>j_workspace := ''w'', j_task_name := ''t'', j_status := ''failed'',
     j_raw_input := Some (Object [])\<rparr>"

definition main_source_rows :: "job_step_row list" where
  "main_source_rows = [(test_default 1 ''a'')\<lparr>js_status := ''completed'', js_output := Some (Bool True)\<rparr>,
     (test_default 1 ''b'')\<lparr>js_status := ''failed''\<rparr>]"

definition main_plan :: restart_plan where
  "main_plan = \<lparr>rp_from = AllFailed, rp_start_steps = [''b''], rp_restart_steps = [''b''],
     rp_carried = [\<lparr>sd_step_name = ''a'', sd_status = ''completed'', sd_output = Some (Bool True), sd_error_message = None,
       sd_skip_reason = None\<rparr>], rp_carried_failed = [], rp_carried_failed_tolerated = []\<rparr>"

definition main_restart :: creation_request where
  "main_restart = main_req\<lparr>cr_source_type := ''restart'', cr_mode := RestartMode main_source main_plan\<rparr>"

definition no_tables :: file_tables where
  "no_tables = \<lparr>ft_files = [], ft_links = [], ft_tokens = [], ft_users = []\<rparr>"

definition main_store :: store where
  "main_store = \<lparr>st_db = \<lparr>jobs = [main_source], steps = []\<rparr>, st_ref_pins = [], st_files = no_tables\<rparr>"

definition main_row :: "string \<Rightarrow> string \<Rightarrow> new_job_step" where
  "main_row name status = \<lparr>ns_job_id = 2, ns_step_name = name, ns_action_name = ''noop'', ns_action_type = ''script'',
     ns_action_image = None, ns_action_spec = None, ns_input = Some (Object []), ns_status = status,
     ns_required_ability = ''script'', ns_required_tags = [], ns_runner = ''local'', ns_timeout_secs = None,
     ns_when_condition = None, ns_for_each_expr = None, ns_loop_source = None, ns_loop_index = None, ns_loop_total = None,
     ns_loop_item = None, ns_max_retries = None, ns_retry_backoff_secs = None, ns_retry_strategy = None,
     ns_retry_jitter = False, ns_action_workspace = Some ''w'', ns_action_revision = Some ''0'',
     ns_action_ref = Some ''main'', ns_task_workspace = None, ns_task_ref = None, ns_task_revision = None,
     ns_ref_template = None\<rparr>"

definition main_pp :: prepared where
  "main_pp = \<lparr>pp_task = plain_task main_flow, pp_raw_input = Object [], pp_input = Object [], pp_source_job_id = None,
     pp_restart = None, pp_file_lineage = None, pp_file_values = [],
     pp_rows = [main_row ''a'' ''ready'', main_row ''b'' ''pending''],
     pp_memo = [((''w'', ''main''), \<lparr>pr_git_ref = ''main'', pr_commit = ''0''\<rparr>)]\<rparr>"

definition main_restart_pp :: prepared where
  "main_restart_pp = main_pp\<lparr>pp_source_job_id := Some 1, pp_restart := Some (LineageSteps [''b'']),
     pp_file_lineage := Some 1\<rparr>"

lemma main_prepared:
  "prepare_creation main_env show_nat main_req 2 (st_db main_store) = Inr main_pp"
  "prepare_creation main_env show_nat main_restart 2 (st_db main_store) = Inr main_restart_pp"
  by code_simp+

definition main_created :: "creation_request \<Rightarrow> prepared \<Rightarrow> store" where
  "main_created req pp = projr (creation_tx 90 9 9 req 2 pp main_store)"

lemma main_committed:
  "creation_tx 90 9 9 main_req 2 main_pp main_store = Inr (main_created main_req main_pp)"
  "creation_tx 90 9 9 main_restart 2 main_restart_pp main_store = Inr (main_created main_restart main_restart_pp)"
proof -
  have "\<not> isl (creation_tx 90 9 9 main_req 2 main_pp main_store)" by code_simp
  then show "creation_tx 90 9 9 main_req 2 main_pp main_store = Inr (main_created main_req main_pp)"
    by (simp add: main_created_def)
  have "\<not> isl (creation_tx 90 9 9 main_restart 2 main_restart_pp main_store)" by code_simp
  then show "creation_tx 90 9 9 main_restart 2 main_restart_pp main_store = Inr (main_created main_restart main_restart_pp)"
    by (simp add: main_created_def)
qed

lemma main_referenced: "referenced main_store" "keyed (st_db main_store)"
  by (simp_all add: referenced_def main_store_def keyed_def)

lemma main_bracket_free: "list_all (\<lambda>n. CHR ''['' \<notin> set n) (keys (td_flow (pp_task main_pp)))"
  by code_simp


lemma main_restart_planned: "plan_restart (td_flow (pp_task main_restart_pp)) main_source_rows AllFailed = Inr main_plan"
  by code_simp

lemma main_restart_row:
  "\<exists>r \<in> set (steps (st_db (main_created main_restart main_restart_pp))). js_job_id r = 2 \<and> js_step_name r = ''a''"
proof -
  have "list_ex (\<lambda>r. js_job_id r = 2 \<and> js_step_name r = ''a'') (steps (st_db (main_created main_restart main_restart_pp)))"
    by code_simp
  then show ?thesis by (simp add: list_ex_iff)
qed

theorem restart_carried_steps_witness:
  "\<exists>r \<in> set (steps (st_db (main_created main_restart main_restart_pp))). js_step_name r = ''a'' \<and>
     js_carried_over r \<and> is_terminal (js_status r) \<and> \<not> claimable 10 [''script''] [] False r \<and> js_output r = Some (Bool True)"
proof -
  obtain r where r: "r \<in> set (steps (st_db (main_created main_restart main_restart_pp)))" "js_job_id r = 2" "js_step_name r = ''a''"
    using main_restart_row by blast
  have m: "cr_mode main_restart = RestartMode main_source main_plan" by (simp add: main_restart_def)
  have d: "distinct (keys (td_flow (pp_task main_restart_pp)))" by code_simp
  have q: "source_row main_source_rows ''a'' =
      Some ((test_default 1 ''a'')\<lparr>js_status := ''completed'', js_output := Some (Bool True)\<rparr>)" by code_simp
  have n: "''a'' \<notin> set (rp_restart_steps main_plan)" by (simp add: main_plan_def)
  have "js_carried_over r \<and> is_terminal (js_status r) \<and> \<not> claimable 10 [''script''] [] False r \<and> js_output r = Some (Bool True)"
    using restart_carried_steps [OF main_prepared(2) main_committed(2) main_referenced(1) m main_restart_planned d r(1,2),
        of 10 "[''script'']" "[]" False] n q
    by (simp add: r(3) is_terminal_def)
  with r show ?thesis by blast
qed

lemma main_keeps_ref: "resolve_keeps_ref (ce_refs main_env)"
  by (auto simp: resolve_keeps_ref_def main_env_def)

theorem one_commit_per_ref_witness:
  "\<exists>r \<in> set (steps (st_db (main_created main_req main_pp))). js_job_id r = 2 \<and> js_action_ref r = Some ''main'' \<and>
     pinned_col 2 (st_ref_pins (main_created main_req main_pp)) (js_action_workspace r) (js_action_ref r) (js_action_revision r)"
proof -
  have "list_ex (\<lambda>r. js_job_id r = 2 \<and> js_action_ref r = Some ''main'') (steps (st_db (main_created main_req main_pp)))"
    by code_simp
  then obtain r where r: "r \<in> set (steps (st_db (main_created main_req main_pp)))" "js_job_id r = 2" "js_action_ref r = Some ''main''"
    unfolding list_ex_iff by blast
  then show ?thesis
    using one_commit_per_ref [OF main_keeps_ref main_prepared(1) main_committed(1) main_referenced(1)] by blast
qed

theorem creation_failure_visible_witness:
  "case create_job_for_task_inner main_env show_nat 90 9 9 (\<lambda>_ st. (st, Inl ''x'')) main_req 2 main_store of
     (s', Inl e) \<Rightarrow> False
   | (s', Inr (i, final)) \<Rightarrow> i = 2 \<and> final \<and>
       (\<forall>r \<in> set (steps (st_db s')). js_job_id r = 2 \<longrightarrow> js_status r \<notin> set live_statuses)"
proof -
  obtain s' where s': "create_job_for_task_inner main_env show_nat 90 9 9 (\<lambda>_ st. (st, Inl ''x'')) main_req 2 main_store =
      (s', Inr (2, True))"
    by (simp add: create_job_for_task_inner_def main_prepared main_committed)
  show ?thesis
    using creation_failure_visible [where env = main_env and show_uuid = show_nat and mp = 90 and now = 9 and utc_now = 9
        and init = "\<lambda>_ st. (st, Inl ''x'')" and req = main_req and job_id = 2 and s = main_store]
    by (simp add: s' main_prepared main_committed)
qed

section \<open>The types of the tables\<close>

text \<open>
  The columns the code parses hold a value of their enumeration, the keys are unique and every step
  belongs to a job.
\<close>

definition typed :: "db \<Rightarrow> bool" where
  "typed d \<longleftrightarrow> keyed d \<and> distinct (map j_job_id (jobs d)) \<and>
     list_all (\<lambda>j. \<not> isl (parse_job_status (j_status j))) (jobs d) \<and>
     list_all (\<lambda>r. \<not> isl (parse_step_status (js_status r)) \<and> job_exists d (js_job_id r)) (steps d)"

inductive db_write :: "db \<Rightarrow> db \<Rightarrow> bool" where
  w_step: "guarded_write d d' \<Longrightarrow> db_write d d'"
| w_expand: "create_steps_tx mp utc_now insts d = Inr d' \<Longrightarrow> db_write d d'"
| w_create: "creation_tx mp now utc_now req job_id pp s = Inr s' \<Longrightarrow> db_write (st_db s) (st_db s')"
| w_skipped: "create_skipped now job_id ws tn inp st sid c pin d = Inr d' \<Longrightarrow> db_write d d'"
| w_settle: "db_write d (fst (settle_tx now job_id st out d))"
| w_cancel: "db_write d (fst (job_cancel now job_id d))"
| w_fail: "db_write d (job_mark_failed_tx now job_id d)"
| w_run: "db_write d (mark_running_if_pending now job_id w d)"
| w_run_server: "db_write d (mark_running_if_pending_server now job_id d)"
| w_run_tx: "db_write d (mark_running_if_pending_tx now job_id d)"

lemma guarded_write_jobs: "guarded_write d d' \<Longrightarrow> jobs d' = jobs d"
proof (induction rule: guarded_write.induct)
  case (gw_claim d now rnd locked caps tags ex w)
  then show ?case by (simp add: claim_ready_step_def Let_def row_simps)
next
  case (gw_fail_dispatch expected d now job_id name err pin)
  then show ?case using live_write.jobs_kept [OF fail_dispatch_live] by blast
next
  case (gw_fail_or_retry expected d ts now un job_id name err delay_for claim)
  then show ?case by (simp add: fail_or_retry_def Let_def row_simps split: option.splits)
next
  case (gw_release d now job_id name cl after mx)
  then show ?case by (simp add: release_claim_def Let_def row_simps cancel_pending_steps_tx_def split: option.splits)
qed (simp_all add: promote.jobs_kept skip.jobs_kept
  fail_pending.jobs_kept start_placeholder.jobs_kept complete_placeholder.jobs_kept
  fail_placeholder.jobs_kept run_server.jobs_kept task_dispatch.jobs_kept cancel_server.jobs_kept
  take_lease.jobs_kept renew_lease.jobs_kept resolve_deferred.jobs_kept fail_deferred.jobs_kept
  stamp_pin.jobs_kept skipped.jobs_kept cancel_pending.jobs_kept fail_live.jobs_kept
  cancelled.jobs_kept approve.jobs_kept suspend.jobs_kept)

abbreviation step_typed :: "step_record \<Rightarrow> bool" where
  "step_typed r \<equiv> \<not> isl (parse_step_status (js_status r))"

lemma typedD:
  assumes "typed d"
  shows "keyed d" and "distinct (map j_job_id (jobs d))"
    and "j \<in> set (jobs d) \<Longrightarrow> \<not> isl (parse_job_status (j_status j))"
    and "r \<in> set (steps d) \<Longrightarrow> step_typed r" and "r \<in> set (steps d) \<Longrightarrow> job_exists d (js_job_id r)"
  using assms unfolding typed_def list_all_iff by blast+

lemma typedI:
  assumes "keyed d" and "distinct (map j_job_id (jobs d))"
    and "\<And>j. j \<in> set (jobs d) \<Longrightarrow> \<not> isl (parse_job_status (j_status j))"
    and "\<And>r. r \<in> set (steps d) \<Longrightarrow> step_typed r" and "\<And>r. r \<in> set (steps d) \<Longrightarrow> job_exists d (js_job_id r)"
  shows "typed d"
  using assms unfolding typed_def list_all_iff by blast

lemma typed_rows:
  assumes "typed d" and "jobs d' = jobs d" and "map step_key (steps d') = map step_key (steps d)"
    and "list_all step_typed (steps d')"
  shows "typed d'"
proof -
  have ids: "js_job_id ` set (steps d') = js_job_id ` set (steps d)"
    using arg_cong [OF assms(3), of "\<lambda>l. fst ` set l"] by (simp add: image_image)
  show ?thesis
  proof (rule typedI)
    show "keyed d'" using typedD(1) [OF assms(1)] by (simp only: keyed_def assms(3))
    show "distinct (map j_job_id (jobs d'))" using typedD(2) [OF assms(1)] by (simp only: assms(2))
    show "\<not> isl (parse_job_status (j_status j))" if "j \<in> set (jobs d')" for j
      by (rule typedD(3) [OF assms(1) that [unfolded assms(2)]])
    show "step_typed r" if "r \<in> set (steps d')" for r using assms(4) that by (simp add: list_all_iff)
    show "job_exists d' (js_job_id r)" if r: "r \<in> set (steps d')" for r
    proof -
      have "js_job_id r \<in> js_job_id ` set (steps d)" using r unfolding ids [symmetric] by (rule imageI)
      then obtain q where "q \<in> set (steps d)" "js_job_id r = js_job_id q" by (rule imageE)
      then show ?thesis using typedD(5) [OF assms(1), of q] by (simp add: job_exists_def assms(2))
    qed
  qed
qed

lemma edge_typed: "step_edge a b \<Longrightarrow> \<not> isl (parse_step_status b)"
  by (auto simp: step_edge_def parse_step_status_def)

lemma typed_moves:
  assumes "typed d" and "jobs d' = jobs d" and "list_all2 moves (steps d) (steps d')"
  shows "typed d'"
proof (rule typed_rows [OF assms(1,2) moves_keys [OF assms(3)]])
  have "list_all step_typed (steps d)" using assms(1) by (auto simp: typed_def list_all_iff)
  with assms(3) show "list_all step_typed (steps d')"
    by (induction rule: list_all2_induct) (auto simp: moves_def dest: edge_typed)
qed

lemma typed_jobs:
  assumes "typed d" and "\<And>j. w j \<Longrightarrow> j_job_id (f j) = j_job_id j \<and>
      (j_status (f j) = j_status j \<or> \<not> isl (parse_job_status (j_status (f j))))"
  shows "typed (fst (update_jobs w f d))"
proof -
  let ?d = "fst (update_jobs w f d)"
  have ids: "map j_job_id (jobs ?d) = map j_job_id (jobs d)" using assms(2) by (simp add: row_simps)
  have "job_exists ?d i = (i \<in> set (map j_job_id (jobs ?d)))" "job_exists d i = (i \<in> set (map j_job_id (jobs d)))" for i
    by (auto simp: job_exists_def list_ex_iff)
  then have ex: "job_exists ?d i = job_exists d i" for i by (simp only: ids)
  have "\<not> isl (parse_job_status (j_status (if w j then f j else j)))" if "j \<in> set (jobs d)" for j
    using assms(2) [of j] typedD(3) [OF assms(1) that] by auto
  then have "list_all (\<lambda>j. \<not> isl (parse_job_status (j_status j))) (jobs ?d)"
    unfolding update_jobs_fst list_all_iff set_map by (intro ballI) (elim imageE, metis)
  moreover have st: "steps ?d = steps d" by (simp add: row_simps)
  ultimately show ?thesis using assms(1) unfolding typed_def ex ids keyed_def st by blast
qed

lemma typed_insert_job:
  assumes "typed d" and "insert_job j d = Inr d'"
  shows "typed d'"
proof -
  have j: "d' = d\<lparr>jobs := jobs d @ [j]\<rparr>" "\<not> job_exists d (j_job_id j)"
      "\<not> isl (parse_job_status (j_status j))"
    using assms(2) by (auto simp: insert_job_def job_check_def parse_job_status_def split: if_splits)
  show ?thesis
  proof (rule typedI)
    show "distinct (map j_job_id (jobs d'))"
      using typedD(2) [OF assms(1)] j(2) by (auto simp: j(1) job_exists_def list_ex_iff)
    show "job_exists d' (js_job_id r)" if "r \<in> set (steps d')" for r
      using typedD(5) [OF assms(1), of r] that by (simp add: j(1) job_exists_def)
    show "\<not> isl (parse_job_status (j_status i))" if "i \<in> set (jobs d')" for i
      using typedD(3) [OF assms(1), of i] that j(3) by (auto simp: j(1))
  qed (use typedD(1,4) [OF assms(1)] in \<open>simp_all add: j(1) keyed_def\<close>)
qed

lemma typed_create_steps:
  assumes "typed d" and "create_steps_tx mp utc_now rows d = Inr d'"
  shows "typed d'"
proof (cases "rows = []")
  case False
  let ?rows = "map (step_insert_row utc_now) rows"
  have r: "d' = d\<lparr>steps := steps d @ ?rows\<rparr>"
      "list_all (\<lambda>r. step_check (js_status r) (js_action_type r) (js_runner r) (js_timeout_secs r)) ?rows"
      "list_all (\<lambda>r. list_ex (\<lambda>j. j_job_id j = js_job_id r) (jobs d)) ?rows"
    using assms(2) False by (auto simp: create_steps_tx_def Let_def split: if_splits)
  have t: "step_typed x" if "x \<in> set ?rows" for x
    using r(2) that unfolding list_all_iff by (auto simp: step_check_def parse_step_status_def)
  show ?thesis
  proof (rule typedI)
    show "keyed d'" using keyed_create [OF typedD(1) [OF assms(1)] assms(2)] by blast
    show "step_typed x" if "x \<in> set (steps d')" for x
      using that t typedD(4) [OF assms(1)] unfolding r(1) by auto
    show "job_exists d' (js_job_id x)" if "x \<in> set (steps d')" for x
    proof -
      have "x \<in> set (steps d) \<or> x \<in> set ?rows" using that unfolding r(1) by simp
      then have "job_exists d (js_job_id x)"
        using typedD(5) [OF assms(1), of x] r(3) unfolding list_all_iff job_exists_def by blast
      then show ?thesis by (simp add: r(1) job_exists_def)
    qed
  qed (use typedD(2,3) [OF assms(1)] in \<open>simp_all add: r(1)\<close>)
qed (use assms in \<open>simp add: create_steps_tx_def\<close>)

lemma typed_seed:
  assumes "typed d" and "seed_steps_tx now job_id seeds d = Inr d'"
  shows "typed d'"
  using assms
proof (induction seeds arbitrary: d)
  case (Cons s seeds)
  let ?d = "fst (update_steps (at_step job_id (sd_step_name s)) (seed_write now s) d)"
  have next_seed: "seed_steps_tx now job_id seeds ?d = Inr d'"
    and c: "list_ex (at_step job_id (sd_step_name s)) (steps d) \<longrightarrow> step_check (sd_status s) ''script'' ''none'' None"
    using Cons.prems(2)
    by (auto simp: case_prod_beta row_simps list_ex_iff filter_empty_conv Let_def split: if_splits)
  have "typed ?d"
  proof (rule typed_rows [OF Cons.prems(1)])
    have "step_typed (if at_step job_id (sd_step_name s) r then seed_write now s r else r)" if "r \<in> set (steps d)" for r
    proof (cases "at_step job_id (sd_step_name s) r")
      case True
      then have "step_check (sd_status s) ''script'' ''none'' None" using c that by (auto simp: list_ex_iff)
      then show ?thesis using True by (auto simp: step_check_def parse_step_status_def)
    next
      case False
      show ?thesis unfolding if_not_P [OF False] by (rule typedD(4) [OF Cons.prems(1) that])
    qed
    then show "list_all step_typed (steps ?d)" unfolding update_steps_fst list_all_iff set_map by blast
  qed (auto simp: row_simps)
  from Cons.IH [OF this next_seed] show ?case .
qed simp

lemma typed_creation:
  assumes "typed (st_db s)" and "creation_tx mp now utc_now req job_id pp s = Inr s'"
  shows "typed (st_db s')"
proof -
  obtain d1 d2 where d1: "insert_job_tx now req job_id pp (st_db s) = Inr d1"
      and d2: "create_steps_tx mp utc_now (pp_rows pp) d1 = Inr d2"
      and d3: "finish_tx now (cr_mode req) job_id d2 = Inr (st_db s')"
    using assms(2) by (rule creation_txD)
  have "typed d1" using d1 typed_insert_job [OF assms(1)] unfolding insert_job_tx_def create_with_parent_tx_id_def by blast
  then have t2: "typed d2" using typed_create_steps d2 by blast
  show ?thesis
  proof (cases "cr_mode req")
    case (RetryMode a c n)
    let ?d = "fst (update_jobs (\<lambda>j. j_job_id j = job_id) (\<lambda>j. j\<lparr>j_retry_of_job_id := Some c, j_retry_attempt := n\<rparr>) d2)"
    have "st_db s' = fst (update_jobs (\<lambda>j. j_job_id j = a) (\<lambda>j. j\<lparr>j_retry_job_id := Some job_id\<rparr>) ?d)"
      using d3 RetryMode by (auto simp: finish_tx_def link_retry_tx_def case_prod_beta Let_def split: if_splits)
    moreover have "typed (fst (update_jobs w (\<lambda>j. j\<lparr>j_retry_of_job_id := Some c, j_retry_attempt := n\<rparr>) d))"
        "typed (fst (update_jobs w (\<lambda>j. j\<lparr>j_retry_job_id := Some job_id\<rparr>) d))" if "typed d" for d w
      using that by (auto intro!: typed_jobs)
    ultimately show ?thesis using t2 by simp
  next
    case (RestartMode src plan)
    then show ?thesis using d3 typed_seed [OF t2] by (auto simp: finish_tx_def split: sum.splits)
  qed (use d3 t2 in \<open>auto simp: finish_tx_def\<close>)
qed

lemma typed_write:
  assumes "db_write d d'" and "typed d"
  shows "typed d'"
  using assms
proof (induction rule: db_write.induct)
  case (w_step d d')
  then show ?case
    by (intro typed_moves [OF w_step.prems guarded_write_jobs [OF w_step.hyps]]
        guarded_write_moves [OF w_step.hyps typedD(1)])
next
  case (w_skipped now job_id ws tn inp st sid c pin d d')
  then show ?case using typed_insert_job unfolding create_skipped_def by blast
next
  case (w_settle d now job_id st out)
  have "\<not> isl (parse_job_status (job_status_str st))" by (simp add: job_status_codec.parse_print)
  with w_settle show ?case unfolding settle_tx_def sum_fst_conv by (intro typed_jobs) simp_all
next
  case (w_cancel d now job_id)
  then show ?case unfolding job_cancel_def sum_fst_conv
    by (intro typed_jobs) (simp_all add: parse_job_status_def)
qed (auto simp: job_mark_failed_tx_def mark_running_if_pending_def mark_running_if_pending_server_def
    mark_running_if_pending_tx_def parse_job_status_def intro!: typed_jobs dest: typed_create_steps typed_creation)



end
