(* ===== verification/Trigger_Clock.thy ===== *)
theory Trigger_Clock
  imports Workflow_Model Db_Rows
begin

text \<open>
  The clock of the scheduler (\<^verbatim>\<open>stroem-server/src/scheduler.rs\<close>): the state kept for each cron trigger, the
  reload of the trigger table from the workspaces, and one pass of the loop. Only the leader fires, but
  every replica advances its state, so that a new leader does not fire what the old one already did.

  Cron expressions and time zones are the crates \<^verbatim>\<open>croner\<close> and \<^verbatim>\<open>chrono_tz\<close>: \<open>sched_env\<close> holds their parsers
  and the search for the next occurrence. What the clock relies on is \<open>cron_law\<close>, the documented
  contract of \<^verbatim>\<open>find_next_occurrence(start, false)\<close>: the first occurrence after the start, or an error
  if there is none.
\<close>

section \<open>State\<close>

record sched_env =
  se_cron_ok :: "string \<Rightarrow> bool"
  se_tz_ok :: "string \<Rightarrow> bool"
  se_next :: "string \<Rightarrow> string option \<Rightarrow> time \<Rightarrow> time option"
  se_def_json :: "trigger_def \<Rightarrow> json"

record trigger_state =
  tg_cron_expr :: string
  tg_workspace :: string
  tg_task :: string
  tg_git_ref :: "string option"
  tg_input :: "json hashmap"
  tg_trigger_name :: string
  tg_concurrency :: concurrency_policy
  tg_timezone :: "string option"
  tg_timezone_str :: "string option"
  tg_force_refresh :: bool
  tg_definition :: json
  tg_last_run :: "time option"
  tg_next_run :: "time option"

definition compute_next_run ::
    "sched_env \<Rightarrow> string \<Rightarrow> time option \<Rightarrow> time \<Rightarrow> string option \<Rightarrow> time option" where
  "compute_next_run env cron last_run now timezone =
     (let start = (case last_run of Some lr \<Rightarrow> if lr > now then lr else now | None \<Rightarrow> now)
      in se_next env cron timezone start)"

definition advance_state_after_tick :: "sched_env \<Rightarrow> time \<Rightarrow> trigger_state \<Rightarrow> trigger_state" where
  "advance_state_after_tick env now t =
     t\<lparr>tg_last_run := Some now,
       tg_next_run := compute_next_run env (tg_cron_expr t) (Some now) now (tg_timezone t)\<rparr>"

definition MAX_SLEEP :: int where
  "MAX_SLEEP = seconds 30"

text \<open>A next run that has passed counts as one second.\<close>

definition until_next :: "time \<Rightarrow> time \<Rightarrow> int" where
  "until_next now next_run = (if next_run - now < 0 then seconds 1 else next_run - now)"

definition sleep_duration :: "trigger_state hashmap \<Rightarrow> time \<Rightarrow> int" where
  "sleep_duration triggers now =
     (case List.map_filter (\<lambda>t. map_option (until_next now) (tg_next_run t)) (vals triggers) of
        [] \<Rightarrow> MAX_SLEEP
      | d # ds \<Rightarrow> min (foldl min d ds) MAX_SLEEP)"

section \<open>Loading the triggers\<close>

record workspaces_view =
  wv_names :: "string list"
  wv_triggers_enabled :: "string \<Rightarrow> bool"
  wv_config :: "string \<Rightarrow> workspace_config option"

definition trigger_key :: "string \<Rightarrow> string \<Rightarrow> string" where
  "trigger_key ws_name trigger_name = ws_name @ ''/'' @ trigger_name"

definition load_trigger ::
    "sched_env \<Rightarrow> trigger_state hashmap option \<Rightarrow> string \<Rightarrow> trigger_state hashmap \<Rightarrow> string \<times> trigger_def
       \<Rightarrow> trigger_state hashmap" where
  "load_trigger env previous ws_name triggers entry =
     (case snd entry of
        Scheduler s \<Rightarrow>
          if sd_enabled s \<and> se_cron_ok env (sd_cron s)
          then let key = trigger_key ws_name (fst entry);
                   kept = (case Option.bind previous (\<lambda>p. map_of p key) of
                       Some old \<Rightarrow>
                         if tg_cron_expr old = sd_cron s \<and> tg_timezone_str old = sd_timezone s
                         then (tg_last_run old, tg_next_run old) else (None, None)
                     | None \<Rightarrow> (None, None))
               in obj_insert key
                    \<lparr>tg_cron_expr = sd_cron s, tg_workspace = ws_name, tg_task = sd_task s, tg_git_ref = sd_git_ref s,
                     tg_input = sd_input s, tg_trigger_name = fst entry, tg_concurrency = sd_concurrency s,
                     tg_timezone = (case sd_timezone s of Some z \<Rightarrow> if se_tz_ok env z then Some z else None | None \<Rightarrow> None),
                     tg_timezone_str = sd_timezone s, tg_force_refresh = sd_force_refresh s,
                     tg_definition = se_def_json env (snd entry), tg_last_run = fst kept, tg_next_run = snd kept\<rparr> triggers
          else triggers
      | _ \<Rightarrow> triggers)"

definition load_workspace ::
    "sched_env \<Rightarrow> workspaces_view \<Rightarrow> trigger_state hashmap option \<Rightarrow> trigger_state hashmap \<Rightarrow> string
       \<Rightarrow> trigger_state hashmap" where
  "load_workspace env view previous triggers ws_name =
     (if \<not> wv_triggers_enabled view ws_name then triggers
      else case wv_config view ws_name of
             Some cfg \<Rightarrow> foldl (load_trigger env previous ws_name) triggers (wc_triggers cfg)
           | None \<Rightarrow>
               (case previous of
                  None \<Rightarrow> triggers
                | Some p \<Rightarrow> foldl (\<lambda>m (key, old). obj_insert key old m) triggers
                    (filter (\<lambda>(_, t). tg_workspace t = ws_name) p)))"

definition load_triggers ::
    "sched_env \<Rightarrow> workspaces_view \<Rightarrow> trigger_state hashmap option \<Rightarrow> trigger_state hashmap" where
  "load_triggers env view previous = foldl (load_workspace env view previous) [] (wv_names view)"

section \<open>One pass of the loop\<close>

definition ensure_next :: "sched_env \<Rightarrow> time \<Rightarrow> trigger_state \<Rightarrow> trigger_state" where
  "ensure_next env now t =
     (if tg_next_run t = None
      then t\<lparr>tg_next_run := compute_next_run env (tg_cron_expr t) (tg_last_run t) now (tg_timezone t)\<rparr> else t)"

definition due :: "time \<Rightarrow> trigger_state \<Rightarrow> bool" where
  "due now t = (case tg_next_run t of Some n \<Rightarrow> now \<ge> n | None \<Rightarrow> False)"

text \<open>\<open>clock key\<close> is the time at which the trigger's state is advanced, after it was fired.\<close>

definition scheduler_pass ::
    "sched_env \<Rightarrow> bool \<Rightarrow> time \<Rightarrow> (string \<Rightarrow> time) \<Rightarrow> trigger_state hashmap \<Rightarrow> trigger_state hashmap \<times> string list" where
  "scheduler_pass env is_leader now clock triggers =
     (let ready = map (\<lambda>(key, t). (key, ensure_next env now t)) triggers;
          to_fire = map fst (filter (\<lambda>(key, t). due now t) ready)
      in (map (\<lambda>(key, t). (key, if key \<in> set to_fire then advance_state_after_tick env (clock key) t else t)) ready,
          if is_leader then to_fire else []))"

record pass =
  ps_view :: workspaces_view
  ps_leader :: bool
  ps_now :: time
  ps_clock :: "string \<Rightarrow> time"

text \<open>The loop: reload, pass, reload, pass; the triggers fired in each pass.\<close>

fun run_loop :: "sched_env \<Rightarrow> trigger_state hashmap option \<Rightarrow> pass list \<Rightarrow> string list list" where
  "run_loop env previous [] = []"
| "run_loop env previous (p # ps) =
     (let (triggers, fired) = scheduler_pass env (ps_leader p) (ps_now p) (ps_clock p)
            (load_triggers env (ps_view p) previous)
      in fired # run_loop env (Some triggers) ps)"

section \<open>Keys\<close>

lemma trigger_key_inj:
  assumes "CHR ''/'' \<notin> set ws" "CHR ''/'' \<notin> set ws'" "trigger_key ws n = trigger_key ws' n'"
  shows "ws = ws'" and "n = n'"
proof -
  have t: "takeWhile (\<lambda>c. c \<noteq> CHR ''/'') (trigger_key w m) = w" if "CHR ''/'' \<notin> set w" for w m
    unfolding trigger_key_def by (subst takeWhile_append2) (use that in auto)
  show "ws = ws'" using t [OF assms(1), of n] t [OF assms(2), of n'] assms(3) by simp
  then show "n = n'" using assms(3) by (simp add: trigger_key_def)
qed

text \<open>Every entry stands under its own key, once.\<close>

definition table_ok :: "trigger_state hashmap \<Rightarrow> bool" where
  "table_ok tbl \<longleftrightarrow> sorted_wrt (<) (keys tbl) \<and>
     list_all (\<lambda>e. fst e = trigger_key (tg_workspace (snd e)) (tg_trigger_name (snd e)) \<and>
       CHR ''/'' \<notin> set (tg_workspace (snd e))) tbl"

lemma table_ok_distinct: "table_ok tbl \<Longrightarrow> distinct (keys tbl)"
  by (simp add: table_ok_def strict_sorted_iff)

lemma set_obj_insert: "set (obj_insert k v m) \<subseteq> insert (k, v) (set m)"
  by (induction k v m rule: obj_insert.induct) auto

lemma table_ok_insert:
  assumes "table_ok tbl" and "k = trigger_key (tg_workspace t) (tg_trigger_name t)" and "CHR ''/'' \<notin> set (tg_workspace t)"
  shows "table_ok (obj_insert k t tbl)"
  using assms set_obj_insert [of k t tbl] by (auto simp: table_ok_def sorted_obj_insert list_all_iff)

lemma table_ok_load_trigger:
  "CHR ''/'' \<notin> set ws \<Longrightarrow> table_ok tbl \<Longrightarrow> table_ok (load_trigger env previous ws tbl e)"
  by (auto simp: load_trigger_def Let_def table_ok_insert split: trigger_def.split)

lemma foldl_inv: "P a \<Longrightarrow> (\<And>a x. P a \<Longrightarrow> x \<in> set xs \<Longrightarrow> P (f a x)) \<Longrightarrow> P (foldl f a xs)"
  by (induction xs arbitrary: a) auto

definition slash_free :: "workspaces_view \<Rightarrow> bool" where
  "slash_free view \<longleftrightarrow> distinct (wv_names view) \<and> list_all (\<lambda>n. CHR ''/'' \<notin> set n) (wv_names view)"

lemma table_ok_load:
  assumes "slash_free view" and "\<And>p. previous = Some p \<Longrightarrow> table_ok p"
  shows "table_ok (load_triggers env view previous)"
  unfolding load_triggers_def
proof (rule foldl_inv)
  show "table_ok []" by (simp add: table_ok_def)
  fix tbl ws assume t: "table_ok tbl" and "ws \<in> set (wv_names view)"
  then have ws: "CHR ''/'' \<notin> set ws" using assms(1) by (simp add: slash_free_def list_all_iff)
  have "table_ok (foldl (\<lambda>m (key, old). obj_insert key old m) tbl (filter (\<lambda>(_, t). tg_workspace t = ws) p))"
    if "previous = Some p" for p
  proof (rule foldl_inv [where P = table_ok, OF t])
    fix a x assume "table_ok a" "x \<in> set (filter (\<lambda>(_, t). tg_workspace t = ws) p)"
    then show "table_ok (case x of (key, old) \<Rightarrow> obj_insert key old a)"
      using assms(2) [OF that] by (cases x) (auto simp: table_ok_def [of p] list_all_iff intro!: table_ok_insert)
  qed
  moreover have "table_ok (foldl (load_trigger env previous ws) tbl es)" for es
    by (rule foldl_inv [where P = table_ok, OF t]) (rule table_ok_load_trigger [OF ws])
  ultimately show "table_ok (load_workspace env view previous tbl ws)"
    using t by (auto simp: load_workspace_def split: option.split)
qed

lemma table_ok_pass: "table_ok tbl \<Longrightarrow> table_ok (fst (scheduler_pass env leader now clock tbl))"
  by (auto simp: scheduler_pass_def Let_def table_ok_def comp_def case_prod_beta list_all_iff ensure_next_def
      advance_state_after_tick_def)

section \<open>What a reload keeps\<close>

text \<open>The trigger is in the configuration with this expression and zone, or its workspace is down.\<close>

definition defined_as :: "sched_env \<Rightarrow> workspaces_view \<Rightarrow> string \<Rightarrow> string \<Rightarrow> string \<Rightarrow> string option \<Rightarrow> bool" where
  "defined_as env view ws name cron zone \<longleftrightarrow>
     (\<exists>cfg s. wv_config view ws = Some cfg \<and> distinct (keys (wc_triggers cfg)) \<and>
        map_of (wc_triggers cfg) name = Some (Scheduler s) \<and> sd_enabled s \<and> se_cron_ok env cron \<and>
        sd_cron s = cron \<and> sd_timezone s = zone)"

definition scheduled :: "sched_env \<Rightarrow> workspaces_view \<Rightarrow> string \<Rightarrow> string \<Rightarrow> string \<Rightarrow> string option \<Rightarrow> bool" where
  "scheduled env view ws name cron zone \<longleftrightarrow> slash_free view \<and> ws \<in> set (wv_names view) \<and> wv_triggers_enabled view ws \<and>
     (wv_config view ws = None \<or> defined_as env view ws name cron zone)"

definition zone_of :: "sched_env \<Rightarrow> string option \<Rightarrow> string option" where
  "zone_of env zone = (case zone of Some z \<Rightarrow> if se_tz_ok env z then Some z else None | None \<Rightarrow> None)"

text \<open>What the clock sees of a trigger.\<close>

definition clock_of :: "trigger_state \<Rightarrow> string \<times> string option \<times> string option \<times> time option \<times> time option" where
  "clock_of t = (tg_cron_expr t, tg_timezone t, tg_timezone_str t, tg_last_run t, tg_next_run t)"

lemma load_trigger_other: "key \<noteq> trigger_key ws (fst e) \<Longrightarrow> map_of (load_trigger env previous ws tbl e) key = map_of tbl key"
  by (simp add: load_trigger_def Let_def split: trigger_def.split)

lemma load_workspace_other:
  assumes "CHR ''/'' \<notin> set ws" "CHR ''/'' \<notin> set ws'" "ws' \<noteq> ws" and ok: "\<And>p. previous = Some p \<Longrightarrow> table_ok p"
  shows "map_of (load_workspace env view previous tbl ws') (trigger_key ws name) = map_of tbl (trigger_key ws name)"
proof -
  have ne: "trigger_key ws name \<noteq> trigger_key ws' m" for m using trigger_key_inj(1) [OF assms(1,2)] assms(3) by metis
  have "map_of (foldl (load_trigger env previous ws') tbl es) (trigger_key ws name) = map_of tbl (trigger_key ws name)" for es
    by (induction es arbitrary: tbl) (simp_all add: load_trigger_other [OF ne])
  moreover have "map_of (foldl (\<lambda>m (key, old). obj_insert key old m) tbl (filter (\<lambda>(_, t). tg_workspace t = ws') p))
      (trigger_key ws name) = map_of tbl (trigger_key ws name)" if "previous = Some p" for p
  proof -
    have "\<forall>e \<in> set es. fst e \<noteq> trigger_key ws name \<Longrightarrow>
        map_of (foldl (\<lambda>m (key, old). obj_insert key old m) tbl es) (trigger_key ws name) = map_of tbl (trigger_key ws name)" for es
      by (induction es arbitrary: tbl) auto
    moreover have "fst e \<noteq> trigger_key ws name" if "e \<in> set (filter (\<lambda>(_, t). tg_workspace t = ws') p)" for e
    proof -
      have "e \<in> set p" "tg_workspace (snd e) = ws'" using that by auto
      then have "fst e = trigger_key ws' (tg_trigger_name (snd e))"
        using ok [OF \<open>previous = Some p\<close>] by (auto simp: table_ok_def list_all_iff)
      then show ?thesis using ne by metis
    qed
    ultimately show ?thesis by blast
  qed
  ultimately show ?thesis by (simp add: load_workspace_def split: option.split)
qed

lemma foldl_obj_insert:
  "distinct (keys es) \<Longrightarrow> map_of (foldl (\<lambda>m (key, old). obj_insert key old m) tbl es) k =
     (case map_of es k of Some v \<Rightarrow> Some v | None \<Rightarrow> map_of tbl k)"
proof (induction es arbitrary: tbl)
  case (Cons e es)
  obtain a v where e: "e = (a, v)" by (cases e)
  then have "map_of es a = None" "distinct (keys es)" using Cons.prems by (simp_all add: map_of_eq_None_iff)
  then show ?case using Cons.IH [of "obj_insert a v tbl"] by (simp add: e split: option.split)
qed simp

lemma map_of_filter_snd:
  assumes "distinct (keys p)" and "map_of p k = Some t" and "P t"
  shows "map_of (filter (\<lambda>(_, t). P t) p) k = Some t"
  using assms by (induction p) (auto split: if_splits)

lemma foldl_names:
  assumes "slash_free view" and "ws \<in> set (wv_names view)" and "\<And>p. previous = Some p \<Longrightarrow> table_ok p"
  obtains tbl where "map_of tbl (trigger_key ws name) = None"
    "map_of (load_triggers env view previous) (trigger_key ws name) =
       map_of (load_workspace env view previous tbl ws) (trigger_key ws name)"
proof -
  obtain xs ys where n: "wv_names view = xs @ ws # ys" using assms(2) by (meson split_list)
  have d: "ws \<notin> set xs" "ws \<notin> set ys" "CHR ''/'' \<notin> set ws" "\<forall>w \<in> set xs \<union> set ys. CHR ''/'' \<notin> set w"
    using assms(1) by (auto simp: slash_free_def n list_all_iff)
  have skip: "map_of (foldl (load_workspace env view previous) tbl zs) (trigger_key ws name) = map_of tbl (trigger_key ws name)"
    if "ws \<notin> set zs" "\<forall>w \<in> set zs. CHR ''/'' \<notin> set w" for zs tbl
    using that
  proof (induction zs arbitrary: tbl)
    case (Cons z zs)
    then have "map_of (load_workspace env view previous tbl z) (trigger_key ws name) = map_of tbl (trigger_key ws name)"
      by (intro load_workspace_other [OF d(3) _ _ assms(3)]) auto
    then show ?case using Cons by simp
  qed simp
  let ?tbl = "foldl (load_workspace env view previous) [] xs"
  show ?thesis
  proof (rule that)
    show "map_of ?tbl (trigger_key ws name) = None" using skip d by simp
    show "map_of (load_triggers env view previous) (trigger_key ws name) =
        map_of (load_workspace env view previous ?tbl ws) (trigger_key ws name)"
      using skip d by (simp add: load_triggers_def n)
  qed
qed

lemma load_here:
  assumes "distinct (keys es)" and "map_of es name = Some (Scheduler s)" and "sd_enabled s" and "se_cron_ok env (sd_cron s)"
  shows "map_option clock_of (map_of (foldl (load_trigger env previous ws) tbl es) (trigger_key ws name)) =
    Some (sd_cron s, zone_of env (sd_timezone s), sd_timezone s,
      (case Option.bind previous (\<lambda>p. map_of p (trigger_key ws name)) of
         Some old \<Rightarrow> if tg_cron_expr old = sd_cron s \<and> tg_timezone_str old = sd_timezone s
           then (tg_last_run old, tg_next_run old) else (None, None)
       | None \<Rightarrow> (None, None)))"
  using assms(1,2)
proof (induction es arbitrary: tbl)
  case (Cons e es)
  have other: "map_of (foldl (load_trigger env previous ws) t fs) (trigger_key ws name) = map_of t (trigger_key ws name)"
    if "name \<notin> set (keys fs)" for t fs
    using that by (induction fs arbitrary: t) (auto simp: load_trigger_other trigger_key_def)
  show ?case
  proof (cases "fst e = name")
    case True
    then have e: "snd e = Scheduler s" "name \<notin> set (keys es)" using Cons.prems by (auto split: if_splits)
    have m: "map_of (foldl (load_trigger env previous ws) tbl (e # es)) (trigger_key ws name) =
        map_of (load_trigger env previous ws tbl e) (trigger_key ws name)"
      using other [OF e(2)] by simp
    show ?thesis
      unfolding m using True e(1) assms(3,4) by (simp add: load_trigger_def Let_def clock_of_def zone_of_def)
  next
    case False
    then show ?thesis using Cons by (cases e) simp
  qed
qed simp

text \<open>A reload keeps the clock of a trigger that is still scheduled the same way.\<close>

lemma reload_keeps_clock:
  assumes "scheduled env view ws name cron zone" and "table_ok p"
    and "map_option clock_of (map_of p (trigger_key ws name)) = Some (cron, zone_of env zone, zone, l, n)"
  shows "map_option clock_of (map_of (load_triggers env view (Some p)) (trigger_key ws name)) =
    Some (cron, zone_of env zone, zone, l, n)"
proof -
  let ?k = "trigger_key ws name"
  have v: "slash_free view" "ws \<in> set (wv_names view)" "wv_triggers_enabled view ws"
    using assms(1) by (auto simp: scheduled_def)
  obtain tbl where t: "map_of tbl ?k = None"
      "map_of (load_triggers env view (Some p)) ?k = map_of (load_workspace env view (Some p) tbl ws) ?k"
    using foldl_names [OF v(1,2), of "Some p" name env] assms(2) by auto
  obtain old where old: "map_of p ?k = Some old" "clock_of old = (cron, zone_of env zone, zone, l, n)"
    using assms(3) by auto
  show ?thesis
  proof (cases "wv_config view ws")
    case None
    have "old \<in> snd ` set p" "(?k, old) \<in> set p" using old(1) map_of_SomeD by force+
    then have "?k = trigger_key (tg_workspace old) (tg_trigger_name old)" "CHR ''/'' \<notin> set (tg_workspace old)"
      using assms(2) by (auto simp: table_ok_def list_all_iff)
    moreover have "CHR ''/'' \<notin> set ws" using v(1,2) by (simp add: slash_free_def list_all_iff)
    ultimately have ws: "tg_workspace old = ws" using trigger_key_inj(1) by metis
    have d: "distinct (keys p)" by (rule table_ok_distinct [OF assms(2)])
    then have "distinct (keys (filter (\<lambda>(_, t). tg_workspace t = ws) p))" by (rule distinct_map_filter)
    then have "map_of (load_workspace env view (Some p) tbl ws) ?k = Some old"
      using map_of_filter_snd [OF d old(1), of "\<lambda>t. tg_workspace t = ws"] ws None v(3)
      by (simp add: load_workspace_def foldl_obj_insert)
    then show ?thesis using t(2) old(2) by simp
  next
    case (Some cfg)
    then obtain s where s: "distinct (keys (wc_triggers cfg))" "map_of (wc_triggers cfg) name = Some (Scheduler s)"
        "sd_enabled s" "se_cron_ok env (sd_cron s)" "sd_cron s = cron" "sd_timezone s = zone"
      using assms(1) by (auto simp: scheduled_def defined_as_def)
    show ?thesis
      using load_here [OF s(1-4), where previous = "Some p" and ws = ws and tbl = tbl] old s(5,6) Some v(3)
      unfolding t(2) by (simp add: load_workspace_def clock_of_def)
  qed
qed

lemma first_load_clock:
  assumes "slash_free view" "ws \<in> set (wv_names view)" "wv_triggers_enabled view ws" and "defined_as env view ws name cron zone"
  shows "map_option clock_of (map_of (load_triggers env view None) (trigger_key ws name)) =
    Some (cron, zone_of env zone, zone, None, None)"
proof -
  obtain tbl where t: "map_of (load_triggers env view None) (trigger_key ws name) =
      map_of (load_workspace env view None tbl ws) (trigger_key ws name)"
    using foldl_names [OF assms(1,2), of None name env] by auto
  obtain cfg s where s: "distinct (keys (wc_triggers cfg))" "map_of (wc_triggers cfg) name = Some (Scheduler s)"
      "sd_enabled s" "se_cron_ok env (sd_cron s)" "sd_cron s = cron" "sd_timezone s = zone" "wv_config view ws = Some cfg"
    using assms(4) by (auto simp: defined_as_def)
  show ?thesis
    using load_here [OF s(1-4), where previous = None and ws = ws and tbl = tbl] s(5-7) assms(3)
    unfolding t by (simp add: load_workspace_def)
qed

section \<open>When a trigger fires\<close>

definition cron_law :: "sched_env \<Rightarrow> string \<Rightarrow> string option \<Rightarrow> time set \<Rightarrow> bool" where
  "cron_law env cron zone occ \<longleftrightarrow>
     (\<forall>t. case se_next env cron zone t of
        Some u \<Rightarrow> u \<in> occ \<and> t < u \<and> (\<forall>v \<in> occ. t < v \<longrightarrow> u \<le> v)
      | None \<Rightarrow> \<forall>v \<in> occ. \<not> t < v)"

lemma cron_law_Some:
  assumes "cron_law env cron zone occ" and "se_next env cron zone t = Some u"
  shows "u \<in> occ" and "t < u" and "v \<in> occ \<Longrightarrow> t < v \<Longrightarrow> u \<le> v"
  using assms(1) [unfolded cron_law_def, rule_format, of t] assms(2) by simp_all

lemma cron_law_None:
  assumes "cron_law env cron zone occ" and "se_next env cron zone t = None" and "v \<in> occ"
  shows "v \<le> t"
  using assms(1) [unfolded cron_law_def, rule_format, of t] assms(2,3) by (simp add: not_less)

lemma cron_law_due:
  assumes law: "cron_law env cron zone occ"
  shows "(case se_next env cron zone a of Some n \<Rightarrow> now \<ge> n | None \<Rightarrow> False) \<longleftrightarrow> (\<exists>v \<in> occ. a < v \<and> v \<le> now)"
proof (cases "se_next env cron zone a")
  case None
  then show ?thesis using cron_law_None [OF law None] by fastforce
next
  case (Some u)
  then show ?thesis using cron_law_Some [OF law Some] by fastforce
qed

lemma cron_law_none:
  assumes law: "cron_law env cron zone occ" and "se_next env cron zone a = None" and "a \<le> b"
  shows "se_next env cron zone b = None"
proof (cases "se_next env cron zone b")
  case (Some u)
  then show ?thesis
    using cron_law_Some(1,2) [OF law Some] cron_law_None [OF law assms(2), of u] assms(3) by simp
qed

text \<open>
  The clock of a trigger stands at \<open>since\<close>: occurrences up to it are settled, later ones are not. Before the
  first pass it has not started.
\<close>

definition stands_at :: "sched_env \<Rightarrow> string \<Rightarrow> string option \<Rightarrow> time option \<Rightarrow> time option \<Rightarrow> time option \<Rightarrow> bool" where
  "stands_at env cron zone since l n =
     (case since of
        None \<Rightarrow> l = None \<and> n = None
      | Some a \<Rightarrow> (l = None \<or> l = Some a) \<and> n = se_next env cron zone a)"

lemma map_of_map_entry: "map_of (map (\<lambda>(k, t). (k, f k t)) xs) k = map_option (f k) (map_of xs k)"
  by (induction xs) auto

text \<open>What a pass does to a clock, and when it fires.\<close>

lemma pass_clock:
  assumes "table_ok tbl" and "map_option clock_of (map_of tbl k) = Some (cron, zone, zs, l, n)"
    and law: "cron_law env cron zone occ" and at: "stands_at env cron zone since l n"
    and mono: "\<And>a. since = Some a \<Longrightarrow> a \<le> now"
    and r: "scheduler_pass env leader now clock tbl = (tbl', fired)"
  defines "a \<equiv> (case since of Some a \<Rightarrow> a | None \<Rightarrow> now)"
  defines "d \<equiv> (\<exists>v \<in> occ. a < v \<and> v \<le> now)"
  shows "k \<in> set fired \<longleftrightarrow> leader \<and> d"
    and "\<exists>l' n'. map_option clock_of (map_of tbl' k) = Some (cron, zone, zs, l', n') \<and>
      stands_at env cron zone (Some (if d then clock k else a)) l' n'"
proof -
  obtain t where t: "map_of tbl k = Some t" "clock_of t = (cron, zone, zs, l, n)" using assms(2) by auto
  then have t_sel: "tg_cron_expr t = cron" "tg_timezone t = zone" "tg_timezone_str t = zs" "tg_last_run t = l" "tg_next_run t = n"
    by (simp_all add: clock_of_def)
  let ?t = "ensure_next env now t"
  let ?ready = "map (\<lambda>(key, t). (key, ensure_next env now t)) tbl"
  let ?to_fire = "map fst (filter (\<lambda>(key, t). due now t) ?ready)"
  have e: "?t = t\<lparr>tg_next_run := se_next env cron zone a\<rparr>"
  proof (cases since)
    case None
    then show ?thesis using at t_sel by (simp add: stands_at_def ensure_next_def compute_next_run_def a_def)
  next
    case (Some b)
    then have b: "l = None \<or> l = Some b" "n = se_next env cron zone b" "b \<le> now" "a = b"
      using at mono by (simp_all add: stands_at_def a_def)
    show ?thesis
    proof (cases n)
      case None
      then have "se_next env cron zone now = None" using cron_law_none [OF law] b by metis
      then show ?thesis using None b t_sel by (auto simp: ensure_next_def compute_next_run_def)
    next
      case (Some u)
      then have "ensure_next env now t = t" using t_sel by (simp add: ensure_next_def)
      then show ?thesis using b t_sel Some by (metis trigger_state.surjective trigger_state.update_convs(13))
    qed
  qed
  have d: "due now ?t \<longleftrightarrow> d"
    unfolding due_def e d_def using cron_law_due [OF law, where a = a and now = now] by simp
  have ready: "map_of ?ready k = Some ?t" using t(1) map_of_map_entry [of "\<lambda>_. ensure_next env now" tbl k] by simp
  have dist: "distinct (keys ?ready)"
    using table_ok_distinct [OF assms(1)] by (simp add: comp_def case_prod_beta)
  have k: "k \<in> set ?to_fire \<longleftrightarrow> d"
  proof -
    have "k \<in> set ?to_fire \<longleftrightarrow> (\<exists>x. (k, x) \<in> set ?ready \<and> due now x)" by force
    also have "\<dots> \<longleftrightarrow> due now ?t" using ready dist by (metis map_of_eq_Some_iff option.inject)
    finally show ?thesis using d by simp
  qed
  have f: "fired = (if leader then ?to_fire else [])"
    and tbl': "tbl' = map (\<lambda>(key, t). (key, if key \<in> set ?to_fire then advance_state_after_tick env (clock key) t else t)) ?ready"
    using r by (simp_all add: scheduler_pass_def Let_def)
  show "k \<in> set fired \<longleftrightarrow> leader \<and> d" using f k by auto
  have "map_of tbl' k = map_option (\<lambda>t. if k \<in> set ?to_fire then advance_state_after_tick env (clock k) t else t) (map_of ?ready k)"
    unfolding tbl' by (rule map_of_map_entry)
  then have m: "map_of tbl' k = Some (if d then advance_state_after_tick env (clock k) ?t else ?t)"
    unfolding ready k by simp
  show "\<exists>l' n'. map_option clock_of (map_of tbl' k) = Some (cron, zone, zs, l', n') \<and>
      stands_at env cron zone (Some (if d then clock k else a)) l' n'"
  proof (cases d)
    case True
    then show ?thesis using m t_sel
      by (simp add: e clock_of_def advance_state_after_tick_def compute_next_run_def stands_at_def)
  next
    case False
    have "l = None \<or> l = Some a" using at by (cases since) (simp_all add: stands_at_def a_def)
    then show ?thesis using m t_sel False by (simp add: e clock_of_def stands_at_def)
  qed
qed

text \<open>
  The reference: a trigger fires in a pass of the leader iff an occurrence has come since the clock
  was last set; the clock starts with the first pass and is set to the time after each firing, whoever
  is the leader.
\<close>

fun fires :: "time set \<Rightarrow> time option \<Rightarrow> (bool \<times> time \<times> time) list \<Rightarrow> bool list" where
  "fires occ since [] = []"
| "fires occ since ((leader, now, after) # ps) =
     (let a = (case since of Some a \<Rightarrow> a | None \<Rightarrow> now); d = (\<exists>v \<in> occ. a < v \<and> v \<le> now)
      in (leader \<and> d) # fires occ (Some (if d then after else a)) ps)"

abbreviation pass_times :: "string \<Rightarrow> pass list \<Rightarrow> (bool \<times> time \<times> time) list" where
  "pass_times k ps \<equiv> map (\<lambda>p. (ps_leader p, ps_now p, ps_clock p k)) ps"

definition clock_monotone :: "string \<Rightarrow> pass list \<Rightarrow> bool" where
  "clock_monotone k ps \<longleftrightarrow> sorted (concat (map (\<lambda>p. [ps_now p, ps_clock p k]) ps))"

lemma run_loop_fires:
  assumes "list_all (\<lambda>p. scheduled env (ps_view p) ws name cron zone) ps"
    and "table_ok tbl"
    and "map_option clock_of (map_of tbl (trigger_key ws name)) = Some (cron, zone_of env zone, zone, l, n)"
    and law: "cron_law env cron (zone_of env zone) occ" and "stands_at env cron (zone_of env zone) (Some a) l n"
    and "clock_monotone (trigger_key ws name) ps" and "\<And>p. p \<in> set ps \<Longrightarrow> a \<le> ps_now p"
  shows "map (\<lambda>fired. trigger_key ws name \<in> set fired) (run_loop env (Some tbl) ps) =
    fires occ (Some a) (pass_times (trigger_key ws name) ps)"
  using assms(1-3,5-7)
proof (induction ps arbitrary: tbl l n a)
  case (Cons p ps)
  let ?k = "trigger_key ws name" and ?z = "zone_of env zone"
  let ?tbl = "load_triggers env (ps_view p) (Some tbl)"
  let ?d = "\<exists>v \<in> occ. a < v \<and> v \<le> ps_now p"
  have sch: "scheduled env (ps_view p) ws name cron zone" using Cons.prems(1) by simp
  have ok: "table_ok ?tbl" using sch Cons.prems(2) by (intro table_ok_load) (auto simp: scheduled_def)
  have c: "map_option clock_of (map_of ?tbl ?k) = Some (cron, ?z, zone, l, n)"
    by (rule reload_keeps_clock [OF sch Cons.prems(2,3)])
  obtain tbl' fired where r: "scheduler_pass env (ps_leader p) (ps_now p) (ps_clock p) ?tbl = (tbl', fired)"
    by (cases "scheduler_pass env (ps_leader p) (ps_now p) (ps_clock p) ?tbl")
  have now: "a \<le> ps_now p" using Cons.prems(6) by simp
  have "\<And>b. Some a = Some b \<Longrightarrow> b \<le> ps_now p" using now by simp
  note pass = pass_clock [OF ok c law Cons.prems(4) this r, unfolded option.case]
  obtain l' n' where st: "map_option clock_of (map_of tbl' ?k) = Some (cron, ?z, zone, l', n')"
      "stands_at env cron ?z (Some (if ?d then ps_clock p ?k else a)) l' n'"
    using pass(2) by blast
  have mono: "ps_clock p ?k \<le> ps_now q" "ps_now p \<le> ps_now q" if "q \<in> set ps" for q
    using Cons.prems(5) that by (auto simp: clock_monotone_def)
  have "table_ok tbl'" using table_ok_pass [OF ok, of env "ps_leader p" "ps_now p" "ps_clock p"] r by simp
  moreover have "clock_monotone ?k ps" using Cons.prems(5) by (auto simp: clock_monotone_def)
  moreover have "(if ?d then ps_clock p ?k else a) \<le> ps_now q" if "q \<in> set ps" for q
    using mono [OF that] now by (auto intro: order_trans)
  ultimately have "map (\<lambda>fired. ?k \<in> set fired) (run_loop env (Some tbl') ps) =
      fires occ (Some (if ?d then ps_clock p ?k else a)) (pass_times ?k ps)"
    using Cons.prems(1) by (intro Cons.IH [OF _ _ st]) simp_all
  moreover have "?k \<in> set fired \<longleftrightarrow> ps_leader p \<and> ?d" by (rule pass(1))
  ultimately show ?case by (simp add: r Let_def)
qed simp

text \<open>
  C8. The scheduler fires every occurrence once. Take a trigger that stays configured with the same
  expression and time zone, while configurations are reloaded, its workspace may be unavailable in
  between, other triggers come and go, and leadership changes from pass to pass: it fires in exactly the
  passes of a leader in which an occurrence has come since the clock was last set. It never fires
  twice for one occurrence, never before one, never skips one that came while it led, and a replica that
  becomes leader does not repeat what came before.
\<close>

theorem scheduler_exact:
  assumes "list_all (\<lambda>p. scheduled env (ps_view p) ws name cron zone) (p # ps)"
    and "defined_as env (ps_view p) ws name cron zone" and "cron_law env cron (zone_of env zone) occ"
    and "clock_monotone (trigger_key ws name) (p # ps)"
  shows "map (\<lambda>fired. trigger_key ws name \<in> set fired) (run_loop env None (p # ps)) =
    fires occ None (pass_times (trigger_key ws name) (p # ps))"
proof -
  let ?k = "trigger_key ws name" and ?z = "zone_of env zone"
  let ?tbl = "load_triggers env (ps_view p) None"
  have v: "slash_free (ps_view p)" "ws \<in> set (wv_names (ps_view p))" "wv_triggers_enabled (ps_view p) ws"
    using assms(1) by (auto simp: scheduled_def)
  have ok: "table_ok ?tbl" using v(1) by (intro table_ok_load) simp_all
  have c: "map_option clock_of (map_of ?tbl ?k) = Some (cron, ?z, zone, None, None)"
    by (rule first_load_clock [OF v assms(2)])
  obtain tbl' fired where r: "scheduler_pass env (ps_leader p) (ps_now p) (ps_clock p) ?tbl = (tbl', fired)"
    by (cases "scheduler_pass env (ps_leader p) (ps_now p) (ps_clock p) ?tbl")
  have "stands_at env cron ?z None None None" by (simp add: stands_at_def)
  note pass = pass_clock [OF ok c assms(3) this _ r, unfolded option.case]
  have nd: "\<not> (\<exists>v \<in> occ. ps_now p < v \<and> v \<le> ps_now p)" by auto
  obtain l' n' where st: "map_option clock_of (map_of tbl' ?k) = Some (cron, ?z, zone, l', n')"
      "stands_at env cron ?z (Some (ps_now p)) l' n'"
    using pass(2) nd by (simp only: if_False option.distinct) blast
  have "table_ok tbl'" using table_ok_pass [OF ok, of env "ps_leader p" "ps_now p" "ps_clock p"] r by simp
  then have "map (\<lambda>fired. ?k \<in> set fired) (run_loop env (Some tbl') ps) = fires occ (Some (ps_now p)) (pass_times ?k ps)"
    using assms(1,4) by (intro run_loop_fires [OF _ _ st(1) assms(3) st(2)]) (auto simp: clock_monotone_def)
  moreover have "?k \<notin> set fired" using pass(1) nd by blast
  ultimately show ?thesis by (auto simp: r Let_def)
qed

text \<open>A trigger for every full minute; the workspace is down in the second pass and the third is led by a new leader.\<close>

definition minute_env :: sched_env where
  "minute_env = \<lparr>se_cron_ok = (\<lambda>_. True), se_tz_ok = (\<lambda>_. True), se_next = (\<lambda>_ _ t. Some ((t div 60 + 1) * 60)),
     se_def_json = (\<lambda>_. Null)\<rparr>"

definition minute_def :: scheduler_def where
  "minute_def = \<lparr>sd_cron = ''* * * * *'', sd_task = ''t'', sd_input = [], sd_enabled = True, sd_concurrency = AllowRuns,
     sd_timezone = None, sd_force_refresh = False, sd_git_ref = None\<rparr>"

definition minute_view :: "bool \<Rightarrow> workspaces_view" where
  "minute_view up = \<lparr>wv_names = [''w''], wv_triggers_enabled = (\<lambda>_. True),
     wv_config = (\<lambda>_. if up then Some (empty_config\<lparr>wc_triggers := [(''m'', Scheduler minute_def)]\<rparr>) else None)\<rparr>"

definition minute_pass :: "bool \<Rightarrow> bool \<Rightarrow> time \<Rightarrow> pass" where
  "minute_pass up leader now = \<lparr>ps_view = minute_view up, ps_leader = leader, ps_now = now, ps_clock = (\<lambda>_. now + 1)\<rparr>"

definition minute_passes :: "pass list" where
  "minute_passes = [minute_pass False False 62, minute_pass True True 90, minute_pass True True 121]"

theorem scheduler_exact_witness:
  "map (\<lambda>fired. ''w/m'' \<in> set fired) (run_loop minute_env None (minute_pass True False 30 # minute_passes)) =
     fires {v. 60 dvd v} None (pass_times ''w/m'' (minute_pass True False 30 # minute_passes)) \<and>
   map (\<lambda>fired. ''w/m'' \<in> set fired) (run_loop minute_env None (minute_pass True False 30 # minute_passes)) =
     [False, False, False, True]"
proof -
  have d: "defined_as minute_env (minute_view True) ''w'' ''m'' ''* * * * *'' None"
    by (simp add: defined_as_def minute_view_def minute_def_def minute_env_def)
  then have s: "scheduled minute_env (minute_view up) ''w'' ''m'' ''* * * * *'' None" for up
    by (cases up) (simp_all add: scheduled_def slash_free_def minute_view_def)
  have v: "ps_view (minute_pass up leader now) = minute_view up" for up leader now by (simp add: minute_pass_def)
  have "(t div 60 + 1) * 60 \<le> v" if a: "60 dvd v" and b: "t < v" for t v :: time
  proof -
    obtain k where k: "v = 60 * k" using a by (rule dvdE)
    have "t div 60 < k" using b unfolding k by (simp add: div_less_iff_less_mult mult.commute)
    then show ?thesis unfolding k by simp
  qed
  moreover have "t < (t div 60 + 1) * 60" for t :: time
    using pos_mod_bound [of 60 t] div_mult_mod_eq [of t 60] by (simp add: algebra_simps)
  ultimately have "cron_law minute_env ''* * * * *'' (zone_of minute_env None) {v. 60 dvd v}"
    by (simp add: cron_law_def minute_env_def)
  moreover have "clock_monotone ''w/m'' (minute_pass True False 30 # minute_passes)"
    by (simp add: clock_monotone_def minute_passes_def minute_pass_def)
  moreover have "list_all (\<lambda>p. scheduled minute_env (ps_view p) ''w'' ''m'' ''* * * * *'' None) (minute_pass True False 30 # minute_passes)"
    by (simp add: minute_passes_def v s)
  ultimately have "map (\<lambda>fired. ''w/m'' \<in> set fired) (run_loop minute_env None (minute_pass True False 30 # minute_passes)) =
      fires {v. 60 dvd v} None (pass_times ''w/m'' (minute_pass True False 30 # minute_passes))"
    using scheduler_exact [of minute_env "''w''" "''m''" "''* * * * *''" None "minute_pass True False 30" minute_passes] d
    by (simp only: v trigger_key_def append.simps)
  moreover have "map (\<lambda>fired. ''w/m'' \<in> set fired) (run_loop minute_env None (minute_pass True False 30 # minute_passes)) =
      [False, False, False, True]" by code_simp
  ultimately show ?thesis by blast
qed

end
