(* ===== verification/Templated_Ref.thy ===== *)
theory Templated_Ref
  imports Refs Redaction Db_Rows
begin

text \<open>
  Refs that are rendered from a template (\<^verbatim>\<open>stroem-server/src/templated_ref.rs\<close>) and what they rest on: the
  pins recorded in rows and the errors of loading a pin (\<^verbatim>\<open>workspace/pins.rs\<close>, \<^verbatim>\<open>workspace/mod.rs\<close>), and the
  secret values of a set of workspaces (\<^verbatim>\<open>workspace_set.rs\<close>). A rendered value is private until it passed
  the check against these secrets, so the error of a resolution is classified by its type and never
  quotes the value.

  The pin store (\<^verbatim>\<open>PinStore::ensure\<close>) is git and the file system and an argument: it returns the
  configuration of a workspace at a commit, or one of its typed errors.
\<close>

section \<open>Pins of rows\<close>

definition pin_of_job :: "job_row \<Rightarrow> pin_ref option" where
  "pin_of_job job =
     (case (j_git_ref job, j_revision job) of
        (Some r, Some c) \<Rightarrow> Some \<lparr>pr_git_ref = r, pr_commit = c\<rparr> | _ \<Rightarrow> None)"

definition pin_of_step_action :: "job_step_row \<Rightarrow> pin_ref option" where
  "pin_of_step_action row =
     (case (js_action_ref row, js_action_revision row) of
        (Some r, Some c) \<Rightarrow> Some \<lparr>pr_git_ref = r, pr_commit = c\<rparr> | _ \<Rightarrow> None)"

definition pin_of_step_task :: "job_step_row \<Rightarrow> (string \<times> pin_ref) option" where
  "pin_of_step_task row =
     (case (js_task_workspace row, js_task_ref row, js_task_revision row) of
        (Some ws, Some r, Some c) \<Rightarrow> Some (ws, \<lparr>pr_git_ref = r, pr_commit = c\<rparr>) | _ \<Rightarrow> None)"

section \<open>Errors of a pin\<close>

text \<open>\<^verbatim>\<open>{:#}\<close> prints the whole chain of an error.\<close>

fun chain_text :: "app_error \<Rightarrow> string" where
  "chain_text (Context c e) = c @ '': '' @ chain_text e"
| "chain_text (Tagged b e) = error_text (Tagged b e) @ '': '' @ chain_text e"
| "chain_text (Owner_side_render e) = error_text (Owner_side_render e) @ '': '' @ chain_text e"
| "chain_text e = error_text e"

text \<open>\<^verbatim>\<open>downcast_ref\<close> finds a typed error under any contexts.\<close>

fun error_kind_in :: "app_error \<Rightarrow> error_kind option" where
  "error_kind_in (Typed k _) = Some k"
| "error_kind_in (Context _ e) = error_kind_in e"
| "error_kind_in (Tagged _ e) = error_kind_in e"
| "error_kind_in (Owner_side_render e) = error_kind_in e"
| "error_kind_in _ = None"

fun is_owner_side_render :: "app_error \<Rightarrow> bool" where
  "is_owner_side_render (Owner_side_render _) = True"
| "is_owner_side_render (Context _ e) = is_owner_side_render e"
| "is_owner_side_render (Tagged _ e) = is_owner_side_render e"
| "is_owner_side_render _ = False"

text \<open>The outermost tag counts.\<close>

fun provenance_in :: "app_error \<Rightarrow> provenance_bucket option" where
  "provenance_in (Tagged b _) = Some b"
| "provenance_in (Context _ e) = provenance_in e"
| "provenance_in (Owner_side_render e) = provenance_in e"
| "provenance_in _ = None"

definition short_sha :: "string \<Rightarrow> string" where
  "short_sha commit = (if length commit < 7 then commit else take 7 commit)"

definition pin_label :: "string \<Rightarrow> pin_ref \<Rightarrow> string" where
  "pin_label ws pin = ws @ ''@'' @ pr_git_ref pin @ '' ('' @ short_sha (pr_commit pin) @ '')''"

definition pin_load_withheld :: "string \<Rightarrow> app_error" where
  "pin_load_withheld label =
     Typed Kind_pin_load_withheld (''[pin] '' @ label @ '' cannot be loaded: its configuration does not load'')"

definition cannot_be_loaded :: "string \<Rightarrow> pin_ref \<Rightarrow> app_error \<Rightarrow> string" where
  "cannot_be_loaded ws pin err =
     (if error_kind_in err = Some Kind_pin_load_withheld then error_text err
      else ''[pin] '' @ pin_label ws pin @ '' cannot be loaded: '' @ chain_text err)"

type_synonym ensure = "string \<Rightarrow> string \<Rightarrow> app_error + workspace_config"

definition pin_error_for_user :: "string \<Rightarrow> pin_ref \<Rightarrow> app_error \<Rightarrow> app_error" where
  "pin_error_for_user ws pin err =
     (if error_kind_in err = Some Kind_pin_load_failed then pin_load_withheld (pin_label ws pin) else err)"

definition config_for_user ::
    "ensure \<Rightarrow> (string \<Rightarrow> workspace_config option) \<Rightarrow> string \<Rightarrow> pin_ref option \<Rightarrow> app_error + workspace_config option" where
  "config_for_user ens live ws pin =
     (case pin of
        None \<Rightarrow> Inr (live ws)
      | Some p \<Rightarrow> (case ens ws (pr_commit p) of Inl e \<Rightarrow> Inl (pin_error_for_user ws p e) | Inr cfg \<Rightarrow> Inr (Some cfg)))"

definition pinned_config_private :: "ensure \<Rightarrow> string \<Rightarrow> string \<Rightarrow> app_error + workspace_config" where
  "pinned_config_private ens ws commit =
     (case ens ws commit of
        Inl e \<Rightarrow> Inl (if error_kind_in e = Some Kind_pin_load_failed
                     then pin_load_withheld (ws @ '' ('' @ short_sha commit @ '')'') else e)
      | Inr cfg \<Rightarrow> Inr cfg)"

section \<open>Secret values\<close>

definition connection_secrets :: "workspace_set \<Rightarrow> string \<Rightarrow> connection_def \<Rightarrow> string list" where
  "connection_secrets ws_set ws_name conn =
     (case cd_connection_type conn of
        None \<Rightarrow> []
      | Some declared \<Rightarrow>
          (case canonical_type_ref declared ws_name (workspace_set_lookup ws_set) of
             Inl _ \<Rightarrow> []
           | Inr ct \<Rightarrow>
               (case workspace_set_get ws_set (ct_workspace ct) of
                  Found type_cfg \<Rightarrow>
                    (case map_of (wc_connection_types type_cfg) (ct_name ct) of
                       None \<Rightarrow> []
                     | Some type_def \<Rightarrow>
                         concat (map (\<lambda>(prop, def).
                           if cp_secret def
                           then (case map_of (values_with_type_defaults conn type_def) prop of
                                   Some v \<Rightarrow> collect_strings v | None \<Rightarrow> [])
                           else []) type_def))
                | _ \<Rightarrow> [])))"

definition config_secrets :: "workspace_set \<Rightarrow> string \<times> workspace_config \<Rightarrow> string list" where
  "config_secrets ws_set entry =
     concat (map collect_strings (vals (wc_secrets (snd entry)))) @
     concat (map (connection_secrets ws_set (fst entry)) (vals (wc_connections (snd entry))))"

definition collect_redaction_values :: "workspace_set \<Rightarrow> string list" where
  "collect_redaction_values ws_set =
     remdups (sort (filter (\<lambda>v. 3 < length v) (concat (map (config_secrets ws_set) (iter_configs ws_set)))))"

definition pin_redaction_values ::
    "workspace_config hashmap \<Rightarrow> string list \<Rightarrow> string \<Rightarrow> workspace_config \<Rightarrow> string list" where
  "pin_redaction_values configs known ws cfg =
     collect_redaction_values
       (workspace_set_from_parts ws (Some cfg) (filter (\<lambda>e. fst e \<noteq> ws) configs) known)"

section \<open>The error of a rendered ref\<close>

datatype rendered_ref_kind =
    RInvalid | RSecretValue | RNotFound bool | RNotGit | RNoAction | RAgentAction | RLoadWithheld
  | RUnavailable | RRender | RUnresolvable

record rendered_ref_error =
  rr_kind :: rendered_ref_kind
  rr_workspace :: string
  rr_detail :: "string option"

definition rendered_error :: "rendered_ref_kind \<Rightarrow> string \<Rightarrow> rendered_ref_error" where
  "rendered_error kind ws = \<lparr>rr_kind = kind, rr_workspace = ws, rr_detail = None\<rparr>"

definition from_rejection :: "rendered_ref_rejection \<Rightarrow> string \<Rightarrow> rendered_ref_error" where
  "from_rejection r ws = rendered_error (case r of SecretValue \<Rightarrow> RSecretValue | InvalidRef \<Rightarrow> RInvalid) ws"

definition classify_error :: "app_error \<Rightarrow> rendered_ref_kind" where
  "classify_error err =
     (case error_kind_in err of
        Some Kind_pin_not_git \<Rightarrow> RNotGit
      | Some (Kind_pin_ref_not_found r) \<Rightarrow> RNotFound (short_sha_hint r \<noteq> None)
      | Some Kind_pin_commit_not_found \<Rightarrow> RNotFound False
      | Some Kind_pin_load_failed \<Rightarrow> RLoadWithheld
      | Some Kind_pin_unavailable \<Rightarrow> RUnavailable
      | Some Kind_pin_load_withheld \<Rightarrow> RLoadWithheld
      | Some Kind_ref_not_git \<Rightarrow> RNotGit
      | Some Kind_ref_agent_action \<Rightarrow> RAgentAction
      | Some Kind_ref_other \<Rightarrow> RUnresolvable
      | Some Kind_git_ref \<Rightarrow> RInvalid
      | Some Kind_missing_at_ref \<Rightarrow> RNoAction
      | None \<Rightarrow> RUnresolvable)"

definition rendered_from_error :: "app_error \<Rightarrow> string \<Rightarrow> rendered_ref_error" where
  "rendered_from_error err ws =
     (case template_error_in err of
        Some (m, _) \<Rightarrow> \<lparr>rr_kind = RRender, rr_workspace = ws, rr_detail = Some m\<rparr>
      | None \<Rightarrow> rendered_error (classify_error err) ws)"

definition from_plan_error :: "ref_resolve_error \<Rightarrow> string \<Rightarrow> rendered_ref_error" where
  "from_plan_error err base_ws =
     rendered_from_error (ref_error err) (case err of NotGit ws \<Rightarrow> ws | _ \<Rightarrow> base_ws)"

definition rendered_error_text :: "rendered_ref_error \<Rightarrow> string" where
  "rendered_error_text e =
     (let ws = quote (rr_workspace e) in
      case rr_kind e of
        RInvalid \<Rightarrow> ''the rendered ref is not a valid branch, tag or full commit SHA''
      | RSecretValue \<Rightarrow> ''the rendered ref contains a secret value''
      | RNotFound short \<Rightarrow> ''the rendered ref was not found in workspace '' @ ws @
          (if short then '' (short commit SHAs are not supported; use the full 40-character SHA)'' else [])
      | RNotGit \<Rightarrow> ''workspace '' @ ws @ '' is not a git workspace; `ref` needs a git owner''
      | RNoAction \<Rightarrow> ''workspace '' @ ws @ '' has no such action or task at the rendered ref''
      | RAgentAction \<Rightarrow> ''the action at the rendered ref is an agent action; agent actions cannot be referenced with `ref` yet''
      | RLoadWithheld \<Rightarrow> ''workspace '' @ ws @ '' at the rendered ref cannot be loaded: its configuration does not load''
      | RUnavailable \<Rightarrow> ''workspace '' @ ws @ '' is not available at the rendered ref yet''
      | RRender \<Rightarrow> (case rr_detail e of
            Some d \<Rightarrow> ''the ref template could not be rendered: '' @ d
          | None \<Rightarrow> ''the ref template could not be rendered'')
      | RUnresolvable \<Rightarrow> ''the rendered ref could not be resolved in workspace '' @ ws)"

end
