(* ===== verification/Deferred.thy ===== *)
theory Deferred
  imports Templated_Ref Job_Creation Settle
begin

text \<open>
  The deferred-step pass (\<^verbatim>\<open>stroem-server/src/settlement/deferred.rs\<close>): a step whose \<^verbatim>\<open>ref\<close> is a template waits
  until this pass renders the template, checks the value against the secrets of the job, resolves it to
  one commit per job, owner and ref, checks it against the secrets of that commit, and writes the
  real columns of the step with the code of the job creation.

  \<open>dispatch_env\<close> holds what the pass gets from outside: the clock, random ids, the template engine without
  secrets, the pin store, the other writers of the pin table between two statements, and the fuel of loops.
\<close>

section \<open>Environment\<close>

record dispatch_env =
  dp_creation :: creation_env
  dp_engine :: engine
  dp_ensure :: ensure
  dp_render_ref :: "string \<Rightarrow> json \<Rightarrow> app_error + string"
  dp_schema :: "json \<Rightarrow> string + input_schema"
  dp_snapshots :: "string \<Rightarrow> string \<Rightarrow> string option \<Rightarrow> snapshots"
  dp_attempt :: "nat \<Rightarrow> attempt"
  dp_collate :: "string \<Rightarrow> nat list"
  dp_show_uuid :: "uuid \<Rightarrow> string"
  dp_max_params :: nat
  dp_now :: time
  dp_utc_now :: time
  dp_new_id :: "store \<Rightarrow> uuid"
  dp_fuel :: nat
  dp_lost :: "string \<Rightarrow> bool"
  dp_pin_race :: "nat \<Rightarrow> (uuid \<times> job_ref_pin_row) list \<Rightarrow> (uuid \<times> job_ref_pin_row) list"

definition dp_world :: "dispatch_env \<Rightarrow> ref_world" where
  "dp_world dp = re_world (ce_refs (dp_creation dp))"

definition live_set :: "dispatch_env \<Rightarrow> string \<Rightarrow> workspace_config option \<Rightarrow> workspace_set" where
  "live_set dp ws cfg = workspace_set_from_parts ws cfg (ce_configs (dp_creation dp)) (rw_configured (dp_world dp))"

definition job_ctx_of :: "job_row \<Rightarrow> workspace_config \<Rightarrow> snapshots \<Rightarrow> job_ctx" where
  "job_ctx_of job cfg snaps =
     \<lparr>jc_job_id = j_job_id job, jc_job_input = j_input job, jc_caller_secrets = wc_secrets cfg,
      jc_owner_secrets = wc_secrets cfg, jc_snapshots = snaps, jc_job_revision = j_revision job,
      jc_job_ref = j_git_ref job\<rparr>"

text \<open>
  After a failed step the cascade runs again; its error is only logged. The cascade returns a plan for
  every snapshot with unique names, so the missing result is not met.
\<close>

definition recascade :: "dispatch_env \<Rightarrow> uuid \<Rightarrow> task_def \<Rightarrow> workspace_config \<Rightarrow> snapshots \<Rightarrow> store \<Rightarrow> store" where
  "recascade dp job_id task cfg snaps s =
     (case cascade_and_settle (dp_max_params dp) (dp_attempt dp) (dp_collate dp) (dp_show_uuid dp) (dp_engine dp)
             (dp_now dp) job_id task cfg snaps (st_db s) of
        Some (d, _) \<Rightarrow> s\<lparr>st_db := d\<rparr>
      | None \<Rightarrow> s)"

text \<open>A stretch of work on the tables that an error of the database ends, with what it wrote until then.\<close>

type_synonym 'a run = "store \<times> (string + 'a)"

fun fold_run :: "('b \<Rightarrow> 'a \<Rightarrow> store \<Rightarrow> 'b run) \<Rightarrow> 'a list \<Rightarrow> 'b \<Rightarrow> store \<Rightarrow> 'b run" where
  "fold_run f [] acc s = (s, Inr acc)"
| "fold_run f (x # xs) acc s =
     (case f acc x s of (s', Inl e) \<Rightarrow> (s', Inl e) | (s', Inr acc') \<Rightarrow> fold_run f xs acc' s')"

definition OUT_OF_FUEL :: string where
  "OUT_OF_FUEL = ''out of fuel''"

section \<open>Rounds\<close>

record dispatch_rounds =
  dr_seen :: "string list option"
  dr_repeats :: nat

definition ready_deferred :: "dispatch_env \<Rightarrow> uuid \<Rightarrow> store \<Rightarrow> string list" where
  "ready_deferred dp job_id s = map js_step_name (get_ready_deferred_steps (dp_collate dp) job_id (st_db s))"

definition rounds_start :: "dispatch_env \<Rightarrow> uuid \<Rightarrow> store \<Rightarrow> dispatch_rounds" where
  "rounds_start dp job_id s = \<lparr>dr_seen = Some (ready_deferred dp job_id s), dr_repeats = 0\<rparr>"

definition rounds_single :: dispatch_rounds where
  "rounds_single = \<lparr>dr_seen = None, dr_repeats = 0\<rparr>"

definition absorb_new :: "string list \<Rightarrow> string list \<Rightarrow> string list \<times> bool" where
  "absorb_new seen now =
     foldl (\<lambda>(seen, new) name. if name \<in> set seen then (seen, new) else (name # seen, True)) (seen, False) now"

definition within_bound :: "nat \<Rightarrow> nat \<Rightarrow> bool" where
  "within_bound repeats step_count \<longleftrightarrow> repeats \<le> step_count"

definition rounds_again :: "dispatch_env \<Rightarrow> uuid \<Rightarrow> store \<Rightarrow> dispatch_rounds \<Rightarrow> dispatch_rounds \<times> bool" where
  "rounds_again dp job_id s r =
     (case dr_seen r of
        None \<Rightarrow> (r, False)
      | Some seen \<Rightarrow>
          (let (seen', new) = absorb_new seen (ready_deferred dp job_id s) in
           if \<not> new then (r\<lparr>dr_seen := Some seen'\<rparr>, False)
           else let r' = r\<lparr>dr_seen := Some seen', dr_repeats := dr_repeats r + 1\<rparr>
                in (r', within_bound (dr_repeats r')
                          (length (get_steps_for_job (dp_collate dp) job_id (st_db s))))))"

section \<open>The commit of a rendered ref\<close>

definition job_pins :: "dispatch_env \<Rightarrow> job_row \<Rightarrow> store \<Rightarrow> (string \<times> string) list" where
  "job_pins dp job s =
     remdups (sort_key fst (sort_key snd
       ((case pin_of_job job of Some p \<Rightarrow> [(j_workspace job, pr_commit p)] | None \<Rightarrow> []) @
        map (\<lambda>r. (jp_workspace r, jp_commit r)) (pins_for_job (dp_collate dp) (j_job_id job) (st_ref_pins s)))))"

definition add_pin_secrets ::
    "dispatch_env \<Rightarrow> string list \<Rightarrow> string \<times> string \<Rightarrow> rendered_ref_error + string list" where
  "add_pin_secrets dp values pin =
     (case pinned_config_private (dp_ensure dp) (fst pin) (snd pin) of
        Inl e \<Rightarrow> Inl (rendered_from_error e (fst pin))
      | Inr cfg \<Rightarrow> Inr (values @ pin_redaction_values (ce_configs (dp_creation dp)) (rw_configured (dp_world dp)) (fst pin) cfg))"

definition ref_secret_set :: "dispatch_env \<Rightarrow> job_row \<Rightarrow> store \<Rightarrow> rendered_ref_error + string list" where
  "ref_secret_set dp job s =
     fold_result (add_pin_secrets dp) (job_pins dp job s)
       (collect_redaction_values (live_set dp (j_workspace job) None))"

text \<open>
  The commit is loaded, checked, and then written to the memo, first writer wins; if another writer
  was faster its commit is taken instead, at most three times. \<open>dp_pin_race\<close> is what others write before
  each insert.
\<close>

fun commit_loop ::
    "dispatch_env \<Rightarrow> uuid \<Rightarrow> string \<Rightarrow> string \<Rightarrow> nat \<Rightarrow> string \<Rightarrow> store \<Rightarrow> store \<times> (rendered_ref_error + pin_ref)" where
  "commit_loop dp job_id owner v 0 commit s = (s, Inl (rendered_error RUnresolvable owner))"
| "commit_loop dp job_id owner v (Suc n) commit s =
     (case pinned_config_private (dp_ensure dp) owner commit of
        Inl e \<Rightarrow> (s, Inl (rendered_from_error e owner))
      | Inr cfg \<Rightarrow>
          (case check_rendered_ref v (pin_redaction_values (ce_configs (dp_creation dp)) (rw_configured (dp_world dp)) owner cfg) of
             Inl r \<Rightarrow> (s, Inl (from_rejection r owner))
           | Inr _ \<Rightarrow>
               (case insert_first_wins job_id owner v commit (dp_pin_race dp n (st_ref_pins s)) of
                  (t, None) \<Rightarrow> (s\<lparr>st_ref_pins := t\<rparr>, Inl (rendered_error RUnresolvable owner))
                | (t, Some stored) \<Rightarrow>
                    (let s' = s\<lparr>st_ref_pins := t\<rparr> in
                     if stored = commit then (s', Inr \<lparr>pr_git_ref = v, pr_commit = commit\<rparr>)
                     else commit_loop dp job_id owner v n stored s'))))"

text \<open>The number of recorded pins stands for the time at which the pin store is asked.\<close>

definition select_commit ::
    "dispatch_env \<Rightarrow> uuid \<Rightarrow> string \<Rightarrow> string \<Rightarrow> store \<Rightarrow> store \<times> (rendered_ref_error + pin_ref)" where
  "select_commit dp job_id owner v s =
     (case (case pin_get job_id owner v (st_ref_pins s) of
              Some c \<Rightarrow> Inr c
            | None \<Rightarrow> map_sum id pr_commit (re_resolve (ce_refs (dp_creation dp)) (length (st_ref_pins s)) owner v)) of
        Inl e \<Rightarrow> (s, Inl (rendered_from_error e owner))
      | Inr commit \<Rightarrow> commit_loop dp job_id owner v 3 commit s)"

section \<open>The row of a deferred step\<close>

definition insert_entry ::
    "uuid \<Rightarrow> (uuid \<times> job_ref_pin_row) list \<times> bool \<Rightarrow> job_ref_pin_row \<Rightarrow> (uuid \<times> job_ref_pin_row) list \<times> bool" where
  "insert_entry job_id acc entry =
     (let (t, stored) = insert_first_wins job_id (jp_workspace entry) (jp_git_ref entry) (jp_commit entry) (fst acc)
      in (t, snd acc \<and> stored = Some (jp_commit entry)))"

definition deferred_ctx ::
    "dispatch_env \<Rightarrow> workspace_config \<Rightarrow> string \<Rightarrow> job_row \<Rightarrow> job_defaults \<Rightarrow> step_row_ctx" where
  "deferred_ctx dp cfg ws job defaults =
     \<lparr>sx_job_id = j_job_id job, sx_workspace_name = ws, sx_workspace_config = cfg, sx_task_name = j_task_name job,
      sx_job_pin = pin_of_job job, sx_ws_set = workspace_set_lookup (live_set dp ws (Some cfg)), sx_defaults = defaults\<rparr>"

fun build_row ::
    "dispatch_env \<Rightarrow> step_row_ctx \<Rightarrow> nat \<Rightarrow> string \<Rightarrow> flow_step \<Rightarrow> string option \<Rightarrow> string \<Rightarrow> string \<Rightarrow> store
       \<Rightarrow> store \<times> (rendered_ref_error + new_job_step)" where
  "build_row dp ctx 0 step_name written v owner action_name s = (s, Inl (rendered_error RUnresolvable owner))"
| "build_row dp ctx (Suc n) step_name written v owner action_name s =
     (case resolve_step_row (dp_creation dp) ctx step_name written Ready v
             \<lparr>rf_memo = memo_from_rows (pins_for_job (dp_collate dp) (sx_job_id ctx) (st_ref_pins s)),
              rf_calls = length (st_ref_pins s)\<rparr> of
        Inl e \<Rightarrow> (s, Inl (rendered_from_error e owner))
      | Inr (row, st) \<Rightarrow>
          if (case ns_action_workspace row of Some w \<Rightarrow> w | None \<Rightarrow> sx_workspace_name ctx) \<noteq> owner \<or>
             ns_action_name row \<noteq> action_name
          then (s, Inl (rendered_error RUnresolvable owner))
          else let (t, agreed) = foldl (insert_entry (sx_job_id ctx)) (dp_pin_race dp n (st_ref_pins s), True)
                     (memo_entries (rf_memo st));
                   s' = s\<lparr>st_ref_pins := t\<rparr>
               in if agreed then (s', Inr row)
                  else build_row dp ctx n step_name written v owner action_name s')"

definition written_action :: "string \<Rightarrow> string \<Rightarrow> string \<Rightarrow> string" where
  "written_action owner workspace_name action_name =
     (if owner = workspace_name \<and> CHR ''.'' \<notin> set action_name then action_name else owner @ ''.'' @ action_name)"

definition resolve_one ::
    "dispatch_env \<Rightarrow> workspace_config \<Rightarrow> string \<Rightarrow> job_row \<Rightarrow> job_step_row list \<Rightarrow> job_step_row \<Rightarrow> task_def \<Rightarrow> job_defaults
       \<Rightarrow> snapshots \<Rightarrow> store \<Rightarrow> store \<times> (rendered_ref_error + new_job_step)" where
  "resolve_one dp cfg ws job rows row task defaults snaps s =
     (let owner = (case js_action_workspace row of Some w \<Rightarrow> w | None \<Rightarrow> ws);
          flow_key = (case js_loop_source row of Some k \<Rightarrow> k | None \<Rightarrow> js_step_name row)
      in case (js_ref_template row, map_of (td_flow task) flow_key) of
           (Some template, Some fs) \<Rightarrow>
             (let ctx = build (job_ctx_of job cfg snaps) (views rows) (loop_slot_of row) StepRef;
                  written = fs\<lparr>fs_action := written_action owner ws (js_action_name row)\<rparr>;
                  sctx = deferred_ctx dp cfg ws job defaults
              in case dp_render_ref dp template (rx_value ctx) of
                   Inl e \<Rightarrow> (s, Inl (rendered_from_error e owner))
                 | Inr text \<Rightarrow>
                     (case rendered_ref_value text of
                        None \<Rightarrow> build_row dp sctx 3 (js_step_name row) (written\<lparr>fs_git_ref := None\<rparr>) None owner
                                  (js_action_name row) s
                      | Some rendered \<Rightarrow>
                          (case ref_secret_set dp job s of
                             Inl e \<Rightarrow> (s, Inl e)
                           | Inr secrets \<Rightarrow>
                               (case check_rendered_ref rendered secrets of
                                  Inl r \<Rightarrow> (s, Inl (from_rejection r owner))
                                | Inr v \<Rightarrow>
                                    (case select_commit dp (j_job_id job) owner v s of
                                       (s', Inl e) \<Rightarrow> (s', Inl e)
                                     | (s', Inr _) \<Rightarrow>
                                         build_row dp sctx 3 (js_step_name row) written (Some v) owner
                                           (js_action_name row) s')))))
         | _ \<Rightarrow> (s, Inl (rendered_error RUnresolvable owner)))"

section \<open>The pass\<close>

definition DEFERRED_LEASE_SECS :: int where
  "DEFERRED_LEASE_SECS = 60"

text \<open>
  The renewal of the lease runs beside the resolution; \<open>dp_lost\<close> says whether it found the lease taken
  over. The writes are fenced by the token either way.
\<close>

definition resolve_leased ::
    "dispatch_env \<Rightarrow> workspace_config \<Rightarrow> string \<Rightarrow> job_row \<Rightarrow> job_step_row list \<Rightarrow> task_def \<Rightarrow> job_defaults \<Rightarrow> snapshots
       \<Rightarrow> uuid \<Rightarrow> job_step_row \<Rightarrow> store \<Rightarrow> bool run" where
  "resolve_leased dp cfg ws job rows task defaults snaps token row s =
     (case resolve_one dp cfg ws job rows row task defaults snaps s of
        (s', res) \<Rightarrow>
          if dp_lost dp (js_step_name row) then (s', Inr False)
          else (case res of
                  Inr new \<Rightarrow>
                    (case resolve_deferred_tx (dp_now dp) (j_job_id job) (js_step_name row) token new (st_db s') of
                       Inl e \<Rightarrow> (s', Inl e)
                     | Inr (d, _) \<Rightarrow> (s'\<lparr>st_db := d\<rparr>, Inr False))
                | Inl err \<Rightarrow>
                    (case fail_deferred_tx (dp_now dp) (j_job_id job) (js_step_name row) token
                            (''[ref] step '' @ quote (js_step_name row) @ '': '' @ rendered_error_text err) (st_db s') of
                       (d, out) \<Rightarrow>
                         if out = Applied
                         then (recascade dp (j_job_id job) task cfg snaps (s'\<lparr>st_db := d\<rparr>), Inr True)
                         else (s'\<lparr>st_db := d\<rparr>, Inr False))))"

definition resolve_step ::
    "dispatch_env \<Rightarrow> workspace_config \<Rightarrow> string \<Rightarrow> job_row \<Rightarrow> job_step_row list \<Rightarrow> task_def \<Rightarrow> job_defaults \<Rightarrow> snapshots
       \<Rightarrow> bool \<Rightarrow> job_step_row \<Rightarrow> store \<Rightarrow> bool run" where
  "resolve_step dp cfg ws job rows task defaults snaps failed_any row s =
     (let token = dp_new_id dp s in
      case take_resolve_lease (dp_now dp) (j_job_id job) (js_step_name row) token (seconds DEFERRED_LEASE_SECS) (st_db s) of
        (d, taken) \<Rightarrow>
          if \<not> taken then (s\<lparr>st_db := d\<rparr>, Inr failed_any)
          else (case resolve_leased dp cfg ws job rows task defaults snaps token row (s\<lparr>st_db := d\<rparr>) of
                  (s', Inl e) \<Rightarrow> (s', Inl e)
                | (s', Inr failed) \<Rightarrow> (s', Inr (failed_any \<or> failed))))"

text \<open>Whether a step was failed, and the number of steps the pass saw.\<close>

definition resolve_pass ::
    "dispatch_env \<Rightarrow> workspace_config \<Rightarrow> string \<Rightarrow> uuid \<Rightarrow> task_def \<Rightarrow> job_defaults \<Rightarrow> snapshots \<Rightarrow> store
       \<Rightarrow> (bool \<times> nat) run" where
  "resolve_pass dp cfg ws job_id task defaults snaps s =
     (let deferred = get_ready_deferred_steps (dp_collate dp) job_id (st_db s) in
      if deferred = [] then (s, Inr (False, 0))
      else case job_get job_id (st_db s) of
             None \<Rightarrow> (s, Inr (False, 0))
           | Some job \<Rightarrow>
               (let rows = get_steps_for_job (dp_collate dp) job_id (st_db s) in
                case fold_run (resolve_step dp cfg ws job rows task defaults snaps) deferred False s of
                  (s', Inl e) \<Rightarrow> (s', Inl e)
                | (s', Inr failed) \<Rightarrow> (s', Inr (failed, length rows))))"

text \<open>
  The loop is bounded by the number of steps of the job, which is read again in every pass; the model
  takes fuel for it and returns an error when it runs out.
\<close>

fun resolve_deferred_steps ::
    "nat \<Rightarrow> nat \<Rightarrow> dispatch_env \<Rightarrow> workspace_config \<Rightarrow> string \<Rightarrow> uuid \<Rightarrow> task_def \<Rightarrow> job_defaults \<Rightarrow> snapshots \<Rightarrow> store
       \<Rightarrow> unit run" where
  "resolve_deferred_steps 0 passes dp cfg ws job_id task defaults snaps s = (s, Inl OUT_OF_FUEL)"
| "resolve_deferred_steps (Suc fuel) passes dp cfg ws job_id task defaults snaps s =
     (case resolve_pass dp cfg ws job_id task defaults snaps s of
        (s', Inl e) \<Rightarrow> (s', Inl e)
      | (s', Inr (failed_any, step_count)) \<Rightarrow>
          if \<not> failed_any \<or> Suc passes > step_count then (s', Inr ())
          else resolve_deferred_steps fuel (Suc passes) dp cfg ws job_id task defaults snaps s')"

end
