(* ===== verification/Dispatch.thy ===== *)
theory Dispatch
  imports Deferred
begin

text \<open>
  Steps the server runs itself (\<^verbatim>\<open>stroem-server/src/settlement/dispatch.rs\<close>): \<^verbatim>\<open>type: task\<close> steps get a child job,
  \<^verbatim>\<open>type: approval\<close> steps are suspended with their message, and \<open>init\<close> is what a new job owes after its
  commit: the first cascade and the rounds of deferred, task and approval steps. A task step of the new
  job creates a child job, whose creation runs \<open>init\<close> in turn; the nesting is bounded by \<^verbatim>\<open>MAX_TASK_DEPTH\<close>.

  The creation of a child is the argument \<open>create\<close> of the pass; \<open>create_job\<close> ties the knot with the nesting
  as fuel.
\<close>

section \<open>Failing a step\<close>

definition stamp_cols :: "(string \<times> pin_ref) option \<Rightarrow> (string \<times> string \<times> string) option" where
  "stamp_cols stamp = map_option (\<lambda>(ws, pin). (ws, pr_git_ref pin, pr_commit pin)) stamp"

definition withheld_owner_render_error :: "string \<Rightarrow> string \<Rightarrow> string" where
  "withheld_owner_render_error step_name owner =
     ''Failed to prepare input for task step '' @ quote step_name @ '': rendering in workspace '' @ quote owner @
     '' failed (details withheld from this job; see the server log or validate the owner workspace)''"

text \<open>What is stored of an error: the override, or the text without the secrets.\<close>

definition persisted_error ::
    "dispatch_env \<Rightarrow> workspace_config \<Rightarrow> string list \<Rightarrow> string option \<Rightarrow> string \<Rightarrow> string" where
  "persisted_error dp cfg extra withheld err =
     (case withheld of
        Some w \<Rightarrow> w
      | None \<Rightarrow> redact_secrets_in_str (eng_json_escape (dp_engine dp)) (eng_debug_escape (dp_engine dp)) err
          (collect_config_secret_values (wc_secrets cfg) @ extra))"

definition fail_task_step ::
    "dispatch_env \<Rightarrow> uuid \<Rightarrow> string \<Rightarrow> string \<Rightarrow> task_def \<Rightarrow> workspace_config \<Rightarrow> snapshots \<Rightarrow> string list \<Rightarrow> string option
       \<Rightarrow> (step_status \<times> (string \<times> string \<times> string) option) option \<Rightarrow> store \<Rightarrow> store \<times> bool" where
  "fail_task_step dp job_id step_name err task cfg snaps extra withheld expected s =
     (let msg = persisted_error dp cfg extra withheld err;
          (d, applied) = (case expected of
              Some (status, pin) \<Rightarrow> fail_task_dispatch (dp_now dp) job_id step_name msg status pin (st_db s)
            | None \<Rightarrow> (mark_failed (dp_now dp) job_id step_name msg (st_db s), True))
      in if \<not> applied then (s\<lparr>st_db := d\<rparr>, False)
         else (recascade dp job_id task cfg snaps (s\<lparr>st_db := d\<rparr>), True))"

section \<open>The task of a step\<close>

definition load_step_pin :: "dispatch_env \<Rightarrow> string \<Rightarrow> pin_ref \<Rightarrow> string + workspace_config" where
  "load_step_pin dp ws pin =
     (case config_for_user (dp_ensure dp) (re_live (ce_refs (dp_creation dp))) ws (Some pin) of
        Inr (Some cfg) \<Rightarrow> Inr cfg
      | Inr None \<Rightarrow> Inl (cannot_be_loaded ws pin (Msg (''workspace '' @ quote ws @ '' is not available'')))
      | Inl e \<Rightarrow> Inl (cannot_be_loaded ws pin e))"

definition resolve_stamped_task :: "dispatch_env \<Rightarrow> string \<Rightarrow> pin_ref \<Rightarrow> string \<Rightarrow> app_error + resolved_task" where
  "resolve_stamped_task dp t_ws pin task_ref =
     (case load_step_pin dp t_ws pin of
        Inl e \<Rightarrow> Inl (Msg e)
      | Inr cfg \<Rightarrow>
          map_sum id (\<lambda>(name, t). \<lparr>rk_workspace = t_ws, rk_task_name = name, rk_task = t, rk_config = Some cfg\<rparr>)
            (task_at t_ws cfg task_ref (pr_git_ref pin)))"

datatype templated_task_ref =
    Stamped string pin_ref
  | NoRef
  | MovedOn
  | FailedRef string "string option"

definition ref_failure :: "string \<Rightarrow> rendered_ref_error \<Rightarrow> templated_task_ref" where
  "ref_failure step_name e = FailedRef (''[ref] step '' @ quote step_name @ '': '' @ rendered_error_text e) None"

definition self_reference :: "string \<Rightarrow> string \<Rightarrow> job_row \<Rightarrow> templated_task_ref" where
  "self_reference step_name task_ref job =
     FailedRef (''[ref] step '' @ quote step_name @ '': task '' @ quote task_ref @ '' is a self-reference to '' @
       quote (j_workspace job @ ''/'' @ j_task_name job) @ '' (invalid)'') None"

definition stamp_step :: "uuid \<Rightarrow> string \<Rightarrow> string \<Rightarrow> pin_ref \<Rightarrow> store \<Rightarrow> store \<times> templated_task_ref" where
  "stamp_step job_id step_name owner pin s =
     (let (d, wrote) = stamp_task_pin job_id step_name owner (pr_git_ref pin) (pr_commit pin) (st_db s)
      in (s\<lparr>st_db := d\<rparr>, if wrote then Stamped owner pin else MovedOn))"

definition no_ref_task ::
    "dispatch_env \<Rightarrow> job_row \<Rightarrow> job_step_row \<Rightarrow> string \<Rightarrow> string \<Rightarrow> workspace_config \<Rightarrow> store \<Rightarrow> store \<times> templated_task_ref" where
  "no_ref_task dp job row task_ref base_ws base_cfg s =
     (let base_pin = (case (pin_of_step_action row, js_action_workspace row) of
            (Some p, _) \<Rightarrow> Some p | (None, None) \<Rightarrow> pin_of_job job | (None, Some _) \<Rightarrow> None)
      in case resolve_task_for_step (ce_refs (dp_creation dp)) base_ws base_cfg base_pin task_ref None
                \<lparr>rf_memo = [], rf_calls = length (st_ref_pins s)\<rparr> of
           Inl e \<Rightarrow> (s, FailedRef (''Failed to resolve task for step '' @ quote (js_step_name row) @ '': '' @ chain_text e) None)
         | Inr ((resolved, pin), _) \<Rightarrow>
             if rk_workspace resolved = j_workspace job \<and> rk_task_name resolved = j_task_name job \<and> pin = pin_of_job job
             then (s, self_reference (js_step_name row) task_ref job)
             else (case pin of
                     None \<Rightarrow> (s, NoRef)
                   | Some p \<Rightarrow> stamp_step (j_job_id job) (js_step_name row) (rk_workspace resolved) p s))"

definition object_map :: "json option \<Rightarrow> json hashmap" where
  "object_map v = (case Option.bind v as_object of Some m \<Rightarrow> m | None \<Rightarrow> [])"

definition resolve_templated_task_ref ::
    "dispatch_env \<Rightarrow> job_row \<Rightarrow> job_ctx \<Rightarrow> json \<Rightarrow> job_step_row \<Rightarrow> string \<Rightarrow> string \<Rightarrow> string \<Rightarrow> workspace_config \<Rightarrow> string
       \<Rightarrow> store \<Rightarrow> store \<times> templated_task_ref" where
  "resolve_templated_task_ref dp job jctx input_ctx row template task_ref base_ws base_cfg ws s =
     (case render_ref_projection (ce_tera (dp_creation dp)) (object_map (js_input row)) input_ctx of
        Inl e \<Rightarrow> (s, FailedRef (''Failed to render input for task step '' @ quote (js_step_name row) @ '' (ref input): '' @
                       chain_text e) None)
      | Inr ref_input \<Rightarrow>
     (case dp_render_ref dp template (rx_value (build jctx [] None (TaskActionRef ref_input))) of
        Inl e \<Rightarrow> (s, FailedRef (''[ref] step '' @ quote (js_step_name row) @ '': '' @
                       rendered_error_text (rendered_from_error e base_ws))
                     (if base_ws \<noteq> ws then Some (withheld_owner_render_error (js_step_name row) base_ws) else None))
      | Inr text \<Rightarrow>
     (case plan_reference base_ws None task_ref (Some template) (dp_world dp) of
        Inl e \<Rightarrow> (s, ref_failure (js_step_name row) (from_plan_error e base_ws))
      | Inr (Today _) \<Rightarrow> (s, MovedOn)
      | Inr (AtRef tgt _) \<Rightarrow>
     (case rendered_ref_value text of
        None \<Rightarrow> no_ref_task dp job row task_ref base_ws base_cfg s
      | Some rendered \<Rightarrow>
     (case ref_secret_set dp job s of
        Inl e \<Rightarrow> (s, ref_failure (js_step_name row) e)
      | Inr secrets \<Rightarrow>
     (case check_rendered_ref rendered secrets of
        Inl r \<Rightarrow> (s, ref_failure (js_step_name row) (from_rejection r (rt_owner tgt)))
      | Inr v \<Rightarrow>
     (case select_commit dp (j_job_id job) (rt_owner tgt) v s of
        (s1, Inl e) \<Rightarrow> (s1, ref_failure (js_step_name row) e)
      | (s1, Inr pin) \<Rightarrow>
          if rt_owner tgt = j_workspace job \<and> rt_local_name tgt = j_task_name job \<and> pin_of_job job = Some pin
          then (s1, self_reference (js_step_name row) task_ref job)
          else (case pinned_config_private (dp_ensure dp) (rt_owner tgt) (pr_commit pin) of
                  Inl e \<Rightarrow> (s1, ref_failure (js_step_name row) (rendered_from_error e (rt_owner tgt)))
                | Inr cfg \<Rightarrow>
                    if \<not> contains_key (wc_tasks cfg) (rt_local_name tgt)
                    then (s1, ref_failure (js_step_name row) (rendered_error RNoAction (rt_owner tgt)))
                    else stamp_step (j_job_id job) (js_step_name row) (rt_owner tgt) pin s1))))))))"

text \<open>The case \<^const>\<open>Today\<close> is unreachable: a ref is given.\<close>

section \<open>Preparing a task step\<close>

record step_failure =
  sf_message :: string
  sf_scrub :: "string list"
  sf_withheld :: "string option"

record task_call =
  tk_resolved :: resolved_task
  tk_config :: workspace_config
  tk_base_ws :: string
  tk_caller :: json
  tk_input :: json
  tk_scrub :: "string list"

datatype prepared_step =
    PrepFailed step_failure
  | PrepMoved
  | PrepReady task_call

definition plain_failure :: "string list \<Rightarrow> string \<Rightarrow> prepared_step" where
  "plain_failure scrub msg = PrepFailed \<lparr>sf_message = msg, sf_scrub = scrub, sf_withheld = None\<rparr>"

text \<open>The owner of the action and its configuration.\<close>

definition base_config :: "dispatch_env \<Rightarrow> workspace_config \<Rightarrow> string \<Rightarrow> job_step_row \<Rightarrow> string + workspace_config" where
  "base_config dp cfg ws row =
     (let base_ws = (case js_action_workspace row of Some w \<Rightarrow> w | None \<Rightarrow> ws);
          owner_of = '' (owner of action '' @ quote (js_action_name row) @ '')''
      in case pin_of_step_action row of
           Some pin \<Rightarrow> (case load_step_pin dp base_ws pin of Inl line \<Rightarrow> Inl (line @ owner_of) | Inr c \<Rightarrow> Inr c)
         | None \<Rightarrow>
             if base_ws = ws then Inr cfg
             else (case re_live (ce_refs (dp_creation dp)) base_ws of
                     Some c \<Rightarrow> Inr c
                   | None \<Rightarrow> Inl (''workspace '' @ quote base_ws @ '' is not available'' @ owner_of)))"

definition templated_action_ref :: "json \<Rightarrow> string option" where
  "templated_action_ref spec =
     (case json_get spec ''ref'' of
        Some (String r) \<Rightarrow> if classify_ref r = TemplateRef then Some r else None
      | _ \<Rightarrow> None)"

definition action_schema_of :: "dispatch_env \<Rightarrow> json \<Rightarrow> string + input_schema" where
  "action_schema_of dp spec =
     (case json_get spec ''input'' of Some v \<Rightarrow> if v = Null then Inr [] else dp_schema dp v | None \<Rightarrow> Inr [])"

text \<open>The keys the defaults add to what the caller gave.\<close>

definition default_bucket :: "dispatch_env \<Rightarrow> json \<Rightarrow> input_schema \<Rightarrow> workspace_config \<Rightarrow> app_error + json" where
  "default_bucket dp caller schema base_cfg =
     (if schema = [] then Inr (Object [])
      else map_sum id (\<lambda>merged. Object (filter (\<lambda>e. \<not> contains_key (object_map (Some caller)) (fst e)) (object_map (Some merged))))
             (merge_action_defaults (ce_tera (dp_creation dp)) caller schema (secrets_context base_cfg)))"

text \<open>From the resolved task to the input of the child job.\<close>

definition prepare_call ::
    "dispatch_env \<Rightarrow> workspace_config \<Rightarrow> string \<Rightarrow> json \<Rightarrow> snapshots \<Rightarrow> job_step_row \<Rightarrow> json \<Rightarrow> string \<Rightarrow> workspace_config
       \<Rightarrow> resolved_task \<Rightarrow> prepared_step" where
  "prepare_call dp cfg ws input_ctx snaps row spec base_ws base_cfg resolved =
     (let name = quote (js_step_name row);
          t_cfg = (case rk_config resolved of Some c \<Rightarrow> c | None \<Rightarrow> base_cfg);
          scrub = collect_config_secret_values (wc_secrets base_cfg) @ collect_config_secret_values (wc_secrets t_cfg);
          withheld = (if base_ws \<noteq> ws then Some (withheld_owner_render_error (js_step_name row) base_ws) else None);
          input = object_map (js_input row)
      in case (if input = [] then Inr (Object [])
               else render_input_typed_with_files (ce_tera (dp_creation dp)) input (Some (td_input (rk_task resolved)))
                      input_ctx (ss_files snaps)) of
           Inl e \<Rightarrow> plain_failure scrub (''Failed to render input for task step '' @ name @ '': '' @ chain_text e)
         | Inr caller \<Rightarrow>
        (case action_schema_of dp spec of
           Inl e \<Rightarrow> plain_failure scrub (''step '' @ name @ '': action_spec.input is not an input schema: '' @ e)
         | Inr schema \<Rightarrow>
        (case default_bucket dp caller schema base_cfg of
           Inl e \<Rightarrow> PrepFailed \<lparr>sf_message = ''Failed to prepare action input for task step '' @ name @ '': '' @ chain_text e,
                      sf_scrub = scrub, sf_withheld = withheld\<rparr>
         | Inr defaults \<Rightarrow>
        (case resolve_task_input_by_provenance_roles caller defaults (td_input (rk_task resolved))
                \<lparr>sc_caller = \<lparr>ro_workspace = ws, ro_config = cfg\<rparr>,
                 sc_action_owner = Some \<lparr>ro_workspace = base_ws, ro_config = base_cfg\<rparr>,
                 sc_task_owner = Some \<lparr>ro_workspace = rk_workspace resolved, ro_config = t_cfg\<rparr>,
                 sc_others = workspace_set_lookup (live_set dp (rk_workspace resolved) (Some t_cfg))\<rparr> of
           Inl e \<Rightarrow> PrepFailed \<lparr>sf_message = ''Failed to resolve connection inputs for task step '' @ name @ '': '' @ chain_text e,
                      sf_scrub = scrub,
                      sf_withheld = (if provenance_in e = Some ActionDefaultBucket then withheld else None)\<rparr>
         | Inr merged \<Rightarrow>
             PrepReady \<lparr>tk_resolved = resolved, tk_config = t_cfg, tk_base_ws = base_ws, tk_caller = caller,
               tk_input = merged, tk_scrub = scrub\<rparr>))))"

text \<open>The tables, the stamp the step is dispatched with, and the outcome.\<close>

definition prepare_task_step ::
    "dispatch_env \<Rightarrow> workspace_config \<Rightarrow> string \<Rightarrow> job_row \<Rightarrow> job_step_row list \<Rightarrow> snapshots \<Rightarrow> job_step_row \<Rightarrow> json \<Rightarrow> string
       \<Rightarrow> store \<Rightarrow> store \<times> (string \<times> pin_ref) option \<times> prepared_step" where
  "prepare_task_step dp cfg ws job rows snaps row spec task_ref s =
     (let stamp = pin_of_step_task row;
          base_ws = (case js_action_workspace row of Some w \<Rightarrow> w | None \<Rightarrow> ws);
          jctx = job_ctx_of job cfg snaps;
          input_ctx = rx_value (build jctx (views rows) (loop_slot_of row) ChildTaskInput)
      in if compute_depth (st_db s) job \<ge> MAX_TASK_DEPTH
         then (s, stamp, plain_failure [] (''Maximum task nesting depth ('' @ show_nat MAX_TASK_DEPTH @ '') exceeded for task '' @
                quote task_ref))
         else case base_config dp cfg ws row of
                Inl err \<Rightarrow> (s, stamp, plain_failure [] err)
              | Inr base_cfg \<Rightarrow>
                  (let scrub = collect_config_secret_values (wc_secrets base_cfg);
                       (s', outcome) = (case (stamp, templated_action_ref spec) of
                           (None, Some template) \<Rightarrow>
                             resolve_templated_task_ref dp job jctx input_ctx row template task_ref base_ws base_cfg ws s
                         | _ \<Rightarrow> (s, NoRef));
                       stamp' = (case outcome of Stamped t_ws pin \<Rightarrow> Some (t_ws, pin) | _ \<Rightarrow> stamp)
                   in case outcome of
                        MovedOn \<Rightarrow> (s', stamp, PrepMoved)
                      | FailedRef msg withheld \<Rightarrow>
                          (s', stamp, PrepFailed \<lparr>sf_message = msg, sf_scrub = scrub, sf_withheld = withheld\<rparr>)
                      | _ \<Rightarrow>
                          (case (case stamp' of
                                   Some (t_ws, pin) \<Rightarrow> resolve_stamped_task dp t_ws pin task_ref
                                 | None \<Rightarrow> resolve_task_ref (ce_refs (dp_creation dp)) base_ws base_cfg task_ref) of
                             Inl e \<Rightarrow> (s', stamp', plain_failure scrub
                               (''Failed to resolve task for step '' @ quote (js_step_name row) @ '': '' @ chain_text e))
                           | Inr resolved \<Rightarrow>
                               (s', stamp', prepare_call dp cfg ws input_ctx snaps row spec base_ws base_cfg resolved))))"

section \<open>Dispatching a task step\<close>

definition child_revision ::
    "dispatch_env \<Rightarrow> job_row \<Rightarrow> (string \<times> pin_ref) option \<Rightarrow> resolved_task \<Rightarrow> string option \<times> string option" where
  "child_revision dp job stamp resolved =
     (case stamp of
        Some (_, pin) \<Rightarrow> (Some (pr_commit pin), Some (pr_git_ref pin))
      | None \<Rightarrow>
          if rk_workspace resolved = j_workspace job \<and> j_git_ref job = None then (j_revision job, None)
          else (re_revision (ce_refs (dp_creation dp)) (rk_workspace resolved), None))"

definition child_request ::
    "dispatch_env \<Rightarrow> job_row \<Rightarrow> job_step_row \<Rightarrow> (string \<times> pin_ref) option \<Rightarrow> task_call \<Rightarrow> job_defaults \<Rightarrow> creation_request" where
  "child_request dp job row stamp call defaults =
     (let (revision, git_ref) = child_revision dp job stamp (tk_resolved call) in
      \<lparr>cr_workspace_config = tk_config call, cr_workspace = rk_workspace (tk_resolved call),
       cr_task_name = rk_task_name (tk_resolved call), cr_input = tk_input call, cr_source_type = ''task'',
       cr_source_id = Some (dp_show_uuid dp (j_job_id job) @ ''/'' @ js_step_name row),
       cr_parent_job_id = Some (j_job_id job), cr_parent_step_name = Some (js_step_name row), cr_revision = revision,
       cr_mode = NormalMode, cr_defaults = defaults, cr_git_ref = git_ref, cr_files = TaskChild\<rparr>)"

type_synonym creator = "creation_request \<Rightarrow> store \<Rightarrow> store \<times> (app_error + uuid \<times> bool)"

text \<open>The claim, the writes before the child is created, and the creation.\<close>

definition dispatch_call ::
    "dispatch_env \<Rightarrow> creator \<Rightarrow> workspace_config \<Rightarrow> string \<Rightarrow> job_row \<Rightarrow> task_def \<Rightarrow> job_defaults \<Rightarrow> snapshots \<Rightarrow> job_step_row
       \<Rightarrow> string \<Rightarrow> (string \<times> pin_ref) option \<Rightarrow> task_call \<Rightarrow> store \<Rightarrow> store \<times> bool" where
  "dispatch_call dp create cfg ws job task defaults snaps row task_ref stamp call s =
     (let job_id = j_job_id job; step_name = js_step_name row;
          (d, claimed) = claim_task_dispatch (dp_now dp) job_id step_name (stamp_cols stamp) (st_db s)
      in if \<not> claimed then (s\<lparr>st_db := d\<rparr>, False)
         else let shown = (if tk_base_ws call = ws then tk_input call else tk_caller call);
                  d1 = update_input job_id step_name (Some shown) d;
                  d2 = mark_running_if_pending_server (dp_now dp) job_id d1
              in case create (child_request dp job row stamp call defaults) (s\<lparr>st_db := d2\<rparr>) of
                   (s', Inr _) \<Rightarrow> (s', False)
                 | (s', Inl e) \<Rightarrow>
                     fail_task_step dp job_id step_name
                       (''Failed to create child job for task '' @ quote task_ref @ '': '' @ chain_text e) task cfg snaps
                       (tk_scrub call)
                       (if is_owner_side_render e \<and> rk_workspace (tk_resolved call) \<noteq> ws
                        then Some (withheld_owner_render_error step_name (rk_workspace (tk_resolved call))) else None)
                       (Some (Running, stamp_cols stamp)) s')"

definition handle_task_step ::
    "dispatch_env \<Rightarrow> creator \<Rightarrow> workspace_config \<Rightarrow> string \<Rightarrow> job_row \<Rightarrow> job_step_row list \<Rightarrow> task_def \<Rightarrow> job_defaults
       \<Rightarrow> snapshots \<Rightarrow> bool \<Rightarrow> job_step_row \<Rightarrow> store \<Rightarrow> bool run" where
  "handle_task_step dp create cfg ws job rows task defaults snaps failed_any row s =
     (if js_status row \<noteq> step_status_str Ready \<or> js_action_type row \<noteq> ''task'' then (s, Inr failed_any)
      else case js_action_spec row of
             None \<Rightarrow> (s, Inl ''Missing action_spec for task step'')
           | Some spec \<Rightarrow>
          (case json_get spec ''task'' of
             Some (String task_ref) \<Rightarrow>
               (case prepare_task_step dp cfg ws job rows snaps row spec task_ref s of
                  (s1, stamp, PrepMoved) \<Rightarrow> (s1, Inr failed_any)
                | (s1, stamp, PrepFailed f) \<Rightarrow>
                    (case fail_task_step dp (j_job_id job) (js_step_name row) (sf_message f) task cfg snaps (sf_scrub f)
                            (sf_withheld f) (Some (Ready, stamp_cols stamp)) s1 of
                       (s2, failed) \<Rightarrow> (s2, Inr (failed_any \<or> failed)))
                | (s1, stamp, PrepReady call) \<Rightarrow>
                    (case dispatch_call dp create cfg ws job task defaults snaps row task_ref stamp call s1 of
                       (s2, failed) \<Rightarrow> (s2, Inr (failed_any \<or> failed))))
           | _ \<Rightarrow> (s, Inl ''Missing task field in action_spec'')))"

definition handle_task_steps_pass ::
    "dispatch_env \<Rightarrow> creator \<Rightarrow> workspace_config \<Rightarrow> string \<Rightarrow> uuid \<Rightarrow> task_def \<Rightarrow> job_defaults \<Rightarrow> snapshots \<Rightarrow> store
       \<Rightarrow> bool run" where
  "handle_task_steps_pass dp create cfg ws job_id task defaults snaps s =
     (let rows = get_steps_for_job (dp_collate dp) job_id (st_db s) in
      case job_get job_id (st_db s) of
        None \<Rightarrow> (s, Inl ''Job not found'')
      | Some job \<Rightarrow> fold_run (handle_task_step dp create cfg ws job rows task defaults snaps) rows False s)"

fun task_passes ::
    "nat \<Rightarrow> dispatch_env \<Rightarrow> creator \<Rightarrow> workspace_config \<Rightarrow> string \<Rightarrow> uuid \<Rightarrow> task_def \<Rightarrow> job_defaults \<Rightarrow> snapshots \<Rightarrow> store
       \<Rightarrow> unit run" where
  "task_passes 0 dp create cfg ws job_id task defaults snaps s = (s, Inr ())"
| "task_passes (Suc n) dp create cfg ws job_id task defaults snaps s =
     (case handle_task_steps_pass dp create cfg ws job_id task defaults snaps s of
        (s', Inl e) \<Rightarrow> (s', Inl e)
      | (s', Inr failed_any) \<Rightarrow>
          if failed_any then task_passes n dp create cfg ws job_id task defaults snaps s' else (s', Inr ()))"

definition handle_task_steps ::
    "dispatch_env \<Rightarrow> creator \<Rightarrow> workspace_config \<Rightarrow> string \<Rightarrow> uuid \<Rightarrow> task_def \<Rightarrow> job_defaults \<Rightarrow> snapshots \<Rightarrow> store
       \<Rightarrow> unit run" where
  "handle_task_steps dp create cfg ws job_id task defaults snaps s =
     task_passes (length (td_flow task) + 1) dp create cfg ws job_id task defaults snaps s"

section \<open>Approval steps\<close>

definition approval_template :: "job_step_row \<Rightarrow> string" where
  "approval_template row =
     (case Option.bind (js_action_spec row) (\<lambda>spec. json_get spec ''message'') of Some (String m) \<Rightarrow> m | _ \<Rightarrow> [])"

definition suspend_approval :: "dispatch_env \<Rightarrow> uuid \<Rightarrow> string \<Rightarrow> string \<Rightarrow> db \<Rightarrow> db" where
  "suspend_approval dp job_id step_name message d =
     (let d1 = mark_suspended (dp_now dp) job_id step_name d;
          d2 = fst (update_steps (at_step job_id step_name)
                 (\<lambda>r. r\<lparr>js_output := Some (json_obj [(''approval_message'', String message)])\<rparr>) d1)
      in mark_running_if_pending_server (dp_now dp) job_id d2)"

definition handle_approval_step ::
    "dispatch_env \<Rightarrow> workspace_config \<Rightarrow> job_row \<Rightarrow> job_step_row list \<Rightarrow> task_def \<Rightarrow> snapshots \<Rightarrow> store \<Rightarrow> job_step_row \<Rightarrow> store" where
  "handle_approval_step dp cfg job rows task snaps s row =
     (if js_status row \<noteq> step_status_str Ready \<or> js_action_type row \<noteq> ''approval'' then s
      else let job_id = j_job_id job; name = js_step_name row; tr = ce_tera (dp_creation dp);
               jctx = job_ctx_of job cfg snaps;
               input = object_map (js_input row);
               fail = (\<lambda>err s'. fst (fail_task_step dp job_id name err task cfg snaps [] None None s'));
               phase1 = (if input = [] then Inr None
                         else map_sum id Some (render_input_map tr input
                                (rx_value (build jctx (views rows) (loop_slot_of row) ChildTaskInput))))
           in case phase1 of
                Inl e \<Rightarrow> fail (''Failed to render input for approval step '' @ quote name @ '': '' @ chain_text e) s
              | Inr rendered \<Rightarrow>
                  (let s1 = (case rendered of Some v \<Rightarrow> s\<lparr>st_db := update_input job_id name (Some v) (st_db s)\<rparr> | None \<Rightarrow> s);
                       raw = approval_template row;
                       ctx = rx_value (build jctx (views rows) (loop_slot_of row) (ApprovalMessage rendered))
                   in case (if raw = [] then Inr [] else t_render tr raw ctx) of
                        Inl e \<Rightarrow> fail (''Failed to render approval message for step '' @ quote name @ '': '' @ chain_text e) s1
                      | Inr message \<Rightarrow> s1\<lparr>st_db := suspend_approval dp job_id name message (st_db s1)\<rparr>))"

definition handle_approval_steps ::
    "dispatch_env \<Rightarrow> workspace_config \<Rightarrow> uuid \<Rightarrow> task_def \<Rightarrow> snapshots \<Rightarrow> store \<Rightarrow> unit run" where
  "handle_approval_steps dp cfg job_id task snaps s =
     (let rows = get_steps_for_job (dp_collate dp) job_id (st_db s) in
      case job_get job_id (st_db s) of
        None \<Rightarrow> (s, Inl ''Job not found'')
      | Some job \<Rightarrow> (foldl (handle_approval_step dp cfg job rows task snaps) s rows, Inr ()))"

section \<open>Initialisation of a new job\<close>

fun init_rounds ::
    "nat \<Rightarrow> dispatch_env \<Rightarrow> creator \<Rightarrow> workspace_config \<Rightarrow> string \<Rightarrow> uuid \<Rightarrow> task_def \<Rightarrow> job_defaults \<Rightarrow> snapshots
       \<Rightarrow> dispatch_rounds \<Rightarrow> store \<Rightarrow> unit run" where
  "init_rounds 0 dp create cfg ws job_id task defaults snaps r s = (s, Inl OUT_OF_FUEL)"
| "init_rounds (Suc fuel) dp create cfg ws job_id task defaults snaps r s =
     (case resolve_deferred_steps (dp_fuel dp) 0 dp cfg ws job_id task defaults snaps s of
        (s1, Inl e) \<Rightarrow> (s1, Inl (''resolve deferred steps: '' @ e))
      | (s1, Inr _) \<Rightarrow>
     (case handle_task_steps dp create cfg ws job_id task defaults snaps s1 of
        (s2, Inl e) \<Rightarrow> (s2, Inl e)
      | (s2, Inr _) \<Rightarrow>
     (case handle_approval_steps dp cfg job_id task snaps s2 of
        (s3, Inl e) \<Rightarrow> (s3, Inl (''dispatch initial approval steps: '' @ e))
      | (s3, Inr _) \<Rightarrow>
          (let (r', again) = rounds_again dp job_id s3 r in
           if again then init_rounds fuel dp create cfg ws job_id task defaults snaps r' s3 else (s3, Inr ())))))"

definition init_snapshots :: "dispatch_env \<Rightarrow> string \<Rightarrow> uuid \<Rightarrow> string \<Rightarrow> store \<Rightarrow> snapshots" where
  "init_snapshots dp ws job_id task_name s =
     (dp_snapshots dp ws task_name (Option.bind (job_get job_id (st_db s)) j_git_ref))
       \<lparr>ss_files := job_files_of (list_for_job (dp_collate dp) job_id (st_files s)) CANONICAL_INPUTS_ROOT\<rparr>"

definition init ::
    "dispatch_env \<Rightarrow> creator \<Rightarrow> workspace_config \<Rightarrow> string \<Rightarrow> uuid \<Rightarrow> string \<Rightarrow> job_defaults \<Rightarrow> task_def \<Rightarrow> store
       \<Rightarrow> job_status option run" where
  "init dp create cfg ws job_id task_name defaults task s =
     (let snaps = init_snapshots dp ws job_id task_name s in
      case execute (dp_max_params dp) (dp_attempt dp) (dp_collate dp) (dp_show_uuid dp) (dp_engine dp) job_id task
             (Some cfg) snaps (st_db s) of
        None \<Rightarrow> (s, Inl OUT_OF_FUEL)
      | Some (d, Inl e) \<Rightarrow> (s\<lparr>st_db := d\<rparr>, Inl (''creation-time step cascade: '' @ e))
      | Some (d, Inr _) \<Rightarrow>
          (let s1 = s\<lparr>st_db := d\<rparr> in
           case init_rounds (dp_fuel dp) dp create cfg ws job_id task defaults snaps (rounds_start dp job_id s1) s1 of
             (s2, Inl e) \<Rightarrow> (s2, Inl e)
           | (s2, Inr _) \<Rightarrow>
               (let (d2, settled) = settle_if_all_terminal (dp_collate dp) (dp_now dp) job_id task (st_db s2)
                in (s2\<lparr>st_db := d2\<rparr>, Inr settled))))"

text \<open>Creation with everything that follows from it; the first argument bounds the nesting.\<close>

fun create_job :: "nat \<Rightarrow> dispatch_env \<Rightarrow> creator" where
  "create_job 0 dp req s = (s, Inl (Msg OUT_OF_FUEL))"
| "create_job (Suc depth) dp req s =
     (let job_id = dp_new_id dp s in
      create_job_for_task_inner (dp_creation dp) (dp_show_uuid dp) (dp_max_params dp) (dp_now dp) (dp_utc_now dp)
        (init dp (create_job depth dp) (cr_workspace_config req) (cr_workspace req) job_id (cr_task_name req) (cr_defaults req))
        req job_id s)"

end
