(* ===== verification/Deferred_Correct.thy ===== *)
theory Deferred_Correct
  imports Deferred Creation_Correct
begin

text \<open>
  What the deferred-step pass guarantees: a rendered ref is used only after it was compared with the
  secrets of the commit it names, and a step that is resolved later runs the commit the job already
  has for its ref, also when other resolvers write the memo at the same time.
\<close>

section \<open>The memo of a job\<close>

text \<open>Rows of the memo are never changed or removed while the job exists.\<close>

definition pins_grow :: "(uuid \<times> job_ref_pin_row) list \<Rightarrow> (uuid \<times> job_ref_pin_row) list \<Rightarrow> bool" where
  "pins_grow t t' \<longleftrightarrow> (\<forall>j w r c. pin_get j w r t = Some c \<longrightarrow> pin_get j w r t' = Some c)"

text \<open>The primary key of the table.\<close>

definition pins_keyed :: "(uuid \<times> job_ref_pin_row) list \<Rightarrow> bool" where
  "pins_keyed t \<longleftrightarrow> distinct (map (\<lambda>(j, row). (j, jp_workspace row, jp_git_ref row)) t)"

definition race_grows :: "dispatch_env \<Rightarrow> bool" where
  "race_grows dp \<longleftrightarrow> (\<forall>n t. pins_grow t (dp_pin_race dp n t) \<and> (pins_keyed t \<longrightarrow> pins_keyed (dp_pin_race dp n t)))"

lemma pins_grow_refl [simp]: "pins_grow t t"
  by (simp add: pins_grow_def)

lemma pins_grow_trans: "pins_grow a b \<Longrightarrow> pins_grow b c \<Longrightarrow> pins_grow a c"
  by (simp add: pins_grow_def)

lemma first_wins_pin:
  assumes "insert_first_wins j w r c t = (t', stored)"
  shows "pin_get j w r t' = stored" and "pins_grow t t'"
proof -
  let ?row = "\<lparr>jp_workspace = w, jp_git_ref = r, jp_commit = c\<rparr>"
  have t': "t' = pin_insert j ?row t" "stored = pin_get j w r t'"
    using assms unfolding insert_first_wins_def Let_def by auto
  show "pin_get j w r t' = stored" using t'(2) by (rule sym)
  show "pins_grow t t'" unfolding pins_grow_def t'(1) by (simp add: pin_get_insert)
qed

lemma pins_growD: "pins_grow t t' \<Longrightarrow> pin_get j w r t = Some c \<Longrightarrow> pin_get j w r t' = Some c"
  unfolding pins_grow_def by simp

lemma pinned_col_grow:
  assumes "pinned_col j t w r c" and "pins_grow t t'"
  shows "pinned_col j t' w r c"
  using assms(1) unfolding pinned_col_def by (auto simp: pins_growD [OF assms(2)])

lemma pin_get_None: "pin_get j w r t = None \<longleftrightarrow> (j, w, r) \<notin> set (map (\<lambda>(j, row). (j, jp_workspace row, jp_git_ref row)) t)"
  by (force simp: pin_get_def find_None_iff)

lemma pins_keyed_insert: "pins_keyed t \<Longrightarrow> pins_keyed (pin_insert j row t)"
  using pin_get_None [of j "jp_workspace row" "jp_git_ref row" t] by (auto simp: pins_keyed_def pin_insert_def)

lemma first_wins_keyed: "insert_first_wins j w r c t = (t', stored) \<Longrightarrow> pins_keyed t \<Longrightarrow> pins_keyed t'"
  using pins_keyed_insert by (auto simp: insert_first_wins_def Let_def)

lemma pin_get_row:
  assumes "pins_keyed t" and "(j, row) \<in> set t"
  shows "pin_get j (jp_workspace row) (jp_git_ref row) t = Some (jp_commit row)"
proof -
  obtain j' row' where f: "find (\<lambda>e. fst e = j \<and> jp_workspace (snd e) = jp_workspace row \<and> jp_git_ref (snd e) = jp_git_ref row) t =
      Some (j', row')"
    using assms(2) by (cases "find (\<lambda>e. fst e = j \<and> jp_workspace (snd e) = jp_workspace row \<and> jp_git_ref (snd e) = jp_git_ref row) t")
      (auto simp: find_None_iff)
  from find_SomeD [OF f] have "(j', row') \<in> set t" "j' = j" "jp_workspace row' = jp_workspace row" "jp_git_ref row' = jp_git_ref row"
    by auto
  then have "row' = row"
    using assms unfolding pins_keyed_def distinct_map inj_on_def by fastforce
  then show ?thesis using f by (simp add: pin_get_def)
qed

text \<open>Writing the entries of a memo: if all agree, the table holds them.\<close>

lemma insert_entries:
  assumes "foldl (insert_entry j) (t, a) entries = (t', True)"
  shows "a \<and> pins_grow t t' \<and>
    (\<forall>e \<in> set entries. pin_get j (jp_workspace e) (jp_git_ref e) t' = Some (jp_commit e))"
  using assms
proof (induction entries arbitrary: t a)
  case (Cons x entries)
  obtain t1 stored where i: "insert_first_wins j (jp_workspace x) (jp_git_ref x) (jp_commit x) t = (t1, stored)" by force
  have "foldl (insert_entry j) (t1, a \<and> stored = Some (jp_commit x)) entries = (t', True)"
    using Cons.prems i by (simp add: insert_entry_def [of j "(t, a)"])
  from Cons.IH [OF this] have IH: "a" "stored = Some (jp_commit x)" "pins_grow t1 t'"
      "\<forall>e \<in> set entries. pin_get j (jp_workspace e) (jp_git_ref e) t' = Some (jp_commit e)" by blast+
  have "pin_get j (jp_workspace x) (jp_git_ref x) t' = Some (jp_commit x)"
    by (rule pins_growD [OF IH(3)]) (use first_wins_pin(1) [OF i] IH(2) in simp)
  then show ?case using IH pins_grow_trans [OF first_wins_pin(2) [OF i] IH(3)] by simp
qed simp

lemma insert_entries_grow: "pins_grow t (fst (foldl (insert_entry j) (t, a) entries))"
proof (induction entries arbitrary: t a)
  case (Cons x entries)
  obtain t1 stored where i: "insert_first_wins j (jp_workspace x) (jp_git_ref x) (jp_commit x) t = (t1, stored)" by force
  show ?case
    using pins_grow_trans [OF first_wins_pin(2) [OF i] Cons.IH] i by (simp add: insert_entry_def [of j "(t, a)"])
qed simp

lemma insert_entries_keyed: "pins_keyed t \<Longrightarrow> pins_keyed (fst (foldl (insert_entry j) (t, a) entries))"
proof (induction entries arbitrary: t a)
  case (Cons x entries)
  obtain t1 stored where i: "insert_first_wins j (jp_workspace x) (jp_git_ref x) (jp_commit x) t = (t1, stored)" by force
  show ?case using Cons.IH [OF first_wins_keyed [OF i Cons.prems]] i by (simp add: insert_entry_def [of j "(t, a)"])
qed simp

lemma commit_loop_spec:
  assumes "commit_loop dp j owner v n commit s = (s', Inr pin)" and "race_grows dp"
  shows "pr_git_ref pin = v" and "pin_get j owner v (st_ref_pins s') = Some (pr_commit pin)"
    and "pins_grow (st_ref_pins s) (st_ref_pins s')" and "st_db s' = st_db s"
    and "\<exists>cfg. pinned_config_private (dp_ensure dp) owner (pr_commit pin) = Inr cfg \<and>
      \<not> isl (check_rendered_ref v (pin_redaction_values (ce_configs (dp_creation dp)) (rw_configured (dp_world dp)) owner cfg))"
  using assms(1)
proof (induction n arbitrary: commit s)
  case (Suc n)
  let ?own = "pin_redaction_values (ce_configs (dp_creation dp)) (rw_configured (dp_world dp)) owner"
  {
    case 1
    then show ?case using Suc.IH(1) by (auto simp: Let_def split: sum.splits prod.splits option.splits if_splits)
  next
    case 2
    then show ?case using Suc.IH(2) first_wins_pin
      by (fastforce simp: Let_def split: sum.splits prod.splits option.splits if_splits)
  next
    case 3
    then obtain t stored where t: "insert_first_wins j owner v commit (dp_pin_race dp n (st_ref_pins s)) = (t, stored)"
        and r: "s' = s\<lparr>st_ref_pins := t\<rparr> \<or> (\<exists>c. commit_loop dp j owner v n c (s\<lparr>st_ref_pins := t\<rparr>) = (s', Inr pin))"
      by (auto simp: Let_def split: sum.splits prod.splits option.splits if_splits)
    have g: "pins_grow (st_ref_pins s) t"
      by (rule pins_grow_trans [OF _ first_wins_pin(2) [OF t]]) (use assms(2) in \<open>simp add: race_grows_def\<close>)
    from r show ?case
    proof (elim disjE exE)
      fix c assume "commit_loop dp j owner v n c (s\<lparr>st_ref_pins := t\<rparr>) = (s', Inr pin)"
      from Suc.IH(3) [OF this] g show ?thesis by (auto intro: pins_grow_trans)
    qed (use g in simp)
  next
    case 4
    then show ?case using Suc.IH(4) by (fastforce simp: Let_def split: sum.splits prod.splits option.splits if_splits)
  next
    case 5
    then show ?case using Suc.IH(5) by (auto simp: Let_def split: sum.splits prod.splits option.splits if_splits)
  }
qed simp_all

lemma memo_from_rows_get:
  "map_of (memo_from_rows rows) (w, r) =
     map_option (\<lambda>row. \<lparr>pr_git_ref = r, pr_commit = jp_commit row\<rparr>)
       (find (\<lambda>row. jp_workspace row = w \<and> jp_git_ref row = r) rows)"
proof -
  have "map_of (foldl (\<lambda>m row. memo_insert (jp_workspace row) (jp_git_ref row)
      \<lparr>pr_git_ref = jp_git_ref row, pr_commit = jp_commit row\<rparr> m) m rows) (w, r) =
    (case map_of m (w, r) of Some p \<Rightarrow> Some p
     | None \<Rightarrow> map_option (\<lambda>row. \<lparr>pr_git_ref = r, pr_commit = jp_commit row\<rparr>)
         (find (\<lambda>row. jp_workspace row = w \<and> jp_git_ref row = r) rows))" for m
    by (induction rows arbitrary: m) (auto simp: map_of_memo_insert split: option.splits)
  from this [of "[]"] show ?thesis by (simp add: memo_from_rows_def)
qed

lemma job_memo:
  assumes "pins_keyed t" and "pin_get j w r t = Some c"
  shows "map_of (memo_from_rows (pins_for_job collate j t)) (w, r) = Some \<lparr>pr_git_ref = r, pr_commit = c\<rparr>"
proof -
  let ?rows = "pins_for_job collate j t" and ?P = "\<lambda>row. jp_workspace row = w \<and> jp_git_ref row = r"
  have rows: "row \<in> set ?rows \<longleftrightarrow> (j, row) \<in> set t" for row by (force simp: pins_for_job_def)
  obtain e where "find (\<lambda>e. fst e = j \<and> jp_workspace (snd e) = w \<and> jp_git_ref (snd e) = r) t = Some e"
    using assms(2) by (auto simp: pin_get_def)
  from find_SomeD [OF this] have "snd e \<in> set ?rows" "?P (snd e)" using rows by (cases e, auto)+
  then obtain row where row: "find ?P ?rows = Some row" by (cases "find ?P ?rows") (auto simp: find_None_iff)
  from find_SomeD [OF row] pin_get_row [OF assms(1), of j row] rows assms(2) have "jp_commit row = c" by auto
  then show ?thesis by (simp add: memo_from_rows_get row)
qed

lemma memo_entry: "map_of m (w, r) = Some p \<Longrightarrow> \<lparr>jp_workspace = w, jp_git_ref = r, jp_commit = pr_commit p\<rparr> \<in> set (memo_entries m)"
  by (force simp: memo_entries_def dest: map_of_SomeD)

lemma commit_loop_known:
  assumes "commit_loop dp j owner v n commit s = (s', Inr pin)" and "race_grows dp"
    and "pin_get j owner v (st_ref_pins s) = Some c"
  shows "pr_commit pin = c"
  using commit_loop_spec(2,3) [OF assms(1,2)] assms(3) by (auto simp: pins_grow_def)

section \<open>The row of a deferred step\<close>

text \<open>The ref of a column is recorded with its commit.\<close>

lemma same_commit_recorded:
  assumes "same_commit m ws git_ref revision"
    and "\<And>e. e \<in> set (memo_entries m) \<Longrightarrow> pin_get j (jp_workspace e) (jp_git_ref e) t = Some (jp_commit e)"
  shows "pinned_col j t ws git_ref revision"
  unfolding pinned_col_def
proof (intro allI impI)
  fix r assume "git_ref = Some r"
  then obtain w p where p: "ws = Some w" "map_of m (w, r) = Some p" "revision = Some (pr_commit p)"
    using assms(1) unfolding same_commit_def by blast
  with assms(2) [OF memo_entry [OF p(2)]] show "\<exists>w c. ws = Some w \<and> revision = Some c \<and> pin_get j w r t = Some c" by simp
qed

lemma build_row_pinned:
  assumes "build_row dp ctx n name fs v owner an s = (s', Inr row)" and race: "race_grows dp"
    and k: "resolve_keeps_ref (ce_refs (dp_creation dp))" and "pins_keyed (st_ref_pins s)"
    and "\<And>p. sx_job_pin ctx = Some p \<Longrightarrow>
      pin_get (sx_job_id ctx) (sx_workspace_name ctx) (pr_git_ref p) (st_ref_pins s) = Some (pr_commit p)"
  shows "pins_grow (st_ref_pins s) (st_ref_pins s') \<and>
    pinned_col (sx_job_id ctx) (st_ref_pins s') (ns_action_workspace row) (ns_action_ref row) (ns_action_revision row) \<and>
    pinned_col (sx_job_id ctx) (st_ref_pins s') (ns_task_workspace row) (ns_task_ref row) (ns_task_revision row)"
  using assms(1,4,5)
proof (induction n arbitrary: s)
  case (Suc n)
  let ?j = "sx_job_id ctx" and ?t = "dp_pin_race dp n (st_ref_pins s)"
  let ?st = "\<lparr>rf_memo = memo_from_rows (pins_for_job (dp_collate dp) ?j (st_ref_pins s)), rf_calls = length (st_ref_pins s)\<rparr>"
  obtain row0 st where r: "resolve_step_row (dp_creation dp) ctx name fs Ready v ?st = Inr (row0, st)"
    using Suc.prems(1) by (auto split: sum.splits)
  obtain t agreed where f: "foldl (insert_entry ?j) (?t, True) (memo_entries (rf_memo st)) = (t, agreed)" by force
  have res: "if agreed then s' = s\<lparr>st_ref_pins := t\<rparr> \<and> row = row0
      else build_row dp ctx n name fs v owner an (s\<lparr>st_ref_pins := t\<rparr>) = (s', Inr row)"
    using Suc.prems(1) r f by (auto simp: Let_def split: if_splits)
  have g: "pins_grow (st_ref_pins s) ?t" "pins_keyed ?t" using race Suc.prems(2) by (simp_all add: race_grows_def)
  have keyed: "pins_keyed t" using insert_entries_keyed [OF g(2), of ?j True "memo_entries (rf_memo st)"] f by simp
  show ?case
  proof (cases agreed)
    case True
    have ins: "pins_grow ?t t" "\<And>e. e \<in> set (memo_entries (rf_memo st)) \<Longrightarrow>
        pin_get ?j (jp_workspace e) (jp_git_ref e) t = Some (jp_commit e)"
      using insert_entries [of ?j ?t True "memo_entries (rf_memo st)" t] f True by simp_all
    have m: "memo_ok (rf_memo ?st)" by (auto simp: memo_ok_def memo_from_rows_get)
    have "pinned (rf_memo ?st) (sx_workspace_name ctx) p" if "sx_job_pin ctx = Some p" for p
      using job_memo [OF Suc.prems(2) Suc.prems(3) [OF that]] by (simp add: pinned_def)
    from resolve_step_row_built(3) [OF r k m this] have "row_pinned (rf_memo st) row0" .
    then have "pinned_col ?j t (ns_action_workspace row0) (ns_action_ref row0) (ns_action_revision row0)"
      "pinned_col ?j t (ns_task_workspace row0) (ns_task_ref row0) (ns_task_revision row0)"
      unfolding row_pinned_def by (blast intro: same_commit_recorded ins(2))+
    then show ?thesis using res True pins_grow_trans [OF g(1) ins(1)] by simp
  next
    case False
    have grow: "pins_grow (st_ref_pins s) t"
      using pins_grow_trans [OF g(1) insert_entries_grow [of ?t ?j True "memo_entries (rf_memo st)"]] f by simp
    have "build_row dp ctx n name fs v owner an (s\<lparr>st_ref_pins := t\<rparr>) = (s', Inr row)" using res False by simp
    from Suc.IH [OF this] keyed pins_growD [OF grow Suc.prems(3)] show ?thesis
      using pins_grow_trans [OF grow] by simp
  qed
qed simp

text \<open>Trimming twice is trimming once.\<close>

lemma trim_trim: "trim (trim s) = trim s"
proof -
  let ?W = whitespace_seqs and ?x = "trim_start s"
  have x: "\<not> prefix w ?x" if "w \<in> set ?W" for w unfolding trim_start_def by (rule strip_all_stable) (use that in simp_all)
  have e: "\<not> prefix w (rev (trim s))" if "w \<in> set (map rev ?W)" for w
    unfolding trim_def trim_end_def rev_rev_ident by (rule strip_all_stable [OF whitespace_seqs_rev_nonempty that])
  have "prefix (trim s) ?x"
    using strip_all_suffix [of "map rev ?W" "rev ?x"] by (simp add: trim_def trim_end_def suffix_to_prefix)
  then have "\<not> prefix w (trim s)" if "w \<in> set ?W" for w using x [OF that] prefix_order.trans by blast
  then have "trim_start (trim s) = trim s" unfolding trim_start_def by (intro strip_all_fixed) auto
  moreover have "trim_end (trim s) = trim s" unfolding trim_end_def using e by (subst strip_all_fixed) auto
  ultimately show ?thesis by (simp add: trim_def [of "trim s"])
qed

section \<open>A step that is resolved later\<close>

definition free_of :: "string list \<Rightarrow> string \<Rightarrow> bool" where
  "free_of secrets v \<longleftrightarrow> list_all (\<lambda>x. x = [] \<or> \<not> contains v x) secrets"

lemma checked_free:
  assumes "check_rendered_ref rendered secrets = Inr v"
  shows "v = trim rendered" and "free_of secrets v"
  using assms by (auto simp: check_rendered_ref_def free_of_def list_ex_iff list_all_iff Let_def split: if_splits sum.splits)

lemma resolve_step_row_ref:
  assumes "resolve_step_row env ctx name fs status (Some v) st = Inr (row, st')"
    and "resolve_keeps_ref (ce_refs env)" "memo_ok (rf_memo st)"
  shows "ns_action_ref row = Some v"
proof -
  obtain sa st1 where a: "resolve_step_action (ce_refs env) (sx_workspace_name ctx) (sx_workspace_config ctx)
      (sx_job_pin ctx) name fs (Some v) st = Inr (sa, st1)" and r: "ns_action_ref row = map_option pr_git_ref (sa_pin sa)"
    using assms(1) unfolding resolve_step_row_def build_step_def
    by (auto simp: Let_def map_sum_InrE split: sum.splits option.splits if_splits)
  from a obtain tgt git_ref pin cfg where p: "pin_at_ref (ce_refs env) (rt_owner tgt) git_ref st = Inr ((pin, cfg), st1)"
      and "plan_reference (sx_workspace_name ctx) None (fs_action fs) (Some v) (re_world (ce_refs env)) = Inr (AtRef tgt git_ref)"
      and s: "sa_pin sa = Some pin"
    by (auto simp: resolve_step_action_def split: sum.splits ref_plan.splits if_splits)
  then have "git_ref = v" by (auto simp: plan_reference_def split: sum.splits if_splits)
  with pin_at_ref_ok(3) [OF p assms(2,3)] r s show ?thesis by simp
qed

lemma build_row_ref:
  assumes "build_row dp ctx n name fs (Some v) owner an s = (s', Inr row)" and "resolve_keeps_ref (ce_refs (dp_creation dp))"
  shows "ns_action_ref row = Some v"
  using assms(1)
proof (induction n arbitrary: s)
  case (Suc n)
  let ?st = "\<lparr>rf_memo = memo_from_rows (pins_for_job (dp_collate dp) (sx_job_id ctx) (st_ref_pins s)), rf_calls = length (st_ref_pins s)\<rparr>"
  obtain row0 st where r: "resolve_step_row (dp_creation dp) ctx name fs Ready (Some v) ?st = Inr (row0, st)"
    using Suc.prems by (auto split: sum.splits)
  obtain t agreed where f: "foldl (insert_entry (sx_job_id ctx)) (dp_pin_race dp n (st_ref_pins s), True) (memo_entries (rf_memo st)) =
      (t, agreed)" by force
  have res: "if agreed then row = row0
      else build_row dp ctx n name fs (Some v) owner an (s\<lparr>st_ref_pins := t\<rparr>) = (s', Inr row)"
    using Suc.prems r f by (auto simp: Let_def split: if_splits)
  have m: "memo_ok (rf_memo ?st)" by (auto simp: memo_ok_def memo_from_rows_get)
  show ?case
  proof (cases agreed)
    case True
    then show ?thesis using res resolve_step_row_ref [OF r assms(2) m] by simp
  next
    case False
    then show ?thesis using res Suc.IH by simp
  qed
qed simp

lemma build_row_db: "build_row dp ctx n name fs v owner an s = (s', res) \<Longrightarrow> st_db s' = st_db s"
proof (induction n arbitrary: s)
  case (Suc n)
  have "st_db s' = st_db s" if "build_row dp ctx n name fs v owner an (s\<lparr>st_ref_pins := t\<rparr>) = (s', res)" for t
    using Suc.IH [OF that] by simp
  then show ?case using Suc.prems by (auto simp: Let_def split: sum.splits prod.splits if_splits)
qed simp

lemma select_commit_spec:
  assumes "select_commit dp j owner v s = (s', Inr pin)" and "race_grows dp"
  shows "pr_git_ref pin = v" and "pin_get j owner v (st_ref_pins s') = Some (pr_commit pin)"
    and "pins_grow (st_ref_pins s) (st_ref_pins s')" and "st_db s' = st_db s"
    and "\<exists>cfg. pinned_config_private (dp_ensure dp) owner (pr_commit pin) = Inr cfg \<and>
      \<not> isl (check_rendered_ref v (pin_redaction_values (ce_configs (dp_creation dp)) (rw_configured (dp_world dp)) owner cfg))"
proof -
  obtain commit where "commit_loop dp j owner v 3 commit s = (s', Inr pin)"
    using assms(1) unfolding select_commit_def by (auto split: sum.splits option.splits)
  note c = commit_loop_spec [OF this assms(2)]
  show "pr_git_ref pin = v" by (rule c(1))
  show "pin_get j owner v (st_ref_pins s') = Some (pr_commit pin)" by (rule c(2))
  show "pins_grow (st_ref_pins s) (st_ref_pins s')" by (rule c(3))
  show "st_db s' = st_db s" by (rule c(4))
  show "\<exists>cfg. pinned_config_private (dp_ensure dp) owner (pr_commit pin) = Inr cfg \<and>
      \<not> isl (check_rendered_ref v (pin_redaction_values (ce_configs (dp_creation dp)) (rw_configured (dp_world dp)) owner cfg))"
    by (rule c(5))
qed

lemma commit_loop_keyed:
  assumes "commit_loop dp j owner v n commit s = (s', res)" and "race_grows dp" and "pins_keyed (st_ref_pins s)"
  shows "pins_keyed (st_ref_pins s')"
  using assms(1,3)
proof (induction n arbitrary: commit s)
  case (Suc n)
  obtain t stored where t: "insert_first_wins j owner v commit (dp_pin_race dp n (st_ref_pins s)) = (t, stored)" by force
  have k: "pins_keyed (dp_pin_race dp n (st_ref_pins s))" using assms(2) Suc.prems(2) by (simp add: race_grows_def)
  have "pins_keyed (st_ref_pins s')" if "commit_loop dp j owner v n c (s\<lparr>st_ref_pins := t\<rparr>) = (s', res)" for c
    using Suc.IH [OF that] first_wins_keyed [OF t k] by simp
  then show ?case using Suc.prems t first_wins_keyed [OF t k]
    by (auto simp: Let_def split: sum.splits option.splits if_splits)
qed simp

lemma select_commit_keyed:
  assumes "select_commit dp j owner v s = (s', res)" and "race_grows dp" and "pins_keyed (st_ref_pins s)"
  shows "pins_keyed (st_ref_pins s')"
  using assms commit_loop_keyed unfolding select_commit_def by (auto split: sum.splits option.splits)

lemma build_row_owner:
  "build_row dp ctx n name fs v owner an s = (s', Inr row) \<Longrightarrow>
     (case ns_action_workspace row of Some w \<Rightarrow> w | None \<Rightarrow> sx_workspace_name ctx) = owner"
  by (induction n arbitrary: s) (auto simp: Let_def split: sum.splits prod.splits if_splits)

text \<open>The two ways to the row of a deferred step: without a ref, or with a checked one.\<close>

lemma resolve_oneD:
  assumes "resolve_one dp cfg ws job rows row task defaults snaps s = (s', Inr new)"
  defines "owner \<equiv> (case js_action_workspace row of Some w \<Rightarrow> w | None \<Rightarrow> ws)"
  obtains (no_ref) template raw fs where "js_ref_template row = Some template"
      "dp_render_ref dp template (rx_value (build (job_ctx_of job cfg snaps) (views rows) (loop_slot_of row) StepRef)) = Inr raw"
      "rendered_ref_value raw = None"
      "build_row dp (deferred_ctx dp cfg ws job defaults) 3 (js_step_name row) fs None owner (js_action_name row) s = (s', Inr new)"
    | (at_ref) template raw rendered secrets v s1 pin fs where "js_ref_template row = Some template"
      "dp_render_ref dp template (rx_value (build (job_ctx_of job cfg snaps) (views rows) (loop_slot_of row) StepRef)) = Inr raw"
      "rendered_ref_value raw = Some rendered" "ref_secret_set dp job s = Inr secrets" "check_rendered_ref rendered secrets = Inr v"
      "select_commit dp (j_job_id job) owner v s = (s1, Inr pin)"
      "build_row dp (deferred_ctx dp cfg ws job defaults) 3 (js_step_name row) fs (Some v) owner (js_action_name row) s1 = (s', Inr new)"
proof -
  let ?ctx = "rx_value (build (job_ctx_of job cfg snaps) (views rows) (loop_slot_of row) StepRef)"
  obtain template where t: "js_ref_template row = Some template"
    using assms(1) by (cases "js_ref_template row") (simp_all add: resolve_one_def)
  obtain flow_step where f: "map_of (td_flow task) (case js_loop_source row of Some k \<Rightarrow> k | None \<Rightarrow> js_step_name row) = Some flow_step"
    using assms(1) by (cases "map_of (td_flow task) (case js_loop_source row of Some k \<Rightarrow> k | None \<Rightarrow> js_step_name row)")
      (simp_all add: resolve_one_def t)
  obtain raw where r: "dp_render_ref dp template ?ctx = Inr raw"
    using assms(1) by (cases "dp_render_ref dp template ?ctx") (simp_all add: resolve_one_def t f)
  note run = assms(1) [unfolded resolve_one_def Let_def t f option.case prod.case r sum.case, folded owner_def]
  show thesis
  proof (cases "rendered_ref_value raw")
    case None
    then show thesis using run no_ref [OF t r None] by simp
  next
    case (Some rendered)
    obtain secrets where s: "ref_secret_set dp job s = Inr secrets" using run Some by (cases "ref_secret_set dp job s") simp_all
    obtain v where v: "check_rendered_ref rendered secrets = Inr v"
      using run Some s by (cases "check_rendered_ref rendered secrets") simp_all
    obtain s1 pin where p: "select_commit dp (j_job_id job) owner v s = (s1, Inr pin)"
      using run Some s v by (auto split: prod.splits sum.splits)
    show thesis using run at_ref [OF t r Some s v p] by (simp add: Some s v p)
  qed
qed

text \<open>
  C21. A ref that is rendered late is pinned and clean. When the pass builds the row of a deferred step,
  whatever other resolvers write into the memo meanwhile: no memo row is changed or lost, the tables are
  untouched, and the ref columns of the row carry the commit the memo has for that workspace and ref. If the
  template gave a value, the row has this value as its ref, runs the commit recorded for it, and the value
  contains neither a secret of the job's workspaces and pins nor a secret of the commit that it selects.
\<close>

theorem deferred_step_pinned:
  assumes "resolve_one dp cfg ws job rows row task defaults snaps s = (s', Inr new)"
    and "race_grows dp" and "resolve_keeps_ref (ce_refs (dp_creation dp))" and "pins_keyed (st_ref_pins s)"
    and "\<And>p. pin_of_job job = Some p \<Longrightarrow> pin_get (j_job_id job) ws (pr_git_ref p) (st_ref_pins s) = Some (pr_commit p)"
  shows "st_db s' = st_db s \<and> pins_grow (st_ref_pins s) (st_ref_pins s') \<and>
    pinned_col (j_job_id job) (st_ref_pins s') (ns_action_workspace new) (ns_action_ref new) (ns_action_revision new) \<and>
    pinned_col (j_job_id job) (st_ref_pins s') (ns_task_workspace new) (ns_task_ref new) (ns_task_revision new) \<and>
    (\<exists>template raw. js_ref_template row = Some template \<and>
       dp_render_ref dp template (rx_value (build (job_ctx_of job cfg snaps) (views rows) (loop_slot_of row) StepRef)) = Inr raw \<and>
       (\<forall>rendered. rendered_ref_value raw = Some rendered \<longrightarrow>
          (\<exists>owner commit secrets own_cfg.
             owner = (case js_action_workspace row of Some w \<Rightarrow> w | None \<Rightarrow> ws) \<and>
             ns_action_ref new = Some (trim rendered) \<and> ns_action_revision new = Some commit \<and>
             pin_get (j_job_id job) owner (trim rendered) (st_ref_pins s') = Some commit \<and>
             ref_secret_set dp job s = Inr secrets \<and> free_of secrets (trim rendered) \<and>
             pinned_config_private (dp_ensure dp) owner commit = Inr own_cfg \<and>
             free_of (pin_redaction_values (ce_configs (dp_creation dp)) (rw_configured (dp_world dp)) owner own_cfg)
               (trim rendered))))"
  using assms(1)
proof (cases rule: resolve_oneD)
  case (no_ref template raw fs)
  have ctx: "sx_job_id (deferred_ctx dp cfg ws job defaults) = j_job_id job"
    "sx_workspace_name (deferred_ctx dp cfg ws job defaults) = ws"
    "sx_job_pin (deferred_ctx dp cfg ws job defaults) = pin_of_job job" by (simp_all add: deferred_ctx_def)
  note b = build_row_pinned [OF no_ref(4) assms(2-4), unfolded ctx, OF assms(5)]
  show ?thesis using b build_row_db [OF no_ref(4)] no_ref(1-3) by simp
next
  case (at_ref template raw rendered secrets v s1 pin fs)
  let ?j = "j_job_id job" and ?owner = "case js_action_workspace row of Some w \<Rightarrow> w | None \<Rightarrow> ws"
  let ?own = "pin_redaction_values (ce_configs (dp_creation dp)) (rw_configured (dp_world dp)) ?owner"
  have ctx: "sx_job_id (deferred_ctx dp cfg ws job defaults) = j_job_id job"
    "sx_workspace_name (deferred_ctx dp cfg ws job defaults) = ws"
    "sx_job_pin (deferred_ctx dp cfg ws job defaults) = pin_of_job job" by (simp_all add: deferred_ctx_def)
  note c = select_commit_spec [OF at_ref(6) assms(2)] and v = checked_free [OF at_ref(5)]
  have job_pin: "pin_get ?j ws (pr_git_ref p) (st_ref_pins s1) = Some (pr_commit p)" if "pin_of_job job = Some p" for p
    by (rule pins_growD [OF c(3) assms(5) [OF that]])
  note b = build_row_pinned [OF at_ref(7) assms(2,3) select_commit_keyed [OF at_ref(6) assms(2,4)], unfolded ctx, OF job_pin]
  have grow: "pins_grow (st_ref_pins s1) (st_ref_pins s')"
    and a: "pinned_col ?j (st_ref_pins s') (ns_action_workspace new) (ns_action_ref new) (ns_action_revision new)"
    and t: "pinned_col ?j (st_ref_pins s') (ns_task_workspace new) (ns_task_ref new) (ns_task_revision new)"
    using b by simp_all
  have ref: "ns_action_ref new = Some v" by (rule build_row_ref [OF at_ref(7) assms(3)])
  have recorded: "pin_get ?j ?owner v (st_ref_pins s') = Some (pr_commit pin)" by (rule pins_growD [OF grow c(2)])
  have rev: "ns_action_revision new = Some (pr_commit pin)"
    using a build_row_owner [OF at_ref(7)] recorded unfolding pinned_col_def ref ctx by auto
  obtain own_cfg where own: "pinned_config_private (dp_ensure dp) ?owner (pr_commit pin) = Inr own_cfg"
      "\<not> isl (check_rendered_ref v (?own own_cfg))" using c(5) by blast
  obtain v' where v': "check_rendered_ref v (?own own_cfg) = Inr v'"
    using own(2) by (cases "check_rendered_ref v (?own own_cfg)") simp_all
  have clean: "free_of (?own own_cfg) v" using checked_free [OF v'] v(1) by (simp add: trim_trim)
  have db: "st_db s' = st_db s" using build_row_db [OF at_ref(7)] c(4) by simp
  show ?thesis
    using db pins_grow_trans [OF c(3) grow] a t at_ref(1-4) ref recorded rev own(1) clean v by auto
qed

section \<open>Example\<close>

text \<open>
  The step \<^verbatim>\<open>c\<close> of the example job takes its ref from a template. Its own resolution finds commit \<^verbatim>\<open>0\<close>, but
  another resolver records commit \<^verbatim>\<open>9\<close> for the same ref just before the first insert.
\<close>

definition calm_env :: dispatch_env where
  "calm_env = \<lparr>dp_creation = main_env, dp_engine = plain_engine, dp_ensure = (\<lambda>_ _. Inr main_cfg),
     dp_render_ref = (\<lambda>t _. Inr t), dp_schema = (\<lambda>_. Inr []), dp_snapshots = (\<lambda>_ _ _. default_snapshots),
     dp_attempt = (\<lambda>_. quiet_attempt), dp_collate = map byte, dp_show_uuid = show_nat, dp_max_params = 90,
     dp_now = 9, dp_utc_now = 9, dp_new_id = (\<lambda>s. length (jobs (st_db s)) + 1), dp_fuel = 20,
     dp_lost = (\<lambda>_. False), dp_pin_race = (\<lambda>_ t. t)\<rparr>"

definition race_env :: dispatch_env where
  "race_env = calm_env\<lparr>dp_pin_race := \<lambda>n t. if n = 2
     then pin_insert 2 \<lparr>jp_workspace = ''w'', jp_git_ref = ''dev'', jp_commit = ''9''\<rparr> t else t\<rparr>"

definition late_job :: job_row where
  "late_job = (test_default_job 2 0)\<lparr>j_workspace := ''w'', j_task_name := ''t''\<rparr>"

definition late_row :: job_step_row where
  "late_row = (test_default 2 ''a'')\<lparr>js_status := ''ready'', js_ref_template := Some ''dev''\<rparr>"

lemma race_env_grows: "race_grows race_env"
proof -
  have "pins_grow t (pin_insert j row t)" for t j row unfolding pins_grow_def by (simp add: pin_get_insert)
  then show ?thesis by (simp add: race_grows_def race_env_def pins_keyed_insert)
qed

definition nine :: job_ref_pin_row where
  "nine = \<lparr>jp_workspace = ''w'', jp_git_ref = ''dev'', jp_commit = ''9''\<rparr>"

definition late_store :: store where
  "late_store = main_store\<lparr>st_ref_pins := [(2, nine)]\<rparr>"

lemma dev_checked: "check_rendered_ref ''dev'' [] = Inr ''dev''" by code_simp

lemma late_secrets: "pinned_config_private (dp_ensure race_env) ws c = Inr main_cfg"
  "pin_redaction_values (ce_configs (dp_creation race_env)) (rw_configured (dp_world race_env)) ''w'' main_cfg = []"
  "ref_secret_set race_env late_job main_store = Inr []"
  subgoal by (simp add: pinned_config_private_def race_env_def calm_env_def)
  subgoal by code_simp
  subgoal by code_simp
  done

lemma late_selected: "select_commit race_env 2 ''w'' ''dev'' main_store = (late_store, Inr \<lparr>pr_git_ref = ''dev'', pr_commit = ''9''\<rparr>)"
proof -
  have p: "pin_get 2 ''w'' ''dev'' (st_ref_pins main_store) = None"
    "re_resolve (ce_refs (dp_creation race_env)) n ''w'' ''dev'' = Inr \<lparr>pr_git_ref = ''dev'', pr_commit = show_nat n\<rparr>" for n
    by (simp_all add: main_store_def pin_get_def race_env_def calm_env_def main_env_def)
  have i: "insert_first_wins 2 ''w'' ''dev'' ''0'' (dp_pin_race race_env 2 (st_ref_pins main_store)) = ([(2, nine)], Some ''9'')"
    "insert_first_wins 2 ''w'' ''dev'' ''9'' (dp_pin_race race_env 1 (st_ref_pins late_store)) = ([(2, nine)], Some ''9'')"
    "show_nat (length (st_ref_pins main_store)) = ''0''"
    by code_simp+
  have c: "commit_loop race_env 2 ''w'' ''dev'' (Suc n) commit s = 
     (case insert_first_wins 2 ''w'' ''dev'' commit (dp_pin_race race_env n (st_ref_pins s)) of
                  (t, None) \<Rightarrow> (s\<lparr>st_ref_pins := t\<rparr>, Inl (rendered_error RUnresolvable ''w''))
                | (t, Some stored) \<Rightarrow>
                     if stored = commit then (s\<lparr>st_ref_pins := t\<rparr>, Inr \<lparr>pr_git_ref = ''dev'', pr_commit = commit\<rparr>)
                     else commit_loop race_env 2 ''w'' ''dev'' n stored (s\<lparr>st_ref_pins := t\<rparr>))" for n commit s
    by (simp add: late_secrets dev_checked Let_def)
  have l: "main_store\<lparr>st_ref_pins := [(2, nine)]\<rparr> = late_store" "late_store\<lparr>st_ref_pins := [(2, nine)]\<rparr> = late_store"
    by (simp_all add: late_store_def)
  have "commit_loop race_env 2 ''w'' ''dev'' (Suc 2) ''0'' main_store = (late_store, Inr \<lparr>pr_git_ref = ''dev'', pr_commit = ''9''\<rparr>)"
    using i(2) unfolding c [of 2] i(1) by (simp add: l c [of 1, unfolded Suc_1])
  then have "commit_loop race_env 2 ''w'' ''dev'' 3 ''0'' main_store = (late_store, Inr \<lparr>pr_git_ref = ''dev'', pr_commit = ''9''\<rparr>)"
    by (simp only: eval_nat_numeral(3) [symmetric] numeral_3_eq_3 numeral_2_eq_2)
  then show ?thesis
    by (simp only: select_commit_def p option.case map_sum.simps pin_ref.select_convs i(3) sum.case)
qed

definition late_result :: "store \<times> (rendered_ref_error + new_job_step)" where
  "late_result = build_row race_env (deferred_ctx race_env main_cfg ''w'' late_job no_defaults) 3 ''a''
     ((plain_step [])\<lparr>fs_git_ref := Some ''main''\<rparr>) (Some ''dev'') ''w'' ''noop'' late_store"

lemma late_facts:
  "j_job_id late_job = 2" "js_action_workspace late_row = None" "js_ref_template late_row = Some ''dev''"
  "js_loop_source late_row = None" "js_step_name late_row = ''a''" "js_action_name late_row = ''noop''"
  "dp_render_ref race_env t c = Inr t"
  by (simp_all add: late_job_def late_row_def test_default_job_def test_default_def race_env_def calm_env_def)

lemma late_rendered: "trim ''dev'' = ''dev''" "rendered_ref_value ''dev'' = Some ''dev''"
  by (simp_all add: rendered_ref_value_def trim_graphic is_graphic_def byte_def)

lemma late_resolved:
  "resolve_one race_env main_cfg ''w'' late_job [late_row] late_row (plain_task main_flow) no_defaults default_snapshots main_store =
     late_result"
proof -
  have f: "map_of (td_flow (plain_task main_flow)) ''a'' = Some ((plain_step [])\<lparr>fs_git_ref := Some ''main''\<rparr>)"
    by (simp add: plain_task_def main_flow_def)
  have w: "((plain_step [])\<lparr>fs_git_ref := Some ''main''\<rparr>)\<lparr>fs_action := written_action ''w'' ''w'' ''noop''\<rparr> =
      (plain_step [])\<lparr>fs_git_ref := Some ''main''\<rparr>"
    by (simp add: written_action_def plain_step_def)
  show ?thesis
    by (simp only: resolve_one_def late_facts option.case Let_def f prod.case sum.case late_rendered late_secrets dev_checked
        late_selected w late_result_def)
qed

theorem deferred_step_pinned_witness:
  "\<exists>new. snd late_result = Inr new \<and> ns_action_ref new = Some ''dev'' \<and> ns_action_revision new = Some ''9'' \<and>
     pin_get 2 ''w'' ''dev'' (st_ref_pins (fst late_result)) = Some ''9''"
proof -
  have "\<not> isl (snd late_result)" by code_simp
  then obtain new where new: "late_result = (fst late_result, Inr new)"
    by (metis prod.collapse sum.collapse(2))
  have k: "resolve_keeps_ref (ce_refs (dp_creation race_env))" using main_keeps_ref by (simp add: race_env_def calm_env_def)
  have keyed: "pins_keyed (st_ref_pins main_store)" by (simp add: pins_keyed_def main_store_def)
  have pin: "pin_of_job late_job = None" by code_simp
  have nine: "pin_get 2 ''w'' ''dev'' (st_ref_pins (fst late_result)) = Some ''9''" by code_simp
  have "\<exists>owner commit. owner = ''w'' \<and> ns_action_ref new = Some ''dev'' \<and> ns_action_revision new = Some commit \<and>
      pin_get 2 owner ''dev'' (st_ref_pins (fst late_result)) = Some commit"
    using deferred_step_pinned [OF trans [OF late_resolved new] race_env_grows k keyed] pin
    by (auto simp: late_facts late_rendered)
  then show ?thesis using new nine by (metis option.inject snd_conv)
qed

end
