(* ===== verification/Job_Evolution.thy ===== *)
theory Job_Evolution
  imports Dispatch Deferred_Correct
begin

text \<open>
  How the table of jobs changes while jobs are created and dispatched: rows are only added, a row keeps its
  id, its parent and its source, and a job that has ended stays ended. The locale \<open>evolution\<close> carries this,
  together with a property of the added jobs, through every operation down to the creation of nested jobs;
  it also shows that two ways to create children that agree as long as the job is not too deep give the same
  initialisation.
\<close>

section \<open>Evolution of the jobs\<close>

definition job_ended :: "job_row \<Rightarrow> bool" where
  "job_ended j \<longleftrightarrow> j_status j \<notin> {''pending'', ''running''}"

definition job_kept :: "job_row \<Rightarrow> job_row \<Rightarrow> bool" where
  "job_kept j j' \<longleftrightarrow> j_job_id j' = j_job_id j \<and> j_parent_job_id j' = j_parent_job_id j \<and>
     j_source_type j' = j_source_type j \<and> j_source_id j' = j_source_id j \<and> (job_ended j \<longrightarrow> job_ended j')"

definition jobs_evolve :: "(job_row \<Rightarrow> bool) \<Rightarrow> db \<Rightarrow> db \<Rightarrow> bool" where
  "jobs_evolve Q d d' \<longleftrightarrow> (\<exists>old new. jobs d' = old @ new \<and> list_all2 job_kept (jobs d) old \<and> list_all Q new)"

lemma job_kept_refl [simp]: "job_kept j j"
  by (simp add: job_kept_def)

lemma job_kept_trans: "job_kept a b \<Longrightarrow> job_kept b c \<Longrightarrow> job_kept a c"
  by (simp add: job_kept_def)

text \<open>The parents of the jobs, and their growth.\<close>

definition links :: "db \<Rightarrow> (uuid \<times> uuid option) list" where
  "links d = map (\<lambda>j. (j_job_id j, j_parent_job_id j)) (jobs d)"

definition lineage :: "db \<Rightarrow> db \<Rightarrow> bool" where
  "lineage d d' \<longleftrightarrow> prefix (links d) (links d')"

lemma jobs_evolve_lineage:
  assumes "jobs_evolve Q d d'"
  shows "lineage d d'"
proof -
  obtain old new where j: "jobs d' = old @ new" "list_all2 job_kept (jobs d) old"
    using assms unfolding jobs_evolve_def by blast
  from j(2) have "map (\<lambda>j. (j_job_id j, j_parent_job_id j)) old = links d"
    unfolding links_def by (induction rule: list_all2_induct) (simp_all add: job_kept_def)
  then show ?thesis by (simp add: lineage_def links_def j(1) prefix_def)
qed

section \<open>Depth\<close>

lemma lineage_refl [simp]: "lineage d d"
  by (simp add: lineage_def)

lemma lineage_trans: "lineage a b \<Longrightarrow> lineage b c \<Longrightarrow> lineage a c"
  unfolding lineage_def by (rule prefix_order.trans)

lemma lineage_jobs: "jobs d' = jobs d \<Longrightarrow> lineage d d'"
  by (simp add: lineage_def links_def)

lemma parent_of: "Option.bind (job_get p d) j_parent_job_id = Option.bind (map_of (links d) p) (\<lambda>q. q)"
proof -
  have f: "map_option j_parent_job_id (find (\<lambda>j. j_job_id j = p) js) = map_of (map (\<lambda>j. (j_job_id j, j_parent_job_id j)) js) p" for js
    by (induction js) auto
  show ?thesis unfolding job_get_def select_one_def links_def f [symmetric]
    by (cases "find (\<lambda>j. j_job_id j = p) (jobs d)") simp_all
qed

lemma links_prefix: "lineage d d' \<Longrightarrow> map_of (links d) p = Some q \<Longrightarrow> map_of (links d') p = Some q"
  by (auto simp: lineage_def prefix_def)

lemma depth_walk_ge: "depth \<le> depth_walk d depth p"
proof (induction d depth p rule: depth_walk.induct)
  case (1 d depth parent)
  show ?case by (subst depth_walk.simps) (use 1 in \<open>auto split: option.split dest: Suc_leD\<close>)
qed

lemma depth_walk_le: "depth < MAX_TASK_DEPTH \<Longrightarrow> depth_walk d depth p \<le> MAX_TASK_DEPTH"
proof (induction d depth p rule: depth_walk.induct)
  case (1 d depth parent)
  show ?case by (subst depth_walk.simps) (use 1 in \<open>auto split: option.split\<close>)
qed

lemma depth_walk_mono: "lineage d d' \<Longrightarrow> depth_walk d depth p \<le> depth_walk d' depth p"
proof (induction d depth p rule: depth_walk.induct)
  case (1 d depth parent)
  show ?case
  proof (cases parent)
    case None
    then show ?thesis by (simp add: depth_walk.simps)
  next
    case (Some p)
    show ?thesis
    proof (cases "Suc depth \<ge> MAX_TASK_DEPTH")
      case False
      have IH: "depth_walk d (Suc depth) (Option.bind (job_get p d) j_parent_job_id) \<le>
          depth_walk d' (Suc depth) (Option.bind (job_get p d) j_parent_job_id)"
        by (rule "1.IH" [OF Some False "1.prems"])
      have "depth_walk d (Suc depth) (Option.bind (job_get p d) j_parent_job_id) \<le>
          depth_walk d' (Suc depth) (Option.bind (job_get p d') j_parent_job_id)"
      proof (cases "map_of (links d) p")
        case None
        then have "Option.bind (job_get p d) j_parent_job_id = None" by (simp add: parent_of)
        then have "depth_walk d (Suc depth) (Option.bind (job_get p d) j_parent_job_id) = Suc depth"
          by (simp add: depth_walk.simps)
        then show ?thesis using depth_walk_ge by simp
      next
        case q: (Some q)
        then have "Option.bind (job_get p d) j_parent_job_id = Option.bind (job_get p d') j_parent_job_id"
          using links_prefix [OF "1.prems" q] by (simp add: parent_of)
        then show ?thesis using IH by simp
      qed
      then show ?thesis using False Some by (simp add: depth_walk.simps [of _ depth])
    qed (use Some in \<open>simp add: depth_walk.simps\<close>)
  qed
qed

lemma depth_walk_Suc: "Suc depth < MAX_TASK_DEPTH \<Longrightarrow> min MAX_TASK_DEPTH (Suc (depth_walk d depth p)) \<le> depth_walk d (Suc depth) p"
proof (induction d depth p rule: depth_walk.induct)
  case (1 d depth parent)
  show ?case
  proof (cases parent)
    case None
    then show ?thesis by (simp add: depth_walk.simps)
  next
    case (Some p)
    let ?q = "Option.bind (job_get p d) j_parent_job_id"
    have walk: "depth_walk d depth parent = depth_walk d (Suc depth) ?q" using Some "1.prems" by (simp add: depth_walk.simps [of d depth])
    show ?thesis
    proof (cases "Suc (Suc depth) \<ge> MAX_TASK_DEPTH")
      case True
      then have "depth_walk d (Suc depth) parent = MAX_TASK_DEPTH"
        using Some "1.prems" by (simp add: depth_walk.simps [of d "Suc depth"])
      then show ?thesis by simp
    next
      case False
      have "depth_walk d (Suc depth) parent = depth_walk d (Suc (Suc depth)) ?q"
        using Some False by (simp add: depth_walk.simps [of d "Suc depth" "Some p"])
      then show ?thesis using "1.IH" [OF Some] "1.prems" False walk by simp
    qed
  qed
qed

lemma depth_walk_jobs: "jobs d' = jobs d \<Longrightarrow> depth_walk d' n p = depth_walk d n p"
  by (intro antisym depth_walk_mono lineage_jobs) simp_all

lemma depth_walk_links: "links d' = links d \<Longrightarrow> depth_walk d' n p = depth_walk d n p"
  by (intro antisym depth_walk_mono) (simp_all add: lineage_def)

section \<open>The operations\<close>

text \<open>The transactions of others keep the jobs too.\<close>

definition keeps_jobs :: "(job_row \<Rightarrow> bool) \<Rightarrow> dispatch_env \<Rightarrow> bool" where
  "keeps_jobs Q dp \<longleftrightarrow> (\<forall>n d. jobs_evolve Q d (at_job_read (dp_attempt dp n) d) \<and>
     jobs_evolve Q d (at_steps_read (dp_attempt dp n) d) \<and> jobs_evolve Q d (at_apply (dp_attempt dp n) d))"

definition creator_evolves :: "(job_row \<Rightarrow> bool) \<Rightarrow> creator \<Rightarrow> bool" where
  "creator_evolves Q create \<longleftrightarrow>
     (\<forall>req s. cr_source_type req = ''task'' \<longrightarrow> jobs_evolve Q (st_db s) (st_db (fst (create req s))))"

text \<open>
  Two creators that agree on the children of a job as long as the job is not too deep. \<open>par\<close> is the
  parent of the job.
\<close>

definition agree_below :: "(job_row \<Rightarrow> bool) \<Rightarrow> uuid \<Rightarrow> uuid option \<Rightarrow> store \<Rightarrow> creator \<Rightarrow> creator \<Rightarrow> bool" where
  "agree_below Q job_id par s0 c c' \<longleftrightarrow>
     (\<forall>req s. jobs_evolve Q (st_db s0) (st_db s) \<and> cr_parent_job_id req = Some job_id \<and>
        depth_walk (st_db s) 0 par < MAX_TASK_DEPTH \<longrightarrow> c req s = c' req s)"

abbreviation same_jobs :: "store \<Rightarrow> store \<Rightarrow> bool" where
  "same_jobs s s' \<equiv> jobs (st_db s') = jobs (st_db s)"

lemma write_jobs:
  "promote_steps_tx now job_id ns d = (d', n) \<Longrightarrow> jobs d' = jobs d"
  "fail_pending_step_tx now job_id step err d = (d', n) \<Longrightarrow> jobs d' = jobs d"
  "start_placeholder_tx now job_id step d = (d', n) \<Longrightarrow> jobs d' = jobs d"
  "complete_placeholder_tx now job_id step out d = (d', n) \<Longrightarrow> jobs d' = jobs d"
  "fail_placeholder_tx now job_id step err out' d = (d', n) \<Longrightarrow> jobs d' = jobs d"
  "skip_steps_tx now job_id ns reason d = (d', n) \<Longrightarrow> jobs d' = jobs d"
  using promote.jobs_kept [of now job_id ns d] fail_pending.jobs_kept [of now job_id step err d]
    start_placeholder.jobs_kept [of now job_id step d] complete_placeholder.jobs_kept [of now job_id step out d]
    fail_placeholder.jobs_kept [of now job_id step err out' d] skip.jobs_kept [of now job_id ns reason d] by simp_all

lemma skip_buckets_jobs: "skip_buckets now job_id bs (a, d) = Inr (a', d') \<Longrightarrow> jobs d' = jobs d"
  by (induction bs arbitrary: a d) (auto simp: Let_def split: prod.splits sum.splits dest: write_jobs(6))

lemma apply_changes_jobs:
  "apply_changes mp now utc_now job_id cs st = Inr st' \<Longrightarrow> jobs (snd (snd st')) = jobs (snd (snd st))"
proof (induction mp now utc_now job_id cs st rule: apply_changes.induct)
  case (2 mp now utc_now job_id step cs a mark d)
  obtain ns rest where t: "take_promotes (Promote step # cs) = (ns, rest)" by force
  obtain d1 n where w: "promote_steps_tx now job_id ns d = (d1, n)" by force
  show ?case using 2(1) [OF t [symmetric] refl w [symmetric] refl] 2(2) t w write_jobs(1) [OF w]
    by (auto simp: Let_def split: sum.splits)
next
  case (3 mp now utc_now job_id step reason cs a mark d)
  then show ?case by (auto simp: Let_def split: prod.splits sum.splits dest: skip_buckets_jobs)
next
  case (5 mp now utc_now job_id placeholder instances cs a mark d)
  obtain d1 n where w: "start_placeholder_tx now job_id placeholder d = (d1, n)" by force
  have "jobs d2 = jobs d" if "create_steps_tx mp utc_now instances d1 = Inr d2" for d2
    using create_steps_rows [OF that] write_jobs(3) [OF w] by simp
  moreover obtain d2 where c: "create_steps_tx mp utc_now instances d1 = Inr d2" "expect_rows n 1 placeholder = Inr ()"
      "apply_changes mp now utc_now job_id cs (a\<lparr>ap_expanded := ap_expanded a + 1\<rparr>, True, d2) = Inr st'"
    using 5(2) w by (auto simp: Let_def split: sum.splits)
  ultimately show ?case using 5(1) [OF w [symmetric] refl c(2,1,3)] by simp
next
  case (7 mp now utc_now job_id placeholder outcome cs a mark d)
  then show ?case by (auto simp: Let_def split: prod.splits sum.splits rollup_outcome.splits dest: write_jobs)
qed (auto simp: Let_def split: prod.splits sum.splits dest: write_jobs)

lemma commit_loop_db: "st_db (fst (commit_loop dp j owner v n commit s)) = st_db s"
  by (induction n arbitrary: commit s) (auto simp: Let_def split: sum.split prod.split option.split)

lemma select_commit_db: "st_db (fst (select_commit dp j owner v s)) = st_db s"
  using commit_loop_db by (auto simp: select_commit_def split: sum.split option.split)

lemma build_row_keeps: "st_db (fst (build_row dp ctx n name fs v owner an s)) = st_db s"
  using build_row_db by (metis prod.collapse)

lemma resolve_one_db: "st_db (fst (resolve_one dp cfg ws job rows row task defaults snaps s)) = st_db s"
proof -
  have "st_db (fst (case select_commit dp j owner v s of (s', Inl e) \<Rightarrow> (s', Inl e)
      | (s', Inr x) \<Rightarrow> build_row dp ctx n name fs r o' an s')) = st_db s" for j owner v ctx n name fs r o' an
    using select_commit_db [of dp j owner v s] build_row_keeps [of dp ctx n name fs r o' an] by (auto split: prod.split sum.split)
  then show ?thesis
    by (auto simp: resolve_one_def Let_def build_row_keeps split: option.split sum.split)
qed

lemma stamp_step_jobs: "same_jobs s (fst (stamp_step j n owner pin s))"
  by (simp add: stamp_step_def stamp_task_pin_def Let_def case_prod_beta row_simps)

lemma no_ref_task_jobs: "same_jobs s (fst (no_ref_task dp job row task_ref base_ws base_cfg s))"
  by (simp add: no_ref_task_def Let_def stamp_step_jobs split: sum.split option.split prod.split)

lemma templated_task_jobs:
  "same_jobs s (fst (resolve_templated_task_ref dp job jctx input_ctx row template task_ref base_ws base_cfg ws s))"
proof -
  have "same_jobs s (fst (case select_commit dp j owner v s of
      (s1, Inl e) \<Rightarrow> (s1, A e)
    | (s1, Inr pin) \<Rightarrow>
        if P pin then (s1, B)
        else (case F pin of
                Inl e \<Rightarrow> (s1, C e)
              | Inr cfg \<Rightarrow> if Q cfg then (s1, D) else stamp_step j n owner pin s1)))" for j owner v A P B F C Q D n
    using select_commit_db [of dp j owner v s] stamp_step_jobs by (auto split: prod.split sum.split)
  note commit = this
  show ?thesis
    unfolding resolve_templated_task_ref_def
    by (simp add: commit no_ref_task_jobs split: sum.split option.split ref_plan.split)
qed

lemma prepare_task_stepD:
  assumes "prepare_task_step dp cfg ws job rows snaps row spec task_ref s = (s1, stamp, r)"
  shows "same_jobs s s1" and "r = PrepReady call \<Longrightarrow> compute_depth (st_db s) job < MAX_TASK_DEPTH"
proof -
  have t: "same_jobs s s'" if "resolve_templated_task_ref dp job jctx ic row tpl task_ref bw bc ws s = (s', oc)" for jctx ic tpl bw bc s' oc
    using that templated_task_jobs by (metis fst_conv)
  show "same_jobs s s1"
    using assms t unfolding prepare_task_step_def
    by (auto simp: Let_def split: if_splits sum.splits option.splits prod.splits templated_task_ref.splits)
  show "compute_depth (st_db s) job < MAX_TASK_DEPTH" if "r = PrepReady call"
  proof (rule ccontr)
    assume "\<not> compute_depth (st_db s) job < MAX_TASK_DEPTH"
    then show False using assms that by (auto simp: prepare_task_step_def plain_failure_def Let_def)
  qed
qed

text \<open>The creation adds one job, with the parent and the source of the request.\<close>

lemma creation_tx_jobs:
  assumes "creation_tx mp now utc_now req job_id pp s = Inr s'"
  shows "\<exists>old job. jobs (st_db s') = old @ [job] \<and> list_all2 job_kept (jobs (st_db s)) old \<and> j_job_id job = job_id \<and>
    j_parent_job_id job = cr_parent_job_id req \<and> j_source_type job = cr_source_type req \<and> j_source_id job = cr_source_id req"
    and "map_of (links (st_db s)) job_id = None"
proof -
  obtain d1 d2 where d1: "insert_job_tx now req job_id pp (st_db s) = Inr d1"
      and d2: "create_steps_tx mp utc_now (pp_rows pp) d1 = Inr d2"
      and d3: "finish_tx now (cr_mode req) job_id d2 = Inr (st_db s')"
    using assms by (rule creation_txD)
  obtain job where job: "jobs d1 = jobs (st_db s) @ [job]" "j_job_id job = job_id"
      "j_parent_job_id job = cr_parent_job_id req" "j_source_type job = cr_source_type req" "j_source_id job = cr_source_id req"
      and fresh: "\<not> job_exists (st_db s) job_id"
    using d1 unfolding insert_job_tx_def create_with_parent_tx_id_def insert_job_def
    by (auto simp: new_job_row_def split: if_splits)
  have "list_all2 job_kept (jobs d2) (jobs (st_db s'))"
  proof (cases "cr_mode req")
    case (RetryMode a c n)
    have u: "list_all2 job_kept (jobs d) (jobs (fst (update_jobs w f d)))" if "\<And>j. job_kept j (f j)" for w f d
      using that by (simp add: row_simps list_all2_map2 list_all2_same)
    have "st_db s' = fst (update_jobs (\<lambda>j. j_job_id j = a) (\<lambda>j. j\<lparr>j_retry_job_id := Some job_id\<rparr>)
        (fst (update_jobs (\<lambda>j. j_job_id j = job_id) (\<lambda>j. j\<lparr>j_retry_of_job_id := Some c, j_retry_attempt := n\<rparr>) d2)))"
      using d3 RetryMode by (auto simp: finish_tx_def link_retry_tx_def case_prod_beta Let_def split: if_splits)
    then show ?thesis
      by (auto intro!: list_all2_trans [OF job_kept_trans u u] simp: job_kept_def job_ended_def)
  next
    case (RestartMode src plan)
    then have "jobs (st_db s') = jobs d2" using d3 seed_steps_rows by (auto simp: finish_tx_def split: sum.splits)
    then show ?thesis by (simp add: list_all2_same)
  qed (use d3 in \<open>simp_all add: finish_tx_def list_all2_same\<close>)
  then have "list_all2 job_kept (jobs (st_db s) @ [job]) (jobs (st_db s'))" using create_steps_rows [OF d2] job(1) by simp
  then obtain old job' where "jobs (st_db s') = old @ [job']" "list_all2 job_kept (jobs (st_db s)) old" "job_kept job job'"
    by (auto simp: list_all2_append1 list_all2_Cons1)
  with job(2-) show "\<exists>old job. jobs (st_db s') = old @ [job] \<and> list_all2 job_kept (jobs (st_db s)) old \<and> j_job_id job = job_id \<and>
    j_parent_job_id job = cr_parent_job_id req \<and> j_source_type job = cr_source_type req \<and> j_source_id job = cr_source_id req"
    by (auto simp: job_kept_def)
  show "map_of (links (st_db s)) job_id = None"
    using fresh by (auto simp: map_of_eq_None_iff links_def job_exists_def list_ex_iff)
qed

lemma created_link:
  assumes "creation_tx mp now utc_now req job_id pp s = Inr s1"
  shows "map_of (links (st_db s1)) job_id = Some (cr_parent_job_id req)" and "lineage (st_db s) (st_db s1)"
proof -
  obtain old job where j: "jobs (st_db s1) = old @ [job]" "list_all2 job_kept (jobs (st_db s)) old" "j_job_id job = job_id"
      "j_parent_job_id job = cr_parent_job_id req" using creation_tx_jobs(1) [OF assms] by blast
  from j(2) have l: "map (\<lambda>j. (j_job_id j, j_parent_job_id j)) old = links (st_db s)"
    unfolding links_def by (induction rule: list_all2_induct) (simp_all add: job_kept_def)
  then have "links (st_db s1) = links (st_db s) @ [(job_id, cr_parent_job_id req)]"
    unfolding links_def j(1) using j(3,4) by (simp add: links_def)
  with creation_tx_jobs(2) [OF assms] show "map_of (links (st_db s1)) job_id = Some (cr_parent_job_id req)"
    "lineage (st_db s) (st_db s1)" by (simp_all add: lineage_def map_add_def)
qed

section \<open>The contract\<close>

text \<open>\<open>Q\<close> is kept by the columns a job keeps, and holds of the child jobs that task steps create.\<close>

locale evolution =
  fixes Q :: "job_row \<Rightarrow> bool"
  assumes kept: "job_kept j j' \<Longrightarrow> Q j \<Longrightarrow> Q j'"
    and child: "j_source_type j = ''task'' \<Longrightarrow> Q j"
begin

abbreviation evolves :: "db \<Rightarrow> db \<Rightarrow> bool" where
  "evolves \<equiv> jobs_evolve Q"

abbreviation lineal :: "store \<Rightarrow> store \<Rightarrow> bool" where
  "lineal s s' \<equiv> jobs_evolve Q (st_db s) (st_db s')"

lemma evolves_kept: "list_all2 job_kept (jobs d) (jobs d') \<Longrightarrow> evolves d d'"
  unfolding jobs_evolve_def by (intro exI [of _ "jobs d'"] exI [of _ "[]"]) simp

lemma evolves_jobs: "jobs d' = jobs d \<Longrightarrow> evolves d d'"
  by (rule evolves_kept) (simp add: list_all2_same)

lemma evolution_refl [simp]: "evolves d d"
  by (rule evolves_jobs) simp

lemma evolution_trans:
  assumes "evolves a b" and "evolves b c"
  shows "evolves a c"
proof -
  obtain o1 n1 where b: "jobs b = o1 @ n1" "list_all2 job_kept (jobs a) o1" "list_all Q n1"
    using assms(1) unfolding jobs_evolve_def by blast
  obtain o2 n2 where c: "jobs c = o2 @ n2" "list_all2 job_kept (jobs b) o2" "list_all Q n2"
    using assms(2) unfolding jobs_evolve_def by blast
  obtain o3 n3 where o: "o2 = o3 @ n3" "list_all2 job_kept o1 o3" "list_all2 job_kept n1 n3"
    using c(2) unfolding b(1) by (auto simp: list_all2_append1)
  have "list_all Q n3" using o(3) b(3) by (induction rule: list_all2_induct) (auto intro: kept)
  moreover have "list_all2 job_kept (jobs a) o3" by (rule list_all2_trans [OF job_kept_trans b(2) o(2)])
  ultimately show ?thesis unfolding jobs_evolve_def using c(1,3) o(1) by (intro exI [of _ o3] exI [of _ "n3 @ n2"]) simp
qed

lemma evolves_steps [simp]: "evolves d (fst (update_steps w f d))"
  by (rule evolves_jobs) (simp add: row_simps)

lemma evolves_update_jobs:
  assumes "\<And>j. w j \<Longrightarrow> job_kept j (f j)"
  shows "evolves d (fst (update_jobs w f d))"
  by (rule evolves_kept) (use assms in \<open>simp add: row_simps list_all2_map2 list_all2_same\<close>)

lemma lineal_trans: "lineal a b \<Longrightarrow> lineal b c \<Longrightarrow> lineal a c"
  by (rule evolution_trans)

lemma evolves_apply_plan:
  assumes "apply_plan mp now utc_now job_id p d = Inr (a, d')"
  shows "evolves d d'"
proof -
  obtain mark d1 where d1: "apply_changes mp now utc_now job_id (pl_changes p) (applied_default, False, d) = Inr (a, mark, d1)"
      "d' = (if mark then mark_running_if_pending_tx now job_id d1 else d1)"
    using assms unfolding apply_plan_def by (auto split: sum.splits)
  have "evolves d1 (mark_running_if_pending_tx now job_id d1)"
    unfolding mark_running_if_pending_tx_def by (rule evolves_update_jobs) (simp add: job_kept_def job_ended_def)
  then show ?thesis using evolution_trans [OF evolves_jobs [OF apply_changes_jobs [OF d1(1), simplified]]] d1(2) by simp
qed

lemma evolves_execute_from:
  assumes "keeps_jobs Q dp"
  shows "execute_from mp (dp_attempt dp) collate show_uuid eng k left cause job_id task ws snaps d = Some (d', res) \<Longrightarrow> evolves d d'"
proof (induction left arbitrary: k cause d)
  case (Suc left)
  define d1 where "d1 = at_job_read (dp_attempt dp k) d"
  define d2 where "d2 = at_steps_read (dp_attempt dp k) d1"
  define d3 where "d3 = at_apply (dp_attempt dp k) d2"
  have "evolves d d1" "evolves d1 d2" "evolves d2 d3"
    using assms by (simp_all add: keeps_jobs_def d1_def d2_def d3_def)
  then have e: "evolves d d1" "evolves d d2" "evolves d d3" using evolution_trans by blast+
  note run = Suc.prems [unfolded execute_from.simps Let_def, folded d1_def, folded d2_def, folded d3_def]
  show ?case
  proof (cases "job_get job_id d1")
    case (Some job)
    note run = run [unfolded Some option.case]
    show ?thesis
    proof (cases "cascade_run eng task job (get_steps_for_job collate job_id d2) ws snaps")
      case p: (Some p)
      note run = run [unfolded p option.case]
      have ap: "evolves d d4" if "run_attempt mp (dp_attempt dp k) job_id p d3 = Inr (a, d4)" for a d4
        using that evolution_trans [OF e(3) evolves_apply_plan] by (auto simp: run_attempt_def split: if_splits)
      have again: "evolves d d'" if "execute_from mp (dp_attempt dp) collate show_uuid eng k' left c job_id task ws snaps d3 = Some (d', res)"
        for k' c using evolution_trans [OF e(3) Suc.IH [OF that]] .
      show ?thesis using run e ap again
        by (cases "run_attempt mp (dp_attempt dp k) job_id p d3") (auto split: if_splits apply_error.splits)
    qed (use run in simp)
  qed (use run e in simp)
qed simp

lemma evolves_execute:
  assumes "keeps_jobs Q dp"
    and "execute mp (dp_attempt dp) collate show_uuid eng job_id task ws snaps d = Some (d', res)"
  shows "evolves d d'"
  using assms(2) unfolding execute_def by (rule evolves_execute_from [OF assms(1)])

lemma evolves_settle: "evolves d (fst (settle_if_all_terminal collate now job_id task d))"
proof -
  have "evolves d (fst (settle_tx now job_id st out d))" for st out
    unfolding settle_tx_def sum_fst_conv by (rule evolves_update_jobs) (simp add: job_kept_def job_ended_def)
  then show ?thesis
    unfolding settle_if_all_terminal_def by (auto simp: Let_def case_prod_beta split: option.splits)
qed

lemma evolves_run_server: "evolves d (mark_running_if_pending_server now job_id d)"
  unfolding mark_running_if_pending_server_def by (rule evolves_update_jobs) (simp add: job_kept_def job_ended_def)

lemma lineal_recascade:
  assumes "keeps_jobs Q dp"
  shows "lineal s (recascade dp job_id task cfg snaps s)"
proof (cases "cascade_and_settle (dp_max_params dp) (dp_attempt dp) (dp_collate dp) (dp_show_uuid dp) (dp_engine dp)
             (dp_now dp) job_id task cfg snaps (st_db s)")
  case (Some x)
  obtain d' res where x: "x = (d', res)" by force
  obtain d1 r1 where e: "execute (dp_max_params dp) (dp_attempt dp) (dp_collate dp) (dp_show_uuid dp) (dp_engine dp) job_id task
      (Some cfg) snaps (st_db s) = Some (d1, r1)" and "d' = d1 \<or> d' = fst (settle_if_all_terminal (dp_collate dp) (dp_now dp) job_id task d1)"
    using Some x unfolding cascade_and_settle_def
    by (auto simp: Let_def case_prod_beta split: option.splits sum.splits)
  then have "evolves (st_db s) d'"
    using evolves_execute [OF assms e] evolution_trans [OF _ evolves_settle] by auto
  then show ?thesis using Some x by (simp add: recascade_def)
qed (simp add: recascade_def)

lemma lineal_fail_task_step:
  assumes "keeps_jobs Q dp"
  shows "lineal s (fst (fail_task_step dp job_id step err task cfg snaps extra withheld expected s))"
proof -
  let ?w = "\<lambda>msg. case expected of Some (status, pin) \<Rightarrow> fail_task_dispatch (dp_now dp) job_id step msg status pin (st_db s)
    | None \<Rightarrow> (mark_failed (dp_now dp) job_id step msg (st_db s), True)"
  have w: "evolves (st_db s) (fst (?w msg))" for msg
    by (auto simp: fail_task_dispatch_def mark_failed_def Let_def case_prod_beta split: option.split)
  have "evolves (st_db s) (st_db (recascade dp job_id task cfg snaps (s\<lparr>st_db := fst (?w msg)\<rparr>)))" for msg
    by (rule evolution_trans [OF w]) (use lineal_recascade [OF assms, of "s\<lparr>st_db := fst (?w msg)\<rparr>"] in simp)
  then show ?thesis using w by (simp add: fail_task_step_def Let_def case_prod_beta)
qed

lemma evolves_compensate: "evolves d (compensate now job_id msg d)"
proof -
  have "evolves d (job_mark_failed_tx now job_id d)"
    unfolding job_mark_failed_tx_def by (rule evolves_update_jobs) (simp add: job_kept_def job_ended_def)
  then show ?thesis
    unfolding compensate_def fail_non_terminal_steps_tx_def using evolution_trans [OF _ evolves_steps] by blast
qed

lemma evolves_creation_tx:
  assumes "creation_tx mp now utc_now req job_id pp s = Inr s1" and "cr_source_type req = ''task''"
  shows "lineal s s1"
  using creation_tx_jobs(1) [OF assms(1)] child assms(2) unfolding jobs_evolve_def by fastforce

text \<open>What follows the commit of a creation.\<close>

lemma lineal_creation_after:
  assumes "\<And>task s1 pp. creation_tx mp now utc_now req job_id pp s = Inr s1 \<Longrightarrow> lineal s1 (fst (start task s1))"
    and "create_job_for_task_inner env show_uuid mp now utc_now start req job_id s = (s', res)"
  shows "s' = s \<and> isl res \<or> (\<exists>pp s1. creation_tx mp now utc_now req job_id pp s = Inr s1 \<and> lineal s1 s')"
proof (cases "prepare_creation env show_uuid req job_id (st_db s)")
  case pp: (Inr pp)
  show ?thesis
  proof (cases "creation_tx mp now utc_now req job_id pp s")
    case s1: (Inr s1)
    obtain s2 r where i: "start (pp_task pp) s1 = (s2, r)" by force
    have g: "lineal s1 s2" using assms(1) [OF s1, of "pp_task pp"] i by simp
    have "lineal s1 s'"
      using assms(2) g evolution_trans [OF g evolves_compensate] pp s1 i
      by (auto simp: create_job_for_task_inner_def split: sum.splits)
    then show ?thesis using s1 by blast
  qed (use assms(2) pp in \<open>auto simp: create_job_for_task_inner_def\<close>)
qed (use assms(2) in \<open>auto simp: create_job_for_task_inner_def\<close>)

text \<open>Two runs over the same list agree and grow when each of their steps does.\<close>

lemma fold_run_agree:
  assumes "\<And>acc x s. x \<in> set xs \<Longrightarrow> lineal s0 s \<Longrightarrow> f acc x s = g acc x s \<and> lineal s (fst (f acc x s))" and "lineal s0 s"
  shows "fold_run f xs acc s = fold_run g xs acc s \<and> lineal s (fst (fold_run f xs acc s))"
  using assms
proof (induction xs arbitrary: acc s)
  case (Cons x xs)
  obtain s1 res where f: "f acc x s = (s1, res)" by force
  have x: "g acc x s = (s1, res)" "lineal s s1" using Cons.prems(1) [of x s acc] Cons.prems(2) f by simp_all
  show ?case
  proof (cases res)
    case (Inr acc')
    have "lineal s0 s1" by (rule lineal_trans [OF Cons.prems(2) x(2)])
    then have rest: "fold_run f xs acc' s1 = fold_run g xs acc' s1 \<and> lineal s1 (fst (fold_run f xs acc' s1))"
      by (intro Cons.IH Cons.prems(1)) auto
    show ?thesis using f x Inr rest lineal_trans [OF x(2) conjunct2 [OF rest]] by simp
  qed (use f x in simp)
qed simp

lemma lineal_resolve_step:
  assumes "keeps_jobs Q dp"
  shows "lineal s (fst (resolve_step dp cfg ws job rows task defaults snaps acc row s))"
proof -
  have leased: "lineal s (fst (resolve_leased dp cfg ws job rows task defaults snaps token row s))" for token s
  proof -
    obtain s1 res where o: "resolve_one dp cfg ws job rows row task defaults snaps s = (s1, res)" by force
    have s1: "st_db s1 = st_db s" using resolve_one_db [of dp cfg ws job rows row task defaults snaps s] o by simp
    have rd: "evolves (st_db s) d" if "resolve_deferred_tx now j n t new (st_db s1) = Inr (d, x)" for now j n t new d x
      using that s1 by (auto simp: resolve_deferred_tx_def Let_def case_prod_beta split: option.splits if_splits)
    have fd: "evolves (st_db s) (fst (fail_deferred_tx now j n t err (st_db s1)))" for now j n t err
      by (auto simp: fail_deferred_tx_def Let_def case_prod_beta s1 split: option.split)
    have rc: "evolves (st_db s) (st_db (recascade dp j task cfg snaps (s1\<lparr>st_db := fst (fail_deferred_tx now j n t err (st_db s1))\<rparr>)))"
      for now j n t err
      by (rule evolution_trans [OF fd]) (use lineal_recascade [OF assms, of "s1\<lparr>st_db := fst (fail_deferred_tx now j n t err (st_db s1))\<rparr>"] in simp)
    show ?thesis using o s1 rd fd rc
      by (auto simp: resolve_leased_def case_prod_beta split: sum.split prod.splits)
  qed
  obtain d taken where t: "take_resolve_lease (dp_now dp) (j_job_id job) (js_step_name row) (dp_new_id dp s)
      (seconds DEFERRED_LEASE_SECS) (st_db s) = (d, taken)" by force
  have d: "evolves (st_db s) d" using t by (auto simp: take_resolve_lease_def Let_def case_prod_beta)
  obtain s2 res where l: "resolve_leased dp cfg ws job rows task defaults snaps (dp_new_id dp s) row (s\<lparr>st_db := d\<rparr>) = (s2, res)"
    by force
  have "lineal s s2" using evolution_trans [OF d leased [of "s\<lparr>st_db := d\<rparr>" "dp_new_id dp s", simplified]] l by simp
  then show ?thesis using t d l by (auto simp: resolve_step_def Let_def split: sum.split)
qed

lemma lineal_resolve_pass:
  assumes "keeps_jobs Q dp"
  shows "lineal s (fst (resolve_pass dp cfg ws job_id task defaults snaps s))"
proof -
  have "lineal s (fst (fold_run (resolve_step dp cfg ws job rows task defaults snaps) xs acc s))" for job rows xs acc
    using fold_run_agree [of xs s "resolve_step dp cfg ws job rows task defaults snaps"
        "resolve_step dp cfg ws job rows task defaults snaps" s acc] lineal_resolve_step [OF assms] by simp
  then show ?thesis
    by (auto simp: resolve_pass_def Let_def split: option.split prod.split sum.split) (metis fst_conv)+
qed

lemma lineal_resolve_deferred_steps:
  assumes "keeps_jobs Q dp"
  shows "lineal s (fst (resolve_deferred_steps fuel passes dp cfg ws job_id task defaults snaps s))"
proof (induction fuel arbitrary: passes s)
  case (Suc fuel)
  obtain s1 res where p: "resolve_pass dp cfg ws job_id task defaults snaps s = (s1, res)" by force
  have s1: "lineal s s1" using lineal_resolve_pass [OF assms, of s cfg ws job_id task defaults snaps] p by simp
  show ?case using p s1 lineal_trans [OF s1 Suc.IH] by (auto split: sum.split)
qed simp

lemma lineal_approvals:
  assumes "keeps_jobs Q dp"
  shows "lineal s (fst (handle_approval_steps dp cfg job_id task snaps s))"
proof -
  have sus: "evolves d (suspend_approval dp j n m d)" for d j n m
    unfolding suspend_approval_def mark_suspended_def Let_def
    by (intro evolution_trans [OF _ evolves_run_server] evolution_trans [OF _ evolves_steps] evolution_refl)
  have inp: "evolves d (update_input j n v d)" for j n v d by (simp add: update_input_def)
  have one: "lineal s (handle_approval_step dp cfg job rows task snaps s row)" for job rows row s
  proof -
    have f: "lineal s (fst (fail_task_step dp j n e task cfg snaps x w ex (s\<lparr>st_db := update_input j n v (st_db s)\<rparr>)))"
      for j n e x w ex v
      by (rule evolution_trans [OF inp]) (use lineal_fail_task_step [OF assms, of "s\<lparr>st_db := update_input j n v (st_db s)\<rparr>"] in simp)
    show ?thesis
      by (simp add: handle_approval_step_def Let_def lineal_fail_task_step [OF assms] f sus inp evolution_trans [OF inp sus]
          split: sum.split option.split)
  qed
  have "lineal s (foldl (handle_approval_step dp cfg job rows task snaps) s xs)" for job rows xs s
    by (induction xs arbitrary: s) (auto intro: lineal_trans [OF one])
  then show ?thesis by (simp add: handle_approval_steps_def Let_def split: option.split)
qed

lemma dispatch_call_agree:
  assumes "keeps_jobs Q dp" and "creator_evolves Q c" and "agree_below Q (j_job_id job) (j_parent_job_id job) s0 c c'"
    and "lineal s0 s" and "compute_depth (st_db s) job < MAX_TASK_DEPTH"
  shows "dispatch_call dp c cfg ws job task defaults snaps row task_ref stamp call s =
      dispatch_call dp c' cfg ws job task defaults snaps row task_ref stamp call s \<and>
    lineal s (fst (dispatch_call dp c cfg ws job task defaults snaps row task_ref stamp call s))"
proof -
  obtain d claimed where cl: "claim_task_dispatch (dp_now dp) (j_job_id job) (js_step_name row) (stamp_cols stamp) (st_db s) = (d, claimed)"
    by force
  let ?d = "mark_running_if_pending_server (dp_now dp) (j_job_id job)
    (update_input (j_job_id job) (js_step_name row) (Some (if tk_base_ws call = ws then tk_input call else tk_caller call)) d)"
  let ?req = "child_request dp job row stamp call defaults" and ?s = "s\<lparr>st_db := ?d\<rparr>"
  have d: "jobs d = jobs (st_db s)" using cl by (auto simp: claim_task_dispatch_def Let_def case_prod_beta row_simps)
  have links: "links ?d = links (st_db s)"
    by (simp add: links_def mark_running_if_pending_server_def update_input_def row_simps d comp_def if_distrib cong: if_cong)
  have s: "lineal s ?s"
    using evolution_trans [OF evolves_jobs [OF d] evolution_trans [OF _ evolves_run_server]] by (simp add: update_input_def)
  have "depth_walk ?d 0 (j_parent_job_id job) < MAX_TASK_DEPTH"
    using assms(5) depth_walk_links [OF links] by (simp add: compute_depth_def)
  moreover have "cr_parent_job_id ?req = Some (j_job_id job)" by (simp add: child_request_def case_prod_beta)
  ultimately have eq: "c ?req ?s = c' ?req ?s"
    using assms(3) lineal_trans [OF assms(4) s] unfolding agree_below_def by simp
  obtain s2 res where c: "c ?req ?s = (s2, res)" by force
  have "cr_source_type ?req = ''task''" by (simp add: child_request_def case_prod_beta)
  then have "lineal ?s s2" using assms(2) c unfolding creator_evolves_def by (metis fst_conv)
  then have s2: "lineal s s2" by (rule lineal_trans [OF s])
  have f: "lineal s (fst (fail_task_step dp j n e task cfg snaps x w ex s2))" for j n e x w ex
    by (rule lineal_trans [OF s2 lineal_fail_task_step [OF assms(1)]])
  show ?thesis
    unfolding dispatch_call_def Let_def cl prod.case eq [symmetric] c
    by (cases claimed; cases res) (simp_all add: f s2 evolves_jobs [OF d])
qed

lemma handle_task_step_agree:
  assumes "keeps_jobs Q dp" and "creator_evolves Q c" and "agree_below Q (j_job_id job) (j_parent_job_id job) s0 c c'"
    and "lineal s0 s"
  shows "handle_task_step dp c cfg ws job rows task defaults snaps acc row s =
      handle_task_step dp c' cfg ws job rows task defaults snaps acc row s \<and>
    lineal s (fst (handle_task_step dp c cfg ws job rows task defaults snaps acc row s))"
proof (cases "\<exists>spec task_ref. js_action_spec row = Some spec \<and> json_get spec ''task'' = Some (String task_ref)")
  case True
  then obtain spec task_ref where t: "js_action_spec row = Some spec" "json_get spec ''task'' = Some (String task_ref)" by blast
  obtain s1 stamp r where p: "prepare_task_step dp cfg ws job rows snaps row spec task_ref s = (s1, stamp, r)" by (metis prod_cases3)
  have s1: "lineal s s1" by (rule evolves_jobs [OF prepare_task_stepD(1) [OF p]])
  show ?thesis
  proof (cases r)
    case (PrepFailed f)
    then show ?thesis using t p lineal_trans [OF s1 lineal_fail_task_step [OF assms(1)]]
      by (simp add: handle_task_step_def case_prod_beta)
  next
    case PrepMoved
    then show ?thesis using t p s1 by (simp add: handle_task_step_def)
  next
    case (PrepReady call)
    have "compute_depth (st_db s1) job < MAX_TASK_DEPTH"
      using prepare_task_stepD(2) [OF p PrepReady] depth_walk_jobs [OF prepare_task_stepD(1) [OF p]] by (simp add: compute_depth_def)
    note a = dispatch_call_agree [OF assms(1-3) lineal_trans [OF assms(4) s1] this]
    show ?thesis using t p PrepReady a lineal_trans [OF s1 conjunct2 [OF a]]
      by (simp add: handle_task_step_def case_prod_beta)
  qed
next
  case False
  let ?early = "js_status row \<noteq> step_status_str Ready \<or> js_action_type row \<noteq> ''task''"
  have run: "handle_task_step dp x cfg ws job rows task defaults snaps acc row s =
      (if ?early then (s, Inr acc)
       else if js_action_spec row = None then (s, Inl ''Missing action_spec for task step'')
       else (s, Inl ''Missing task field in action_spec''))" for x
  proof (cases "js_action_spec row")
    case (Some spec)
    show ?thesis
    proof (cases "json_get spec ''task''")
      case v: (Some v)
      have "\<nexists>t. v = String t" using False Some v by blast
      then show ?thesis unfolding handle_task_step_def Some option.case v by (cases v) simp_all
    qed (simp add: handle_task_step_def Some)
  qed (simp add: handle_task_step_def)
  show ?thesis unfolding run by simp
qed

lemma task_pass_agree:
  assumes "keeps_jobs Q dp" and "creator_evolves Q c" and "agree_below Q job_id par s0 c c'"
    and "map_of (links (st_db s0)) job_id = Some par" and "lineal s0 s"
  shows "handle_task_steps_pass dp c cfg ws job_id task defaults snaps s =
      handle_task_steps_pass dp c' cfg ws job_id task defaults snaps s \<and>
    lineal s (fst (handle_task_steps_pass dp c cfg ws job_id task defaults snaps s))"
proof (cases "job_get job_id (st_db s)")
  case (Some job)
  have id: "j_job_id job = job_id" using Some by (auto simp: job_get_def select_one_def dest: find_SomeD)
  have "j_parent_job_id job = par"
    using links_prefix [OF jobs_evolve_lineage [OF assms(5)] assms(4)] parent_of [of job_id "st_db s"] Some by simp
  with id assms(3) have a: "agree_below Q (j_job_id job) (j_parent_job_id job) s0 c c'" by simp
  have a': "agree_below Q (j_job_id job) (j_parent_job_id job) s c c'"
    using a lineal_trans [OF assms(5)] unfolding agree_below_def by blast
  show ?thesis
    using fold_run_agree [OF handle_task_step_agree [OF assms(1,2) a'] evolution_refl] Some
    by (simp add: handle_task_steps_pass_def Let_def)
qed (simp add: handle_task_steps_pass_def Let_def)

lemma task_passes_agree:
  assumes "keeps_jobs Q dp" and "creator_evolves Q c" and "agree_below Q job_id par s0 c c'"
    and "map_of (links (st_db s0)) job_id = Some par" and "lineal s0 s"
  shows "task_passes n dp c cfg ws job_id task defaults snaps s = task_passes n dp c' cfg ws job_id task defaults snaps s \<and>
    lineal s (fst (task_passes n dp c cfg ws job_id task defaults snaps s))"
  using assms(5)
proof (induction n arbitrary: s)
  case (Suc n)
  obtain s1 res where p: "handle_task_steps_pass dp c cfg ws job_id task defaults snaps s = (s1, res)" by force
  note a = task_pass_agree [OF assms(1-4) Suc.prems, of cfg ws task defaults snaps]
  have s1: "lineal s s1" using a p by simp
  note IH = Suc.IH [OF lineal_trans [OF Suc.prems s1]]
  show ?case using p a s1 IH lineal_trans [OF s1 conjunct2 [OF IH]] by (auto split: sum.split)
qed simp

lemma init_rounds_agree:
  assumes "keeps_jobs Q dp" and "creator_evolves Q c" and "agree_below Q job_id par s0 c c'"
    and "map_of (links (st_db s0)) job_id = Some par" and "lineal s0 s"
  shows "init_rounds n dp c cfg ws job_id task defaults snaps r s = init_rounds n dp c' cfg ws job_id task defaults snaps r s \<and>
    lineal s (fst (init_rounds n dp c cfg ws job_id task defaults snaps r s))"
  using assms(5)
proof (induction n arbitrary: r s)
  case (Suc n)
  obtain s1 r1 where d: "resolve_deferred_steps (dp_fuel dp) 0 dp cfg ws job_id task defaults snaps s = (s1, r1)" by force
  have s1: "lineal s s1"
    using lineal_resolve_deferred_steps [OF assms(1), of s "dp_fuel dp" 0 cfg ws job_id task defaults snaps] d by simp
  obtain s2 r2 where t: "handle_task_steps dp c cfg ws job_id task defaults snaps s1 = (s2, r2)" by force
  note a = task_passes_agree [OF assms(1-4) lineal_trans [OF Suc.prems s1], of "length (td_flow task) + 1" cfg ws task defaults snaps,
      folded handle_task_steps_def]
  have t': "handle_task_steps dp c' cfg ws job_id task defaults snaps s1 = (s2, r2)" "lineal s1 s2" using a t by simp_all
  obtain s3 r3 where ap: "handle_approval_steps dp cfg job_id task snaps s2 = (s3, r3)" by force
  have s3: "lineal s2 s3" using lineal_approvals [OF assms(1), of s2 cfg job_id task snaps] ap by simp
  have g: "lineal s s2" "lineal s s3" using lineal_trans [OF s1 t'(2)] lineal_trans [OF lineal_trans [OF s1 t'(2)] s3] by simp_all
  note IH = Suc.IH [OF lineal_trans [OF Suc.prems g(2)]]
  show ?case
    unfolding init_rounds.simps d prod.case t t'(1) ap
    using s1 g IH lineal_trans [OF g(2) conjunct2 [OF IH]] by (auto simp: Let_def split: sum.split prod.split)
qed simp

lemma init_agree:
  assumes "keeps_jobs Q dp" and "creator_evolves Q c" and "agree_below Q job_id par s c c'"
    and "map_of (links (st_db s)) job_id = Some par"
  shows "init dp c cfg ws job_id task_name defaults task s = init dp c' cfg ws job_id task_name defaults task s"
    and "lineal s (fst (init dp c cfg ws job_id task_name defaults task s))"
proof -
  let ?snaps = "init_snapshots dp ws job_id task_name s"
  have "init dp c cfg ws job_id task_name defaults task s = init dp c' cfg ws job_id task_name defaults task s \<and>
    lineal s (fst (init dp c cfg ws job_id task_name defaults task s))"
  proof (cases "execute (dp_max_params dp) (dp_attempt dp) (dp_collate dp) (dp_show_uuid dp) (dp_engine dp) job_id task
      (Some cfg) ?snaps (st_db s)")
    case (Some x)
    obtain d res where x: "x = (d, res)" by force
    let ?s1 = "s\<lparr>st_db := d\<rparr>"
    have d: "lineal s ?s1" using evolves_execute [OF assms(1)] Some x by simp
    obtain s2 r2 where i: "init_rounds (dp_fuel dp) dp c cfg ws job_id task defaults ?snaps (rounds_start dp job_id ?s1) ?s1 = (s2, r2)"
      by force
    note a = init_rounds_agree [OF assms d, of "dp_fuel dp" cfg ws task defaults ?snaps "rounds_start dp job_id ?s1"]
    have i': "init_rounds (dp_fuel dp) dp c' cfg ws job_id task defaults ?snaps (rounds_start dp job_id ?s1) ?s1 = (s2, r2)"
      using conjunct1 [OF a] i by simp
    have s2: "lineal s s2" using lineal_trans [OF d conjunct2 [OF a, unfolded i fst_conv]] .
    have st: "evolves (st_db s) (fst (settle_if_all_terminal collate now job_id task (st_db s2)))" for collate now
      by (rule evolution_trans [OF s2 evolves_settle])
    show ?thesis
      unfolding init_def Let_def Some option.case x prod.case i i'
      using d s2 st by (cases res; cases r2) (simp_all add: case_prod_beta)
  qed (simp add: init_def Let_def)
  then show "init dp c cfg ws job_id task_name defaults task s = init dp c' cfg ws job_id task_name defaults task s"
    and "lineal s (fst (init dp c cfg ws job_id task_name defaults task s))" by blast+
qed

lemma create_job_after:
  assumes "keeps_jobs Q dp" and "creator_evolves Q (create_job n dp)" and "create_job (Suc n) dp req s = (s', res)"
  shows "s' = s \<and> isl res \<or> (\<exists>pp s1. creation_tx (dp_max_params dp) (dp_now dp) (dp_utc_now dp) req (dp_new_id dp s) pp s = Inr s1 \<and>
    lineal s1 s')"
proof (rule lineal_creation_after)
  let ?init = "init dp (create_job n dp) (cr_workspace_config req) (cr_workspace req) (dp_new_id dp s) (cr_task_name req) (cr_defaults req)"
  show "create_job_for_task_inner (dp_creation dp) (dp_show_uuid dp) (dp_max_params dp) (dp_now dp) (dp_utc_now dp)
      ?init req (dp_new_id dp s) s = (s', res)" using assms(3) by (simp add: Let_def)
  show "lineal s1 (fst (?init task s1))"
    if "creation_tx (dp_max_params dp) (dp_now dp) (dp_utc_now dp) req (dp_new_id dp s) pp s = Inr s1" for task s1 pp
    by (rule init_agree(2) [where c' = "create_job n dp", OF assms(1,2) _ created_link(1) [OF that]]) (simp add: agree_below_def)
qed

lemma create_job_evolves:
  assumes "keeps_jobs Q dp"
  shows "creator_evolves Q (create_job n dp)"
proof (induction n)
  case 0
  show ?case by (simp add: creator_evolves_def)
next
  case (Suc n)
  have "lineal s (fst (create_job (Suc n) dp req s))" if "cr_source_type req = ''task''" for req s
  proof -
    obtain s' res where r: "create_job (Suc n) dp req s = (s', res)" by force
    have "lineal s s'" if "creation_tx (dp_max_params dp) (dp_now dp) (dp_utc_now dp) req (dp_new_id dp s) pp s = Inr s1"
        "lineal s1 s'" for pp s1
      by (rule evolution_trans [OF evolves_creation_tx [OF that(1) \<open>cr_source_type req = ''task''\<close>] that(2)])
    then show ?thesis using create_job_after [OF assms Suc.IH r] r by auto
  qed
  then show ?case by (simp add: creator_evolves_def)
qed

end

text \<open>The contract without a condition on the added jobs.\<close>

interpretation every_job: evolution "\<lambda>_. True"
  by unfold_locales simp_all

lemma evolve_job_get:
  assumes "jobs_evolve Q d d'" and "job_get i d = Some j"
  shows "\<exists>j'. job_get i d' = Some j' \<and> job_kept j j'"
proof -
  obtain old new where o: "jobs d' = old @ new" "list_all2 job_kept (jobs d) old" using assms(1) unfolding jobs_evolve_def by blast
  from o(2) assms(2) [unfolded job_get_def select_one_def] have "\<exists>j'. find (\<lambda>j. j_job_id j = i) (old @ new) = Some j' \<and> job_kept j j'"
    by (induction rule: list_all2_induct) (auto simp: job_kept_def split: if_splits)
  then show ?thesis by (simp add: job_get_def select_one_def o(1))
qed

end
