(* ===== verification/Dispatch_Correct.thy ===== *)
theory Dispatch_Correct
  imports Job_Evolution
begin

text \<open>
  What the dispatch of task steps guarantees: the creation of a job ends although a task step creates
  jobs in turn, and what a failing owner workspace reports does not reach a job of another workspace. One
  example shows a step that is left behind.
\<close>

section \<open>Nesting\<close>

text \<open>More fuel than the remaining depth changes nothing.\<close>

lemma create_job_fuel:
  assumes "keeps_jobs (\<lambda>_. True) dp" and "depth_walk (st_db s) 0 (cr_parent_job_id req) + n \<ge> Suc MAX_TASK_DEPTH"
  shows "create_job (n + k) dp req s = create_job n dp req s"
  using assms(2)
proof (induction n arbitrary: req s)
  case 0
  have "depth_walk (st_db s) 0 (cr_parent_job_id req) \<le> MAX_TASK_DEPTH" by (rule depth_walk_le) (simp add: MAX_TASK_DEPTH_def)
  then show ?case using 0 by simp
next
  case (Suc n)
  let ?id = "dp_new_id dp s" and ?par = "cr_parent_job_id req"
  let ?init = "\<lambda>m. init dp (create_job m dp) (cr_workspace_config req) (cr_workspace req) ?id (cr_task_name req) (cr_defaults req)"
  have "?init (n + k) task s1 = ?init n task s1"
    if c: "creation_tx (dp_max_params dp) (dp_now dp) (dp_utc_now dp) req ?id pp s = Inr s1" for task s1 pp
  proof (rule every_job.init_agree(1) [OF assms(1) every_job.create_job_evolves [OF assms(1)] _ created_link(1) [OF c]])
    show "agree_below (\<lambda>_. True) ?id ?par s1 (create_job (n + k) dp) (create_job n dp)"
      unfolding agree_below_def
    proof (intro allI impI, elim conjE)
      fix req' :: creation_request and s' :: store
      assume s': "jobs_evolve (\<lambda>_. True) (st_db s1) (st_db s')" "cr_parent_job_id req' = Some ?id" "depth_walk (st_db s') 0 ?par < MAX_TASK_DEPTH"
      have "map_of (links (st_db s')) ?id = Some ?par" by (rule links_prefix [OF jobs_evolve_lineage [OF s'(1)] created_link(1) [OF c]])
      then have "Option.bind (job_get ?id (st_db s')) j_parent_job_id = ?par" by (simp add: parent_of)
      then have "depth_walk (st_db s') 0 (Some ?id) = depth_walk (st_db s') (Suc 0) ?par"
        by (simp add: depth_walk.simps [of _ 0 "Some ?id"] MAX_TASK_DEPTH_def)
      moreover have "min MAX_TASK_DEPTH (Suc (depth_walk (st_db s') 0 ?par)) \<le> depth_walk (st_db s') (Suc 0) ?par"
        by (rule depth_walk_Suc) (simp add: MAX_TASK_DEPTH_def)
      moreover have "depth_walk (st_db s) 0 ?par \<le> depth_walk (st_db s') 0 ?par"
        by (rule depth_walk_mono [OF lineage_trans [OF created_link(2) [OF c] jobs_evolve_lineage [OF s'(1)]]])
      ultimately have "depth_walk (st_db s') 0 (cr_parent_job_id req') + n \<ge> Suc MAX_TASK_DEPTH"
        using Suc.prems s'(2,3) by simp
      then show "create_job (n + k) dp req' s' = create_job n dp req' s'" by (rule Suc.IH)
    qed
  qed
  then show ?case
    by (auto simp: Let_def create_job_for_task_inner_def split: sum.split)
qed

text \<open>
  C6. Creating a job ends. A task step of a new job creates a child job, whose creation dispatches its
  own task steps, and so on; a task may reach itself again through others. Whatever the tasks are, the
  nesting stops at the depth limit: for a job without a parent eleven levels give the result, and any
  further level changes neither the tables nor the answer, if other transactions keep the parents of jobs.
\<close>

theorem creation_nesting_bounded:
  assumes "keeps_jobs (\<lambda>_. True) dp" and "cr_parent_job_id req = None"
  shows "create_job (MAX_TASK_DEPTH + 1 + k) dp req s = create_job (MAX_TASK_DEPTH + 1) dp req s"
  by (rule create_job_fuel [OF assms(1)]) simp

section \<open>Errors of another workspace\<close>

text \<open>
  C31. The error of an owner workspace stays there. When the child of a task step cannot be created because
  a template or connection of the workspace that owns the task fails, and this is not the workspace of the
  calling job, then what the job's tables get does not depend on the error: two failing creations that leave
  the same tables give the same result, whatever secrets of the owner the two error texts contain.
\<close>

theorem owner_errors_withheld:
  assumes "\<And>req t. fst (c req t) = fst (c' req t)"
    and "\<And>req t. \<exists>e. snd (c req t) = Inl e \<and> is_owner_side_render e"
    and "\<And>req t. \<exists>e. snd (c' req t) = Inl e \<and> is_owner_side_render e"
    and "rk_workspace (tk_resolved call) \<noteq> ws"
  shows "dispatch_call dp c cfg ws job task defaults snaps row task_ref stamp call s =
      dispatch_call dp c' cfg ws job task defaults snaps row task_ref stamp call s"
proof -
  obtain d claimed where cl: "claim_task_dispatch (dp_now dp) (j_job_id job) (js_step_name row) (stamp_cols stamp) (st_db s) = (d, claimed)"
    by force
  let ?s = "s\<lparr>st_db := mark_running_if_pending_server (dp_now dp) (j_job_id job)
    (update_input (j_job_id job) (js_step_name row) (Some (if tk_base_ws call = ws then tk_input call else tk_caller call)) d)\<rparr>"
  let ?req = "child_request dp job row stamp call defaults"
  obtain e e' s1 where e: "c ?req ?s = (s1, Inl e)" "c' ?req ?s = (s1, Inl e')" "is_owner_side_render e" "is_owner_side_render e'"
    using assms(1-3) by (metis prod.collapse)
  have "fail_task_step dp j n err task cfg snaps x (Some w) ex t = fail_task_step dp j n err' task cfg snaps x (Some w) ex t"
    for j n err err' x w ex t by (simp add: fail_task_step_def persisted_error_def)
  then show ?thesis
    unfolding dispatch_call_def Let_def cl prod.case e using e(3,4) assms(4) by simp
qed

section \<open>Examples\<close>

lemma calm_env_jobs: "keeps_jobs (\<lambda>_. True) calm_env"
  by (simp add: keeps_jobs_def every_job.evolution_refl calm_env_def quiet_attempt_def)

theorem creation_nesting_bounded_witness:
  "create_job 20 calm_env main_req main_store = create_job 11 calm_env main_req main_store"
proof -
  have "cr_parent_job_id main_req = None" by (simp add: main_req_def create_job_for_task_detailed_def)
  from creation_nesting_bounded [OF calm_env_jobs this, of 9 main_store] show ?thesis by (simp add: MAX_TASK_DEPTH_def)
qed

text \<open>The owner is workspace \<^verbatim>\<open>x\<close>, the job is in \<^verbatim>\<open>w\<close>; the two errors differ.\<close>

definition failing_creator :: "string \<Rightarrow> creator" where
  "failing_creator err req s = (s, Inl (Owner_side_render (Msg err)))"

definition foreign_call :: task_call where
  "foreign_call = \<lparr>tk_resolved = \<lparr>rk_workspace = ''x'', rk_task_name = ''t'', rk_task = plain_task [], rk_config = None\<rparr>,
     tk_config = empty_config, tk_base_ws = ''w'', tk_caller = Object [], tk_input = Object [], tk_scrub = []\<rparr>"

theorem owner_errors_withheld_witness:
  "dispatch_call calm_env (failing_creator ''password hunter2'') main_cfg ''w'' late_job two_task no_defaults default_snapshots
      late_row ''x.t'' None foreign_call main_store =
   dispatch_call calm_env (failing_creator ''no such key'') main_cfg ''w'' late_job two_task no_defaults default_snapshots
      late_row ''x.t'' None foreign_call main_store"
  by (rule owner_errors_withheld) (simp_all add: failing_creator_def foreign_call_def)

text \<open>
  A flow of one sequential loop over three items, whose \<^verbatim>\<open>type: task\<close> instances may fail; the task does not exist.
\<close>

definition seq_env :: dispatch_env where
  "seq_env = calm_env\<lparr>dp_engine := plain_engine\<lparr>eng_from_str := \<lambda>_. Inr (Array [Null, Null, Null])\<rparr>\<rparr>"

definition seq_task :: task_def where
  "seq_task = plain_task [(''e'', (plain_step [])\<lparr>fs_continue_on_failure := True, fs_for_each := Some (String ''x''),
     fs_sequential := True\<rparr>)]"

definition seq_job :: job_row where
  "seq_job = (test_default_job 1 0)\<lparr>j_workspace := ''w'', j_task_name := ''t''\<rparr>"

definition seq_row :: step_record where
  "seq_row = (step_of 1 ''e'' ''pending'')\<lparr>js_action_type := ''task'', js_runner := ''none'',
     js_action_spec := Some (Object [(''task'', String ''x'')]), js_for_each_expr := Some ''x''\<rparr>"

definition seq_store :: store where
  "seq_store = \<lparr>st_db = \<lparr>jobs = [seq_job], steps = [seq_row]\<rparr>, st_ref_pins = [], st_files = no_tables\<rparr>"

definition seq_result :: "job_status option run" where
  "seq_result = init seq_env (failing_creator []) empty_config ''w'' 1 ''t'' no_defaults seq_task seq_store"

text \<open>The instances and the tables after the expansion and after each pass.\<close>

definition seq_inst :: "nat \<Rightarrow> string \<Rightarrow> step_record" where
  "seq_inst i status =
     (step_insert_row 5 (loop_instance 1 (snd (hd (td_flow seq_task))) (job_step_row.truncate seq_row) 3 (i, Null)))
       \<lparr>js_status := status, js_ready_at := if status = ''pending'' then None else Some 5,
        js_completed_at := if status = ''failed'' then Some 9 else None,
        js_error_message := if status = ''failed''
          then Some (''Failed to resolve task for step '' @ quote (instance_name ''e'' i) @ '': Task '' @ quote ''x'' @
            '' not found in workspace '' @ quote ''w'')
          else None\<rparr>"

definition seq_tables :: "string list \<Rightarrow> store" where
  "seq_tables statuses = seq_store\<lparr>st_db := \<lparr>jobs = [seq_job\<lparr>j_status := ''running'', j_started_at := Some 5\<rparr>],
     steps = seq_row\<lparr>js_status := ''running'', js_started_at := Some 5\<rparr> # map2 seq_inst [0..<3] statuses\<rparr>\<rparr>"

abbreviation seq_pass :: "store \<Rightarrow> bool run" where
  "seq_pass \<equiv> handle_task_steps_pass seq_env (failing_creator []) empty_config ''w'' 1 seq_task no_defaults
     (init_snapshots seq_env ''w'' 1 ''t'' seq_store)"

lemma seq_expanded:
  "map_option (map_prod id isl) (execute (dp_max_params seq_env) (dp_attempt seq_env) (dp_collate seq_env) (dp_show_uuid seq_env)
     (dp_engine seq_env) 1 seq_task (Some empty_config) (init_snapshots seq_env ''w'' 1 ''t'' seq_store) (st_db seq_store)) =
   Some (st_db (seq_tables [''ready'', ''pending'', ''pending'']), False)"
  by code_simp

lemma seq_first: "seq_pass (seq_tables [''ready'', ''pending'', ''pending'']) = (seq_tables [''failed'', ''ready'', ''pending''], Inr True)"
  by code_simp

lemma seq_second: "seq_pass (seq_tables [''failed'', ''ready'', ''pending'']) = (seq_tables [''failed'', ''failed'', ''ready''], Inr True)"
  by code_simp

lemma seq_rest:
  "get_ready_deferred_steps (dp_collate seq_env) 1 (st_db (seq_tables [''ready'', ''pending'', ''pending''])) = []"
  "get_ready_deferred_steps (dp_collate seq_env) 1 (st_db (seq_tables [''failed'', ''failed'', ''ready''])) = []"
  "handle_approval_steps seq_env empty_config 1 seq_task (init_snapshots seq_env ''w'' 1 ''t'' seq_store)
     (seq_tables [''failed'', ''failed'', ''ready'']) = (seq_tables [''failed'', ''failed'', ''ready''], Inr ())"
  "settle_if_all_terminal (dp_collate seq_env) (dp_now seq_env) 1 seq_task (st_db (seq_tables [''failed'', ''failed'', ''ready''])) =
     (st_db (seq_tables [''failed'', ''failed'', ''ready'']), None)"
  by code_simp+

lemma seq_run: "seq_result = (seq_tables [''failed'', ''failed'', ''ready''], Inr None)"
proof -
  let ?snaps = "init_snapshots seq_env ''w'' 1 ''t'' seq_store" and ?t0 = "seq_tables [''ready'', ''pending'', ''pending'']"
  let ?t2 = "seq_tables [''failed'', ''failed'', ''ready'']"
  obtain p where e: "execute (dp_max_params seq_env) (dp_attempt seq_env) (dp_collate seq_env) (dp_show_uuid seq_env)
      (dp_engine seq_env) 1 seq_task (Some empty_config) ?snaps (st_db seq_store) = Some (st_db ?t0, Inr p)"
    using seq_expanded by auto (metis sum.collapse(2))
  have st: "seq_store\<lparr>st_db := st_db ?t0\<rparr> = ?t0" "?t2\<lparr>st_db := st_db ?t2\<rparr> = ?t2" by (simp_all add: seq_tables_def)
  have len: "length (td_flow seq_task) + 1 = Suc (Suc 0)" by (simp add: seq_task_def plain_task_def)
  have tasks: "handle_task_steps seq_env (failing_creator []) empty_config ''w'' 1 seq_task no_defaults ?snaps ?t0 = (?t2, Inr ())"
    by (simp only: handle_task_steps_def len task_passes.simps seq_first seq_second prod.case sum.case if_True)
  have fuel: "dp_fuel seq_env = Suc 19" by (simp add: seq_env_def calm_env_def)
  have def: "resolve_deferred_steps (Suc 19) 0 seq_env empty_config ''w'' 1 seq_task no_defaults ?snaps ?t0 = (?t0, Inr ())"
    by (simp only: resolve_deferred_steps.simps resolve_pass_def Let_def seq_rest prod.case sum.case not_False_eq_True simp_thms if_True)
  have r: "rounds_start seq_env 1 ?t0 = \<lparr>dr_seen = Some [], dr_repeats = 0\<rparr>" by (simp add: rounds_start_def ready_deferred_def seq_rest [unfolded One_nat_def])
  have again: "rounds_again seq_env 1 ?t2 \<lparr>dr_seen = Some [], dr_repeats = 0\<rparr> = (\<lparr>dr_seen = Some [], dr_repeats = 0\<rparr>, False)"
    by (simp add: rounds_again_def ready_deferred_def seq_rest [unfolded One_nat_def] absorb_new_def)
  show ?thesis
    by (simp only: seq_result_def init_def Let_def e option.case prod.case sum.case st r fuel init_rounds.simps def tasks seq_rest again if_False)
qed


end
