(* ===== verification/Server_State.thy ===== *)
theory Server_State
  imports Dispatch Terminal
begin

text \<open>
  The state one replica works on: the tables of jobs and steps with the effects outside the database
  (\<open>world\<close>), the table of recorded refs, and the tables of input files. The creation of jobs sees it as a \<open>store\<close>.
\<close>

record server =
  sv_world :: world
  sv_ref_pins :: "(uuid \<times> job_ref_pin_row) list"
  sv_files :: file_tables

definition store_of :: "server \<Rightarrow> store" where
  "store_of sv = \<lparr>st_db = w_db (sv_world sv), st_ref_pins = sv_ref_pins sv, st_files = sv_files sv\<rparr>"

definition with_store :: "store \<Rightarrow> server \<Rightarrow> server" where
  "with_store s sv =
     sv\<lparr>sv_world := (sv_world sv)\<lparr>w_db := st_db s\<rparr>, sv_ref_pins := st_ref_pins s, sv_files := st_files s\<rparr>"

abbreviation sv_db :: "server \<Rightarrow> db" where
  "sv_db sv \<equiv> w_db (sv_world sv)"

definition put_world :: "world \<Rightarrow> server \<Rightarrow> server" where
  "put_world w sv = sv\<lparr>sv_world := w\<rparr>"

definition put_db :: "db \<Rightarrow> server \<Rightarrow> server" where
  "put_db d sv = sv\<lparr>sv_world := (sv_world sv)\<lparr>w_db := d\<rparr>\<rparr>"

definition happen :: "effect \<Rightarrow> server \<Rightarrow> server" where
  "happen e sv = sv\<lparr>sv_world := emit e (sv_world sv)\<rparr>"

text \<open>A line in the log of a job; the broadcast to viewers and peers is output.\<close>

definition server_log :: "uuid \<Rightarrow> string \<Rightarrow> server \<Rightarrow> server" where
  "server_log job_id message sv = happen (ServerLog job_id message) sv"

end
