(* ===== verification/Trigger_Fire.thy ===== *)
theory Trigger_Fire
  imports Server_State Cancel Trigger_Clock
begin

text \<open>
  What happens when a trigger fires: the target of its task reference (\<^verbatim>\<open>trigger_target.rs\<close>), the fire of a
  cron trigger with its concurrency policy (\<^verbatim>\<open>fire_trigger\<close> in \<^verbatim>\<open>scheduler.rs\<close>), and the webhook handler up to
  the creation of the job (\<^verbatim>\<open>web/hooks.rs\<close>). The hooks of suspended approval steps and the terminal handling
  of a job that is final at once are left to \<^verbatim>\<open>Terminal\<close>; the ids of the cancelled jobs are returned in
  the order in which they are advanced.
\<close>

section \<open>Targets\<close>

record resolved_target =
  tt_workspace :: string
  tt_task_name :: string
  tt_pin :: "pin_ref option"
  tt_task_folder :: "string option"
  tt_config :: workspace_config

definition target_revision :: "dispatch_env \<Rightarrow> resolved_target \<Rightarrow> string option" where
  "target_revision dp tgt =
     (case tt_pin tgt of Some p \<Rightarrow> Some (pr_commit p) | None \<Rightarrow> re_revision (ce_refs (dp_creation dp)) (tt_workspace tgt))"

definition target_pin_cols :: "resolved_target \<Rightarrow> job_pin_cols option" where
  "target_pin_cols tgt =
     map_option (\<lambda>p. \<lparr>pc_git_ref = pr_git_ref p, pc_task_folder = tt_task_folder tgt\<rparr>) (tt_pin tgt)"

definition resolve_trigger_target ::
    "dispatch_env \<Rightarrow> string \<Rightarrow> workspace_config \<Rightarrow> string \<Rightarrow> string option \<Rightarrow> app_error + resolved_target" where
  "resolve_trigger_target dp ws cfg task_ref git_ref =
     (case resolve_task_for_step (ce_refs (dp_creation dp)) ws cfg None task_ref git_ref \<lparr>rf_memo = [], rf_calls = 0\<rparr> of
        Inl e \<Rightarrow> Inl e
      | Inr ((resolved, pin), _) \<Rightarrow>
          (case (case pin of
                   Some p \<Rightarrow>
                     (case dp_ensure dp (rk_workspace resolved) (pr_commit p) of
                        Inl e \<Rightarrow> Inl (pin_error_for_user (rk_workspace resolved) p e)
                      | Inr c \<Rightarrow> Inr c)
                 | None \<Rightarrow> Inr (case rk_config resolved of Some c \<Rightarrow> c | None \<Rightarrow> cfg)) of
             Inl e \<Rightarrow> Inl e
           | Inr config \<Rightarrow>
               Inr \<lparr>tt_workspace = rk_workspace resolved, tt_task_name = rk_task_name resolved, tt_pin = pin,
                    tt_task_folder = (if pin \<noteq> None then td_folder (rk_task resolved) else None), tt_config = config\<rparr>))"

definition resolve_templated_trigger_target ::
    "dispatch_env \<Rightarrow> string \<Rightarrow> string \<Rightarrow> string \<Rightarrow> json \<Rightarrow> rendered_ref_error + resolved_target option" where
  "resolve_templated_trigger_target dp ws task_ref template input =
     (case plan_reference ws None task_ref (Some template) (dp_world dp) of
        Inl e \<Rightarrow> Inl (from_plan_error e ws)
      | Inr (Today _) \<Rightarrow> Inr None
      | Inr (AtRef tgt _) \<Rightarrow>
     (let owner = rt_owner tgt in
      case dp_render_ref dp template (rx_value (webhook_ref input)) of
        Inl e \<Rightarrow> Inl (rendered_from_error e owner)
      | Inr text \<Rightarrow>
     (case rendered_ref_value text of
        None \<Rightarrow> Inr None
      | Some rendered \<Rightarrow>
     (case check_rendered_ref rendered (collect_redaction_values (live_set dp ws None)) of
        Inl r \<Rightarrow> Inl (from_rejection r owner)
      | Inr v \<Rightarrow>
     (case re_resolve (ce_refs (dp_creation dp)) 0 owner v of
        Inl e \<Rightarrow> Inl (rendered_from_error e owner)
      | Inr pin \<Rightarrow>
     (case pinned_config_private (dp_ensure dp) owner (pr_commit pin) of
        Inl e \<Rightarrow> Inl (rendered_from_error e owner)
      | Inr cfg \<Rightarrow>
     (case check_rendered_ref v (pin_redaction_values (ce_configs (dp_creation dp)) (rw_configured (dp_world dp)) owner cfg) of
        Inl r \<Rightarrow> Inl (from_rejection r owner)
      | Inr _ \<Rightarrow>
     (case map_of (wc_tasks cfg) (rt_local_name tgt) of
        None \<Rightarrow> Inl (rendered_error RNoAction owner)
      | Some task \<Rightarrow>
          Inr (Some \<lparr>tt_workspace = owner, tt_task_name = rt_local_name tgt,
                     tt_pin = Some \<lparr>pr_git_ref = v, pr_commit = pr_commit pin\<rparr>,
                     tt_task_folder = td_folder task, tt_config = cfg\<rparr>)))))))))"

text \<open>The case \<^const>\<open>Today\<close> is unreachable: a ref is given.\<close>

definition target_request ::
    "dispatch_env \<Rightarrow> job_defaults \<Rightarrow> resolved_target \<Rightarrow> json \<Rightarrow> string \<Rightarrow> string \<Rightarrow> creation_request" where
  "target_request dp defaults tgt input source_type source_id =
     (case tt_pin tgt of
        Some p \<Rightarrow> create_job_for_task_pinned (tt_config tgt) (tt_workspace tgt) (tt_task_name tgt) input source_type
                    (Some source_id) (pr_commit p) (pr_git_ref p) NormalMode defaults Indirect
      | None \<Rightarrow> create_job_for_task_detailed (tt_config tgt) (tt_workspace tgt) (tt_task_name tgt) input source_type
                    (Some source_id) (target_revision dp tgt) None defaults Indirect)"

definition create_target_job ::
    "dispatch_env \<Rightarrow> job_defaults \<Rightarrow> resolved_target \<Rightarrow> json \<Rightarrow> string \<Rightarrow> string \<Rightarrow> store
       \<Rightarrow> store \<times> (app_error + uuid \<times> bool)" where
  "create_target_job dp defaults tgt input source_type source_id s =
     create_job (Suc MAX_TASK_DEPTH) dp (target_request dp defaults tgt input source_type source_id) s"

definition target_preflight :: "resolved_target \<Rightarrow> json \<Rightarrow> app_error + unit" where
  "target_preflight tgt input =
     (case map_of (wc_tasks (tt_config tgt)) (tt_task_name tgt) of
        Some task \<Rightarrow> preflight (td_input task) input
      | None \<Rightarrow> Inr ())"

section \<open>The jobs of a source\<close>

definition active_of_source :: "string \<Rightarrow> string \<Rightarrow> job_row \<Rightarrow> bool" where
  "active_of_source source_type source_id j \<longleftrightarrow>
     j_source_type j = source_type \<and> j_source_id j = Some source_id \<and> j_status j \<in> {''pending'', ''running''}"

definition count_active_by_source :: "string \<Rightarrow> string \<Rightarrow> db \<Rightarrow> nat" where
  "count_active_by_source source_type source_id d = length (filter (active_of_source source_type source_id) (jobs d))"

definition get_active_job_ids_by_source :: "string \<Rightarrow> string \<Rightarrow> db \<Rightarrow> uuid list" where
  "get_active_job_ids_by_source source_type source_id d =
     map j_job_id (filter (active_of_source source_type source_id) (jobs d))"

section \<open>A cron trigger fires\<close>

text \<open>
  \<open>fe_dispatch\<close> is what the server sees of the workspaces, after the
  reload that \<^verbatim>\<open>force_refresh\<close> asks for (finished, busy or failed) when its argument is true; \<open>fe_query_fails\<close>
  says whether the query for active jobs fails.
\<close>

record fire_env =
  fe_sched :: sched_env
  fe_dispatch :: "bool \<Rightarrow> dispatch_env"
  fe_defaults :: job_defaults
  fe_query_fails :: bool

datatype fire_outcome =
    Missed "app_error option"
  | NotDefined
  | SkippedRun "string + uuid"
  | Fired "uuid list" "app_error + uuid \<times> bool"

definition trigger_source :: "trigger_state \<Rightarrow> string" where
  "trigger_source t = tg_workspace t @ ''/'' @ tg_trigger_name t"

definition still_defined :: "sched_env \<Rightarrow> workspace_config \<Rightarrow> trigger_state \<Rightarrow> bool" where
  "still_defined env cfg t =
     (case map_of (wc_triggers cfg) (tg_trigger_name t) of
        Some def \<Rightarrow> se_def_json env def = tg_definition t
      | None \<Rightarrow> False)"

text \<open>Cancelling the active jobs, one after the other; the list was read before.\<close>

fun cancel_all :: "time \<Rightarrow> uuid list \<Rightarrow> world \<Rightarrow> (world \<times> uuid list) option" where
  "cancel_all now [] w = Some (w, [])"
| "cancel_all now (i # ids) w =
     (case cancel_job now i w of
        None \<Rightarrow> None
      | Some (w', advanced, _) \<Rightarrow> map_option (\<lambda>(w'', later). (w'', advanced @ later)) (cancel_all now ids w'))"

definition record_skipped ::
    "dispatch_env \<Rightarrow> resolved_target \<Rightarrow> json \<Rightarrow> string \<Rightarrow> server \<Rightarrow> server \<times> (string + uuid)" where
  "record_skipped dp tgt input source_id sv =
     (let job_id = dp_new_id dp (store_of sv) in
      case create_skipped (dp_now dp) job_id (tt_workspace tgt) (tt_task_name tgt) (Some input) ''trigger'' (Some source_id)
             (target_revision dp tgt) (target_pin_cols tgt) (w_db (sv_world sv)) of
        Inl e \<Rightarrow> (sv, Inl e)
      | Inr d \<Rightarrow> (sv\<lparr>sv_world := (sv_world sv)\<lparr>w_db := d\<rparr>\<rparr>, Inr job_id))"

definition fire_target ::
    "dispatch_env \<Rightarrow> job_defaults \<Rightarrow> resolved_target \<Rightarrow> json \<Rightarrow> string \<Rightarrow> uuid list \<Rightarrow> server \<Rightarrow> server \<times> fire_outcome" where
  "fire_target dp defaults tgt input source_id advanced sv =
     (let (s, res) = create_target_job dp defaults tgt input ''trigger'' source_id (store_of sv)
      in (with_store s sv, Fired advanced res))"

definition apply_policy ::
    "fire_env \<Rightarrow> dispatch_env \<Rightarrow> trigger_state \<Rightarrow> resolved_target \<Rightarrow> json \<Rightarrow> server \<Rightarrow> (server \<times> fire_outcome) option" where
  "apply_policy env dp t tgt input sv =
     (let source_id = trigger_source t; d = w_db (sv_world sv) in
      case tg_concurrency t of
        SkipRun \<Rightarrow>
          if \<not> fe_query_fails env \<and> 0 < count_active_by_source ''trigger'' source_id d
          then let (sv', res) = record_skipped dp tgt input source_id sv in Some (sv', SkippedRun res)
          else Some (fire_target dp (fe_defaults env) tgt input source_id [] sv)
      | CancelPrevious \<Rightarrow>
          if fe_query_fails env then Some (fire_target dp (fe_defaults env) tgt input source_id [] sv)
          else map_option (\<lambda>(w, advanced). fire_target dp (fe_defaults env) tgt input source_id advanced (sv\<lparr>sv_world := w\<rparr>))
                 (cancel_all (dp_now dp) (get_active_job_ids_by_source ''trigger'' source_id d) (sv_world sv))
      | AllowRuns \<Rightarrow> Some (fire_target dp (fe_defaults env) tgt input source_id [] sv))"

definition fire_trigger :: "fire_env \<Rightarrow> trigger_state \<Rightarrow> server \<Rightarrow> (server \<times> fire_outcome) option" where
  "fire_trigger env t sv =
     (let dp = fe_dispatch env (tg_force_refresh t); input = Object (tg_input t) in
      case re_live (ce_refs (dp_creation dp)) (tg_workspace t) of
        None \<Rightarrow> Some (sv, Missed None)
      | Some cfg \<Rightarrow>
          if \<not> still_defined (fe_sched env) cfg t then Some (sv, NotDefined)
          else case resolve_trigger_target dp (tg_workspace t) cfg (tg_task t) (tg_git_ref t) of
                 Inl e \<Rightarrow> Some (sv, Missed (Some e))
               | Inr tgt \<Rightarrow>
                   (case target_preflight tgt input of
                      Inl e \<Rightarrow> Some (sv, Missed (Some e))
                    | Inr _ \<Rightarrow> apply_policy env dp t tgt input sv))"

section \<open>A webhook is called\<close>

text \<open>
  The request; a header value that is not visible ASCII has no text. \<open>he_cached\<close> and \<open>he_current\<close> are the
  workspaces at the first look-up and at the second (after the reload, if one is asked for). The digest,
  the JSON reader and the lossy UTF-8 decoding of the body are library code.
\<close>

record webhook_request =
  wq_method :: string
  wq_headers :: "(string \<times> string option) list"
  wq_query :: "string hashmap"
  wq_body :: string

record hook_env =
  he_cached :: workspaces_view
  he_current :: workspaces_view
  he_dispatch :: dispatch_env
  he_defaults :: job_defaults
  he_digest :: "string \<Rightarrow> string"
  he_json :: "string \<Rightarrow> json option"
  he_lossy :: "string \<Rightarrow> string"

record webhook_match =
  wm_ws_name :: string
  wm_trigger_key :: string
  wm_task :: string
  wm_git_ref :: "string option"
  wm_secret :: "string option"
  wm_default_input :: "json hashmap"
  wm_mode :: "string option"
  wm_timeout_secs :: "nat option"
  wm_force_refresh :: bool

definition webhook_entry :: "string \<Rightarrow> string \<Rightarrow> string \<times> trigger_def \<Rightarrow> webhook_match option" where
  "webhook_entry ws_name name entry =
     (case snd entry of
        trigger_def.Webhook w \<Rightarrow>
          if wd_name w = name \<and> wd_enabled w
          then Some \<lparr>wm_ws_name = ws_name, wm_trigger_key = fst entry, wm_task = wd_task w, wm_git_ref = wd_git_ref w,
                     wm_secret = wd_secret w, wm_default_input = wd_input w, wm_mode = wd_mode w,
                     wm_timeout_secs = wd_timeout_secs w, wm_force_refresh = wd_force_refresh w\<rparr>
          else None
      | _ \<Rightarrow> None)"

fun find_map :: "('a \<Rightarrow> 'b option) \<Rightarrow> 'a list \<Rightarrow> 'b option" where
  "find_map f [] = None"
| "find_map f (x # xs) = (case f x of Some y \<Rightarrow> Some y | None \<Rightarrow> find_map f xs)"

definition match_webhook :: "string \<Rightarrow> workspace_config \<Rightarrow> string \<Rightarrow> webhook_match option" where
  "match_webhook ws_name cfg name = find_map (webhook_entry ws_name name) (wc_triggers cfg)"

definition find_webhook_trigger_in :: "workspaces_view \<Rightarrow> string \<Rightarrow> string \<Rightarrow> webhook_match option" where
  "find_webhook_trigger_in view name ws_name =
     (if \<not> wv_triggers_enabled view ws_name then None
      else Option.bind (wv_config view ws_name) (\<lambda>cfg. match_webhook ws_name cfg name))"

definition find_webhook_trigger :: "workspaces_view \<Rightarrow> string \<Rightarrow> webhook_match option" where
  "find_webhook_trigger view name = find_map (find_webhook_trigger_in view name) (wv_names view)"

text \<open>The header map gives the first value of a name.\<close>

definition header :: "webhook_request \<Rightarrow> string \<Rightarrow> string option" where
  "header req name = Option.bind (map_of (wq_headers req) name) id"

definition provided_secret :: "webhook_request \<Rightarrow> string option" where
  "provided_secret req =
     (case map_of (wq_query req) ''secret'' of
        Some v \<Rightarrow> Some v
      | None \<Rightarrow> Option.bind (header req ''authorization'') (strip_prefix ''Bearer ''))"

definition secret_valid :: "(string \<Rightarrow> string) \<Rightarrow> webhook_match \<Rightarrow> webhook_request \<Rightarrow> bool" where
  "secret_valid digest wh req =
     (case wm_secret wh of
        None \<Rightarrow> True
      | Some expected \<Rightarrow>
          (case provided_secret req of Some given \<Rightarrow> digest given = digest expected | None \<Rightarrow> False))"

definition webhook_body :: "hook_env \<Rightarrow> webhook_request \<Rightarrow> json" where
  "webhook_body env req =
     (let as_text = String (he_lossy env (wq_body req)) in
      if wq_method req = ''GET'' then Null
      else if (case header req ''content-type'' of Some ct \<Rightarrow> contains ct ''application/json'' | None \<Rightarrow> False)
      then (case he_json env (wq_body req) of Some v \<Rightarrow> v | None \<Rightarrow> as_text)
      else if wq_body req = [] then Null else as_text)"

text \<open>Of a repeated header the last value is taken.\<close>

definition header_values :: "webhook_request \<Rightarrow> json hashmap" where
  "header_values req =
     foldl (\<lambda>m (k, v). case v of Some t \<Rightarrow> obj_insert k (String t) m | None \<Rightarrow> m) [] (wq_headers req)"

definition reserved_keys :: "string list" where
  "reserved_keys = [''body'', ''headers'', ''method'', ''query'']"

definition build_webhook_input :: "hook_env \<Rightarrow> webhook_request \<Rightarrow> json hashmap \<Rightarrow> json hashmap" where
  "build_webhook_input env req defaults =
     foldl (\<lambda>m (k, v). if k \<in> set reserved_keys then m else obj_insert k v m)
       [(''body'', webhook_body env req), (''headers'', Object (header_values req)), (''method'', String (wq_method req)),
        (''query'', Object (map (\<lambda>(k, v). (k, String v)) (filter (\<lambda>e. fst e \<noteq> ''secret'') (wq_query req))))]
       defaults"

definition DEFAULT_SYNC_TIMEOUT_SECS :: nat where
  "DEFAULT_SYNC_TIMEOUT_SECS = 30"

datatype hook_reply =
    HookNotFound
  | HookUnauthorized
  | HookUnavailable string
  | HookFailed app_error
  | HookRefFailed rendered_ref_error
  | HookStarted uuid bool nat

text \<open>The definition the job is created from and its workspace.\<close>

definition webhook_definition ::
    "hook_env \<Rightarrow> string \<Rightarrow> webhook_request \<Rightarrow> hook_reply + webhook_match \<times> workspace_config" where
  "webhook_definition env name req =
     (case find_webhook_trigger (he_cached env) name of
        None \<Rightarrow> Inl HookNotFound
      | Some cached \<Rightarrow>
          if \<not> secret_valid (he_digest env) cached req then Inl HookUnauthorized
          else if wm_force_refresh cached
          then (case wv_config (he_current env) (wm_ws_name cached) of
                  None \<Rightarrow> Inl (HookUnavailable (wm_ws_name cached))
                | Some cfg \<Rightarrow>
                    (case match_webhook (wm_ws_name cached) cfg name of
                       None \<Rightarrow> Inl HookNotFound
                     | Some fresh \<Rightarrow>
                         if \<not> secret_valid (he_digest env) fresh req then Inl HookUnauthorized else Inr (fresh, cfg)))
          else (case wv_config (he_current env) (wm_ws_name cached) of
                  None \<Rightarrow> Inl (HookUnavailable (wm_ws_name cached))
                | Some cfg \<Rightarrow> Inr (cached, cfg)))"

definition webhook_target ::
    "dispatch_env \<Rightarrow> webhook_match \<Rightarrow> workspace_config \<Rightarrow> json \<Rightarrow> hook_reply + resolved_target" where
  "webhook_target dp wh cfg input =
     (let static = (\<lambda>r. case resolve_trigger_target dp (wm_ws_name wh) cfg (wm_task wh) r of
            Inl e \<Rightarrow> Inl (HookFailed e) | Inr tgt \<Rightarrow> Inr tgt)
      in case wm_git_ref wh of
           Some t \<Rightarrow>
             if classify_ref t = TemplateRef
             then (case resolve_templated_trigger_target dp (wm_ws_name wh) (wm_task wh) t input of
                     Inl e \<Rightarrow> Inl (HookRefFailed e)
                   | Inr (Some tgt) \<Rightarrow> Inr tgt
                   | Inr None \<Rightarrow> static None)
             else static (Some t)
         | None \<Rightarrow> static None)"

definition webhook_handler :: "hook_env \<Rightarrow> string \<Rightarrow> webhook_request \<Rightarrow> store \<Rightarrow> store \<times> hook_reply" where
  "webhook_handler env name req s =
     (case webhook_definition env name req of
        Inl r \<Rightarrow> (s, r)
      | Inr (wh, cfg) \<Rightarrow>
          (let input = Object (build_webhook_input env req (wm_default_input wh));
               source_id = wm_ws_name wh @ ''/'' @ wm_trigger_key wh
           in case webhook_target (he_dispatch env) wh cfg input of
                Inl r \<Rightarrow> (s, r)
              | Inr tgt \<Rightarrow>
                  (case target_preflight tgt input of
                     Inl e \<Rightarrow> (s, HookFailed e)
                   | Inr _ \<Rightarrow>
                       (case create_target_job (he_dispatch env) (he_defaults env) tgt input ''webhook'' source_id s of
                          (s', Inl e) \<Rightarrow> (s', HookFailed (Context ''create webhook job'' e))
                        | (s', Inr (job_id, _)) \<Rightarrow>
                            (s', HookStarted job_id (wm_mode wh = Some ''sync'')
                               (case wm_timeout_secs wh of Some t \<Rightarrow> t | None \<Rightarrow> DEFAULT_SYNC_TIMEOUT_SECS))))))"

text \<open>The status of a job, for who holds the secret of the webhook; the job that is shown, or the error.\<close>

datatype status_reply = StatusUnknownHook | StatusUnauthorized | StatusUnknownJob | StatusOf job_row

definition webhook_job_status :: "hook_env \<Rightarrow> string \<Rightarrow> webhook_request \<Rightarrow> uuid \<Rightarrow> db \<Rightarrow> status_reply" where
  "webhook_job_status env name req job_id d =
     (case find_webhook_trigger (he_cached env) name of
        None \<Rightarrow> StatusUnknownHook
      | Some wh \<Rightarrow>
          if \<not> secret_valid (he_digest env) wh req then StatusUnauthorized
          else case job_get job_id d of
                 None \<Rightarrow> StatusUnknownJob
               | Some job \<Rightarrow>
                   if j_source_type job \<noteq> ''webhook'' \<or> j_source_id job \<noteq> Some (wm_ws_name wh @ ''/'' @ wm_trigger_key wh)
                   then StatusUnknownJob else StatusOf job)"

end
