(* ===== verification/Trigger_Correct.thy ===== *)
theory Trigger_Correct
  imports Trigger_Fire Job_Evolution
begin

text \<open>
  What a fire does to the jobs of its trigger: a missed fire leaves everything as it is, \<^verbatim>\<open>skip\<close> never
  starts a second run and \<^verbatim>\<open>cancel_previous\<close> ends every earlier one; and what a webhook call needs before
  it creates a job.
\<close>

section \<open>Active jobs of one source\<close>

text \<open>The jobs that do not come from the trigger with source \<open>src\<close>.\<close>

definition foreign_job :: "string \<Rightarrow> job_row \<Rightarrow> bool" where
  "foreign_job src j \<longleftrightarrow> \<not> (j_source_type j = ''trigger'' \<and> j_source_id j = Some src)"

interpretation foreign: evolution "foreign_job src" for src
  by unfold_locales (auto simp: foreign_job_def job_kept_def)

abbreviation active :: "string \<Rightarrow> db \<Rightarrow> nat" where
  "active src d \<equiv> count_active_by_source ''trigger'' src d"

lemma active_kept: "job_kept j j' \<Longrightarrow> active_of_source st src j' \<Longrightarrow> active_of_source st src j"
  by (auto simp: job_kept_def active_of_source_def job_ended_def)

lemma active_le:
  assumes "list_all2 job_kept xs ys"
  shows "length (filter (active_of_source st src) ys) \<le> length (filter (active_of_source st src) xs)"
  using assms by (induction rule: list_all2_induct) (auto dest: active_kept)

lemma foreign_inactive: "list_all (foreign_job src) xs \<Longrightarrow> filter (active_of_source ''trigger'' src) xs = []"
  by (auto simp: list_all_iff filter_empty_conv foreign_job_def active_of_source_def)

lemma active_evolve:
  assumes "jobs_evolve (foreign_job src) d d'"
  shows "active src d' \<le> active src d"
proof -
  obtain old new where "jobs d' = old @ new" "list_all2 job_kept (jobs d) old" "list_all (foreign_job src) new"
    using assms unfolding jobs_evolve_def by blast
  then show ?thesis using active_le foreign_inactive by (simp add: count_active_by_source_def)
qed

text \<open>A creation adds at most one active job of its source, whatever child jobs it starts.\<close>

lemma active_create_job:
  assumes "create_job (Suc n) dp req s = (s', res)" and "keeps_jobs (foreign_job src) dp"
  shows "active src (st_db s') \<le> Suc (active src (st_db s))"
proof -
  from foreign.create_job_after [OF assms(2) foreign.create_job_evolves [OF assms(2)] assms(1)]
  consider "s' = s" | pp s1 where "creation_tx (dp_max_params dp) (dp_now dp) (dp_utc_now dp) req (dp_new_id dp s) pp s = Inr s1"
      "jobs_evolve (foreign_job src) (st_db s1) (st_db s')" by blast
  then show ?thesis
  proof cases
    case 2
    obtain old job where "jobs (st_db s1) = old @ [job]" "list_all2 job_kept (jobs (st_db s)) old"
      using creation_tx_jobs(1) [OF 2(1)] by blast
    then have "active src (st_db s1) \<le> Suc (active src (st_db s))"
      using active_le [of "jobs (st_db s)" old "''trigger''" src] by (simp add: count_active_by_source_def)
    then show ?thesis using active_evolve [OF 2(2)] by simp
  qed simp
qed

section \<open>Cancelling the previous runs\<close>

lemma cancel_set_kept: "list_all2 job_kept (jobs d) (jobs (cancel_set now S d))"
  by (simp add: cancel_set_def list_all2_map2 list_all2_same)
    (auto simp: cancel_row_def job_kept_def job_ended_def)

lemma live_active: "j \<in> set (jobs d) \<Longrightarrow> active_of_source st src j \<Longrightarrow> j_job_id j \<in> live_ids d"
  by (auto simp: live_ids_def active_of_source_def job_live_def)

lemma cancel_job_spec:
  "\<exists>w' advanced res S. cancel_job now i w = Some (w', advanced, res) \<and> w_db w' = cancel_set now S (w_db w) \<and>
     i \<notin> live_ids (w_db w')"
proof -
  obtain w' advanced res S where r: "cancel_job now i w = Some (w', advanced, res)" "cancelled_to now S w w' advanced"
      "downward (w_db w) {i} S"
    using cancel_spec [of w "Suc (live_count (w_db w))" now i] unfolding cancel_job_def cancels_def by auto
  have db: "w_db w' = cancel_set now S (w_db w)" using r(2) by (simp add: cancelled_to_def)
  moreover have "i \<notin> live_ids (w_db w')" using r(3) unfolding db live_cancel_set downward_def by blast
  ultimately show ?thesis using r(1) by blast
qed

lemma cancel_all_spec:
  "\<exists>w' advanced. cancel_all now ids w = Some (w', advanced) \<and> list_all2 job_kept (jobs (w_db w)) (jobs (w_db w')) \<and>
     live_ids (w_db w') \<subseteq> live_ids (w_db w) - set ids"
proof (induction ids arbitrary: w)
  case (Cons i ids)
  obtain w1 a1 res S where 1: "cancel_job now i w = Some (w1, a1, res)" "w_db w1 = cancel_set now S (w_db w)" "i \<notin> live_ids (w_db w1)"
    using cancel_job_spec by blast
  obtain w2 a2 where 2: "cancel_all now ids w1 = Some (w2, a2)" "list_all2 job_kept (jobs (w_db w1)) (jobs (w_db w2))"
      "live_ids (w_db w2) \<subseteq> live_ids (w_db w1) - set ids" using Cons.IH by blast
  have "list_all2 job_kept (jobs (w_db w)) (jobs (w_db w2))"
    by (rule list_all2_trans [OF job_kept_trans cancel_set_kept 2(2) [unfolded 1(2)]])
  moreover have "live_ids (w_db w1) \<subseteq> live_ids (w_db w)" unfolding 1(2) live_cancel_set by blast
  ultimately show ?case using 1(1,3) 2(1,3) by auto
qed (simp add: list_all2_same)

lemma cancel_previous:
  "\<exists>w' advanced. cancel_all now (get_active_job_ids_by_source ''trigger'' src (w_db w)) w = Some (w', advanced) \<and>
     active src (w_db w') = 0"
proof -
  let ?ids = "get_active_job_ids_by_source ''trigger'' src (w_db w)"
  obtain w' advanced where c: "cancel_all now ?ids w = Some (w', advanced)" "list_all2 job_kept (jobs (w_db w)) (jobs (w_db w'))"
      "live_ids (w_db w') \<subseteq> live_ids (w_db w) - set ?ids" using cancel_all_spec by blast
  have "\<not> active_of_source ''trigger'' src j'" if j': "j' \<in> set (jobs (w_db w'))" for j'
  proof
    assume a: "active_of_source ''trigger'' src j'"
    obtain j where j: "j \<in> set (jobs (w_db w))" "job_kept j j'"
      using c(2) j' by (metis in_set_conv_nth list_all2_conv_all_nth)
    then have "j_job_id j' \<in> set ?ids"
      using active_kept [OF j(2) a] by (auto simp: get_active_job_ids_by_source_def job_kept_def)
    then show False using live_active [OF j' a] c(3) by blast
  qed
  then have "active src (w_db w') = 0" by (simp add: count_active_by_source_def filter_empty_conv)
  with c(1) show ?thesis by blast
qed

section \<open>The fire of a cron trigger\<close>

lemma fire_target_active:
  assumes "fire_target dp defaults tgt input source_id advanced sv = (sv', out)" and "keeps_jobs (foreign_job src) dp"
  shows "active src (w_db (sv_world sv')) \<le> Suc (active src (w_db (sv_world sv)))"
proof -
  obtain s res where c: "create_target_job dp defaults tgt input ''trigger'' source_id (store_of sv) = (s, res)" by force
  have "active src (st_db s) \<le> Suc (active src (st_db (store_of sv)))"
    using c unfolding create_target_job_def by (rule active_create_job [OF _ assms(2)])
  then show ?thesis using assms(1) c by (auto simp: fire_target_def with_store_def store_of_def)
qed

lemma record_skipped_active:
  assumes "record_skipped dp tgt input source_id sv = (sv', res)"
  shows "active src (w_db (sv_world sv')) = active src (w_db (sv_world sv)) \<and>
    (\<exists>new. jobs (w_db (sv_world sv')) = jobs (w_db (sv_world sv)) @ new \<and> list_all (\<lambda>j. j_status j = ''skipped'') new) \<and>
    steps (w_db (sv_world sv')) = steps (w_db (sv_world sv))"
  using assms unfolding record_skipped_def create_skipped_def insert_job_def
  by (auto simp: Let_def count_active_by_source_def active_of_source_def split: if_splits)


section \<open>Webhooks\<close>

lemma find_map_Some: "find_map f xs = Some y \<Longrightarrow> \<exists>x \<in> set xs. f x = Some y"
  by (induction xs) (auto split: option.splits)

lemma match_webhook_entry:
  assumes "match_webhook ws cfg name = Some wh"
  shows "\<exists>key w. (key, trigger_def.Webhook w) \<in> set (wc_triggers cfg) \<and> wd_name w = name \<and> wd_enabled w \<and>
    wm_secret wh = wd_secret w \<and> wm_force_refresh wh = wd_force_refresh w \<and> wm_ws_name wh = ws \<and> wm_trigger_key wh = key"
proof -
  obtain e where e: "e \<in> set (wc_triggers cfg)" "webhook_entry ws name e = Some wh"
    using find_map_Some [OF assms [unfolded match_webhook_def]] by blast
  obtain key d where ed: "e = (key, d)" by force
  from e(2) obtain w where "d = trigger_def.Webhook w" "wd_name w = name" "wd_enabled w" "wm_secret wh = wd_secret w"
      "wm_force_refresh wh = wd_force_refresh w" "wm_ws_name wh = ws" "wm_trigger_key wh = key"
    unfolding ed webhook_entry_def by (auto split: trigger_def.splits if_splits)
  then show ?thesis using e(1) ed by blast
qed

lemma find_webhook_match:
  assumes "find_webhook_trigger view name = Some wh"
  shows "wm_ws_name wh \<in> set (wv_names view) \<and> wv_triggers_enabled view (wm_ws_name wh) \<and>
    (\<exists>cfg. wv_config view (wm_ws_name wh) = Some cfg \<and> match_webhook (wm_ws_name wh) cfg name = Some wh)"
proof -
  obtain ws where ws: "ws \<in> set (wv_names view)" "find_webhook_trigger_in view name ws = Some wh"
    using find_map_Some [OF assms [unfolded find_webhook_trigger_def]] by blast
  from ws(2) obtain cfg where m: "wv_triggers_enabled view ws" "wv_config view ws = Some cfg" "match_webhook ws cfg name = Some wh"
    unfolding find_webhook_trigger_in_def by (auto split: if_splits bind_splits)
  with match_webhook_entry [OF m(3)] ws(1) show ?thesis by auto
qed

text \<open>The key of the trigger a webhook job comes from names the definition that was checked.\<close>

lemma webhook_definition_checked:
  assumes "webhook_definition env name req = Inr (wh, cfg)"
  shows "\<exists>cached. find_webhook_trigger (he_cached env) name = Some cached \<and> secret_valid (he_digest env) cached req \<and>
    wm_ws_name wh = wm_ws_name cached \<and> wv_config (he_current env) (wm_ws_name cached) = Some cfg \<and>
    (if wm_force_refresh cached then match_webhook (wm_ws_name cached) cfg name = Some wh \<and> secret_valid (he_digest env) wh req
     else wh = cached)"
proof -
  obtain cached where c: "find_webhook_trigger (he_cached env) name = Some cached" "secret_valid (he_digest env) cached req"
    using assms unfolding webhook_definition_def by (auto split: option.splits if_splits)
  obtain cfg' where v: "wv_config (he_current env) (wm_ws_name cached) = Some cfg'"
    using assms c unfolding webhook_definition_def by (cases "wv_config (he_current env) (wm_ws_name cached)") (auto split: if_splits)
  show ?thesis
  proof (cases "wm_force_refresh cached")
    case True
    then have m: "match_webhook (wm_ws_name cached) cfg' name = Some wh" "secret_valid (he_digest env) wh req" "cfg' = cfg"
      using assms c v unfolding webhook_definition_def by (auto split: option.splits if_splits)
    then show ?thesis using c v True match_webhook_entry [OF m(1)] by auto
  next
    case False
    then show ?thesis using assms c v unfolding webhook_definition_def by simp
  qed
qed

lemma create_job_error: "create_job n dp req s = (s', Inl e) \<Longrightarrow> s' = s"
  by (cases n) (auto simp: Let_def create_job_for_task_inner_def split: sum.splits prod.splits)

lemma create_target_error: "create_target_job dp defaults tgt input st src s = (s', Inl e) \<Longrightarrow> s' = s"
  unfolding create_target_job_def by (rule create_job_error)

lemma webhook_target_error: "webhook_target dp wh cfg input = Inl r \<Longrightarrow> r \<noteq> HookStarted i sync secs"
  by (auto simp: webhook_target_def Let_def split: option.splits sum.splits if_splits)

lemma webhook_definition_reply: "webhook_definition env name req = Inl r \<Longrightarrow> r \<noteq> HookStarted i sync secs"
  unfolding webhook_definition_def by (auto split: option.splits if_splits)

definition knows_secret :: "hook_env \<Rightarrow> webhook_request \<Rightarrow> webhook_def \<Rightarrow> bool" where
  "knows_secret env req w \<longleftrightarrow>
     (\<forall>x. wd_secret w = Some x \<longrightarrow> (\<exists>y. provided_secret req = Some y \<and> he_digest env y = he_digest env x))"

definition open_webhook :: "hook_env \<Rightarrow> webhook_request \<Rightarrow> string \<Rightarrow> workspace_config \<Rightarrow> webhook_def \<Rightarrow> bool" where
  "open_webhook env req name cfg w \<longleftrightarrow>
     (\<exists>key. (key, trigger_def.Webhook w) \<in> set (wc_triggers cfg)) \<and> wd_name w = name \<and> wd_enabled w \<and> knows_secret env req w"

lemma match_open:
  assumes "match_webhook ws cfg name = Some wh" and "secret_valid (he_digest env) wh req"
  shows "\<exists>w. open_webhook env req name cfg w \<and> wm_force_refresh wh = wd_force_refresh w"
proof -
  obtain key w where w: "(key, trigger_def.Webhook w) \<in> set (wc_triggers cfg)" "wd_name w = name" "wd_enabled w"
      "wm_secret wh = wd_secret w" "wm_force_refresh wh = wd_force_refresh w" using match_webhook_entry [OF assms(1)] by blast
  have "knows_secret env req w"
    using assms(2) w(4) by (auto simp: knows_secret_def secret_valid_def split: option.splits)
  then show ?thesis using w by (auto simp: open_webhook_def)
qed

text \<open>
  C20. A webhook creates a job only for a caller who knows its secret. If a call changes the tables, it is
  answered with the id of a new job, and an enabled webhook of that name in a workspace whose triggers are on
  was found whose secret, if it has one, has the digest of the one the caller sent. When the webhook asks for a
  fresh configuration, the same holds of its definition in the reloaded configuration, so a secret that was
  rotated out or a webhook that was removed no longer starts anything. Every other call, whatever it
  is answered with, leaves the tables as they were.
\<close>

theorem webhook_needs_secret:
  assumes "webhook_handler env name req s = (s', reply)" and "s' \<noteq> s \<or> (\<exists>i sync secs. reply = HookStarted i sync secs)"
  shows "(\<exists>i sync secs. reply = HookStarted i sync secs) \<and>
    (\<exists>ws cfg w. ws \<in> set (wv_names (he_cached env)) \<and> wv_triggers_enabled (he_cached env) ws \<and>
       wv_config (he_cached env) ws = Some cfg \<and> open_webhook env req name cfg w \<and>
       (wd_force_refresh w \<longrightarrow> (\<exists>cfg' w'. wv_config (he_current env) ws = Some cfg' \<and> open_webhook env req name cfg' w')))"
proof -
  obtain wh cfg where d: "webhook_definition env name req = Inr (wh, cfg)"
  proof (cases "webhook_definition env name req")
    case (Inl r)
    then have "s' = s" "reply = r" using assms(1) by (simp_all add: webhook_handler_def)
    moreover have "r \<noteq> HookStarted i sync secs" for i sync secs by (rule webhook_definition_reply [OF Inl])
    ultimately have False using assms(2) by simp
    then show thesis ..
  qed (metis prod.collapse that)
  obtain cached where c: "find_webhook_trigger (he_cached env) name = Some cached" "secret_valid (he_digest env) cached req"
      "wv_config (he_current env) (wm_ws_name cached) = Some cfg"
      "wm_force_refresh cached \<longrightarrow> match_webhook (wm_ws_name cached) cfg name = Some wh \<and> secret_valid (he_digest env) wh req"
    using webhook_definition_checked [OF d] by (metis (full_types))
  obtain cfg0 where f: "wm_ws_name cached \<in> set (wv_names (he_cached env))" "wv_triggers_enabled (he_cached env) (wm_ws_name cached)"
      "wv_config (he_cached env) (wm_ws_name cached) = Some cfg0" "match_webhook (wm_ws_name cached) cfg0 name = Some cached"
    using find_webhook_match [OF c(1)] by blast
  obtain w where w: "open_webhook env req name cfg0 w" "wm_force_refresh cached = wd_force_refresh w"
    using match_open [OF f(4) c(2)] by blast
  have fresh: "\<exists>w'. open_webhook env req name cfg w'" if "wd_force_refresh w"
    using match_open c(4) w(2) that by blast
  have "\<exists>i sync secs. reply = HookStarted i sync secs"
    using assms d webhook_target_error
    by (auto simp: webhook_handler_def Let_def split: sum.splits prod.splits dest: create_target_error)
  then show ?thesis using f w fresh c(3) by blast
qed

section \<open>The job of a call can be looked up\<close>

lemma created_job_get:
  assumes "creation_tx mp now utc_now req job_id pp s = Inr s1"
  shows "\<exists>job. job_get job_id (st_db s1) = Some job \<and> j_source_type job = cr_source_type req \<and> j_source_id job = cr_source_id req"
proof -
  obtain old job where j: "jobs (st_db s1) = old @ [job]" "list_all2 job_kept (jobs (st_db s)) old" "j_job_id job = job_id"
      "j_source_type job = cr_source_type req" "j_source_id job = cr_source_id req" using creation_tx_jobs(1) [OF assms] by blast
  have "job_id \<notin> j_job_id ` set (jobs (st_db s))"
    using creation_tx_jobs(2) [OF assms] by (simp add: links_def map_of_eq_None_iff image_image)
  moreover have "j_job_id ` set old = j_job_id ` set (jobs (st_db s))"
    using j(2) by (induction rule: list_all2_induct) (auto simp: job_kept_def)
  ultimately have "job_id \<notin> j_job_id ` set old" by simp
  then have "find (\<lambda>j. j_job_id j = job_id) (old @ [job]) = Some job" using j(3) by (induction old) auto
  then show ?thesis using j by (simp add: job_get_def select_one_def)
qed

lemma create_job_ok:
  assumes "create_job (Suc n) dp req s = (s', Inr (i, final))" and "keeps_jobs (\<lambda>_. True) dp"
  shows "\<exists>job. job_get i (st_db s') = Some job \<and> j_source_type job = cr_source_type req \<and> j_source_id job = cr_source_id req"
proof -
  have i: "i = dp_new_id dp s"
    using assms(1) by (auto simp: Let_def create_job_for_task_inner_def split: sum.splits prod.splits)
  obtain pp s1 where c: "creation_tx (dp_max_params dp) (dp_now dp) (dp_utc_now dp) req (dp_new_id dp s) pp s = Inr s1"
      "jobs_evolve (\<lambda>_. True) (st_db s1) (st_db s')"
    using every_job.create_job_after [OF assms(2) every_job.create_job_evolves [OF assms(2)] assms(1)] by auto
  obtain job where job: "job_get i (st_db s1) = Some job" "j_source_type job = cr_source_type req" "j_source_id job = cr_source_id req"
    using created_job_get [OF c(1)] i by blast
  then show ?thesis using evolve_job_get [OF c(2) job(1)] by (auto simp: job_kept_def)
qed

lemma target_request_source:
  "cr_source_type (target_request dp defaults tgt input st src) = st" "cr_source_id (target_request dp defaults tgt input st src) = Some src"
  by (simp_all add: target_request_def create_job_for_task_pinned_def create_job_for_task_detailed_def split: option.split)

lemma webhook_startedD:
  assumes "webhook_handler env name req s = (s', HookStarted i sync secs)"
  shows "\<exists>wh cfg tgt input final. webhook_definition env name req = Inr (wh, cfg) \<and>
    create_target_job (he_dispatch env) (he_defaults env) tgt input ''webhook'' (wm_ws_name wh @ ''/'' @ wm_trigger_key wh) s =
      (s', Inr (i, final))"
proof (cases "webhook_definition env name req")
  case (Inl r)
  then show ?thesis using assms webhook_definition_reply [OF Inl] by (simp add: webhook_handler_def)
next
  case (Inr x)
  then show ?thesis using assms webhook_target_error
    by (cases x) (fastforce simp: webhook_handler_def Let_def split: sum.splits prod.splits)
qed

text \<open>Who is shown a job holds the secret of the webhook that started it.\<close>

definition may_see :: "hook_env \<Rightarrow> webhook_request \<Rightarrow> string \<Rightarrow> job_row \<Rightarrow> bool" where
  "may_see env req name job \<longleftrightarrow> j_source_type job = ''webhook'' \<and>
     (\<exists>ws key cfg w. j_source_id job = Some (ws @ ''/'' @ key) \<and> wv_config (he_cached env) ws = Some cfg \<and>
        (key, trigger_def.Webhook w) \<in> set (wc_triggers cfg) \<and> wd_name w = name \<and> wd_enabled w \<and> knows_secret env req w)"

lemma status_scoped:
  assumes "webhook_job_status env name req k d = StatusOf job"
  shows "job_get k d = Some job \<and> may_see env req name job"
proof -
  obtain wh where wh: "find_webhook_trigger (he_cached env) name = Some wh" "secret_valid (he_digest env) wh req"
    using assms unfolding webhook_job_status_def by (auto split: option.splits if_splits)
  have job: "job_get k d = Some job" "j_source_type job = ''webhook''" "j_source_id job = Some (wm_ws_name wh @ ''/'' @ wm_trigger_key wh)"
    using assms wh unfolding webhook_job_status_def by (auto split: option.splits if_splits)
  obtain cfg where cfg: "wv_config (he_cached env) (wm_ws_name wh) = Some cfg" "match_webhook (wm_ws_name wh) cfg name = Some wh"
    using find_webhook_match [OF wh(1)] by blast
  obtain w where w: "(wm_trigger_key wh, trigger_def.Webhook w) \<in> set (wc_triggers cfg)" "wd_name w = name" "wd_enabled w"
      "wm_secret wh = wd_secret w" using match_webhook_entry [OF cfg(2)] by blast
  have "knows_secret env req w"
    using wh(2) w(4) by (auto simp: knows_secret_def secret_valid_def split: option.splits)
  then show ?thesis using job cfg(1) w unfolding may_see_def by blast
qed

lemma status_shown:
  assumes "find_webhook_trigger (he_cached env) name = Some wh" and "secret_valid (he_digest env) wh req"
    and "job_get k d = Some job" and "j_source_type job = ''webhook''"
    and "j_source_id job = Some (wm_ws_name wh @ ''/'' @ wm_trigger_key wh)"
  shows "webhook_job_status env name req k d = StatusOf job"
  using assms by (simp add: webhook_job_status_def)

text \<open>
  C38. The answer to a webhook call can be used. If a call is answered with the id of a job and the definitions
  have not changed since the webhook was looked up, the same caller who asks for the status of that id is
  shown that job, although the creation also ran a cascade, child jobs and the transactions of other servers in
  between. Whatever any caller is shown is a job that the webhook named in the call started, and the secret
  the caller sent has the digest of that webhook's.
\<close>

theorem webhook_job_readable:
  assumes "webhook_handler env name req s = (s', HookStarted i sync secs)" and "keeps_jobs (\<lambda>_. True) (he_dispatch env)"
    and "he_current env = he_cached env"
  shows "(\<exists>job. webhook_job_status env name req i (st_db s') = StatusOf job \<and> j_job_id job = i) \<and>
    (\<forall>name' req' k job. webhook_job_status env name' req' k (st_db s') = StatusOf job \<longrightarrow>
       j_job_id job = k \<and> may_see env req' name' job)"
proof
  obtain wh cfg where d: "webhook_definition env name req = Inr (wh, cfg)"
    using webhook_startedD [OF assms(1)] by blast
  obtain tgt input final where c: "create_target_job (he_dispatch env) (he_defaults env) tgt input ''webhook''
      (wm_ws_name wh @ ''/'' @ wm_trigger_key wh) s = (s', Inr (i, final))"
    using webhook_startedD [OF assms(1)] d by auto
  obtain cached where f: "find_webhook_trigger (he_cached env) name = Some cached" "secret_valid (he_digest env) cached req"
      "wv_config (he_current env) (wm_ws_name cached) = Some cfg"
      "wm_force_refresh cached \<and> match_webhook (wm_ws_name cached) cfg name = Some wh \<or> wh = cached"
    using webhook_definition_checked [OF d] by (metis (full_types))
  have wh: "wh = cached" using f find_webhook_match [OF f(1)] assms(3) by auto
  obtain job where job: "job_get i (st_db s') = Some job" "j_source_type job = ''webhook''"
      "j_source_id job = Some (wm_ws_name wh @ ''/'' @ wm_trigger_key wh)"
    using create_job_ok [OF c [unfolded create_target_job_def] assms(2)] by (auto simp: target_request_source)
  show "\<exists>job. webhook_job_status env name req i (st_db s') = StatusOf job \<and> j_job_id job = i"
    using status_shown [OF f(1,2) job(1,2)] job(1,3) wh by (auto simp: job_get_def select_one_def dest: find_SomeD)
  show "\<forall>name' req' k job. webhook_job_status env name' req' k (st_db s') = StatusOf job \<longrightarrow>
      j_job_id job = k \<and> may_see env req' name' job"
    using status_scoped by (fastforce simp: job_get_def select_one_def dest: find_SomeD)
qed

section \<open>Examples\<close>

text \<open>A cron trigger with \<^verbatim>\<open>skip\<close> and a webhook with a secret, both on the task \<^verbatim>\<open>t\<close> of workspace \<^verbatim>\<open>w\<close>.\<close>

definition nightly :: scheduler_def where
  "nightly = \<lparr>sd_cron = ''x'', sd_task = ''t'', sd_input = [], sd_enabled = True, sd_concurrency = SkipRun, sd_timezone = None,
     sd_force_refresh = False, sd_git_ref = None\<rparr>"

definition incoming :: webhook_def where
  "incoming = \<lparr>wd_name = ''h'', wd_task = ''t'', wd_secret = Some ''key'', wd_input = [], wd_enabled = True, wd_mode = None,
     wd_timeout_secs = None, wd_force_refresh = True, wd_git_ref = None\<rparr>"

definition trigger_cfg :: workspace_config where
  "trigger_cfg = main_cfg\<lparr>wc_triggers := [(''n'', trigger_def.Scheduler nightly), (''i'', trigger_def.Webhook incoming)]\<rparr>"

definition trigger_dp :: dispatch_env where
  "trigger_dp = calm_env\<lparr>dp_creation := main_env\<lparr>ce_refs := (ce_refs main_env)\<lparr>re_live := \<lambda>_. Some trigger_cfg\<rparr>\<rparr>\<rparr>"

definition nightly_env :: fire_env where
  "nightly_env = \<lparr>fe_sched = \<lparr>se_cron_ok = (\<lambda>_. True), se_tz_ok = (\<lambda>_. True), se_next = (\<lambda>_ _ _. None), se_def_json = (\<lambda>_. Null)\<rparr>,
     fe_dispatch = (\<lambda>_. trigger_dp), fe_defaults = no_defaults, fe_query_fails = False\<rparr>"

definition nightly_state :: trigger_state where
  "nightly_state = \<lparr>tg_cron_expr = ''x'', tg_workspace = ''w'', tg_task = ''t'', tg_git_ref = None, tg_input = [],
     tg_trigger_name = ''n'', tg_concurrency = SkipRun, tg_timezone = None, tg_timezone_str = None, tg_force_refresh = False,
     tg_definition = Null, tg_last_run = None, tg_next_run = None\<rparr>"

text \<open>A run of the trigger is still active.\<close>

definition busy_server :: server where
  "busy_server = \<lparr>sv_world = \<lparr>w_db = \<lparr>jobs = [(test_default_job 1 0)\<lparr>j_source_type := ''trigger'', j_source_id := Some ''w/n''\<rparr>],
       steps = []\<rparr>, w_recorded = (\<lambda>_. None), w_cancelled = [], w_effects = []\<rparr>, sv_ref_pins = [], sv_files = no_tables\<rparr>"

lemma trigger_dp_jobs: "keeps_jobs (foreign_job src) trigger_dp"
  by (simp add: keeps_jobs_def trigger_dp_def calm_env_def quiet_attempt_def foreign.evolution_refl)


definition hook_view :: workspaces_view where
  "hook_view = \<lparr>wv_names = [''w''], wv_triggers_enabled = (\<lambda>_. True), wv_config = (\<lambda>_. Some trigger_cfg)\<rparr>"

definition incoming_env :: hook_env where
  "incoming_env = \<lparr>he_cached = hook_view, he_current = hook_view, he_dispatch = trigger_dp, he_defaults = no_defaults,
     he_digest = (\<lambda>s. s), he_json = (\<lambda>_. None), he_lossy = (\<lambda>s. s)\<rparr>"

definition incoming_call :: webhook_request where
  "incoming_call = \<lparr>wq_method = ''GET'', wq_headers = [(''authorization'', Some ''Bearer key'')], wq_query = [], wq_body = []\<rparr>"

lemma create_job_started:
  assumes "case prepare_creation (dp_creation dp) (dp_show_uuid dp) req (dp_new_id dp s) (st_db s) of
      Inl _ \<Rightarrow> False
    | Inr pp \<Rightarrow> \<not> isl (creation_tx (dp_max_params dp) (dp_now dp) (dp_utc_now dp) req (dp_new_id dp s) pp s)"
  shows "\<exists>s' final. create_job (Suc n) dp req s = (s', Inr (dp_new_id dp s, final))"
  using assms
  by (auto simp: Let_def create_job_for_task_inner_def isl_def split: sum.splits prod.splits)

definition incoming_match :: webhook_match where
  "incoming_match = \<lparr>wm_ws_name = ''w'', wm_trigger_key = ''i'', wm_task = ''t'', wm_git_ref = None, wm_secret = Some ''key'',
     wm_default_input = [], wm_mode = None, wm_timeout_secs = None, wm_force_refresh = True\<rparr>"

definition incoming_input :: json where
  "incoming_input = Object (build_webhook_input incoming_env incoming_call [])"

definition incoming_target :: resolved_target where
  "incoming_target = \<lparr>tt_workspace = ''w'', tt_task_name = ''t'', tt_pin = None, tt_task_folder = None, tt_config = trigger_cfg\<rparr>"

lemma incoming_runs:
  "webhook_definition incoming_env ''h'' incoming_call = Inr (incoming_match, trigger_cfg)"
  "webhook_target (he_dispatch incoming_env) incoming_match trigger_cfg incoming_input = Inr incoming_target"
  "target_preflight incoming_target incoming_input = Inr ()"
  by code_simp+

lemma incoming_created:
  "\<exists>s' final. create_target_job trigger_dp no_defaults incoming_target incoming_input ''webhook'' ''w/i'' main_store =
     (s', Inr (dp_new_id trigger_dp main_store, final))"
  unfolding create_target_job_def by (rule create_job_started) code_simp

lemma incoming_started:
  "\<exists>s' i. webhook_handler incoming_env ''h'' incoming_call main_store = (s', HookStarted i False 30)"
proof -
  have m: "wm_default_input incoming_match = []" "wm_ws_name incoming_match @ ''/'' @ wm_trigger_key incoming_match = ''w/i''"
    "wm_mode incoming_match = None" "wm_timeout_secs incoming_match = None" "he_dispatch incoming_env = trigger_dp"
    "he_defaults incoming_env = no_defaults" by (simp_all add: incoming_match_def incoming_env_def)
  show ?thesis
    unfolding webhook_handler_def incoming_runs(1) sum.case prod.case Let_def m incoming_input_def [symmetric]
    using incoming_runs(2,3) incoming_created by (auto simp: m DEFAULT_SYNC_TIMEOUT_SECS_def)
qed

theorem webhook_needs_secret_witness:
  "\<exists>s' i. webhook_handler incoming_env ''h'' incoming_call main_store = (s', HookStarted i False 30) \<and>
     (\<exists>w. open_webhook incoming_env incoming_call ''h'' trigger_cfg w)"
proof -
  obtain s' i where h: "webhook_handler incoming_env ''h'' incoming_call main_store = (s', HookStarted i False 30)"
    using incoming_started by blast
  have "wv_config (he_cached incoming_env) ws = Some cfg \<Longrightarrow> cfg = trigger_cfg" for ws cfg
    by (simp add: incoming_env_def hook_view_def)
  then show ?thesis using webhook_needs_secret [OF h] h by blast
qed

theorem webhook_job_readable_witness:
  "\<exists>s' i job. webhook_handler incoming_env ''h'' incoming_call main_store = (s', HookStarted i False 30) \<and>
     webhook_job_status incoming_env ''h'' incoming_call i (st_db s') = StatusOf job \<and> j_job_id job = i"
proof -
  obtain s' i where h: "webhook_handler incoming_env ''h'' incoming_call main_store = (s', HookStarted i False 30)"
    using incoming_started by blast
  have k: "keeps_jobs (\<lambda>_. True) (he_dispatch incoming_env)"
    by (simp add: incoming_env_def keeps_jobs_def trigger_dp_def calm_env_def quiet_attempt_def every_job.evolution_refl)
  have "he_current incoming_env = he_cached incoming_env" by (simp add: incoming_env_def)
  from webhook_job_readable [OF h k this] h show ?thesis by blast
qed

end
