(* ===== verification/Hooks.thy ===== *)
theory Hooks
  imports Server_State
begin

text \<open>
  Hooks (\<^verbatim>\<open>stroem-server/src/settlement/hooks.rs\<close>): which hooks a settled or suspended job fires, the context their
  templates see, the bound on chains of hooks, and the job each of them creates. What follows the creation
  of a hook job is the argument \<open>created\<close> (\<^verbatim>\<open>Settlement::job_created\<close>).

  \<open>settle_env\<close> is what settlement takes from outside: the dispatch environment, the defaults of the
  server, the artifact rows of a job, the printers of times, durations and URLs, and the queries that fail.
\<close>

section \<open>Environment\<close>

record artifact_row =
  ar_name :: string
  ar_content_type :: string
  ar_size_bytes :: int
  ar_step_name :: string
  ar_created_at :: time

record settle_env =
  sn_dispatch :: dispatch_env
  sn_defaults :: job_defaults
  sn_codecs :: codecs
  sn_artifacts :: "uuid \<Rightarrow> string + artifact_row list"
  sn_rfc3339 :: "time \<Rightarrow> string"
  sn_time_json :: "time \<Rightarrow> json"
  sn_secs_json :: "int \<Rightarrow> json"
  sn_url_encode :: "string \<Rightarrow> string"
  sn_lookup_fails :: "uuid \<Rightarrow> bool"
  sn_drain_error :: "uuid \<Rightarrow> string option"
  sn_claim_error :: "uuid \<Rightarrow> string option"

section \<open>Which hooks fire\<close>

definition is_top_level_source :: "string \<Rightarrow> bool" where
  "is_top_level_source source_type \<longleftrightarrow>
     source_type \<in> {''api'', ''user'', ''trigger'', ''webhook'', ''mcp'', ''retry'', ''rerun'', ''restart''}"

text \<open>The hooks of the task go first, those of the workspace are for top-level jobs without any.\<close>

definition select_hooks :: "string \<Rightarrow> hook_def list \<Rightarrow> hook_def list \<Rightarrow> hook_def list" where
  "select_hooks source_type task_hooks ws_hooks =
     (if source_type = source_type_str Hook then []
      else if task_hooks \<noteq> [] then task_hooks
      else if is_top_level_source source_type then ws_hooks
      else [])"

definition hooks_of_kind :: "workspace_config \<Rightarrow> job_row \<Rightarrow> task_def \<Rightarrow> hook_event \<Rightarrow> hook_def list" where
  "hooks_of_kind cfg job task kind =
     (case kind of
        HookSuccess \<Rightarrow> select_hooks (j_source_type job) (td_on_success task) (wc_on_success cfg)
      | HookError \<Rightarrow> select_hooks (j_source_type job) (td_on_error task) (wc_on_error cfg)
      | HookCancel \<Rightarrow> select_hooks (j_source_type job) (td_on_cancel task) (wc_on_cancel cfg)
      | HookNone \<Rightarrow> [])"

section \<open>Chains of hooks\<close>

definition MAX_HOOK_CHAIN_DEPTH :: nat where
  "MAX_HOOK_CHAIN_DEPTH = 3"

definition MAX_HOPS :: nat where
  "MAX_HOPS = MAX_HOOK_CHAIN_DEPTH * (MAX_TASK_DEPTH + 1) + 1"

text \<open>The job a hook job was fired by; rows of older servers only have the text of its id.\<close>

definition hook_origin :: "(string \<Rightarrow> uuid option) \<Rightarrow> job_row \<Rightarrow> uuid option" where
  "hook_origin parse_uuid job =
     (case j_source_job_id job of
        Some i \<Rightarrow> Some i
      | None \<Rightarrow> Option.bind (j_source_id job) (\<lambda>s. parse_uuid (hd (split_on (CHR ''/'') s))))"

definition ancestor :: "(string \<Rightarrow> uuid option) \<Rightarrow> job_row \<Rightarrow> uuid option" where
  "ancestor parse_uuid job =
     (if j_source_type job = source_type_str Hook then hook_origin parse_uuid job else j_parent_job_id job)"

fun chain_walk ::
    "(string \<Rightarrow> uuid option) \<Rightarrow> (uuid \<Rightarrow> string + job_row option) \<Rightarrow> nat \<Rightarrow> nat \<Rightarrow> job_row \<Rightarrow> nat" where
  "chain_walk parse_uuid look 0 depth job = depth"
| "chain_walk parse_uuid look (Suc hops) depth job =
     (let depth' = (if j_source_type job = source_type_str Hook then Suc depth else depth) in
      case ancestor parse_uuid job of
        None \<Rightarrow> depth'
      | Some next_id \<Rightarrow>
          (case look next_id of
             Inr (Some row) \<Rightarrow> chain_walk parse_uuid look hops depth' row
           | Inr None \<Rightarrow> depth'
           | Inl _ \<Rightarrow> depth'))"

definition look_up :: "settle_env \<Rightarrow> db \<Rightarrow> uuid \<Rightarrow> string + job_row option" where
  "look_up env d i = (if sn_lookup_fails env i then Inl ''query failed'' else Inr (job_get i d))"

definition hook_chain_depth :: "settle_env \<Rightarrow> db \<Rightarrow> job_row \<Rightarrow> nat" where
  "hook_chain_depth env d job = chain_walk (cd_parse_uuid (sn_codecs env)) (look_up env d) MAX_HOPS 0 job"

definition chain_limit_line :: string where
  "chain_limit_line =
     ''[hooks] hook chain depth limit ('' @ show_nat MAX_HOOK_CHAIN_DEPTH @ '') reached '' @
     bytes [0xE2, 0x80, 0x94] @ '' not firing hooks for this job''"

section \<open>The context\<close>

record failed_step_info =
  fi_step_name :: string
  fi_action_name :: string
  fi_error_message :: "string option"
  fi_continue_on_failure :: bool
  fi_tolerated :: bool
  fi_carried_over :: bool

text \<open>
  A failed placeholder is left out when one of its instances failed: the instance tells what happened.
\<close>

definition build_failed_steps :: "task_def \<Rightarrow> job_step_row list \<Rightarrow> failed_step_info list" where
  "build_failed_steps task rows =
     (let failed = filter (\<lambda>r. js_status r = step_status_str Failed) rows;
          represented = List.map_filter js_loop_source failed
      in map (\<lambda>r.
           let own = (case map_of (td_flow task) (flow_step_name (js_step_name r) (js_loop_source r)) of
                        Some fs \<Rightarrow> fs_continue_on_failure fs | None \<Rightarrow> False)
           in \<lparr>fi_step_name = js_step_name r, fi_action_name = js_action_name r, fi_error_message = js_error_message r,
               fi_continue_on_failure = own, fi_tolerated = own, fi_carried_over = js_carried_over r\<rparr>)
         (filter (\<lambda>r. js_loop_source r \<noteq> None \<or> js_step_name r \<notin> set represented) failed))"

definition opt_string :: "string option \<Rightarrow> json" where
  "opt_string v = (case v of Some s \<Rightarrow> String s | None \<Rightarrow> Null)"

definition failed_step_json :: "failed_step_info \<Rightarrow> json" where
  "failed_step_json f =
     json_obj [(''step_name'', String (fi_step_name f)), (''action_name'', String (fi_action_name f)),
       (''error_message'', opt_string (fi_error_message f)), (''continue_on_failure'', Bool (fi_continue_on_failure f)),
       (''tolerated'', Bool (fi_tolerated f)), (''carried_over'', Bool (fi_carried_over f))]"

definition hook_error_message :: "failed_step_info list \<Rightarrow> string option" where
  "hook_error_message failed =
     (if failed = [] then None
      else Some (join ''; '' (map (\<lambda>f. ''Step '' @ quote (fi_step_name f) @ '': '' @
             (case fi_error_message f of Some m \<Rightarrow> m | None \<Rightarrow> ''unknown error'')) failed)))"

definition int_json :: "int \<Rightarrow> json" where
  "int_json i = Number (if i < 0 then NegInt i else PosInt (nat i))"

definition hook_artifact :: "settle_env \<Rightarrow> uuid \<Rightarrow> artifact_row \<Rightarrow> json" where
  "hook_artifact env job_id r =
     json_obj [(''name'', String (ar_name r)), (''content_type'', String (ar_content_type r)),
       (''size_bytes'', int_json (ar_size_bytes r)), (''step_name'', String (ar_step_name r)),
       (''created_at'', sn_time_json env (ar_created_at r)),
       (''url'', String (''/api/jobs/'' @ dp_show_uuid (sn_dispatch env) job_id @ ''/artifacts/'' @
          sn_url_encode env (ar_name r)))]"

text \<open>\<^verbatim>\<open>num_milliseconds\<close> rounds towards zero.\<close>

definition num_milliseconds :: "int \<Rightarrow> int" where
  "num_milliseconds us = (if us < 0 then - ((- us) div 1000) else us div 1000)"

definition build_hook_context :: "settle_env \<Rightarrow> job_row \<Rightarrow> task_def \<Rightarrow> db \<Rightarrow> string + json" where
  "build_hook_context env job task d =
     (let dp = sn_dispatch env; rows = get_steps_for_job (dp_collate dp) (j_job_id job) d in
      case sn_artifacts env (j_job_id job) of
        Inl e \<Rightarrow> Inl (''Failed to list artifacts for hook context: '' @ e)
      | Inr artifacts \<Rightarrow>
          (let failed = build_failed_steps task rows in
           Inr (json_obj
             [(''workspace'', String (j_workspace job)), (''task_name'', String (j_task_name job)),
              (''job_id'', String (dp_show_uuid dp (j_job_id job))), (''status'', String (j_status job)),
              (''is_success'', Bool (j_status job = ''completed'')),
              (''error_message'', opt_string (hook_error_message failed)),
              (''source_type'', String (j_source_type job)), (''source_id'', opt_string (j_source_id job)),
              (''started_at'', opt_string (map_option (sn_rfc3339 env) (j_started_at job))),
              (''completed_at'', opt_string (map_option (sn_rfc3339 env) (j_completed_at job))),
              (''duration_secs'', (case (j_started_at job, j_completed_at job) of
                 (Some start, Some end_time) \<Rightarrow> sn_secs_json env (num_milliseconds (end_time - start)) | _ \<Rightarrow> Null)),
              (''failed_steps'', Array (map failed_step_json failed)),
              (''artifacts'', Array (map (hook_artifact env (j_job_id job)) artifacts)),
              (''revision'', opt_string (j_revision job)), (''ref'', opt_string (j_git_ref job))])))"

definition suspended_hook_context :: "settle_env \<Rightarrow> job_row \<Rightarrow> string \<Rightarrow> string \<Rightarrow> json" where
  "suspended_hook_context env job step_name message =
     json_obj
       [(''workspace'', String (j_workspace job)), (''task_name'', String (j_task_name job)),
        (''job_id'', String (dp_show_uuid (sn_dispatch env) (j_job_id job))), (''step_name'', String step_name),
        (''message'', String message), (''source_type'', String (j_source_type job)),
        (''source_id'', opt_string (j_source_id job)), (''revision'', opt_string (j_revision job)),
        (''ref'', opt_string (j_git_ref job))]"

section \<open>Firing one hook\<close>

definition foreign_hook_task_error :: "string \<Rightarrow> string \<Rightarrow> bool \<Rightarrow> string option" where
  "foreign_hook_task_error hook_action task_ref is_local_task =
     (if is_local_task \<or> \<not> contains task_ref ''.'' then None
      else Some (''hook uses action '' @ quote hook_action @ '' whose task '' @ quote task_ref @
        (if fst (parse_qualified_ref task_ref) = None
         then '' is malformed (empty workspace or task name)''
         else '' is in another workspace; hook actions cannot call tasks across workspaces'')))"

definition scrub_text :: "dispatch_env \<Rightarrow> string \<Rightarrow> string list \<Rightarrow> string" where
  "scrub_text dp line secrets =
     redact_secrets_in_str (eng_json_escape (dp_engine dp)) (eng_debug_escape (dp_engine dp)) line secrets"

definition scrub_hook_error :: "settle_env \<Rightarrow> string \<Rightarrow> workspace_config \<Rightarrow> string" where
  "scrub_hook_error env err cfg = scrub_text (sn_dispatch env) err (collect_config_secret_values (wc_secrets cfg))"

definition hook_template_context :: "workspace_config \<Rightarrow> json \<Rightarrow> json" where
  "hook_template_context cfg ctx =
     json_obj ((''hook'', ctx) # (if wc_secrets cfg = [] then [] else [(''secret'', json_obj (wc_secrets cfg))]))"

definition hook_schema :: "workspace_config \<Rightarrow> action_def \<Rightarrow> input_schema option" where
  "hook_schema cfg a =
     (if ad_action_type a = ''task''
      then Option.bind (ad_task a) (\<lambda>t. map_option td_input (map_of (wc_tasks cfg) t))
      else Some (ad_input a))"

definition hook_input :: "settle_env \<Rightarrow> workspace_config \<Rightarrow> hook_def \<Rightarrow> action_def \<Rightarrow> json \<Rightarrow> app_error + json" where
  "hook_input env cfg hook a ctx =
     (if hd_input hook = [] then Inr (Object [])
      else with_context ''Failed to render hook input templates''
             (render_input_typed (ce_tera (dp_creation (sn_dispatch env))) (hd_input hook) (hook_schema cfg a)
               (hook_template_context cfg ctx)))"

definition hook_request ::
    "settle_env \<Rightarrow> workspace_config \<Rightarrow> job_row \<Rightarrow> string \<Rightarrow> json \<Rightarrow> creation_request" where
  "hook_request env cfg source task_ref input =
     \<lparr>cr_workspace_config = cfg, cr_workspace = j_workspace source, cr_task_name = task_ref, cr_input = input,
      cr_source_type = ''hook'', cr_source_id = Some (dp_show_uuid (sn_dispatch env) (j_job_id source)),
      cr_parent_job_id = None, cr_parent_step_name = None, cr_revision = j_revision source,
      cr_mode = HookMode (j_job_id source), cr_defaults = sn_defaults env, cr_git_ref = j_git_ref source,
      cr_files = Indirect\<rparr>"

text \<open>The single step of a hook that is not a task.\<close>

definition hook_flow_step :: "string \<Rightarrow> flow_step" where
  "hook_flow_step action_name =
     \<lparr>fs_action = action_name, fs_name = None, fs_description = None, fs_depends_on = [], fs_input = [],
      fs_continue_on_failure = False, fs_legacy_continue_when_skipped = None, fs_timeout = None, fs_when = None,
      fs_for_each = None, fs_sequential = False, fs_retry = None, fs_git_ref = None\<rparr>"

definition create_hook_job ::
    "settle_env \<Rightarrow> job_row \<Rightarrow> string \<Rightarrow> action_def \<Rightarrow> json \<Rightarrow> store \<Rightarrow> store \<times> (app_error + uuid \<times> bool)" where
  "create_hook_job env source action_name a input s =
     (let dp = sn_dispatch env; job_id = dp_new_id dp s;
          pin = map_option (\<lambda>r. \<lparr>pc_git_ref = r, pc_task_folder = None\<rparr>) (j_git_ref source);
          row = build_step (dp_creation dp) job_id ''hook'' action_name (hook_flow_step action_name) a (Some input) Ready
                  (sn_defaults env) None None None None
      in case create_with_parent_tx_id (dp_now dp) job_id (j_workspace source) (''_hook:'' @ action_name) ''distributed''
                (Some input) ''hook'' (Some (dp_show_uuid dp (j_job_id source))) None None None (j_revision source) None
                (Some (j_job_id source)) None None pin (st_db s) of
           Inl e \<Rightarrow> (s, Inl (Context ''Failed to create hook job'' (Msg e)))
         | Inr d1 \<Rightarrow>
             (case create_steps_tx (dp_max_params dp) (dp_utc_now dp) [row] d1 of
                Inl e \<Rightarrow> (s, Inl (Context ''Failed to create hook job step'' (Msg e)))
              | Inr d2 \<Rightarrow> (s\<lparr>st_db := d2\<rparr>, Inr (job_id, False))))"

text \<open>\<open>source\<close> is the job that fires; \<open>cfg\<close> is the configuration it runs with.\<close>

definition fire_single_hook ::
    "settle_env \<Rightarrow> workspace_config \<Rightarrow> job_row \<Rightarrow> hook_def \<Rightarrow> json \<Rightarrow> store \<Rightarrow> store \<times> (app_error + uuid \<times> bool)" where
  "fire_single_hook env cfg source hook ctx s =
     (if hd_git_ref hook \<noteq> None
      then (s, Inl (Msg (''`ref` is not supported on hooks yet (hook action '' @ quote (hd_action hook) @ '')'')))
      else if j_git_ref source \<noteq> None \<and> j_revision source = None
      then (s, Inl (Msg (''source job '' @ dp_show_uuid (sn_dispatch env) (j_job_id source) @ '' carries ref '' @
             quote (the (j_git_ref source)) @ '' without its commit'')))
      else case map_of (wc_actions cfg) (hd_action hook) of
        None \<Rightarrow> (s, Inl (Msg (''Hook action '' @ quote (hd_action hook) @ '' not found in workspace '' @
                  quote (j_workspace source))))
      | Some a \<Rightarrow>
          (case hook_input env cfg hook a ctx of
             Inl e \<Rightarrow> (s, Inl e)
           | Inr input \<Rightarrow>
               if ad_action_type a = ''task'' then
                 (case ad_task a of
                    None \<Rightarrow> (s, Inl (Msg ''type: task action missing task field''))
                  | Some task_ref \<Rightarrow>
                      if ad_git_ref a \<noteq> None
                      then (s, Inl (Msg (''hook action '' @ quote (hd_action hook) @
                             '' is a `type: task` action with `ref`; `ref` is not supported on hooks yet'')))
                      else case foreign_hook_task_error (hd_action hook) task_ref (contains_key (wc_tasks cfg) task_ref) of
                        Some msg \<Rightarrow> (s, Inl (Msg msg))
                      | None \<Rightarrow>
                          (case create_job (Suc MAX_TASK_DEPTH) (sn_dispatch env) (hook_request env cfg source task_ref input) s of
                             (s', Inl e) \<Rightarrow> (s', Inl (Context ''Failed to create hook task job'' e))
                           | (s', Inr created) \<Rightarrow> (s', Inr created)))
               else (case preflight (ad_input a) input of
                       Inl e \<Rightarrow> (s, Inl (Context ''Hook action cannot be given its file input'' e))
                     | Inr _ \<Rightarrow> create_hook_job env source (hd_action hook) a input s)))"

section \<open>Firing the hooks of an event\<close>

fun fire_list ::
    "settle_env \<Rightarrow> (uuid \<times> bool \<Rightarrow> server \<Rightarrow> server) \<Rightarrow> workspace_config \<Rightarrow> job_row \<Rightarrow> string \<Rightarrow> json \<Rightarrow> nat \<Rightarrow> hook_def list
       \<Rightarrow> server \<Rightarrow> server" where
  "fire_list env created cfg job event ctx i [] sv = sv"
| "fire_list env created cfg job event ctx i (hook # hooks) sv =
     (let (s, res) = fire_single_hook env cfg job hook ctx (store_of sv); sv1 = with_store s sv;
          sv2 = (case res of
                   Inr c \<Rightarrow> created c sv1
                 | Inl e \<Rightarrow> server_log (j_job_id job)
                     (''[hooks] Failed to fire '' @ event @ ''['' @ show_nat i @ ''] for action '' @ quote (hd_action hook) @
                      '': '' @ scrub_hook_error env (chain_text e) cfg) sv1)
      in fire_list env created cfg job event ctx (Suc i) hooks sv2)"

definition hook_event_name :: "string \<Rightarrow> string" where
  "hook_event_name status =
     (if status = ''completed'' then ''on_success'' else if status = ''cancelled'' then ''on_cancel'' else ''on_error'')"

definition fire_hooks_of_kind ::
    "settle_env \<Rightarrow> (uuid \<times> bool \<Rightarrow> server \<Rightarrow> server) \<Rightarrow> workspace_config \<Rightarrow> job_row \<Rightarrow> task_def \<Rightarrow> hook_event
       \<Rightarrow> server \<Rightarrow> server" where
  "fire_hooks_of_kind env created cfg job task kind sv =
     (let hooks = hooks_of_kind cfg job task kind in
      if hooks = [] then sv
      else if MAX_HOOK_CHAIN_DEPTH \<le> hook_chain_depth env (sv_db sv) job then server_log (j_job_id job) chain_limit_line sv
      else case build_hook_context env job task (sv_db sv) of
        Inl e \<Rightarrow> server_log (j_job_id job) (''[hooks] Failed to build hook context: '' @ e) sv
      | Inr ctx \<Rightarrow> fire_list env created cfg job (''hook '' @ hook_event_name (j_status job)) ctx 0 hooks sv)"

definition fire_suspended_hooks ::
    "settle_env \<Rightarrow> (uuid \<times> bool \<Rightarrow> server \<Rightarrow> server) \<Rightarrow> workspace_config \<Rightarrow> job_row \<Rightarrow> task_def \<Rightarrow> string \<Rightarrow> string
       \<Rightarrow> server \<Rightarrow> server" where
  "fire_suspended_hooks env created cfg job task step_name message sv =
     (let hooks = select_hooks (j_source_type job) (td_on_suspended task) (wc_on_suspended cfg) in
      if hooks = [] then sv
      else if MAX_HOOK_CHAIN_DEPTH \<le> hook_chain_depth env (sv_db sv) job then server_log (j_job_id job) chain_limit_line sv
      else fire_list env created cfg job ''on_suspended hook'' (suspended_hook_context env job step_name message) 0 hooks sv)"

end
