(* ===== verification/Advance.thy ===== *)
theory Advance
  imports Hooks Cancel
begin

text \<open>
  \<^verbatim>\<open>Settlement\<close> (\<^verbatim>\<open>stroem-server/src/settlement/mod.rs\<close>, \<^verbatim>\<open>propagate.rs\<close>, \<^verbatim>\<open>retry.rs\<close>): moving a job as far as its
  rows allow. \<open>advance\<close> resolves the configuration of the job, cascades, dispatches in rounds, and, once the job is
  terminal and drained, runs its terminal side effects behind the one-shot claim; these advance the
  parent, create a retry job or fire hooks, and every job that is created that way is advanced in turn.

  The operations take the advance of other jobs as the argument \<open>adv\<close>; \<open>advance\<close> ties the knot with the depth of
  the recursion as fuel. A failing \<open>adv\<close> is logged where the code logs it and goes no further.
\<close>

section \<open>The configuration of a job\<close>

definition build_minimal_task_def :: "(string \<Rightarrow> nat list) \<Rightarrow> uuid \<Rightarrow> db \<Rightarrow> task_def" where
  "build_minimal_task_def collate job_id d =
     \<lparr>td_name = None, td_mode = ''distributed'', td_folder = None, td_input = [],
      td_flow = foldl (\<lambda>fl r. obj_insert (js_step_name r) (hook_flow_step (js_action_name r)) fl) []
        (get_steps_for_job collate job_id d),
      td_timeout = None, td_retry = None, td_on_success = [], td_on_error = [], td_on_suspended = [], td_on_cancel = []\<rparr>"

definition pin_permanent :: "app_error \<Rightarrow> bool" where
  "pin_permanent err =
     (case error_kind_in err of
        Some Kind_pin_not_git \<Rightarrow> True
      | Some (Kind_pin_ref_not_found _) \<Rightarrow> True
      | Some Kind_pin_commit_not_found \<Rightarrow> True
      | Some Kind_pin_load_failed \<Rightarrow> True
      | Some Kind_pin_load_withheld \<Rightarrow> True
      | _ \<Rightarrow> False)"

definition scrub_live :: "dispatch_env \<Rightarrow> string \<Rightarrow> string \<Rightarrow> string" where
  "scrub_live dp ws line = scrub_text dp line (collect_redaction_values (live_set dp ws None))"

text \<open>
  A pin that is only unavailable is logged. One that can never be loaded ends the job: failed, with its
  waiting steps cancelled, in one transaction.
\<close>

definition pin_unavailable :: "settle_env \<Rightarrow> job_row \<Rightarrow> pin_ref \<Rightarrow> app_error \<Rightarrow> server \<Rightarrow> server" where
  "pin_unavailable env job pin err sv =
     (let dp = sn_dispatch env; job_id = j_job_id job;
          line = scrub_live dp (j_workspace job)
            (if pin_permanent err then cannot_be_loaded (j_workspace job) pin err
             else ''[pin] '' @ pin_label (j_workspace job) pin @ '' not available yet: '' @ chain_text err)
      in if is_terminal_status (j_status job) then sv
         else if \<not> pin_permanent err then server_log job_id line sv
         else (case settle_tx (dp_now dp) job_id JFailed None (sv_db sv) of
                 (d1, settled) \<Rightarrow>
                   if settled
                   then server_log job_id line (put_db (fst (cancel_pending_steps_tx (dp_now dp) job_id d1)) sv)
                   else put_db d1 sv))"

definition resolve ::
    "settle_env \<Rightarrow> job_row \<Rightarrow> server \<Rightarrow> server \<times> (string + (workspace_config \<times> task_def) option)" where
  "resolve env job sv =
     (let dp = sn_dispatch env; pin = pin_of_job job in
      case config_for_user (dp_ensure dp) (re_live (ce_refs (dp_creation dp))) (j_workspace job) pin of
        Inl e \<Rightarrow> (case pin of Some p \<Rightarrow> (pin_unavailable env job p e sv, Inr None) | None \<Rightarrow> (sv, Inl (chain_text e)))
      | Inr None \<Rightarrow> (sv, Inr None)
      | Inr (Some cfg) \<Rightarrow>
          (case map_of (wc_tasks cfg) (j_task_name job) of
             Some task \<Rightarrow> (sv, Inr (Some (cfg, task)))
           | None \<Rightarrow>
               if j_source_type job \<in> {source_type_str Hook, source_type_str source_type.EventSource}
               then (sv, Inr (Some (cfg, build_minimal_task_def (dp_collate dp) (j_job_id job) (sv_db sv))))
               else (sv, Inr None)))"

section \<open>Descendants that settled at creation\<close>

type_synonym advancer = "uuid \<Rightarrow> server \<Rightarrow> server \<times> (string + unit)"

text \<open>The recursive query: the jobs at depth one, two, and so on below a job, at most ten levels.\<close>

fun descendant_levels :: "db \<Rightarrow> nat \<Rightarrow> job_row list \<Rightarrow> job_row list list" where
  "descendant_levels d 0 level = []"
| "descendant_levels d (Suc n) level =
     level # descendant_levels d n
       (concat (map (\<lambda>p. filter (\<lambda>c. j_parent_job_id c = Some (j_job_id p)) (jobs d)) level))"

definition settled_under_running_step :: "db \<Rightarrow> job_row \<Rightarrow> bool" where
  "settled_under_running_step d j \<longleftrightarrow>
     j_source_type j = ''task'' \<and> j_status j \<in> {''completed'', ''failed'', ''cancelled'', ''skipped''} \<and>
     list_ex (\<lambda>r. Some (js_job_id r) = j_parent_job_id j \<and> Some (js_step_name r) = j_parent_step_name j \<and>
       js_status r = ''running'') (steps d) \<and>
     \<not> list_ex (\<lambda>r. js_job_id r = j_job_id j \<and> js_status r \<in> {''running'', ''claimed''}) (steps d)"

definition get_settled_descendants_with_running_parent_step :: "uuid \<Rightarrow> db \<Rightarrow> job_row list" where
  "get_settled_descendants_with_running_parent_step root d =
     filter (settled_under_running_step d)
       (concat (rev (descendant_levels d MAX_TASK_DEPTH (filter (\<lambda>j. j_parent_job_id j = Some root) (jobs d)))))"

definition reconcile :: "advancer \<Rightarrow> uuid \<Rightarrow> server \<Rightarrow> server" where
  "reconcile adv root sv =
     foldl (\<lambda>sv child. fst (adv (j_job_id child) sv)) sv
       (get_settled_descendants_with_running_parent_step root (sv_db sv))"

definition job_created :: "advancer \<Rightarrow> uuid \<times> bool \<Rightarrow> server \<Rightarrow> server" where
  "job_created adv created sv =
     reconcile adv (fst created) (if snd created then fst (adv (fst created) sv) else sv)"

section \<open>One advance\<close>

definition dispatch_approvals ::
    "settle_env \<Rightarrow> advancer \<Rightarrow> job_row \<Rightarrow> workspace_config \<Rightarrow> task_def \<Rightarrow> snapshots \<Rightarrow> server \<Rightarrow> server" where
  "dispatch_approvals env adv job cfg task snaps sv =
     (let dp = sn_dispatch env; job_id = j_job_id job;
          suspended = (\<lambda>d. filter (\<lambda>r. js_status r = step_status_str Suspended) (get_steps_for_job (dp_collate dp) job_id d));
          earlier = map js_step_name (suspended (sv_db sv));
          (s, res) = handle_approval_steps dp cfg job_id task snaps (store_of sv);
          sv1 = with_store s sv;
          sv2 = (case res of
                   Inr _ \<Rightarrow> sv1
                 | Inl e \<Rightarrow> server_log job_id (''[orchestration] Failed to handle approval steps: '' @ e) sv1)
      in foldl (\<lambda>sv r.
             let message = (case Option.bind (js_output r) (\<lambda>v. json_get v ''approval_message'') of Some (String m) \<Rightarrow> m | _ \<Rightarrow> [])
             in fire_suspended_hooks env (job_created adv) cfg job task (js_step_name r) message
                  (server_log job_id (''[approval] Step '' @ quote (js_step_name r) @ '' waiting for approval'') sv))
           sv2 (filter (\<lambda>r. js_step_name r \<notin> set earlier) (suspended (sv_db sv2))))"

text \<open>One dispatch: deferred steps, task steps, settled descendants, approvals.\<close>

definition dispatch_round ::
    "settle_env \<Rightarrow> advancer \<Rightarrow> job_row \<Rightarrow> workspace_config \<Rightarrow> task_def \<Rightarrow> snapshots \<Rightarrow> server \<Rightarrow> server" where
  "dispatch_round env adv job cfg task snaps sv =
     (let dp = sn_dispatch env; job_id = j_job_id job; ws = j_workspace job;
          (s1, r1) = resolve_deferred_steps (dp_fuel dp) 0 dp cfg ws job_id task (sn_defaults env) snaps (store_of sv);
          sv1 = (case r1 of
                   Inr _ \<Rightarrow> with_store s1 sv
                 | Inl e \<Rightarrow> server_log job_id (''[orchestration] Failed to resolve deferred steps: '' @ e) (with_store s1 sv));
          (s2, r2) = handle_task_steps dp (create_job (Suc MAX_TASK_DEPTH) dp) cfg ws job_id task (sn_defaults env) snaps
                       (store_of sv1);
          sv2 = (case r2 of
                   Inr _ \<Rightarrow> with_store s2 sv1
                 | Inl e \<Rightarrow> server_log job_id (''[orchestration] Failed to handle task steps: '' @ e) (with_store s2 sv1))
      in dispatch_approvals env adv job cfg task snaps (reconcile adv job_id sv2))"

fun dispatch_loop ::
    "nat \<Rightarrow> settle_env \<Rightarrow> advancer \<Rightarrow> job_row \<Rightarrow> workspace_config \<Rightarrow> task_def \<Rightarrow> snapshots \<Rightarrow> dispatch_rounds \<Rightarrow> server
       \<Rightarrow> server \<times> (string + unit)" where
  "dispatch_loop 0 env adv job cfg task snaps r sv = (sv, Inl OUT_OF_FUEL)"
| "dispatch_loop (Suc fuel) env adv job cfg task snaps r sv =
     (let sv1 = dispatch_round env adv job cfg task snaps sv;
          (r', again) = rounds_again (sn_dispatch env) (j_job_id job) (store_of sv1) r
      in if again then dispatch_loop fuel env adv job cfg task snaps r' sv1 else (sv1, Inr ()))"

definition run_live ::
    "settle_env \<Rightarrow> advancer \<Rightarrow> job_row \<Rightarrow> workspace_config \<Rightarrow> task_def \<Rightarrow> server \<Rightarrow> server \<times> (string + unit)" where
  "run_live env adv job cfg task sv =
     (let dp = sn_dispatch env; job_id = j_job_id job;
          snaps = (dp_snapshots dp (j_workspace job) (j_task_name job) (j_git_ref job))
            \<lparr>ss_files := job_files_of (list_for_job (dp_collate dp) job_id (sv_files sv)) CANONICAL_INPUTS_ROOT\<rparr>
      in case cascade_and_settle (dp_max_params dp) (dp_attempt dp) (dp_collate dp) (dp_show_uuid dp) (dp_engine dp)
                (dp_now dp) job_id task cfg snaps (sv_db sv) of
           None \<Rightarrow> (sv, Inl OUT_OF_FUEL)
         | Some (d, Inl e) \<Rightarrow> (put_db d sv, Inl e)
         | Some (d, Inr _) \<Rightarrow>
             (let sv1 = put_db d sv in
              dispatch_loop (dp_fuel dp) env adv job cfg task snaps (rounds_start dp job_id (store_of sv1)) sv1))"

section \<open>Terminal handling\<close>

definition propagate_job :: "settle_env \<Rightarrow> advancer \<Rightarrow> job_row \<Rightarrow> uuid \<Rightarrow> string \<Rightarrow> server \<Rightarrow> server \<times> (string + unit)" where
  "propagate_job env adv child parent_job_id parent_step sv =
     (let (d, again) = propagate (sn_codecs env) (dp_now (sn_dispatch env)) child parent_job_id parent_step (sv_db sv);
          sv1 = happen (Propagated child parent_job_id parent_step) (put_db d sv)
      in if again then adv parent_job_id sv1 else (sv1, Inr ()))"

definition propagate_up :: "settle_env \<Rightarrow> advancer \<Rightarrow> job_row \<Rightarrow> server \<Rightarrow> server" where
  "propagate_up env adv job sv =
     (case (j_parent_job_id job, j_parent_step_name job) of
        (Some parent, Some parent_step) \<Rightarrow>
          (case propagate_job env adv job parent parent_step sv of
             (sv1, Inr _) \<Rightarrow> sv1
           | (sv1, Inl e) \<Rightarrow> server_log (j_job_id job) (''[orchestration] Failed to propagate to parent job '' @
               dp_show_uuid (sn_dispatch env) parent @ '': '' @ e) sv1)
      | _ \<Rightarrow> sv)"

definition retry_creation :: "settle_env \<Rightarrow> workspace_config \<Rightarrow> job_row \<Rightarrow> retry_request \<Rightarrow> creation_request" where
  "retry_creation env cfg failed_job req =
     (let mode = RetryMode (rq_failed req) (rq_root req) (rq_attempt req);
          base = create_job_for_task_detailed cfg (j_workspace failed_job) (j_task_name failed_job) (rq_input req)
            (rq_source_type req) (Some (rq_source_id req)) (rq_revision req) None (sn_defaults env) Indirect
      in case (rq_git_ref req, rq_revision req) of
           (Some git_ref, Some commit) \<Rightarrow>
             create_job_for_task_pinned cfg (j_workspace failed_job) (j_task_name failed_job) (rq_input req)
               (rq_source_type req) (Some (rq_source_id req)) commit git_ref mode (sn_defaults env) Indirect
         | _ \<Rightarrow> base\<lparr>cr_mode := mode\<rparr>)"

definition create_retry ::
    "settle_env \<Rightarrow> workspace_config \<Rightarrow> task_def \<Rightarrow> job_row \<Rightarrow> server \<Rightarrow> server \<times> (string + (uuid \<times> bool) option)" where
  "create_retry env cfg task failed_job sv =
     (let dp = sn_dispatch env in
      case retry_request_of (dp_show_uuid dp) task failed_job of
        Inl e \<Rightarrow> (sv, Inl e)
      | Inr None \<Rightarrow> (sv, Inr None)
      | Inr (Some req) \<Rightarrow>
          (case create_job (Suc MAX_TASK_DEPTH) dp (retry_creation env cfg failed_job req) (store_of sv) of
             (s, Inl e) \<Rightarrow> (with_store s sv, Inl (''Failed to create retry job: '' @ chain_text e))
           | (s, Inr created) \<Rightarrow>
               (let sv1 = with_store (s\<lparr>st_db := delay_ready_steps (dp_utc_now dp) (rq_delay req) (fst created) (st_db s)\<rparr>) sv
                in (server_log (j_job_id failed_job)
                      (task_retry_message (dp_show_uuid dp) (j_retry_attempt failed_job)
                        (case j_max_retries failed_job of Some mx \<Rightarrow> mx | None \<Rightarrow> 0) (fst created) (rq_delay req))
                      (happen (RetryCreated (j_job_id failed_job) (fst created)) sv1),
                    Inr (Some created)))))"

definition happen_all :: "effect list \<Rightarrow> server \<Rightarrow> server" where
  "happen_all es sv = foldl (\<lambda>sv e. happen e sv) sv es"

definition terminal_actions ::
    "settle_env \<Rightarrow> advancer \<Rightarrow> job_row \<Rightarrow> workspace_config \<Rightarrow> task_def \<Rightarrow> hook_event \<Rightarrow> server \<Rightarrow> server" where
  "terminal_actions env adv job cfg task kind sv =
     (let sv1 = fire_hooks_of_kind env (job_created adv) cfg job task kind (happen (HooksFired (j_job_id job) kind) sv);
          en = \<lparr>en_propagate_error = None, en_task = Some task, en_create = (\<lambda>_. Inl []), en_delay_error = None,
            en_hook_steps = Some (get_steps_for_job (dp_collate (sn_dispatch env)) (j_job_id job) (sv_db sv1))\<rparr>
      in happen_all (hook_failure_log (sn_codecs env) en job @
           [WaitersNotified (j_job_id job) (j_status job) (j_output job)] @ archive_effects job) sv1)"

definition after_claim ::
    "settle_env \<Rightarrow> advancer \<Rightarrow> job_row \<Rightarrow> (workspace_config \<times> task_def) option \<Rightarrow> server \<Rightarrow> server" where
  "after_claim env adv job resolved sv =
     (let plan = terminal_plan_of job; job_id = j_job_id job;
          sv1 = (if tp_propagate plan then propagate_up env adv job sv else sv)
      in case resolved of
           None \<Rightarrow> sv1
         | Some (cfg, task) \<Rightarrow>
             if \<not> tp_retry plan then terminal_actions env adv job cfg task (tp_hooks plan) sv1
             else case create_retry env cfg task job sv1 of
               (sv2, Inr (Some created)) \<Rightarrow>
                 job_created adv created
                   (happen_all (archive_effects job @ [WaitersNotified job_id (j_status job) (j_output job)]) sv2)
             | (sv2, Inr None) \<Rightarrow> terminal_actions env adv job cfg task (hook_kind (j_status job)) sv2
             | (sv2, Inl e) \<Rightarrow> terminal_actions env adv job cfg task (hook_kind (j_status job))
                 (server_log job_id (''[retry] Failed to create retry job: '' @ e) sv2))"

definition finish ::
    "settle_env \<Rightarrow> advancer \<Rightarrow> uuid \<Rightarrow> (workspace_config \<times> task_def) option \<Rightarrow> server \<Rightarrow> server" where
  "finish env adv job_id resolved sv =
     (case job_get job_id (sv_db sv) of
        None \<Rightarrow> sv
      | Some job \<Rightarrow>
          if \<not> is_terminal_status (j_status job) then sv
          else if \<not> drained (sn_drain_error env job_id) job_id (sv_db sv) then sv
          else let (w, won) = claim (sn_claim_error env job_id) (dp_now (sn_dispatch env)) job
                     (clear_cancelled_in job_id (sv_world sv))
               in if won then after_claim env adv job resolved (put_world w sv) else put_world w sv)"

definition advance_with :: "settle_env \<Rightarrow> advancer \<Rightarrow> advancer" where
  "advance_with env adv job_id sv =
     (case job_get job_id (sv_db sv) of
        None \<Rightarrow> (sv, Inr ())
      | Some job \<Rightarrow>
          (case resolve env job sv of
             (sv1, Inl e) \<Rightarrow> (sv1, Inl e)
           | (sv1, Inr resolved) \<Rightarrow>
               (case (if is_terminal_status (j_status job) then (sv1, Inr ())
                      else case resolved of
                             None \<Rightarrow> (sv1, Inr ())
                           | Some (cfg, task) \<Rightarrow> run_live env adv job cfg task sv1) of
                  (sv2, Inl e) \<Rightarrow> (sv2, Inl e)
                | (sv2, Inr _) \<Rightarrow> (finish env adv job_id resolved sv2, Inr ()))))"

fun advance :: "nat \<Rightarrow> settle_env \<Rightarrow> advancer" where
  "advance 0 env = (\<lambda>job_id sv. (sv, Inl OUT_OF_FUEL))"
| "advance (Suc n) env = advance_with env (advance n env)"

section \<open>Entries\<close>

definition step_failed ::
    "settle_env \<Rightarrow> advancer \<Rightarrow> (time \<Rightarrow> json) \<Rightarrow> (job_step_row \<Rightarrow> nat) \<Rightarrow> uuid \<Rightarrow> string \<Rightarrow> string \<Rightarrow> step_status list
       \<Rightarrow> claim_identity option \<Rightarrow> server \<Rightarrow> server \<times> (string + fail_outcome)" where
  "step_failed env adv ts_json delay job_id step_name err expected expected_claim sv =
     (let dp = sn_dispatch env;
          (d, out) = fail_or_retry ts_json (dp_now dp) (dp_utc_now dp) job_id step_name err expected delay expected_claim (sv_db sv);
          sv1 = put_db d sv;
          sv2 = (case retry_log_line step_name out of Some line \<Rightarrow> server_log job_id line sv1 | None \<Rightarrow> sv1)
      in case out of
           FFailed _ _ \<Rightarrow> (case adv job_id sv2 of (sv3, Inl e) \<Rightarrow> (sv3, Inl e) | (sv3, Inr _) \<Rightarrow> (sv3, Inr out))
         | _ \<Rightarrow> (sv2, Inr out))"

definition claimed_step_failed ::
    "settle_env \<Rightarrow> advancer \<Rightarrow> (time \<Rightarrow> json) \<Rightarrow> (job_step_row \<Rightarrow> nat) \<Rightarrow> uuid \<Rightarrow> string \<Rightarrow> string \<Rightarrow> claim_identity option
       \<Rightarrow> server \<Rightarrow> server \<times> (string + fail_outcome)" where
  "claimed_step_failed env adv ts_json delay job_id step_name err held sv =
     step_failed env adv ts_json delay job_id step_name err [Running] held sv"

definition agent_child_created :: "advancer \<Rightarrow> uuid \<times> bool \<Rightarrow> server \<Rightarrow> server \<times> (uuid \<times> string + uuid)" where
  "agent_child_created adv created sv =
     (let sv1 = reconcile adv (fst created) sv;
          status = (case job_get (fst created) (sv_db sv1) of Some j \<Rightarrow> j_status j | None \<Rightarrow> ''unknown'')
      in (sv1, if snd created \<or> is_terminal_status status then Inl (fst created, status) else Inr (fst created)))"

definition agent_children_registered :: "settle_env \<Rightarrow> advancer \<Rightarrow> uuid \<Rightarrow> string \<Rightarrow> server \<Rightarrow> server" where
  "agent_children_registered env adv job_id step_name sv =
     (case Option.bind (find (\<lambda>r. js_step_name r = step_name) (get_steps_for_job (dp_collate (sn_dispatch env)) job_id (sv_db sv)))
             js_agent_state of
        None \<Rightarrow> sv
      | Some v \<Rightarrow>
          (case cd_from_value (sn_codecs env) v of
             None \<Rightarrow> sv
           | Some conv \<Rightarrow>
               foldl (\<lambda>sv tc. case job_get (tc_child_job_id tc) (sv_db sv) of
                        None \<Rightarrow> sv
                      | Some child \<Rightarrow>
                          if is_terminal_status (j_status child) then fst (propagate_job env adv child job_id step_name sv) else sv)
                 sv (cv_pending_tool_calls conv)))"

definition worker_completed_job :: "settle_env \<Rightarrow> advancer \<Rightarrow> uuid \<Rightarrow> json option \<Rightarrow> server \<Rightarrow> server" where
  "worker_completed_job env adv job_id out sv =
     fst (adv job_id (put_db (fst (settle_tx (dp_now (sn_dispatch env)) job_id JCompleted out (sv_db sv))) sv))"

text \<open>Cancelling with the advance of every job that was cancelled, children first.\<close>

fun settle_cancel :: "nat \<Rightarrow> settle_env \<Rightarrow> advancer \<Rightarrow> uuid \<Rightarrow> server \<Rightarrow> server \<times> (string + cancel_result)" where
  "settle_cancel 0 env adv job_id sv = (sv, Inl OUT_OF_FUEL)"
| "settle_cancel (Suc fuel) env adv job_id sv =
     (let now = dp_now (sn_dispatch env) in
      case job_get job_id (sv_db sv) of
        None \<Rightarrow> (sv, Inr CNotFound)
      | Some _ \<Rightarrow>
          if \<not> snd (job_cancel now job_id (sv_db sv)) then (sv, Inr CAlreadyTerminal)
          else let sv1 = put_world (cancel_own now job_id (sv_world sv)) sv;
                   sv2 = foldl (\<lambda>sv child. fst (settle_cancel fuel env adv (j_job_id child) sv)) sv1
                           (get_child_jobs job_id (sv_db sv1))
               in (fst (adv job_id sv2), Inr CCancelled))"

end
