(* ===== verification/Advance_Correct.thy ===== *)
theory Advance_Correct
  imports Advance Hooks_Correct
begin

text \<open>
  The terminal side effects of every job happen once, however deep an advance recurses. The relation
  \<open>follows\<close> says what may become of the effects of every job between two worlds; the locale \<open>advancing\<close> assumes
  it of the advance of other jobs and carries it through all operations of settlement, up to \<open>advance\<close> itself.
\<close>

section \<open>The effects of a settled job\<close>

definition hooks_tail :: "job_row \<Rightarrow> effect list" where
  "hooks_tail job = [HooksFired (j_job_id job) (hook_kind (j_status job)),
     WaitersNotified (j_job_id job) (j_status job) (j_output job)] @ archive_effects job"

definition retry_tail :: "job_row \<Rightarrow> uuid \<Rightarrow> effect list" where
  "retry_tail job new_id = RetryCreated (j_job_id job) new_id # archive_effects job @
     [WaitersNotified (j_job_id job) (j_status job) (j_output job)]"

definition up_effects :: "job_row \<Rightarrow> effect list" where
  "up_effects job =
     (case (j_parent_job_id job, j_parent_step_name job) of
        (Some parent, Some parent_step) \<Rightarrow> [Propagated job parent parent_step] | _ \<Rightarrow> [])"

text \<open>\<open>known\<close>: workspace and task of the job resolve.\<close>

definition aftermath :: "job_row \<Rightarrow> bool \<Rightarrow> effect list \<Rightarrow> bool" where
  "aftermath job known es \<longleftrightarrow> (\<exists>tail. es = up_effects job @ tail \<and>
     (if \<not> known then tail = []
      else tail = hooks_tail job \<or> tp_retry (terminal_plan_of job) \<and> (\<exists>new_id. tail = retry_tail job new_id)))"

definition settled_with :: "uuid \<Rightarrow> effect list \<Rightarrow> bool" where
  "settled_with i es \<longleftrightarrow> (\<exists>job known rest. j_job_id job = i \<and> is_terminal_status (j_status job) \<and>
     es = CountCompleted i (j_status job) # rest \<and> aftermath job known rest)"

text \<open>A claimed job gets no further effects; an unclaimed one stays so or gets all its effects at once.\<close>

definition follows_at :: "uuid \<Rightarrow> world \<Rightarrow> world \<Rightarrow> bool" where
  "follows_at i w w' \<longleftrightarrow>
     (if w_recorded w i = None
      then w_recorded w' i = None \<and> happened i w' = happened i w \<or>
        w_recorded w' i \<noteq> None \<and> (\<exists>es. happened i w' = happened i w @ es \<and> settled_with i es)
      else w_recorded w' i \<noteq> None \<and> happened i w' = happened i w)"

definition follows :: "world \<Rightarrow> world \<Rightarrow> bool" where
  "follows w w' \<longleftrightarrow> (\<forall>i. follows_at i w w')"

definition owns :: "uuid \<Rightarrow> world \<Rightarrow> world \<Rightarrow> effect list \<Rightarrow> bool" where
  "owns i w w' es \<longleftrightarrow> w_recorded w i \<noteq> None \<and> w_recorded w' i \<noteq> None \<and> happened i w' = happened i w @ es \<and>
     (\<forall>k. k \<noteq> i \<longrightarrow> follows_at k w w')"

lemma follows_refl [simp]: "follows w w"
  by (simp add: follows_def follows_at_def)

lemma follows_at_trans: "follows_at i a b \<Longrightarrow> follows_at i b c \<Longrightarrow> follows_at i a c"
  by (auto simp: follows_at_def split: if_splits)

lemma follows_trans [trans]: "follows a b \<Longrightarrow> follows b c \<Longrightarrow> follows a c"
  unfolding follows_def using follows_at_trans by blast

lemma follows_quiet: "w_recorded w' = w_recorded w \<Longrightarrow> (\<And>i. happened i w' = happened i w) \<Longrightarrow> follows w w'"
  by (auto simp: follows_def follows_at_def)

lemma follows_owns: "follows w w' \<Longrightarrow> w_recorded w i \<noteq> None \<Longrightarrow> owns i w w' []"
  unfolding follows_def owns_def follows_at_def by (metis append_Nil2)

lemma owns_trans: "owns i a b es \<Longrightarrow> owns i b c fs \<Longrightarrow> owns i a c (es @ fs)"
  unfolding owns_def using follows_at_trans by auto

section \<open>Elementary changes\<close>

lemma happened_emit: "happened i (emit e w) = happened i w @ (if effect_of i e then [e] else [])"
  by (simp add: happened_def emit_def)

lemma world_simps [simp]:
  "sv_world (with_store s sv) = (sv_world sv)\<lparr>w_db := st_db s\<rparr>"
  "sv_world (put_db d sv) = (sv_world sv)\<lparr>w_db := d\<rparr>"
  "sv_world (put_world w sv) = w"
  "sv_world (happen e sv) = emit e (sv_world sv)"
  "sv_world (server_log i line sv) = emit (ServerLog i line) (sv_world sv)"
  "w_recorded (emit e w) = w_recorded w"
  by (simp_all add: with_store_def put_db_def put_world_def happen_def server_log_def emit_def)

lemma happened_db [simp]: "happened i (w\<lparr>w_db := d\<rparr>) = happened i w"
  by (simp add: happened_def)

lemma follows_db [simp]: "follows w (w\<lparr>w_db := d\<rparr>)"
  by (rule follows_quiet) simp_all

lemma follows_log [simp]: "follows w (emit (ServerLog i line) w)"
  by (rule follows_quiet) (simp_all add: happened_emit)

lemma follows_log_after: "follows w w' \<Longrightarrow> follows w (emit (ServerLog i line) w')"
  by (rule follows_trans [OF _ follows_log])

lemma follows_db_after: "follows w w' \<Longrightarrow> follows w (w'\<lparr>w_db := d\<rparr>)"
  by (rule follows_trans [OF _ follows_db])

lemma owns_emit:
  assumes "own i [e]" and "effect_of i e" and "w_recorded w i \<noteq> None"
  shows "owns i w (emit e w) [e]"
proof -
  have "follows_at k w (emit e w)" if "k \<noteq> i" for k
  proof -
    have "\<not> effect_of k e" using assms(1) that unfolding own_cons by blast
    then show ?thesis by (simp add: follows_at_def happened_emit)
  qed
  then show ?thesis using assms(2,3) by (simp add: owns_def happened_emit)
qed

lemma owns_happen_all:
  assumes "own i es" and "w_recorded (sv_world sv) i \<noteq> None"
  shows "owns i (sv_world sv) (sv_world (happen_all es sv)) (filter (effect_of i) es)"
  using assms
proof (induction es arbitrary: sv)
  case Nil
  then show ?case by (simp add: happen_all_def follows_owns)
next
  case (Cons e es)
  have rest: "owns i (emit e (sv_world sv)) (sv_world (happen_all es (happen e sv))) (filter (effect_of i) es)"
    using Cons.IH [of "happen e sv"] Cons.prems by (simp add: own_cons)
  have "owns i (sv_world sv) (emit e (sv_world sv)) (if effect_of i e then [e] else [])"
  proof (cases "effect_of i e")
    case True
    have "own i [e]" using Cons.prems(1) own_nil unfolding own_cons by blast
    with True show ?thesis using owns_emit [of i e] Cons.prems(2) by simp
  next
    case False
    then have "\<not> effect_of k e" for k using Cons.prems(1) unfolding own_cons by blast
    then have "follows (sv_world sv) (emit e (sv_world sv))" by (intro follows_quiet) (simp_all add: happened_emit)
    then show ?thesis using False follows_owns Cons.prems(2) by simp
  qed
  from owns_trans [OF this rest] show ?case by (cases "effect_of i e") (simp_all add: happen_all_def)
qed

lemma follows_foldl:
  assumes "\<And>sv x. follows (sv_world sv) (sv_world (f sv x))"
  shows "follows (sv_world sv) (sv_world (foldl f sv xs))"
  by (induction xs arbitrary: sv) (auto intro: follows_trans [OF assms])

lemma pin_unavailable_follows: "follows (sv_world sv) (sv_world (pin_unavailable env job pin err sv))"
  by (simp add: pin_unavailable_def Let_def case_prod_beta follows_log_after)

lemma resolve_follows: "follows (sv_world sv) (sv_world (fst (resolve env job sv)))"
  by (simp add: resolve_def Let_def pin_unavailable_follows split: sum.split option.split)

lemma resolve_terminal:
  assumes "is_terminal_status (j_status job)"
  shows "\<exists>resolved. resolve env job sv = (sv, Inr resolved)"
  using assms by (auto simp: resolve_def pin_unavailable_def config_for_user_def Let_def split: sum.split option.split)

lemma failure_log_line: "e \<in> set (hook_failure_log cd en job) \<Longrightarrow> \<exists>i line. e = ServerLog i line"
  unfolding hook_failure_log_def
  apply (split if_split_asm)
   apply (split option.split_asm)
    apply simp
   apply (split option.split_asm)
    apply simp_all
  done

lemma failure_log_foreign: "filter (effect_of i) (hook_failure_log cd en job) = []"
  using failure_log_line by (fastforce simp: filter_empty_conv)

lemma follows_clear: "follows w (clear_cancelled_in i w)"
  by (rule follows_quiet) (simp_all add: clear_cancelled_in_def happened_def)

lemma claim_lost: "claim query_error now job w = (w', False) \<Longrightarrow> follows w w'"
  by (auto simp: claim_def split: option.splits if_splits)

lemma claim_won:
  assumes "claim query_error now job w = (w', True)"
  shows "w_recorded w (j_job_id job) = None" and "w_recorded w' (j_job_id job) \<noteq> None"
    and "happened (j_job_id job) w' = happened (j_job_id job) w @ [CountCompleted (j_job_id job) (j_status job)]"
    and "k \<noteq> j_job_id job \<Longrightarrow> follows_at k w w'"
proof -
  have w': "w' = emit (CountCompleted (j_job_id job) (j_status job)) (w\<lparr>w_recorded := (w_recorded w)(j_job_id job \<mapsto> now)\<rparr>)"
    "w_recorded w (j_job_id job) = None" using assms by (auto simp: claim_def split: option.splits if_splits)
  have h: "happened i (w\<lparr>w_recorded := r\<rparr>) = happened i w" for i r by (simp add: happened_def)
  show "w_recorded w (j_job_id job) = None" "w_recorded w' (j_job_id job) \<noteq> None"
    "happened (j_job_id job) w' = happened (j_job_id job) w @ [CountCompleted (j_job_id job) (j_status job)]"
    using w' by (simp_all add: happened_emit h)
  show "k \<noteq> j_job_id job \<Longrightarrow> follows_at k w w'" using w' by (auto simp: follows_at_def happened_emit h)
qed

section \<open>The contract of an advance\<close>

locale advancing =
  fixes adv :: advancer
  assumes adv_follows: "follows (sv_world sv) (sv_world (fst (adv i sv)))"
begin

lemma reconcile_follows: "follows (sv_world sv) (sv_world (reconcile adv root sv))"
  unfolding reconcile_def by (rule follows_foldl) (rule adv_follows)

lemma job_created_follows: "follows (sv_world sv) (sv_world (job_created adv created sv))"
  unfolding job_created_def
  by (rule follows_trans [OF _ reconcile_follows]) (simp add: adv_follows)

lemma fire_list_follows: "follows (sv_world sv) (sv_world (fire_list env (job_created adv) cfg job event ctx i hooks sv))"
proof (induction hooks arbitrary: i sv)
  case (Cons hook hooks)
  obtain s res where f: "fire_single_hook env cfg job hook ctx (store_of sv) = (s, res)" by force
  let ?sv = "case res of Inr c \<Rightarrow> job_created adv c (with_store s sv)
    | Inl e \<Rightarrow> server_log (j_job_id job) (''[hooks] Failed to fire '' @ event @ ''['' @ show_nat i @ ''] for action '' @
        quote (hd_action hook) @ '': '' @ scrub_hook_error env (chain_text e) cfg) (with_store s sv)"
  have "follows (sv_world (with_store s sv)) (sv_world ?sv)"
    by (cases res) (simp_all add: job_created_follows del: world_simps(1))
  from follows_trans [OF _ this, of "sv_world sv"] have "follows (sv_world sv) (sv_world ?sv)" by simp
  from follows_trans [OF this Cons.IH] show ?case by (simp add: f Let_def)
qed simp

lemma fire_hooks_follows: "follows (sv_world sv) (sv_world (fire_hooks_of_kind env (job_created adv) cfg job task kind sv))"
  by (simp add: fire_hooks_of_kind_def Let_def fire_list_follows split: sum.split)

lemma fire_suspended_follows:
  "follows (sv_world sv) (sv_world (fire_suspended_hooks env (job_created adv) cfg job task step_name message sv))"
  by (simp add: fire_suspended_hooks_def Let_def fire_list_follows)

lemma dispatch_approvals_follows: "follows (sv_world sv) (sv_world (dispatch_approvals env adv job cfg task snaps sv))"
proof -
  have one: "follows (sv_world sv) (sv_world (fire_suspended_hooks env (job_created adv) cfg job task n m (server_log i line sv)))"
    for sv n m i line by (rule follows_trans [OF _ fire_suspended_follows]) simp
  show ?thesis
    unfolding dispatch_approvals_def Let_def case_prod_beta
    by (rule follows_trans [OF _ follows_foldl]) (auto simp: one follows_log_after split: sum.split)
qed

lemma dispatch_round_follows: "follows (sv_world sv) (sv_world (dispatch_round env adv job cfg task snaps sv))"
  unfolding dispatch_round_def Let_def case_prod_beta
  by (rule follows_trans [OF follows_trans [OF _ reconcile_follows] dispatch_approvals_follows])
    (auto simp: follows_log_after follows_db_after split: sum.split)

lemma dispatch_loop_follows: "follows (sv_world sv) (sv_world (fst (dispatch_loop n env adv job cfg task snaps r sv)))"
proof (induction n arbitrary: r sv)
  case (Suc n)
  then show ?case
    using follows_trans [OF dispatch_round_follows Suc.IH] dispatch_round_follows by (simp add: Let_def case_prod_beta)
qed simp

lemma run_live_follows: "follows (sv_world sv) (sv_world (fst (run_live env adv job cfg task sv)))"
proof -
  have "follows (sv_world sv) (sv_world (fst (dispatch_loop n env adv job cfg task snaps r (put_db d sv))))" for n snaps r d
    by (rule follows_trans [OF _ dispatch_loop_follows]) simp
  then show ?thesis by (simp add: run_live_def Let_def split: option.split prod.split sum.split)
qed

section \<open>Terminal handling\<close>

lemma propagate_up_owns:
  assumes "w_recorded (sv_world sv) (j_job_id job) \<noteq> None"
  shows "owns (j_job_id job) (sv_world sv) (sv_world (propagate_up env adv job sv)) (up_effects job)"
proof (cases "(j_parent_job_id job, j_parent_step_name job)" rule: prod.exhaust)
  case (Pair p s)
  show ?thesis
  proof (cases "\<exists>parent step. p = Some parent \<and> s = Some step")
    case True
    then obtain parent step where ps: "p = Some parent" "s = Some step" by blast
    obtain d again where pr: "propagate (sn_codecs env) (dp_now (sn_dispatch env)) job parent step (sv_db sv) = (d, again)" by force
    let ?e = "Propagated job parent step" and ?i = "j_job_id job"
    let ?sv = "happen ?e (put_db d sv)"
    have e: "owns ?i (sv_world sv) (sv_world ?sv) [?e]"
      using owns_trans [OF follows_owns [OF follows_db assms] owns_emit [of ?i ?e "(sv_world sv)\<lparr>w_db := d\<rparr>"]] assms by (simp add: own_def)
    obtain sv1 r where q: "propagate_job env adv job parent step sv = (sv1, r)" by force
    have "follows (sv_world ?sv) (sv_world sv1)"
      using q adv_follows [of ?sv parent] by (auto simp: propagate_job_def pr Let_def split: if_splits)
    then have "follows (sv_world ?sv) (sv_world (propagate_up env adv job sv))"
      using Pair ps q by (cases r) (auto simp: propagate_up_def intro: follows_log_after)
    from owns_trans [OF e follows_owns [OF this]] assms show ?thesis using Pair ps by (simp add: up_effects_def)
  next
    case False
    then show ?thesis using Pair follows_owns [OF follows_refl assms]
      by (auto simp: propagate_up_def up_effects_def split: option.split)
  qed
qed

lemma terminal_actions_owns:
  assumes "w_recorded (sv_world sv) (j_job_id job) \<noteq> None"
  shows "owns (j_job_id job) (sv_world sv) (sv_world (terminal_actions env adv job cfg task (hook_kind (j_status job)) sv))
    (hooks_tail job)"
proof -
  let ?i = "j_job_id job" and ?e = "HooksFired (j_job_id job) (hook_kind (j_status job))"
  let ?sv1 = "fire_hooks_of_kind env (job_created adv) cfg job task (hook_kind (j_status job)) (happen ?e sv)"
  have e: "owns ?i (sv_world sv) (sv_world (happen ?e sv)) [?e]" using owns_emit [of ?i ?e] assms by (simp add: own_def)
  have f: "owns ?i (sv_world (happen ?e sv)) (sv_world ?sv1) []" by (rule follows_owns [OF fire_hooks_follows]) (simp add: assms)
  have r: "w_recorded (sv_world ?sv1) ?i \<noteq> None" using f by (simp add: owns_def)
  have rest: "own ?i (hook_failure_log cd en job @ [WaitersNotified ?i (j_status job) (j_output job)] @ archive_effects job)"
    "filter (effect_of ?i) (hook_failure_log cd en job @ [WaitersNotified ?i (j_status job) (j_output job)] @ archive_effects job) =
       WaitersNotified ?i (j_status job) (j_output job) # archive_effects job" for cd en
    using own_actions [of job cd en HookNone] failure_log_foreign [of ?i cd en job]
    by (simp_all add: run_terminal_actions_def own_simps archive_effects_def)
  show ?thesis
    using owns_trans [OF owns_trans [OF e f] owns_happen_all [OF rest(1) r, unfolded rest(2)]]
    by (simp add: terminal_actions_def Let_def hooks_tail_def)
qed

lemma create_retry_owns:
  assumes "create_retry env cfg task job sv = (sv', res)" and "w_recorded (sv_world sv) (j_job_id job) \<noteq> None"
  shows "owns (j_job_id job) (sv_world sv) (sv_world sv')
    (case res of Inr (Some created) \<Rightarrow> [RetryCreated (j_job_id job) (fst created)] | _ \<Rightarrow> [])"
proof -
  note q = follows_owns [OF _ assms(2)]
  have e: "owns (j_job_id job) (sv_world sv) (emit (ServerLog i line) (emit (RetryCreated (j_job_id job) n) ((sv_world sv)\<lparr>w_db := d\<rparr>)))
      [RetryCreated (j_job_id job) n]" for i line n d
    using owns_trans [OF owns_trans [OF q [OF follows_db] owns_emit [of "j_job_id job" "RetryCreated (j_job_id job) n"]]
        follows_owns [OF follows_log]] assms(2) by (simp add: own_def)
  show ?thesis
    using assms(1) e q [OF follows_refl] q [OF follows_db]
    by (auto simp: create_retry_def Let_def split: sum.splits option.splits prod.splits)
qed

lemma after_claim_owns:
  assumes "w_recorded (sv_world sv) (j_job_id job) \<noteq> None"
  shows "\<exists>es. owns (j_job_id job) (sv_world sv) (sv_world (after_claim env adv job resolved sv)) es \<and>
    aftermath job (resolved \<noteq> None) es"
proof -
  let ?i = "j_job_id job" and ?plan = "terminal_plan_of job"
  let ?sv1 = "if tp_propagate ?plan then propagate_up env adv job sv else sv"
  have up: "owns ?i (sv_world sv) (sv_world ?sv1) (up_effects job)"
  proof (cases "tp_propagate ?plan")
    case False
    then have "up_effects job = []" by (auto simp: terminal_plan_of_def up_effects_def Let_def split: option.split)
    then show ?thesis using False follows_owns [OF follows_refl assms] by simp
  qed (simp add: propagate_up_owns [OF assms])
  then have r: "w_recorded (sv_world ?sv1) ?i \<noteq> None" by (simp add: owns_def)
  show ?thesis
  proof (cases resolved)
    case None
    then show ?thesis using up by (auto simp: after_claim_def aftermath_def Let_def)
  next
    case (Some x)
    obtain cfg task where x: "x = (cfg, task)" by force
    have hooks: "\<exists>es. owns ?i (sv_world sv) (sv_world (terminal_actions env adv job cfg task (hook_kind (j_status job)) sv2)) es \<and>
        aftermath job True es" if "owns ?i (sv_world ?sv1) (sv_world sv2) []" for sv2
      using owns_trans [OF owns_trans [OF up that] terminal_actions_owns [of sv2]] that
      by (auto simp: owns_def aftermath_def)
    show ?thesis
    proof (cases "tp_retry ?plan")
      case False
      then have "tp_hooks ?plan = hook_kind (j_status job)" by (auto simp: terminal_plan_of_def Let_def)
      then show ?thesis using hooks [OF follows_owns [OF follows_refl r]] Some x False by (simp add: after_claim_def Let_def)
    next
      case True
      obtain sv2 res where c: "create_retry env cfg task job ?sv1 = (sv2, res)" by force
      note own = create_retry_owns [OF c r]
      have run: "after_claim env adv job resolved sv =
          (case res of
             Inr (Some created) \<Rightarrow> job_created adv created
               (happen_all (archive_effects job @ [WaitersNotified ?i (j_status job) (j_output job)]) sv2)
           | Inr None \<Rightarrow> terminal_actions env adv job cfg task (hook_kind (j_status job)) sv2
           | Inl e \<Rightarrow> terminal_actions env adv job cfg task (hook_kind (j_status job))
               (server_log ?i (''[retry] Failed to create retry job: '' @ e) sv2))"
        using True Some x c by (simp add: after_claim_def Let_def split: sum.split option.split)
      consider created where "res = Inr (Some created)" | "res = Inr None" | e where "res = Inl e"
        by (metis option.exhaust sum.exhaust)
      then show ?thesis
      proof cases
        case 1
        let ?es = "archive_effects job @ [WaitersNotified ?i (j_status job) (j_output job)]"
        have es: "own ?i ?es" "filter (effect_of ?i) ?es = ?es" by (auto simp: own_def archive_effects_def)
        have r2: "w_recorded (sv_world sv2) ?i \<noteq> None" using own by (simp add: owns_def)
        note h = owns_happen_all [OF es(1) r2, unfolded es(2)]
        have "owns ?i (sv_world (happen_all ?es sv2)) (sv_world (job_created adv created (happen_all ?es sv2))) []"
          by (rule follows_owns [OF job_created_follows]) (use h in \<open>simp add: owns_def\<close>)
        from owns_trans [OF owns_trans [OF owns_trans [OF up own] h] this]
        have "owns ?i (sv_world sv) (sv_world (after_claim env adv job resolved sv)) (up_effects job @ retry_tail job (fst created))"
          unfolding run using 1 by (simp add: retry_tail_def)
        then show ?thesis using True Some by (auto simp: aftermath_def)
      next
        case 2
        then show ?thesis using hooks [of sv2] own unfolding run by (simp add: Some)
      next
        case 3
        have "owns ?i (sv_world ?sv1) (emit (ServerLog ?i line) (sv_world sv2)) []" for line
          using owns_trans [OF own follows_owns [OF follows_log]] own 3 by (simp add: owns_def [of _ "sv_world ?sv1"])
        then show ?thesis using hooks [of "server_log ?i line sv2" for line] 3 unfolding run by (simp add: Some)
      qed
    qed
  qed
qed

lemma finish_won:
  assumes "job_get job_id (sv_db sv) = Some job" and "is_terminal_status (j_status job)"
    and "drained (sn_drain_error env job_id) job_id (sv_db sv)"
    and "claim (sn_claim_error env job_id) (dp_now (sn_dispatch env)) job (clear_cancelled_in job_id (sv_world sv)) = (w, True)"
  shows "\<exists>es. aftermath job (resolved \<noteq> None) es \<and> w_recorded (sv_world sv) job_id = None \<and>
      w_recorded (sv_world (finish env adv job_id resolved sv)) job_id \<noteq> None \<and>
      happened job_id (sv_world (finish env adv job_id resolved sv)) =
        happened job_id (sv_world sv) @ CountCompleted job_id (j_status job) # es"
    and "follows (sv_world sv) (sv_world (finish env adv job_id resolved sv))"
proof -
  have i: "j_job_id job = job_id" using assms(1) by (auto simp: job_get_def select_one_def dest: find_SomeD)
  let ?w0 = "sv_world sv" and ?w1 = "clear_cancelled_in job_id (sv_world sv)" and ?f = "finish env adv job_id resolved sv"
  note c = claim_won [OF assms(4), unfolded i]
  have run: "?f = after_claim env adv job resolved (put_world w sv)" using assms by (simp add: finish_def Let_def)
  obtain es where es: "owns job_id w (sv_world ?f) es" "aftermath job (resolved \<noteq> None) es"
    using after_claim_owns [of "put_world w sv" job env resolved] c(2) i unfolding run by auto
  have quiet: "w_recorded ?w1 = w_recorded ?w0" "happened k ?w1 = happened k ?w0" for k
    by (simp_all add: clear_cancelled_in_def happened_def)
  have own: "w_recorded ?w0 job_id = None" "w_recorded (sv_world ?f) job_id \<noteq> None"
    "happened job_id (sv_world ?f) = happened job_id ?w0 @ CountCompleted job_id (j_status job) # es"
    using c(1,3) es(1) by (simp_all add: owns_def quiet)
  then show "\<exists>es. aftermath job (resolved \<noteq> None) es \<and> w_recorded ?w0 job_id = None \<and> w_recorded (sv_world ?f) job_id \<noteq> None \<and>
      happened job_id (sv_world ?f) = happened job_id ?w0 @ CountCompleted job_id (j_status job) # es" using es(2) by blast
  show "follows ?w0 (sv_world ?f)"
    unfolding follows_def
  proof
    fix k
    show "follows_at k ?w0 (sv_world ?f)"
    proof (cases "k = job_id")
      case True
      have "settled_with job_id (CountCompleted job_id (j_status job) # es)"
        using i assms(2) es(2) unfolding settled_with_def by blast
      then show ?thesis using own True by (auto simp: follows_at_def)
    next
      case False
      have "follows_at k ?w0 ?w1" using follows_clear by (simp add: follows_def)
      then show ?thesis using follows_at_trans [OF _ follows_at_trans [OF c(4) [OF False]]] es(1) False by (simp add: owns_def)
    qed
  qed
qed

lemma finish_follows: "follows (sv_world sv) (sv_world (finish env adv job_id resolved sv))"
proof (cases "job_get job_id (sv_db sv)")
  case (Some job)
  obtain w won where c: "claim (sn_claim_error env job_id) (dp_now (sn_dispatch env)) job (clear_cancelled_in job_id (sv_world sv)) = (w, won)"
    by force
  show ?thesis
  proof (cases "is_terminal_status (j_status job) \<and> drained (sn_drain_error env job_id) job_id (sv_db sv)")
    case True
    show ?thesis
    proof (cases won)
      case w: True
      show ?thesis by (rule finish_won(2)) (use Some True c w in simp_all)
    next
      case False
      then have "finish env adv job_id resolved sv = put_world w sv" using Some True c by (simp add: finish_def Let_def)
      then show ?thesis using follows_trans [OF follows_clear claim_lost] c False by simp
    qed
  qed (use Some in \<open>auto simp: finish_def\<close>)
qed (simp add: finish_def)

lemma advance_with_follows: "follows (sv_world sv) (sv_world (fst (advance_with env adv job_id sv)))"
proof (cases "job_get job_id (sv_db sv)")
  case (Some job)
  obtain sv1 r where r: "resolve env job sv = (sv1, r)" by force
  have s1: "follows (sv_world sv) (sv_world sv1)" using resolve_follows [of sv env job] r by simp
  show ?thesis
  proof (cases r)
    case (Inl e)
    then show ?thesis using Some r s1 by (simp add: advance_with_def)
  next
    case (Inr resolved)
    obtain sv2 r2 where l: "(if is_terminal_status (j_status job) then (sv1, Inr ())
        else case resolved of None \<Rightarrow> (sv1, Inr ()) | Some (cfg, task) \<Rightarrow> run_live env adv job cfg task sv1) = (sv2, r2)" by force
    have "follows (sv_world sv1) (sv_world sv2)"
      using l run_live_follows [of sv1 env job] by (auto split: if_splits option.splits prod.splits) (metis fst_conv)
    then have s2: "follows (sv_world sv) (sv_world sv2)" by (rule follows_trans [OF s1])
    have "fst (advance_with env adv job_id sv) = (case r2 of Inl _ \<Rightarrow> sv2 | Inr _ \<Rightarrow> finish env adv job_id resolved sv2)"
      unfolding advance_with_def Some option.case r prod.case Inr sum.case l by (simp split: sum.split)
    then show ?thesis using s2 follows_trans [OF s2 finish_follows] by (simp split: sum.split)
  qed
qed (simp add: advance_with_def)

end

lemma advance_advancing: "advancing (advance n env)"
proof (induction n)
  case 0
  show ?case by unfold_locales simp
next
  case (Suc n)
  show ?case by unfold_locales (simp add: advancing.advance_with_follows [OF Suc.IH])
qed

interpretation settlement: advancing "advance n env" for n env
  by (rule advance_advancing)

text \<open>
  C4. Terminal handling runs once and to the end. However deep an advance recurses (into the parents it
  propagates to, the retry and hook jobs it creates, the descendants that settled at creation), and
  whatever the cascade and the dispatch write: a job whose handling was claimed before gets no further effect, and one
  that was not either stays unclaimed without effects or gets the whole sequence exactly once: the count, the parent step, then
  either the retry without hooks or the hooks of its status, with the waiters told and the log archived
  last. And if the advanced job is terminal, drained and unclaimed, it gets that sequence, whatever
  happens in the advances of other jobs.
\<close>

theorem advance_handles_once:
  assumes "fst (advance n env job_id sv) = sv'"
  shows "follows (sv_world sv) (sv_world sv') \<and>
    (0 < n \<and> job_get job_id (sv_db sv) = Some job \<and> is_terminal_status (j_status job) \<and>
       drained (sn_drain_error env job_id) job_id (sv_db sv) \<and> sn_claim_error env job_id = None \<and>
       w_recorded (sv_world sv) job_id = None \<longrightarrow>
     (\<exists>resolved es. resolve env job sv = (sv, Inr resolved) \<and> aftermath job (resolved \<noteq> None) es \<and>
        happened job_id (sv_world sv') = happened job_id (sv_world sv) @ CountCompleted job_id (j_status job) # es))"
proof (intro conjI impI)
  show "follows (sv_world sv) (sv_world sv')" using settlement.adv_follows [of sv n env job_id] assms by simp
  assume h: "0 < n \<and> job_get job_id (sv_db sv) = Some job \<and> is_terminal_status (j_status job) \<and>
       drained (sn_drain_error env job_id) job_id (sv_db sv) \<and> sn_claim_error env job_id = None \<and>
       w_recorded (sv_world sv) job_id = None"
  then obtain m where n: "n = Suc m" using gr0_implies_Suc by blast
  obtain resolved where r: "resolve env job sv = (sv, Inr resolved)" using resolve_terminal h by blast
  have run: "sv' = finish env (advance m env) job_id resolved sv" using assms n h r by (simp add: advance_with_def)
  have i: "j_job_id job = job_id" "list_ex (\<lambda>j. j_job_id j = job_id) (jobs (sv_db sv))"
    using h by (auto simp: job_get_def select_one_def list_ex_iff dest: find_SomeD)
  obtain w where c: "claim (sn_claim_error env job_id) (dp_now (sn_dispatch env)) job (clear_cancelled_in job_id (sv_world sv)) = (w, True)"
    using h i by (simp add: claim_def clear_cancelled_in_def)
  show "\<exists>resolved es. resolve env job sv = (sv, Inr resolved) \<and> aftermath job (resolved \<noteq> None) es \<and>
      happened job_id (sv_world sv') = happened job_id (sv_world sv) @ CountCompleted job_id (j_status job) # es"
    using settlement.finish_won(1) [OF _ _ _ c] h r unfolding run by blast
qed

section \<open>Example\<close>

text \<open>
  A child job has completed while the step of its parent still runs; the parent has only this step.
\<close>

definition nest_cfg :: workspace_config where
  "nest_cfg = empty_config\<lparr>wc_tasks := [(''test'', plain_task [(''c'', plain_step [])])]\<rparr>"

definition nest_env :: settle_env where
  "nest_env = calm_settle\<lparr>sn_dispatch := calm_env\<lparr>dp_fuel := 2, dp_creation := main_env\<lparr>ce_refs := (ce_refs main_env)\<lparr>re_live := \<lambda>_. Some nest_cfg\<rparr>\<rparr>\<rparr>\<rparr>"

definition nest_parent :: job_row where
  "nest_parent = (test_default_job 1 0)\<lparr>j_status := ''running''\<rparr>"

definition nest_child :: job_row where
  "nest_child = (test_default_job 2 0)\<lparr>j_status := ''completed'', j_source_type := ''task'', j_parent_job_id := Some 1,
     j_parent_step_name := Some ''c''\<rparr>"

definition nest_server :: server where
  "nest_server = server_with \<lparr>jobs = [nest_parent, nest_child], steps = [step_of 1 ''c'' ''running'']\<rparr>"

theorem advance_handles_once_witness:
  "\<exists>es. happened 2 (sv_world (fst (advance 2 nest_env 2 nest_server))) = CountCompleted 2 ''completed'' # es \<and>
     aftermath nest_child True es"
proof -
  have r: "snd (resolve nest_env nest_child nest_server) = Inr (Some (nest_cfg, plain_task [(''c'', plain_step [])]))"
    by (simp add: resolve_def nest_env_def nest_child_def nest_cfg_def pin_of_job_def config_for_user_def test_default_job_def
        Let_def)
  have h: "0 < (2::nat) \<and> job_get 2 (sv_db nest_server) = Some nest_child \<and> is_terminal_status (j_status nest_child) \<and>
      drained (sn_drain_error nest_env 2) 2 (sv_db nest_server) \<and> sn_claim_error nest_env 2 = None \<and>
      w_recorded (sv_world nest_server) 2 = None"
    by code_simp
  have s: "j_status nest_child = ''completed''" "happened 2 (sv_world nest_server) = []"
    by (simp_all add: nest_child_def nest_server_def server_with_def happened_def)
  from advance_handles_once [OF refl, where n = 2 and env = nest_env and job_id = 2 and sv = nest_server and job = nest_child] h r show ?thesis unfolding s by force
qed

end
