(* ===== verification/Recovery.thy ===== *)
theory Recovery
  imports Advance
begin

text \<open>
  The recovery sweep of the leader (\<^verbatim>\<open>stroem-server/src/recovery.rs\<close>) with its queries (\<^verbatim>\<open>stroem-db/src/repos/worker.rs\<close>,
  \<^verbatim>\<open>job.rs\<close>): steps of silent workers and steps past their timeout fail, jobs past theirs are cancelled, ready steps that
  no worker can run fail, and jobs that nothing else would re-enter are advanced again, in bounded pages that resume after the last
  job that was advanced. Retention is the component Input files and file I/O.
\<close>

section \<open>Workers\<close>

record worker_record = worker_row +
  wk_worker_id :: uuid
  wk_last_heartbeat :: "time option"

definition heartbeat :: "time \<Rightarrow> uuid \<Rightarrow> worker_record list \<Rightarrow> worker_record list" where
  "heartbeat now worker_id ws =
     map (\<lambda>w. if wk_worker_id w = worker_id then w\<lparr>w_status := ''active'', wk_last_heartbeat := Some now\<rparr> else w) ws"

definition heartbeat_stale :: "time \<Rightarrow> int \<Rightarrow> worker_record \<Rightarrow> bool" where
  "heartbeat_stale now timeout_secs w \<longleftrightarrow>
     w_status w = ''active'' \<and> sql_lt (wk_last_heartbeat w) (now - seconds timeout_secs)"

definition mark_stale_inactive :: "time \<Rightarrow> int \<Rightarrow> worker_record list \<Rightarrow> worker_record list \<times> uuid list" where
  "mark_stale_inactive now timeout_secs ws =
     (map (\<lambda>w. if heartbeat_stale now timeout_secs w then w\<lparr>w_status := ''inactive''\<rparr> else w) ws,
      map wk_worker_id (filter (heartbeat_stale now timeout_secs) ws))"

section \<open>Queries\<close>

definition get_timed_out_jobs :: "time \<Rightarrow> db \<Rightarrow> uuid list" where
  "get_timed_out_jobs now d =
     map j_job_id (filter (\<lambda>j. j_status j \<in> {''pending'', ''running''} \<and>
       deadline_passed now (Some (j_created_at j)) (j_timeout_secs j)) (jobs d))"

text \<open>One page: the ids after the cursor in order, then the others from the lowest on.\<close>

definition page_after :: "uuid option \<Rightarrow> nat \<Rightarrow> ('a \<Rightarrow> uuid) \<Rightarrow> 'a list \<Rightarrow> 'a list" where
  "page_after after limit key xs =
     take limit
       (case after of
          None \<Rightarrow> sort_key key xs
        | Some a \<Rightarrow> sort_key key (filter (\<lambda>x. a < key x) xs) @ sort_key key (filter (\<lambda>x. key x \<le> a) xs))"

definition stalled_pinned :: "db \<Rightarrow> job_row \<Rightarrow> bool" where
  "stalled_pinned d j \<longleftrightarrow>
     j_status j \<in> {''pending'', ''running''} \<and> j_git_ref j \<noteq> None \<and>
     \<not> list_ex (\<lambda>r. js_job_id r = j_job_id j \<and> js_status r \<in> {''ready'', ''claimed'', ''running'', ''suspended''}) (steps d) \<and>
     (j_status j = ''running'' \<or>
      list_ex (\<lambda>r. js_job_id r = j_job_id j \<and> js_status r \<in> {''completed'', ''failed'', ''skipped'', ''cancelled''} \<and>
        \<not> js_carried_over r) (steps d))"

definition get_stalled_pinned_jobs :: "uuid option \<Rightarrow> nat \<Rightarrow> db \<Rightarrow> job_row list" where
  "get_stalled_pinned_jobs after limit d = page_after after limit j_job_id (filter (stalled_pinned d) (jobs d))"

definition stranded_deferred :: "time \<Rightarrow> int \<Rightarrow> db \<Rightarrow> job_row \<Rightarrow> bool" where
  "stranded_deferred now older_than_secs d j \<longleftrightarrow>
     j_status j \<in> {''pending'', ''running''} \<and>
     list_ex (\<lambda>r. js_job_id r = j_job_id j \<and> js_status r = ''ready'' \<and> js_action_type r = ''deferred'' \<and>
       sql_lt (js_ready_at r) (now - seconds older_than_secs) \<and>
       (js_resolve_lease_until r = None \<or> sql_lt (js_resolve_lease_until r) now)) (steps d)"

definition get_jobs_with_stranded_deferred_steps :: "time \<Rightarrow> int \<Rightarrow> uuid option \<Rightarrow> nat \<Rightarrow> db \<Rightarrow> uuid list" where
  "get_jobs_with_stranded_deferred_steps now older_than_secs after limit d =
     map j_job_id (page_after after limit j_job_id (filter (stranded_deferred now older_than_secs d) (jobs d)))"

section \<open>The sweep\<close>

text \<open>
  \<open>rv_elapsed\<close> says whether the time budget of a phase is spent before its i-th job, \<open>rv_cached\<close> which commits the pin
  store holds after the jobs so far. A listing that fails ends its phase.
\<close>

record recovery_env =
  rv_settle :: settle_env
  rv_ts_json :: "time \<Rightarrow> json"
  rv_delay :: "job_step_row \<Rightarrow> nat"
  rv_depth :: nat
  rv_heartbeat_timeout :: int
  rv_unmatched_timeout :: int
  rv_max_jobs :: nat
  rv_elapsed :: "nat \<Rightarrow> bool"
  rv_cached :: "nat \<Rightarrow> string \<Rightarrow> string \<Rightarrow> bool"

definition rv_now :: "recovery_env \<Rightarrow> time" where
  "rv_now env = dp_now (sn_dispatch (rv_settle env))"

definition rv_adv :: "recovery_env \<Rightarrow> advancer" where
  "rv_adv env = advance (rv_depth env) (rv_settle env)"

text \<open>Failing one listed step, with the line in its log and the line of a failure to go on.\<close>

definition recover_step ::
    "recovery_env \<Rightarrow> string \<Rightarrow> string \<Rightarrow> string \<Rightarrow> step_status list \<Rightarrow> claim_identity option \<Rightarrow> stale_step_info \<Rightarrow> server \<Rightarrow> server" where
  "recover_step env line err what expected held info sv =
     (let job_id = si_job_id info;
          (sv1, res) = step_failed (rv_settle env) (rv_adv env) (rv_ts_json env) (rv_delay env) job_id (si_step_name info) err
            expected held (server_log job_id line sv)
      in case res of
           Inr _ \<Rightarrow> sv1
         | Inl e \<Rightarrow> server_log job_id (''[recovery] Failed to orchestrate after '' @ what @ '' '' @ quote (si_step_name info) @ '': '' @ e) sv1)"

definition worker_label :: "recovery_env \<Rightarrow> stale_step_info \<Rightarrow> string" where
  "worker_label env info =
     (case si_worker_id info of Some w \<Rightarrow> dp_show_uuid (sn_dispatch (rv_settle env)) w | None \<Rightarrow> ''unknown'')"

definition recover_stale_step :: "recovery_env \<Rightarrow> server \<Rightarrow> stale_step_info \<Rightarrow> server" where
  "recover_stale_step env sv info =
     recover_step env
       (''[recovery] Worker '' @ worker_label env info @ '' unresponsive (heartbeat timeout), failing step '' @ quote (si_step_name info))
       (''Worker heartbeat timeout (worker '' @ worker_label env info @ '' unresponsive)'') ''recovering step'' [Running] (stale_claim info) info sv"

definition recover_timed_out_step :: "recovery_env \<Rightarrow> server \<Rightarrow> stale_step_info \<Rightarrow> server" where
  "recover_timed_out_step env sv info =
     recover_step env (''[recovery] Step '' @ quote (si_step_name info) @ '' timed out, marking as failed'')
       ''Step timed out (server-side enforcement)'' ''step timeout'' [Running] (stale_claim info) info sv"

definition recover_approval :: "recovery_env \<Rightarrow> server \<Rightarrow> stale_step_info \<Rightarrow> server" where
  "recover_approval env sv info =
     recover_step env (''[recovery] Approval step '' @ quote (si_step_name info) @ '' timed out, marking as failed'')
       ''Approval timed out'' ''approval timeout'' [] None info sv"

definition recover_unmatched :: "recovery_env \<Rightarrow> server \<Rightarrow> stale_step_info \<Rightarrow> server" where
  "recover_unmatched env sv info =
     recover_step env (''[recovery] Step '' @ quote (si_step_name info) @ '' has been ready for '' @
         show_nat (nat (rv_unmatched_timeout env)) @ ''s with no matching worker, failing'')
       ''No active worker with required capability/tags to run this step'' ''unmatched step'' [] None info sv"

definition recover_job :: "recovery_env \<Rightarrow> server \<Rightarrow> uuid \<Rightarrow> server" where
  "recover_job env sv job_id =
     (let sv1 = server_log job_id ''[recovery] Job timed out, cancelling'' sv
      in fst (settle_cancel (Suc (live_count (sv_db sv1))) (rv_settle env) (rv_adv env) job_id sv1))"

text \<open>Re-advancing: the jobs of the page that were advanced, and the cursor they leave.\<close>

fun readvance ::
    "recovery_env \<Rightarrow> (nat \<Rightarrow> (string \<times> string) list \<Rightarrow> 'a \<Rightarrow> server \<Rightarrow> (string \<times> string) list) \<Rightarrow> ('a \<Rightarrow> (string \<times> string) option)
       \<Rightarrow> ('a \<Rightarrow> uuid) \<Rightarrow> nat \<Rightarrow> (string \<times> string) list \<Rightarrow> 'a list \<Rightarrow> uuid list \<Rightarrow> server \<Rightarrow> server \<times> uuid list" where
  "readvance env note pin key i unavailable [] advanced sv = (sv, advanced)"
| "readvance env note pin key i unavailable (x # xs) advanced sv =
     (if 0 < i \<and> rv_elapsed env i then (sv, advanced)
      else if (case pin x of Some p \<Rightarrow> p \<in> set unavailable | None \<Rightarrow> False)
      then readvance env note pin key (Suc i) unavailable xs advanced sv
      else let sv1 = fst (rv_adv env (key x) sv)
           in readvance env note pin key (Suc i) (note i unavailable x sv1) xs (advanced @ [key x]) sv1)"

definition next_cursor :: "uuid option \<Rightarrow> uuid list \<Rightarrow> uuid option" where
  "next_cursor after advanced = (if advanced = [] then after else Some (last advanced))"

definition note_unavailable ::
    "recovery_env \<Rightarrow> nat \<Rightarrow> (string \<times> string) list \<Rightarrow> job_row \<Rightarrow> server \<Rightarrow> (string \<times> string) list" where
  "note_unavailable env i unavailable job sv =
     (case j_revision job of
        None \<Rightarrow> unavailable
      | Some commit \<Rightarrow>
          if (case job_get (j_job_id job) (sv_db sv) of Some row \<Rightarrow> j_status row \<in> {''pending'', ''running''} | None \<Rightarrow> False) \<and>
             \<not> rv_cached env i (j_workspace job) commit
          then (j_workspace job, commit) # unavailable else unavailable)"

definition readvance_stalled_pinned_jobs :: "recovery_env \<Rightarrow> uuid option \<Rightarrow> server \<Rightarrow> server \<times> uuid option" where
  "readvance_stalled_pinned_jobs env after sv =
     (let (sv', advanced) = readvance env (note_unavailable env) (\<lambda>j. map_option (\<lambda>c. (j_workspace j, c)) (j_revision j)) j_job_id 0 []
            (get_stalled_pinned_jobs after (rv_max_jobs env) (sv_db sv)) [] sv
      in (sv', next_cursor after advanced))"

definition deferred_page :: "recovery_env \<Rightarrow> uuid option \<Rightarrow> server \<Rightarrow> uuid list" where
  "deferred_page env after sv =
     get_jobs_with_stranded_deferred_steps (rv_now env) (rv_unmatched_timeout env) after (rv_max_jobs env) (sv_db sv)"

definition deferred_run :: "recovery_env \<Rightarrow> uuid option \<Rightarrow> server \<Rightarrow> server \<times> uuid list" where
  "deferred_run env after sv =
     readvance env (\<lambda>_ unavailable _ _. unavailable) (\<lambda>_. None) (\<lambda>i. i) 0 [] (deferred_page env after sv) [] sv"

definition readvance_deferred_steps :: "recovery_env \<Rightarrow> uuid option \<Rightarrow> server \<Rightarrow> server \<times> uuid option" where
  "readvance_deferred_steps env after sv =
     (let (sv', advanced) = deferred_run env after sv in (sv', next_cursor after advanced))"

record recovery_state =
  rs_server :: server
  rs_workers :: "worker_record list"
  rs_pinned_cursor :: "uuid option"
  rs_deferred_cursor :: "uuid option"

definition sweep :: "recovery_env \<Rightarrow> recovery_state \<Rightarrow> recovery_state" where
  "sweep env rs =
     (let now = rv_now env;
          (ws, stale) = mark_stale_inactive now (rv_heartbeat_timeout env) (rs_workers rs);
          sv0 = rs_server rs;
          sv1 = foldl (recover_stale_step env) sv0 (if stale = [] then [] else get_running_steps_for_workers stale (sv_db sv0));
          sv2 = foldl (recover_timed_out_step env) sv1 (get_timed_out_steps now (sv_db sv1));
          sv3 = foldl (recover_approval env) sv2 (get_timed_out_suspended_steps now (sv_db sv2));
          sv4 = foldl (recover_job env) sv3 (get_timed_out_jobs now (sv_db sv3));
          sv5 = foldl (recover_unmatched env) sv4
                  (get_unmatched_ready_steps now (seconds (rv_unmatched_timeout env)) (map worker_row.truncate ws) (sv_db sv4));
          (sv6, pinned_cursor) = readvance_stalled_pinned_jobs env (rs_pinned_cursor rs) sv5;
          (sv7, deferred_cursor) = readvance_deferred_steps env (rs_deferred_cursor rs) sv6
      in \<lparr>rs_server = sv7, rs_workers = ws, rs_pinned_cursor = pinned_cursor, rs_deferred_cursor = deferred_cursor\<rparr>)"

end
