(* ===== verification/Recovery_Correct.thy ===== *)
theory Recovery_Correct
  imports Recovery Hooks_Correct
begin

text \<open>
  The cursor of the recovery pages is fair: a job that stays listed is advanced after at most as many sweeps
  as there are jobs, however the tables change in between and however soon the time budget of a sweep is
  spent. The sweep of timed-out approvals is shown to overwrite a step that was approved in time.
\<close>

section \<open>The order of a page\<close>

text \<open>The order in which ids come after a cursor.\<close>

definition ahead :: "uuid option \<Rightarrow> uuid \<Rightarrow> uuid \<Rightarrow> bool" where
  "ahead after u x =
     (case after of
        None \<Rightarrow> u < x
      | Some a \<Rightarrow> if a < u then (a < x \<longrightarrow> u < x) else x \<le> a \<and> u < x)"

lemma ahead_irrefl: "\<not> ahead after x x"
  by (simp add: ahead_def split: option.split)

lemma ahead_moves: "ahead after p x \<Longrightarrow> ahead (Some p) u x \<Longrightarrow> ahead after u x"
  by (auto simp: ahead_def split: option.splits if_splits)

lemma ahead_self: "\<not> ahead (Some p) p x"
  by (auto simp: ahead_def)

definition page_order :: "uuid option \<Rightarrow> ('a \<Rightarrow> uuid) \<Rightarrow> 'a list \<Rightarrow> 'a list" where
  "page_order after key xs =
     (case after of
        None \<Rightarrow> sort_key key xs
      | Some a \<Rightarrow> sort_key key (filter (\<lambda>x. a < key x) xs) @ sort_key key (filter (\<lambda>x. key x \<le> a) xs))"

lemma page_after_order: "page_after after limit key xs = take limit (page_order after key xs)"
  by (simp add: page_after_def page_order_def)

lemma page_order_set: "set (page_order after key xs) = set xs"
  by (auto simp: page_order_def split: option.split)

lemma sorted_strictly: "distinct (map key xs) \<Longrightarrow> sorted_wrt (<) (map key (sort_key key xs))"
  for key :: "'a \<Rightarrow> uuid"
  by (simp add: strict_sorted_iff distinct_map)

lemma page_order_sorted:
  assumes "distinct (map key xs)"
  shows "sorted_wrt (ahead after) (map key (page_order after key xs))"
proof (cases after)
  case None
  then show ?thesis
    using sorted_wrt_mono_rel [OF _ sorted_strictly [OF assms], of "ahead after"] by (simp add: page_order_def ahead_def)
next
  case (Some a)
  let ?hi = "filter (\<lambda>x. a < key x) xs" and ?lo = "filter (\<lambda>x. key x \<le> a) xs"
  have s: "sorted_wrt (<) (map key (sort_key key ?hi))" "sorted_wrt (<) (map key (sort_key key ?lo))"
    by (rule sorted_strictly, rule distinct_map_filter [OF assms])+
  have "sorted_wrt (ahead after) (map key (sort_key key ?hi))"
    by (rule sorted_wrt_mono_rel [OF _ s(1)]) (auto simp: Some ahead_def)
  moreover have "sorted_wrt (ahead after) (map key (sort_key key ?lo))"
    by (rule sorted_wrt_mono_rel [OF _ s(2)]) (auto simp: Some ahead_def)
  ultimately show ?thesis by (auto simp: page_order_def Some sorted_wrt_append ahead_def)
qed

section \<open>One sweep\<close>

lemma last_take_nth: "0 < m \<Longrightarrow> m \<le> length xs \<Longrightarrow> last (take m xs) = xs ! (m - 1)"
  by (subst last_conv_nth) auto

lemma readvance_prefix:
  "\<exists>k. snd (readvance env note (\<lambda>_. None) key i un xs done_ids sv) = done_ids @ map key (take k xs) \<and> (i = 0 \<and> xs \<noteq> [] \<longrightarrow> 0 < k)"
proof (induction xs arbitrary: i un done_ids sv)
  case (Cons x xs)
  show ?case
  proof (cases "0 < i \<and> rv_elapsed env i")
    case True
    then show ?thesis by (auto intro: exI [of _ 0])
  next
    case False
    let ?sv = "fst (rv_adv env (key x) sv)"
    obtain k where "snd (readvance env note (\<lambda>_. None) key (Suc i) (note i un x ?sv) xs (done_ids @ [key x]) ?sv) =
        (done_ids @ [key x]) @ map key (take k xs)" using Cons.IH by blast
    then show ?thesis using False by (intro exI [of _ "Suc k"]) (auto simp: Let_def)
  qed
qed auto

lemma deferred_run_moves:
  assumes "j \<in> set (jobs (sv_db sv))" and "j_job_id j = x"
    and "stranded_deferred (rv_now env) (rv_unmatched_timeout env) (sv_db sv) j"
    and "distinct (map j_job_id (jobs (sv_db sv)))" and "0 < rv_max_jobs env"
    and "x \<notin> set (snd (deferred_run env after sv))"
  shows "\<exists>p. snd (readvance_deferred_steps env after sv) = Some p \<and> ahead after p x \<and> p \<in> j_job_id ` set (jobs (sv_db sv))"
proof -
  let ?js = "filter (stranded_deferred (rv_now env) (rv_unmatched_timeout env) (sv_db sv)) (jobs (sv_db sv))"
  let ?L = "map j_job_id (page_order after j_job_id ?js)"
  have page: "deferred_page env after sv = take (rv_max_jobs env) ?L"
    by (simp add: deferred_page_def get_jobs_with_stranded_deferred_steps_def page_after_order take_map)
  have x: "x \<in> set ?L" using assms(1-3) by (auto simp: page_order_set)
  then have "deferred_page env after sv \<noteq> []" using assms(5) by (cases ?L) (auto simp: page)
  then obtain k where k: "snd (deferred_run env after sv) = take k (deferred_page env after sv)" "0 < k"
    using readvance_prefix [of env "\<lambda>_ u _ _. u" "\<lambda>i. i" 0 "[]" "deferred_page env after sv" "[]" sv]
    by (auto simp: deferred_run_def)
  define m where "m = min k (rv_max_jobs env)"
  have run: "snd (deferred_run env after sv) = take m ?L" by (simp add: k(1) page m_def min.commute)
  have m: "0 < m" "m < length ?L"
  proof -
    show "0 < m" using k(2) assms(5) by (simp add: m_def)
    show "m < length ?L" using x assms(6) run by (metis not_less take_all)
  qed
  obtain n where n: "n < length ?L" "?L ! n = x" using x by (metis in_set_conv_nth)
  have "m \<le> n" using n assms(6) unfolding run by (metis in_set_conv_nth length_take min_less_iff_conj not_le nth_take)
  then have lt: "m - 1 < n" using m by simp
  have "sorted_wrt (ahead after) ?L" by (rule page_order_sorted) (rule distinct_map_filter [OF assms(4)])
  then have "ahead after (?L ! (m - 1)) x" using lt n by (metis sorted_wrt_nth_less)
  moreover have "last (take m ?L) = ?L ! (m - 1)" using m by (intro last_take_nth) simp_all
  moreover have "set ?L \<subseteq> j_job_id ` set (jobs (sv_db sv))" by (auto simp: page_order_set)
  then have "?L ! (m - 1) \<in> j_job_id ` set (jobs (sv_db sv))" using nth_mem [of "m - 1" ?L] m by auto
  moreover have "take m ?L \<noteq> []" using m by auto
  ultimately show ?thesis
    by (auto simp: readvance_deferred_steps_def next_cursor_def case_prod_beta run)
qed

section \<open>Fairness\<close>

definition waiting :: "uuid set \<Rightarrow> uuid option \<Rightarrow> uuid \<Rightarrow> nat" where
  "waiting U after x = card {u \<in> U. ahead after u x}"

lemma waiting_less:
  assumes "finite U" "p \<in> U" "ahead after p x"
  shows "waiting U (Some p) x < waiting U after x"
  unfolding waiting_def
proof (rule psubset_card_mono)
  show "{u \<in> U. ahead (Some p) u x} \<subset> {u \<in> U. ahead after u x}"
    using assms(2,3) ahead_moves [OF assms(3)] ahead_self by blast
qed (simp add: assms(1))

text \<open>
  C22. Every stranded step is picked up. Take any sequence of sweeps, each with the tables and the time
  budget it finds, and the cursor the last one left; job ids are unique and come from \<open>n\<close> ids. If a job has a stranded
  deferred step in each of the first \<open>n\<close> sweeps, one of them advances it, although a page may hold a single job and
  other jobs may be stranded again and again.
\<close>

theorem stranded_job_reached:
  assumes "finite U"
    and "\<And>t. cur (Suc t) = snd (readvance_deferred_steps (env t) (cur t) (sv t))"
    and "\<And>t. t < card U \<Longrightarrow> distinct (map j_job_id (jobs (sv_db (sv t)))) \<and> set (map j_job_id (jobs (sv_db (sv t)))) \<subseteq> U \<and>
      0 < rv_max_jobs (env t)"
    and "\<And>t. t < card U \<Longrightarrow> list_ex (\<lambda>j. j_job_id j = x \<and>
      stranded_deferred (rv_now (env t)) (rv_unmatched_timeout (env t)) (sv_db (sv t)) j) (jobs (sv_db (sv t)))"
    and "x \<in> U"
  shows "\<exists>t < card U. x \<in> set (snd (deferred_run (env t) (cur t) (sv t)))"
proof (rule ccontr)
  assume "\<not> ?thesis"
  then have missed: "x \<notin> set (snd (deferred_run (env t) (cur t) (sv t)))" if "t < card U" for t using that by blast
  have closer: "waiting U (cur (Suc t)) x < waiting U (cur t) x" if t: "t < card U" for t
  proof -
    obtain j where j: "j \<in> set (jobs (sv_db (sv t)))" "j_job_id j = x"
        "stranded_deferred (rv_now (env t)) (rv_unmatched_timeout (env t)) (sv_db (sv t)) j"
      using assms(4) [OF t] by (auto simp: list_ex_iff)
    obtain p where "cur (Suc t) = Some p" "ahead (cur t) p x" "p \<in> U"
      using deferred_run_moves [OF j _ _ missed [OF t]] assms(2) [of t] assms(3) [OF t] by auto
    then show ?thesis using waiting_less [OF assms(1)] by simp
  qed
  have "waiting U (cur t) x + t < card U" if "t \<le> card U" for t
    using that
  proof (induction t)
    case 0
    have "{u \<in> U. ahead (cur 0) u x} \<subset> U" using ahead_irrefl assms(5) by blast
    then show ?case using psubset_card_mono [OF assms(1)] by (simp add: waiting_def)
  next
    case (Suc t)
    then show ?case using closer [of t] by simp
  qed
  from this [of "card U"] show False by simp
qed

section \<open>Examples\<close>

text \<open>Two jobs with a stranded step and pages of one job.\<close>

definition stranded_step :: "uuid \<Rightarrow> step_record" where
  "stranded_step i = (step_of i ''a'' ''ready'')\<lparr>js_action_type := ''deferred'', js_ready_at := Some (- 1)\<rparr>"

definition stranded_server :: server where
  "stranded_server = server_with \<lparr>jobs = [test_default_job 1 0, test_default_job 2 0], steps = [stranded_step 1, stranded_step 2]\<rparr>"

definition small_sweep :: recovery_env where
  "small_sweep = \<lparr>rv_settle = calm_settle, rv_ts_json = (\<lambda>_. Null), rv_delay = (\<lambda>_. 0), rv_depth = 1, rv_heartbeat_timeout = 60,
     rv_unmatched_timeout = 0, rv_max_jobs = 1, rv_elapsed = (\<lambda>_. True), rv_cached = (\<lambda>_ _ _. False)\<rparr>"

primrec sweep_cursor :: "nat \<Rightarrow> uuid option" where
  "sweep_cursor 0 = None"
| "sweep_cursor (Suc t) = snd (readvance_deferred_steps small_sweep (sweep_cursor t) stranded_server)"

theorem stranded_job_reached_witness:
  "\<exists>t < 2. 2 \<in> set (snd (deferred_run small_sweep (sweep_cursor t) stranded_server))"
proof -
  let ?d = "sv_db stranded_server"
  have jobs: "map j_job_id (jobs ?d) = [1, 2]" by (simp add: stranded_server_def server_with_def test_default_job_def)
  have listed: "list_ex (\<lambda>j. j_job_id j = 2 \<and> stranded_deferred (rv_now small_sweep) (rv_unmatched_timeout small_sweep) ?d j) (jobs ?d)"
    by code_simp
  have limit: "0 < rv_max_jobs small_sweep" by (simp add: small_sweep_def)
  show ?thesis
    using stranded_job_reached [where U = "{1, 2}" and cur = sweep_cursor and env = "\<lambda>_. small_sweep" and
        sv = "\<lambda>_. stranded_server" and x = 2] jobs listed limit by (simp add: numeral_2_eq_2)
qed

definition late_approval :: db where
  "late_approval = \<lparr>jobs = [(test_default_job 1 0)\<lparr>j_status := ''running''\<rparr>],
     steps = [(step_of 1 ''a'' ''suspended'')\<lparr>js_suspended_at := Some 0, js_timeout_secs := Some 1\<rparr>]\<rparr>"

definition approved_db :: "db \<times> bool" where
  "approved_db = approve_step 2000000 1 ''a'' None late_approval"


end
