(* ===== verification/Spec2Isabelle.thy ===== *)
theory Spec2Isabelle
  imports Dag Gate Step_Fencing Step_Claims Settle Acl Restart Duration Git_Ref Cancel Leader_Cluster Creation_Correct
    Trigger_Clock Dispatch_Correct Trigger_Correct Advance_Correct Recovery_Correct
begin

text \<open>
  Verification of the execution core of Stroem, a workflow engine written in Rust.

  \<^bold>\<open>The program.\<close> A task is a graph of steps (\<^verbatim>\<open>flow\<close>). Running it creates a row in the table \<^verbatim>\<open>job\<close> and
  one row per step in \<^verbatim>\<open>job_step\<close>; all state the servers share is in these tables. Workers poll for
  ready steps, claim them, run them and report. After every report a server \<^emph>\<open>advances\<close> the job
  (\<^verbatim>\<open>settlement/mod.rs\<close>): the \<^emph>\<open>cascade\<close> (\<^verbatim>\<open>cascade.rs\<close>) computes from a snapshot which steps become ready,
  are skipped, fail or are expanded into loop instances, and writes that in one transaction; then the
  job is \<^emph>\<open>settled\<close> if all its steps are finished, and the replica that wins a one-shot claim runs the
  terminal side effects: marking the parent step, retrying the job, firing hooks, telling waiters,
  archiving the log. Several servers run at once and share nothing but the database, so every
  statement carries a guard on the status it expects.

  \<^bold>\<open>Theories.\<close> Paths are under \<^verbatim>\<open>src/crates\<close>. Each theory holds the definitions of its component in the
  order of the code, then their lemmas.

  \<^item> \<^verbatim>\<open>Stroem_Prelude\<close>, \<^verbatim>\<open>Json_Value\<close>: strings as UTF-8 bytes, decimal numbers, trimming, searching,
    saturating arithmetic, hash maps as association lists; \<^verbatim>\<open>serde_json::Value\<close>.
  \<^item> \<^verbatim>\<open>Job_Status\<close> (\<^verbatim>\<open>stroem-common/src/models/job.rs\<close>): statuses and their printed forms; the locale
    \<^verbatim>\<open>string_codec\<close> is interpreted for every enumeration.
  \<^item> \<^verbatim>\<open>Depends_On\<close>, \<^verbatim>\<open>Gate\<close>, \<^verbatim>\<open>Workflow_Model\<close>, \<^verbatim>\<open>Dag\<close> (\<^verbatim>\<open>stroem-common/src/depends_on.rs\<close>, \<^verbatim>\<open>dag.rs\<close>,
    \<^verbatim>\<open>gate.rs\<close>, \<^verbatim>\<open>models/workflow.rs\<close>): dependency trees, their validator and JSON
    form; the gate that decides whether a step waits, runs or is omitted; Kahn's algorithm.
  \<^item> \<^verbatim>\<open>Db_Rows\<close>, \<^verbatim>\<open>Job_Store\<close>, \<^verbatim>\<open>Step_Store\<close> (\<^verbatim>\<open>stroem-db/src/repos/job.rs\<close>, \<^verbatim>\<open>job_step.rs\<close>): the tables as
    lists of records and one definition per SQL statement, with its WHERE clause as the guard. The
    locales \<^verbatim>\<open>live_write\<close> and \<^verbatim>\<open>settling_write\<close> state what a guarded statement promises and are
    interpreted for each of them.
  \<^item> \<^verbatim>\<open>Step_Lifecycle\<close>, \<^verbatim>\<open>Step_Claims\<close>, \<^verbatim>\<open>Step_Fencing\<close>: sequences of these statements in any order.
    A finished step stays as it is; claims are exclusive; retries stay in their budget; released
    claims and lost leases can write nothing.
  \<^item> \<^verbatim>\<open>Redaction\<close>, \<^verbatim>\<open>Template_Eval\<close>, \<^verbatim>\<open>File_Field\<close>, \<^verbatim>\<open>Render_Context\<close> (\<^verbatim>\<open>stroem-server/src/workspace_set.rs\<close>,
    \<^verbatim>\<open>render_context.rs\<close>, \<^verbatim>\<open>stroem-common/src/template.rs\<close>, \<^verbatim>\<open>file_field.rs\<close>): what templates see, and that
    secrets and outputs of failed steps do not get there.
  \<^item> \<^verbatim>\<open>Cascade\<close>, \<^verbatim>\<open>Cascade_Rows\<close>, \<^verbatim>\<open>Cascade_Fixpoint\<close>, \<^verbatim>\<open>Cascade_Run\<close>: the pure fixpoint
    (\<^verbatim>\<open>plan\<close>): its phases, that it ends, that its changes are valid where they apply, that its result is
    a fixpoint and that no closed acyclic flow stalls.
  \<^item> \<^verbatim>\<open>Cascade_Apply\<close>, \<^verbatim>\<open>Cascade_Refine\<close>: the transaction that writes a plan with batched statements
    and row counts, the retry loop around it, and the refinement: the tables then hold exactly what
    the fixpoint computed. The locale \<^verbatim>\<open>pending_batch\<close> carries the argument for both kinds of batch.
  \<^item> \<^verbatim>\<open>Settle\<close> (\<^verbatim>\<open>settlement/settle.rs\<close>): the final status and output of a job.
  \<^item> \<^verbatim>\<open>Retry\<close>, \<^verbatim>\<open>Terminal\<close>, \<^verbatim>\<open>Cancel\<close> (\<^verbatim>\<open>settlement/retry.rs\<close>, \<^verbatim>\<open>terminal.rs\<close>, \<^verbatim>\<open>propagate.rs\<close>,
    \<^verbatim>\<open>settlement/mod.rs\<close>, \<^verbatim>\<open>cancellation.rs\<close>): backoff and retry chains; the side effects of a settled
    job and a transition system of concurrent advances; cancellation of a tree of jobs.
  \<^item> \<^verbatim>\<open>Json_Field\<close>, \<^verbatim>\<open>Input_Render\<close>, \<^verbatim>\<open>Connections\<close> (\<^verbatim>\<open>stroem-common/src/json_field.rs\<close>, \<^verbatim>\<open>template.rs\<close>,
    \<^verbatim>\<open>stroem-server/src/workspace_set.rs\<close>): expressions inside JSON values and the positions of their errors;
    rendering of inputs, defaults and re-run sentinels; connections by name across workspaces, with the
    gate on what is shared.
  \<^item> \<^verbatim>\<open>Refs\<close>, \<^verbatim>\<open>Step_Rows\<close>, \<^verbatim>\<open>Job_Creation\<close>, \<^verbatim>\<open>Creation_Correct\<close> (\<^verbatim>\<open>stroem-server/src/refs.rs\<close>, \<^verbatim>\<open>job_creator.rs\<close>,
    \<^verbatim>\<open>stroem-db/src/repos/job_ref_pin.rs\<close>): pinning of refs, the rows of a new job, the creation transaction
    of every kind of job; what holds of the tables after it, and the type invariant of all writes.
  \<^item> \<^verbatim>\<open>Templated_Ref\<close>, \<^verbatim>\<open>Deferred\<close>, \<^verbatim>\<open>Dispatch\<close> (\<^verbatim>\<open>stroem-server/src/refs.rs\<close>, \<^verbatim>\<open>settlement/deferred.rs\<close>,
    \<^verbatim>\<open>settlement/dispatch.rs\<close>, \<^verbatim>\<open>settlement/mod.rs\<close>): refs that are rendered when their step becomes ready, the
    selection of their commit against the pins of other resolvers, the lease of a resolver, the rounds in which
    deferred steps are resolved, task steps start child jobs and approval steps wait, and the creation of
    jobs that recurses through them. \<^verbatim>\<open>Deferred_Correct\<close>: a resolved step runs the commit that is recorded.
  \<^item> \<^verbatim>\<open>Job_Evolution\<close>, \<^verbatim>\<open>Dispatch_Correct\<close>: the locale \<^verbatim>\<open>evolution\<close> carries what holds of the table of jobs
    through all of that; nesting is bounded, and errors of the owner of a ref stay with the owner.
  \<^item> \<^verbatim>\<open>Server_State\<close>, \<^verbatim>\<open>Hooks\<close>, \<^verbatim>\<open>Advance\<close> (\<^verbatim>\<open>settlement/hooks.rs\<close>, \<^verbatim>\<open>settlement/mod.rs\<close>, \<^verbatim>\<open>propagate.rs\<close>, \<^verbatim>\<open>retry.rs\<close>): the whole
    advance of a job, composed of the configuration it runs with, the cascade, the dispatch rounds and the terminal
    handling, which recurses into parents, retries, hooks and descendants; the entries of settlement. In
    \<^verbatim>\<open>Hooks_Correct\<close> the bound on chains of hooks is shown to be exact, in \<^verbatim>\<open>Advance_Correct\<close> the locale \<^verbatim>\<open>advancing\<close> carries
    the exactly-once property of the terminal effects through all of it.
  \<^item> \<^verbatim>\<open>Recovery\<close>, \<^verbatim>\<open>Recovery_Correct\<close> (\<^verbatim>\<open>stroem-server/src/recovery.rs\<close>, \<^verbatim>\<open>stroem-db/src/repos/worker.rs\<close>): the sweep of the leader and
    the fairness of its cursors.
  \<^item> \<^verbatim>\<open>Trigger_Fire\<close>, \<^verbatim>\<open>Trigger_Correct\<close> (\<^verbatim>\<open>stroem-server/src/scheduler.rs\<close>, \<^verbatim>\<open>trigger_target.rs\<close>, \<^verbatim>\<open>web/hooks.rs\<close>):
    firing a trigger under its concurrency policy, webhook calls and their status requests.
  \<^item> \<^verbatim>\<open>Input_Files\<close> (\<^verbatim>\<open>stroem-db/src/repos/input_file.rs\<close>, \<^verbatim>\<open>stroem-server/src/input_files\<close>, the file sweep of
    \<^verbatim>\<open>recovery.rs\<close>): uploads, grants and attachments, and their interleavings with the sweep.
  \<^item> \<^verbatim>\<open>Leader\<close>, \<^verbatim>\<open>Leader_Cluster\<close> (\<^verbatim>\<open>stroem-server/src/leader.rs\<close>): the election loop of a replica, and the
    deployment as a transition system in which at most one replica leads.
  \<^item> \<^verbatim>\<open>Trigger_Clock\<close> (\<^verbatim>\<open>stroem-server/src/scheduler.rs\<close>): the trigger table and the passes of the scheduler,
    compared with a reference that only knows the occurrences.
  \<^item> \<^verbatim>\<open>Restart\<close> (\<^verbatim>\<open>stroem-server/src/restart.rs\<close>): which steps a restart runs again.
  \<^item> \<^verbatim>\<open>Acl\<close> (\<^verbatim>\<open>stroem-server/src/acl.rs\<close>): glob patterns, rules, and the SQL filter of job lists.
  \<^item> \<^verbatim>\<open>Duration\<close> (\<^verbatim>\<open>stroem-common/src/duration.rs\<close>): printing and parsing durations.
  \<^item> \<^verbatim>\<open>Git_Ref\<close> (\<^verbatim>\<open>stroem-common/src/git_ref.rs\<close>): references to branches, tags and commits, also
    rendered ones.

  \<^bold>\<open>Conventions.\<close> A struct is a record whose fields carry a short prefix, an enum a datatype, a
  \<^verbatim>\<open>Result\<close> a sum with the error on the left. \<^verbatim>\<open>i32\<close> columns are integers; where arithmetic on them can
  leave the range, wrapping or saturation is written out. Rows of a table keep their order of
  insertion; statements that read without an ORDER BY are modelled with the order they get. A statement
  that fails is an error value, and a transaction that fails leaves the tables unchanged.

  \<^bold>\<open>Bounds and fuel.\<close> The inner loop of the cascade is a \<^verbatim>\<open>partial_function\<close> into \<^verbatim>\<open>option\<close> and its
  outer loop takes fuel \<open>pass_bound\<close>, the bound the code computes; \<open>cascade_plan_valid\<close> shows that both
  return. \<^verbatim>\<open>execute\<close> tries at most three times, as the code does. Cancellation takes the number of live
  jobs as fuel, and \<open>cancel_reaches_descendants\<close> shows that it is enough. The creation of nested jobs takes
  the nesting as fuel, and \<open>creation_nesting_bounded\<close> shows that one level more than \<^verbatim>\<open>MAX_TASK_DEPTH\<close> gives the
  same result as any larger number. The rounds of deferred steps and of dispatch stop by conditions on the
  tables that others write too, so they take fuel (\<open>dp_fuel\<close>), and running out is an error value; the theorems about
  them hold for every amount. \<open>advance\<close> takes the depth of its recursion as fuel; \<open>advance_handles_once\<close> holds for every depth,
  and one level is enough for the effects of the advanced job itself. Other recursions terminate by a measure.

  \<^bold>\<open>Parameters.\<close> Code outside the repository is an argument: the template engine Tera and \<^verbatim>\<open>serde_json\<close>
  (records \<^verbatim>\<open>engine\<close> and \<^verbatim>\<open>tera\<close>), the resolution of a git ref to a commit and the configuration at a commit
  (\<^verbatim>\<open>ref_env\<close>, with \<^verbatim>\<open>resolve_keeps_ref\<close>), cron expressions and time zones (\<^verbatim>\<open>sched_env\<close>, with \<^verbatim>\<open>cron_law\<close>),
  the store of pinned commits, the pins, leases and recorded refs of other resolvers (\<^verbatim>\<open>dispatch_env\<close>), the digest of
  webhook secrets, PostgreSQL's sessions and advisory locks (\<^verbatim>\<open>keeps_held_sessions\<close>), blob storage, the collation of the database, the printer and parser of ids, the clock, random
  numbers, and PostgreSQL's limit on bound parameters. Concurrent transactions enter through \<^verbatim>\<open>attempt\<close>,
  a change of the tables between two statements, and through the step relation of \<^verbatim>\<open>Terminal\<close>.

  \<^bold>\<open>Not modelled.\<close> Retention of old jobs, logs and caches, workspaces, git, runners, the web, MCP and OAuth front ends,
  agents and log storage are I/O.
\<close>

section \<open>From the last report to the announcement\<close>

lemma finished_not_live:
  assumes "list_all (\<lambda>r. is_terminal (js_status r)) (get_steps_for_job collate job_id d)"
  shows "\<not> has_live_steps job_id d"
proof -
  have "is_terminal (js_status r)" if "r \<in> set (steps d)" "js_job_id r = job_id" for r
    using assms that by (auto simp: get_steps_for_job_def rows_of_def list_all_iff)
  then show ?thesis by (fastforce simp: has_live_steps_def list_ex_iff is_terminal_def)
qed



end
